(* ===== verification/Prelude.thy ===== *)
theory Prelude
  imports Main "HOL-Library.Word"
begin

text \<open>
  What the component theories share: byte strings and their big-endian integers, exact reads from
  a stream, the string helpers of the Go standard library that the sources call, and the two
  interfaces most components rest on: fixed-width codecs and event-driven systems that keep an
  invariant.

  Conventions of the whole development. A Go \<open>[]byte\<close> is a list of \<open>8 word\<close>; a Go \<open>string\<close> is
  the list of its bytes, written as a \<open>string\<close> of HOL. \<open>uint16\<close>, \<open>uint32\<close> and \<open>uint64\<close> are
  words. Signed counters, sizes and durations (in nanoseconds) are \<open>int\<close>; the code bounds them
  far below the 64-bit limit, and where it does not the wrap-around is written out. An \<open>error\<close>
  result is \<open>Inl\<close>, a good one \<open>Inr\<close>.
\<close>

unbundle bit_operations_syntax

type_synonym byte = "8 word"
type_synonym bytes = "8 word list"
type_synonym nanos = int

text \<open>Collections the component proofs pass to the simplifier.\<close>

named_theorems wire_simps "lengths, splits and round trips of encoded integers and exact reads"
named_theorems keeps "preservation of a component's invariant by one operation"

section \<open>Lists and reads\<close>

text \<open>\<open>io.ReadFull\<close> on a stream given by its remaining bytes: \<open>None\<close> is the error of a short
  stream, otherwise the bytes read and the rest.\<close>

definition read_full :: "nat \<Rightarrow> 'a list \<Rightarrow> ('a list \<times> 'a list) option" where
  "read_full n bs = (if length bs < n then None else Some (take n bs, drop n bs))"

lemma read_full_append [wire_simps]: "length xs = n \<Longrightarrow> read_full n (xs @ ys) = Some (xs, ys)"
  by (simp add: read_full_def)

lemma read_full_SomeD: "read_full n bs = Some (xs, ys) \<Longrightarrow> bs = xs @ ys \<and> length xs = n"
  by (auto simp: read_full_def split: if_splits)

lemma read_full_0 [simp]: "read_full 0 bs = Some ([], bs)"
  by (simp add: read_full_def)

lemma read_full_length: "read_full n bs = Some (xs, ys) \<Longrightarrow> length ys + n = length bs"
  by (auto simp: read_full_def split: if_splits)

section \<open>Big-endian integers\<close>

definition be16 :: "16 word \<Rightarrow> bytes" where
  "be16 w = [ucast (drop_bit 8 w), ucast w]"

definition be32 :: "32 word \<Rightarrow> bytes" where
  "be32 w = [ucast (drop_bit 24 w), ucast (drop_bit 16 w), ucast (drop_bit 8 w), ucast w]"

definition be64 :: "64 word \<Rightarrow> bytes" where
  "be64 w = be32 (ucast (drop_bit 32 w)) @ be32 (ucast w)"

definition de16 :: "bytes \<Rightarrow> 16 word" where
  "de16 bs = push_bit 8 (ucast (bs ! 0)) OR ucast (bs ! 1)"

definition de32 :: "bytes \<Rightarrow> 32 word" where
  "de32 bs = push_bit 24 (ucast (bs ! 0)) OR push_bit 16 (ucast (bs ! 1))
     OR push_bit 8 (ucast (bs ! 2)) OR ucast (bs ! 3)"

definition de64 :: "bytes \<Rightarrow> 64 word" where
  "de64 bs = push_bit 32 (ucast (de32 (take 4 bs))) OR ucast (de32 (take 4 (drop 4 bs)))"

text \<open>The interface every fixed-width integer of a wire format offers to the framing code.\<close>

locale fixed_codec =
  fixes enc :: "'a \<Rightarrow> bytes"
    and dec :: "bytes \<Rightarrow> 'a"
    and width :: nat
  assumes enc_length: "length (enc x) = width"
    and dec_enc: "dec (enc x) = x"
begin

lemma read_enc: "read_full width (enc x @ rest) = Some (enc x, rest)"
  by (simp add: read_full_append enc_length)

lemma take_enc: "take width (enc x @ rest) = enc x" and drop_enc: "drop width (enc x @ rest) = rest"
  by (simp_all add: enc_length)

lemma enc_inject: "enc x = enc y \<longleftrightarrow> x = y"
  by (metis dec_enc)

lemma enc_append_inject: "enc x @ xs = enc y @ ys \<longleftrightarrow> x = y \<and> xs = ys"
  using enc_inject enc_length by auto

end

lemma de16_be16: "de16 (be16 w) = w"
  by (rule bit_word_eqI) (auto simp: de16_def be16_def bit_simps)

lemma de32_be32: "de32 (be32 w) = w"
proof (rule bit_word_eqI)
  fix n :: nat
  assume "n < LENGTH(32)"
  then consider "n < 8" | "8 \<le> n" "n < 16" | "16 \<le> n" "n < 24" | "24 \<le> n" "n < 32"
    by fastforce
  then show "bit (de32 (be32 w)) n = bit w n"
    by cases (auto simp: de32_def be32_def bit_simps)
qed

lemma be32_length: "length (be32 w) = 4"
  by (simp add: be32_def)

lemma de64_be64: "de64 (be64 w) = w"
  by (rule bit_word_eqI)
    (auto simp: de64_def be64_def de32_be32 be32_length bit_simps)

interpretation be16: fixed_codec be16 de16 2
  by unfold_locales (simp add: be16_def, rule de16_be16)

interpretation be32: fixed_codec be32 de32 4
  by unfold_locales (rule be32_length, rule de32_be32)

interpretation be64: fixed_codec be64 de64 8
  by unfold_locales (simp add: be64_def be32_length, rule de64_be64)

lemmas be_simps [wire_simps] =
  be16.enc_length be16.dec_enc be16.read_enc be16.take_enc be16.drop_enc
  be32.enc_length be32.dec_enc be32.read_enc be32.take_enc be32.drop_enc
  be64.enc_length be64.dec_enc be64.read_enc be64.take_enc be64.drop_enc

lemma unat_of_nat32 [wire_simps]: "n < 2 ^ 32 \<Longrightarrow> unat (word_of_nat n :: 32 word) = n"
  by (simp add: unsigned_of_nat take_bit_nat_eq_self)

lemma unat_of_nat64 [wire_simps]: "n < 2 ^ 64 \<Longrightarrow> unat (word_of_nat n :: 64 word) = n"
  by (simp add: unsigned_of_nat take_bit_nat_eq_self)

text \<open>What an \<open>int64\<close> operation leaves of its mathematical result.\<close>

definition wrap64 :: "int \<Rightarrow> int" where
  "wrap64 z = (z + 2 ^ 63) mod 2 ^ 64 - 2 ^ 63"

lemma wrap64_small: "- (2 ^ 63) \<le> z \<Longrightarrow> z < 2 ^ 63 \<Longrightarrow> wrap64 z = z"
  by (simp add: wrap64_def)

section \<open>Systems driven by events\<close>

text \<open>A component that owns a state and handles events one at a time (its mutex makes every
  handler atomic): an invariant that the start state has and every step keeps holds after every
  run, and every step of a run starts from a state that has it.\<close>

locale event_system =
  fixes step :: "'s \<Rightarrow> 'e \<Rightarrow> 's"
    and inv :: "'s \<Rightarrow> bool"
  assumes step_keeps: "inv s \<Longrightarrow> inv (step s e)"
begin

lemma run_keeps: "inv s \<Longrightarrow> inv (foldl step s es)"
  by (induction es arbitrary: s) (auto intro: step_keeps)

lemma run_prefix_keeps: "inv s \<Longrightarrow> inv (foldl step s (take n es))"
  by (rule run_keeps)

lemma run_rel:
  assumes "inv s" and refl: "\<And>s. R s s" and trans: "\<And>a b c. R a b \<Longrightarrow> R b c \<Longrightarrow> R a c"
    and one: "\<And>s e. inv s \<Longrightarrow> R s (step s e)"
  shows "R s (foldl step s es)"
  using assms(1)
proof (induction es arbitrary: s)
  case Nil
  then show ?case by (simp add: refl)
next
  case (Cons e es)
  have "R (step s e) (foldl step (step s e) es)"
    using Cons.prems by (intro Cons.IH step_keeps)
  with one[OF Cons.prems] show ?case by (auto intro: trans)
qed

end

end
