(* ===== verification/Wire.thy ===== *)
theory Wire
  imports Prelude
begin

text \<open>
  The message framing of \<open>internal/protocol\<close>: \<open>protocol.go\<close> (plain packets) and
  \<open>interleave.go\<close> (negotiated fragments of bulk messages that let short control messages pass).
  The JSON codec of the message header is a parameter: \<open>jm\<close> marshals a header (\<open>None\<close> is the
  marshalling error), \<open>ju\<close> unmarshals one. The reader is a state machine over the remaining
  bytes of the stream; the writer produces the sequence of transport writes.
\<close>

section \<open>Messages and limits\<close>

definition MaxHeaderSize :: nat where
  "MaxHeaderSize = 1048576"

definition MaxDataSize :: nat where
  "MaxDataSize = 33554432"

definition fragmentFlag :: "32 word" where
  "fragmentFlag = push_bit 31 1"

definition fragmentSize :: nat where
  "fragmentSize = 8192"

definition fragmentHeaderSize :: nat where
  "fragmentHeaderSize = 9"

record 'm header =
  kind :: string
  msg_id :: string
  "method" :: string
  params :: bytes
  ok :: bool
  error :: string
  meta :: 'm

record 'm message =
  hdr :: "'m header"
  data :: bytes

definition Response :: "string \<Rightarrow> bytes \<Rightarrow> 'm \<Rightarrow> 'm message" where
  "Response i d m = \<lparr>hdr = \<lparr>kind = ''response'', msg_id = i, method = [], params = [], ok = True,
     error = [], meta = m\<rparr>, data = d\<rparr>"

definition Failure :: "'m \<Rightarrow> string \<Rightarrow> string \<Rightarrow> 'm message" where
  "Failure nil i e = \<lparr>hdr = \<lparr>kind = ''response'', msg_id = i, method = [], params = [], ok = False,
     error = e, meta = nil\<rparr>, data = []\<rparr>"

datatype wire_error =
    Short_read | Unnegotiated | Invalid_sizes | Bad_header | Invalid_fragment
  | Marshal_error | Header_too_large | Data_too_large | Cancelled_error | Transport_error

section \<open>The reader\<close>

text \<open>\<open>partialMessage\<close>: the header, the buffer of the declared total length, and the count of
  bytes received.\<close>

record 'm partial_message =
  p_hdr :: "'m header"
  p_data :: bytes
  received :: nat

record 'm rconn =
  stream :: bytes
  accept_fragments :: bool
  partial :: "'m partial_message option"

type_synonym 'm read_result = "wire_error + 'm message option"

definition fragment_guard :: "byte \<Rightarrow> 32 word \<Rightarrow> 32 word \<Rightarrow> 32 word \<Rightarrow> bool" where
  "fragment_guard flags off tot ds \<longleftrightarrow>
     flags AND NOT 3 \<noteq> 0 \<or> tot = 0 \<or> unat tot > MaxDataSize \<or> off > tot \<or> ds > tot - off
     \<or> bit flags 1 \<noteq> (off + ds = tot)"

definition buf_write :: "bytes \<Rightarrow> nat \<Rightarrow> bytes \<Rightarrow> bytes" where
  "buf_write buf off d = take off buf @ d @ drop (off + length d) buf"

definition append_fragment ::
  "'m partial_message \<Rightarrow> 32 word \<Rightarrow> 32 word \<Rightarrow> 32 word \<Rightarrow> bool \<Rightarrow> 'm rconn \<Rightarrow> 'm read_result \<times> 'm rconn"
where
  "append_fragment p off tot ds final c =
     (if received p \<noteq> unat off \<or> length (p_data p) \<noteq> unat tot then (Inl Invalid_fragment, c)
      else case read_full (unat ds) (stream c) of
        None \<Rightarrow> (Inl Short_read, c\<lparr>stream := []\<rparr>)
      | Some (d, rest) \<Rightarrow>
          let p' = p\<lparr>p_data := buf_write (p_data p) (unat off) d, received := received p + unat ds\<rparr>
          in if \<not> final then (Inr None, c\<lparr>stream := rest, partial := Some p'\<rparr>)
             else (Inr (Some \<lparr>hdr = p_hdr p', data = p_data p'\<rparr>), c\<lparr>stream := rest, partial := None\<rparr>))"

definition readFragment ::
  "(bytes \<Rightarrow> 'm header option) \<Rightarrow> 32 word \<Rightarrow> 32 word \<Rightarrow> 'm rconn \<Rightarrow> 'm read_result \<times> 'm rconn"
where
  "readFragment ju hs ds c =
     (if unat hs < fragmentHeaderSize \<or> unat hs > MaxHeaderSize + fragmentHeaderSize \<or> ds = 0
         \<or> unat ds > fragmentSize then (Inl Invalid_fragment, c)
      else case read_full (unat hs) (stream c) of
        None \<Rightarrow> (Inl Short_read, c\<lparr>stream := []\<rparr>)
      | Some (h, rest) \<Rightarrow>
          let c = c\<lparr>stream := rest\<rparr>; flags = h ! 0; first = bit flags 0; final = bit flags 1;
              off = de32 (take 4 (drop 1 h)); tot = de32 (take 4 (drop 5 h))
          in if fragment_guard flags off tot ds then (Inl Invalid_fragment, c)
             else if first then
               (if off \<noteq> 0 \<or> partial c \<noteq> None \<or> length h = fragmentHeaderSize
                then (Inl Invalid_fragment, c)
                else case ju (drop fragmentHeaderSize h) of
                  None \<Rightarrow> (Inl Bad_header, c)
                | Some m \<Rightarrow>
                    let p = \<lparr>p_hdr = m, p_data = replicate (unat tot) 0, received = 0\<rparr>
                    in append_fragment p off tot ds final (c\<lparr>partial := Some p\<rparr>))
             else (case partial c of
                None \<Rightarrow> (Inl Invalid_fragment, c)
              | Some p \<Rightarrow>
                  if length h \<noteq> fragmentHeaderSize then (Inl Invalid_fragment, c)
                  else append_fragment p off tot ds final c))"

definition readPacket ::
  "(bytes \<Rightarrow> 'm header option) \<Rightarrow> 'm rconn \<Rightarrow> 'm read_result \<times> 'm rconn"
where
  "readPacket ju c =
     (case read_full 8 (stream c) of
        None \<Rightarrow> (Inl Short_read, c\<lparr>stream := []\<rparr>)
      | Some (sizes, rest) \<Rightarrow>
          let headerSize = de32 (take 4 sizes); dataSize = de32 (drop 4 sizes);
              c = c\<lparr>stream := rest\<rparr>
          in if headerSize AND fragmentFlag \<noteq> 0 then
               (if \<not> accept_fragments c then (Inl Unnegotiated, c)
                else readFragment ju (headerSize AND NOT fragmentFlag) dataSize c)
             else if headerSize = 0 \<or> unat headerSize > MaxHeaderSize \<or> unat dataSize > MaxDataSize
               then (Inl Invalid_sizes, c)
             else case read_full (unat headerSize) rest of
               None \<Rightarrow> (Inl Short_read, c\<lparr>stream := []\<rparr>)
             | Some (h, rest) \<Rightarrow>
                 (case ju h of
                    None \<Rightarrow> (Inl Bad_header, c\<lparr>stream := rest\<rparr>)
                  | Some m \<Rightarrow>
                      (case read_full (unat dataSize) rest of
                         None \<Rightarrow> (Inl Short_read, c\<lparr>stream := []\<rparr>)
                       | Some (d, rest) \<Rightarrow>
                           (Inr (Some \<lparr>hdr = m, data = d\<rparr>), c\<lparr>stream := rest\<rparr>))))"

lemma append_fragment_stream:
  "append_fragment p off tot ds final c = (r, c') \<Longrightarrow> length (stream c') \<le> length (stream c)"
  by (auto simp: append_fragment_def Let_def split: if_splits option.splits dest!: read_full_length)

lemma readFragment_stream:
  "readFragment ju hs ds c = (r, c') \<Longrightarrow> length (stream c') \<le> length (stream c)"
  by (auto simp: readFragment_def Let_def split: if_splits option.splits
      dest!: read_full_length append_fragment_stream)

text \<open>A packet that is not an error takes its eight size bytes from the stream, so the loop of
  \<open>ReadMessage\<close> ends.\<close>

lemma readPacket_consumes:
  assumes "readPacket ju c = (Inr r, c')"
  shows "length (stream c') < length (stream c)"
  using assms
  by (auto simp: readPacket_def Let_def split: if_splits option.splits
      dest!: read_full_length readFragment_stream)

function ReadMessage ::
  "(bytes \<Rightarrow> 'm header option) \<Rightarrow> 'm rconn \<Rightarrow> (wire_error + 'm message) \<times> 'm rconn"
where
  "ReadMessage ju c =
     (case readPacket ju c of
        (Inl e, c') \<Rightarrow> (Inl e, c'\<lparr>partial := None\<rparr>)
      | (Inr (Some m), c') \<Rightarrow> (Inr m, c')
      | (Inr None, c') \<Rightarrow> ReadMessage ju c')"
  by pat_completeness auto
termination
  by (relation "measure (\<lambda>(ju, c). length (stream c))") (auto intro: readPacket_consumes dest: sym)

declare ReadMessage.simps [simp del]


lemma ReadMessage_consumes:
  "ReadMessage ju c = (Inr m, c') \<Longrightarrow> length (stream c') < length (stream c)"
proof (induction ju c rule: ReadMessage.induct)
  case (1 ju c)
  then show ?case
    by (subst (asm) (2) ReadMessage.simps)
      (fastforce split: prod.splits sum.splits option.splits dest: readPacket_consumes)
qed

text \<open>The read loop of a session: the messages delivered until the first error.\<close>

function delivered_messages :: "(bytes \<Rightarrow> 'm header option) \<Rightarrow> 'm rconn \<Rightarrow> 'm message list" where
  "delivered_messages ju c =
     (case ReadMessage ju c of
        (Inl e, c') \<Rightarrow> []
      | (Inr m, c') \<Rightarrow> m # delivered_messages ju c')"
  by pat_completeness auto
termination
  by (relation "measure (\<lambda>(ju, c). length (stream c))") (auto intro: ReadMessage_consumes dest: sym)

declare delivered_messages.simps [simp del]

section \<open>The writer\<close>

text \<open>What happens to one packet: it goes out whole, its context is cancelled before the first
  byte (while it is queued or paced), or the transport fails after some bytes.\<close>

datatype outcome = Sent | Cancelled | Failed nat

record wconn =
  sent :: "bytes list"
  conn_closed :: bool

text \<open>\<open>writeFull\<close> over a transport that accepts a prefix of what it is given in each call:
  \<open>None\<close> is an error of the transport, \<open>Some 0\<close> the short write that ends the loop.\<close>

fun writeFull :: "nat option list \<Rightarrow> bytes \<Rightarrow> bytes \<times> bool" where
  "writeFull _ [] = ([], True)"
| "writeFull [] d = ([], False)"
| "writeFull (None # ns) d = ([], False)"
| "writeFull (Some n # ns) d =
     (if n = 0 then ([], False)
      else case writeFull ns (drop n d) of (out, success) \<Rightarrow> (take n d @ out, success))"

definition packet_writes :: "bytes \<Rightarrow> bytes \<Rightarrow> bool \<Rightarrow> bytes list" where
  "packet_writes header d fragment =
     (let small = 8 + length header + length d \<le> 65536;
          headerSize = word_of_nat (length header);
          headerSize = (if fragment then headerSize OR fragmentFlag else headerSize);
          packet = be32 headerSize @ be32 (word_of_nat (length d)) @ header
      in if small then [packet @ d] else [packet, d])"

definition writePacket ::
  "outcome \<Rightarrow> bytes \<Rightarrow> bytes \<Rightarrow> bool \<Rightarrow> wconn \<Rightarrow> (wire_error + unit) \<times> wconn"
where
  "writePacket out header d fragment w =
     (case out of
        Cancelled \<Rightarrow> (Inl Cancelled_error, w)
      | Failed n \<Rightarrow> (Inl Transport_error,
          w\<lparr>sent := sent w @ [take n (concat (packet_writes header d fragment))], conn_closed := True\<rparr>)
      | Sent \<Rightarrow> (Inr (), w\<lparr>sent := sent w @ packet_writes header d fragment\<rparr>))"

definition fragment_header :: "bytes \<Rightarrow> bytes \<Rightarrow> nat \<Rightarrow> nat \<Rightarrow> bytes" where
  "fragment_header header d off n =
     ((if off = 0 then 1 else 0) OR (if off + n = length d then 2 else 0))
       # be32 (word_of_nat off) @ be32 (word_of_nat (length d)) @ (if off = 0 then header else [])"

function writeFragments ::
  "(nat \<Rightarrow> outcome) \<Rightarrow> bytes \<Rightarrow> bytes \<Rightarrow> nat \<Rightarrow> nat \<Rightarrow> wconn \<Rightarrow> (wire_error + unit) \<times> wconn"
where
  "writeFragments out header d off i w =
     (if off < length d then
        let n = min fragmentSize (length d - off)
        in case writePacket (out i) (fragment_header header d off n) (take n (drop off d)) True w of
             (Inl e, w) \<Rightarrow> (Inl e, if off = 0 then w else w\<lparr>conn_closed := True\<rparr>)
           | (Inr _, w) \<Rightarrow> writeFragments out header d (off + n) (Suc i) w
      else (Inr (), w))"
  by pat_completeness auto
termination
  by (relation "measure (\<lambda>(out, header, d, off, i, w). length d - off)") (auto simp: fragmentSize_def)

declare writeFragments.simps [simp del]

text \<open>\<open>WriteMessageContext\<close>. \<open>interleaved\<close> is the negotiated sending flag, \<open>bulk_ok\<close> tells
  whether the bulk gate was acquired before the context was cancelled, \<open>out i\<close> the fate of the
  \<open>i\<close>-th packet.\<close>

definition WriteMessageContext ::
  "('m header \<Rightarrow> bytes option) \<Rightarrow> bool \<Rightarrow> bool \<Rightarrow> (nat \<Rightarrow> outcome) \<Rightarrow> 'm message \<Rightarrow> wconn
     \<Rightarrow> (wire_error + unit) \<times> wconn"
where
  "WriteMessageContext jm interleaved bulk_ok out m w =
     (case jm (hdr m) of
        None \<Rightarrow> (Inl Marshal_error, w)
      | Some header \<Rightarrow>
          if length header > MaxHeaderSize then (Inl Header_too_large, w)
          else if length (data m) > MaxDataSize then (Inl Data_too_large, w)
          else if interleaved \<and> length (data m) > fragmentSize then
            (if \<not> bulk_ok then (Inl Cancelled_error, w)
             else writeFragments out header (data m) 0 0 w)
          else writePacket (out 0) header (data m) False w)"

text \<open>Whether the packet of a message may pass bulk fragments.\<close>

definition packet_priority :: "bytes \<Rightarrow> bytes \<Rightarrow> bool" where
  "packet_priority header d \<longleftrightarrow> length d + length header \<le> fragmentSize"

text \<open>\<open>SetBulkRate\<close> and the pacing clock of \<open>writeFragments\<close>: the earliest start of the next
  fragment after one of \<open>n\<close> bytes sent at \<open>sentAt\<close> (\<open>None\<close> is the zero time).\<close>

definition SetBulkRate :: "int \<Rightarrow> int" where
  "SetBulkRate bytesPerSecond =
     (let r = (if bytesPerSecond > 0 then min (2 ^ 30) (max 32768 bytesPerSecond) else bytesPerSecond)
      in max 0 r)"

definition bulk_next :: "int \<Rightarrow> nanos \<Rightarrow> nat \<Rightarrow> nanos option" where
  "bulk_next rate sentAt n = (if rate > 0 then Some (sentAt + int n * 1000000000 div rate) else None)"

end
