(* ===== verification/Wire_Props.thy ===== *)
theory Wire_Props
  imports Wire
begin

text \<open>
  Properties of the framing: what one side writes the other side reads, plain or in fragments,
  with control packets in between; the reader's buffer never grows past the declared limits; a
  fragment nobody negotiated is refused.
\<close>

section \<open>Sizes on the wire\<close>

lemma flag_bits: "bit fragmentFlag n \<longleftrightarrow> n = 31"
  unfolding fragmentFlag_def by (simp only: bit_push_bit_iff bit_1_iff) (auto simp: possible_bit_word)

lemma size_bit31: "n < 2 ^ 31 \<Longrightarrow> \<not> bit (word_of_nat n :: 32 word) 31"
  by (simp add: bit_of_nat_iff bit_iff_odd[of n])

lemma flag_plain [wire_simps]:
  assumes "n < 2 ^ 31" shows "(word_of_nat n :: 32 word) AND fragmentFlag = 0"
  using size_bit31[OF assms] by (intro bit_word_eqI) (auto simp: bit_and_iff flag_bits)

lemma flag_set [wire_simps]: "(w OR fragmentFlag) AND fragmentFlag \<noteq> 0"
proof
  assume "(w OR fragmentFlag) AND fragmentFlag = 0"
  then have "\<not> bit ((w OR fragmentFlag) AND fragmentFlag) 31" by simp
  then show False by (simp add: bit_simps flag_bits)
qed

lemma flag_clear [wire_simps]:
  assumes "n < 2 ^ 31"
  shows "(word_of_nat n OR fragmentFlag) AND NOT fragmentFlag = (word_of_nat n :: 32 word)"
  using size_bit31[OF assms] by (intro bit_word_eqI) (auto simp: bit_simps flag_bits)

lemma unat_size [wire_simps]: "n < 2 ^ 32 \<Longrightarrow> unat (word_of_nat n :: 32 word) = n"
  by (simp add: unat_of_nat)

lemma size_eq_0 [wire_simps]: "n < 2 ^ 32 \<Longrightarrow> (word_of_nat n :: 32 word) = 0 \<longleftrightarrow> n = 0"
  using unat_size[of n] by (metis unat_0 unsigned_eq_0_iff)

lemma size_le [wire_simps]:
  "m < 2 ^ 32 \<Longrightarrow> n < 2 ^ 32 \<Longrightarrow> (word_of_nat m :: 32 word) \<le> word_of_nat n \<longleftrightarrow> m \<le> n"
  by (simp add: word_le_nat_alt unat_size)

lemma size_less [wire_simps]:
  "m < 2 ^ 32 \<Longrightarrow> n < 2 ^ 32 \<Longrightarrow> (word_of_nat m :: 32 word) < word_of_nat n \<longleftrightarrow> m < n"
  by (simp add: word_less_nat_alt unat_size)

lemma size_eq [wire_simps]:
  "m < 2 ^ 32 \<Longrightarrow> n < 2 ^ 32 \<Longrightarrow> (word_of_nat m :: 32 word) = word_of_nat n \<longleftrightarrow> m = n"
  using unat_size by metis

lemma size_diff_less [wire_simps]:
  "m \<le> k \<Longrightarrow> k < 2 ^ 32 \<Longrightarrow> n < 2 ^ 32 \<Longrightarrow>
    (word_of_nat k - word_of_nat m :: 32 word) < word_of_nat n \<longleftrightarrow> k - m < n"
  using size_less[of "k - m" n] by simp

lemma size_add_eq [wire_simps]:
  "m + n < 2 ^ 32 \<Longrightarrow> k < 2 ^ 32 \<Longrightarrow>
    (word_of_nat m + word_of_nat n :: 32 word) = word_of_nat k \<longleftrightarrow> m + n = k"
  using size_eq[of "m + n" k] by simp

lemmas limits = MaxHeaderSize_def MaxDataSize_def fragmentSize_def fragmentHeaderSize_def

section \<open>One packet\<close>

lemma concat_packet_writes [wire_simps]:
  "concat (packet_writes h d fragment) =
     be32 (if fragment then word_of_nat (length h) OR fragmentFlag else word_of_nat (length h))
       @ be32 (word_of_nat (length d)) @ h @ d"
  by (simp add: packet_writes_def Let_def)

lemma read_sizes [wire_simps]: "read_full 8 (be32 a @ be32 b @ rest) = Some (be32 a @ be32 b, rest)"
  using read_full_append[of "be32 a @ be32 b" 8 rest] by (simp add: wire_simps)

lemma read_fragment_fields [wire_simps]:
  "read_full 9 (f # be32 a @ be32 b @ rest) = Some (f # be32 a @ be32 b, rest)"
  using read_full_append[of "f # be32 a @ be32 b" 9 rest] by (simp add: wire_simps)

lemma read_first_fields [wire_simps]:
  "length h = k \<Longrightarrow> read_full (9 + k) (f # be32 a @ be32 b @ h @ rest) = Some (f # be32 a @ be32 b @ h, rest)"
  using read_full_append[of "f # be32 a @ be32 b @ h" "9 + k" rest] by (simp add: wire_simps)

lemma unat_size_9 [wire_simps]:
  "k \<le> 1048576 \<Longrightarrow> unat (9 + word_of_nat k :: 32 word) = 9 + k"
  using unat_size[of "9 + k"] by simp

lemma drop4_be32 [wire_simps]: "drop 4 (be32 a @ rest) = rest"
  by (simp add: wire_simps)

lemma readPacket_plain:
  assumes "0 < length h" "length h \<le> MaxHeaderSize" "length d \<le> MaxDataSize" "ju h = Some m"
    and "stream c = concat (packet_writes h d False) @ rest"
  shows "readPacket ju c = (Inr (Some \<lparr>hdr = m, data = d\<rparr>), c\<lparr>stream := rest\<rparr>)"
  using assms by (simp add: readPacket_def wire_simps limits Let_def)

text \<open>The buffer after the first \<open>off\<close> bytes of a bulk message.\<close>

definition partial_at :: "'m header \<Rightarrow> bytes \<Rightarrow> nat \<Rightarrow> 'm partial_message option" where
  "partial_at m d off =
     (if off = 0 \<or> length d \<le> off then None
      else Some \<lparr>p_hdr = m, p_data = take off d @ replicate (length d - off) 0, received = off\<rparr>)"

lemma buf_write_next:
  "off + n \<le> length d \<Longrightarrow> buf_write (take off d @ replicate (length d - off) 0) off (take n (drop off d))
     = take (off + n) d @ replicate (length d - (off + n)) 0"
  by (simp add: buf_write_def take_add min_absorb2)

lemma buf_write_last:
  "off \<le> length d \<Longrightarrow> buf_write (take off d @ replicate (length d - off) 0) off (drop off d) = d"
  by (simp add: buf_write_def)

lemma flag_byte_bits:
  fixes b c :: bool
  defines "f \<equiv> (if b then 1 else 0) OR (if c then 2 else 0 :: byte)"
  shows "bit f 0 = b" "bit f (Suc 0) = c" "f AND NOT 3 = 0"
  by (cases b; cases c; simp add: f_def)+

lemma readPacket_flagged:
  assumes "length fh < 2 ^ 31" "accept_fragments c"
    and "stream c = concat (packet_writes fh d True) @ rest"
  shows "readPacket ju c =
    readFragment ju (word_of_nat (length fh)) (word_of_nat (length d)) (c\<lparr>stream := fh @ d @ rest\<rparr>)"
  using assms(2,3)
  by (simp add: readPacket_def wire_simps Let_def flag_set[simplified] flag_clear[OF assms(1)])

lemma readFragment_first:
  assumes "0 < length h" "length h \<le> MaxHeaderSize" "ju h = Some m" "length d \<le> MaxDataSize"
    and "0 < n" "n \<le> fragmentSize" "n \<le> length d" "partial c = None"
    and "stream c = fragment_header h d 0 n @ take n d @ rest"
  shows "readFragment ju (word_of_nat (length (fragment_header h d 0 n))) (word_of_nat n) c =
    (if n = length d then Inr (Some \<lparr>hdr = m, data = d\<rparr>) else Inr None,
     c\<lparr>stream := rest, partial := partial_at m d n\<rparr>)"
  using assms less_le_trans[OF assms(5,7)]
  by (simp add: readFragment_def append_fragment_def fragment_guard_def fragment_header_def
      wire_simps limits Let_def partial_at_def buf_write_def)

lemma readFragment_next:
  assumes "0 < off" "length d \<le> MaxDataSize" "0 < n" "n \<le> fragmentSize" "off + n \<le> length d"
    and "partial c = partial_at m d off"
    and "stream c = fragment_header h d off n @ take n (drop off d) @ rest"
  shows "readFragment ju (word_of_nat (length (fragment_header h d off n))) (word_of_nat n) c =
    (if off + n = length d then Inr (Some \<lparr>hdr = m, data = d\<rparr>) else Inr None,
     c\<lparr>stream := rest, partial := partial_at m d (off + n)\<rparr>)"
proof -
  have room: "d \<noteq> []" "\<not> length d - off < n" using assms by auto
  show ?thesis
    using assms room
  by (simp add: readFragment_def append_fragment_def fragment_guard_def fragment_header_def
      wire_simps limits Let_def partial_at_def buf_write_next buf_write_last)
qed

lemma fragment_header_length [wire_simps]:
  "length (fragment_header h d off n) = 9 + (if off = 0 then length h else 0)"
  by (simp add: fragment_header_def wire_simps)

lemma readPacket_fragment:
  assumes h: "0 < length h" "length h \<le> MaxHeaderSize" "ju h = Some m"
    and d: "length d \<le> MaxDataSize" "0 < n" "n \<le> fragmentSize" "off + n \<le> length d"
    and c: "accept_fragments c" "partial c = partial_at m d off"
      "stream c = concat (packet_writes (fragment_header h d off n) (take n (drop off d)) True) @ rest"
  shows "readPacket ju c =
    (if off + n = length d then Inr (Some \<lparr>hdr = m, data = d\<rparr>) else Inr None,
     c\<lparr>stream := rest, partial := partial_at m d (off + n)\<rparr>)"
proof -
  define fh where "fh = fragment_header h d off n"
  define c' where "c' = c\<lparr>stream := fh @ take n (drop off d) @ rest\<rparr>"
  have len: "length fh < 2 ^ 31" "length (take n (drop off d)) = n"
    using h d by (auto simp: fh_def wire_simps limits)
  have "readPacket ju c = readFragment ju (word_of_nat (length fh)) (word_of_nat n) c'"
    using readPacket_flagged[OF len(1) c(1) c(3)[folded fh_def]] len(2) by (simp add: c'_def)
  also have "\<dots> = (if off + n = length d then Inr (Some \<lparr>hdr = m, data = d\<rparr>) else Inr None,
     c'\<lparr>stream := rest, partial := partial_at m d (off + n)\<rparr>)"
  proof (cases "off = 0")
    case True
    have "partial c' = None" "stream c' = fragment_header h d 0 n @ take n d @ rest"
      using True c(2) by (simp_all add: c'_def fh_def partial_at_def)
    from readFragment_first[of h ju m d n c' rest, OF h d(1-3) _ this] True d(4) show ?thesis by (simp add: fh_def)
  next
    case False
    then have pos: "0 < off" by simp
    have "partial c' = partial_at m d off"
      "stream c' = fragment_header h d off n @ take n (drop off d) @ rest"
      using c(2) by (simp_all add: c'_def fh_def)
    from readFragment_next[of off d n c' m h rest ju, OF pos d(1-4) this] show ?thesis by (simp add: fh_def)
  qed
  finally show ?thesis by (simp add: c'_def)
qed


section \<open>Whole messages\<close>

text \<open>A schedule of the connection's writer: \<open>Some (h, d)\<close> is a plain packet, \<open>None\<close> the next
  fragment of the bulk message \<open>(h, d)\<close>. \<open>weave\<close> is what goes on the wire from offset \<open>off\<close>,
  \<open>woven\<close> the messages it stands for, \<open>fits\<close> that the bulk message has that many fragments left.\<close>

definition frag_len :: "bytes \<Rightarrow> nat \<Rightarrow> nat" where
  "frag_len d off = min fragmentSize (length d - off)"

fun weave :: "bytes \<Rightarrow> bytes \<Rightarrow> nat \<Rightarrow> (bytes \<times> bytes) option list \<Rightarrow> bytes" where
  "weave h d off [] = []"
| "weave h d off (Some (ph, pd) # es) = concat (packet_writes ph pd False) @ weave h d off es"
| "weave h d off (None # es) =
     concat (packet_writes (fragment_header h d off (frag_len d off))
       (take (frag_len d off) (drop off d)) True) @ weave h d (off + frag_len d off) es"

fun fits :: "bytes \<Rightarrow> nat \<Rightarrow> (bytes \<times> bytes) option list \<Rightarrow> bool" where
  "fits d off [] = True"
| "fits d off (Some _ # es) = fits d off es"
| "fits d off (None # es) = (off < length d \<and> fits d (off + frag_len d off) es)"

fun woven :: "(bytes \<Rightarrow> 'm header) \<Rightarrow> 'm header \<Rightarrow> bytes \<Rightarrow> nat \<Rightarrow> (bytes \<times> bytes) option list
    \<Rightarrow> 'm message list" where
  "woven dec m d off [] = []"
| "woven dec m d off (Some (ph, pd) # es) = \<lparr>hdr = dec ph, data = pd\<rparr> # woven dec m d off es"
| "woven dec m d off (None # es) =
     (if off + frag_len d off = length d then [\<lparr>hdr = m, data = d\<rparr>] else [])
       @ woven dec m d (off + frag_len d off) es"

definition plain_ok :: "(bytes \<Rightarrow> 'm header option) \<Rightarrow> bytes \<times> bytes \<Rightarrow> bool" where
  "plain_ok ju p \<longleftrightarrow> 0 < length (fst p) \<and> length (fst p) \<le> MaxHeaderSize
     \<and> length (snd p) \<le> MaxDataSize \<and> ju (fst p) \<noteq> None"

lemma frag_len_bounds:
  "off < length d \<Longrightarrow> 0 < frag_len d off \<and> frag_len d off \<le> fragmentSize
     \<and> off + frag_len d off \<le> length d"
  by (auto simp: frag_len_def fragmentSize_def)

lemma frag_len_less:
  "off < length d \<Longrightarrow> length d - (off + frag_len d off) < length d - off"
  using frag_len_bounds[of off d] by linarith

lemma partial_at_end [simp]: "partial_at m d 0 = None" "partial_at m d (length d) = None"
  by (simp_all add: partial_at_def)

lemma delivered_stop [simp]: "stream c = [] \<Longrightarrow> delivered_messages ju c = []"
  by (simp add: delivered_messages.simps ReadMessage.simps readPacket_def read_full_def)

lemma delivered_message:
  "readPacket ju c = (Inr (Some m), c') \<Longrightarrow> delivered_messages ju c = m # delivered_messages ju c'"
  by (subst delivered_messages.simps) (simp add: ReadMessage.simps)

lemma delivered_continue:
  "readPacket ju c = (Inr None, c') \<Longrightarrow> delivered_messages ju c = delivered_messages ju c'"
  by (subst (1 2) delivered_messages.simps) (simp add: ReadMessage.simps[of ju c])

lemma delivered_weave:
  assumes h: "0 < length h" "length h \<le> MaxHeaderSize" "ju h = Some m" and d: "length d \<le> MaxDataSize"
    and "\<forall>p. Some p \<in> set es \<longrightarrow> plain_ok ju p" "fits d off es" "off \<le> length d"
    and "accept_fragments c" "partial c = partial_at m d off" "stream c = weave h d off es"
  shows "delivered_messages ju c = woven (\<lambda>b. the (ju b)) m d off es"
  using assms(5-)
proof (induction es arbitrary: off c)
  case Nil
  then show ?case by simp
next
  case (Cons e es)
  show ?case
  proof (cases e)
    case (Some p)
    obtain ph pd where p: "p = (ph, pd)" by fastforce
    have "plain_ok ju p" using Cons.prems(1) Some by (cases p) auto
    then obtain pm where ok: "0 < length ph" "length ph \<le> MaxHeaderSize"
      "length pd \<le> MaxDataSize" "ju ph = Some pm" by (auto simp: plain_ok_def p)
    let ?c = "c\<lparr>stream := weave h d off es\<rparr>"
    have "readPacket ju c = (Inr (Some \<lparr>hdr = pm, data = pd\<rparr>), ?c)"
      using Cons.prems(6) Some p by (intro readPacket_plain[where ju = ju, OF ok(1,2,3,4)]) simp
    moreover have "delivered_messages ju ?c = woven (\<lambda>b. the (ju b)) m d off es"
      using Cons.prems Some by (intro Cons.IH) auto
    ultimately show ?thesis using ok(4) Some p by (simp add: delivered_message)
  next
    case None
    let ?n = "frag_len d off" and ?c = "c\<lparr>stream := weave h d (off + frag_len d off) es,
      partial := partial_at m d (off + frag_len d off)\<rparr>"
    have off: "off < length d" using Cons.prems(2) None by simp
    note b = frag_len_bounds[OF off]
    have rd: "readPacket ju c = (if off + ?n = length d then Inr (Some \<lparr>hdr = m, data = d\<rparr>) else Inr None, ?c)"
      using Cons.prems(4-) None b by (intro readPacket_fragment[where ju = ju, OF h d]) auto
    have IH: "delivered_messages ju ?c = woven (\<lambda>b. the (ju b)) m d (off + ?n) es"
      using Cons.prems None b by (intro Cons.IH) auto
    show ?thesis
    proof (cases "off + ?n = length d")
      case True
      with rd IH None show ?thesis by (simp add: delivered_message)
    next
      case False
      with rd IH None show ?thesis by (simp add: delivered_continue)
    qed
  qed
qed

section \<open>The writer against the schedule\<close>

lemma writePacket_Sent [simp]:
  "writePacket Sent h d f w = (Inr (), w\<lparr>sent := sent w @ packet_writes h d f\<rparr>)"
  by (simp add: writePacket_def)

lemma writeFragments_done [simp]:
  "length d \<le> off \<Longrightarrow> writeFragments out h d off i w = (Inr (), w)"
  by (simp add: writeFragments.simps)

text \<open>How many fragments are left at an offset.\<close>

definition frags_left :: "bytes \<Rightarrow> nat \<Rightarrow> nat" where
  "frags_left d off = (length d - off + fragmentSize - 1) div fragmentSize"

lemma frags_left_step:
  "off < length d \<Longrightarrow> frags_left d off = Suc (frags_left d (off + frag_len d off))"
proof -
  assume "off < length d"
  define r where "r = length d - off"
  have "0 < r" "length d - (off + frag_len d off) = r - fragmentSize"
    using \<open>off < length d\<close> by (auto simp: r_def frag_len_def)
  moreover have "(8191 + r) div 8192 = Suc ((8191 + (r - 8192)) div 8192)"
    using \<open>0 < r\<close> by (cases "r \<le> 8192") (auto simp: div_if not_le)
  ultimately show ?thesis by (simp add: frags_left_def fragmentSize_def flip: r_def)
qed

lemma frags_left_end [simp]: "length d \<le> off \<Longrightarrow> frags_left d off = 0"
  by (simp add: frags_left_def fragmentSize_def)

lemma writeFragments_Sent:
  assumes "off < length d"
  shows "writeFragments (\<lambda>_. Sent) h d off i w =
    writeFragments (\<lambda>_. Sent) h d (off + frag_len d off) (Suc i)
      (w\<lparr>sent := sent w @ packet_writes (fragment_header h d off (frag_len d off))
         (take (frag_len d off) (drop off d)) True\<rparr>)"
  using assms by (subst writeFragments.simps) (simp add: frag_len_def Let_def)

lemma writeFragments_weave:
  "fst (writeFragments (\<lambda>_. Sent) h d off i w) = Inr () \<and>
   concat (sent (snd (writeFragments (\<lambda>_. Sent) h d off i w))) =
     concat (sent w) @ weave h d off (replicate (frags_left d off) None)"
proof (induction "length d - off" arbitrary: off i w rule: less_induct)
  case less
  show ?case
  proof (cases "off < length d")
    case True
    from less[OF frag_len_less[OF True]] show ?thesis
      by (simp add: writeFragments_Sent[OF True] frags_left_step[OF True])
  qed simp
qed

lemma fits_replicate: "fits d off (replicate (frags_left d off) None)"
proof (induction "length d - off" arbitrary: off rule: less_induct)
  case less
  show ?case
  proof (cases "off < length d")
    case True
    from less[OF frag_len_less[OF True]] True show ?thesis by (simp add: frags_left_step[OF True])
  qed simp
qed

lemma woven_replicate:
  "off < length d \<Longrightarrow> woven dec m d off (replicate (frags_left d off) None) = [\<lparr>hdr = m, data = d\<rparr>]"
proof (induction "length d - off" arbitrary: off rule: less_induct)
  case less
  note b = frag_len_bounds[OF less.prems]
  show ?case
  proof (cases "off + frag_len d off = length d")
    case False
    then have "woven dec m d (off + frag_len d off)
        (replicate (frags_left d (off + frag_len d off)) None) = [\<lparr>hdr = m, data = d\<rparr>]"
      using b less.prems by (intro less.hyps) auto
    with False show ?thesis by (simp add: frags_left_step[OF less.prems])
  qed (simp add: frags_left_step[OF less.prems])
qed

section \<open>Properties\<close>

text \<open>The bytes of a message that goes out whole, and what a reader makes of them, whatever follows.\<close>

lemma delivered_fragments:
  assumes h: "0 < length h" "length h \<le> MaxHeaderSize" "ju h = Some m" and d: "length d \<le> MaxDataSize"
    and "off < length d" "accept_fragments c" "partial c = partial_at m d off"
    and "stream c = weave h d off (replicate (frags_left d off) None) @ rest"
  shows "delivered_messages ju c = \<lparr>hdr = m, data = d\<rparr> # delivered_messages ju (c\<lparr>stream := rest, partial := None\<rparr>)"
  using assms(5-)
proof (induction "length d - off" arbitrary: off c rule: less_induct)
  case less
  let ?n = "frag_len d off" and ?more = "weave h d (off + frag_len d off) (replicate (frags_left d (off + frag_len d off)) None) @ rest"
  let ?c = "c\<lparr>stream := ?more, partial := partial_at m d (off + ?n)\<rparr>"
  note b = frag_len_bounds[OF less.prems(1)]
  have rd: "readPacket ju c = (if off + ?n = length d then Inr (Some \<lparr>hdr = m, data = d\<rparr>) else Inr None, ?c)"
    using less.prems b by (intro readPacket_fragment[where ju = ju, OF h d]) (auto simp: frags_left_step)
  show ?case
  proof (cases "off + ?n = length d")
    case True
    then show ?thesis using delivered_message[of ju c, unfolded rd] by simp
  next
    case False
    have "delivered_messages ju ?c = \<lparr>hdr = m, data = d\<rparr> # delivered_messages ju (?c\<lparr>stream := rest, partial := None\<rparr>)"
      using False b less.prems by (intro less.hyps frag_len_less) auto
    moreover have "delivered_messages ju c = delivered_messages ju ?c" using rd False by (intro delivered_continue) simp
    ultimately show ?thesis by simp
  qed
qed

text \<open>The header a reader gets: what \<open>Unmarshal\<close> makes of the text that \<open>Marshal\<close> made of it.\<close>

definition as_read :: "('m header \<Rightarrow> bytes option) \<Rightarrow> (bytes \<Rightarrow> 'n header option) \<Rightarrow> 'm header \<Rightarrow> 'n header" where
  "as_read jm ju x = the (ju (the (jm x)))"

lemma message_delivered:
  assumes w: "WriteMessageContext jm interleaved True (\<lambda>_. Sent) m w = (Inr (), w')"
    and json: "\<forall>h. jm (hdr m) = Some h \<longrightarrow> h \<noteq> [] \<and> ju h \<noteq> None"
  obtains bs where "concat (sent w') = concat (sent w) @ bs"
    "\<And>c rest. \<lbrakk>interleaved \<longrightarrow> accept_fragments c; partial c = None; stream c = bs @ rest\<rbrakk> \<Longrightarrow>
       delivered_messages ju c = \<lparr>hdr = as_read jm ju (hdr m), data = data m\<rparr> # delivered_messages ju (c\<lparr>stream := rest\<rparr>)"
proof -
  from w obtain h where h: "jm (hdr m) = Some h" "length h \<le> MaxHeaderSize" "length (data m) \<le> MaxDataSize"
    by (auto simp: WriteMessageContext_def split: option.splits if_splits)
  then have ok: "0 < length h" "ju h = Some (as_read jm ju (hdr m))" using json by (auto simp: as_read_def)
  show thesis
  proof (cases "interleaved \<and> fragmentSize < length (data m)")
    case True
    then have pos: "0 < length (data m)" by auto
    show thesis
    proof (rule that)
      show "concat (sent w') = concat (sent w) @ weave h (data m) 0 (replicate (frags_left (data m) 0) None)"
        using True w h writeFragments_weave[of h "data m" 0 0 w] by (simp add: WriteMessageContext_def)
      show "delivered_messages ju c = \<lparr>hdr = as_read jm ju (hdr m), data = data m\<rparr> # delivered_messages ju (c\<lparr>stream := rest\<rparr>)"
        if "interleaved \<longrightarrow> accept_fragments c" "partial c = None"
          "stream c = weave h (data m) 0 (replicate (frags_left (data m) 0) None) @ rest" for c rest
      proof -
        have "c\<lparr>stream := rest, partial := None\<rparr> = c\<lparr>stream := rest\<rparr>" using that(2) by (cases c) simp
        moreover have "delivered_messages ju c = \<lparr>hdr = as_read jm ju (hdr m), data = data m\<rparr> # delivered_messages ju (c\<lparr>stream := rest, partial := None\<rparr>)"
          using True that by (intro delivered_fragments[where ju = ju, OF ok(1) h(2) ok(2) h(3) pos]) auto
        ultimately show ?thesis by simp
      qed
    qed
  next
    case False
    show thesis
    proof (rule that)
      show "concat (sent w') = concat (sent w) @ concat (packet_writes h (data m) False)"
        using False w h by (auto simp: WriteMessageContext_def split: if_splits)
      show "delivered_messages ju c = \<lparr>hdr = as_read jm ju (hdr m), data = data m\<rparr> # delivered_messages ju (c\<lparr>stream := rest\<rparr>)"
        if "interleaved \<longrightarrow> accept_fragments c" "partial c = None" "stream c = concat (packet_writes h (data m) False) @ rest" for c rest
        using readPacket_plain[where ju = ju, OF ok(1) h(2,3) ok(2) that(3)] by (rule delivered_message)
    qed
  qed
qed

text \<open>Messages written one after the other.\<close>

fun write_all :: "('m header \<Rightarrow> bytes option) \<Rightarrow> bool \<Rightarrow> 'm message list \<Rightarrow> wconn \<Rightarrow> (wire_error + unit) \<times> wconn" where
  "write_all jm interleaved [] w = (Inr (), w)"
| "write_all jm interleaved (m # ms) w =
     (case WriteMessageContext jm interleaved True (\<lambda>_. Sent) m w of
        (Inl e, w) \<Rightarrow> (Inl e, w)
      | (Inr _, w) \<Rightarrow> write_all jm interleaved ms w)"

lemma messages_delivered:
  assumes "\<forall>m \<in> set ms. \<forall>h. jm (hdr m) = Some h \<longrightarrow> h \<noteq> [] \<and> ju h \<noteq> None" "write_all jm interleaved ms w = (Inr (), w')"
  shows "\<exists>bs. concat (sent w') = concat (sent w) @ bs
    \<and> (\<forall>c. (interleaved \<longrightarrow> accept_fragments c) \<and> partial c = None \<and> stream c = bs
          \<longrightarrow> delivered_messages ju c = map (\<lambda>m. \<lparr>hdr = as_read jm ju (hdr m), data = data m\<rparr>) ms)"
  using assms
proof (induction ms arbitrary: w)
  case (Cons m ms)
  then obtain w1 where one: "WriteMessageContext jm interleaved True (\<lambda>_. Sent) m w = (Inr (), w1)" "write_all jm interleaved ms w1 = (Inr (), w')"
    by (auto split: prod.splits sum.splits)
  have "\<forall>h. jm (hdr m) = Some h \<longrightarrow> h \<noteq> [] \<and> ju h \<noteq> None" using Cons.prems(1) by simp
  from message_delivered[where ju = ju, OF one(1) this] obtain bs where bs: "concat (sent w1) = concat (sent w) @ bs"
    "\<And>c rest. \<lbrakk>interleaved \<longrightarrow> accept_fragments c; partial c = None; stream c = bs @ rest\<rbrakk> \<Longrightarrow>
       delivered_messages ju c = \<lparr>hdr = as_read jm ju (hdr m), data = data m\<rparr> # delivered_messages ju (c\<lparr>stream := rest\<rparr>)" by blast
  from Cons.IH[OF _ one(2)] Cons.prems(1) obtain more where more: "concat (sent w') = concat (sent w1) @ more"
    "\<forall>c. (interleaved \<longrightarrow> accept_fragments c) \<and> partial c = None \<and> stream c = more
          \<longrightarrow> delivered_messages ju c = map (\<lambda>m. \<lparr>hdr = as_read jm ju (hdr m), data = data m\<rparr>) ms" by auto
  show ?case using bs more by (intro exI[of _ "bs @ more"]) simp
qed simp

text \<open>C17: Delivery. Whatever messages are written one after the other, each as one packet or, when interleaving is negotiated and its
  data is long, as fragments, a reader with no half-received message delivers exactly these messages from the bytes
  written, in their order, nothing else and nothing less: the data of each byte for byte, and of each header what \<open>json.Unmarshal\<close>
  makes of the text that \<open>json.Marshal\<close> made of it. That is not always the header itself (invalid UTF-8 becomes U+FFFD,
  raw parameters are compacted, the numbers of \<open>Meta\<close> become \<open>float64\<close>). Of JSON only this is assumed: a header's text is not
  empty, and \<open>Unmarshal\<close> accepts it.\<close>

theorem write_read_roundtrip:
  assumes json: "\<forall>m \<in> set ms. \<forall>h. jm (hdr m) = Some h \<longrightarrow> h \<noteq> [] \<and> ju h \<noteq> None"
    and w: "write_all jm interleaved ms \<lparr>sent = [], conn_closed = False\<rparr> = (Inr (), w')"
    and neg: "interleaved \<longrightarrow> accept_fragments c"
    and c: "partial c = None" "stream c = concat (sent w')"
  shows "delivered_messages ju c = map (\<lambda>m. \<lparr>hdr = the (ju (the (jm (hdr m)))), data = data m\<rparr>) ms"
  using messages_delivered[OF json w] neg c by (auto simp: as_read_def)

text \<open>Interleaving. However control packets are scheduled between the fragments of one bulk
  message, the reader delivers every control message in order, and the bulk message exactly once,
  complete, at the point of its last fragment.\<close>

theorem interleaved_delivery:
  assumes "h \<noteq> []" "ju h = Some m" "length h \<le> MaxHeaderSize" "length d \<le> MaxDataSize"
    and "\<forall>p. Some p \<in> set es \<longrightarrow> plain_ok ju p" "fits d 0 es"
    and "accept_fragments c" "partial c = None" "stream c = weave h d 0 es"
  shows "delivered_messages ju c = woven (\<lambda>b. the (ju b)) m d 0 es"
  using assms by (intro delivered_weave) auto

text \<open>C31: No silent truncation. If sending fails for any reason at any packet, then either not one
  byte of the message reached the transport, and the session is untouched, or the connection is
  closed, so that a half-written message is never followed by another one.\<close>

theorem failed_write_is_clean_or_closed:
  assumes "WriteMessageContext jm interleaved bulk_ok out m w = (Inl e, w')"
  shows "w' = w \<or> conn_closed w'"
proof -
  have frag: "conn_closed w' \<or> off = 0 \<and> w' = w"
    if "writeFragments out h d off i w = (Inl e, w')" for h d off i w
    using that
  proof (induction out h d off i w rule: writeFragments.induct)
    case (1 out h d off i w)
    from "1.prems" show ?case
      by (subst (asm) writeFragments.simps)
        (fastforce dest!: "1.IH" simp: writePacket_def Let_def fragmentSize_def
          split: outcome.splits if_splits prod.splits sum.splits)
  qed
  show ?thesis
    using assms frag[of h "data m" 0 0 w for h]
    by (auto simp: WriteMessageContext_def writePacket_def split: option.splits if_splits outcome.splits)
qed


text \<open>The state of the reader that bounds its memory: a half-received message has a buffer of at
  most the maximal data size and is not complete.\<close>

definition reader_wf :: "'m rconn \<Rightarrow> bool" where
  "reader_wf c = (case partial c of None \<Rightarrow> True
     | Some p \<Rightarrow> length (p_data p) \<le> MaxDataSize \<and> received p < length (p_data p))"

lemma guard_room:
  assumes "\<not> fragment_guard f off tot ds"
  shows "unat off + unat ds \<le> unat tot" "tot \<noteq> 0" "unat tot \<le> MaxDataSize"
    "bit f 1 \<longleftrightarrow> unat off + unat ds = unat tot"
proof -
  from assms have le: "off \<le> tot" "ds \<le> tot - off" and flag: "bit f 1 \<longleftrightarrow> off + ds = tot"
    by (auto simp: fragment_guard_def not_less)
  show room: "unat off + unat ds \<le> unat tot"
    using le unat_sub[OF le(1)] by (simp add: word_le_nat_alt)
  show "tot \<noteq> 0" "unat tot \<le> MaxDataSize" using assms by (auto simp: fragment_guard_def)
  have "unat tot < 2 ^ LENGTH(32)" by (rule unsigned_less)
  then have "unat (off + ds) = unat off + unat ds"
    using room by (intro unat_add_lem[THEN iffD1]) simp
  with flag show "bit f 1 \<longleftrightarrow> unat off + unat ds = unat tot"
    by (simp add: word_unat_eq_iff)
qed

definition bounded_result :: "'m read_result \<times> 'm rconn \<Rightarrow> bool" where
  "bounded_result rc \<longleftrightarrow> reader_wf (snd rc)
     \<and> (\<forall>m. fst rc = Inr (Some m) \<longrightarrow> length (data m) \<le> MaxDataSize)"

lemma bounded_error [simp]: "bounded_result (Inl e, c) \<longleftrightarrow> reader_wf c"
  by (simp add: bounded_result_def)

lemma reader_wf_stream [simp]: "reader_wf (c\<lparr>stream := s\<rparr>) \<longleftrightarrow> reader_wf c"
  by (simp add: reader_wf_def)

lemma append_fragment_bounded:
  assumes "\<not> fragment_guard f off tot ds" "reader_wf c"
  shows "bounded_result (append_fragment p off tot ds (bit f (Suc 0)) c)"
  using assms(2) guard_room[OF assms(1)]
  by (auto simp: append_fragment_def bounded_result_def reader_wf_def buf_write_def Let_def
      split: option.split dest!: read_full_SomeD)

lemma readFragment_bounded:
  assumes "reader_wf c" shows "bounded_result (readFragment ju hs ds c)"
proof -
  have "reader_wf (c\<lparr>stream := s, partial := Some \<lparr>p_hdr = m, p_data = replicate (unat tot) 0, received = 0\<rparr>\<rparr>)"
    if "\<not> fragment_guard f off tot ds" for s m f off tot
    using guard_room[OF that] by (simp add: reader_wf_def unat_gt_0)
  then show ?thesis
    using assms by (auto simp: readFragment_def Let_def split: option.split intro!: append_fragment_bounded)
qed

lemma readPacket_bounded:
  assumes "reader_wf c" shows "bounded_result (readPacket ju c)"
proof -
  have "bounded_result (Inr (Some \<lparr>hdr = m, data = d\<rparr>), c\<lparr>stream := s\<rparr>)"
    if "read_full n rest = Some (d, s)" "\<not> n > MaxDataSize" for n m d s rest
    using assms that by (auto simp: bounded_result_def dest!: read_full_SomeD)
  then show ?thesis
    using assms by (auto simp: readPacket_def Let_def not_less split: option.split
        intro!: readFragment_bounded)
qed

text \<open>Bounded memory. From any reader state whose half-received message is within the limits,
  every packet, well-formed or hostile, leaves such a state, and a message it delivers carries at
  most \<open>MaxDataSize\<close> bytes of data.\<close>

theorem reader_stays_bounded:
  assumes "reader_wf c" "readPacket ju c = (r, c')"
  shows "reader_wf c' \<and> (\<forall>m. r = Inr (Some m) \<longrightarrow> length (data m) \<le> MaxDataSize)"
  using readPacket_bounded[OF assms(1), of ju] assms(2) by (simp add: bounded_result_def)

text \<open>Pacing is bounded. A configured bulk rate is either off or between 32 KiB/s and 1 GiB/s,
  so after one fragment the writer never waits longer than a quarter of a second.\<close>

theorem bulk_pacing_bounded:
  assumes "n \<le> fragmentSize" "bulk_next (SetBulkRate r) sentAt n = Some t"
  shows "r > 0 \<and> 32768 \<le> SetBulkRate r \<and> SetBulkRate r \<le> 2 ^ 30 \<and> sentAt \<le> t \<and> t \<le> sentAt + 250000000"
proof -
  have "int n * 1000000000 div rate \<le> 250000000" if "32768 \<le> rate" for rate
  proof -
    have "int n * 1000000000 div rate \<le> int n * 1000000000 div 32768"
      using that by (intro zdiv_mono2) auto
    also have "\<dots> \<le> 8192 * 1000000000 div 32768"
      using assms(1) by (intro zdiv_mono1) (auto simp: fragmentSize_def)
    finally show ?thesis by simp
  qed
  moreover have "0 \<le> int n * 1000000000 div rate" if "32768 \<le> rate" for rate
    using that by (intro pos_imp_zdiv_nonneg_iff[THEN iffD2]) auto
  ultimately show ?thesis
    using assms(2) by (auto simp: SetBulkRate_def bulk_next_def Let_def split: if_splits)
qed

section \<open>Witnesses\<close>

text \<open>A codec that replaces a bad byte of the method, as JSON does.\<close>

definition w_hdr :: "unit header" where
  "w_hdr = \<lparr>kind = ''event'', msg_id = [], method = ''frame'', params = [], ok = True, error = [], meta = ()\<rparr>"

definition w_bad :: "unit header" where
  "w_bad = w_hdr\<lparr>method := [char_of (255 :: nat)]\<rparr>"

definition w_replaced :: "unit header" where
  "w_replaced = w_hdr\<lparr>method := map char_of [0xEF, 0xBF, 0xBD :: nat]\<rparr>"

definition w_marshal :: "unit header \<Rightarrow> bytes option" where
  "w_marshal h = (if h = w_hdr then Some [123] else if h = w_bad then Some [124] else None)"

definition w_unmarshal :: "bytes \<Rightarrow> unit header option" where
  "w_unmarshal b = (if b = [123] then Some w_hdr else if b = [124] then Some w_replaced else None)"

lemma w_headers: "w_marshal w_hdr = Some [123]" "w_marshal w_bad = Some [124]" "w_unmarshal [123] = Some w_hdr" "w_unmarshal [124] = Some w_replaced"
  by (simp_all add: w_marshal_def w_unmarshal_def w_bad_def w_hdr_def)

definition w_bulk :: "unit message" where
  "w_bulk = \<lparr>hdr = w_hdr, data = replicate 9000 7\<rparr>"

definition w_small :: "unit message" where
  "w_small = \<lparr>hdr = w_bad, data = [5]\<rparr>"

lemma w_written:
  "fst (write_all w_marshal True [w_bulk, w_small] \<lparr>sent = [], conn_closed = False\<rparr>) = Inr ()"
  using writeFragments_weave[of "[123]" "data w_bulk" 0 0 "\<lparr>sent = [], conn_closed = False\<rparr>"]
  by (auto simp: WriteMessageContext_def w_headers w_bulk_def w_small_def limits split: prod.splits)

lemma write_read_roundtrip_witness:
  "delivered_messages w_unmarshal
     \<lparr>stream = concat (sent (snd (write_all w_marshal True [w_bulk, w_small] \<lparr>sent = [], conn_closed = False\<rparr>))),
       accept_fragments = True, partial = None\<rparr> = [w_bulk, \<lparr>hdr = w_replaced, data = [5]\<rparr>]"
proof -
  have "write_all w_marshal True [w_bulk, w_small] \<lparr>sent = [], conn_closed = False\<rparr> =
    (Inr (), snd (write_all w_marshal True [w_bulk, w_small] \<lparr>sent = [], conn_closed = False\<rparr>))"
    using w_written by (metis prod.collapse)
  from write_read_roundtrip[where ju = w_unmarshal, OF _ this, where c = "\<lparr>stream = concat (sent (snd (write_all w_marshal True
      [w_bulk, w_small] \<lparr>sent = [], conn_closed = False\<rparr>))), accept_fragments = True, partial = None\<rparr>"]
  show ?thesis by (simp add: w_headers w_bulk_def w_small_def)
qed

lemma interleaved_delivery_witness:
  "delivered_messages w_unmarshal
     \<lparr>stream = weave [123] (data w_bulk) 0 [None, Some ([123], [5]), None], accept_fragments = True,
      partial = None\<rparr> = [\<lparr>hdr = w_hdr, data = [5]\<rparr>, w_bulk]"
  by (subst interleaved_delivery[where h = "[123]" and m = w_hdr and d = "data w_bulk"
        and es = "[None, Some ([123], [5]), None]"])
    (simp_all add: w_marshal_def w_unmarshal_def w_bulk_def limits frag_len_def plain_ok_def)

lemma failed_write_is_clean_or_closed_witness:
  "conn_closed (snd (WriteMessageContext w_marshal False True (\<lambda>_. Failed 3) w_bulk
     \<lparr>sent = [], conn_closed = False\<rparr>))"
  using failed_write_is_clean_or_closed[of w_marshal False True "\<lambda>_. Failed 3" w_bulk
      "\<lparr>sent = [], conn_closed = False\<rparr>" Transport_error]
  by (simp add: WriteMessageContext_def writePacket_def w_marshal_def w_bulk_def limits)

lemma reader_stays_bounded_witness:
  "reader_wf (snd (readPacket w_unmarshal
     \<lparr>stream = [0, 0, 0, 1, 0, 0, 0, 2, 123, 8, 9], accept_fragments = False, partial = None\<rparr>))"
  by (rule reader_stays_bounded[THEN conjunct1, OF _ prod.collapse[symmetric]])
    (simp add: reader_wf_def)

lemma bulk_pacing_bounded_witness:
  "\<exists>t. bulk_next (SetBulkRate 1000) 5 8192 = Some t \<and> t \<le> 5 + 250000000"
proof -
  have b: "bulk_next (SetBulkRate 1000) 5 8192 = Some 250000005"
    by (simp add: SetBulkRate_def bulk_next_def)
  from bulk_pacing_bounded[OF _ b] b show ?thesis by (simp add: fragmentSize_def)
qed

end
