(* ===== verification/Gate.thy ===== *)
theory Gate
  imports Prelude
begin

text \<open>
  The write gate of a connection (\<open>internal/protocol/priority.go\<close>): a lock with two waiting
  queues, in which short control messages pass bulk fragments in bursts of at most eight. Each
  operation runs under the gate's mutex and is one step; a waiter is a number, and \<open>granted\<close>
  collects the waiters whose \<open>granted\<close> flag is set.
\<close>

section \<open>The gate\<close>

record gate =
  held :: bool
  burst :: nat
  high :: "nat list"
  low :: "nat list"
  granted :: "nat set"

definition new_gate :: gate where
  "new_gate = \<lparr>held = False, burst = 0, high = [], low = [], granted = {}\<rparr>"

text \<open>The part of \<open>acquire\<close> under the mutex: the gate is taken at once, or the waiter queues.\<close>

definition acquire :: "nat \<Rightarrow> bool \<Rightarrow> gate \<Rightarrow> gate \<times> bool" where
  "acquire w is_high g =
     (if \<not> held g then (g\<lparr>held := True\<rparr>, True)
      else (if is_high then g\<lparr>high := high g @ [w]\<rparr> else g\<lparr>low := low g @ [w]\<rparr>, False))"

definition prefers_high :: "gate \<Rightarrow> bool" where
  "prefers_high g \<longleftrightarrow> high g \<noteq> [] \<and> (burst g < 8 \<or> low g = [])"

definition release :: "gate \<Rightarrow> gate \<times> nat option" where
  "release g =
     (let b = (if prefers_high g then Suc (burst g) else 0);
          queue = (if prefers_high g then high g else low g)
      in case queue of
           [] \<Rightarrow> (g\<lparr>held := False, burst := 0\<rparr>, None)
         | w # ws \<Rightarrow>
             ((if prefers_high g then g\<lparr>high := ws\<rparr> else g\<lparr>low := ws\<rparr>)
                \<lparr>burst := b, granted := insert w (granted g)\<rparr>, Some w))"

text \<open>The cancellation branch of \<open>acquire\<close>: a waiter already granted the gate passes it on,
  any other leaves its queue.\<close>

definition cancel :: "nat \<Rightarrow> bool \<Rightarrow> gate \<Rightarrow> gate \<times> nat option" where
  "cancel w is_high g =
     (if w \<in> granted g then release g
      else (if is_high then g\<lparr>high := remove1 w (high g)\<rparr> else g\<lparr>low := remove1 w (low g)\<rparr>, None))"

section \<open>Writers and the gate\<close>

text \<open>The gate driven by its users. \<open>owners\<close> collects whoever came back from \<open>acquire\<close> with the gate, at once or by its grant, and has not
  released it since: nothing in the model keeps two of them apart but the gate. A writer acquires with a fresh waiter, releases
  what it has, and gives up while it waits or right after it was granted.\<close>

record gate_sys =
  the_gate :: gate
  owners :: "nat set"

datatype gate_event = Acquire nat bool | Release nat | Cancel nat bool

definition waiting :: "gate \<Rightarrow> nat set" where
  "waiting g = set (high g) \<union> set (low g)"

definition known :: "gate_sys \<Rightarrow> nat set" where
  "known s = waiting (the_gate s) \<union> granted (the_gate s) \<union> owners s"

definition give_up_gate :: "nat \<Rightarrow> gate \<times> nat option \<Rightarrow> gate_sys \<Rightarrow> gate_sys" where
  "give_up_gate w r s = s\<lparr>the_gate := fst r, owners := owners s - {w} \<union> set_option (snd r)\<rparr>"

fun gate_step :: "gate_sys \<Rightarrow> gate_event \<Rightarrow> gate_sys" where
  "gate_step s (Acquire w is_high) =
     (if w \<in> known s then s
      else case acquire w is_high (the_gate s) of
        (g, now) \<Rightarrow> s\<lparr>the_gate := g, owners := (if now then insert w (owners s) else owners s)\<rparr>)"
| "gate_step s (Release w) = (if w \<in> owners s then give_up_gate w (release (the_gate s)) s else s)"
| "gate_step s (Cancel w is_high) =
     (let g = the_gate s in
      if w \<in> granted g \<and> w \<in> owners s then give_up_gate w (cancel w is_high g) s
      else if w \<notin> granted g \<and> w \<in> set (if is_high then high g else low g) then s\<lparr>the_gate := fst (cancel w is_high g)\<rparr>
      else s)"

definition gate_inv :: "gate_sys \<Rightarrow> bool" where
  "gate_inv s \<longleftrightarrow> (let g = the_gate s in
     (\<exists>w. owners s = (if held g then {w} else {}))
     \<and> (\<not> held g \<longrightarrow> high g = [] \<and> low g = [])
     \<and> distinct (high g @ low g)
     \<and> granted g \<inter> waiting g = {}
     \<and> owners s \<inter> waiting g = {})"

definition start_sys :: gate_sys where
  "start_sys = \<lparr>the_gate = new_gate, owners = {}\<rparr>"

lemma start_inv: "gate_inv start_sys"
  by (simp add: gate_inv_def start_sys_def new_gate_def waiting_def Let_def)

lemmas gate_defs = acquire_def release_def cancel_def prefers_high_def give_up_gate_def waiting_def Let_def

lemma acquire_keeps [keeps]: "gate_inv s \<Longrightarrow> gate_inv (gate_step s (Acquire w b))"
  by (auto simp: gate_inv_def known_def gate_defs)

lemma release_keeps [keeps]: "gate_inv s \<Longrightarrow> gate_inv (gate_step s (Release w))"
  by (cases "held (the_gate s)") (auto simp: gate_inv_def gate_defs split: list.splits)

lemma cancel_granted:
  "w \<in> granted (the_gate s) \<Longrightarrow> w \<in> owners s \<Longrightarrow> gate_step s (Cancel w b) = gate_step s (Release w)"
  by (simp add: cancel_def)

lemma cancel_waiting:
  "gate_inv s \<Longrightarrow> w \<notin> granted (the_gate s) \<Longrightarrow> gate_inv (gate_step s (Cancel w b))"
  by (auto simp: gate_inv_def cancel_def waiting_def Let_def dest: notin_set_remove1)

lemma cancel_keeps [keeps]: "gate_inv s \<Longrightarrow> gate_inv (gate_step s (Cancel w b))"
proof (cases "w \<in> granted (the_gate s)")
  case True
  assume "gate_inv s"
  then show ?thesis
    using True cancel_granted[OF True] release_keeps
    by (cases "w \<in> owners s") (simp_all add: Let_def del: gate_step.simps(2))
qed (rule cancel_waiting)

interpretation gates: event_system gate_step gate_inv
proof unfold_locales
  fix s e assume "gate_inv s"
  then show "gate_inv (gate_step s e)" by (cases e) (simp_all only: keeps)
qed

text \<open>A release with somebody in a queue wakes one of them.\<close>

lemma release_wakes:
  assumes "gate_inv s" "w \<in> owners s" "waiting (the_gate s) \<noteq> {}"
  shows "\<exists>v \<in> waiting (the_gate s). owners (gate_step s (Release w)) = {v} \<and> v \<in> granted (the_gate (gate_step s (Release w)))
    \<and> waiting (the_gate (gate_step s (Release w))) = waiting (the_gate s) - {v}"
  using assms by (auto simp: gate_inv_def gate_defs split: list.splits if_splits)

section \<open>No starvation\<close>

text \<open>The releases a waiter of the low queue at position \<open>k\<close> may still see before its own.\<close>

definition wait_bound :: "nat \<Rightarrow> nat \<Rightarrow> nat" where
  "wait_bound k b = 9 * k + (if b < 8 then 9 - b else 1)"

text \<open>\<open>w\<close> waits in the low queue behind \<open>k\<close> others.\<close>

definition waits_at :: "gate_sys \<Rightarrow> nat \<Rightarrow> nat \<Rightarrow> bool" where
  "waits_at s w k \<longleftrightarrow> (\<exists>xs ys. low (the_gate s) = xs @ w # ys \<and> length xs = k)"

text \<open>An event hands the gate on.\<close>

fun hands_on :: "gate_sys \<Rightarrow> gate_event \<Rightarrow> bool" where
  "hands_on s (Release w) = (w \<in> owners s)"
| "hands_on s (Cancel w b) = (w \<in> granted (the_gate s) \<and> w \<in> owners s)"
| "hands_on s (Acquire w b) = False"

fun handovers :: "gate_sys \<Rightarrow> gate_event list \<Rightarrow> nat" where
  "handovers s [] = 0"
| "handovers s (e # es) = (if hands_on s e then 1 else 0) + handovers (gate_step s e) es"

lemma release_progress:
  assumes "low g = xs @ w # ys"
  shows "w \<in> granted (fst (release g)) \<or>
    (\<exists>xs' ys'. low (fst (release g)) = xs' @ w # ys' \<and>
       wait_bound (length xs') (burst (fst (release g))) < wait_bound (length xs) (burst g))"
proof (cases "prefers_high g")
  case True
  then obtain v vs where "high g = v # vs" "burst g < 8"
    using assms by (auto simp: prefers_high_def neq_Nil_conv)
  then show ?thesis using assms True by (auto simp: release_def wait_bound_def)
next
  case False
  then show ?thesis using assms by (cases xs) (auto simp: release_def wait_bound_def)
qed

lemma granted_mono: "w \<in> granted (the_gate s) \<Longrightarrow> w \<in> granted (the_gate (gate_step s e))"
  by (cases e) (auto simp: gate_defs split: option.splits list.splits)

lemma remove1_waiting:
  "w \<noteq> v \<Longrightarrow> \<exists>xs' ys'. remove1 v (xs @ w # ys) = xs' @ w # ys' \<and> length xs' \<le> length xs"
  by (cases "v \<in> set xs") (force simp: remove1_append length_remove1)+

lemma cancel_other:
  assumes "low (the_gate s) = xs @ w # ys" "w \<noteq> v" "\<not> hands_on s (Cancel v b)"
  shows "burst (the_gate (gate_step s (Cancel v b))) = burst (the_gate s) \<and>
    (\<exists>xs' ys'. low (the_gate (gate_step s (Cancel v b))) = xs' @ w # ys' \<and> length xs' \<le> length xs)"
proof -
  have "low (the_gate (gate_step s (Cancel v b))) \<in> {xs @ w # ys, remove1 v (xs @ w # ys)}"
    "burst (the_gate (gate_step s (Cancel v b))) = burst (the_gate s)"
    using assms(1,3) by (auto simp: cancel_def Let_def)
  then show ?thesis using remove1_waiting[OF assms(2), of xs ys] by fastforce
qed

lemma step_progress:
  assumes w: "low (the_gate s) = xs @ w # ys" and e: "\<And>b. e \<noteq> Cancel w b"
  shows "w \<in> granted (the_gate (gate_step s e)) \<or>
    (\<exists>xs' ys'. low (the_gate (gate_step s e)) = xs' @ w # ys' \<and>
       wait_bound (length xs') (burst (the_gate (gate_step s e))) + (if hands_on s e then 1 else 0)
         \<le> wait_bound (length xs) (burst (the_gate s)))"
proof (cases "hands_on s e")
  case True
  then have "the_gate (gate_step s e) = fst (release (the_gate s))"
    by (cases e) (auto simp: cancel_def give_up_gate_def Let_def)
  with release_progress[OF w] True show ?thesis by (auto simp: Suc_le_eq)
next
  case False
  show ?thesis
  proof (cases e)
    case (Acquire v b)
    with w show ?thesis by (cases b) (fastforce simp: acquire_def)+
  next
    case (Release v)
    with w False show ?thesis by auto
  next
    case (Cancel v b)
    with e have "w \<noteq> v" by auto
    from cancel_other[OF w this] False Cancel obtain xs' ys'
      where "low (the_gate (gate_step s e)) = xs' @ w # ys'" "length xs' \<le> length xs"
        "burst (the_gate (gate_step s e)) = burst (the_gate s)" by blast
    then show ?thesis using False by (auto simp: wait_bound_def simp del: gate_step.simps)
  qed
qed

lemma waiter_served:
  assumes "low (the_gate s) = xs @ w # ys" "\<forall>b. Cancel w b \<notin> set es"
    and "wait_bound (length xs) (burst (the_gate s)) \<le> handovers s es"
  shows "w \<in> granted (the_gate (foldl gate_step s es))"
  using assms
proof (induction es arbitrary: s xs ys)
  case Nil
  then show ?case by (auto simp: wait_bound_def split: if_splits)
next
  case (Cons e es)
  have keep: "w \<in> granted (the_gate (foldl gate_step t fs))" if "w \<in> granted (the_gate t)" for t fs
    using that by (induction fs arbitrary: t) (auto intro: granted_mono)
  from step_progress[OF Cons.prems(1), of e] Cons.prems(2)
  consider "w \<in> granted (the_gate (gate_step s e))" |
    xs' ys' where "low (the_gate (gate_step s e)) = xs' @ w # ys'"
      "wait_bound (length xs') (burst (the_gate (gate_step s e))) + (if hands_on s e then 1 else 0)
        \<le> wait_bound (length xs) (burst (the_gate s))"
    by auto
  then show ?case
  proof cases
    case 1
    then show ?thesis using keep by simp
  next
    case 2
    have "w \<in> granted (the_gate (foldl gate_step (gate_step s e) es))"
      using Cons.prems(2,3) 2(2) by (intro Cons.IH[OF 2(1)]) (auto split: if_splits)
    then show ?thesis by simp
  qed
qed

section \<open>Properties\<close>

text \<open>C23: Mutual exclusion and no lost waiter. After any sequence of acquisitions, releases and cancellations at most one writer
  has the gate, it is held exactly when some writer has it, nobody waits at a free gate, no writer is queued twice or queued while
  it has the gate, and a release while somebody waits gives the gate to one who waits, who leaves its queue with nobody else.\<close>

theorem gate_mutual_exclusion:
  assumes "s = foldl gate_step start_sys es" "g = the_gate s"
  shows "(v \<in> owners s \<and> w \<in> owners s \<longrightarrow> v = w) \<and> (held g \<longleftrightarrow> owners s \<noteq> {}) \<and> (owners s = {} \<longrightarrow> waiting g = {})
    \<and> distinct (high g @ low g) \<and> owners s \<inter> waiting g = {}
    \<and> (w \<in> owners s \<and> waiting g \<noteq> {} \<longrightarrow>
        (\<exists>u \<in> waiting g. owners (gate_step s (Release w)) = {u} \<and> u \<in> granted (the_gate (gate_step s (Release w)))
          \<and> waiting (the_gate (gate_step s (Release w))) = waiting g - {u}))"
proof -
  have inv: "gate_inv s" unfolding assms(1) by (rule gates.run_keeps[OF start_inv])
  then have "(v \<in> owners s \<and> w \<in> owners s \<longrightarrow> v = w) \<and> (held g \<longleftrightarrow> owners s \<noteq> {}) \<and> (owners s = {} \<longrightarrow> waiting g = {})
    \<and> distinct (high g @ low g) \<and> owners s \<inter> waiting g = {}"
    unfolding gate_inv_def assms(2) by (auto simp: Let_def waiting_def split: if_splits)
  then show ?thesis using release_wakes[OF inv, of w] assms(2) by blast
qed

lemma gate_mutual_exclusion_witness:
  "\<exists>u \<in> {2, 3}. owners (foldl gate_step start_sys [Acquire 1 False, Acquire 2 False, Acquire 3 True, Release 1]) = {u}"
proof -
  let ?s = "foldl gate_step start_sys [Acquire 1 False, Acquire 2 False, Acquire 3 True]"
  have s: "owners ?s = {1}" "waiting (the_gate ?s) = {2, 3}"
    by (auto simp: start_sys_def new_gate_def known_def acquire_def waiting_def)
  have "\<exists>u \<in> waiting (the_gate ?s). owners (gate_step ?s (Release 1)) = {u}"
    using gate_mutual_exclusion[of ?s "[Acquire 1 False, Acquire 2 False, Acquire 3 True]" "the_gate ?s" 1 1, OF refl refl] s by blast
  then show ?thesis unfolding s(2) by simp
qed

text \<open>C24: Bulk writers are not starved. A bulk writer with \<open>k\<close> bulk writers in front of it is
  granted the gate within \<open>9 * (k + 1)\<close> handovers, however many control messages arrive.\<close>

theorem bulk_not_starved:
  assumes "waits_at s w k" "\<forall>b. Cancel w b \<notin> set es" "9 * (k + 1) \<le> handovers s es"
  shows "w \<in> granted (the_gate (foldl gate_step s es))"
proof -
  from assms(1) obtain xs ys where xs: "low (the_gate s) = xs @ w # ys" "length xs = k"
    by (auto simp: waits_at_def)
  have "wait_bound (length xs) (burst (the_gate s)) \<le> 9 * (k + 1)"
    by (auto simp: wait_bound_def xs(2))
  with assms(2,3) show ?thesis by (intro waiter_served[OF xs(1)]) auto
qed

definition busy_sys :: gate_sys where
  "busy_sys = \<lparr>the_gate = \<lparr>held = True, burst = 0, high = [1, 2, 3, 4, 5, 6, 7, 8, 9, 10], low = [20],
     granted = {}\<rparr>, owners = {0}\<rparr>"

lemma bulk_not_starved_witness:
  "20 \<in> granted (the_gate (foldl gate_step busy_sys (map Release [0..<9])))"
  by (rule bulk_not_starved[where k = 0])
    (auto simp: waits_at_def busy_sys_def numeral_eq_Suc release_def prefers_high_def give_up_gate_def upt_rec)

end
