(* ===== verification/GoStrings.thy ===== *)
theory GoStrings
  imports Prelude
begin

text \<open>
  The functions of the Go packages \<open>strings\<close>, \<open>strconv\<close>, \<open>unicode/utf8\<close> and \<open>encoding/hex\<close> that the
  sources call, on strings as byte lists. Case mapping is exact for ASCII letters and for the
  four non-ASCII runes whose case mapping is an ASCII letter; every other rune is left alone.
  So a comparison of the result with an ASCII string, which is all the sources do with it for
  names outside ASCII, gives what Go gives.
\<close>

abbreviation ord :: "char \<Rightarrow> nat" where
  "ord c \<equiv> of_char c"

definition is_digit :: "char \<Rightarrow> bool" where
  "is_digit c \<longleftrightarrow> 48 \<le> ord c \<and> ord c \<le> 57"

section \<open>Splitting and joining\<close>

text \<open>\<open>strings.Split\<close> with a one-byte separator.\<close>

fun split_on :: "char \<Rightarrow> string \<Rightarrow> string list" where
  "split_on sep [] = [[]]"
| "split_on sep (c # cs) =
     (if c = sep then [] # split_on sep cs
      else case split_on sep cs of [] \<Rightarrow> [[c]] | p # ps \<Rightarrow> (c # p) # ps)"

fun join_with :: "char \<Rightarrow> string list \<Rightarrow> string" where
  "join_with sep [] = []"
| "join_with sep [p] = p"
| "join_with sep (p # ps) = p @ sep # join_with sep ps"

lemma split_on_nonempty [simp]: "split_on sep s \<noteq> []"
  by (induction s) (auto split: list.splits)

lemma split_on_free: "p \<in> set (split_on sep s) \<Longrightarrow> sep \<notin> set p"
  by (induction s arbitrary: p) (auto split: if_splits list.splits)

lemma split_on_word: "sep \<notin> set p \<Longrightarrow> split_on sep p = [p]"
  by (induction p) auto

lemma split_on_append: "sep \<notin> set p \<Longrightarrow> split_on sep (p @ sep # s) = p # split_on sep s"
  by (induction p) auto

lemma split_join:
  "ps \<noteq> [] \<Longrightarrow> \<forall>p \<in> set ps. sep \<notin> set p \<Longrightarrow> split_on sep (join_with sep ps) = ps"
  by (induction sep ps rule: join_with.induct) (auto simp: split_on_word split_on_append)

lemma join_split: "join_with sep (split_on sep s) = s"
proof (induction s)
  case (Cons c s)
  then show ?case by (cases "split_on sep s" rule: remdups_adj.cases) auto
qed simp

text \<open>\<open>strings.Cut\<close>: the part before the first separator.\<close>

definition cut_before :: "char \<Rightarrow> string \<Rightarrow> string" where
  "cut_before sep s = takeWhile (\<lambda>c. c \<noteq> sep) s"

definition trim_right_char :: "char \<Rightarrow> string \<Rightarrow> string" where
  "trim_right_char x s = rev (dropWhile (\<lambda>c. c = x) (rev s))"

definition has_prefix :: "string \<Rightarrow> string \<Rightarrow> bool" where
  "has_prefix s p \<longleftrightarrow> take (length p) s = p"

definition has_suffix :: "string \<Rightarrow> string \<Rightarrow> bool" where
  "has_suffix s p \<longleftrightarrow> length p \<le> length s \<and> drop (length s - length p) s = p"

text \<open>\<open><\<close> on Go strings: bytewise lexicographic order.\<close>

fun str_less :: "string \<Rightarrow> string \<Rightarrow> bool" where
  "str_less _ [] = False"
| "str_less [] (d # ds) = True"
| "str_less (c # cs) (d # ds) = (ord c < ord d \<or> (c = d \<and> str_less cs ds))"

section \<open>Case mapping\<close>

definition upper_char :: "char \<Rightarrow> char" where
  "upper_char c = (if 97 \<le> ord c \<and> ord c \<le> 122 then char_of (ord c - 32) else c)"

definition lower_char :: "char \<Rightarrow> char" where
  "lower_char c = (if 65 \<le> ord c \<and> ord c \<le> 90 then char_of (ord c + 32) else c)"

text \<open>\<open>strings.ToUpper\<close>: the runes U+0131 and U+017F become \<open>I\<close> and \<open>S\<close>.\<close>

fun to_upper :: "string \<Rightarrow> string" where
  "to_upper (c # d # cs) =
     (if ord c = 0xC4 \<and> ord d = 0xB1 then CHR ''I'' # to_upper cs
      else if ord c = 0xC5 \<and> ord d = 0xBF then CHR ''S'' # to_upper cs
      else upper_char c # to_upper (d # cs))"
| "to_upper [c] = [upper_char c]"
| "to_upper [] = []"

text \<open>\<open>strings.ToLower\<close>: the runes U+0130 and U+212A become \<open>i\<close> and \<open>k\<close>.\<close>

fun to_lower :: "string \<Rightarrow> string" where
  "to_lower (c # d # cs) =
     (if ord c = 0xC4 \<and> ord d = 0xB0 then CHR ''i'' # to_lower cs
      else case cs of
        e # es \<Rightarrow> (if ord c = 0xE2 \<and> ord d = 0x84 \<and> ord e = 0xAA then CHR ''k'' # to_lower es
                   else lower_char c # to_lower (d # cs))
      | [] \<Rightarrow> lower_char c # to_lower (d # cs))"
| "to_lower [c] = [lower_char c]"
| "to_lower [] = []"

text \<open>On ASCII both are plain maps.\<close>

lemma to_lower_ascii: "ord c < 128 \<Longrightarrow> to_lower (c # cs) = lower_char c # to_lower cs"
  by (cases cs) (auto split: list.split)

lemma to_lower_ascii_append: "\<forall>c \<in> set xs. ord c < 128 \<Longrightarrow> to_lower (xs @ ys) = map lower_char xs @ to_lower ys"
  by (induction xs) (simp_all add: to_lower_ascii)

lemma to_upper_ascii: "ord c < 128 \<Longrightarrow> to_upper (c # cs) = upper_char c # to_upper cs"
  by (cases cs) auto

lemma to_upper_ascii_append: "\<forall>c \<in> set xs. ord c < 128 \<Longrightarrow> to_upper (xs @ ys) = map upper_char xs @ to_upper ys"
  by (induction xs) (simp_all add: to_upper_ascii)

section \<open>White space\<close>

text \<open>\<open>strings.TrimSpace\<close>: the encodings of the runes of \<open>unicode.IsSpace\<close>.\<close>

definition ascii_space :: "char \<Rightarrow> bool" where
  "ascii_space c \<longleftrightarrow> ord c = 32 \<or> (9 \<le> ord c \<and> ord c \<le> 13)"

definition space2 :: "char \<Rightarrow> char \<Rightarrow> bool" where
  "space2 c d \<longleftrightarrow> ord c = 0xC2 \<and> (ord d = 0x85 \<or> ord d = 0xA0)"

definition space3 :: "char \<Rightarrow> char \<Rightarrow> char \<Rightarrow> bool" where
  "space3 c d e \<longleftrightarrow>
     (ord c = 0xE1 \<and> ord d = 0x9A \<and> ord e = 0x80)
     \<or> (ord c = 0xE2 \<and> ord d = 0x80 \<and> (0x80 \<le> ord e \<and> ord e \<le> 0x8A \<or> ord e \<in> {0xA8, 0xA9, 0xAF}))
     \<or> (ord c = 0xE2 \<and> ord d = 0x81 \<and> ord e = 0x9F)
     \<or> (ord c = 0xE3 \<and> ord d = 0x80 \<and> ord e = 0x80)"

fun trim_left :: "string \<Rightarrow> string" where
  "trim_left [] = []"
| "trim_left (c # cs) =
     (if ascii_space c then trim_left cs
      else case cs of
        d # ds \<Rightarrow>
          (if space2 c d then trim_left ds
           else case ds of
             e # es \<Rightarrow> (if space3 c d e then trim_left es else c # cs)
           | [] \<Rightarrow> c # cs)
      | [] \<Rightarrow> c # cs)"

text \<open>The same on the reversed string.\<close>

fun trim_rev :: "string \<Rightarrow> string" where
  "trim_rev [] = []"
| "trim_rev (c # cs) =
     (if ascii_space c then trim_rev cs
      else case cs of
        d # ds \<Rightarrow>
          (if space2 d c then trim_rev ds
           else case ds of
             e # es \<Rightarrow> (if space3 e d c then trim_rev es else c # cs)
           | [] \<Rightarrow> c # cs)
      | [] \<Rightarrow> c # cs)"

definition trim_space :: "string \<Rightarrow> string" where
  "trim_space s = rev (trim_rev (rev (trim_left s)))"

section \<open>UTF-8\<close>

definition cont_byte :: "char \<Rightarrow> bool" where
  "cont_byte c \<longleftrightarrow> 0x80 \<le> ord c \<and> ord c \<le> 0xBF"

text \<open>\<open>utf8.ValidString\<close>, by the table of accepted second bytes of that package.\<close>

definition second_ok :: "char \<Rightarrow> char \<Rightarrow> bool" where
  "second_ok c d \<longleftrightarrow>
     (if ord c = 0xE0 then 0xA0 \<le> ord d \<and> ord d \<le> 0xBF
      else if ord c = 0xED then 0x80 \<le> ord d \<and> ord d \<le> 0x9F
      else if ord c = 0xF0 then 0x90 \<le> ord d \<and> ord d \<le> 0xBF
      else if ord c = 0xF4 then 0x80 \<le> ord d \<and> ord d \<le> 0x8F
      else cont_byte d)"

fun utf8_runes :: "string \<Rightarrow> nat option" where
  "utf8_runes [] = Some 0"
| "utf8_runes (c # cs) =
     (if ord c < 0x80 then map_option Suc (utf8_runes cs)
      else if 0xC2 \<le> ord c \<and> ord c \<le> 0xDF then
        (case cs of d # ds \<Rightarrow> (if cont_byte d then map_option Suc (utf8_runes ds) else None) | _ \<Rightarrow> None)
      else if 0xE0 \<le> ord c \<and> ord c \<le> 0xEF then
        (case cs of d # e # es \<Rightarrow>
            (if second_ok c d \<and> cont_byte e then map_option Suc (utf8_runes es) else None)
         | _ \<Rightarrow> None)
      else if 0xF0 \<le> ord c \<and> ord c \<le> 0xF4 then
        (case cs of d # e # f # fs \<Rightarrow>
            (if second_ok c d \<and> cont_byte e \<and> cont_byte f then map_option Suc (utf8_runes fs) else None)
         | _ \<Rightarrow> None)
      else None)"

definition utf8_valid :: "string \<Rightarrow> bool" where
  "utf8_valid s \<longleftrightarrow> utf8_runes s \<noteq> None"

text \<open>\<open>unicode.IsControl\<close> on a valid string: U+0000 to U+001F and U+007F to U+009F.\<close>

fun has_control :: "string \<Rightarrow> bool" where
  "has_control [] = False"
| "has_control (c # cs) =
     (ord c < 32 \<or> ord c = 127
      \<or> (ord c = 0xC2 \<and> (case cs of d # _ \<Rightarrow> 0x80 \<le> ord d \<and> ord d \<le> 0x9F | [] \<Rightarrow> False))
      \<or> has_control cs)"

section \<open>Hexadecimal\<close>

definition hex_digit :: "nat \<Rightarrow> char" where
  "hex_digit n = (if n < 10 then char_of (48 + n) else char_of (87 + n))"

definition hex_value :: "char \<Rightarrow> nat option" where
  "hex_value c =
     (if 48 \<le> ord c \<and> ord c \<le> 57 then Some (ord c - 48)
      else if 97 \<le> ord c \<and> ord c \<le> 102 then Some (ord c - 87)
      else if 65 \<le> ord c \<and> ord c \<le> 70 then Some (ord c - 55)
      else None)"

fun hex_encode :: "bytes \<Rightarrow> string" where
  "hex_encode [] = []"
| "hex_encode (b # bs) = hex_digit (unat b div 16) # hex_digit (unat b mod 16) # hex_encode bs"

fun hex_decode :: "string \<Rightarrow> bytes option" where
  "hex_decode [] = Some []"
| "hex_decode [c] = None"
| "hex_decode (c # d # cs) =
     (case (hex_value c, hex_value d, hex_decode cs) of
        (Some h, Some l, Some bs) \<Rightarrow> Some (word_of_nat (16 * h + l) # bs)
      | _ \<Rightarrow> None)"

lemma hex_value_digit: "n < 16 \<Longrightarrow> hex_value (hex_digit n) = Some n"
  by (auto simp: hex_value_def hex_digit_def)

lemma hex_round_trip: "hex_decode (hex_encode bs) = Some bs"
proof (induction bs)
  case (Cons b bs)
  have "unat b < 256" using unsigned_less[of b, where ?'a = nat] by simp
  then have "unat b div 16 < 16" "unat b mod 16 < 16" by auto
  then show ?case using Cons by (simp add: hex_value_digit)
qed simp

lemma hex_encode_length [simp]: "length (hex_encode bs) = 2 * length bs"
  by (induction bs) auto

lemma hex_decode_length: "hex_decode s = Some bs \<Longrightarrow> length s = 2 * length bs"
  by (induction s arbitrary: bs rule: hex_decode.induct) (auto split: option.splits prod.splits)

text \<open>\<open>[]byte(s)\<close>.\<close>

definition str_bytes :: "string \<Rightarrow> bytes" where
  "str_bytes s = map (\<lambda>c. word_of_nat (of_char c)) s"

text \<open>\<open>strings.EqualFold\<close>: equality up to simple folding. The runes U+017F and U+212A fold to \<open>s\<close> and
  \<open>k\<close>; the folding of other runes outside ASCII is not modelled, so it is exact when one of the two
  strings is ASCII, as the hexadecimal identifiers are that the sources compare.\<close>

fun fold_case :: "string \<Rightarrow> string" where
  "fold_case (c # d # cs) =
     (if ord c = 0xC5 \<and> ord d = 0xBF then CHR ''s'' # fold_case cs
      else case cs of
        e # es \<Rightarrow> (if ord c = 0xE2 \<and> ord d = 0x84 \<and> ord e = 0xAA then CHR ''k'' # fold_case es
                   else lower_char c # fold_case (d # cs))
      | [] \<Rightarrow> lower_char c # fold_case (d # cs))"
| "fold_case [c] = [lower_char c]"
| "fold_case [] = []"

definition equal_fold :: "string \<Rightarrow> string \<Rightarrow> bool" where
  "equal_fold s t \<longleftrightarrow> fold_case s = fold_case t"

text \<open>\<open>len([]rune(s))\<close>: every byte that does not start a valid encoding counts as one rune.\<close>

fun rune_count :: "string \<Rightarrow> nat" where
  "rune_count [] = 0"
| "rune_count (c # cs) =
     (if 0xC2 \<le> ord c \<and> ord c \<le> 0xDF then
        (case cs of d # ds \<Rightarrow> Suc (if cont_byte d then rune_count ds else rune_count (d # ds)) | [] \<Rightarrow> 1)
      else if 0xE0 \<le> ord c \<and> ord c \<le> 0xEF then
        (case cs of d # e # es \<Rightarrow>
            Suc (if second_ok c d \<and> cont_byte e then rune_count es else rune_count (d # e # es))
         | _ \<Rightarrow> Suc (rune_count cs))
      else if 0xF0 \<le> ord c \<and> ord c \<le> 0xF4 then
        (case cs of d # e # f # fs \<Rightarrow>
            Suc (if second_ok c d \<and> cont_byte e \<and> cont_byte f then rune_count fs else rune_count (d # e # f # fs))
         | _ \<Rightarrow> Suc (rune_count cs))
      else Suc (rune_count cs))"

text \<open>\<open>fmt.Sprintf("%0nd", k)\<close> for a number of at most \<open>n\<close> digits.\<close>

fun decimal :: "nat \<Rightarrow> nat \<Rightarrow> string" where
  "decimal 0 k = []"
| "decimal (Suc n) k = decimal n (k div 10) @ [char_of (48 + k mod 10)]"

lemma decimal_numeral: "decimal (numeral v) k = decimal (pred_numeral v) (k div 10) @ [char_of (48 + k mod 10)]"
  by (subst numeral_eq_Suc, rule decimal.simps(2))

lemma decimal_length [simp]: "length (decimal n k) = n"
  by (induction n arbitrary: k) auto

lemma decimal_digits: "c \<in> set (decimal n k) \<Longrightarrow> is_digit c"
proof (induction n arbitrary: k)
  case (Suc n)
  have "of_char (char_of (48 + k mod 10) :: char) = (48 + k mod 10 :: nat)" by simp
  with Suc show ?case by (auto simp: is_digit_def)
qed simp

section \<open>Base 32\<close>

definition byte_bits :: "byte \<Rightarrow> bool list" where
  "byte_bits b = map (bit b) (rev [0..<8])"

definition b32_digit :: "bool list \<Rightarrow> char" where
  "b32_digit bs =
     (let n = foldl (\<lambda>n b. 2 * n + (if b then 1 else 0)) (0 :: nat) (take 5 (bs @ replicate 5 False))
      in if n < 26 then char_of (65 + n) else char_of (24 + n))"

fun b32_groups :: "bool list \<Rightarrow> string" where
  "b32_groups (a # b # c # d # e # bs) = b32_digit [a, b, c, d, e] # b32_groups bs"
| "b32_groups [] = []"
| "b32_groups bs = [b32_digit bs]"

text \<open>\<open>base32.StdEncoding\<close> without padding.\<close>

definition base32_encode :: "bytes \<Rightarrow> string" where
  "base32_encode bs = b32_groups (concat (map byte_bits bs))"

section \<open>Numbers\<close>

text \<open>\<open>%d\<close> of a non-negative number, and of an \<open>int64\<close>.\<close>

fun show_nat :: "nat \<Rightarrow> string" where
  "show_nat n = (if n < 10 then [char_of (48 + n)] else show_nat (n div 10) @ [char_of (48 + n mod 10)])"

declare show_nat.simps [simp del]

definition show_int :: "int \<Rightarrow> string" where
  "show_int i = (if i < 0 then CHR ''-'' # show_nat (nat (- i)) else show_nat (nat i))"

fun digits_value :: "nat \<Rightarrow> string \<Rightarrow> nat option" where
  "digits_value acc [] = Some acc"
| "digits_value acc (c # cs) =
     (if is_digit c then digits_value (10 * acc + (ord c - 48)) cs else None)"

text \<open>\<open>strconv.ParseInt(s, 10, 64)\<close>; \<open>None\<close> is a syntax or range error.\<close>

definition parse_int64 :: "string \<Rightarrow> int option" where
  "parse_int64 s =
     (case s of [] \<Rightarrow> None
      | c # cs \<Rightarrow>
        let negative = (c = CHR ''-''); ds = (if c = CHR ''-'' \<or> c = CHR ''+'' then cs else s) in
        if ds = [] then None
        else case digits_value 0 ds of None \<Rightarrow> None
        | Some n \<Rightarrow>
            if negative then (if n \<le> 2 ^ 63 then Some (- int n) else None)
            else if n < 2 ^ 63 then Some (int n) else None)"

lemma digits_value_append:
  "digits_value acc (xs @ ys) = (case digits_value acc xs of None \<Rightarrow> None | Some v \<Rightarrow> digits_value v ys)"
  by (induction acc xs rule: digits_value.induct) auto

lemma digit_char: "k < 10 \<Longrightarrow> is_digit (char_of (48 + k)) \<and> ord (char_of (48 + k)) = 48 + k"
proof -
  assume "k < 10"
  then have "(48 + k) mod 256 = 48 + k" by simp
  then have "(of_char (char_of (48 + k) :: char) :: nat) = 48 + k" by (simp only: of_char_of)
  then show ?thesis using \<open>k < 10\<close> by (simp add: is_digit_def)
qed

lemma digits_value_show: "digits_value acc (show_nat n) = Some (acc * 10 ^ length (show_nat n) + n)"
proof (induction n arbitrary: acc rule: show_nat.induct)
  case (1 n)
  show ?case
  proof (cases "n < 10")
    case True
    then show ?thesis using digit_char[OF True] by (simp add: show_nat.simps[of n])
  next
    case False
    have d: "n mod 10 < 10" by simp
    have "digits_value acc (show_nat n) = digits_value (acc * 10 ^ length (show_nat (n div 10)) + n div 10) [char_of (48 + n mod 10)]"
      using "1.IH"[OF False] False by (simp add: show_nat.simps[of n] digits_value_append)
    also have "\<dots> = Some (10 * (acc * 10 ^ length (show_nat (n div 10)) + n div 10) + n mod 10)"
      using digit_char[OF d] by simp
    finally show ?thesis using False by (simp add: show_nat.simps[of n] algebra_simps)
  qed
qed

lemma show_nat_digits: "\<forall>c \<in> set (show_nat n). is_digit c"
proof (induction n rule: show_nat.induct)
  case (1 n)
  have "n mod 10 < 10" by simp
  with 1 digit_char show ?case by (subst show_nat.simps) auto
qed

lemma show_nat_nonempty: "show_nat n \<noteq> []"
  by (subst show_nat.simps) simp

lemma parse_show: "- (2 ^ 63) \<le> i \<Longrightarrow> i < 2 ^ 63 \<Longrightarrow> parse_int64 (show_int i) = Some i"
proof -
  assume lo: "- (2 ^ 63) \<le> i" and hi: "i < 2 ^ 63"
  have v: "digits_value 0 (show_nat n) = Some n" for n using digits_value_show[of 0 n] by simp
  show ?thesis
  proof (cases "i < 0")
    case True
    have "nat (- i) \<le> 2 ^ 63" using lo by simp
    then show ?thesis using True v[of "nat (- i)"] show_nat_nonempty[of "nat (- i)"]
      by (simp add: show_int_def parse_int64_def)
  next
    case False
    obtain c cs where s: "show_nat (nat i) = c # cs" using show_nat_nonempty[of "nat i"] by (cases "show_nat (nat i)") auto
    then have "is_digit c" using show_nat_digits[of "nat i"] by simp
    then have sign: "c \<noteq> CHR ''-''" "c \<noteq> CHR ''+''" by (auto simp: is_digit_def)
    have "nat i < 2 ^ 63" using hi by simp
    then show ?thesis using False v[of "nat i"] sign s by (simp add: show_int_def parse_int64_def)
  qed
qed

end
