(* ===== verification/FileTransfer.thy ===== *)
theory FileTransfer
  imports GoStrings "HOL-Library.AList"
begin

text \<open>
  The file-transfer session of \<open>internal/filetransfer/filetransfer.go\<close>: a manager that serves
  one connection's uploads and downloads under one directory.

  The operating system is an explicit store. A directory is a list of named nodes, a file an
  inode with its bytes and modification time; an open handle (\<open>*os.File\<close>, \<open>*os.Root\<close>) is the
  number of the inode or directory it pins, and \<open>os.SameFile\<close> compares inode numbers. Every
  system call of one request may fail: \<open>fails\<close> tells which. Random identifiers, the clock, the
  hash function and the JSON decoder are parameters of a request.
\<close>

section \<open>Limits and errors\<close>

definition ChunkSize :: int where
  "ChunkSize = 32768"

definition MaxFileSize :: int where
  "MaxFileSize = 1073741824"

definition maxTransfers :: nat where
  "maxTransfers = 2"

definition maxEntries :: nat where
  "maxEntries = 1000"

definition maxScanned :: nat where
  "maxScanned = 10000"

definition maxParams :: nat where
  "maxParams = 16384"

definition idleTimeout :: nanos where
  "idleTimeout = 120000000000"

definition tempPrefix :: string where
  "tempPrefix = ''.yudesk-filetransfer-''"

text \<open>The stable error codes.\<close>

datatype ft_error =
    closed_err | disabled_err | io_error | invalid_root | invalid_request | unknown_method
  | invalid_path | size_limit | limit_err | exists_err | unknown_transfer | wrong_transfer
  | offset_mismatch int | size_mismatch | hash_mismatch | publication_failed | not_found
  | not_file | file_changed

section \<open>Public names\<close>

definition reserved_bases :: "string list" where
  "reserved_bases = [''CON'', ''PRN'', ''AUX'', ''NUL'', ''CLOCK$'', ''CONIN$'', ''CONOUT$'']"

definition forbidden_chars :: string where
  "forbidden_chars = [CHR 0x5C, CHR ''/'', CHR '':'', CHR ''*'', CHR ''?'', CHR 0x22, CHR ''<'', CHR ''>'',
     CHR ''|'', CHR 0x7E]"

text \<open>One rune of \<open>"123456789"\<close> or of the superscripts one, two and three.\<close>

definition port_suffix :: "string \<Rightarrow> bool" where
  "port_suffix s \<longleftrightarrow>
     (case s of [c] \<Rightarrow> 49 \<le> ord c \<and> ord c \<le> 57
      | [c, d] \<Rightarrow> ord c = 0xC2 \<and> ord d \<in> {0xB9, 0xB2, 0xB3}
      | _ \<Rightarrow> False)"

definition publicName :: "string \<Rightarrow> bool" where
  "publicName name =
     (if name = '''' \<or> name = ''.'' \<or> name = ''..'' \<or> has_suffix name ''.'' \<or> has_suffix name '' ''
         \<or> (\<exists>c \<in> set name. c \<in> set forbidden_chars) \<or> \<not> utf8_valid name then False
      else if has_control name then False
      else let upper = to_upper name in
        if has_prefix (to_lower name) tempPrefix then False
        else let base = trim_right_char (CHR '' '') (cut_before (CHR ''.'') upper) in
          if base \<in> set reserved_bases then False
          else if (has_prefix base ''COM'' \<or> has_prefix base ''LPT'') \<and> port_suffix (drop 3 base) then False
          else True)"

definition publicPath :: "string \<Rightarrow> bool \<Rightarrow> ft_error + string" where
  "publicPath name directory =
     (if directory \<and> (name = '''' \<or> name = ''.'') then Inr ''.''
      else if length name = 0 \<or> length name > 4096 \<or> \<not> utf8_valid name then Inl invalid_path
      else if \<exists>component \<in> set (split_on (CHR ''/'') name). \<not> publicName component then Inl invalid_path
      else Inr name)"

text \<open>\<open>path.Dir\<close> and \<open>path.Base\<close> of a path that \<open>publicPath\<close> accepted.\<close>

definition path_Dir :: "string \<Rightarrow> string" where
  "path_Dir name =
     (case butlast (split_on (CHR ''/'') name) of [] \<Rightarrow> ''.'' | ps \<Rightarrow> join_with (CHR ''/'') ps)"

definition path_Base :: "string \<Rightarrow> string" where
  "path_Base name = last (split_on (CHR ''/'') name)"

section \<open>The operating system\<close>

datatype node = Dir nat | Reg nat | Symlink | Special

record inode =
  content :: bytes
  mtime :: int

record fsys =
  roots :: "(string \<times> nat) list"
  dirs :: "nat \<Rightarrow> (string \<times> node) list"
  inodes :: "nat \<Rightarrow> inode"
  fresh :: nat

definition lookup_node :: "fsys \<Rightarrow> nat \<Rightarrow> string \<Rightarrow> node option" where
  "lookup_node fs d name = map_of (dirs fs d) name"

definition add_entry :: "nat \<Rightarrow> string \<Rightarrow> node \<Rightarrow> fsys \<Rightarrow> fsys" where
  "add_entry d name n fs = fs\<lparr>dirs := (dirs fs)(d := dirs fs d @ [(name, n)])\<rparr>"

definition del_entry :: "nat \<Rightarrow> string \<Rightarrow> fsys \<Rightarrow> fsys" where
  "del_entry d name fs = fs\<lparr>dirs := (dirs fs)(d := AList.delete name (dirs fs d))\<rparr>"

definition create_file :: "nat \<Rightarrow> string \<Rightarrow> int \<Rightarrow> fsys \<Rightarrow> fsys" where
  "create_file d name t fs =
     add_entry d name (Reg (fresh fs))
       (fs\<lparr>inodes := (inodes fs)(fresh fs := \<lparr>content = [], mtime = t\<rparr>), fresh := Suc (fresh fs)\<rparr>)"

text \<open>\<open>WriteAt\<close> extends a short file with zeros up to the offset.\<close>

definition write_at :: "nat \<Rightarrow> bytes \<Rightarrow> bytes \<Rightarrow> bytes" where
  "write_at off d c = take off (c @ replicate (off - length c) 0) @ d @ drop (off + length d) c"

definition set_content :: "nat \<Rightarrow> bytes \<Rightarrow> int \<Rightarrow> fsys \<Rightarrow> fsys" where
  "set_content i c t fs = fs\<lparr>inodes := (inodes fs)(i := \<lparr>content = c, mtime = t\<rparr>)\<rparr>"

datatype syscall =
    OpenRoot | OpenDot | LstatPart | OpenPart | StatPart | ReadDir | LstatEntry | LstatDest | Rand
  | CreateTemp | LstatStaged | StatFile | WriteFile | TruncateFile | ReadFile | SyncFile | LstatTemp | Link
  | OpenFile | CloseFile | RemoveTemp | CloseParent | CloseRoot

text \<open>What one request sees besides the store: the clock, the failing calls, how many bytes a
  failing \<open>WriteAt\<close> wrote, the random identifiers and suffixes it draws, the hash function.\<close>

record env =
  now :: nanos
  fails :: "syscall \<Rightarrow> bool"
  short :: nat
  rand_id :: "nat \<Rightarrow> string"
  rand_suffix :: "nat \<Rightarrow> string"
  sha256 :: "bytes \<Rightarrow> bytes"

section \<open>Transfers and the manager\<close>

text \<open>\<open>t_file\<close> is the open file, \<open>t_inode\<close> and \<open>t_mtime\<close> the identity and time of
  its \<open>info\<close>, \<open>t_digest\<close> what was written to the hash so far, \<open>t_parent\<close> the pinned directory of an
  upload and \<open>t_temp\<close> its staging name.\<close>

record transfer =
  t_id :: string
  t_path :: string
  t_size :: int
  t_offset :: int
  t_lastUsed :: nanos
  t_file :: "nat option"
  t_inode :: nat
  t_mtime :: int
  t_digest :: bytes
  t_parent :: "nat option"
  t_temp :: string

record manager =
  rootName :: string
  root :: "nat option"
  transfers :: "(string \<times> transfer) list"
  closed :: bool

definition New :: manager where
  "New = \<lparr>rootName = '''', root = None, transfers = [], closed = False\<rparr>"

text \<open>\<open>cleanup\<close>: closes the file and removes the staging name, if it is still this transfer's
  file. The flag tells that some error was collected.\<close>

definition cleanup :: "env \<Rightarrow> transfer \<Rightarrow> fsys \<Rightarrow> fsys \<times> bool" where
  "cleanup e t fs =
     (let err1 = (t_file t \<noteq> None \<and> fails e CloseFile)
      in case t_parent t of
           None \<Rightarrow> (fs, err1)
         | Some d \<Rightarrow>
             (let (fs, err2) =
                (if fails e LstatStaged then (fs, True)
                 else case lookup_node fs d (t_temp t) of
                   None \<Rightarrow> (fs, False)
                 | Some n \<Rightarrow>
                     if n = Reg (t_inode t) then
                       (if fails e RemoveTemp then (fs, True) else (del_entry d (t_temp t) fs, False))
                     else (fs, True))
              in (fs, err1 \<or> err2 \<or> fails e CloseParent)))"

fun cleanup_all :: "env \<Rightarrow> transfer list \<Rightarrow> fsys \<Rightarrow> fsys \<times> bool" where
  "cleanup_all e [] fs = (fs, False)"
| "cleanup_all e (t # ts) fs =
     (case cleanup e t fs of (fs, err) \<Rightarrow> case cleanup_all e ts fs of (fs, err') \<Rightarrow> (fs, err \<or> err'))"

definition idle :: "nanos \<Rightarrow> transfer \<Rightarrow> bool" where
  "idle t0 t \<longleftrightarrow> t0 - t_lastUsed t \<ge> idleTimeout"

definition expire :: "env \<Rightarrow> manager \<times> fsys \<Rightarrow> (manager \<times> fsys) \<times> bool" where
  "expire e s =
     (case s of (m, fs) \<Rightarrow>
        case cleanup_all e (filter (idle (now e)) (map snd (transfers m))) fs of
          (fs, err) \<Rightarrow> ((m\<lparr>transfers := filter (\<lambda>(k, t). \<not> idle (now e) t) (transfers m)\<rparr>, fs), err))"

text \<open>The private \<open>reset\<close>, and the public operations on it.\<close>

definition reset :: "env \<Rightarrow> manager \<times> fsys \<Rightarrow> (manager \<times> fsys) \<times> bool" where
  "reset e s =
     (case s of (m, fs) \<Rightarrow>
        case cleanup_all e (map snd (transfers m)) fs of
          (fs, err) \<Rightarrow>
            ((m\<lparr>transfers := [], root := None\<rparr>, fs), err \<or> (root m \<noteq> None \<and> fails e CloseRoot)))"

definition Close :: "env \<Rightarrow> manager \<times> fsys \<Rightarrow> (manager \<times> fsys) \<times> bool" where
  "Close e s = (case s of (m, fs) \<Rightarrow> reset e (m\<lparr>closed := True\<rparr>, fs))"

definition Reset :: "env \<Rightarrow> manager \<times> fsys \<Rightarrow> (manager \<times> fsys) \<times> bool" where
  "Reset e s = (case s of (m, fs) \<Rightarrow> reset e (m\<lparr>rootName := ''''\<rparr>, fs))"

definition Sweep :: "env \<Rightarrow> manager \<times> fsys \<Rightarrow> (manager \<times> fsys) \<times> bool" where
  "Sweep e s = expire e s"

section \<open>Directories\<close>

fun open_parts :: "env \<Rightarrow> fsys \<Rightarrow> nat \<Rightarrow> string list \<Rightarrow> ft_error + nat" where
  "open_parts e fs d [] = Inr d"
| "open_parts e fs d (part # parts) =
     (if fails e LstatPart then Inl invalid_path
      else case lookup_node fs d part of
        Some (Dir d') \<Rightarrow>
          (if fails e OpenPart then Inl invalid_path
           else if fails e StatPart then Inl invalid_path
           else open_parts e fs d' parts)
      | _ \<Rightarrow> Inl invalid_path)"

definition openDir :: "env \<Rightarrow> fsys \<Rightarrow> nat \<Rightarrow> string \<Rightarrow> ft_error + nat" where
  "openDir e fs r name =
     (if fails e OpenDot then Inl io_error
      else if name = ''.'' then Inr r
      else open_parts e fs r (split_on (CHR ''/'') name))"

record dir_entry =
  e_name :: string
  e_directory :: bool
  e_size :: int

text \<open>The scan loop of \<open>list\<close>: at most \<open>maxScanned\<close> names are looked at and at most \<open>maxEntries\<close>
  reported; the flag is \<open>truncated\<close>.\<close>

fun scan :: "env \<Rightarrow> fsys \<Rightarrow> nat \<Rightarrow> dir_entry list \<Rightarrow> (string \<times> node) list \<Rightarrow> dir_entry list \<times> bool" where
  "scan e fs scanned entries [] = (entries, False)"
| "scan e fs scanned entries ((name, n) # rest) =
     (if Suc scanned > maxScanned then (entries, True)
      else if \<not> publicName name then scan e fs (Suc scanned) entries rest
      else if fails e LstatEntry \<or> n = Symlink \<or> n = Special then scan e fs (Suc scanned) entries rest
      else if length entries = maxEntries then (entries, True)
      else scan e fs (Suc scanned)
        (entries @ [\<lparr>e_name = name, e_directory = (case n of Dir _ \<Rightarrow> True | _ \<Rightarrow> False),
           e_size = (case n of Reg i \<Rightarrow> int (length (content (inodes fs i))) | _ \<Rightarrow> 0)\<rparr>]) rest)"

fun insert_entry :: "dir_entry \<Rightarrow> dir_entry list \<Rightarrow> dir_entry list" where
  "insert_entry x [] = [x]"
| "insert_entry x (y # ys) =
     (if str_less (e_name y) (e_name x) then y # insert_entry x ys else x # y # ys)"

definition list_dir :: "env \<Rightarrow> nat \<Rightarrow> string \<Rightarrow> fsys \<Rightarrow> ft_error + (string \<times> dir_entry list \<times> bool)" where
  "list_dir e r name fs =
     (case publicPath name True of
        Inl err \<Rightarrow> Inl err
      | Inr name \<Rightarrow>
          (case openDir e fs r name of
             Inl err \<Rightarrow> Inl err
           | Inr d \<Rightarrow>
               if fails e OpenFile then Inl io_error
               else if fails e ReadDir then Inl io_error
               else (case scan e fs 0 [] (dirs fs d) of
                  (entries, truncated) \<Rightarrow> Inr (name, foldr insert_entry entries [], truncated))))"

section \<open>Uploads\<close>

text \<open>\<open>newID\<close>: four draws of a random identifier.\<close>

definition newID :: "env \<Rightarrow> manager \<Rightarrow> ft_error + string" where
  "newID e m =
     (if length (transfers m) \<ge> maxTransfers then Inl limit_err
      else if fails e Rand then Inl io_error
      else case filter (\<lambda>tid. map_of (transfers m) tid = None) (map (rand_id e) [0..<4]) of
             [] \<Rightarrow> Inl io_error
           | tid # _ \<Rightarrow> Inr tid)"

text \<open>The metadata of a reply. \<open>M_begin\<close> carries what \<open>beginMetadata\<close> reports.\<close>

record begin_meta =
  b_id :: string
  b_path :: string
  b_size :: int

datatype meta =
    M_list string "dir_entry list" bool
  | M_begin begin_meta
  | M_chunk string int
  | M_commit string string int bytes bool
  | M_download string int int int bytes bool "bytes option"
  | M_cancelled string

type_synonym ft_state = "manager \<times> fsys"
type_synonym ft_result = "ft_error + (bytes \<times> meta)"

definition beginMetadata :: "transfer \<Rightarrow> meta" where
  "beginMetadata t = M_begin \<lparr>b_id = t_id t, b_path = t_path t, b_size = t_size t\<rparr>"

text \<open>\<open>uploadBegin\<close>, and the part of it after the destination's directory is open: the destination
  must not exist, and a fresh staging file is created exclusively.\<close>

definition createStaging :: "env \<Rightarrow> nat \<Rightarrow> string \<Rightarrow> string \<Rightarrow> int \<Rightarrow> ft_state \<Rightarrow> ft_result \<times> ft_state" where
  "createStaging e d tid name fsize s =
     (case s of (m, fs) \<Rightarrow>
        if fails e LstatDest then (Inl io_error, s)
        else if lookup_node fs d (path_Base name) \<noteq> None then (Inl exists_err, s)
        else if fails e Rand then (Inl io_error, s)
        else if fails e CreateTemp then (Inl io_error, s)
        else case filter (\<lambda>tmp. lookup_node fs d tmp = None)
                    (map (\<lambda>i. tempPrefix @ rand_suffix e i) [0..<4]) of
          [] \<Rightarrow> (Inl io_error, s)
        | temp # _ \<Rightarrow>
            let fs' = create_file d temp (now e) fs in
            if fails e StatFile then (Inl io_error, (m, fs'))
            else let t = \<lparr>t_id = tid, t_path = name, t_size = fsize, t_offset = 0,
                   t_lastUsed = now e, t_file = Some (fresh fs), t_inode = fresh fs,
                   t_mtime = now e, t_digest = [], t_parent = Some d, t_temp = temp\<rparr>
                 in (Inr ([], beginMetadata t), (m\<lparr>transfers := (tid, t) # transfers m\<rparr>, fs')))"

definition uploadBegin :: "env \<Rightarrow> nat \<Rightarrow> string \<Rightarrow> int \<Rightarrow> ft_state \<Rightarrow> ft_result \<times> ft_state" where
  "uploadBegin e r name fsize s =
     (case publicPath name False of Inl err \<Rightarrow> (Inl err, s)
      | Inr name \<Rightarrow>
        if fsize < 0 \<or> fsize > MaxFileSize then (Inl size_limit, s)
        else case newID e (fst s) of Inl err \<Rightarrow> (Inl err, s)
        | Inr tid \<Rightarrow>
          (case openDir e (snd s) r (path_Dir name) of Inl err \<Rightarrow> (Inl err, s)
           | Inr d \<Rightarrow> createStaging e d tid name fsize s))"

datatype direction = Upload | Download | Either

definition lookup :: "manager \<Rightarrow> string \<Rightarrow> direction \<Rightarrow> ft_error + transfer" where
  "lookup m tid dir =
     (case map_of (transfers m) tid of
        None \<Rightarrow> Inl unknown_transfer
      | Some t \<Rightarrow>
          if (dir = Upload \<and> t_temp t = []) \<or> (dir = Download \<and> t_temp t \<noteq> [])
          then Inl wrong_transfer else Inr t)"

definition checkOffset :: "transfer \<Rightarrow> int option \<Rightarrow> ft_error option" where
  "checkOffset t offset =
     (case offset of None \<Rightarrow> Some invalid_request
      | Some n \<Rightarrow> (if n \<noteq> t_offset t then Some (offset_mismatch (t_offset t)) else None))"

definition parseHash :: "string \<Rightarrow> ft_error + bytes" where
  "parseHash s =
     (if length s \<noteq> 64 then Inl invalid_request
      else case hex_decode s of None \<Rightarrow> Inl invalid_request | Some b \<Rightarrow> Inr b)"

definition put_transfer :: "string \<Rightarrow> transfer \<Rightarrow> manager \<Rightarrow> manager" where
  "put_transfer tid t m = m\<lparr>transfers := AList.update tid t (transfers m)\<rparr>"

definition drop_transfer :: "string \<Rightarrow> manager \<Rightarrow> manager" where
  "drop_transfer tid m = m\<lparr>transfers := AList.delete tid (transfers m)\<rparr>"

text \<open>\<open>uploadChunk\<close>. Calls on a closed handle (\<open>t_file = None\<close>) fail.\<close>

definition uploadChunk ::
  "env \<Rightarrow> string \<Rightarrow> int option \<Rightarrow> string \<Rightarrow> bytes \<Rightarrow> ft_state \<Rightarrow> ft_result \<times> ft_state"
where
  "uploadChunk e tid offset digest d s =
     (case s of (m, fs) \<Rightarrow>
        case lookup m tid Upload of Inl err \<Rightarrow> (Inl err, s)
        | Inr t \<Rightarrow>
          (case checkOffset t offset of Some err \<Rightarrow> (Inl err, s)
           | None \<Rightarrow>
             if length d = 0 then (Inl invalid_request, s)
             else if int (length d) > t_size t - t_offset t then (Inl size_mismatch, s)
             else case parseHash digest of Inl err \<Rightarrow> (Inl err, s)
             | Inr want \<Rightarrow>
               if want \<noteq> sha256 e d then (Inl hash_mismatch, s)
               else (case t_file t of
                 None \<Rightarrow> (Inl io_error, s)
               | Some i \<Rightarrow>
                 let off = nat (t_offset t); old = content (inodes fs i) in
                 if fails e WriteFile then
                   let part = write_at off (take (short e) d) old;
                       fs1 = set_content i part (now e) fs
                   in (Inl io_error,
                       (m, if fails e TruncateFile then fs1
                           else set_content i (take off (part @ replicate (off - length part) 0)) (now e) fs))
                 else
                   let t' = t\<lparr>t_offset := t_offset t + int (length d), t_lastUsed := now e\<rparr>
                   in (Inr ([], M_chunk tid (t_offset t')),
                       (put_transfer tid t' m, set_content i (write_at off d old) (now e) fs)))))"

definition uploadCommit :: "env \<Rightarrow> string \<Rightarrow> string \<Rightarrow> ft_state \<Rightarrow> ft_result \<times> ft_state" where
  "uploadCommit e tid digest s =
     (case s of (m, fs) \<Rightarrow>
        case lookup m tid Upload of Inl err \<Rightarrow> (Inl err, s)
        | Inr t \<Rightarrow>
          (case parseHash digest of Inl err \<Rightarrow> (Inl err, s)
           | Inr want \<Rightarrow>
             (case (t_file t, t_parent t) of
                (Some i, Some d) \<Rightarrow>
                  let bytes = content (inodes fs i) in
                  if fails e StatFile then (Inl io_error, s)
                  else if t_offset t \<noteq> t_size t \<or> int (length bytes) \<noteq> t_size t then (Inl size_mismatch, s)
                  else if fails e ReadFile then (Inl io_error, s)
                  else if want \<noteq> sha256 e bytes then (Inl hash_mismatch, s)
                  else if fails e SyncFile then (Inl io_error, s)
                  else if fails e LstatTemp \<or> lookup_node fs d (t_temp t) \<noteq> Some (Reg (t_inode t))
                     \<or> int (length (content (inodes fs (t_inode t)))) \<noteq> t_size t
                  then (Inl io_error, s)
                  else if lookup_node fs d (path_Base (t_path t)) \<noteq> None then (Inl exists_err, s)
                  else if fails e Link then (Inl publication_failed, s)
                  else
                    let fs1 = add_entry d (path_Base (t_path t)) (Reg (t_inode t)) fs
                    in (case cleanup e t fs1 of (fs2, warn) \<Rightarrow>
                      (Inr ([], M_commit tid (t_path t) (t_size t) (sha256 e bytes) warn),
                       (drop_transfer tid m, fs2)))
              | _ \<Rightarrow> (Inl io_error, s))))"

section \<open>Downloads\<close>

definition downloadBegin :: "env \<Rightarrow> nat \<Rightarrow> string \<Rightarrow> ft_state \<Rightarrow> ft_result \<times> ft_state" where
  "downloadBegin e r name s =
     (case s of (m, fs) \<Rightarrow>
        case publicPath name False of Inl err \<Rightarrow> (Inl err, s)
        | Inr name \<Rightarrow>
          (case newID e m of Inl err \<Rightarrow> (Inl err, s)
           | Inr tid \<Rightarrow>
             (case openDir e fs r (path_Dir name) of Inl err \<Rightarrow> (Inl err, s)
              | Inr d \<Rightarrow>
                if fails e LstatDest then (Inl io_error, s)
                else case lookup_node fs d (path_Base name) of
                  None \<Rightarrow> (Inl not_found, s)
                | Some (Reg i) \<Rightarrow>
                    (let fsize = int (length (content (inodes fs i))) in
                     if fsize > MaxFileSize then (Inl size_limit, s)
                     else if fails e OpenFile then (Inl io_error, s)
                     else if fails e StatFile then (Inl file_changed, s)
                     else let t = \<lparr>t_id = tid, t_path = name, t_size = fsize, t_offset = 0,
                            t_lastUsed = now e, t_file = Some i, t_inode = i,
                            t_mtime = mtime (inodes fs i), t_digest = [], t_parent = None,
                            t_temp = []\<rparr>
                          in (Inr ([], beginMetadata t), (m\<lparr>transfers := (tid, t) # transfers m\<rparr>, fs)))
                | Some _ \<Rightarrow> (Inl not_file, s))))"

definition unchanged :: "env \<Rightarrow> fsys \<Rightarrow> transfer \<Rightarrow> bool" where
  "unchanged e fs t =
     (case t_file t of None \<Rightarrow> False
      | Some i \<Rightarrow> \<not> fails e StatFile \<and> int (length (content (inodes fs i))) = t_size t
          \<and> mtime (inodes fs i) = t_mtime t)"

text \<open>The bytes of an open handle.\<close>

definition handle_content :: "fsys \<Rightarrow> transfer \<Rightarrow> bytes" where
  "handle_content fs t = (case t_file t of None \<Rightarrow> [] | Some i \<Rightarrow> content (inodes fs i))"

definition downloadChunk :: "env \<Rightarrow> string \<Rightarrow> int option \<Rightarrow> ft_state \<Rightarrow> ft_result \<times> ft_state" where
  "downloadChunk e tid offset s =
     (case s of (m, fs) \<Rightarrow>
        case lookup m tid Download of Inl err \<Rightarrow> (Inl err, s)
        | Inr t \<Rightarrow>
          (case checkOffset t offset of Some err \<Rightarrow> (Inl err, s)
           | None \<Rightarrow>
             if \<not> unchanged e fs t then (Inl file_changed, s)
             else
               let n = min ChunkSize (t_size t - t_offset t);
                   d = take (nat n) (drop (nat (t_offset t)) (handle_content fs t))
               in if n > 0 \<and> (fails e ReadFile \<or> int (length d) \<noteq> n) then (Inl io_error, s)
                  else
                    let t' = t\<lparr>t_offset := t_offset t + n, t_lastUsed := now e, t_digest := t_digest t @ d\<rparr>;
                        eof = (t_offset t' = t_size t');
                        out = (d, M_download tid (t_offset t) (t_offset t') n (sha256 e d) eof
                                 (if eof then Some (sha256 e (t_digest t')) else None))
                    in if eof then (Inr out, (drop_transfer tid m, fst (cleanup e t' fs)))
                       else (Inr out, (put_transfer tid t' m, fs))))"

section \<open>Requests\<close>

text \<open>The decoded parameters of a request. \<open>decode\<close> checks what the code checks before the JSON
  decoder runs; the decoder itself, per method, is the parameter \<open>dec\<close>.\<close>

record params =
  p_path :: string
  p_size :: "int option"
  p_id :: string
  p_offset :: "int option"
  p_sha256 :: string

type_synonym decoder = "string \<Rightarrow> string \<Rightarrow> params option"

definition decode :: "decoder \<Rightarrow> string \<Rightarrow> string \<Rightarrow> ft_error + params" where
  "decode dec method raw =
     (if length raw > maxParams then Inl invalid_request
      else let raw = (if length raw = 0 then ''{}'' else raw) in
        case trim_space raw of [] \<Rightarrow> Inl invalid_request
        | c # _ \<Rightarrow>
          if c \<noteq> CHR 0x7B then Inl invalid_request
          else (case dec method raw of None \<Rightarrow> Inl invalid_request | Some p \<Rightarrow> Inr p))"

definition file_cancel :: "env \<Rightarrow> string \<Rightarrow> ft_state \<Rightarrow> ft_result \<times> ft_state" where
  "file_cancel e tid s =
     (case s of (m, fs) \<Rightarrow>
        case lookup m tid Either of Inl err \<Rightarrow> (Inl err, s)
        | Inr t \<Rightarrow>
          (case cleanup e t fs of (fs', err) \<Rightarrow>
             (if err then (Inl io_error, (drop_transfer tid m, fs'))
              else (Inr ([], M_cancelled tid), (drop_transfer tid m, fs')))))"

definition dispatch ::
  "env \<Rightarrow> decoder \<Rightarrow> nat \<Rightarrow> string \<Rightarrow> string \<Rightarrow> bytes \<Rightarrow> ft_state \<Rightarrow> ft_result \<times> ft_state"
where
  "dispatch e dec r method raw d s =
     (if method \<in> {''file_list'', ''file_upload_begin'', ''file_upload_chunk'', ''file_upload_commit'',
          ''file_download_begin'', ''file_download_chunk'', ''file_cancel''}
      then case decode dec method raw of Inl err \<Rightarrow> (Inl err, s)
        | Inr p \<Rightarrow>
          if method = ''file_list'' then
            (case list_dir e r (p_path p) (snd s) of Inl err \<Rightarrow> (Inl err, s)
             | Inr (name, entries, truncated) \<Rightarrow> (Inr ([], M_list name entries truncated), s))
          else if method = ''file_upload_begin'' then
            (case p_size p of None \<Rightarrow> (Inl invalid_request, s)
             | Some fsize \<Rightarrow> uploadBegin e r (p_path p) fsize s)
          else if method = ''file_upload_chunk'' then uploadChunk e (p_id p) (p_offset p) (p_sha256 p) d s
          else if method = ''file_upload_commit'' then uploadCommit e (p_id p) (p_sha256 p) s
          else if method = ''file_download_begin'' then downloadBegin e r (p_path p) s
          else if method = ''file_download_chunk'' then downloadChunk e (p_id p) (p_offset p) s
          else file_cancel e (p_id p) s
      else (Inl unknown_method, s))"

text \<open>The part of \<open>Handle\<close> before the method runs: expiry, and the reset that a changed or empty
  root forces. The flag is \<open>cleanupErr\<close>.\<close>

definition admit :: "env \<Rightarrow> string \<Rightarrow> ft_state \<Rightarrow> ft_state \<times> bool" where
  "admit e root_dir s =
     (case expire e s of (s, err1) \<Rightarrow>
        if root_dir \<noteq> rootName (fst s) \<or> root_dir = [] then
          (case reset e s of ((m, fs), err2) \<Rightarrow> ((m\<lparr>rootName := root_dir\<rparr>, fs), err1 \<or> err2))
        else (s, err1))"

definition Handle ::
  "env \<Rightarrow> decoder \<Rightarrow> string \<Rightarrow> string \<Rightarrow> string \<Rightarrow> bytes \<Rightarrow> ft_state \<Rightarrow> ft_result \<times> ft_state"
where
  "Handle e dec root_dir method raw d s =
     (if closed (fst s) then (Inl closed_err, s)
      else case admit e root_dir s of (s, cleanupErr) \<Rightarrow>
        if root_dir = [] then (Inl disabled_err, s)
        else if cleanupErr then (Inl io_error, s)
        else
          (case (case root (fst s) of Some r \<Rightarrow> Some r
                 | None \<Rightarrow> if fails e OpenRoot then None else map_of (roots (snd s)) root_dir) of
             None \<Rightarrow> (Inl invalid_root, s)
           | Some r \<Rightarrow>
               let s = ((fst s)\<lparr>root := Some r\<rparr>, snd s)
               in if int (length d) > ChunkSize \<or> (method \<noteq> ''file_upload_chunk'' \<and> length d \<noteq> 0)
                  then (Inl invalid_request, s)
                  else dispatch e dec r method raw d s))"

end
