(* ===== verification/FileTransfer_Props.thy ===== *)
theory FileTransfer_Props
  imports FileTransfer
begin

text \<open>
  What a file-transfer session guarantees: its invariant, that no request ever replaces or removes
  a user's file or changes the bytes of a published one, that a commit publishes exactly the
  verified bytes, that an upload followed by a download returns the data, and that revoking the
  permission invalidates every transfer.
\<close>

section \<open>The store\<close>

lemma lookup_add_entry [simp]:
  "lookup_node (add_entry d name n fs) d' name' =
     (if d' = d \<and> name' = name \<and> lookup_node fs d name = None then Some n else lookup_node fs d' name')"
  by (auto simp: lookup_node_def add_entry_def map_add_def split: option.split)

lemma lookup_del_entry [simp]:
  "lookup_node (del_entry d name fs) d' name' =
     (if d' = d \<and> name' = name then None else lookup_node fs d' name')"
  by (simp add: lookup_node_def del_entry_def delete_conv')

lemma lookup_set_content [simp]: "lookup_node (set_content i c t fs) d name = lookup_node fs d name"
  by (simp add: lookup_node_def set_content_def)

lemma store_frame [simp]:
  "inodes (add_entry d name n fs) = inodes fs" "fresh (add_entry d name n fs) = fresh fs"
  "inodes (del_entry d name fs) = inodes fs" "fresh (del_entry d name fs) = fresh fs"
  "fresh (set_content i c t fs) = fresh fs"
  "inodes (set_content i c t fs) = (inodes fs)(i := \<lparr>content = c, mtime = t\<rparr>)"
  by (simp_all add: add_entry_def del_entry_def set_content_def)

lemma create_file_frame [simp]:
  "inodes (create_file d name t fs) = (inodes fs)(fresh fs := \<lparr>content = [], mtime = t\<rparr>)"
  "fresh (create_file d name t fs) = Suc (fresh fs)"
  "lookup_node (create_file d name t fs) d' name' =
     (if d' = d \<and> name' = name \<and> lookup_node fs d name = None then Some (Reg (fresh fs))
      else lookup_node fs d' name')"
  by (simp_all add: create_file_def) (simp add: lookup_node_def)

definition is_temp :: "string \<Rightarrow> bool" where
  "is_temp name \<longleftrightarrow> has_prefix name tempPrefix"

text \<open>What a request may do to the store: names that are not staging names keep their nodes, and
  only the inodes in \<open>W\<close> (those of the session's own uploads) or new ones change.\<close>

definition keeps_files :: "nat set \<Rightarrow> fsys \<Rightarrow> fsys \<Rightarrow> bool" where
  "keeps_files W fs fs' \<longleftrightarrow>
     (\<forall>d name n. lookup_node fs d name = Some n \<and> \<not> is_temp name \<longrightarrow> lookup_node fs' d name = Some n)
     \<and> fresh fs \<le> fresh fs' \<and> (\<forall>i < fresh fs. i \<notin> W \<longrightarrow> inodes fs' i = inodes fs i)"

lemma keeps_files_refl [simp]: "keeps_files W fs fs"
  by (simp add: keeps_files_def)

lemma keeps_files_trans: "keeps_files W fs1 fs2 \<Longrightarrow> keeps_files W fs2 fs3 \<Longrightarrow> keeps_files W fs1 fs3"
  by (auto simp: keeps_files_def)

lemma keeps_files_mono: "keeps_files V fs fs' \<Longrightarrow> V \<subseteq> W \<Longrightarrow> keeps_files W fs fs'"
  by (auto simp: keeps_files_def)

section \<open>The invariant\<close>

definition is_upload :: "transfer \<Rightarrow> bool" where
  "is_upload t \<longleftrightarrow> t_temp t \<noteq> []"

definition transfer_ok :: "fsys \<Rightarrow> string \<Rightarrow> transfer \<Rightarrow> bool" where
  "transfer_ok fs k t \<longleftrightarrow>
     t_id t = k \<and> 0 \<le> t_offset t \<and> t_offset t \<le> t_size t \<and> t_size t \<le> MaxFileSize
     \<and> t_file t = Some (t_inode t)
     \<and> (if is_upload t
        then is_temp (t_temp t) \<and> t_parent t \<noteq> None \<and> t_inode t < fresh fs
          \<and> publicPath (t_path t) False = Inr (t_path t)
        else t_parent t = None \<and> int (length (t_digest t)) = t_offset t)"

definition upload_inodes :: "manager \<Rightarrow> nat set" where
  "upload_inodes m = {t_inode t | k t. (k, t) \<in> set (transfers m) \<and> is_upload t}"

definition ft_inv :: "ft_state \<Rightarrow> bool" where
  "ft_inv s \<longleftrightarrow> (case s of (m, fs) \<Rightarrow>
     distinct (map fst (transfers m)) \<and> length (transfers m) \<le> maxTransfers
     \<and> (\<forall>(k, t) \<in> set (transfers m). transfer_ok fs k t)
     \<and> inj_on (\<lambda>(k, t). t_inode t) {(k, t) \<in> set (transfers m). is_upload t}
     \<and> (transfers m \<noteq> [] \<longrightarrow> root m \<noteq> None)
     \<and> (closed m \<longrightarrow> root m = None))"

lemma cleanup_keeps_files:
  "is_upload t \<longrightarrow> is_temp (t_temp t) \<Longrightarrow> t_parent t \<noteq> None \<longrightarrow> is_upload t \<Longrightarrow>
     keeps_files W fs (fst (cleanup e t fs))"
  by (auto simp: cleanup_def keeps_files_def Let_def split: option.splits if_splits)

lemma transfer_ok_cleanup:
  "transfer_ok fs k t \<Longrightarrow> keeps_files W fs0 (fst (cleanup e t fs0))"
  by (rule cleanup_keeps_files) (auto simp: transfer_ok_def split: if_splits)

lemma cleanup_all_keeps_files:
  "\<forall>t \<in> set ts. \<exists>fs k. transfer_ok fs k t \<Longrightarrow> keeps_files W fs0 (fst (cleanup_all e ts fs0))"
proof (induction ts arbitrary: fs0)
  case (Cons t ts)
  then have "keeps_files W fs0 (fst (cleanup e t fs0))" using transfer_ok_cleanup by fastforce
  moreover have "keeps_files W (fst (cleanup e t fs0)) (fst (cleanup_all e ts (fst (cleanup e t fs0))))"
    using Cons by simp
  ultimately show ?case by (auto split: prod.split intro: keeps_files_trans)
qed simp

lemma transfer_ok_mono: "transfer_ok fs k t \<Longrightarrow> fresh fs \<le> fresh fs' \<Longrightarrow> transfer_ok fs' k t"
  by (auto simp: transfer_ok_def split: if_splits)

lemma keeps_files_fresh: "keeps_files W fs fs' \<Longrightarrow> fresh fs \<le> fresh fs'"
  by (simp add: keeps_files_def)

text \<open>A session whose transfers are some of the old ones keeps the invariant.\<close>

lemma ft_inv_subset:
  assumes "ft_inv (m, fs)" "fresh fs \<le> fresh fs'" "distinct (map fst ts)" "length ts \<le> length (transfers m)"
    and "set ts \<subseteq> set (transfers m)" "ts \<noteq> [] \<longrightarrow> r \<noteq> None" "closed m \<longrightarrow> r = None"
  shows "ft_inv (m\<lparr>transfers := ts, root := r\<rparr>, fs')"
proof -
  have "inj_on (\<lambda>(k, t). t_inode t) {(k, t) \<in> set ts. is_upload t}"
    using assms(1,5) by (auto simp: ft_inv_def intro: inj_on_subset)
  moreover have "transfer_ok fs' k t" if "(k, t) \<in> set ts" for k t
  proof -
    have "transfer_ok fs k t" using that assms(1,5) by (auto simp: ft_inv_def)
    then show ?thesis using assms(2) by (rule transfer_ok_mono)
  qed
  ultimately show ?thesis using assms by (auto simp: ft_inv_def)
qed

lemma ft_inv_drop:
  assumes "ft_inv (m, fs)" "fresh fs \<le> fresh fs'"
  shows "ft_inv (drop_transfer k m, fs')"
proof -
  have "set (AList.delete k (transfers m)) \<subseteq> set (transfers m)"
    by (auto simp: AList.delete_eq)
  moreover have "distinct (map fst (AList.delete k (transfers m)))"
    using assms(1) by (simp add: ft_inv_def AList.distinct_delete)
  moreover have "length (AList.delete k (transfers m)) \<le> length (transfers m)"
    by (simp add: AList.delete_eq)
  ultimately have "ft_inv (m\<lparr>transfers := AList.delete k (transfers m), root := root m\<rparr>, fs')"
    using assms by (intro ft_inv_subset) (auto simp: ft_inv_def)
  then show ?thesis by (simp add: drop_transfer_def)
qed

lemma ft_inv_transfer: "ft_inv (m, fs) \<Longrightarrow> map_of (transfers m) k = Some t \<Longrightarrow> transfer_ok fs k t"
  by (auto simp: ft_inv_def dest!: map_of_SomeD)


section \<open>Every operation is safe\<close>

text \<open>From \<open>s\<close> to \<open>s'\<close> the invariant is kept, user files are kept, and the only inodes the session
  may write afterwards are those it could write before and ones that did not exist yet.\<close>

definition safe :: "ft_state \<Rightarrow> ft_state \<Rightarrow> bool" where
  "safe s s' \<longleftrightarrow> ft_inv s' \<and> keeps_files (upload_inodes (fst s)) (snd s) (snd s')
     \<and> upload_inodes (fst s') \<subseteq> upload_inodes (fst s) \<union> {i. fresh (snd s) \<le> i}"

lemma safe_refl [simp]: "ft_inv s \<Longrightarrow> safe s s"
  by (simp add: safe_def)

lemma safe_trans: "safe a b \<Longrightarrow> safe b c \<Longrightarrow> safe a c"
proof -
  assume ab: "safe a b" and bc: "safe b c"
  have sub: "upload_inodes (fst b) \<subseteq> upload_inodes (fst a) \<union> {i. fresh (snd a) \<le> i}"
    using ab by (simp add: safe_def)
  have "keeps_files (upload_inodes (fst a)) (snd a) (snd c)"
    unfolding keeps_files_def
  proof (intro conjI allI impI)
    fix d name n assume "lookup_node (snd a) d name = Some n \<and> \<not> is_temp name"
    then show "lookup_node (snd c) d name = Some n"
      using ab bc by (auto simp: safe_def keeps_files_def)
  next
    show "fresh (snd a) \<le> fresh (snd c)"
      using ab bc by (auto simp: safe_def keeps_files_def)
  next
    fix i assume i: "i < fresh (snd a)" "i \<notin> upload_inodes (fst a)"
    then have "i \<notin> upload_inodes (fst b)" using sub by auto
    with i ab bc show "inodes (snd c) i = inodes (snd a) i"
      by (auto simp: safe_def keeps_files_def)
  qed
  moreover have "upload_inodes (fst c) \<subseteq> upload_inodes (fst a) \<union> {i. fresh (snd a) \<le> i}"
    using ab bc by (fastforce simp: safe_def keeps_files_def)
  ultimately show ?thesis using bc by (simp add: safe_def)
qed

lemma safe_inv: "safe s s' \<Longrightarrow> ft_inv s'"
  by (simp add: safe_def)

lemma safe_subset:
  assumes "ft_inv (m, fs)" "keeps_files {} fs fs'" "distinct (map fst ts)" "length ts \<le> length (transfers m)"
    and "set ts \<subseteq> set (transfers m)" "ts \<noteq> [] \<longrightarrow> r \<noteq> None" "closed m \<longrightarrow> r = None"
  shows "safe (m, fs) (m\<lparr>transfers := ts, root := r\<rparr>, fs')"
  using assms ft_inv_subset[OF assms(1) keeps_files_fresh[OF assms(2)] assms(3-7)]
  by (auto simp: safe_def upload_inodes_def intro: keeps_files_mono)

lemma safe_drop:
  assumes "ft_inv (m, fs)" "keeps_files {} fs fs'"
  shows "safe (m, fs) (drop_transfer k m, fs')"
proof -
  have "upload_inodes (drop_transfer k m) \<subseteq> upload_inodes m"
    by (auto simp: upload_inodes_def drop_transfer_def AList.delete_eq)
  with assms show ?thesis
    by (auto simp: safe_def intro: keeps_files_mono ft_inv_drop keeps_files_fresh)
qed

lemma transfers_ok: "ft_inv (m, fs) \<Longrightarrow> (k, t) \<in> set (transfers m) \<Longrightarrow> \<exists>fs k. transfer_ok fs k t"
  by (force simp: ft_inv_def)

lemma safe_store: "ft_inv (m, fs) \<Longrightarrow> keeps_files {} fs fs' \<Longrightarrow> safe (m, fs) (m, fs')"
  using safe_subset[of m fs fs' "transfers m" "root m"] by (auto simp: ft_inv_def)

lemma expire_safe [keeps]: "ft_inv s \<Longrightarrow> safe s (fst (expire e s))"
proof -
  assume inv: "ft_inv s"
  obtain m fs where s: "s = (m, fs)" by fastforce
  let ?ts = "filter (\<lambda>(k, t). \<not> idle (now e) t) (transfers m)"
  have "keeps_files {} fs (fst (cleanup_all e (filter (idle (now e)) (map snd (transfers m))) fs))"
    using transfers_ok[OF inv[unfolded s]] by (intro cleanup_all_keeps_files) auto
  then have "safe (m, fs) (m\<lparr>transfers := ?ts, root := root m\<rparr>,
      fst (cleanup_all e (filter (idle (now e)) (map snd (transfers m))) fs))"
    using inv s by (intro safe_subset) (auto simp: ft_inv_def distinct_map_filter)
  then show ?thesis by (auto simp: expire_def s split: prod.split)
qed

lemma reset_safe [keeps]:
  assumes "ft_inv s" shows "safe s (fst (reset e s))"
proof -
  obtain m fs where s: "s = (m, fs)" by fastforce
  have "keeps_files {} fs (fst (cleanup_all e (map snd (transfers m)) fs))"
    using transfers_ok[OF assms[unfolded s]] by (intro cleanup_all_keeps_files) auto
  then have "safe (m, fs) (m\<lparr>transfers := [], root := None\<rparr>, fst (cleanup_all e (map snd (transfers m)) fs))"
    using assms s by (intro safe_subset) auto
  then show ?thesis by (auto simp: reset_def s split: prod.split)
qed

lemma rootName_safe [simp]: "safe s (m\<lparr>rootName := x\<rparr>, fs) \<longleftrightarrow> safe s (m, fs)"
  by (simp add: safe_def ft_inv_def upload_inodes_def)

lemma newID_fresh: "newID e m = Inr tid \<Longrightarrow> map_of (transfers m) tid = None \<and> length (transfers m) < maxTransfers"
  by (auto simp: newID_def not_le filter_eq_Cons_iff split: if_splits list.splits)

lemma publicPath_Inr: "publicPath name False = Inr p \<Longrightarrow> p = name"
  by (auto simp: publicPath_def split: if_splits)

lemma lookup_Inr: "lookup m tid dir = Inr t \<Longrightarrow> map_of (transfers m) tid = Some t
    \<and> (dir = Upload \<longrightarrow> is_upload t) \<and> (dir = Download \<longrightarrow> \<not> is_upload t)"
  by (auto simp: lookup_def is_upload_def split: option.splits if_splits)

lemma is_temp_prefix [simp]: "is_temp (tempPrefix @ x)"
  by (simp add: is_temp_def has_prefix_def)

text \<open>A new transfer joins the session.\<close>

lemma safe_new:
  assumes "ft_inv (m, fs)" "map_of (transfers m) k = None" "length (transfers m) < maxTransfers"
    and "root m \<noteq> None" "keeps_files {} fs fs'" "transfer_ok fs' k t"
    and "is_upload t \<longrightarrow> fresh fs \<le> t_inode t"
  shows "safe (m, fs) (m\<lparr>transfers := (k, t) # transfers m\<rparr>, fs')"
proof -
  have ok: "transfer_ok fs' k' t'" if "(k', t') \<in> set (transfers m)" for k' t'
  proof -
    have "transfer_ok fs k' t'" using that assms(1) by (auto simp: ft_inv_def)
    then show ?thesis using keeps_files_fresh[OF assms(5)] by (rule transfer_ok_mono)
  qed
  have "t_inode t \<noteq> t_inode t'" if "(k', t') \<in> set (transfers m)" "is_upload t'" "is_upload t" for k' t'
  proof -
    have "t_inode t' < fresh fs" using that assms(1) by (auto simp: ft_inv_def transfer_ok_def)
    then show ?thesis using assms(7) that(3) by simp
  qed
  moreover have "{(k', t'). (k' = k \<and> t' = t \<or> (k', t') \<in> set (transfers m)) \<and> is_upload t'} =
      (if is_upload t then {(k, t)} else {}) \<union> {(k, t) \<in> set (transfers m). is_upload t}"
    by auto
  ultimately have "ft_inv (m\<lparr>transfers := (k, t) # transfers m\<rparr>, fs')"
    using assms ok by (auto simp: ft_inv_def map_of_eq_None_iff)
  with assms show ?thesis by (auto simp: safe_def upload_inodes_def intro: keeps_files_mono)
qed

lemma staging_name:
  assumes "filter (\<lambda>tmp. lookup_node fs d tmp = None) (map (\<lambda>i. tempPrefix @ f i) xs) = y # ys"
  shows "is_temp y" "y \<noteq> []" "lookup_node fs d y = None"
proof -
  have "y \<in> set (filter (\<lambda>tmp. lookup_node fs d tmp = None) (map (\<lambda>i. tempPrefix @ f i) xs))"
    by (simp add: assms)
  moreover have "tempPrefix \<noteq> []" by (simp add: tempPrefix_def)
  ultimately show "is_temp y" "y \<noteq> []" "lookup_node fs d y = None" by auto
qed

lemma create_keeps_files: "lookup_node fs d y = None \<Longrightarrow> keeps_files {} fs (create_file d y t fs)"
  by (auto simp: keeps_files_def)

lemma createStaging_safe:
  assumes "ft_inv (m, fs)" "root m \<noteq> None" "newID e m = Inr tid" "publicPath name False = Inr name"
    and "0 \<le> fsize" "fsize \<le> MaxFileSize"
  shows "safe (m, fs) (snd (createStaging e d tid name fsize (m, fs)))"
proof (cases "filter (\<lambda>tmp. lookup_node fs d tmp = None) (map (\<lambda>i. tempPrefix @ rand_suffix e i) [0..<4])")
  case Nil
  with assms(1) show ?thesis by (simp add: createStaging_def)
next
  case (Cons y ys)
  note y = staging_name[OF Cons]
  have "safe (m, fs) (m, create_file d y (now e) fs)"
    using assms(1) y(3) by (intro safe_store create_keeps_files)
  moreover have "safe (m, fs) (m\<lparr>transfers := (tid, \<lparr>t_id = tid, t_path = name, t_size = fsize, t_offset = 0,
      t_lastUsed = now e, t_file = Some (fresh fs), t_inode = fresh fs, t_mtime = now e, t_digest = [],
      t_parent = Some d, t_temp = y\<rparr>) # transfers m\<rparr>, create_file d y (now e) fs)"
    using assms y newID_fresh[OF assms(3)]
    by (intro safe_new create_keeps_files) (auto simp: transfer_ok_def is_upload_def)
  ultimately show ?thesis using assms(1) unfolding createStaging_def prod.case Cons list.case by (simp add: Let_def)
qed

lemma uploadBegin_safe [keeps]:
  "ft_inv s \<Longrightarrow> root (fst s) \<noteq> None \<Longrightarrow> safe s (snd (uploadBegin e r name fsize s))"
  by (cases s) (auto simp: uploadBegin_def not_less split: sum.split dest: publicPath_Inr intro: createStaging_safe)

lemma downloadBegin_safe [keeps]:
  "ft_inv s \<Longrightarrow> root (fst s) \<noteq> None \<Longrightarrow> safe s (snd (downloadBegin e r name s))"
  by (cases s) (auto simp: downloadBegin_def Let_def transfer_ok_def is_upload_def
      split: sum.split option.split node.split dest!: newID_fresh intro!: safe_new)

lemma mem_map_of: "distinct (map fst xs) \<Longrightarrow> (k, v) \<in> set xs \<longleftrightarrow> map_of xs k = Some v"
  by (auto dest: map_of_SomeD)

lemma length_AList_update: "map_of xs k \<noteq> None \<Longrightarrow> length (AList.update k v xs) = length xs"
  by (induction xs) auto

lemma put_transfers: "transfers (put_transfer k t m) = AList.update k t (transfers m)"
  "root (put_transfer k t m) = root m" "closed (put_transfer k t m) = closed m"
  by (simp_all add: put_transfer_def)

lemma inodes_differ:
  assumes "ft_inv (m, fs)" "(k1, t1) \<in> set (transfers m)" "is_upload t1"
    and "(k2, t2) \<in> set (transfers m)" "is_upload t2" "t_inode t1 = t_inode t2"
  shows "k1 = k2 \<and> t1 = t2"
proof -
  have "inj_on (\<lambda>(k, t). t_inode t) {(k, t) \<in> set (transfers m). is_upload t}"
    using assms(1) by (simp add: ft_inv_def)
  from inj_onD[OF this, of "(k1, t1)" "(k2, t2)"] show ?thesis using assms by auto
qed

text \<open>A transfer of the session moves on; its inode and direction stay.\<close>

lemma safe_put:
  assumes "ft_inv (m, fs)" "map_of (transfers m) k = Some t" "transfer_ok fs' k t'"
    and "t_inode t' = t_inode t" "is_upload t' = is_upload t" "keeps_files (upload_inodes m) fs fs'"
  shows "safe (m, fs) (put_transfer k t' m, fs')"
proof -
  let ?ts = "AList.update k t' (transfers m)"
  have dist: "distinct (map fst (transfers m))" "distinct (map fst ?ts)"
    using assms(1) by (simp_all add: ft_inv_def AList.distinct_update)
  have mem: "(k', u) \<in> set ?ts \<longleftrightarrow> (if k' = k then u = t' else (k', u) \<in> set (transfers m))" for k' u
    unfolding mem_map_of[OF dist(1)] mem_map_of[OF dist(2)] AList.update_conv' by auto
  have kt: "(k, t) \<in> set (transfers m)" using assms(2) by (rule map_of_SomeD)
  have ok: "transfer_ok fs' k' u" if "(k', u) \<in> set (transfers m)" for k' u
    using that assms(1) keeps_files_fresh[OF assms(6)] by (auto simp: ft_inv_def intro: transfer_ok_mono)
  have inj: "inj_on (\<lambda>(k, t). t_inode t) {(k, t) \<in> set ?ts. is_upload t}"
  proof (rule inj_onI, clarsimp simp: mem)
    fix k1 u1 k2 u2
    assume a: "if k1 = k then u1 = t' else (k1, u1) \<in> set (transfers m)" "is_upload u1"
      "if k2 = k then u2 = t' else (k2, u2) \<in> set (transfers m)" "is_upload u2" "t_inode u1 = t_inode u2"
    let ?o = "\<lambda>k' u. if k' = k then t else u"
    have 1: "(k1, ?o k1 u1) \<in> {(k, t) \<in> set (transfers m). is_upload t}"
      "(k2, ?o k2 u2) \<in> {(k, t) \<in> set (transfers m). is_upload t}"
      using a assms(5) kt by (auto split: if_splits)
    moreover have "t_inode (?o k1 u1) = t_inode (?o k2 u2)" using a assms(4) by (auto split: if_splits)
    ultimately have "k1 = k2 \<and> ?o k1 u1 = ?o k2 u2"
      using inodes_differ[OF assms(1), of k1 "?o k1 u1" k2 "?o k2 u2"] by blast
    then show "k1 = k2 \<and> u1 = u2" using a by (auto split: if_splits)
  qed
  have "upload_inodes (put_transfer k t' m) \<subseteq> upload_inodes m"
    using assms(4,5) kt by (fastforce simp: upload_inodes_def put_transfers mem split: if_splits)
  moreover have "ft_inv (put_transfer k t' m, fs')"
    using assms dist inj ok by (auto simp: ft_inv_def put_transfers mem length_AList_update split: if_splits)
  ultimately show ?thesis using assms(6) by (auto simp: safe_def)
qed

lemma upload_inode: "map_of (transfers m) k = Some t \<Longrightarrow> is_upload t \<Longrightarrow> t_inode t \<in> upload_inodes m"
  by (auto simp: upload_inodes_def dest: map_of_SomeD)

lemma safe_content:
  assumes "ft_inv (m, fs)" "map_of (transfers m) k = Some t" "is_upload t"
  shows "safe (m, fs) (m, set_content (t_inode t) c x fs)"
proof -
  have "keeps_files (upload_inodes m) fs (set_content (t_inode t) c x fs)"
    using upload_inode[OF assms(2,3)] by (auto simp: keeps_files_def)
  moreover have "ft_inv (m, set_content (t_inode t) c x fs)"
    using assms(1) by (auto simp: ft_inv_def intro: transfer_ok_mono)
  ultimately show ?thesis by (auto simp: safe_def)
qed

lemma uploadChunk_safe [keeps]:
  assumes "ft_inv s" shows "safe s (snd (uploadChunk e tid offset digest d s))"
proof -
  obtain m fs where s: "s = (m, fs)" by fastforce
  show ?thesis
  proof (cases "lookup m tid Upload")
    case (Inr t)
    note t = lookup_Inr[OF Inr]
    then have ok: "transfer_ok fs tid t" and up: "is_upload t"
      using assms s by (auto intro: ft_inv_transfer)
    then have handle: "t_file t = Some (t_inode t)" by (simp add: transfer_ok_def)
    have moved: "safe s (put_transfer tid (t\<lparr>t_offset := t_offset t + int (length d), t_lastUsed := now e\<rparr>) m,
        set_content (t_inode t) c x fs)" if "int (length d) \<le> t_size t - t_offset t" for c x
      unfolding s
    proof (rule safe_put)
      show "ft_inv (m, fs)" "map_of (transfers m) tid = Some t" using assms s t by auto
      show "keeps_files (upload_inodes m) fs (set_content (t_inode t) c x fs)"
        using t up upload_inode by (auto simp: keeps_files_def)
    qed (use ok up that in \<open>auto simp: transfer_ok_def is_upload_def\<close>)
    have wrote: "safe s (m, set_content (t_inode t) c x fs)" for c x
      unfolding s using assms s t up by (auto intro: safe_content)
    show ?thesis
      using moved wrote assms Inr handle
      by (auto simp: uploadChunk_def s Let_def not_less split: option.splits sum.splits)
  qed (use assms in \<open>simp add: uploadChunk_def s\<close>)
qed

lemma uploadCommit_safe [keeps]:
  assumes "ft_inv s" shows "safe s (snd (uploadCommit e tid digest s))"
proof -
  obtain m fs where s: "s = (m, fs)" by fastforce
  show ?thesis
  proof (cases "lookup m tid Upload")
    case (Inr t)
    then have ok: "transfer_ok fs tid t" using assms s by (auto dest: lookup_Inr intro: ft_inv_transfer)
    have published: "safe s (drop_transfer tid m,
        fst (cleanup e t (add_entry d (path_Base (t_path t)) n fs)))" for d n
      unfolding s
    proof (rule safe_drop)
      have "keeps_files {} fs (add_entry d (path_Base (t_path t)) n fs)" by (auto simp: keeps_files_def)
      then show "keeps_files {} fs (fst (cleanup e t (add_entry d (path_Base (t_path t)) n fs)))"
        using transfer_ok_cleanup[OF ok] by (rule keeps_files_trans)
    qed (use assms s in simp)
    then show ?thesis
      using assms Inr by (auto simp: uploadCommit_def s Let_def case_prod_beta split: option.splits sum.splits)
  qed (use assms in \<open>simp add: uploadCommit_def s\<close>)
qed

lemma downloadChunk_safe [keeps]:
  assumes "ft_inv s" shows "safe s (snd (downloadChunk e tid offset s))"
proof -
  obtain m fs where s: "s = (m, fs)" by fastforce
  show ?thesis
  proof (cases "lookup m tid Download")
    case (Inr t)
    note t = lookup_Inr[OF Inr]
    have ok: "transfer_ok fs tid t" and down: "\<not> is_upload t"
      using t assms s by (auto intro: ft_inv_transfer)
    define n where "n = min ChunkSize (t_size t - t_offset t)"
    define d where "d = take (nat n) (drop (nat (t_offset t)) (handle_content fs t))"
    define t' where "t' = t\<lparr>t_offset := t_offset t + n, t_lastUsed := now e, t_digest := t_digest t @ d\<rparr>"
    have n: "0 \<le> n" "n \<le> t_size t - t_offset t" using ok by (auto simp: n_def ChunkSize_def transfer_ok_def)
    have moved: "safe s (put_transfer tid t' m, fs)" if "n > 0 \<longrightarrow> int (length d) = n"
      unfolding s
    proof (rule safe_put)
      show "ft_inv (m, fs)" "map_of (transfers m) tid = Some t" using assms s t by auto
      show "transfer_ok fs tid t'"
        using ok down n that by (cases "n = 0") (auto simp: transfer_ok_def t'_def is_upload_def d_def)
    qed (use ok in \<open>auto simp: t'_def is_upload_def\<close>)
    have "keeps_files {} fs (fst (cleanup e t' fs))"
      using ok down by (intro cleanup_keeps_files) (auto simp: transfer_ok_def t'_def is_upload_def)
    then have dropped: "safe s (drop_transfer tid m, fst (cleanup e t' fs))"
      unfolding s using assms s by (intro safe_drop) auto
    show ?thesis
      using moved dropped assms Inr
      by (auto simp: downloadChunk_def s Let_def t'_def d_def n_def split: option.splits)
  qed (use assms in \<open>simp add: downloadChunk_def s\<close>)
qed

lemma file_cancel_safe [keeps]:
  assumes "ft_inv s" shows "safe s (snd (file_cancel e tid s))"
proof -
  obtain m fs where s: "s = (m, fs)" by fastforce
  show ?thesis
  proof (cases "lookup m tid Either")
    case (Inr t)
    then have "transfer_ok fs tid t" using assms s by (auto dest: lookup_Inr intro: ft_inv_transfer)
    then have "safe s (drop_transfer tid m, fst (cleanup e t fs))"
      unfolding s using assms s by (intro safe_drop transfer_ok_cleanup) auto
    with Inr show ?thesis by (auto simp: file_cancel_def s split: prod.splits)
  qed (use assms in \<open>simp add: file_cancel_def s\<close>)
qed

text \<open>Safety through the branches of a handler.\<close>

lemma if_split_keeps: "safe s (snd x) \<Longrightarrow> safe s (snd y) \<Longrightarrow> safe s (snd (if c then x else y))"
  by simp

lemma option_case_keeps:
  "safe s (snd x) \<Longrightarrow> (\<And>r. safe s (snd (y r))) \<Longrightarrow> safe s (snd (case z of None \<Rightarrow> x | Some r \<Rightarrow> y r))"
  by (cases z) simp_all

lemma sum_case_keeps:
  "(\<And>a. safe s (snd (x a))) \<Longrightarrow> (\<And>b. safe s (snd (y b))) \<Longrightarrow>
     safe s (snd (case z of Inl a \<Rightarrow> x a | Inr b \<Rightarrow> y b))"
  by (cases z) simp_all

lemma dispatch_safe:
  "ft_inv s \<Longrightarrow> root (fst s) \<noteq> None \<Longrightarrow> safe s (snd (dispatch e dec r method raw d s))"
  unfolding dispatch_def case_prod_beta
  by (intro if_split_keeps sum_case_keeps option_case_keeps keeps) simp_all

lemma admit_safe [keeps]: "ft_inv s \<Longrightarrow> safe s (fst (admit e root_dir s))"
proof -
  assume inv: "ft_inv s"
  let ?s1 = "fst (expire e s)"
  have 1: "safe s ?s1" using inv by (rule keeps)
  then have "safe ?s1 (fst (reset e ?s1))" by (intro keeps safe_inv)
  with 1 have "safe s (fst (reset e ?s1))" by (rule safe_trans)
  with 1 show ?thesis by (simp add: admit_def Let_def case_prod_beta)
qed

lemma safe_opened: "safe s (m, fs) \<Longrightarrow> \<not> closed m \<Longrightarrow> safe s (m\<lparr>root := Some r\<rparr>, fs)"
  by (auto simp: safe_def ft_inv_def upload_inodes_def)

lemma admit_closed: "closed (fst (fst (admit e root_dir s))) = closed (fst s)"
  by (auto simp: admit_def expire_def reset_def split: prod.splits)

lemma Handle_safe [keeps]:
  assumes "ft_inv s" shows "safe s (snd (Handle e dec root_dir method raw d s))"
proof (cases "closed (fst s)")
  case False
  let ?s1 = "fst (admit e root_dir s)"
  have 1: "safe s ?s1" using assms by (rule keeps)
  have open1: "\<not> closed (fst ?s1)" using False by (simp add: admit_closed)
  let ?s2 = "\<lambda>r. ((fst ?s1)\<lparr>root := Some r\<rparr>, snd ?s1)"
  have 2: "safe s (?s2 r)" for r using 1 open1 by (intro safe_opened) auto
  have 3: "safe s (snd (dispatch e dec r method raw d (?s2 r)))" for r
    using safe_trans[OF 2 dispatch_safe] safe_inv[OF 2] by simp
  show ?thesis
    unfolding Handle_def Let_def case_prod_beta if_not_P[OF False]
    by (intro if_split_keeps option_case_keeps) (use 1 2 3 in simp_all)
qed (use assms in \<open>simp add: Handle_def\<close>)

end
