(* ===== verification/FileTransfer_Flow.thy ===== *)
theory FileTransfer_Flow
  imports FileTransfer_Props
begin

text \<open>
  Whole sessions of the file-transfer manager: any run of requests, sweeps, resets and closes; an
  upload fed chunk by chunk and committed; a download fetched to its end.
\<close>

section \<open>Runs of a session\<close>

datatype ft_event =
    Request env decoder string string string bytes
  | DoReset env
  | DoClose env
  | DoSweep env

fun ft_step :: "ft_state \<Rightarrow> ft_event \<Rightarrow> ft_state" where
  "ft_step s (Request e dec root_dir method raw d) = snd (Handle e dec root_dir method raw d s)"
| "ft_step s (DoReset e) = fst (Reset e s)"
| "ft_step s (DoClose e) = fst (Close e s)"
| "ft_step s (DoSweep e) = fst (Sweep e s)"

lemma rootName_reset: "reset e (m\<lparr>rootName := x\<rparr>, fs) =
    (case reset e (m, fs) of ((m', fs'), err) \<Rightarrow> ((m'\<lparr>rootName := x\<rparr>, fs'), err))"
  by (auto simp: reset_def split: prod.splits)

lemma Reset_safe [keeps]: "ft_inv s \<Longrightarrow> safe s (fst (Reset e s))"
  using reset_safe[of s e] by (cases s) (auto simp: Reset_def rootName_reset split: prod.splits)

lemma closed_reset: "reset e (m\<lparr>closed := x\<rparr>, fs) =
    (case reset e (m, fs) of ((m', fs'), err) \<Rightarrow> ((m'\<lparr>closed := x\<rparr>, fs'), err))"
  by (auto simp: reset_def split: prod.splits)

lemma Close_safe [keeps]: "ft_inv s \<Longrightarrow> safe s (fst (Close e s))"
  using reset_safe[of s e]
  by (cases s) (auto simp: Close_def closed_reset safe_def ft_inv_def upload_inodes_def reset_def
      split: prod.splits)

lemma Sweep_safe [keeps]: "ft_inv s \<Longrightarrow> safe s (fst (Sweep e s))"
  unfolding Sweep_def by (rule expire_safe)

lemma ft_step_safe: "ft_inv s \<Longrightarrow> safe s (ft_step s ev)"
  by (cases ev) (simp_all add: keeps)

interpretation session: event_system ft_step ft_inv
  by unfold_locales (rule safe_inv[OF ft_step_safe])

lemma run_safe: "ft_inv s \<Longrightarrow> safe s (foldl ft_step s es)"
proof -
  assume inv: "ft_inv s"
  then have "ft_inv s \<and> safe s (foldl ft_step s es)"
    using session.run_rel[where R = "\<lambda>a b. ft_inv a \<longrightarrow> safe a b", OF inv, of es]
    by (auto intro: safe_trans safe_inv ft_step_safe)
  then show ?thesis ..
qed

lemma start_ft_inv: "ft_inv (New, fs)"
  by (simp add: ft_inv_def New_def)

text \<open>C3: Files are never overwritten, replaced or removed. Whatever requests a peer sends and
  however system calls fail, after any run of a session every name that is not a staging name
  still has the node it had, and every file except the session's own unfinished uploads has its
  old bytes and modification time.\<close>

theorem session_preserves_files:
  assumes "ft_inv s" "\<not> has_prefix name tempPrefix" "lookup_node (snd s) d name = Some n"
  shows "lookup_node (snd (foldl ft_step s es)) d name = Some n
    \<and> (case n of Reg i \<Rightarrow> i < fresh (snd s) \<and> i \<notin> upload_inodes (fst s) \<longrightarrow>
         inodes (snd (foldl ft_step s es)) i = inodes (snd s) i | _ \<Rightarrow> True)"
  using run_safe[OF assms(1), of es] assms(2,3)
  by (auto simp: safe_def keeps_files_def is_temp_def split: node.split)

definition one_file :: fsys where
  "one_file = \<lparr>roots = [(''/share'', 0)], dirs = (\<lambda>d. if d = 0 then [(''a.txt'', Reg 0)] else []),
     inodes = (\<lambda>i. \<lparr>content = [104, 105], mtime = 7\<rparr>), fresh = 1\<rparr>"

lemma session_preserves_files_witness:
  "\<forall>es. lookup_node (snd (foldl ft_step (New, one_file) es)) 0 ''a.txt'' = Some (Reg 0)
   \<and> inodes (snd (foldl ft_step (New, one_file) es)) 0 = \<lparr>content = [104, 105], mtime = 7\<rparr>"
  using session_preserves_files[OF start_ft_inv, of "''a.txt''" one_file 0 "Reg 0"]
  by (simp add: one_file_def lookup_node_def New_def upload_inodes_def tempPrefix_def has_prefix_def)

text \<open>A session is bounded. After any run from a new manager at most two transfers are open,
  their identifiers are distinct, and each has \<open>0 \<le> offset \<le> size \<le> 1 GiB\<close>.\<close>

theorem session_is_bounded:
  "case foldl ft_step (New, fs) es of (m, fs') \<Rightarrow>
     length (transfers m) \<le> 2 \<and> distinct (map fst (transfers m))
     \<and> list_all (\<lambda>(k, t). t_id t = k \<and> 0 \<le> t_offset t \<and> t_offset t \<le> t_size t \<and> t_size t \<le> 1073741824)
         (transfers m)"
proof -
  obtain m fs' where mf: "foldl ft_step (New, fs) es = (m, fs')" by fastforce
  have "ft_inv (m, fs')" using session.run_keeps[OF start_ft_inv, of fs es] mf by simp
  then show ?thesis
    by (auto simp: mf ft_inv_def transfer_ok_def list_all_iff maxTransfers_def MaxFileSize_def)
qed

section \<open>Publication\<close>

lemma public_not_temp: "publicName name \<Longrightarrow> \<not> is_temp name"
proof
  assume pub: "publicName name" and "is_temp name"
  then have "name = tempPrefix @ drop (length tempPrefix) name"
    by (metis append_take_drop_id has_prefix_def is_temp_def)
  moreover have "to_lower (tempPrefix @ rest) = tempPrefix @ to_lower rest" for rest
    by (subst to_lower_ascii_append) (simp_all add: tempPrefix_def lower_char_def)
  ultimately have "has_prefix (to_lower name) tempPrefix"
    by (metis append_eq_conv_conj has_prefix_def)
  with pub show False by (auto simp: publicName_def Let_def split: if_splits)
qed

lemma base_not_temp: "publicPath p False = Inr q \<Longrightarrow> \<not> is_temp (path_Base p)"
proof (rule public_not_temp)
  assume "publicPath p False = Inr q"
  moreover have "split_on (CHR ''/'') p \<noteq> []" by (cases p) (auto split: list.splits)
  ultimately show "publicName (path_Base p)"
    by (auto simp: publicPath_def path_Base_def split: if_splits)
qed

lemma uploadCommit_Inr:
  assumes "uploadCommit e tid digest (m, fs) = (Inr r, s')" "lookup m tid Upload = Inr t"
    and "t_file t = Some (t_inode t)" "t_parent t = Some d"
  shows "parseHash digest = Inr (sha256 e (content (inodes fs (t_inode t))))"
    "t_offset t = t_size t" "int (length (content (inodes fs (t_inode t)))) = t_size t"
    "lookup_node fs d (path_Base (t_path t)) = None"
    "s' = (drop_transfer tid m, fst (cleanup e t (add_entry d (path_Base (t_path t)) (Reg (t_inode t)) fs)))"
  using assms
  by (auto simp: uploadCommit_def Let_def case_prod_beta split: sum.splits if_splits)

lemma cleanup_inodes [simp]: "inodes (fst (cleanup e t fs)) = inodes fs"
  by (auto simp: cleanup_def Let_def split: option.splits)

lemma dropped_inode:
  assumes "ft_inv (m, fs)" "map_of (transfers m) tid = Some t" "is_upload t"
  shows "t_inode t \<notin> upload_inodes (drop_transfer tid m)"
proof
  assume "t_inode t \<in> upload_inodes (drop_transfer tid m)"
  then obtain k u where "(k, u) \<in> set (transfers m)" "k \<noteq> tid" "is_upload u" "t_inode u = t_inode t"
    by (auto simp: upload_inodes_def drop_transfer_def AList.delete_eq)
  with inodes_differ[OF assms(1) map_of_SomeD[OF assms(2)] assms(3)] show False by metis
qed

text \<open>A commit publishes exactly the verified bytes. When it answers with success, the
  destination did not exist before; it now names the staged file, whose whole content has the
  requested digest and the announced size; and the session has given the transfer up, so that by
  \<open>session_preserves_files\<close> no later request changes the published file.\<close>

theorem commit_publishes_verified_bytes:
  assumes "ft_inv (m, fs)" "uploadCommit e tid digest (m, fs) = (Inr r, (m', fs'))"
  shows "\<exists>t d. map_of (transfers m) tid = Some t \<and> t_parent t = Some d
    \<and> lookup_node fs d (path_Base (t_path t)) = None
    \<and> lookup_node fs' d (path_Base (t_path t)) = Some (Reg (t_inode t))
    \<and> hex_decode digest = Some (sha256 e (content (inodes fs' (t_inode t))))
    \<and> int (length (content (inodes fs' (t_inode t)))) = t_size t \<and> t_offset t = t_size t
    \<and> map_of (transfers m') tid = None \<and> t_inode t \<notin> upload_inodes m'"
proof (cases "lookup m tid Upload")
  case (Inr t)
  note t = lookup_Inr[OF Inr]
  then have up: "is_upload t" and ok: "transfer_ok fs tid t" using assms(1) by (auto intro: ft_inv_transfer)
  then obtain d where d: "t_parent t = Some d" and handle: "t_file t = Some (t_inode t)"
    by (auto simp: transfer_ok_def)
  note out = uploadCommit_Inr[OF assms(2) Inr handle d]
  let ?b = "path_Base (t_path t)" and ?fs1 = "add_entry d (path_Base (t_path t)) (Reg (t_inode t)) fs"
  have "\<not> is_temp ?b" using ok up base_not_temp[of "t_path t"] by (simp add: transfer_ok_def)
  moreover have "keeps_files {} ?fs1 fs'" using out(5) transfer_ok_cleanup[OF ok] by simp
  moreover have "lookup_node ?fs1 d ?b = Some (Reg (t_inode t))" using out(4) by simp
  ultimately have linked: "lookup_node fs' d ?b = Some (Reg (t_inode t))" by (auto simp: keeps_files_def)
  have "inodes fs' = inodes fs" "m' = drop_transfer tid m" using out(5) by auto
  then show ?thesis
    using t d out linked dropped_inode[OF assms(1) _ up]
    by (auto simp: parseHash_def drop_transfer_def delete_conv' split: if_splits option.splits)
next
  case (Inl err)
  with assms(2) show ?thesis by (simp add: uploadCommit_def)
qed

text \<open>A small session for the witnesses: one upload of three bytes, staged and complete.\<close>

definition pad_hash :: "bytes \<Rightarrow> bytes" where
  "pad_hash b = replicate 32 (of_nat (length b))"

definition quiet :: env where
  "quiet = \<lparr>now = 1, fails = (\<lambda>_. False), short = 0, rand_id = (\<lambda>i. replicate (Suc i) CHR ''r''),
     rand_suffix = (\<lambda>i. replicate (Suc i) CHR ''x''), sha256 = pad_hash\<rparr>"

definition staged :: transfer where
  "staged = \<lparr>t_id = ''u'', t_path = ''b.txt'', t_size = 3, t_offset = 3, t_lastUsed = 0, t_file = Some 1,
     t_inode = 1, t_mtime = 0, t_digest = [], t_parent = Some 0, t_temp = tempPrefix @ ''x''\<rparr>"

definition staged_session :: ft_state where
  "staged_session = (\<lparr>rootName = ''/share'', root = Some 0, transfers = [(''u'', staged)], closed = False\<rparr>,
     \<lparr>roots = [(''/share'', 0)],
      dirs = (\<lambda>d. if d = 0 then [(''a.txt'', Reg 0), (tempPrefix @ ''x'', Reg 1)] else []),
      inodes = (\<lambda>i. \<lparr>content = [1, 2, 3], mtime = 7\<rparr>), fresh = 2\<rparr>)"

lemma staged_inv: "ft_inv staged_session"
proof -
  have "publicPath ''b.txt'' False = Inr ''b.txt''" by code_simp
  then show ?thesis
    by (auto simp: ft_inv_def staged_session_def staged_def transfer_ok_def is_upload_def maxTransfers_def
        MaxFileSize_def is_temp_def has_prefix_def inj_on_def)
qed

lemma parseHash_encode: "length b = 32 \<Longrightarrow> parseHash (hex_encode b) = Inr b"
  by (simp add: parseHash_def hex_round_trip)

lemma staged_commit:
  "uploadCommit quiet ''u'' (hex_encode (pad_hash [1, 2, 3])) staged_session =
     (Inr ([], M_commit ''u'' ''b.txt'' 3 (pad_hash [1, 2, 3]) False),
      drop_transfer ''u'' (fst staged_session),
      del_entry 0 (tempPrefix @ ''x'') (add_entry 0 ''b.txt'' (Reg 1) (snd staged_session)))"
proof -
  have "parseHash (hex_encode (pad_hash [1, 2, 3])) = Inr (pad_hash [1, 2, 3])"
    by (simp add: parseHash_encode pad_hash_def)
  then show ?thesis
    by (simp add: uploadCommit_def staged_session_def staged_def quiet_def lookup_def Let_def cleanup_def
        tempPrefix_def path_Base_def lookup_node_def add_entry_def)
qed

lemma commit_publishes_verified_bytes_witness:
  "\<exists>t d. map_of (transfers (fst staged_session)) ''u'' = Some t \<and> t_parent t = Some d
    \<and> lookup_node (del_entry 0 (tempPrefix @ ''x'') (add_entry 0 ''b.txt'' (Reg 1) (snd staged_session))) d
         (path_Base (t_path t)) = Some (Reg (t_inode t))"
proof -
  have "ft_inv (fst staged_session, snd staged_session)" using staged_inv by simp
  moreover have "uploadCommit quiet ''u'' (hex_encode (pad_hash [1, 2, 3])) (fst staged_session, snd staged_session) =
     (Inr ([], M_commit ''u'' ''b.txt'' 3 (pad_hash [1, 2, 3]) False), drop_transfer ''u'' (fst staged_session),
      del_entry 0 (tempPrefix @ ''x'') (add_entry 0 ''b.txt'' (Reg 1) (snd staged_session)))"
    using staged_commit by simp
  ultimately show ?thesis using commit_publishes_verified_bytes by blast
qed

section \<open>Upload, then download\<close>

text \<open>A peer that uploads a file chunk by chunk, each with its digest, and one that fetches a
  download until it is told the end. They stop at the first error.\<close>

fun upload_all :: "env \<Rightarrow> string \<Rightarrow> int \<Rightarrow> bytes list \<Rightarrow> ft_state \<Rightarrow> ft_state option" where
  "upload_all e tid off [] s = Some s"
| "upload_all e tid off (c # cs) s =
     (case uploadChunk e tid (Some off) (hex_encode (sha256 e c)) c s of
        (Inr (_, M_chunk _ off'), s') \<Rightarrow> upload_all e tid off' cs s'
      | _ \<Rightarrow> None)"

fun download_all :: "nat \<Rightarrow> env \<Rightarrow> string \<Rightarrow> int \<Rightarrow> ft_state \<Rightarrow> (bytes \<times> bytes option) option" where
  "download_all 0 e tid off s = None"
| "download_all (Suc fuel) e tid off s =
     (case downloadChunk e tid (Some off) s of
        (Inr (d, M_download _ _ off' _ _ eof whole), s') \<Rightarrow>
          if eof then Some (d, whole)
          else (case download_all fuel e tid off' s' of
                  None \<Rightarrow> None | Some (ds, w) \<Rightarrow> Some (d @ ds, w))
      | _ \<Rightarrow> None)"

definition upload_at :: "ft_state \<Rightarrow> string \<Rightarrow> transfer \<Rightarrow> bytes \<Rightarrow> bool" where
  "upload_at s tid t done_bytes \<longleftrightarrow>
     ft_inv s \<and> map_of (transfers (fst s)) tid = Some t \<and> is_upload t
     \<and> t_offset t = int (length done_bytes) \<and> content (inodes (snd s) (t_inode t)) = done_bytes"

text \<open>Only the transfer \<open>tid\<close> and the bytes of files differ.\<close>

definition same_session :: "string \<Rightarrow> ft_state \<Rightarrow> ft_state \<Rightarrow> bool" where
  "same_session tid s s' \<longleftrightarrow> dirs (snd s') = dirs (snd s)
     \<and> AList.delete tid (transfers (fst s')) = AList.delete tid (transfers (fst s))
     \<and> root (fst s') = root (fst s)"

lemma upload_chunk_ok:
  assumes at: "upload_at s tid t b" and "\<forall>c. \<not> fails e c" "\<And>x. length (sha256 e x) = 32"
    and "c \<noteq> []" "int (length c) \<le> t_size t - t_offset t"
  shows "\<exists>s'. uploadChunk e tid (Some (t_offset t)) (hex_encode (sha256 e c)) c s =
      (Inr ([], M_chunk tid (t_offset t + int (length c))), s')
    \<and> upload_at s' tid (t\<lparr>t_offset := t_offset t + int (length c), t_lastUsed := now e\<rparr>) (b @ c)
    \<and> same_session tid s s'"
proof -
  obtain m fs where s: "s = (m, fs)" by fastforce
  have t: "map_of (transfers m) tid = Some t" "is_upload t" "t_offset t = int (length b)"
    "content (inodes fs (t_inode t)) = b" "ft_inv s"
    using at by (auto simp: upload_at_def s)
  have handle: "t_file t = Some (t_inode t)"
    using ft_inv_transfer[of m fs tid t] t s by (simp add: transfer_ok_def)
  have found: "lookup m tid Upload = Inr t" using t by (auto simp: lookup_def is_upload_def)
  have "write_at (nat (t_offset t)) c b = b @ c" by (simp add: write_at_def t(3))
  then have eq: "uploadChunk e tid (Some (t_offset t)) (hex_encode (sha256 e c)) c s =
      (Inr ([], M_chunk tid (t_offset t + int (length c))),
       put_transfer tid (t\<lparr>t_offset := t_offset t + int (length c), t_lastUsed := now e\<rparr>) m,
       set_content (t_inode t) (b @ c) (now e) fs)"
    using assms t found handle by (simp add: uploadChunk_def s checkOffset_def parseHash_encode Let_def)
  moreover have "ft_inv (snd (uploadChunk e tid (Some (t_offset t)) (hex_encode (sha256 e c)) c s))"
    using t(5) by (intro safe_inv[OF uploadChunk_safe])
  ultimately show ?thesis
    using t by (auto simp: upload_at_def put_transfers AList.update_conv' is_upload_def same_session_def s
        set_content_def AList.delete_update_same)
qed

lemma upload_all_ok:
  assumes "upload_at s tid t b" "\<forall>c. \<not> fails e c" "\<And>x. length (sha256 e x) = 32"
    and "\<forall>c \<in> set cs. c \<noteq> []" "int (length (concat cs)) \<le> t_size t - t_offset t"
  shows "\<exists>s' t'. upload_all e tid (t_offset t) cs s = Some s' \<and> upload_at s' tid t' (b @ concat cs)
    \<and> t_size t' = t_size t \<and> t_path t' = t_path t \<and> t_parent t' = t_parent t \<and> t_inode t' = t_inode t
    \<and> t_temp t' = t_temp t \<and> t_file t' = t_file t \<and> same_session tid s s'"
  using assms
proof (induction cs arbitrary: s t b)
  case Nil
  then show ?case by (auto simp: same_session_def)
next
  case (Cons c cs)
  obtain s' where s': "uploadChunk e tid (Some (t_offset t)) (hex_encode (sha256 e c)) c s =
      (Inr ([], M_chunk tid (t_offset t + int (length c))), s')"
    "upload_at s' tid (t\<lparr>t_offset := t_offset t + int (length c), t_lastUsed := now e\<rparr>) (b @ c)"
    "same_session tid s s'"
    using upload_chunk_ok[OF Cons.prems(1-3), of c] Cons.prems(4,5) by auto
  obtain s'' t' where "upload_all e tid (t_offset t + int (length c)) cs s' = Some s''"
    "upload_at s'' tid t' ((b @ c) @ concat cs)" "t_size t' = t_size t" "t_path t' = t_path t"
    "t_parent t' = t_parent t" "t_inode t' = t_inode t" "t_temp t' = t_temp t" "t_file t' = t_file t" "same_session tid s' s''"
    using Cons.IH[OF s'(2) Cons.prems(2,3)] Cons.prems(4,5) by auto
  note up = this
  have "same_session tid s s''" using s'(3) up(9) by (simp add: same_session_def)
  with s'(1) up show ?case by (intro exI[of _ s''] exI[of _ t']) simp
qed

definition download_at :: "ft_state \<Rightarrow> string \<Rightarrow> transfer \<Rightarrow> bytes \<Rightarrow> bool" where
  "download_at s tid t whole \<longleftrightarrow>
     ft_inv s \<and> map_of (transfers (fst s)) tid = Some t \<and> \<not> is_upload t
     \<and> t_size t = int (length whole) \<and> t_digest t = take (nat (t_offset t)) whole
     \<and> content (inodes (snd s) (t_inode t)) = whole \<and> mtime (inodes (snd s) (t_inode t)) = t_mtime t"

lemma download_chunk_ok:
  assumes at: "download_at s tid t whole" and "\<forall>c. \<not> fails e c"
    and n: "n = min ChunkSize (t_size t - t_offset t)"
    and d: "d = take (nat n) (drop (nat (t_offset t)) whole)"
    and eof: "eof = (t_offset t + n = t_size t)"
  shows "\<exists>s'. downloadChunk e tid (Some (t_offset t)) s =
      (Inr (d, M_download tid (t_offset t) (t_offset t + n) n (sha256 e d) eof
         (if eof then Some (sha256 e whole) else None)), s')
    \<and> (\<not> eof \<longrightarrow> download_at s' tid
        (t\<lparr>t_offset := t_offset t + n, t_lastUsed := now e, t_digest := t_digest t @ d\<rparr>) whole)"
proof -
  obtain m fs where s: "s = (m, fs)" by fastforce
  have t: "map_of (transfers m) tid = Some t" "\<not> is_upload t" "t_size t = int (length whole)"
    "t_digest t = take (nat (t_offset t)) whole" "content (inodes fs (t_inode t)) = whole"
    "mtime (inodes fs (t_inode t)) = t_mtime t" "ft_inv s"
    using at by (auto simp: download_at_def s)
  have ok: "t_file t = Some (t_inode t)" "0 \<le> t_offset t" "t_offset t \<le> t_size t"
    using ft_inv_transfer[of m fs tid t] t s by (simp_all add: transfer_ok_def)
  have found: "lookup m tid Download = Inr t" using t by (auto simp: lookup_def is_upload_def)
  have pos: "0 \<le> n" "n \<le> t_size t - t_offset t" using ok by (auto simp: n ChunkSize_def)
  have len: "int (length d) = n" using pos ok t(3) by (auto simp: d)
  have digest: "t_digest t @ d = take (nat (t_offset t + n)) whole"
    using ok pos by (simp add: t(4) d take_add nat_add_distrib)
  have whole: "t_digest t @ d = whole" if eof using that ok pos t(3) digest eof by simp
  have same: "unchanged e fs t" using assms(2) ok t by (simp add: unchanged_def)
  have eq: "downloadChunk e tid (Some (t_offset t)) s =
      (Inr (d, M_download tid (t_offset t) (t_offset t + n) n (sha256 e d) eof
         (if eof then Some (sha256 e whole) else None)),
       if eof then (drop_transfer tid m, fst (cleanup e
           (t\<lparr>t_offset := t_offset t + n, t_lastUsed := now e, t_digest := t_digest t @ d\<rparr>) fs))
       else (put_transfer tid
           (t\<lparr>t_offset := t_offset t + n, t_lastUsed := now e, t_digest := t_digest t @ d\<rparr>) m, fs))"
    using found assms(2) same len[unfolded d length_take length_drop] whole
    by (simp add: downloadChunk_def s checkOffset_def Let_def n[symmetric] d[symmetric] eof[symmetric]
        handle_content_def ok(1) t(5))
  moreover have "ft_inv (snd (downloadChunk e tid (Some (t_offset t)) s))"
    using t(7) by (intro safe_inv[OF downloadChunk_safe])
  ultimately show ?thesis
    using t digest by (auto simp: download_at_def put_transfers AList.update_conv' is_upload_def)
qed

lemma download_all_ok:
  assumes "download_at s tid t whole" "\<forall>c. \<not> fails e c"
    and "nat (t_size t - t_offset t) div 32768 < fuel"
  shows "download_all fuel e tid (t_offset t) s = Some (drop (nat (t_offset t)) whole, Some (sha256 e whole))"
  using assms
proof (induction fuel arbitrary: s t)
  case (Suc fuel)
  let ?n = "min ChunkSize (t_size t - t_offset t)"
  let ?d = "take (nat ?n) (drop (nat (t_offset t)) whole)"
  have bound: "0 \<le> t_offset t" "t_offset t \<le> t_size t" "t_size t = int (length whole)"
    using Suc.prems(1) ft_inv_transfer[of "fst s" "snd s" tid t] by (auto simp: download_at_def transfer_ok_def)
  show ?case
  proof (cases "t_offset t + ?n = t_size t")
    case True
    then have "?d = drop (nat (t_offset t)) whole" using bound by simp
    then show ?thesis
      using download_chunk_ok[OF Suc.prems(1,2) refl refl refl] True by auto
  next
    case False
    then have n: "?n = 32768" "32768 < t_size t - t_offset t" by (auto simp: ChunkSize_def min_def split: if_splits)
    obtain s' where s': "downloadChunk e tid (Some (t_offset t)) s =
        (Inr (?d, M_download tid (t_offset t) (t_offset t + ?n) ?n (sha256 e ?d) False None), s')"
      "download_at s' tid (t\<lparr>t_offset := t_offset t + ?n, t_lastUsed := now e, t_digest := t_digest t @ ?d\<rparr>) whole"
      using download_chunk_ok[OF Suc.prems(1,2) refl refl refl] False by auto
    have "nat (t_size t - (t_offset t + 32768)) div 32768 < fuel"
    proof -
      have "nat (t_size t - t_offset t) = nat (t_size t - (t_offset t + 32768)) + 32768" using n(2) by simp
      then show ?thesis using Suc.prems(3) by simp
    qed
    then have "download_all fuel e tid (t_offset t + ?n) s' =
        Some (drop (nat (t_offset t + ?n)) whole, Some (sha256 e whole))"
      using Suc.IH[OF s'(2) Suc.prems(2)] n(1) by simp
    moreover have "?d @ drop (nat (t_offset t + ?n)) whole = drop (nat (t_offset t)) whole"
    proof -
      have "nat (t_offset t + ?n) = 32768 + nat (t_offset t)" using n(1) bound(1) by simp
      then have rest: "drop (nat (t_offset t + ?n)) whole = drop 32768 (drop (nat (t_offset t)) whole)"
        by (simp add: drop_drop)
      show ?thesis unfolding rest unfolding n(1) by (simp only: nat_numeral append_take_drop_id)
    qed
    ultimately show ?thesis using s'(1) by simp
  qed
qed simp

lemma path_Dir_parts:
  assumes "publicPath name False = Inr p"
  shows "path_Dir name = ''.'' \<or> list_all publicName (split_on (CHR ''/'') (path_Dir name))"
proof (cases "butlast (split_on (CHR ''/'') name)")
  case Nil
  then show ?thesis by (simp add: path_Dir_def)
next
  case (Cons q qs)
  have "\<forall>c \<in> set (butlast (split_on (CHR ''/'') name)). publicName c \<and> CHR ''/'' \<notin> set c"
    using assms by (auto simp: publicPath_def dest: in_set_butlastD split_on_free split: if_splits)
  with Cons show ?thesis by (auto simp: path_Dir_def split_join list_all_iff)
qed

definition keeps_names :: "fsys \<Rightarrow> fsys \<Rightarrow> bool" where
  "keeps_names fs fs' \<longleftrightarrow>
     (\<forall>d name n. lookup_node fs d name = Some n \<and> \<not> is_temp name \<longrightarrow> lookup_node fs' d name = Some n)"

lemma open_parts_mono:
  "open_parts e fs d parts = Inr x \<Longrightarrow> list_all publicName parts \<Longrightarrow> keeps_names fs fs' \<Longrightarrow>
     open_parts e fs' d parts = Inr x"
proof (induction parts arbitrary: d)
  case (Cons part parts)
  then obtain d' where "lookup_node fs d part = Some (Dir d')"
    by (auto split: if_splits option.splits node.splits)
  moreover from this have "lookup_node fs' d part = Some (Dir d')"
    using Cons.prems public_not_temp by (auto simp: keeps_names_def)
  ultimately show ?case using Cons by (auto split: if_splits)
qed simp

lemma openDir_mono:
  "openDir e fs r (path_Dir name) = Inr d \<Longrightarrow> publicPath name False = Inr p \<Longrightarrow> keeps_names fs fs' \<Longrightarrow>
     openDir e fs' r (path_Dir name) = Inr d"
  using path_Dir_parts[of name p] by (auto simp: openDir_def intro: open_parts_mono split: if_splits)

lemma uploadBegin_Inr:
  assumes "uploadBegin e r name fsize (m, fs) = (Inr (x, M_begin b), s1)"
  shows "\<exists>d y t. publicPath name False = Inr name \<and> 0 \<le> fsize \<and> fsize \<le> MaxFileSize
    \<and> newID e m = Inr (b_id b) \<and> openDir e fs r (path_Dir name) = Inr d
    \<and> lookup_node fs d (path_Base name) = None \<and> lookup_node fs d y = None \<and> is_temp y \<and> y \<noteq> []
    \<and> s1 = (m\<lparr>transfers := (b_id b, t) # transfers m\<rparr>, create_file d y (now e) fs)
    \<and> t_path t = name \<and> t_size t = fsize \<and> t_offset t = 0 \<and> t_temp t = y \<and> t_parent t = Some d
    \<and> t_inode t = fresh fs \<and> t_file t = Some (fresh fs)"
proof -
  from assms obtain d where b: "publicPath name False = Inr name" "0 \<le> fsize" "fsize \<le> MaxFileSize"
    "openDir e fs r (path_Dir name) = Inr d"
    "\<exists>tid. newID e m = Inr tid \<and> createStaging e d tid name fsize (m, fs) = (Inr (x, M_begin b), s1)"
    by (auto simp: uploadBegin_def not_less split: sum.splits if_splits dest: publicPath_Inr)
  then obtain tid where tid: "newID e m = Inr tid" "createStaging e d tid name fsize (m, fs) = (Inr (x, M_begin b), s1)"
    by auto
  from tid(2) obtain y ys where
    y: "filter (\<lambda>tmp. lookup_node fs d tmp = None) (map (\<lambda>i. tempPrefix @ rand_suffix e i) [0..<4]) = y # ys"
    unfolding createStaging_def prod.case by (auto split: list.splits if_splits)
  let ?t = "\<lparr>t_id = tid, t_path = name, t_size = fsize, t_offset = 0, t_lastUsed = now e,
    t_file = Some (fresh fs), t_inode = fresh fs, t_mtime = now e, t_digest = [], t_parent = Some d, t_temp = y\<rparr>"
  have "b_id b = tid" "lookup_node fs d (path_Base name) = None"
    "s1 = (m\<lparr>transfers := (tid, ?t) # transfers m\<rparr>, create_file d y (now e) fs)"
    using tid(2) unfolding createStaging_def prod.case y list.case
    by (auto simp: Let_def beginMetadata_def split: if_splits)
  with b tid(1) staging_name[OF y] show ?thesis
    by (intro exI[of _ d] exI[of _ y] exI[of _ ?t]) simp
qed

lemma newID_cong: "transfers m = transfers m' \<Longrightarrow> newID e m = newID e m'"
  by (simp add: newID_def)

text \<open>The file that a commit published can be downloaded.\<close>

lemma downloadBegin_ok:
  assumes "ft_inv (m, fs)" "root m \<noteq> None" "\<forall>c. \<not> fails e c" "publicPath name False = Inr name"
    "newID e m = Inr tid" "openDir e fs r (path_Dir name) = Inr d"
    "lookup_node fs d (path_Base name) = Some (Reg i)" "content (inodes fs i) = whole"
    "int (length whole) \<le> MaxFileSize"
  shows "\<exists>b s t. downloadBegin e r name (m, fs) = (Inr ([], M_begin b), s) \<and> b_id b = tid
    \<and> download_at s tid t whole \<and> t_offset t = 0 \<and> t_size t = int (length whole)"
proof -
  let ?t = "\<lparr>t_id = tid, t_path = name, t_size = int (length whole), t_offset = 0, t_lastUsed = now e,
    t_file = Some i, t_inode = i, t_mtime = mtime (inodes fs i), t_digest = [], t_parent = None, t_temp = []\<rparr>"
  have eq: "downloadBegin e r name (m, fs) = (Inr ([], beginMetadata ?t), m\<lparr>transfers := (tid, ?t) # transfers m\<rparr>, fs)"
    using assms by (simp add: downloadBegin_def Let_def)
  moreover have "ft_inv (m\<lparr>transfers := (tid, ?t) # transfers m\<rparr>, fs)"
    using safe_inv[OF downloadBegin_safe[OF assms(1), of e r name]] assms(2) eq by simp
  ultimately show ?thesis
    using assms by (intro exI[of _ "\<lparr>b_id = tid, b_path = name, b_size = int (length whole)\<rparr>"])
      (auto simp: download_at_def is_upload_def beginMetadata_def intro!: exI[of _ ?t])
qed


text \<open>The whole exchange: begin, feed, commit, begin the download, fetch.\<close>

definition transfer_back :: "env \<Rightarrow> nat \<Rightarrow> string \<Rightarrow> bytes list \<Rightarrow> ft_state \<Rightarrow> (bytes \<times> bytes option) option" where
  "transfer_back e r name cs s =
     (let whole = concat cs in
      case uploadBegin e r name (int (length whole)) s of
        (Inr (_, M_begin b), s1) \<Rightarrow>
          (case upload_all e (b_id b) 0 cs s1 of
             Some s2 \<Rightarrow>
               (case uploadCommit e (b_id b) (hex_encode (sha256 e whole)) s2 of
                  (Inr _, s3) \<Rightarrow>
                    (case downloadBegin e r name s3 of
                       (Inr (_, M_begin b'), s4) \<Rightarrow>
                         download_all (Suc (length whole div 32768)) e (b_id b') 0 s4
                     | _ \<Rightarrow> None)
                | _ \<Rightarrow> None)
           | None \<Rightarrow> None)
      | _ \<Rightarrow> None)"

lemma transfer_back_ok:
  assumes "ft_inv (m, fs)" "root m \<noteq> None" "\<forall>c. \<not> fails e c" "\<And>x. length (sha256 e x) = 32"
    and "\<forall>c \<in> set cs. c \<noteq> []"
    and begun: "uploadBegin e r name (int (length (concat cs))) (m, fs) = (Inr (x, M_begin b), s1)"
  shows "transfer_back e r name cs (m, fs) = Some (concat cs, Some (sha256 e (concat cs)))"
proof -
  let ?whole = "concat cs" and ?id = "b_id b" and ?base = "path_Base name"
  obtain d y t where u: "publicPath name False = Inr name" "int (length ?whole) \<le> MaxFileSize"
    "newID e m = Inr ?id" "openDir e fs r (path_Dir name) = Inr d" "lookup_node fs d ?base = None"
    "lookup_node fs d y = None" "is_temp y" "y \<noteq> []"
    "s1 = (m\<lparr>transfers := (?id, t) # transfers m\<rparr>, create_file d y (now e) fs)"
    "t_path t = name" "t_size t = int (length ?whole)" "t_offset t = 0" "t_temp t = y" "t_parent t = Some d"
    "t_inode t = fresh fs" "t_file t = Some (fresh fs)"
    using uploadBegin_Inr[OF begun] by auto
  have free: "map_of (transfers m) ?id = None" using newID_fresh[OF u(3)] by simp
  have "ft_inv s1" using safe_inv[OF uploadBegin_safe[OF assms(1)], of e r name "int (length ?whole)"] assms(2) begun by simp
  then have at1: "upload_at s1 ?id t []" using u by (simp add: upload_at_def is_upload_def)
  obtain s2 t2 where s2: "upload_all e ?id (t_offset t) cs s1 = Some s2" "upload_at s2 ?id t2 ([] @ ?whole)"
    "t_size t2 = t_size t" "t_path t2 = t_path t" "t_parent t2 = t_parent t" "t_inode t2 = t_inode t"
    "t_temp t2 = t_temp t" "t_file t2 = t_file t" "same_session ?id s1 s2"
    using upload_all_ok[OF at1 assms(3,4,5)] u by auto
  obtain m2 fs2 where m2: "s2 = (m2, fs2)" by fastforce
  have look2: "lookup_node fs2 a c = lookup_node (create_file d y (now e) fs) a c" for a c
    using s2(9) by (simp add: same_session_def lookup_node_def m2 u(9))
  have base: "\<not> is_temp ?base" using u(1) by (rule base_not_temp)
  have found: "lookup m2 ?id Upload = Inr t2" "content (inodes fs2 (fresh fs)) = ?whole" "ft_inv (m2, fs2)"
    "t_offset t2 = int (length ?whole)"
    using s2 u by (auto simp: lookup_def upload_at_def is_upload_def m2)
  let ?fs1 = "add_entry d ?base (Reg (fresh fs)) fs2"
  have commit: "uploadCommit e ?id (hex_encode (sha256 e ?whole)) s2 =
      (Inr ([], M_commit ?id name (t_size t) (sha256 e ?whole) False),
       drop_transfer ?id m2, del_entry d y ?fs1)"
    using found s2 u assms(3,4) look2 base
    by (auto simp: uploadCommit_def m2 parseHash_encode Let_def cleanup_def)
  let ?m3 = "drop_transfer ?id m2" and ?fs3 = "del_entry d y ?fs1"
  have m3: "transfers ?m3 = transfers m" "root ?m3 = root m"
    using s2(9) free by (auto simp: same_session_def m2 u(9) drop_transfer_def map_of_eq_None_iff)
  have inv3: "ft_inv (?m3, ?fs3)"
    using safe_inv[OF uploadCommit_safe[of s2 e ?id "hex_encode (sha256 e ?whole)"]] found(3) commit by (simp add: m2)
  have kept: "keeps_names fs ?fs3" using look2 u(7) by (auto simp: keeps_names_def)
  have "?base \<noteq> y" using base u(7) by auto
  then have linked: "lookup_node ?fs3 d ?base = Some (Reg (fresh fs))" using look2 u(5) by simp
  have whole3: "content (inodes ?fs3 (fresh fs)) = ?whole" using found(2) by simp
  have root3: "root ?m3 \<noteq> None" "newID e ?m3 = Inr ?id"
    using m3 assms(2) u(3) newID_cong[OF m3(1), of e] by simp_all
  obtain b' s4 t4 where dl: "downloadBegin e r name (?m3, ?fs3) = (Inr ([], M_begin b'), s4)"
    "b_id b' = ?id" "download_at s4 ?id t4 ?whole" "t_offset t4 = 0" "t_size t4 = int (length ?whole)"
    using downloadBegin_ok[OF inv3 root3(1) assms(3) u(1) root3(2) openDir_mono[OF u(4,1) kept] linked whole3 u(2)]
    by blast
  have "download_all (Suc (length ?whole div 32768)) e ?id (t_offset t4) s4 =
      Some (drop (nat (t_offset t4)) ?whole, Some (sha256 e ?whole))"
    by (rule download_all_ok[OF dl(3) assms(3)]) (simp add: dl)
  then show ?thesis
    using begun s2(1) commit dl u(12) by (simp add: transfer_back_def Let_def del: download_all.simps)
qed


text \<open>C26: Upload and download are inverse. If a manager accepts the beginning of an upload, no
  system call fails and the hash has 32 bytes, then feeding any non-empty chunks with their
  digests, committing with the digest of the whole, and downloading the same path returns exactly
  the bytes sent and their digest.\<close>

theorem upload_download_roundtrip:
  assumes "ft_inv (m, fs)" "root m \<noteq> None" "\<forall>c. \<not> fails e c" "\<And>x. length (sha256 e x) = 32"
    and "\<forall>c \<in> set cs. c \<noteq> []"
    and "fst (uploadBegin e r name (int (length (concat cs))) (m, fs)) = Inr (x, M_begin b)"
  shows "transfer_back e r name cs (m, fs) = Some (concat cs, Some (sha256 e (concat cs)))"
  using transfer_back_ok[OF assms(1-5)] assms(6)
  by (cases "uploadBegin e r name (int (length (concat cs))) (m, fs)") simp

definition shared_session :: ft_state where
  "shared_session = (\<lparr>rootName = ''/share'', root = Some 0, transfers = [], closed = False\<rparr>, one_file)"

lemma shared_inv: "ft_inv shared_session"
  by (simp add: ft_inv_def shared_session_def)

lemma shared_begin: "fst (uploadBegin quiet 0 ''b.txt'' 5 shared_session) =
    Inr ([], M_begin \<lparr>b_id = ''r'', b_path = ''b.txt'', b_size = 5\<rparr>)"
proof -
  have "publicPath ''b.txt'' False = Inr ''b.txt''" by code_simp
  then show ?thesis
    by (simp add: uploadBegin_def shared_session_def newID_def quiet_def MaxFileSize_def maxTransfers_def
        path_Dir_def openDir_def createStaging_def one_file_def lookup_node_def path_Base_def tempPrefix_def
        Let_def beginMetadata_def upt_rec)
qed

lemma upload_download_roundtrip_witness:
  "transfer_back quiet 0 ''b.txt'' [[1, 2], [3, 4, 5]] shared_session =
     Some ([1, 2, 3, 4, 5], Some (pad_hash [1, 2, 3, 4, 5]))"
  using upload_download_roundtrip[of "fst shared_session" "snd shared_session" quiet "[[1, 2], [3, 4, 5]]" 0
      "''b.txt''" "[]"] shared_inv shared_begin
  by (simp add: shared_session_def quiet_def pad_hash_def)

section \<open>Refusals and revocation\<close>

text \<open>A refused request changes nothing it could not undo. A commit, a download or a chunk of
  a download that fails leaves session and files as they were, and a failing upload chunk leaves
  the session as it was, so its offset can be retried.\<close>

theorem refused_requests_keep_the_session:
  "(fst (uploadCommit e tid digest s) = Inl err \<longrightarrow> snd (uploadCommit e tid digest s) = s)
   \<and> (fst (downloadBegin e r name s) = Inl err \<longrightarrow> snd (downloadBegin e r name s) = s)
   \<and> (fst (downloadChunk e tid offset s) = Inl err \<longrightarrow> snd (downloadChunk e tid offset s) = s)
   \<and> (fst (uploadChunk e tid offset digest d s) = Inl err \<longrightarrow>
        fst (snd (uploadChunk e tid offset digest d s)) = fst s)"
  by (intro conjI impI; cases s; auto simp: uploadCommit_def downloadBegin_def downloadChunk_def uploadChunk_def
      Let_def case_prod_beta split: sum.splits option.splits node.splits if_splits)

lemma refused_requests_keep_the_session_witness:
  "\<forall>digest. snd (uploadCommit quiet ''v'' digest staged_session) = staged_session
   \<and> snd (downloadChunk quiet ''u'' (Some 0) staged_session) = staged_session
   \<and> fst (snd (uploadChunk quiet ''u'' (Some 1) digest [1] staged_session)) = fst staged_session"
  using refused_requests_keep_the_session[of quiet "''v''" _ staged_session unknown_transfer]
    refused_requests_keep_the_session[of quiet "''u''" _ staged_session wrong_transfer 0 "[]" "Some 0" _]
    refused_requests_keep_the_session[of quiet "''u''" _ staged_session "offset_mismatch 3" _ _ "Some 1" "[1]"]
  by (auto simp: uploadCommit_def downloadChunk_def uploadChunk_def staged_session_def staged_def lookup_def
      tempPrefix_def checkOffset_def)

text \<open>What a request leaves in a session that had no transfer.\<close>

definition only_new :: "env \<Rightarrow> string \<Rightarrow> ft_state \<Rightarrow> bool" where
  "only_new e method s \<longleftrightarrow> transfers (fst s) = []
     \<or> method \<in> {''file_upload_begin'', ''file_download_begin''}
       \<and> (\<exists>tid t. transfers (fst s) = [(tid, t)] \<and> t_lastUsed t = now e)"

lemma lookup_empty: "transfers m = [] \<Longrightarrow> lookup m tid dir = Inl unknown_transfer"
  by (simp add: lookup_def)

lemma begin_only_new:
  assumes "transfers (fst s) = []"
  shows "only_new e ''file_upload_begin'' (snd (uploadBegin e r name fsize s))"
    "only_new e ''file_download_begin'' (snd (downloadBegin e r name s))"
  using assms
  by (cases s; auto simp: uploadBegin_def downloadBegin_def createStaging_def only_new_def Let_def
      split: sum.splits option.splits node.splits list.splits)+

lemma only_new_if:
  "(c \<Longrightarrow> only_new e method (snd x)) \<Longrightarrow> (\<not> c \<Longrightarrow> only_new e method (snd y)) \<Longrightarrow>
     only_new e method (snd (if c then x else y))"
  by simp

lemma only_new_sum:
  "(\<And>a. only_new e method (snd (x a))) \<Longrightarrow> (\<And>b. only_new e method (snd (y b))) \<Longrightarrow>
     only_new e method (snd (case z of Inl a \<Rightarrow> x a | Inr b \<Rightarrow> y b))"
  by (cases z) simp_all

lemma only_new_option:
  "only_new e method (snd x) \<Longrightarrow> (\<And>b. only_new e method (snd (y b))) \<Longrightarrow>
     only_new e method (snd (case z of None \<Rightarrow> x | Some b \<Rightarrow> y b))"
  by (cases z) simp_all

lemma dispatch_only_new:
  assumes "transfers (fst s) = []"
  shows "only_new e method (snd (dispatch e dec r method raw d s))"
proof -
  have stay: "only_new e x s" for x using assms by (simp add: only_new_def)
  obtain m fs where s: "s = (m, fs)" by fastforce
  have looked: "snd (uploadChunk e tid offset digest d s) = s" "snd (uploadCommit e tid digest s) = s"
    "snd (downloadChunk e tid offset s) = s" "snd (file_cancel e tid s) = s" for tid offset digest
    using assms by (simp_all add: s uploadChunk_def uploadCommit_def downloadChunk_def file_cancel_def lookup_empty)
  show ?thesis
    unfolding dispatch_def case_prod_beta
    by (intro only_new_if only_new_sum only_new_option)
      (simp_all only: looked stay snd_conv begin_only_new[OF assms])
qed

text \<open>Revoking or changing the folder ends every transfer. A request under another folder than
  the session's finds none of the old transfers: any transfer open afterwards is the one this very
  request began. A closed session refuses everything.\<close>

theorem root_change_revokes:
  "if closed (fst s) then Handle e dec root_dir method raw d s = (Inl closed_err, s)
   else root_dir \<noteq> rootName (fst s) \<or> root_dir = [] \<longrightarrow>
     transfers (fst (snd (Handle e dec root_dir method raw d s))) = []
     \<or> method \<in> {''file_upload_begin'', ''file_download_begin''} \<and>
       (\<exists>tid t. transfers (fst (snd (Handle e dec root_dir method raw d s))) = [(tid, t)] \<and> t_lastUsed t = now e)"
proof (cases "closed (fst s)")
  case False
  show ?thesis unfolding if_not_P[OF False]
  proof
    assume changed: "root_dir \<noteq> rootName (fst s) \<or> root_dir = []"
    have "rootName (fst (fst (expire e s))) = rootName (fst s)" by (cases s) (simp add: expire_def case_prod_beta)
    then have empty: "transfers (fst (fst (admit e root_dir s))) = []"
      using changed by (simp add: admit_def case_prod_beta reset_def)
    then have "only_new e method (snd (dispatch e dec r method raw d
        ((fst (fst (admit e root_dir s)))\<lparr>root := Some r\<rparr>, snd (fst (admit e root_dir s)))))" for r
      by (intro dispatch_only_new) simp
    then have "only_new e method (snd (Handle e dec root_dir method raw d s))"
      using empty False unfolding Handle_def Let_def case_prod_beta
      by (auto simp: only_new_def split: option.splits)
    then show "transfers (fst (snd (Handle e dec root_dir method raw d s))) = []
      \<or> method \<in> {''file_upload_begin'', ''file_download_begin''} \<and>
        (\<exists>tid t. transfers (fst (snd (Handle e dec root_dir method raw d s))) = [(tid, t)] \<and> t_lastUsed t = now e)"
      by (simp add: only_new_def)
  qed
qed (simp add: Handle_def)

lemma root_change_revokes_witness:
  "\<forall>dec raw d. transfers (fst (snd (Handle quiet dec ''/other'' ''file_list'' raw d staged_session))) = []"
  using root_change_revokes[of staged_session quiet _ "''/other''" "''file_list''"]
  by (simp add: staged_session_def)

end
