(* ===== verification/SecureConn.thy ===== *)
theory SecureConn
  imports GoStrings
begin

text \<open>
  The end-to-end encrypted connection of \<open>internal/secureconn/secureconn.go\<close>: the handshake in
  which an agent proves its persistent identity to a viewer, and the record layer.

  The cryptographic primitives and the JSON codecs of the three handshake messages are library
  code: they are fields of \<open>primitives\<close> and \<open>codecs\<close>. Random draws are arguments (\<open>None\<close> is the
  failing random source). An incoming stream is the bytes that arrive before the caller's deadline.
\<close>

section \<open>Primitives and messages\<close>

record primitives =
  hash256 :: "bytes \<Rightarrow> bytes"
  hmac256 :: "bytes \<Rightarrow> bytes \<Rightarrow> bytes"
  x_public :: "bytes \<Rightarrow> bytes"
  x_valid :: "bytes \<Rightarrow> bool"
  x_shared :: "bytes \<Rightarrow> bytes \<Rightarrow> bytes option"
  ed_sign :: "bytes \<Rightarrow> bytes \<Rightarrow> bytes"
  ed_verify :: "bytes \<Rightarrow> bytes \<Rightarrow> bytes \<Rightarrow> bool"
  gcm_seal :: "bytes \<Rightarrow> bytes \<Rightarrow> bytes \<Rightarrow> bytes \<Rightarrow> bytes"
  gcm_open :: "bytes \<Rightarrow> bytes \<Rightarrow> bytes \<Rightarrow> bytes \<Rightarrow> bytes option"

definition protocolVersion :: int where
  "protocolVersion = 1"

definition maxHandshake :: nat where
  "maxHandshake = 16384"

definition maxRecord :: nat where
  "maxRecord = 65536"

text \<open>The tag length of AES-GCM (\<open>Overhead\<close>).\<close>

definition overhead :: nat where
  "overhead = 16"

record client_hello =
  ch_version :: int
  ch_ephemeral :: bytes
  ch_nonce :: bytes

record server_hello =
  sh_ephemeral :: bytes
  sh_nonce :: bytes
  sh_identity :: bytes
  sh_signature :: bytes
  sh_proof :: bytes

record client_finish =
  cf_proof :: bytes

record codecs =
  enc_ch :: "client_hello \<Rightarrow> bytes option"
  dec_ch :: "bytes \<Rightarrow> client_hello option"
  enc_sh :: "server_hello \<Rightarrow> bytes option"
  dec_sh :: "bytes \<Rightarrow> server_hello option"
  enc_cf :: "client_finish \<Rightarrow> bytes option"
  dec_cf :: "bytes \<Rightarrow> client_finish option"

datatype sc_error =
    Marshal_failed | Handshake_too_large | Short_stream | Bad_handshake_size | Bad_json
  | Bad_identity_key | Bad_hello | Bad_point | Random_failed | Wrong_device | Bad_signature
  | Authentication_failed | Bad_cipher_key | Bad_record_size | Record_forged | Sequence_exhausted
  | Transport_failed

section \<open>Keys\<close>

definition DeviceID :: "primitives \<Rightarrow> bytes \<Rightarrow> string" where
  "DeviceID P publicKey = to_upper (hex_encode (take 12 (hash256 P publicKey)))"

definition transcript_input :: "bytes list \<Rightarrow> bytes" where
  "transcript_input parts =
     str_bytes ''yudesk-e2e-v1'' @ concat (map (\<lambda>part. be32 (word_of_nat (length part)) @ part) parts)"

definition makeTranscript :: "primitives \<Rightarrow> bytes list \<Rightarrow> bytes" where
  "makeTranscript P parts = hash256 P (transcript_input parts)"

text \<open>\<open>hkdfExpand\<close>: every round appends one MAC. The fuel is the wanted length; it is enough for
  any MAC that is not empty.\<close>

fun hkdf_loop :: "primitives \<Rightarrow> bytes \<Rightarrow> bytes \<Rightarrow> nat \<Rightarrow> nat \<Rightarrow> byte \<Rightarrow> bytes \<Rightarrow> bytes \<Rightarrow> bytes" where
  "hkdf_loop P key info len 0 counter previous result = result"
| "hkdf_loop P key info len (Suc fuel) counter previous result =
     (if length result < len then
        let previous = hmac256 P key (previous @ info @ [counter])
        in hkdf_loop P key info len fuel (counter + 1) previous (result @ previous)
      else result)"

definition hkdfExpand :: "primitives \<Rightarrow> bytes \<Rightarrow> bytes \<Rightarrow> nat \<Rightarrow> bytes" where
  "hkdfExpand P key info len = take len (hkdf_loop P key info len len 1 [] [])"

definition deriveKeys :: "primitives \<Rightarrow> bytes \<Rightarrow> bytes \<Rightarrow> bytes" where
  "deriveKeys P shared transcript =
     (let salt = hash256 P (str_bytes ''yudesk-key-exchange-v1:'' @ transcript);
          prk = hmac256 P salt shared
      in hkdfExpand P prk (str_bytes ''yudesk-session-v1:'' @ transcript) 96)"

definition proof_of :: "primitives \<Rightarrow> bytes \<Rightarrow> bytes \<Rightarrow> string \<Rightarrow> bytes" where
  "proof_of P key transcript role = hmac256 P key (transcript @ str_bytes role)"

section \<open>Handshake messages\<close>

definition writeHandshake :: "bytes option \<Rightarrow> bool \<Rightarrow> sc_error + bytes" where
  "writeHandshake marshalled transport_ok =
     (case marshalled of None \<Rightarrow> Inl Marshal_failed
      | Some payload \<Rightarrow>
          if length payload > maxHandshake then Inl Handshake_too_large
          else if \<not> transport_ok then Inl Transport_failed
          else Inr (be32 (word_of_nat (length payload)) @ payload))"

definition readHandshake :: "(bytes \<Rightarrow> 'a option) \<Rightarrow> bytes \<Rightarrow> sc_error + ('a \<times> bytes)" where
  "readHandshake dec inp =
     (case read_full 4 inp of None \<Rightarrow> Inl Short_stream
      | Some (header, rest) \<Rightarrow>
          let sz = unat (de32 header) in
          if sz = 0 \<or> sz > maxHandshake then Inl Bad_handshake_size
          else (case read_full sz rest of None \<Rightarrow> Inl Short_stream
            | Some (payload, rest) \<Rightarrow>
                (case dec payload of None \<Rightarrow> Inl Bad_json | Some v \<Rightarrow> Inr (v, rest))))"

section \<open>The connection\<close>

text \<open>\<open>sealed\<close> and \<open>tx_bytes\<close> log what was sealed under which sequence number and what the
  transport accepted; the code does not read them.\<close>

record sconn =
  readKey :: bytes
  writeKey :: bytes
  readSeq :: "64 word"
  writeSeq :: "64 word"
  readBuf :: bytes
  readErr :: "sc_error option"
  writeErr :: "sc_error option"
  sealed :: "(64 word \<times> bytes) list"
  tx_bytes :: bytes

definition newConn :: "bytes \<Rightarrow> bytes \<Rightarrow> sc_error + sconn" where
  "newConn rkey wkey =
     (if length rkey \<notin> {16, 24, 32} \<or> length wkey \<notin> {16, 24, 32} then Inl Bad_cipher_key
      else Inr \<lparr>readKey = rkey, writeKey = wkey, readSeq = 0, writeSeq = 0, readBuf = [], readErr = None,
        writeErr = None, sealed = [], tx_bytes = []\<rparr>)"

text \<open>\<open>recordNonce\<close>: the 12-byte nonce ends with the sequence number, which is also the
  additional data.\<close>

definition recordNonce :: "64 word \<Rightarrow> bytes \<times> bytes" where
  "recordNonce sequence = (replicate 4 0 @ be64 sequence, be64 sequence)"

section \<open>Handshake\<close>

text \<open>\<open>Accept\<close> up to its reply: the bytes it sends, the key material and the transcript it keeps
  and the rest of the stream.\<close>

definition accept_hello ::
  "primitives \<Rightarrow> codecs \<Rightarrow> bytes \<Rightarrow> bytes option \<Rightarrow> bytes option \<Rightarrow> bool \<Rightarrow> bytes
     \<Rightarrow> sc_error + (bytes \<times> bytes \<times> bytes \<times> bytes)"
where
  "accept_hello P J identity eph nonce transport_ok inp =
     (if length identity \<noteq> 64 then Inl Bad_identity_key
      else case readHandshake (dec_ch J) inp of Inl e \<Rightarrow> Inl e
      | Inr (ch, rest) \<Rightarrow>
        if ch_version ch \<noteq> protocolVersion \<or> length (ch_ephemeral ch) \<noteq> 32 \<or> length (ch_nonce ch) \<noteq> 32
        then Inl Bad_hello
        else if \<not> x_valid P (ch_ephemeral ch) then Inl Bad_point
        else case eph of None \<Rightarrow> Inl Random_failed
        | Some ephemeral \<Rightarrow>
          (case x_shared P ephemeral (ch_ephemeral ch) of None \<Rightarrow> Inl Bad_point
           | Some shared \<Rightarrow>
             (case nonce of None \<Rightarrow> Inl Random_failed
              | Some nonce \<Rightarrow>
                let publicIdentity = drop 32 identity;
                    transcript = makeTranscript P
                      [ch_ephemeral ch, ch_nonce ch, x_public P ephemeral, nonce, publicIdentity];
                    keyMaterial = deriveKeys P shared transcript;
                    sh = \<lparr>sh_ephemeral = x_public P ephemeral, sh_nonce = nonce, sh_identity = publicIdentity,
                      sh_signature = ed_sign P identity transcript,
                      sh_proof = proof_of P (take 32 keyMaterial) transcript ''agent''\<rparr>
                in (case writeHandshake (enc_sh J sh) transport_ok of Inl e \<Rightarrow> Inl e
                    | Inr out \<Rightarrow> Inr (out, keyMaterial, transcript, rest)))))"

definition accept_finish ::
  "primitives \<Rightarrow> codecs \<Rightarrow> bytes \<Rightarrow> bytes \<Rightarrow> bytes \<Rightarrow> sc_error + (sconn \<times> bytes)"
where
  "accept_finish P J keyMaterial transcript inp =
     (case readHandshake (dec_cf J) inp of Inl e \<Rightarrow> Inl e
      | Inr (finish, rest) \<Rightarrow>
          if cf_proof finish \<noteq> proof_of P (take 32 keyMaterial) transcript ''viewer''
          then Inl Authentication_failed
          else (case newConn (take 32 (drop 64 keyMaterial)) (take 32 (drop 32 keyMaterial)) of
                  Inl e \<Rightarrow> Inl e | Inr c \<Rightarrow> Inr (c, rest)))"

text \<open>\<open>Connect\<close> up to its hello, and from the agent's reply on: the result and the bytes it sends.\<close>

definition connect_hello ::
  "primitives \<Rightarrow> codecs \<Rightarrow> bytes option \<Rightarrow> bytes option \<Rightarrow> bool \<Rightarrow> sc_error + (bytes \<times> client_hello)"
where
  "connect_hello P J eph nonce transport_ok =
     (case eph of None \<Rightarrow> Inl Random_failed
      | Some ephemeral \<Rightarrow>
        (case nonce of None \<Rightarrow> Inl Random_failed
         | Some nonce \<Rightarrow>
           let ch = \<lparr>ch_version = protocolVersion, ch_ephemeral = x_public P ephemeral, ch_nonce = nonce\<rparr>
           in (case writeHandshake (enc_ch J ch) transport_ok of Inl e \<Rightarrow> Inl e
               | Inr out \<Rightarrow> Inr (out, ch))))"

definition connect_reply ::
  "primitives \<Rightarrow> codecs \<Rightarrow> string \<Rightarrow> bytes \<Rightarrow> client_hello \<Rightarrow> bytes \<Rightarrow> bool \<Rightarrow> bytes
     \<Rightarrow> (sc_error + (sconn \<times> bytes)) \<times> bytes"
where
  "connect_reply P J expectedDeviceID ephemeral ch fakeProof transport_ok inp =
     (case readHandshake (dec_sh J) inp of Inl e \<Rightarrow> (Inl e, [])
      | Inr (sh, rest) \<Rightarrow>
        if length (sh_ephemeral sh) \<noteq> 32 \<or> length (sh_nonce sh) \<noteq> 32 \<or> length (sh_identity sh) \<noteq> 32
        then (Inl Bad_hello, [])
        else if \<not> equal_fold (DeviceID P (sh_identity sh)) expectedDeviceID then (Inl Wrong_device, [])
        else let transcript = makeTranscript P
               [ch_ephemeral ch, ch_nonce ch, sh_ephemeral sh, sh_nonce sh, sh_identity sh] in
        if \<not> ed_verify P (sh_identity sh) transcript (sh_signature sh) then (Inl Bad_signature, [])
        else if \<not> x_valid P (sh_ephemeral sh) then (Inl Bad_point, [])
        else (case x_shared P ephemeral (sh_ephemeral sh) of None \<Rightarrow> (Inl Bad_point, [])
          | Some shared \<Rightarrow>
            let keyMaterial = deriveKeys P shared transcript;
                finish = (\<lambda>p. writeHandshake (enc_cf J \<lparr>cf_proof = p\<rparr>) transport_ok)
            in if sh_proof sh \<noteq> proof_of P (take 32 keyMaterial) transcript ''agent''
               then (Inl Authentication_failed, case finish fakeProof of Inl _ \<Rightarrow> [] | Inr out \<Rightarrow> out)
               else (case finish (proof_of P (take 32 keyMaterial) transcript ''viewer'') of
                   Inl e \<Rightarrow> (Inl e, [])
                 | Inr out \<Rightarrow>
                   (case newConn (take 32 (drop 32 keyMaterial)) (take 32 (drop 64 keyMaterial)) of
                      Inl e \<Rightarrow> (Inl e, out) | Inr c \<Rightarrow> (Inr (c, rest), out)))))"

section \<open>Reading records\<close>

text \<open>The loop of \<open>Read\<close>: it returns when plaintext is buffered or an error stops it. A short
  header of no bytes is the one error that is not remembered.\<close>

function read_fill :: "primitives \<Rightarrow> sconn \<Rightarrow> bytes \<Rightarrow> sc_error option \<times> sconn \<times> bytes" where
  "read_fill P c inp =
     (if readBuf c \<noteq> [] then (None, c, inp)
      else case readErr c of Some e \<Rightarrow> (Some e, c, inp)
      | None \<Rightarrow>
        if length inp < 4
        then (Some Short_stream, if inp = [] then c else c\<lparr>readErr := Some Short_stream\<rparr>, [])
        else
          let sz = unat (de32 (take 4 inp)); rest = drop 4 inp in
          if sz < overhead \<or> sz > maxRecord + overhead
          then (Some Bad_record_size, c\<lparr>readErr := Some Bad_record_size\<rparr>, rest)
          else if length rest < sz
          then (Some Short_stream, c\<lparr>readErr := Some Short_stream\<rparr>, [])
          else case recordNonce (readSeq c) of (nonce, aad) \<Rightarrow>
            (case gcm_open P (readKey c) nonce aad (take sz rest) of
               None \<Rightarrow> (Some Record_forged, c\<lparr>readErr := Some Record_forged\<rparr>, drop sz rest)
             | Some plaintext \<Rightarrow>
                 read_fill P
                   (if readSeq c = - 1 then c\<lparr>readErr := Some Sequence_exhausted, readBuf := plaintext\<rparr>
                    else c\<lparr>readSeq := readSeq c + 1, readBuf := plaintext\<rparr>)
                   (drop sz rest)))"
  by pat_completeness auto
termination
  by (relation "measure (\<lambda>(P, c, inp). length inp)") auto

declare read_fill.simps [simp del]

definition Read :: "primitives \<Rightarrow> sconn \<Rightarrow> nat \<Rightarrow> bytes \<Rightarrow> (sc_error + bytes) \<times> sconn \<times> bytes" where
  "Read P c n inp =
     (if n = 0 then (Inr [], c, inp)
      else case read_fill P c inp of
        (Some e, c, inp) \<Rightarrow> (Inl e, c, inp)
      | (None, c, inp) \<Rightarrow> (Inr (take n (readBuf c)), c\<lparr>readBuf := drop n (readBuf c)\<rparr>, inp))"

section \<open>Writing records\<close>

text \<open>\<open>writeFull\<close> over the results \<open>f i\<close> of the transport's \<open>i\<close>-th call (bytes taken, error):
  how much of \<open>r\<close> bytes was written and whether an error ended it.\<close>

function sc_writeFull :: "(nat \<Rightarrow> int \<times> bool) \<Rightarrow> nat \<Rightarrow> nat \<Rightarrow> nat \<times> bool" where
  "sc_writeFull f i r =
     (if r = 0 then (0, False)
      else case f i of (n, err) \<Rightarrow>
        if n < 0 \<or> n > int r then (0, True)
        else if err then (nat n, True)
        else if n = 0 then (0, True)
        else case sc_writeFull f (Suc i) (r - nat n) of (w, e) \<Rightarrow> (nat n + w, e))"
  by pat_completeness auto
termination
  by (relation "measure (\<lambda>(f, i, r). r)") auto

declare sc_writeFull.simps [simp del]

definition seal_record :: "primitives \<Rightarrow> bytes \<Rightarrow> 64 word \<Rightarrow> bytes \<Rightarrow> bytes" where
  "seal_record P key sequence plain =
     (case recordNonce sequence of (nonce, aad) \<Rightarrow>
        be32 (word_of_nat (length plain + overhead)) @ gcm_seal P key nonce aad plain)"

text \<open>What the connection keeps after the transport took \<open>n\<close> bytes of a packet. \<open>Write\<close>: \<open>f k\<close> are the transport's results for the \<open>k\<close>-th record of this call.\<close>

definition sent_record :: "bytes \<Rightarrow> bytes \<Rightarrow> nat \<Rightarrow> sconn \<Rightarrow> sconn" where
  "sent_record plain packet n c =
     (let c = c\<lparr>sealed := sealed c @ [(writeSeq c, plain)], tx_bytes := tx_bytes c @ take n packet\<rparr>
      in if n \<noteq> length packet then c
         else if writeSeq c = - 1 then c\<lparr>writeErr := Some Sequence_exhausted\<rparr>
         else c\<lparr>writeSeq := writeSeq c + 1\<rparr>)"

function Write ::
  "primitives \<Rightarrow> (nat \<Rightarrow> nat \<Rightarrow> int \<times> bool) \<Rightarrow> nat \<Rightarrow> bytes \<Rightarrow> sconn \<Rightarrow> (nat \<times> sc_error option) \<times> sconn"
where
  "Write P f k p c =
     (if p = [] then ((0, None), c)
      else case writeErr c of Some e \<Rightarrow> ((0, Some e), c)
      | None \<Rightarrow>
        let sz = min (length p) maxRecord;
            packet = seal_record P (writeKey c) (writeSeq c) (take sz p)
        in case sc_writeFull (f k) 0 (length packet) of (n, err) \<Rightarrow>
          let written = (if n = length packet then sz else 0);
              c = sent_record (take sz p) packet n c
          in if err then ((written, Some Transport_failed), c\<lparr>writeErr := Some Transport_failed\<rparr>)
             else (case Write P f (Suc k) (drop sz p) c of ((w, e), c) \<Rightarrow> ((written + w, e), c)))"
  by pat_completeness auto
termination
  by (relation "measure (\<lambda>(P, f, k, p, c). length p)") (auto simp: maxRecord_def)

declare Write.simps [simp del]

end
