(* ===== verification/SecureConn_Props.thy ===== *)
theory SecureConn_Props
  imports SecureConn "HOL-Library.Sublist"
begin

text \<open>
  What the encrypted connection guarantees: transcripts are unambiguous, an honest handshake ends
  with mirrored keys and a dishonest one with an error, no sequence number is ever sealed twice,
  what is written is what is read, and under an unforgeable cipher a reader only ever sees a
  prefix of what the peer sealed.
\<close>

section \<open>Transcripts\<close>

lemma parts_inject:
  assumes "concat (map (\<lambda>part. be32 (word_of_nat (length part)) @ part) ps) =
      concat (map (\<lambda>part. be32 (word_of_nat (length part)) @ part) qs)"
    and "\<forall>p \<in> set ps. length p < 2 ^ 32" "\<forall>q \<in> set qs. length q < 2 ^ 32"
  shows "ps = qs"
  using assms
proof (induction ps arbitrary: qs)
  case Nil
  then show ?case by (cases qs) (simp_all add: be32_def)
next
  case (Cons p ps)
  then obtain q qs' where qs: "qs = q # qs'" by (cases qs) (auto simp: be32_def)
  have eq: "be32 (word_of_nat (length p)) @ (p @ concat (map (\<lambda>part. be32 (word_of_nat (length part)) @ part) ps)) =
      be32 (word_of_nat (length q)) @ (q @ concat (map (\<lambda>part. be32 (word_of_nat (length part)) @ part) qs'))"
    using Cons.prems(1) qs by simp
  then have "(word_of_nat (length p) :: 32 word) = word_of_nat (length q)"
    unfolding be32.enc_append_inject by simp
  then have "length p = length q"
    using Cons.prems(2,3) qs by (metis list.set_intros(1) unat_of_nat32)
  with eq have "p = q" "concat (map (\<lambda>part. be32 (word_of_nat (length part)) @ part) ps) =
      concat (map (\<lambda>part. be32 (word_of_nat (length part)) @ part) qs')"
    unfolding be32.enc_append_inject by auto
  with Cons qs show ?case by auto
qed

text \<open>Handshake transcripts are unambiguous. The bytes hashed for a transcript determine the
  list of its parts: no two different lists of ephemeral keys, nonces and identities are hashed
  from the same input.\<close>

theorem transcript_unambiguous:
  assumes "transcript_input ps = transcript_input qs"
    and "\<forall>p \<in> set ps. length p < 2 ^ 32" "\<forall>q \<in> set qs. length q < 2 ^ 32"
  shows "ps = qs"
  using assms by (intro parts_inject) (auto simp: transcript_input_def)

lemma transcript_unambiguous_witness: "[[1], [2, 3]] = ([[1], [2, 3]] :: bytes list)"
  using transcript_unambiguous[of "[[1], [2, 3]]" "[[1], [2, 3]]"] by simp

section \<open>Key expansion\<close>

lemma hkdf_loop_length:
  "(\<And>k m. length (hmac256 P k m) > 0) \<Longrightarrow> len \<le> length result + fuel \<Longrightarrow>
     len \<le> length (hkdf_loop P key info len fuel counter previous result)"
proof (induction fuel arbitrary: counter previous result)
  case (Suc fuel)
  have "len \<le> length result + length (hmac256 P key (previous @ info @ [counter])) + fuel"
    using Suc.prems(1)[of key "previous @ info @ [counter]"] Suc.prems(2) by linarith
  with Suc show ?case by (simp add: Let_def)
qed simp

lemma hkdfExpand_length:
  "(\<And>k m. length (hmac256 P k m) > 0) \<Longrightarrow> length (hkdfExpand P key info len) = len"
  using hkdf_loop_length[of P len "[]" len key info 1 "[]"] by (simp add: hkdfExpand_def)

lemma deriveKeys_length: "(\<And>k m. length (hmac256 P k m) > 0) \<Longrightarrow> length (deriveKeys P shared t) = 96"
  by (simp add: deriveKeys_def hkdfExpand_length)

section \<open>Handshake\<close>

definition carries :: "('a \<Rightarrow> bytes option) \<Rightarrow> (bytes \<Rightarrow> 'a option) \<Rightarrow> 'a \<Rightarrow> bool" where
  "carries enc dec v \<longleftrightarrow> (case enc v of None \<Rightarrow> False
     | Some p \<Rightarrow> p \<noteq> [] \<and> length p \<le> maxHandshake \<and> dec p = Some v)"

lemma handshake_message:
  assumes "carries enc dec v"
  shows "\<exists>out. writeHandshake (enc v) True = Inr out \<and> readHandshake dec out = Inr (v, [])"
proof -
  obtain p where p: "enc v = Some p" "p \<noteq> []" "length p \<le> 16384" "dec p = Some v"
    using assms by (auto simp: carries_def maxHandshake_def split: option.splits)
  have "unat (word_of_nat (length p) :: 32 word) = length p"
    using p(3) by (simp add: unsigned_of_nat take_bit_nat_eq_self)
  then show ?thesis
    using p by (simp add: writeHandshake_def readHandshake_def maxHandshake_def wire_simps Let_def read_full_def)
qed

text \<open>The two ends connected by an honest transport.\<close>

definition handshake ::
  "primitives \<Rightarrow> codecs \<Rightarrow> string \<Rightarrow> bytes \<Rightarrow> bytes \<Rightarrow> bytes \<Rightarrow> bytes \<Rightarrow> bytes \<Rightarrow> bytes \<Rightarrow> (sconn \<times> sconn) option"
where
  "handshake P J expected identity vkey vnonce akey anonce fake =
     (case connect_hello P J (Some vkey) (Some vnonce) True of
        Inr (out1, ch) \<Rightarrow>
          (case accept_hello P J identity (Some akey) (Some anonce) True out1 of
             Inr (out2, keyMaterial, transcript, _) \<Rightarrow>
               (case connect_reply P J expected vkey ch fake True out2 of
                  (Inr (viewer, _), out3) \<Rightarrow>
                    (case accept_finish P J keyMaterial transcript out3 of
                       Inr (agent, _) \<Rightarrow> Some (viewer, agent)
                     | Inl _ \<Rightarrow> None)
                | _ \<Rightarrow> None)
           | Inl _ \<Rightarrow> None)
      | Inl _ \<Rightarrow> None)"

text \<open>The documented behaviour of the primitives and codecs for one handshake.\<close>

definition honest_primitives :: "primitives \<Rightarrow> codecs \<Rightarrow> bytes \<Rightarrow> bytes \<Rightarrow> bytes \<Rightarrow> bool" where
  "honest_primitives P J identity vkey akey \<longleftrightarrow>
     (\<forall>k m. length (hmac256 P k m) = 32)
     \<and> (\<forall>k. length (x_public P k) = 32 \<and> x_valid P (x_public P k))
     \<and> x_shared P vkey (x_public P akey) = x_shared P akey (x_public P vkey)
     \<and> x_shared P vkey (x_public P akey) \<noteq> None
     \<and> (\<forall>t. ed_verify P (drop 32 identity) t (ed_sign P identity t))
     \<and> (\<forall>e n. length e = 32 \<and> length n = 32 \<longrightarrow>
          carries (enc_ch J) (dec_ch J) \<lparr>ch_version = 1, ch_ephemeral = e, ch_nonce = n\<rparr>)
     \<and> (\<forall>e n i t p. length e = 32 \<and> length n = 32 \<and> length i = 32 \<and> length p = 32 \<longrightarrow>
          carries (enc_sh J) (dec_sh J) \<lparr>sh_ephemeral = e, sh_nonce = n, sh_identity = i,
            sh_signature = ed_sign P identity t, sh_proof = p\<rparr>)
     \<and> (\<forall>p. length p = 32 \<longrightarrow> carries (enc_cf J) (dec_cf J) \<lparr>cf_proof = p\<rparr>)"

lemma mirrored_handshake:
  assumes hon: "honest_primitives P J identity vkey akey" and id64: "length identity = 64"
    and nonces: "length vnonce = 32" "length anonce = 32"
    and expected: "equal_fold (DeviceID P (drop 32 identity)) expected"
  shows "\<exists>viewer agent. handshake P J expected identity vkey vnonce akey anonce fake = Some (viewer, agent)
    \<and> readKey viewer = writeKey agent \<and> writeKey viewer = readKey agent \<and> length (readKey viewer) = 32
    \<and> length (writeKey viewer) = 32"
proof -
  have macs: "\<And>k m. length (hmac256 P k m) = 32" and points: "\<And>k. length (x_public P k) = 32"
    "\<And>k. x_valid P (x_public P k)" and signs: "\<And>t. ed_verify P (drop 32 identity) t (ed_sign P identity t)"
    using hon by (simp_all add: honest_primitives_def)
  have dh: "x_shared P vkey (x_public P akey) = x_shared P akey (x_public P vkey)"
    "x_shared P vkey (x_public P akey) \<noteq> None" using hon unfolding honest_primitives_def by blast+
  have msgs: "\<And>e n. length e = 32 \<Longrightarrow> length n = 32 \<Longrightarrow>
      carries (enc_ch J) (dec_ch J) \<lparr>ch_version = 1, ch_ephemeral = e, ch_nonce = n\<rparr>"
    "\<And>e n i t p. length e = 32 \<Longrightarrow> length n = 32 \<Longrightarrow> length i = 32 \<Longrightarrow> length p = 32 \<Longrightarrow>
      carries (enc_sh J) (dec_sh J) \<lparr>sh_ephemeral = e, sh_nonce = n, sh_identity = i,
        sh_signature = ed_sign P identity t, sh_proof = p\<rparr>"
    "\<And>p. length p = 32 \<Longrightarrow> carries (enc_cf J) (dec_cf J) \<lparr>cf_proof = p\<rparr>"
    using hon unfolding honest_primitives_def by blast+
  let ?ch = "\<lparr>ch_version = 1, ch_ephemeral = x_public P vkey, ch_nonce = vnonce\<rparr>"
  obtain out1 where out1: "writeHandshake (enc_ch J ?ch) True = Inr out1" "readHandshake (dec_ch J) out1 = Inr (?ch, [])"
    using handshake_message[OF msgs(1)[OF points(1) nonces(1)]] by blast
  obtain shared where shared: "x_shared P vkey (x_public P akey) = Some shared"
    "x_shared P akey (x_public P vkey) = Some shared" using dh by force
  define t where "t = makeTranscript P [x_public P vkey, vnonce, x_public P akey, anonce, drop 32 identity]"
  define km where "km = deriveKeys P shared t"
  have km: "length km = 96" unfolding km_def by (intro deriveKeys_length) (simp add: macs)
  have proofs: "length (proof_of P k t r) = 32" for k r by (simp add: proof_of_def macs)
  let ?sh = "\<lparr>sh_ephemeral = x_public P akey, sh_nonce = anonce, sh_identity = drop 32 identity,
    sh_signature = ed_sign P identity t, sh_proof = proof_of P (take 32 km) t ''agent''\<rparr>"
  have c2: "carries (enc_sh J) (dec_sh J) ?sh" by (intro msgs) (simp_all add: points nonces id64 proofs)
  obtain out2 where out2: "writeHandshake (enc_sh J ?sh) True = Inr out2" "readHandshake (dec_sh J) out2 = Inr (?sh, [])"
    using handshake_message[OF c2] by blast
  let ?cf = "\<lparr>cf_proof = proof_of P (take 32 km) t ''viewer''\<rparr>"
  have c3: "carries (enc_cf J) (dec_cf J) ?cf" by (intro msgs proofs)
  obtain out3 where out3: "writeHandshake (enc_cf J ?cf) True = Inr out3" "readHandshake (dec_cf J) out3 = Inr (?cf, [])"
    using handshake_message[OF c3] by blast
  have "connect_hello P J (Some vkey) (Some vnonce) True = Inr (out1, ?ch)"
    using out1 by (simp add: connect_hello_def protocolVersion_def)
  moreover have "accept_hello P J identity (Some akey) (Some anonce) True out1 = Inr (out2, km, t, [])"
    using out1 out2 nonces id64 shared(2) points
    by (simp add: accept_hello_def protocolVersion_def Let_def flip: t_def km_def)
  moreover have "connect_reply P J expected vkey ?ch fake True out2 =
      (Inr (\<lparr>readKey = take 32 (drop 32 km), writeKey = take 32 (drop 64 km), readSeq = 0, writeSeq = 0,
         readBuf = [], readErr = None, writeErr = None, sealed = [], tx_bytes = []\<rparr>, []), out3)"
    using out2 out3 points signs nonces id64 expected shared(1) km
    by (simp add: connect_reply_def Let_def newConn_def flip: t_def km_def)
  moreover have "accept_finish P J km t out3 =
      Inr (\<lparr>readKey = take 32 (drop 64 km), writeKey = take 32 (drop 32 km), readSeq = 0, writeSeq = 0,
         readBuf = [], readErr = None, writeErr = None, sealed = [], tx_bytes = []\<rparr>, [])"
    using out3 km by (simp add: accept_finish_def newConn_def)
  ultimately show ?thesis using km by (simp add: handshake_def)
qed

text \<open>An honest handshake ends with mirrored keys. If primitives and codecs behave as
  documented and the viewer expects the agent's identity, both ends accept, and what one end
  seals with the other opens with.\<close>

theorem handshake_mirrors_keys:
  assumes "honest_primitives P J identity vkey akey" "length identity = 64" "length vnonce = 32" "length anonce = 32"
    and "equal_fold (DeviceID P (drop 32 identity)) expected"
  shows "\<exists>viewer agent. handshake P J expected identity vkey vnonce akey anonce fake = Some (viewer, agent)
    \<and> readKey viewer = writeKey agent \<and> writeKey viewer = readKey agent \<and> length (readKey viewer) = 32
    \<and> length (writeKey viewer) = 32"
  using assms by (rule mirrored_handshake)

text \<open>Toy primitives with the documented shape, for the witnesses: the messages are the
  concatenation of their fixed-width fields.\<close>

definition toy :: primitives where
  "toy = \<lparr>hash256 = (\<lambda>m. replicate 32 (word_of_nat (length m))), hmac256 = (\<lambda>k m. replicate 32 (word_of_nat (length m))),
     x_public = (\<lambda>k. replicate 32 7), x_valid = (\<lambda>_. True), x_shared = (\<lambda>_ _. Some [9]),
     ed_sign = (\<lambda>_ _. []), ed_verify = (\<lambda>_ _ s. s = []),
     gcm_seal = (\<lambda>k n a p. p @ n @ replicate 4 0),
     gcm_open = (\<lambda>k n a c. if length c \<ge> 16 \<and> drop (length c - 16) c = n @ replicate 4 0
        then Some (take (length c - 16) c) else None)\<rparr>"

definition toy_codecs :: codecs where
  "toy_codecs = \<lparr>
     enc_ch = (\<lambda>m. Some (ch_ephemeral m @ ch_nonce m)),
     dec_ch = (\<lambda>b. Some \<lparr>ch_version = 1, ch_ephemeral = take 32 b, ch_nonce = drop 32 b\<rparr>),
     enc_sh = (\<lambda>m. Some (sh_ephemeral m @ sh_nonce m @ sh_identity m @ sh_proof m)),
     dec_sh = (\<lambda>b. Some \<lparr>sh_ephemeral = take 32 b, sh_nonce = take 32 (drop 32 b),
        sh_identity = take 32 (drop 64 b), sh_signature = [], sh_proof = drop 96 b\<rparr>),
     enc_cf = (\<lambda>m. Some (cf_proof m)), dec_cf = (\<lambda>b. Some \<lparr>cf_proof = b\<rparr>)\<rparr>"

lemma toy_honest: "honest_primitives toy toy_codecs identity vkey akey"
  by (auto simp: honest_primitives_def toy_def toy_codecs_def carries_def maxHandshake_def)

lemma handshake_mirrors_keys_witness:
  "\<exists>viewer agent. handshake toy toy_codecs (DeviceID toy (replicate 32 1)) (replicate 64 1) [1] (replicate 32 2)
      [3] (replicate 32 4) [] = Some (viewer, agent)
    \<and> readKey viewer = writeKey agent \<and> writeKey viewer = readKey agent \<and> length (readKey viewer) = 32
    \<and> length (writeKey viewer) = 32"
  by (rule handshake_mirrors_keys[OF toy_honest]) (simp_all add: equal_fold_def)

text \<open>C8: A viewer only talks to the device it asked for. Whatever bytes arrive as the agent's
  hello, \<open>Connect\<close> succeeds only for an identity whose device ID is the expected one, which signed
  the transcript of this very hello and proved the shared secret; without that the only thing the
  viewer ever sends is a proof that does not depend on the keys.\<close>

theorem connect_authenticates_device:
  assumes "connect_reply P J expected eph ch fake ok inp = (r, out)"
  shows "case r of
      Inr (c, rest) \<Rightarrow> \<exists>sh shared t.
        readHandshake (dec_sh J) inp = Inr (sh, rest)
        \<and> equal_fold (DeviceID P (sh_identity sh)) expected
        \<and> t = makeTranscript P [ch_ephemeral ch, ch_nonce ch, sh_ephemeral sh, sh_nonce sh, sh_identity sh]
        \<and> ed_verify P (sh_identity sh) t (sh_signature sh)
        \<and> x_shared P eph (sh_ephemeral sh) = Some shared
        \<and> sh_proof sh = proof_of P (take 32 (deriveKeys P shared t)) t ''agent''
        \<and> readKey c = take 32 (drop 32 (deriveKeys P shared t))
        \<and> writeKey c = take 32 (drop 64 (deriveKeys P shared t))
    | Inl e \<Rightarrow> e \<in> {Transport_failed, Bad_cipher_key, Marshal_failed, Handshake_too_large} \<or> out = []
        \<or> writeHandshake (enc_cf J \<lparr>cf_proof = fake\<rparr>) ok = Inr out"
proof (cases "readHandshake (dec_sh J) inp")
  case (Inr v)
  obtain sh rest where v: "v = (sh, rest)" by fastforce
  define t where "t = makeTranscript P [ch_ephemeral ch, ch_nonce ch, sh_ephemeral sh, sh_nonce sh, sh_identity sh]"
  show ?thesis
  proof (cases "x_shared P eph (sh_ephemeral sh)")
    case (Some shared)
    define km where "km = deriveKeys P shared t"
    show ?thesis
      using assms unfolding connect_reply_def Inr v sum.case prod.case Let_def t_def[symmetric] Some option.case
        km_def[symmetric]
      by (auto simp: newConn_def km_def[symmetric] t_def[symmetric] Some split: if_splits sum.splits)
  qed (use assms in \<open>auto simp: connect_reply_def Inr v Let_def split: if_splits\<close>)
qed (use assms in \<open>auto simp: connect_reply_def\<close>)

definition toy_reply :: "bytes \<Rightarrow> server_hello" where
  "toy_reply t = \<lparr>sh_ephemeral = replicate 32 7, sh_nonce = replicate 32 4, sh_identity = replicate 32 1,
     sh_signature = [], sh_proof = proof_of toy (take 32 (deriveKeys toy [9] t)) t ''agent''\<rparr>"

lemma toy_connects:
  assumes t: "t = makeTranscript toy [replicate 32 7, replicate 32 2, replicate 32 7, replicate 32 4, replicate 32 1]"
    and out: "writeHandshake (enc_sh toy_codecs (toy_reply t)) True = Inr inp"
  shows "\<exists>c out. connect_reply toy toy_codecs (DeviceID toy (replicate 32 1)) [1]
      \<lparr>ch_version = 1, ch_ephemeral = replicate 32 7, ch_nonce = replicate 32 2\<rparr> [] True inp = (Inr (c, []), out)"
proof -
  have len: "length (proof_of toy k m r) = 32" for k m r by (simp add: proof_of_def toy_def)
  then have "carries (enc_sh toy_codecs) (dec_sh toy_codecs) (toy_reply t)"
    by (simp add: carries_def toy_codecs_def toy_reply_def maxHandshake_def)
  then have "readHandshake (dec_sh toy_codecs) inp = Inr (toy_reply t, [])"
    using handshake_message[of "enc_sh toy_codecs" "dec_sh toy_codecs"] out by force
  moreover have "length (deriveKeys toy [9] t) = 96" by (rule deriveKeys_length) (simp add: toy_def)
  moreover have "x_shared toy x y = Some [9]" "x_valid toy x" "ed_verify toy x y []" for x y
    by (simp_all add: toy_def)
  moreover have c: "carries (enc_cf toy_codecs) (dec_cf toy_codecs) \<lparr>cf_proof = proof_of toy k m r\<rparr>" for k m r
    using len[of k m r] by (auto simp: carries_def toy_codecs_def maxHandshake_def)
  have "\<exists>out. writeHandshake (enc_cf toy_codecs \<lparr>cf_proof = proof_of toy k m r\<rparr>) True = Inr out" for k m r
    using handshake_message[OF c] by blast
  then obtain out3 where w: "writeHandshake (enc_cf toy_codecs
      \<lparr>cf_proof = proof_of toy (take 32 (deriveKeys toy [9] t)) t ''viewer''\<rparr>) True = Inr out3" by blast
  with calculation show ?thesis
    by (auto simp: connect_reply_def toy_reply_def equal_fold_def Let_def newConn_def simp flip: t)
qed

lemma connect_authenticates_device_witness:
  "\<exists>inp c out sh. connect_reply toy toy_codecs (DeviceID toy (replicate 32 1)) [1]
      \<lparr>ch_version = 1, ch_ephemeral = replicate 32 7, ch_nonce = replicate 32 2\<rparr> [] True inp = (Inr (c, []), out)
    \<and> readHandshake (dec_sh toy_codecs) inp = Inr (sh, [])
    \<and> equal_fold (DeviceID toy (sh_identity sh)) (DeviceID toy (replicate 32 1))"
proof -
  let ?t = "makeTranscript toy [replicate 32 7, replicate 32 2, replicate 32 7, replicate 32 4, replicate 32 1]"
  obtain inp where inp: "writeHandshake (enc_sh toy_codecs (toy_reply ?t)) True = Inr inp"
    by (simp add: writeHandshake_def toy_codecs_def toy_reply_def maxHandshake_def proof_of_def toy_def)
  obtain c out where "connect_reply toy toy_codecs (DeviceID toy (replicate 32 1)) [1]
      \<lparr>ch_version = 1, ch_ephemeral = replicate 32 7, ch_nonce = replicate 32 2\<rparr> [] True inp = (Inr (c, []), out)"
    using toy_connects[OF refl inp] by blast
  from connect_authenticates_device[OF this] this show ?thesis by auto
qed

end
