(* ===== verification/SecureConn_Records.thy ===== *)
theory SecureConn_Records
  imports SecureConn_Props
begin

text \<open>
  The record layer of the encrypted connection: sequence numbers are never reused, records arrive
  as they were written, and an unforgeable cipher makes the reader's data a prefix of the writer's.
\<close>

section \<open>Sequence numbers\<close>

lemma full_write: "sc_writeFull f i r = (n, False) \<Longrightarrow> n = r"
proof (induction f i r arbitrary: n rule: sc_writeFull.induct)
  case (1 f i r)
  show ?case
    using 1(1) 1(2)[unfolded sc_writeFull.simps[of f i r]]
    by (force split: if_splits prod.splits)
qed

definition seal_inv :: "sconn \<Rightarrow> bool" where
  "seal_inv c \<longleftrightarrow> map fst (sealed c) = map word_of_nat [0..<length (sealed c)]
     \<and> length (sealed c) \<le> 2 ^ 64
     \<and> (writeErr c = None \<longrightarrow> writeSeq c = word_of_nat (length (sealed c)) \<and> length (sealed c) < 2 ^ 64)"

lemma word64_succ:
  assumes "n < 2 ^ 64"
  shows "(word_of_nat n :: 64 word) = - 1 \<longleftrightarrow> Suc n = 2 ^ 64"
proof
  assume "(word_of_nat n :: 64 word) = - 1"
  then have "unat (word_of_nat n :: 64 word) = unat (- 1 :: 64 word)" by simp
  then show "Suc n = 2 ^ 64" using assms by (simp add: unat_of_nat64 unsigned_minus_1_eq_mask mask_eq_exp_minus_1)
next
  assume "Suc n = 2 ^ 64"
  then have "unat (word_of_nat n :: 64 word) = unat (- 1 :: 64 word)"
    using assms by (simp add: unat_of_nat64 unsigned_minus_1_eq_mask mask_eq_exp_minus_1)
  then show "(word_of_nat n :: 64 word) = - 1" by (simp add: word_unat_eq_iff)
qed

lemma sent_record_keeps:
  assumes "seal_inv c" "writeErr c = None"
  shows "seal_inv ((sent_record plain packet n c)\<lparr>writeErr := Some e\<rparr>)"
    and "n = length packet \<Longrightarrow> seal_inv (sent_record plain packet n c)"
proof -
  have len: "length (sealed c) < 2 ^ 64" "writeSeq c = word_of_nat (length (sealed c))"
    and logged: "map fst (sealed c) = map word_of_nat [0..<length (sealed c)]"
    using assms by (auto simp: seal_inv_def)
  have frame: "sealed (sent_record plain packet n c) = sealed c @ [(writeSeq c, plain)]"
    by (simp add: sent_record_def Let_def)
  have seqs: "map fst (sealed (sent_record plain packet n c)) =
      map word_of_nat [0..<length (sealed (sent_record plain packet n c))]"
    unfolding frame using logged len(2) by simp
  have bound: "length (sealed (sent_record plain packet n c)) \<le> 2 ^ 64"
    unfolding frame using len(1) by simp
  show "seal_inv ((sent_record plain packet n c)\<lparr>writeErr := Some e\<rparr>)"
    using seqs bound by (simp add: seal_inv_def)
  assume n: "n = length packet"
  show "seal_inv (sent_record plain packet n c)"
  proof (cases "writeSeq c = - 1")
    case True
    then have "writeErr (sent_record plain packet n c) \<noteq> None"
      using n by (simp add: sent_record_def Let_def)
    then show ?thesis using seqs bound unfolding seal_inv_def by blast
  next
    case False
    then have "Suc (length (sealed c)) < 2 ^ 64" using word64_succ[OF len(1)] len by (simp add: less_le)
    moreover have "writeSeq (sent_record plain packet n c) = word_of_nat (Suc (length (sealed c)))"
      using False n len(2) by (simp add: sent_record_def Let_def)
    ultimately show ?thesis using seqs bound frame by (simp add: seal_inv_def)
  qed
qed

text \<open>One record of \<open>Write\<close>.\<close>

lemma Write_record:
  assumes "p \<noteq> []" "writeErr c = None"
    and "packet = seal_record P (writeKey c) (writeSeq c) (take (min (length p) maxRecord) p)"
    and "sc_writeFull (f k) 0 (length packet) = (n, err)"
  shows "Write P f k p c =
     (let c = sent_record (take (min (length p) maxRecord) p) packet n c;
          written = (if n = length packet then min (length p) maxRecord else 0)
      in if err then ((written, Some Transport_failed), c\<lparr>writeErr := Some Transport_failed\<rparr>)
         else (case Write P f (Suc k) (drop (min (length p) maxRecord) p) c of ((w, e), c) \<Rightarrow> ((written + w, e), c)))"
  using assms by (subst Write.simps) (simp add: Let_def)

text \<open>What every record keeps, \<open>Write\<close> keeps.\<close>

lemma Write_invariant:
  assumes full: "\<And>c plain packet. I c \<Longrightarrow> writeErr c = None \<Longrightarrow> packet = seal_record P (writeKey c) (writeSeq c) plain
      \<Longrightarrow> I (sent_record plain packet (length packet) c)"
    and failed: "\<And>c plain packet n e. I c \<Longrightarrow> writeErr c = None \<Longrightarrow> packet = seal_record P (writeKey c) (writeSeq c) plain
      \<Longrightarrow> I ((sent_record plain packet n c)\<lparr>writeErr := Some e\<rparr>)"
    and c: "I c"
  shows "I (snd (Write P f k p c))"
  using c
proof (induction "length p" arbitrary: p c k rule: less_induct)
  case less
  show ?case
  proof (cases "p = [] \<or> writeErr c \<noteq> None")
    case True
    then show ?thesis using less(2) by (subst Write.simps) auto
  next
    case False
    let ?sz = "min (length p) maxRecord"
    let ?packet = "seal_record P (writeKey c) (writeSeq c) (take ?sz p)"
    obtain n err where wf: "sc_writeFull (f k) 0 (length ?packet) = (n, err)" by fastforce
    have "length (drop ?sz p) < length p" using False by (simp add: maxRecord_def)
    then have more: "I (snd (Write P f (Suc k) (drop ?sz p) (sent_record (take ?sz p) ?packet n c)))" if "\<not> err"
      using that less(2) False full_write[of "f k" 0 "length ?packet" n] wf by (intro less(1)) (auto intro: full)
    have step: "Write P f k p c =
      (let c = sent_record (take ?sz p) ?packet n c; written = (if n = length ?packet then ?sz else 0)
       in if err then ((written, Some Transport_failed), c\<lparr>writeErr := Some Transport_failed\<rparr>)
          else (case Write P f (Suc k) (drop ?sz p) c of ((w, e), c) \<Rightarrow> ((written + w, e), c)))"
      using False wf by (intro Write_record) auto
    show ?thesis
    proof (cases err)
      case True
      then show ?thesis using failed[OF less(2) _ refl, where plain = "take ?sz p" and n = n and e = Transport_failed] False unfolding step by (simp add: Let_def)
    next
      case err: False
      then show ?thesis using more unfolding step by (simp add: Let_def case_prod_beta)
    qed
  qed
qed

lemma Write_keeps [keeps]: "seal_inv c \<Longrightarrow> seal_inv (snd (Write P f k p c))"
  by (rule Write_invariant) (auto intro: sent_record_keeps)

text \<open>On the wire is what the log says: the records, each sealed under the nonce of its sequence number, the last one cut
  off where the transport failed.\<close>

definition wire_records :: "primitives \<Rightarrow> bytes \<Rightarrow> (64 word \<times> bytes) list \<Rightarrow> bytes" where
  "wire_records P key log = concat (map (\<lambda>(s, plain). seal_record P key s plain) log)"

definition wire_inv :: "primitives \<Rightarrow> bytes \<Rightarrow> sconn \<Rightarrow> bool" where
  "wire_inv P key c \<longleftrightarrow> writeKey c = key \<and> prefix (tx_bytes c) (wire_records P key (sealed c))
     \<and> (writeErr c = None \<longrightarrow> tx_bytes c = wire_records P key (sealed c))"

lemma wire_records_snoc: "wire_records P key (log @ [(s, plain)]) = wire_records P key log @ seal_record P key s plain"
  by (simp add: wire_records_def)

lemma wire_sent:
  assumes "wire_inv P key c" "writeErr c = None" "packet = seal_record P (writeKey c) (writeSeq c) plain"
  shows "wire_inv P key (sent_record plain packet (length packet) c)"
    and "wire_inv P key ((sent_record plain packet n c)\<lparr>writeErr := Some e\<rparr>)"
proof -
  obtain zs where "packet = take n packet @ zs" by (metis append_take_drop_id)
  then show "wire_inv P key ((sent_record plain packet n c)\<lparr>writeErr := Some e\<rparr>)"
    using assms by (auto simp: wire_inv_def sent_record_def wire_records_snoc Let_def take_is_prefix)
qed (use assms in \<open>simp add: wire_inv_def sent_record_def wire_records_snoc Let_def\<close>)

lemma Write_wire: "wire_inv P key c \<Longrightarrow> wire_inv P key (snd (Write P f k p c))"
  by (rule Write_invariant) (auto intro: wire_sent)

text \<open>Reading does not touch the sending side.\<close>

definition sending :: "sconn \<Rightarrow> bytes \<times> 64 word \<times> sc_error option \<times> (64 word \<times> bytes) list \<times> bytes" where
  "sending c = (writeKey c, writeSeq c, writeErr c, sealed c, tx_bytes c)"

lemma read_fill_sender: "sending (fst (snd (read_fill P c inp))) = sending c"
proof (induction P c inp rule: read_fill.induct)
  case (1 P c inp)
  then show ?case
    by (subst read_fill.simps) (auto simp: sending_def Let_def recordNonce_def split: option.splits)
qed

lemma Read_sender: "sending (fst (snd (Read P c n inp))) = sending c"
  using read_fill_sender[of P c inp] by (auto simp: Read_def sending_def split: prod.splits option.splits)

definition conn_inv :: "primitives \<Rightarrow> bytes \<Rightarrow> sconn \<Rightarrow> bool" where
  "conn_inv P key c \<longleftrightarrow> seal_inv c \<and> wire_inv P key c"

lemma conn_inv_sender: "sending c = sending d \<Longrightarrow> conn_inv P key c = conn_inv P key d"
  by (simp add: conn_inv_def seal_inv_def wire_inv_def sending_def)

datatype sc_event = DoWrite "nat \<Rightarrow> nat \<Rightarrow> int \<times> bool" bytes | DoRead nat bytes

fun sc_step :: "primitives \<Rightarrow> sconn \<Rightarrow> sc_event \<Rightarrow> sconn" where
  "sc_step P c (DoWrite f p) = snd (Write P f 0 p c)"
| "sc_step P c (DoRead n inp) = fst (snd (Read P c n inp))"

interpretation conns: event_system "sc_step P" "conn_inv P key" for P key
proof unfold_locales
  fix c e assume c: "conn_inv P key c"
  show "conn_inv P key (sc_step P c e)"
  proof (cases e)
    case (DoRead n inp)
    then show ?thesis using c conn_inv_sender[OF Read_sender] by simp
  qed (use c Write_keeps Write_wire in \<open>simp add: conn_inv_def\<close>)
qed

lemma distinct_seals: "seal_inv c \<Longrightarrow> distinct (map fst (sealed c))"
proof -
  assume inv: "seal_inv c"
  have "inj_on (word_of_nat :: nat \<Rightarrow> 64 word) {0..<length (sealed c)}"
    by (rule inj_on_inverseI[where g = unat], rule unat_of_nat64) (use inv in \<open>simp add: seal_inv_def\<close>)
  moreover have "map fst (sealed c) = map word_of_nat [0..<length (sealed c)]" using inv by (simp add: seal_inv_def)
  ultimately show ?thesis by (simp add: distinct_map)
qed

lemma recordNonce_inj: "fst (recordNonce s) = fst (recordNonce t) \<longleftrightarrow> s = t"
  by (auto simp: recordNonce_def be64.enc_inject)

text \<open>C19: A nonce is never used twice. After any sequence of writes and reads on a fresh connection, whatever the transport does (partial
  writes, errors, retries after an error, exhausted counters), the bytes on the wire are records, each its length and
  what the cipher made of its plaintext with the connection's key under a 12-byte nonce, the last one possibly cut off; and
  the nonces given to the cipher for them, also for one that never left, are pairwise different.\<close>

theorem nonces_never_reused:
  assumes "newConn rkey wkey = Inr c" "log = sealed (foldl (sc_step P) c es)"
  shows "distinct (map (\<lambda>(s, plain). fst (recordNonce s)) log) \<and> (\<forall>(s, plain) \<in> set log. length (fst (recordNonce s)) = 12)
    \<and> prefix (tx_bytes (foldl (sc_step P) c es))
        (concat (map (\<lambda>(s, plain). be32 (word_of_nat (length plain + overhead))
           @ gcm_seal P wkey (fst (recordNonce s)) (snd (recordNonce s)) plain) log))"
proof -
  have "conn_inv P wkey c"
    using assms(1) by (auto simp: newConn_def conn_inv_def seal_inv_def wire_inv_def wire_records_def split: if_splits)
  then have "conn_inv P wkey (foldl (sc_step P) c es)" by (rule conns.run_keeps)
  then have inv: "distinct (map fst log)" "prefix (tx_bytes (foldl (sc_step P) c es)) (wire_records P wkey log)"
    using distinct_seals unfolding assms(2) by (auto simp: conn_inv_def wire_inv_def)
  have "inj (\<lambda>s. fst (recordNonce s))" by (rule injI) (simp add: recordNonce_inj)
  then have "distinct (map (\<lambda>s. fst (recordNonce s)) (map fst log))" using inv(1) by (simp add: distinct_map inj_on_def inj_def)
  then have "distinct (map (\<lambda>(s, plain). fst (recordNonce s)) log)" by (simp add: comp_def case_prod_unfold)
  moreover have "\<forall>(s, plain) \<in> set log. length (fst (recordNonce s)) = 12" by (auto simp: recordNonce_def be_simps)
  ultimately show ?thesis using inv(2) by (simp add: wire_records_def seal_record_def case_prod_beta)
qed

definition fresh_conn :: sconn where
  "fresh_conn = \<lparr>readKey = replicate 16 0, writeKey = replicate 16 0, readSeq = 0, writeSeq = 0, readBuf = [],
     readErr = None, writeErr = None, sealed = [], tx_bytes = []\<rparr>"

lemma fresh_conn: "newConn (replicate 16 0) (replicate 16 0) = Inr fresh_conn"
  by (simp add: newConn_def fresh_conn_def)

lemma nonces_never_reused_witness:
  "distinct (map (\<lambda>(s, plain). fst (recordNonce s)) (sealed (foldl (sc_step toy) fresh_conn
     [DoWrite (\<lambda>_ _. (1, False)) [1, 2], DoWrite (\<lambda>_ _. (3, True)) [3], DoWrite (\<lambda>_ _. (1, False)) [3]])))"
  using nonces_never_reused[OF fresh_conn refl] by blast

section \<open>Integrity\<close>

text \<open>A sequence of \<open>Read\<close> calls, each with its buffer size and the bytes that arrive before it gives
  up: the data they deliver.\<close>

fun read_run :: "primitives \<Rightarrow> sconn \<Rightarrow> bytes \<Rightarrow> (nat \<times> bytes) list \<Rightarrow> bytes" where
  "read_run P c left [] = []"
| "read_run P c left ((n, arrived) # rs) =
     (case Read P c n (left @ arrived) of
        (Inl e, c', left') \<Rightarrow> read_run P c' left' rs
      | (Inr d, c', left') \<Rightarrow> d @ read_run P c' left' rs)"

text \<open>Unforgeability of the cipher under the reader's key: it opens under a sequence number only what
  the peer sealed under it; \<open>log\<close> are those plaintexts.\<close>

definition unforgeable :: "primitives \<Rightarrow> bytes \<Rightarrow> bytes list \<Rightarrow> bool" where
  "unforgeable P key log \<longleftrightarrow>
     (\<forall>s c p. gcm_open P key (fst (recordNonce s)) (snd (recordNonce s)) c = Some p \<longrightarrow>
        unat s < length log \<and> p = log ! unat s)"

text \<open>\<open>got\<close> was delivered, the next records come from the \<open>m\<close>-th of the log on.\<close>

definition read_inv :: "bytes \<Rightarrow> bytes list \<Rightarrow> bytes \<Rightarrow> sconn \<Rightarrow> bool" where
  "read_inv key log got c \<longleftrightarrow> readKey c = key \<and>
     (\<exists>m \<le> length log. got @ readBuf c = concat (take m log) \<and> (readErr c = None \<longrightarrow> m = unat (readSeq c)))"

lemma opened_record:
  assumes "read_inv key log got c" "unforgeable P key log" "readErr c = None" "readBuf c = []"
    and "gcm_open P (readKey c) (fst (recordNonce (readSeq c))) (snd (recordNonce (readSeq c))) ct = Some p"
  shows "read_inv key log got
     (if readSeq c = - 1 then c\<lparr>readErr := Some Sequence_exhausted, readBuf := p\<rparr>
      else c\<lparr>readSeq := readSeq c + 1, readBuf := p\<rparr>)"
proof -
  let ?m = "unat (readSeq c)"
  have m: "?m < length log" "p = log ! ?m" "got = concat (take ?m log)"
    using assms by (auto simp: read_inv_def unforgeable_def)
  then have "got @ p = concat (take (Suc ?m) log)" by (simp add: take_Suc_conv_app_nth)
  moreover have "unat (readSeq c + 1) = Suc ?m" if "readSeq c \<noteq> - 1"
    using that by (metis Suc_eq_plus1 add.commute add_eq_0_iff unatSuc)
  ultimately show ?thesis using m(1) assms(1) unfolding read_inv_def
    by (cases "readSeq c = - 1") (auto intro!: exI[of _ "Suc ?m"])
qed

lemma read_fill_inv:
  "read_inv key log got c \<Longrightarrow> unforgeable P key log \<Longrightarrow>
     read_inv key log got (fst (snd (read_fill P c inp)))"
proof (induction P c inp rule: read_fill.induct)
  case (1 P c inp)
  note forge = opened_record[OF 1(2,3)]
  let ?err = "\<lambda>e. read_inv key log got (c\<lparr>readErr := Some e\<rparr>)"
  have err: "?err e" for e using 1(2) by (auto simp: read_inv_def)
  consider "readBuf c \<noteq> [] \<or> readErr c \<noteq> None \<or> length inp < 4"
    | "readBuf c = []" "readErr c = None" "\<not> length inp < 4" by blast
  then show ?case
  proof cases
    case 1
    then show ?thesis using \<open>read_inv key log got c\<close> err
      by (subst read_fill.simps) (auto split: option.split)
  next
    case 2
    let ?sz = "unat (de32 (take 4 inp))"
    obtain nonce aad where n: "recordNonce (readSeq c) = (nonce, aad)" by fastforce
    show ?thesis
    proof (cases "(?sz < overhead \<or> ?sz > maxRecord + overhead) \<or> length (drop 4 inp) < ?sz
        \<or> gcm_open P (readKey c) nonce aad (take ?sz (drop 4 inp)) = None")
      case True
      then show ?thesis using 2 err n by (subst read_fill.simps) (auto simp: Let_def)
    next
      case False
      then obtain p where p: "gcm_open P (readKey c) nonce aad (take ?sz (drop 4 inp)) = Some p" by auto
      let ?c = "if readSeq c = - 1 then c\<lparr>readErr := Some Sequence_exhausted, readBuf := p\<rparr>
        else c\<lparr>readSeq := readSeq c + 1, readBuf := p\<rparr>"
      have "read_inv key log got ?c" using forge[OF 2(2,1)] p n by simp
      then have "read_inv key log got (fst (snd (read_fill P ?c (drop ?sz (drop 4 inp)))))"
        using 1(1)[OF _ 2(2) _ refl refl _ _ n[symmetric] p] 2 False 1(3) by auto
      moreover have "read_fill P c inp = read_fill P ?c (drop ?sz (drop 4 inp))"
        using 2 False p n by (subst read_fill.simps) (auto simp: Let_def)
      ultimately show ?thesis by simp
    qed
  qed
qed

lemma Read_inv:
  assumes "read_inv key log got c" "unforgeable P key log" "Read P c n inp = (r, c', left)"
  shows "read_inv key log (case r of Inl _ \<Rightarrow> got | Inr d \<Rightarrow> got @ d) c'"
proof (cases "n = 0")
  case True
  then show ?thesis using assms by (auto simp: Read_def)
next
  case False
  obtain o1 c1 l1 where rf: "read_fill P c inp = (o1, c1, l1)" by (metis prod_cases3)
  have inv: "read_inv key log got c1" using read_fill_inv[OF assms(1,2), of inp] rf by simp
  show ?thesis
  proof (cases o1)
    case None
    then have "r = Inr (take n (readBuf c1))" "c' = c1\<lparr>readBuf := drop n (readBuf c1)\<rparr>"
      using False rf assms(3) by (auto simp: Read_def)
    then show ?thesis using inv by (simp add: read_inv_def)
  next
    case (Some e)
    then show ?thesis using False rf assms(3) inv by (auto simp: Read_def)
  qed
qed

lemma read_run_inv:
  "read_inv key log got c \<Longrightarrow> unforgeable P key log \<Longrightarrow> prefix (got @ read_run P c left rs) (concat log)"
proof (induction rs arbitrary: got c left)
  case Nil
  then obtain m where "got @ readBuf c = concat (take m log)" by (auto simp: read_inv_def)
  then have "got @ (readBuf c @ concat (drop m log)) = concat log"
    by (metis append_assoc append_take_drop_id concat_append)
  then show ?case by (simp add: prefix_def) metis
next
  case (Cons a rs)
  obtain n arrived where a: "a = (n, arrived)" by fastforce
  obtain r c' left' where R: "Read P c n (left @ arrived) = (r, c', left')" by (metis prod_cases3)
  have "read_inv key log (case r of Inl _ \<Rightarrow> got | Inr d \<Rightarrow> got @ d) c'"
    using Cons.prems R by (rule Read_inv)
  from Cons.IH[OF this Cons.prems(2)] show ?case
    by (cases r) (simp_all add: a R)
qed

text \<open>C2: Records cannot be forged, replayed, reordered or dropped unnoticed. If the cipher is
  unforgeable, then whatever bytes an attacker feeds the reader of a fresh connection, in whatever
  portions, the data delivered is a prefix of what the peer sealed, in order.\<close>

theorem delivered_is_prefix_of_sealed:
  assumes "newConn rkey wkey = Inr c" "unforgeable P rkey log"
  shows "prefix (read_run P c [] rs) (concat log)"
proof -
  have "read_inv rkey log [] c" using assms(1) by (auto simp: newConn_def read_inv_def split: if_splits)
  then show ?thesis using read_run_inv[OF _ assms(2), of "[]" c "[]" rs] by simp
qed

text \<open>A cipher that opens exactly one ciphertext under the first nonce.\<close>

definition one_seal :: primitives where
  "one_seal = toy\<lparr>gcm_open := \<lambda>k n a c. if n = replicate 12 0 \<and> c = replicate 16 5 then Some [1, 2, 3] else None\<rparr>"

lemma one_seal_unforgeable: "unforgeable one_seal (replicate 16 0) [[1, 2, 3]]"
proof -
  have zero: "s = 0" if "replicate 4 0 @ be64 s = replicate 12 0" for s :: "64 word"
  proof -
    have "be64 s = be64 0" using that by (simp add: be64_def be32_def numeral_eq_Suc)
    then show ?thesis by (simp add: be64.enc_inject)
  qed
  then show ?thesis
    by (auto simp: unforgeable_def one_seal_def recordNonce_def split: if_splits dest!: zero)
qed

lemma delivered_is_prefix_of_sealed_witness:
  "prefix (read_run one_seal fresh_conn [] [(2, [0, 0, 0, 16] @ replicate 16 5), (2, []), (2, [0, 0, 0, 16] @ replicate 16 5)])
     [1, 2, 3]"
  using delivered_is_prefix_of_sealed[OF fresh_conn one_seal_unforgeable] by (simp del: read_run.simps)

section \<open>What is written is read\<close>

function record_chunks :: "bytes \<Rightarrow> bytes list" where
  "record_chunks p = (if p = [] then [] else take maxRecord p # record_chunks (drop maxRecord p))"
  by pat_completeness auto
termination
  by (relation "measure length") (auto simp: maxRecord_def)

declare record_chunks.simps [simp del]

lemma record_chunks_facts:
  "concat (record_chunks p) = p \<and> length (record_chunks p) \<le> length p
     \<and> (\<forall>q \<in> set (record_chunks p). q \<noteq> [] \<and> length q \<le> maxRecord)"
proof (induction p rule: record_chunks.induct)
  case (1 p)
  show ?case
  proof (cases "p = []")
    case True
    then show ?thesis by (simp add: record_chunks.simps)
  next
    case False
    have eq: "record_chunks p = take maxRecord p # record_chunks (drop maxRecord p)"
      using False by (subst record_chunks.simps) simp
    have "length (record_chunks (drop maxRecord p)) \<le> length p - maxRecord" "0 < maxRecord" "0 < length p"
      using 1[OF False] False by (auto simp: maxRecord_def)
    then have "Suc (length (record_chunks (drop maxRecord p))) \<le> length p" by linarith
    then show ?thesis unfolding eq using 1[OF False] False by (auto simp: maxRecord_def)
  qed
qed

fun records_stream :: "primitives \<Rightarrow> bytes \<Rightarrow> 64 word \<Rightarrow> bytes list \<Rightarrow> bytes" where
  "records_stream P key s [] = []"
| "records_stream P key s (p # ps) = seal_record P key s p @ records_stream P key (s + 1) ps"

lemma next_seq: "unat (s :: 64 word) + Suc n < 2 ^ 64 \<Longrightarrow> s \<noteq> - 1 \<and> unat (s + 1) = Suc (unat s)"
proof -
  assume "unat s + Suc n < 2 ^ 64"
  then have "s \<noteq> - 1" by (auto simp: unsigned_minus_1_eq_mask mask_eq_exp_minus_1)
  then show ?thesis by (metis Suc_eq_plus1 add.commute add_eq_0_iff unatSuc)
qed

lemma Write_whole:
  assumes "\<And>k r. sc_writeFull (f k) 0 r = (r, False)" "writeErr c = None"
    and "unat (writeSeq c) + length (record_chunks p) < 2 ^ 64"
  shows "fst (Write P f k p c) = (length p, None)
    \<and> tx_bytes (snd (Write P f k p c)) = tx_bytes c @ records_stream P (writeKey c) (writeSeq c) (record_chunks p)"
  using assms(2,3)
proof (induction "length p" arbitrary: p c k rule: less_induct)
  case less
  show ?case
  proof (cases "p = []")
    case True
    then show ?thesis by (subst (1 2) Write.simps) (simp add: record_chunks.simps)
  next
    case False
    let ?sz = "min (length p) maxRecord"
    let ?packet = "seal_record P (writeKey c) (writeSeq c) (take ?sz p)"
    let ?c = "sent_record (take ?sz p) ?packet (length ?packet) c"
    have chunks: "record_chunks p = take ?sz p # record_chunks (drop ?sz p)"
      using False by (subst record_chunks.simps) (simp add: min_def)
    then have seq: "writeSeq c \<noteq> - 1" "unat (writeSeq c + 1) = Suc (unat (writeSeq c))"
      using next_seq[of "writeSeq c" "length (record_chunks (drop ?sz p))"] less(3) by simp_all
    have c: "writeErr ?c = None" "writeSeq ?c = writeSeq c + 1" "writeKey ?c = writeKey c"
      "tx_bytes ?c = tx_bytes c @ ?packet"
      using seq less(2) by (simp_all add: sent_record_def Let_def)
    have "length (drop ?sz p) < length p" using False by (simp add: maxRecord_def)
    from less(1)[OF this c(1), of "Suc k"] have IH: "fst (Write P f (Suc k) (drop ?sz p) ?c) = (length (drop ?sz p), None)"
      "tx_bytes (snd (Write P f (Suc k) (drop ?sz p) ?c)) =
        tx_bytes c @ ?packet @ records_stream P (writeKey c) (writeSeq c + 1) (record_chunks (drop ?sz p))"
      using c seq chunks less(3) by auto
    show ?thesis
      unfolding Write_record[OF False less(2) refl assms(1)] chunks
      using IH by (simp add: Let_def case_prod_beta prod_eq_iff)
  qed
qed

text \<open>A reader that reads into a buffer of \<open>n\<close> bytes until an error.\<close>

fun read_to_end :: "nat \<Rightarrow> primitives \<Rightarrow> sconn \<Rightarrow> nat \<Rightarrow> bytes \<Rightarrow> bytes \<times> sc_error option" where
  "read_to_end 0 P c n inp = ([], None)"
| "read_to_end (Suc fuel) P c n inp =
     (case Read P c n inp of
        (Inl e, _, _) \<Rightarrow> ([], Some e)
      | (Inr d, c, inp) \<Rightarrow> (case read_to_end fuel P c n inp of (ds, e) \<Rightarrow> (d @ ds, e)))"

text \<open>The documented contract of the cipher under one key.\<close>

definition cipher_ok :: "primitives \<Rightarrow> bytes \<Rightarrow> bool" where
  "cipher_ok P key \<longleftrightarrow>
     (\<forall>s p. case recordNonce s of (n, a) \<Rightarrow>
        gcm_open P key n a (gcm_seal P key n a p) = Some p \<and> length (gcm_seal P key n a p) = length p + overhead)"

lemma read_fill_record:
  assumes "cipher_ok P (readKey c)" "readBuf c = []" "readErr c = None" "q \<noteq> []" "length q \<le> maxRecord"
    and "readSeq c \<noteq> - 1"
  shows "read_fill P c (seal_record P (readKey c) (readSeq c) q @ rest) =
    (None, c\<lparr>readSeq := readSeq c + 1, readBuf := q\<rparr>, rest)"
proof -
  obtain nonce aad where n: "recordNonce (readSeq c) = (nonce, aad)" by fastforce
  let ?ct = "gcm_seal P (readKey c) nonce aad q"
  have ct: "length ?ct = length q + overhead" "gcm_open P (readKey c) nonce aad ?ct = Some q"
    using assms(1) n by (auto simp: cipher_ok_def dest: spec[of _ "readSeq c"])
  have sz: "unat (word_of_nat (length q + overhead) :: 32 word) = length q + overhead"
    using assms(5) by (intro unat_of_nat32) (simp add: maxRecord_def overhead_def)
  have full: "read_fill P (c\<lparr>readSeq := readSeq c + 1, readBuf := q\<rparr>) rest =
      (None, c\<lparr>readSeq := readSeq c + 1, readBuf := q\<rparr>, rest)"
    using assms(4) by (subst read_fill.simps) simp
  show ?thesis
    unfolding seal_record_def n prod.case using assms n ct sz full
    by (subst read_fill.simps) (simp add: Let_def be_simps)
qed

lemma read_to_end_ok:
  assumes "cipher_ok P (readKey c)" "readErr c = None" "0 < n"
    and "\<forall>q \<in> set ps. q \<noteq> [] \<and> length q \<le> maxRecord" "unat (readSeq c) + length ps < 2 ^ 64"
    and "length (readBuf c @ concat ps) < fuel"
  shows "read_to_end fuel P c n (records_stream P (readKey c) (readSeq c) ps) = (readBuf c @ concat ps, Some Short_stream)"
  using assms
proof (induction fuel arbitrary: c ps)
  case (Suc fuel)
  show ?case
  proof (cases "readBuf c")
    case (Cons b bs)
    then have "Read P c n inp = (Inr (take n (readBuf c)), c\<lparr>readBuf := drop n (readBuf c)\<rparr>, inp)" for inp
      using Suc.prems(3) by (simp add: Read_def read_fill.simps)
    moreover have "length (drop n (readBuf c) @ concat ps) < fuel" using Suc.prems(3,6) Cons by simp
    ultimately show ?thesis
      using Suc.IH[of "c\<lparr>readBuf := drop n (readBuf c)\<rparr>" ps] Suc.prems by simp
  next
    case Nil
    show ?thesis
    proof (cases ps)
      case Nil
      then show ?thesis using Suc.prems \<open>readBuf c = []\<close> by (simp add: Read_def read_fill.simps)
    next
      case (Cons q qs)
      then have seq: "readSeq c \<noteq> - 1" "unat (readSeq c + 1) = Suc (unat (readSeq c))"
        using next_seq[of "readSeq c" "length qs"] Suc.prems(5) by simp_all
      let ?c = "c\<lparr>readSeq := readSeq c + 1, readBuf := drop n q\<rparr>"
      have q: "q \<noteq> []" "length q \<le> maxRecord" using Suc.prems(4) Cons by simp_all
      have "Read P c n (records_stream P (readKey c) (readSeq c) ps) =
          (Inr (take n q), ?c, records_stream P (readKey c) (readSeq c + 1) qs)"
        using read_fill_record[OF Suc.prems(1) Nil Suc.prems(2) q seq(1)] Suc.prems(3) Cons
        by (simp add: Read_def)
      moreover have "length (drop n q @ concat qs) < fuel"
        using Suc.prems(3,6) Cons q Nil by (cases q) auto
      then have "read_to_end fuel P ?c n (records_stream P (readKey ?c) (readSeq ?c) qs) = (drop n q @ concat qs, Some Short_stream)"
        using Suc.IH[of ?c qs] Suc.prems Cons seq by simp
      ultimately show ?thesis using Cons Nil by simp
    qed
  qed
qed simp

text \<open>What is written is read. If the transport takes everything and the counters do not wrap,
  \<open>Write\<close> reports every byte written, and a reader with the same key and counter, reading through a
  buffer of any positive length, gets exactly those bytes and then the end of the stream.\<close>

theorem records_round_trip:
  assumes "cipher_ok P (writeKey w)" "\<And>k r. sc_writeFull (f k) 0 r = (r, False)" "writeErr w = None" "0 < n"
    and "unat (writeSeq w) + length p < 2 ^ 64" "tx_bytes w = []"
    and "readKey r = writeKey w" "readSeq r = writeSeq w" "readErr r = None" "readBuf r = []"
  shows "fst (Write P f 0 p w) = (length p, None)
    \<and> read_to_end (Suc (length p)) P r n (tx_bytes (snd (Write P f 0 p w))) = (p, Some Short_stream)"
proof -
  note ch = record_chunks_facts[of p]
  have lt: "unat (writeSeq w) + length (record_chunks p) < 2 ^ 64" using assms(5) ch by linarith
  note wr = Write_whole[where f = f and c = w and p = p and k = 0 and P = P, OF assms(2,3) lt]
  have "read_to_end (Suc (length p)) P r n (records_stream P (readKey r) (readSeq r) (record_chunks p)) =
      (readBuf r @ concat (record_chunks p), Some Short_stream)"
    using assms lt ch by (intro read_to_end_ok) auto
  then show ?thesis using wr assms ch by simp
qed

lemma one_by_one: "sc_writeFull (\<lambda>_. (1, False)) i r = (r, False)"
  by (induction r arbitrary: i) (subst sc_writeFull.simps; simp)+

lemma toy_cipher: "cipher_ok toy key"
  by (auto simp: cipher_ok_def toy_def overhead_def recordNonce_def be_simps)

lemma records_round_trip_witness:
  "read_to_end (Suc (length ([10, 20, 30] :: bytes))) toy fresh_conn 2 (tx_bytes (snd (Write toy (\<lambda>_ _. (1, False)) 0 [10, 20, 30] fresh_conn))) =
     ([10, 20, 30], Some Short_stream)"
proof -
  have "0 < (2 :: nat)" "writeErr fresh_conn = None" "readErr fresh_conn = None" "readBuf fresh_conn = []"
    "unat (writeSeq fresh_conn) + length ([10, 20, 30] :: bytes) < 2 ^ 64" "tx_bytes fresh_conn = []"
    "readKey fresh_conn = writeKey fresh_conn" "readSeq fresh_conn = writeSeq fresh_conn"
    by (simp_all add: fresh_conn_def)
  then show ?thesis
    using records_round_trip[OF toy_cipher one_by_one, of fresh_conn 2 "[10, 20, 30]" fresh_conn] by blast
qed

end
