(* ===== verification/Account.thy ===== *)
theory Account
  imports SecureConn "HOL-Library.AList"
begin

text \<open>
  The account store of \<open>internal/account/account.go\<close> and \<open>device_codes.go\<close>: accounts and sessions,
  activation keys, licensed devices, bound devices, device codes and the audit log.

  The SQL tables are lists of rows in insertion order; a statement is the list function it means,
  with the constraints of the schema (primary keys, the unique code, the foreign keys to accounts).
  The \<open>i\<close>-th statement of an operation fails without effect when \<open>fault i\<close>; a transaction works on a
  copy that only its commit stores. The clock readings, the random draws, the password hash and the
  digest are given by the environment. Unix times are unbounded integers: they and the durations
  (at most ten years) are far below the limit of \<open>int64\<close>.
\<close>

section \<open>Tables\<close>

record account_row =
  a_name :: string
  a_hash :: bytes
  a_salt :: bytes
  a_created :: int
  a_until :: int

record session_row =
  s_hash :: string
  s_user :: string
  s_expires :: int
  s_revoked :: int

record key_row =
  k_hash :: string
  k_duration :: int
  k_created :: int
  k_before :: int
  k_by :: string
  k_at :: int
  k_revoked :: int

record licensed_row =
  l_id :: string
  l_key :: bytes
  l_name :: string
  l_pin :: string
  l_first :: int
  l_seen :: int
  l_until :: int
  l_revoked :: int

record device_row =
  d_id :: string
  d_owner :: string
  d_key :: bytes
  d_name :: string
  d_approved :: int
  d_seen :: int
  d_revoked :: int

record audit_row =
  au_at :: int
  au_user :: string
  au_action :: string
  au_device :: string
  au_remote :: string
  au_detail :: string

record db =
  accounts :: "account_row list"
  sessions :: "session_row list"
  keys :: "key_row list"
  licensed :: "licensed_row list"
  devices :: "device_row list"
  codes :: "(string \<times> string) list"
  settings :: "(string \<times> string) list"
  audit :: "audit_row list"

record acc_env =
  clock :: "nat \<Rightarrow> nanos"
  fault :: "nat \<Rightarrow> bool"
  draw :: "nat \<Rightarrow> bytes option"
  draw_int :: "nat \<Rightarrow> nat option"
  argon2 :: "bytes \<Rightarrow> string \<Rightarrow> bytes"
  prims :: primitives

datatype acc_error =
    Sql_error | No_rows | Random_error | Bad_username | Bad_password | Username_exists | Bad_login
  | Bad_duration | Key_unavailable | Bad_fingerprint | Unused_key_not_found | Invalid_key | Key_revoked
  | Key_used | Key_expired | Key_gone | Name_too_long | Id_mismatch | Identity_changed | Device_revoked
  | Bad_name | Device_not_found | Bad_pin | Not_connected | Already_permanent | Foreign_device
  | Bad_code | Code_allocation_failed

definition sessionLifetime :: nanos where
  "sessionLifetime = 86400000000000"

definition permanentDeviceLicenseUnix :: int where
  "permanentDeviceLicenseUnix = 253402300799"

section \<open>Statements\<close>

definition unix :: "nanos \<Rightarrow> int" where
  "unix t = t div 1000000000"

definition update_rows :: "('r \<Rightarrow> bool) \<Rightarrow> ('r \<Rightarrow> 'r) \<Rightarrow> 'r list \<Rightarrow> 'r list" where
  "update_rows P f rs = map (\<lambda>r. if P r then f r else r) rs"

definition affected :: "('r \<Rightarrow> bool) \<Rightarrow> 'r list \<Rightarrow> nat" where
  "affected P rs = length (filter P rs)"

text \<open>\<open>ORDER BY key DESC LIMIT n\<close>; rows with equal keys come in table order.\<close>

definition newest :: "('r \<Rightarrow> int) \<Rightarrow> nat \<Rightarrow> 'r list \<Rightarrow> 'r list" where
  "newest key n rs = take n (sort_key (\<lambda>r. - key r) rs)"

definition hashToken :: "acc_env \<Rightarrow> string \<Rightarrow> string" where
  "hashToken e token = hex_encode (hash256 (prims e) (str_bytes token))"

text \<open>An \<open>Exec\<close> that must change exactly one row.\<close>

definition exec_one :: "acc_env \<Rightarrow> nat \<Rightarrow> acc_error \<Rightarrow> nat \<Rightarrow> db \<Rightarrow> db \<Rightarrow> (acc_error + unit) \<times> db" where
  "exec_one e i err n db db' =
     (if fault e i then (Inl Sql_error, db) else (if n = 1 then Inr () else Inl err, db'))"

section \<open>Accounts and sessions\<close>

definition username_char :: "char \<Rightarrow> bool" where
  "username_char c \<longleftrightarrow> is_digit c \<or> (65 \<le> ord c \<and> ord c \<le> 90) \<or> (97 \<le> ord c \<and> ord c \<le> 122)
     \<or> c \<in> {CHR ''_'', CHR ''.'', CHR ''-''}"

definition usernamePattern :: "string \<Rightarrow> bool" where
  "usernamePattern s \<longleftrightarrow> 3 \<le> length s \<and> length s \<le> 48 \<and> list_all username_char s"

definition passwordHash :: "acc_env \<Rightarrow> bytes \<Rightarrow> string \<Rightarrow> bytes" where
  "passwordHash e salt password = argon2 e salt password"

definition Register :: "acc_env \<Rightarrow> string \<Rightarrow> string \<Rightarrow> db \<Rightarrow> (acc_error + unit) \<times> db" where
  "Register e username password db =
     (let username = trim_space username in
      if \<not> usernamePattern username then (Inl Bad_username, db)
      else if length password < 10 \<or> length password > 256 then (Inl Bad_password, db)
      else case draw e 0 of None \<Rightarrow> (Inl Random_error, db)
      | Some salt \<Rightarrow>
          if fault e 0 then (Inl Sql_error, db)
          else if \<exists>r \<in> set (accounts db). a_name r = username then (Inl Username_exists, db)
          else (Inr (), db\<lparr>accounts := accounts db @ [\<lparr>a_name = username,
            a_hash = passwordHash e salt password, a_salt = salt, a_created = unix (clock e 0), a_until = 0\<rparr>]\<rparr>))"

definition Login :: "acc_env \<Rightarrow> string \<Rightarrow> string \<Rightarrow> db \<Rightarrow> (acc_error + string) \<times> db" where
  "Login e username password db =
     (let username = trim_space username in
      if fault e 0 then (Inl Sql_error, db)
      else let row = find (\<lambda>r. a_name r = username) (accounts db);
               expected = (case row of Some r \<Rightarrow> a_hash r | None \<Rightarrow> replicate 32 0);
               salt = (case row of Some r \<Rightarrow> a_salt r | None \<Rightarrow> replicate 16 0);
               candidate = passwordHash e salt password
           in if row = None \<or> candidate \<noteq> expected then (Inl Bad_login, db)
              else case draw e 0 of None \<Rightarrow> (Inl Random_error, db)
              | Some raw \<Rightarrow>
                  let token = hex_encode raw; h = hashToken e token in
                  if fault e 1 \<or> (\<exists>s \<in> set (sessions db). s_hash s = h) then (Inl Sql_error, db)
                  else
                    let added = sessions db @ [\<lparr>s_hash = h, s_user = username,
                          s_expires = unix (clock e 0 + sessionLifetime), s_revoked = 0\<rparr>];
                        kept = (if fault e 2 then added
                          else filter (\<lambda>s. \<not> (s_expires s < unix (clock e 1) \<or> s_revoked s > 0)) added)
                    in (Inr token, db\<lparr>sessions := kept\<rparr>))"

definition Authenticate :: "acc_env \<Rightarrow> string \<Rightarrow> db \<Rightarrow> string \<times> bool" where
  "Authenticate e token db =
     (if token = [] then ([], False)
      else if fault e 0 then ([], False)
      else case find (\<lambda>s. s_hash s = hashToken e token \<and> s_revoked s = 0 \<and> s_expires s > unix (clock e 0))
                  (sessions db) of
             None \<Rightarrow> ([], False) | Some s \<Rightarrow> (s_user s, True))"

definition Valid :: "acc_env \<Rightarrow> string \<Rightarrow> db \<Rightarrow> bool" where
  "Valid e token db = snd (Authenticate e token db)"

definition Logout :: "acc_env \<Rightarrow> string \<Rightarrow> db \<Rightarrow> (acc_error + unit) \<times> db" where
  "Logout e token db =
     (if fault e 0 then (Inl Sql_error, db)
      else (Inr (), db\<lparr>sessions := update_rows (\<lambda>s. s_hash s = hashToken e token)
        (\<lambda>s. s\<lparr>s_revoked := unix (clock e 0)\<rparr>) (sessions db)\<rparr>))"

definition HasActiveLicense :: "acc_env \<Rightarrow> string \<Rightarrow> db \<Rightarrow> bool" where
  "HasActiveLicense e username db =
     (\<not> fault e 0 \<and> (case find (\<lambda>r. a_name r = username) (accounts db) of None \<Rightarrow> False
       | Some r \<Rightarrow> a_until r > unix (clock e 0)))"

text \<open>An expiry is \<open>None\<close> where the code returns the zero time.\<close>

definition LicenseExpiry :: "acc_env \<Rightarrow> string \<Rightarrow> db \<Rightarrow> acc_error + int option" where
  "LicenseExpiry e username db =
     (if fault e 0 then Inl Sql_error
      else case find (\<lambda>r. a_name r = username) (accounts db) of None \<Rightarrow> Inl No_rows
      | Some r \<Rightarrow> Inr (if a_until r = 0 then None else Some (a_until r)))"

section \<open>Activation keys\<close>

fun key_parts :: "nat \<Rightarrow> string \<Rightarrow> string list" where
  "key_parts 0 s = []"
| "key_parts (Suc fuel) s = (if s = [] then [] else take 4 s # key_parts fuel (drop 4 s))"

definition valid_duration :: "nanos \<Rightarrow> bool" where
  "valid_duration d \<longleftrightarrow> 3600000000000 \<le> d \<and> d \<le> 10 * 365 * 24 * 3600000000000"

text \<open>\<open>GenerateActivationKey\<close>; a failing insertion still returns the key beside its error.\<close>

definition GenerateActivationKey ::
  "acc_env \<Rightarrow> nanos \<Rightarrow> nanos \<Rightarrow> db \<Rightarrow> (string \<times> acc_error option) \<times> db"
where
  "GenerateActivationKey e duration redeemWindow db =
     (if \<not> valid_duration duration then (([], Some Bad_duration), db)
      else
        let redeemWindow = (if redeemWindow \<le> 0 then 90 * 24 * 3600000000000 else redeemWindow) in
        case draw e 0 of None \<Rightarrow> (([], Some Random_error), db)
        | Some raw \<Rightarrow>
            let encoded = base32_encode raw;
                key = join_with (CHR ''-'') (''YU'' # key_parts (length encoded) encoded);
                h = hashToken e key
            in if fault e 0 \<or> (\<exists>k \<in> set (keys db). k_hash k = h) then ((key, Some Sql_error), db)
               else ((key, None), db\<lparr>keys := keys db @ [\<lparr>k_hash = h, k_duration = duration div 1000000000,
                 k_created = unix (clock e 0), k_before = unix (clock e 0 + redeemWindow), k_by = [], k_at = 0,
                 k_revoked = 0\<rparr>]\<rparr>))"

record key_info =
  i_fingerprint :: string
  i_duration :: int
  i_created :: int
  i_before :: int
  i_by :: string
  i_at :: "int option"
  i_revoked :: "int option"

definition shown :: "int \<Rightarrow> int option" where
  "shown t = (if t = 0 then None else Some t)"

definition ListActivationKeys :: "acc_env \<Rightarrow> int \<Rightarrow> db \<Rightarrow> acc_error + key_info list" where
  "ListActivationKeys e limit db =
     (let limit = (if limit \<le> 0 \<or> limit > 5000 then 100 else limit) in
      if fault e 0 \<or> fault e 1 then Inl Sql_error
      else Inr (map (\<lambda>k. \<lparr>i_fingerprint = to_upper (take 12 (k_hash k)), i_duration = k_duration k,
        i_created = k_created k, i_before = k_before k, i_by = k_by k, i_at = shown (k_at k),
        i_revoked = shown (k_revoked k)\<rparr>) (newest k_created (nat limit) (keys db))))"

definition normalize :: "string \<Rightarrow> string" where
  "normalize s = to_upper (trim_space s)"

definition unused :: "key_row \<Rightarrow> bool" where
  "unused k \<longleftrightarrow> k_at k = 0 \<and> k_revoked k = 0"

definition RevokeActivationKey :: "acc_env \<Rightarrow> string \<Rightarrow> db \<Rightarrow> (acc_error + unit) \<times> db" where
  "RevokeActivationKey e key db =
     (let P = (\<lambda>k. k_hash k = hashToken e (normalize key) \<and> unused k)
      in exec_one e 0 Key_unavailable (affected P (keys db)) db
           (db\<lparr>keys := update_rows P (\<lambda>k. k\<lparr>k_revoked := unix (clock e 0)\<rparr>) (keys db)\<rparr>))"

definition RevokeActivationKeyByFingerprint :: "acc_env \<Rightarrow> string \<Rightarrow> db \<Rightarrow> (acc_error + unit) \<times> db" where
  "RevokeActivationKeyByFingerprint e fingerprint db =
     (let fingerprint = normalize fingerprint in
      if length fingerprint \<noteq> 12 then (Inl Bad_fingerprint, db)
      else
        let P = (\<lambda>k. map upper_char (take 12 (k_hash k)) = fingerprint \<and> unused k)
        in exec_one e 0 Unused_key_not_found (affected P (keys db)) db
             (db\<lparr>keys := update_rows P (\<lambda>k. k\<lparr>k_revoked := unix (clock e 0)\<rparr>) (keys db)\<rparr>))"

text \<open>The checks both redemptions make on the key, and the update that consumes it. \<open>j\<close> is the
  number of the first of the two statements.\<close>

definition check_key :: "acc_env \<Rightarrow> nat \<Rightarrow> string \<Rightarrow> db \<Rightarrow> acc_error + key_row" where
  "check_key e j key db =
     (if fault e j then Inl Sql_error
      else case find (\<lambda>k. k_hash k = hashToken e (normalize key)) (keys db) of None \<Rightarrow> Inl Invalid_key
      | Some k \<Rightarrow>
          if k_revoked k \<noteq> 0 then Inl Key_revoked
          else if k_by k \<noteq> [] \<or> k_at k \<noteq> 0 then Inl Key_used
          else if k_before k < unix (clock e 0) then Inl Key_expired
          else Inr k)"

definition consume_key :: "acc_env \<Rightarrow> nat \<Rightarrow> string \<Rightarrow> string \<Rightarrow> db \<Rightarrow> acc_error + db" where
  "consume_key e j key by_whom db =
     (let P = (\<lambda>k. k_hash k = hashToken e (normalize key) \<and> k_by k = [] \<and> k_revoked k = 0) in
      if fault e j then Inl Sql_error
      else if affected P (keys db) \<noteq> 1 then Inl Key_gone
      else Inr (db\<lparr>keys := update_rows P (\<lambda>k. k\<lparr>k_by := by_whom, k_at := unix (clock e 0)\<rparr>) (keys db)\<rparr>))"

definition RedeemActivationKey :: "acc_env \<Rightarrow> string \<Rightarrow> string \<Rightarrow> db \<Rightarrow> (acc_error + int) \<times> db" where
  "RedeemActivationKey e username key db =
     (if fault e 0 then (Inl Sql_error, db)
      else case check_key e 1 key db of Inl err \<Rightarrow> (Inl err, db)
      | Inr k \<Rightarrow>
        if fault e 2 then (Inl Sql_error, db)
        else case find (\<lambda>r. a_name r = username) (accounts db) of None \<Rightarrow> (Inl No_rows, db)
        | Some r \<Rightarrow>
          let newExpiry = max (unix (clock e 0)) (a_until r) + k_duration k in
          (case consume_key e 3 key username db of Inl err \<Rightarrow> (Inl err, db)
           | Inr tx \<Rightarrow>
             if fault e 4 \<or> fault e 5 then (Inl Sql_error, db)
             else (Inr newExpiry, tx\<lparr>accounts := update_rows (\<lambda>r. a_name r = username)
               (\<lambda>r. r\<lparr>a_until := newExpiry\<rparr>) (accounts tx)\<rparr>)))"

section \<open>Licensed devices\<close>

definition RegisterLicensedDeviceNamed ::
  "acc_env \<Rightarrow> string \<Rightarrow> bytes \<Rightarrow> string \<Rightarrow> db \<Rightarrow> (acc_error + unit) \<times> db"
where
  "RegisterLicensedDeviceNamed e deviceID publicKey name db =
     (let deviceID = normalize deviceID; name = trim_space name; t = unix (clock e 0) in
      if rune_count name > 80 then (Inl Name_too_long, db)
      else if length publicKey \<noteq> 32 \<or> \<not> equal_fold (DeviceID (prims e) publicKey) deviceID
      then (Inl Id_mismatch, db)
      else if fault e 0 then (Inl Sql_error, db)
      else case find (\<lambda>d. l_id d = deviceID) (licensed db) of
        None \<Rightarrow>
          if fault e 1 then (Inl Sql_error, db)
          else (Inr (), db\<lparr>licensed := licensed db @ [\<lparr>l_id = deviceID, l_key = publicKey, l_name = name,
            l_pin = [], l_first = t, l_seen = t, l_until = 0, l_revoked = 0\<rparr>]\<rparr>)
      | Some d \<Rightarrow>
          if l_key d \<noteq> publicKey then (Inl Identity_changed, db)
          else if l_revoked d \<noteq> 0 then (Inl Device_revoked, db)
          else if fault e 1 then (Inl Sql_error, db)
          else (Inr (), db\<lparr>licensed := update_rows (\<lambda>d. l_id d = deviceID)
            (\<lambda>d. d\<lparr>l_seen := t, l_name := (if name = [] then l_name d else name)\<rparr>) (licensed db)\<rparr>))"

definition RegisterLicensedDevice :: "acc_env \<Rightarrow> string \<Rightarrow> bytes \<Rightarrow> db \<Rightarrow> (acc_error + unit) \<times> db" where
  "RegisterLicensedDevice e deviceID publicKey db = RegisterLicensedDeviceNamed e deviceID publicKey [] db"

text \<open>An update of one device row that must exist.\<close>

definition update_device ::
  "acc_env \<Rightarrow> acc_error \<Rightarrow> (licensed_row \<Rightarrow> bool) \<Rightarrow> (licensed_row \<Rightarrow> licensed_row) \<Rightarrow> db \<Rightarrow> (acc_error + unit) \<times> db"
where
  "update_device e err P f db =
     exec_one e 0 err (affected P (licensed db)) db (db\<lparr>licensed := update_rows P f (licensed db)\<rparr>)"

definition RenameLicensedDevice :: "acc_env \<Rightarrow> string \<Rightarrow> string \<Rightarrow> db \<Rightarrow> (acc_error + unit) \<times> db" where
  "RenameLicensedDevice e deviceID name db =
     (let name = trim_space name in
      if name = [] \<or> rune_count name > 80 then (Inl Bad_name, db)
      else update_device e Device_not_found (\<lambda>d. l_id d = normalize deviceID) (\<lambda>d. d\<lparr>l_name := name\<rparr>) db)"

definition TouchLicensedDevice :: "acc_env \<Rightarrow> string \<Rightarrow> nanos option \<Rightarrow> db \<Rightarrow> (acc_error + unit) \<times> db" where
  "TouchLicensedDevice e deviceID seen db =
     (case seen of None \<Rightarrow> (Inr (), db)
      | Some t \<Rightarrow>
          if fault e 0 then (Inl Sql_error, db)
          else (Inr (), db\<lparr>licensed := update_rows (\<lambda>d. l_id d = normalize deviceID \<and> l_seen d < unix t)
            (\<lambda>d. d\<lparr>l_seen := unix t\<rparr>) (licensed db)\<rparr>))"

definition UpdateLicensedDevicePIN :: "acc_env \<Rightarrow> string \<Rightarrow> string \<Rightarrow> db \<Rightarrow> (acc_error + unit) \<times> db" where
  "UpdateLicensedDevicePIN e deviceID pin db =
     (let pin = trim_space pin in
      if length pin < 6 \<or> length pin > 8 \<or> \<not> list_all is_digit pin then (Inl Bad_pin, db)
      else update_device e Device_not_found (\<lambda>d. l_id d = normalize deviceID) (\<lambda>d. d\<lparr>l_pin := pin\<rparr>) db)"

definition DeviceLicenseExpiry :: "acc_env \<Rightarrow> nat \<Rightarrow> string \<Rightarrow> db \<Rightarrow> acc_error + int option" where
  "DeviceLicenseExpiry e j deviceID db =
     (if fault e j then Inl Sql_error
      else case find (\<lambda>d. l_id d = normalize deviceID) (licensed db) of None \<Rightarrow> Inl No_rows
      | Some d \<Rightarrow> if l_revoked d \<noteq> 0 then Inl Device_revoked else Inr (shown (l_until d)))"

definition HasActiveDeviceLicense :: "acc_env \<Rightarrow> string \<Rightarrow> db \<Rightarrow> bool" where
  "HasActiveDeviceLicense e deviceID db =
     (case DeviceLicenseExpiry e 0 deviceID db of Inr (Some t) \<Rightarrow> t * 1000000000 > clock e 0 | _ \<Rightarrow> False)"

definition IsPermanentDeviceLicense :: "int option \<Rightarrow> bool" where
  "IsPermanentDeviceLicense expiry = (case expiry of None \<Rightarrow> False | Some t \<Rightarrow> t \<ge> permanentDeviceLicenseUnix)"

definition EnsurePermanentDeviceLicense :: "acc_env \<Rightarrow> string \<Rightarrow> db \<Rightarrow> (acc_error + bool) \<times> db" where
  "EnsurePermanentDeviceLicense e deviceID db =
     (let P = (\<lambda>d. l_id d = normalize deviceID \<and> l_revoked d = 0 \<and> l_until d \<le> unix (clock e 0)) in
      if fault e 0 then (Inl Sql_error, db)
      else (Inr (affected P (licensed db) = 1),
        db\<lparr>licensed := update_rows P (\<lambda>d. d\<lparr>l_until := permanentDeviceLicenseUnix\<rparr>) (licensed db)\<rparr>))"

definition DeviceAutoActivation :: "acc_env \<Rightarrow> db \<Rightarrow> acc_error + bool" where
  "DeviceAutoActivation e db =
     (if fault e 0 then Inl Sql_error
      else Inr (map_of (settings db) ''device_auto_activation'' = Some ''1''))"

definition SetDeviceAutoActivation :: "acc_env \<Rightarrow> bool \<Rightarrow> db \<Rightarrow> (acc_error + unit) \<times> db" where
  "SetDeviceAutoActivation e enabled db =
     (if fault e 0 then (Inl Sql_error, db)
      else (Inr (), db\<lparr>settings :=
        AList.update ''device_auto_activation'' (if enabled then ''1'' else ''0'') (settings db)\<rparr>))"

definition RedeemDeviceActivationKey :: "acc_env \<Rightarrow> string \<Rightarrow> string \<Rightarrow> db \<Rightarrow> (acc_error + int) \<times> db" where
  "RedeemDeviceActivationKey e deviceID key db =
     (let deviceID = normalize deviceID in
      if fault e 0 \<or> fault e 1 then (Inl Sql_error, db)
      else case find (\<lambda>d. l_id d = deviceID) (licensed db) of None \<Rightarrow> (Inl Not_connected, db)
      | Some d \<Rightarrow>
        if l_revoked d \<noteq> 0 then (Inl Device_revoked, db)
        else if l_until d \<ge> permanentDeviceLicenseUnix then (Inl Already_permanent, db)
        else (case check_key e 2 key db of Inl err \<Rightarrow> (Inl err, db)
          | Inr k \<Rightarrow>
            let newExpiry = max (unix (clock e 0)) (l_until d) + k_duration k in
            (case consume_key e 3 key (''device:'' @ deviceID) db of Inl err \<Rightarrow> (Inl err, db)
             | Inr tx \<Rightarrow>
               if fault e 4 \<or> fault e 5 then (Inl Sql_error, db)
               else (Inr newExpiry, tx\<lparr>licensed := update_rows (\<lambda>d. l_id d = deviceID)
                 (\<lambda>d. d\<lparr>l_until := newExpiry\<rparr>) (licensed tx)\<rparr>))))"

definition GrantDeviceLicense :: "acc_env \<Rightarrow> string \<Rightarrow> nanos \<Rightarrow> db \<Rightarrow> (acc_error + int option) \<times> db" where
  "GrantDeviceLicense e deviceID duration db =
     (if \<not> valid_duration duration then (Inl Bad_duration, db)
      else
        let P = (\<lambda>d. l_id d = normalize deviceID); t = unix (clock e 0); seconds = duration div 1000000000;
            grant = (\<lambda>d. d\<lparr>l_until :=
                (if l_until d \<ge> permanentDeviceLicenseUnix then l_until d
                 else if l_until d > t then l_until d + seconds else t + seconds),
              l_revoked := 0\<rparr>);
            db' = db\<lparr>licensed := update_rows P grant (licensed db)\<rparr>
        in if fault e 0 then (Inl Sql_error, db)
           else if affected P (licensed db) \<noteq> 1 then (Inl Device_not_found, db')
           else (DeviceLicenseExpiry e 1 (normalize deviceID) db', db'))"

definition RevokeLicensedDevice :: "acc_env \<Rightarrow> string \<Rightarrow> db \<Rightarrow> (acc_error + unit) \<times> db" where
  "RevokeLicensedDevice e deviceID db =
     update_device e Device_not_found (\<lambda>d. l_id d = normalize deviceID \<and> l_revoked d = 0)
       (\<lambda>d. d\<lparr>l_revoked := unix (clock e 0)\<rparr>) db"

definition UnrevokeLicensedDevice :: "acc_env \<Rightarrow> string \<Rightarrow> db \<Rightarrow> (acc_error + unit) \<times> db" where
  "UnrevokeLicensedDevice e deviceID db =
     update_device e Device_not_found (\<lambda>d. l_id d = normalize deviceID \<and> l_revoked d > 0)
       (\<lambda>d. d\<lparr>l_revoked := 0\<rparr>) db"

definition DeleteLicensedDevice :: "acc_env \<Rightarrow> string \<Rightarrow> db \<Rightarrow> (acc_error + unit) \<times> db" where
  "DeleteLicensedDevice e deviceID db =
     (let P = (\<lambda>d. l_id d = normalize deviceID)
      in exec_one e 0 Device_not_found (affected P (licensed db)) db
           (db\<lparr>licensed := filter (\<lambda>d. \<not> P d) (licensed db)\<rparr>))"

definition ListLicensedDevices :: "acc_env \<Rightarrow> int \<Rightarrow> db \<Rightarrow> acc_error + (licensed_row \<times> string) list" where
  "ListLicensedDevices e limit db =
     (let limit = (if limit \<le> 0 \<or> limit > 5000 then 500 else limit) in
      if fault e 0 \<or> fault e 1 then Inl Sql_error
      else Inr (map (\<lambda>d. (d, case map_of (codes db) (l_id d) of None \<Rightarrow> [] | Some c \<Rightarrow> c))
        (newest l_seen (nat limit) (licensed db))))"

section \<open>Bound devices\<close>

definition BindDevice :: "acc_env \<Rightarrow> string \<Rightarrow> string \<Rightarrow> bytes \<Rightarrow> string \<Rightarrow> db \<Rightarrow> (acc_error + unit) \<times> db" where
  "BindDevice e username deviceID publicKey name db =
     (let i = to_upper deviceID; t = unix (clock e 0) in
      if length publicKey \<noteq> 32 \<or> \<not> equal_fold (DeviceID (prims e) publicKey) deviceID then (Inl Id_mismatch, db)
      else if fault e 0 \<or> fault e 1 then (Inl Sql_error, db)
      else case find (\<lambda>d. d_id d = i) (devices db) of
        None \<Rightarrow>
          if fault e 2 \<or> \<not> (\<exists>r \<in> set (accounts db). a_name r = username) \<or> fault e 3 then (Inl Sql_error, db)
          else (Inr (), db\<lparr>devices := devices db @ [\<lparr>d_id = i, d_owner = username, d_key = publicKey,
            d_name = name, d_approved = t, d_seen = t, d_revoked = 0\<rparr>]\<rparr>)
      | Some d \<Rightarrow>
          if d_owner d \<noteq> username then (Inl Foreign_device, db)
          else if d_key d \<noteq> publicKey then (Inl Identity_changed, db)
          else if d_revoked d \<noteq> 0 then (Inl Device_revoked, db)
          else if fault e 2 \<or> fault e 3 then (Inl Sql_error, db)
          else (Inr (), db\<lparr>devices := update_rows (\<lambda>d. d_id d = i)
            (\<lambda>d. d\<lparr>d_seen := t, d_name := (if name = [] then d_name d else name)\<rparr>) (devices db)\<rparr>))"

definition OwnsDevice :: "acc_env \<Rightarrow> string \<Rightarrow> string \<Rightarrow> db \<Rightarrow> bool" where
  "OwnsDevice e username deviceID db =
     (\<not> fault e 0 \<and> (\<exists>d \<in> set (devices db). d_owner d = username \<and> d_id d = to_upper deviceID \<and> d_revoked d = 0))"

definition TouchDevice :: "acc_env \<Rightarrow> string \<Rightarrow> db \<Rightarrow> db" where
  "TouchDevice e deviceID db =
     (if fault e 0 then db
      else db\<lparr>devices := update_rows (\<lambda>d. d_id d = to_upper deviceID) (\<lambda>d. d\<lparr>d_seen := unix (clock e 0)\<rparr>) (devices db)\<rparr>)"

definition ListDevices :: "acc_env \<Rightarrow> string \<Rightarrow> db \<Rightarrow> acc_error + (string \<times> string \<times> int) list" where
  "ListDevices e username db =
     (if fault e 0 \<or> fault e 1 then Inl Sql_error
      else let rs = filter (\<lambda>d. d_owner d = username \<and> d_revoked d = 0) (devices db)
           in Inr (map (\<lambda>d. (d_id d, d_name d, d_seen d)) (newest d_seen (length rs) rs)))"

definition RevokeDevice :: "acc_env \<Rightarrow> string \<Rightarrow> string \<Rightarrow> db \<Rightarrow> (acc_error + unit) \<times> db" where
  "RevokeDevice e username deviceID db =
     (let P = (\<lambda>d. d_owner d = username \<and> d_id d = to_upper deviceID \<and> d_revoked d = 0)
      in exec_one e 0 Device_not_found (affected P (devices db)) db
           (db\<lparr>devices := update_rows P (\<lambda>d. d\<lparr>d_revoked := unix (clock e 0)\<rparr>) (devices db)\<rparr>))"

section \<open>Audit log\<close>

text \<open>\<open>at\<close> is \<open>None\<close> for the zero time.\<close>

definition Audit :: "acc_env \<Rightarrow> nanos option \<Rightarrow> audit_row \<Rightarrow> db \<Rightarrow> db" where
  "Audit e at entry db =
     (let t = (case at of None \<Rightarrow> clock e 0 | Some t \<Rightarrow> t) in
      if fault e 0 then db else db\<lparr>audit := audit db @ [entry\<lparr>au_at := unix t\<rparr>]\<rparr>)"

definition RecentAudit :: "acc_env \<Rightarrow> string \<Rightarrow> int \<Rightarrow> db \<Rightarrow> acc_error + audit_row list" where
  "RecentAudit e username limit db =
     (let limit = (if limit \<le> 0 \<or> limit > 500 then 100 else limit) in
      if fault e 0 \<or> fault e 1 then Inl Sql_error
      else Inr (newest au_at (nat limit) (filter (\<lambda>a. au_user a = username) (audit db))))"

definition RecentAuditAll :: "acc_env \<Rightarrow> int \<Rightarrow> db \<Rightarrow> acc_error + audit_row list" where
  "RecentAuditAll e limit db =
     (let limit = (if limit \<le> 0 \<or> limit > 1000 then 200 else limit) in
      if fault e 0 \<or> fault e 1 then Inl Sql_error
      else Inr (newest au_at (nat limit) (audit db)))"

section \<open>Device codes\<close>

definition ValidDeviceCode :: "string \<Rightarrow> bool" where
  "ValidDeviceCode code \<longleftrightarrow> length code = 9 \<and> hd code \<noteq> CHR ''0'' \<and> list_all is_digit code"

text \<open>\<open>INSERT OR IGNORE\<close> into the table of codes: a taken identifier or code changes nothing, nor
  does a code of the wrong length.\<close>

definition insert_code :: "string \<Rightarrow> string \<Rightarrow> db \<Rightarrow> db" where
  "insert_code i code db =
     (if map_of (codes db) i \<noteq> None \<or> code \<in> snd ` set (codes db) \<or> length code \<noteq> 9 then db
      else db\<lparr>codes := codes db @ [(i, code)]\<rparr>)"

text \<open>The allocation loop: draw \<open>k\<close> (\<open>rand.Int\<close> stays below its bound) and its two statements \<open>2 * k + 2\<close> and \<open>2 * k + 3\<close>.\<close>

fun allocate_code :: "acc_env \<Rightarrow> string \<Rightarrow> nat \<Rightarrow> nat \<Rightarrow> db \<Rightarrow> (acc_error + string) \<times> db" where
  "allocate_code e i k 0 db = (Inl Code_allocation_failed, db)"
| "allocate_code e i k (Suc tries) db =
     (case draw_int e k of None \<Rightarrow> (Inl Random_error, db)
      | Some n \<Rightarrow>
          let code = decimal 9 (100000000 + n mod 900000000) in
          if fault e (2 * k + 2) then (Inl Sql_error, db)
          else let db = insert_code i code db in
            if fault e (2 * k + 3) then (Inl Sql_error, db)
            else case map_of (codes db) i of
              Some c \<Rightarrow> (Inr c, db)
            | None \<Rightarrow> allocate_code e i (Suc k) tries db)"

definition EnsureDeviceCode :: "acc_env \<Rightarrow> string \<Rightarrow> db \<Rightarrow> (acc_error + string) \<times> db" where
  "EnsureDeviceCode e i db =
     (let i = normalize i in
      if fault e 0 then (Inl Sql_error, db)
      else case map_of (codes db) i of
        Some c \<Rightarrow> (Inr c, db)
      | None \<Rightarrow>
          if fault e 1 then (Inl Sql_error, db)
          else if \<not> (\<exists>d \<in> set (licensed db). l_id d = i) then (Inl No_rows, db)
          else allocate_code e i 0 100 db)"

definition ResolveDeviceCode :: "acc_env \<Rightarrow> string \<Rightarrow> db \<Rightarrow> acc_error + string" where
  "ResolveDeviceCode e code db =
     (if \<not> ValidDeviceCode code then Inl Bad_code
      else if fault e 0 then Inl Sql_error
      else case find (\<lambda>(i, c). c = code \<and> (\<exists>d \<in> set (licensed db). l_id d = i)) (codes db) of
        None \<Rightarrow> Inl No_rows | Some (i, c) \<Rightarrow> Inr i)"

definition DevicePublicLabel :: "acc_env \<Rightarrow> string \<Rightarrow> db \<Rightarrow> string \<times> string" where
  "DevicePublicLabel e i db =
     (if fault e 0 then ([], [])
      else case find (\<lambda>d. l_id d = i) (licensed db) of None \<Rightarrow> ([], [])
      | Some d \<Rightarrow> (l_name d, case map_of (codes db) i of None \<Rightarrow> [] | Some c \<Rightarrow> c))"

text \<open>\<open>BackfillDeviceCodes\<close>: \<open>es k\<close> is the environment of the \<open>k\<close>-th allocation.\<close>

fun backfill :: "(nat \<Rightarrow> acc_env) \<Rightarrow> nat \<Rightarrow> string list \<Rightarrow> db \<Rightarrow> (acc_error + unit) \<times> db" where
  "backfill es k [] db = (Inr (), db)"
| "backfill es k (i # is) db =
     (case EnsureDeviceCode (es k) i db of
        (Inl err, db) \<Rightarrow> (Inl err, db)
      | (Inr _, db) \<Rightarrow> backfill es (Suc k) is db)"

definition BackfillDeviceCodes :: "acc_env \<Rightarrow> (nat \<Rightarrow> acc_env) \<Rightarrow> db \<Rightarrow> (acc_error + unit) \<times> db" where
  "BackfillDeviceCodes e es db =
     (if fault e 0 \<or> fault e 1 then (Inl Sql_error, db)
      else backfill es 0 (map l_id (filter (\<lambda>d. map_of (codes db) (l_id d) = None) (licensed db))) db)"

section \<open>Operations as events\<close>

text \<open>Every operation that writes; \<open>redeems\<close> tells the hash of the key that a call redeemed.\<close>

datatype acc_event =
    E_Register acc_env string string
  | E_Login acc_env string string
  | E_Logout acc_env string
  | E_Generate acc_env nanos nanos
  | E_RevokeKey acc_env string
  | E_RevokeFingerprint acc_env string
  | E_Redeem acc_env string string
  | E_RegisterDevice acc_env string bytes string
  | E_Rename acc_env string string
  | E_Touch acc_env string "nanos option"
  | E_Pin acc_env string string
  | E_EnsurePermanent acc_env string
  | E_SetAuto acc_env bool
  | E_RedeemDevice acc_env string string
  | E_Grant acc_env string nanos
  | E_Revoke acc_env string
  | E_Unrevoke acc_env string
  | E_Delete acc_env string
  | E_Bind acc_env string string bytes string
  | E_TouchBound acc_env string
  | E_RevokeBound acc_env string string
  | E_Audit acc_env "nanos option" audit_row
  | E_Code acc_env string
  | E_Backfill acc_env "nat \<Rightarrow> acc_env"

fun acc_step :: "db \<Rightarrow> acc_event \<Rightarrow> db" where
  "acc_step db (E_Register e u p) = snd (Register e u p db)"
| "acc_step db (E_Login e u p) = snd (Login e u p db)"
| "acc_step db (E_Logout e t) = snd (Logout e t db)"
| "acc_step db (E_Generate e d w) = snd (GenerateActivationKey e d w db)"
| "acc_step db (E_RevokeKey e k) = snd (RevokeActivationKey e k db)"
| "acc_step db (E_RevokeFingerprint e f) = snd (RevokeActivationKeyByFingerprint e f db)"
| "acc_step db (E_Redeem e u k) = snd (RedeemActivationKey e u k db)"
| "acc_step db (E_RegisterDevice e i p n) = snd (RegisterLicensedDeviceNamed e i p n db)"
| "acc_step db (E_Rename e i n) = snd (RenameLicensedDevice e i n db)"
| "acc_step db (E_Touch e i t) = snd (TouchLicensedDevice e i t db)"
| "acc_step db (E_Pin e i p) = snd (UpdateLicensedDevicePIN e i p db)"
| "acc_step db (E_EnsurePermanent e i) = snd (EnsurePermanentDeviceLicense e i db)"
| "acc_step db (E_SetAuto e b) = snd (SetDeviceAutoActivation e b db)"
| "acc_step db (E_RedeemDevice e i k) = snd (RedeemDeviceActivationKey e i k db)"
| "acc_step db (E_Grant e i d) = snd (GrantDeviceLicense e i d db)"
| "acc_step db (E_Revoke e i) = snd (RevokeLicensedDevice e i db)"
| "acc_step db (E_Unrevoke e i) = snd (UnrevokeLicensedDevice e i db)"
| "acc_step db (E_Delete e i) = snd (DeleteLicensedDevice e i db)"
| "acc_step db (E_Bind e u i p n) = snd (BindDevice e u i p n db)"
| "acc_step db (E_TouchBound e i) = TouchDevice e i db"
| "acc_step db (E_RevokeBound e u i) = snd (RevokeDevice e u i db)"
| "acc_step db (E_Audit e t a) = Audit e t a db"
| "acc_step db (E_Code e i) = snd (EnsureDeviceCode e i db)"
| "acc_step db (E_Backfill e es) = snd (BackfillDeviceCodes e es db)"

fun redeems :: "db \<Rightarrow> acc_event \<Rightarrow> string list" where
  "redeems db (E_Redeem e u k) =
     (case fst (RedeemActivationKey e u k db) of Inr _ \<Rightarrow> [hashToken e (normalize k)] | Inl _ \<Rightarrow> [])"
| "redeems db (E_RedeemDevice e i k) =
     (case fst (RedeemDeviceActivationKey e i k db) of Inr _ \<Rightarrow> [hashToken e (normalize k)] | Inl _ \<Rightarrow> [])"
| "redeems db _ = []"

fun redeemed_in :: "db \<Rightarrow> acc_event list \<Rightarrow> string list" where
  "redeemed_in db [] = []"
| "redeemed_in db (ev # evs) = redeems db ev @ redeemed_in (acc_step db ev) evs"

definition empty_db :: db where
  "empty_db = \<lparr>accounts = [], sessions = [], keys = [], licensed = [], devices = [], codes = [], settings = [],
     audit = []\<rparr>"

end
