(* ===== verification/Account_Props.thy ===== *)
theory Account_Props
  imports Account
begin

text \<open>
  What the account store guarantees over any sequence of operations and failing statements: an
  activation key is redeemed at most once, licences are never shortened, a revoked device has no
  licence until it is let in again, device codes are unique and never recycled, an identity never
  changes its owner or key, and a session lives from its login to its logout.
\<close>

section \<open>Rows\<close>

lemma update_rows_map [simp]: "(\<And>r. g (f r) = g r) \<Longrightarrow> map g (update_rows P f rs) = map g rs"
  by (auto simp: update_rows_def)

lemma update_rows_mem:
  "r' \<in> set (update_rows P f rs) \<longleftrightarrow> (\<exists>r \<in> set rs. r' = (if P r then f r else r))"
  by (auto simp: update_rows_def)

lemma update_rows_get: "r \<in> set rs \<Longrightarrow> (if P r then f r else r) \<in> set (update_rows P f rs)"
  by (auto simp: update_rows_def)

lemma find_mem: "find P xs = Some x \<Longrightarrow> x \<in> set xs \<and> P x"
  by (auto simp: find_Some_iff)

lemma find_unique:
  "distinct (map g xs) \<Longrightarrow> x \<in> set xs \<Longrightarrow> find (\<lambda>y. g y = g x) xs = Some x"
  by (induction xs) force+

lemmas acc_defs = Register_def Login_def Logout_def GenerateActivationKey_def RevokeActivationKey_def
  RevokeActivationKeyByFingerprint_def RegisterLicensedDeviceNamed_def RenameLicensedDevice_def
  TouchLicensedDevice_def UpdateLicensedDevicePIN_def EnsurePermanentDeviceLicense_def
  SetDeviceAutoActivation_def GrantDeviceLicense_def RevokeLicensedDevice_def UnrevokeLicensedDevice_def
  DeleteLicensedDevice_def BindDevice_def TouchDevice_def RevokeDevice_def Audit_def update_device_def exec_one_def

lemmas acc_splits = option.split sum.split prod.split

section \<open>Which table an operation touches\<close>

lemma consume_key_frame:
  "consume_key e j key w db = Inr tx \<Longrightarrow> accounts tx = accounts db \<and> licensed tx = licensed db
     \<and> devices tx = devices db \<and> codes tx = codes db \<and> sessions tx = sessions db"
  by (auto simp: consume_key_def Let_def split: if_splits)

lemma allocate_code_frame:
  "keys (snd (allocate_code e i k n db)) = keys db \<and> licensed (snd (allocate_code e i k n db)) = licensed db
   \<and> devices (snd (allocate_code e i k n db)) = devices db \<and> accounts (snd (allocate_code e i k n db)) = accounts db
   \<and> sessions (snd (allocate_code e i k n db)) = sessions db"
proof (induction n arbitrary: k db)
  case (Suc n)
  have "keys (insert_code i c db) = keys db \<and> licensed (insert_code i c db) = licensed db
     \<and> devices (insert_code i c db) = devices db \<and> accounts (insert_code i c db) = accounts db
     \<and> sessions (insert_code i c db) = sessions db" for c
    by (simp add: insert_code_def)
  then show ?case using Suc by (auto simp: Let_def split: option.split)
qed simp

lemma EnsureDeviceCode_frame:
  "keys (snd (EnsureDeviceCode e i db)) = keys db \<and> licensed (snd (EnsureDeviceCode e i db)) = licensed db
   \<and> devices (snd (EnsureDeviceCode e i db)) = devices db \<and> accounts (snd (EnsureDeviceCode e i db)) = accounts db
   \<and> sessions (snd (EnsureDeviceCode e i db)) = sessions db"
  using allocate_code_frame[of e "normalize i" 0 100 db]
  by (simp add: EnsureDeviceCode_def Let_def del: allocate_code.simps split: option.split)

lemma backfill_frame:
  "keys (snd (backfill es k is db)) = keys db \<and> licensed (snd (backfill es k is db)) = licensed db
   \<and> devices (snd (backfill es k is db)) = devices db \<and> accounts (snd (backfill es k is db)) = accounts db
   \<and> sessions (snd (backfill es k is db)) = sessions db"
proof (induction "is" arbitrary: k db)
  case (Cons i "is")
  obtain r db' where E: "EnsureDeviceCode (es k) i db = (r, db')" by fastforce
  then show ?case using Cons[of "Suc k" db'] EnsureDeviceCode_frame[of "es k" i db] by (cases r) auto
qed simp

lemma Backfill_frame:
  "keys (snd (BackfillDeviceCodes e es db)) = keys db \<and> licensed (snd (BackfillDeviceCodes e es db)) = licensed db
   \<and> devices (snd (BackfillDeviceCodes e es db)) = devices db"
  by (simp add: BackfillDeviceCodes_def backfill_frame)

lemma Redeem_frame:
  "licensed (snd (RedeemActivationKey e u k db)) = licensed db
   \<and> devices (snd (RedeemActivationKey e u k db)) = devices db \<and> codes (snd (RedeemActivationKey e u k db)) = codes db"
  by (auto simp: RedeemActivationKey_def Let_def dest: consume_key_frame split: sum.split option.split)

lemma RedeemDevice_frame:
  "devices (snd (RedeemDeviceActivationKey e i k db)) = devices db
   \<and> codes (snd (RedeemDeviceActivationKey e i k db)) = codes db"
  by (auto simp: RedeemDeviceActivationKey_def Let_def dest: consume_key_frame split: sum.split option.split)

section \<open>Keys are used once\<close>

definition used :: "key_row \<Rightarrow> bool" where
  "used k \<longleftrightarrow> k_by k \<noteq> [] \<or> k_at k \<noteq> 0"

definition key_used :: "db \<Rightarrow> string \<Rightarrow> bool" where
  "key_used db h \<longleftrightarrow> (\<exists>k \<in> set (keys db). k_hash k = h \<and> used k)"

definition keys_ok :: "db \<Rightarrow> bool" where
  "keys_ok db \<longleftrightarrow> distinct (map k_hash (keys db)) \<and> (\<forall>k \<in> set (keys db). 3600 \<le> k_duration k)"

definition mark :: "string \<Rightarrow> string \<Rightarrow> int \<Rightarrow> key_row list \<Rightarrow> key_row list" where
  "mark h w t = update_rows (\<lambda>r. k_hash r = h \<and> k_by r = [] \<and> k_revoked r = 0) (\<lambda>r. r\<lparr>k_by := w, k_at := t\<rparr>)"

lemma check_key_Inr:
  "check_key e j key db = Inr k \<Longrightarrow> k \<in> set (keys db) \<and> k_hash k = hashToken e (normalize key) \<and> \<not> used k
     \<and> k_revoked k = 0"
  by (auto simp: check_key_def used_def dest!: find_mem split: if_splits option.splits)

lemma redeem_keys:
  fixes e u key db
  defines "h \<equiv> hashToken e (normalize key)" and "out \<equiv> RedeemActivationKey e u key db"
  shows "(\<exists>err. fst out = Inl err) \<and> snd out = db
    \<or> (\<exists>t k r. fst out = Inr t \<and> keys (snd out) = mark h u (unix (clock e 0)) (keys db)
        \<and> k \<in> set (keys db) \<and> k_hash k = h \<and> \<not> used k \<and> k_revoked k = 0 \<and> r \<in> set (accounts db) \<and> a_name r = u
        \<and> t = max (unix (clock e 0)) (a_until r) + k_duration k)"
  unfolding h_def out_def
  by (auto simp: RedeemActivationKey_def consume_key_def Let_def mark_def dest!: check_key_Inr find_mem
      split: sum.splits option.split if_splits)

lemma redeem_device_keys:
  fixes e i key db
  defines "h \<equiv> hashToken e (normalize key)" and "out \<equiv> RedeemDeviceActivationKey e i key db"
  shows "(\<exists>err. fst out = Inl err) \<and> snd out = db
    \<or> (\<exists>t k d. fst out = Inr t \<and> keys (snd out) = mark h (''device:'' @ normalize i) (unix (clock e 0)) (keys db)
        \<and> k \<in> set (keys db) \<and> k_hash k = h \<and> \<not> used k \<and> k_revoked k = 0 \<and> d \<in> set (licensed db)
        \<and> l_id d = normalize i \<and> l_revoked d = 0 \<and> find (\<lambda>d. l_id d = normalize i) (licensed db) = Some d
        \<and> t = max (unix (clock e 0)) (l_until d) + k_duration k
        \<and> licensed (snd out) = update_rows (\<lambda>d. l_id d = normalize i) (\<lambda>d. d\<lparr>l_until := t\<rparr>) (licensed db))"
  unfolding h_def out_def
  by (auto simp: RedeemDeviceActivationKey_def consume_key_def Let_def mark_def dest: check_key_Inr find_mem
      split: sum.splits option.split if_splits)

text \<open>Operations that neither redeem nor create keys only set \<open>revoked_at\<close>.\<close>

lemma other_keys:
  assumes "\<And>e u k. ev \<noteq> E_Redeem e u k" "\<And>e i k. ev \<noteq> E_RedeemDevice e i k" "\<And>e d w. ev \<noteq> E_Generate e d w"
  shows "map (\<lambda>k. (k_hash k, k_duration k, k_by k, k_at k)) (keys (acc_step db ev)) =
    map (\<lambda>k. (k_hash k, k_duration k, k_by k, k_at k)) (keys db)"
  using assms
  by (cases ev) (auto simp: acc_defs Let_def EnsureDeviceCode_frame Backfill_frame split: acc_splits)


definition keys_inv :: "db \<Rightarrow> bool" where
  "keys_inv db \<longleftrightarrow> distinct (map k_hash (keys db)) \<and> (\<forall>k \<in> set (keys db). 3600 \<le> k_duration k)
     \<and> (\<forall>r \<in> set (accounts db). a_name r \<noteq> [])"

lemma mark_hashes [simp]: "map k_hash (mark h w t ks) = map k_hash ks" "map k_duration (mark h w t ks) = map k_duration ks"
  by (simp_all add: mark_def)

lemma mark_used: "w \<noteq> [] \<Longrightarrow> k \<in> set ks \<Longrightarrow> used k \<Longrightarrow> \<exists>k' \<in> set (mark h w t ks). k_hash k' = k_hash k \<and> used k'"
  using update_rows_get[of k ks "\<lambda>r. k_hash r = h \<and> k_by r = [] \<and> k_revoked r = 0" "\<lambda>r. r\<lparr>k_by := w, k_at := t\<rparr>"]
  unfolding mark_def by (rule bexI[rotated]) (auto simp: used_def)

lemma key_used_mark: "key_used db x \<Longrightarrow> keys db' = mark h w t (keys db) \<Longrightarrow> w \<noteq> [] \<Longrightarrow> key_used db' x"
  using mark_used[of w _ "keys db" h t] by (auto simp: key_used_def)

lemma mark_uses: "w \<noteq> [] \<Longrightarrow> k \<in> set ks \<Longrightarrow> \<not> used k \<Longrightarrow> k_revoked k = 0 \<Longrightarrow>
    \<exists>k' \<in> set (mark (k_hash k) w t ks). k_hash k' = k_hash k \<and> used k'"
  using update_rows_get[of k ks "\<lambda>r. k_hash r = k_hash k \<and> k_by r = [] \<and> k_revoked r = 0" "\<lambda>r. r\<lparr>k_by := w, k_at := t\<rparr>"]
  unfolding mark_def by (rule bexI[rotated]) (auto simp: used_def)

lemma map_inv_all: "map g xs = map g ys \<Longrightarrow> (\<And>a b. g a = g b \<Longrightarrow> P a = P b) \<Longrightarrow> (\<forall>x \<in> set xs. P x) = (\<forall>y \<in> set ys. P y)"
proof (induction xs arbitrary: ys)
  case (Cons x xs)
  obtain y zs where ys: "ys = y # zs" using Cons.prems(1) by (cases ys) simp_all
  have same: "g x = g y" "map g xs = map g zs" using Cons.prems(1) by (simp_all add: ys)
  have "P x = P y" by (rule Cons.prems(2)[OF same(1)])
  moreover have "(\<forall>x \<in> set xs. P x) = (\<forall>y \<in> set zs. P y)" by (rule Cons.IH[OF same(2) Cons.prems(2)])
  ultimately show ?case by (simp add: ys)
next
  case Nil
  have "ys = []" using Nil.prems(1) by simp
  then show ?case by simp
qed

lemma other_accounts:
  assumes "\<And>e u k. ev \<noteq> E_Redeem e u k" "\<And>e u p. ev \<noteq> E_Register e u p"
  shows "accounts (acc_step db ev) = accounts db"
  using assms
  by (cases ev) (auto simp: acc_defs Let_def EnsureDeviceCode_frame BackfillDeviceCodes_def backfill_frame
      GenerateActivationKey_def RedeemDeviceActivationKey_def dest: consume_key_frame split: acc_splits)

lemma accounts_names:
  assumes "\<forall>r \<in> set (accounts db). a_name r \<noteq> []"
  shows "\<forall>r \<in> set (accounts (acc_step db ev)). a_name r \<noteq> []"
proof -
  consider (redeem) e u k where "ev = E_Redeem e u k" | (reg) e u p where "ev = E_Register e u p"
    | (other) "\<And>e u k. ev \<noteq> E_Redeem e u k" "\<And>e u p. ev \<noteq> E_Register e u p" by blast
  then show ?thesis
  proof cases
    case redeem
    have "map a_name (accounts (snd (RedeemActivationKey e u k db))) = map a_name (accounts db)"
      by (auto simp: RedeemActivationKey_def Let_def dest: consume_key_frame split: sum.split option.split)
    from map_inv_all[OF this, of "\<lambda>r. a_name r \<noteq> []"] show ?thesis using redeem assms by simp
  next
    case reg
    then show ?thesis using assms
      by (auto simp: Register_def usernamePattern_def Let_def split: option.split)
  next
    case other
    then show ?thesis using assms by (simp add: other_accounts)
  qed
qed

lemma keys_inv_step [keeps]: "keys_inv db \<Longrightarrow> keys_inv (acc_step db ev)"
proof -
  assume inv: "keys_inv db"
  have names: "\<forall>r \<in> set (accounts (acc_step db ev)). a_name r \<noteq> []"
    using inv by (intro accounts_names) (simp add: keys_inv_def)
  have same: "keys_inv (acc_step db ev)"
    if "map k_hash (keys (acc_step db ev)) = map k_hash (keys db)"
      "map k_duration (keys (acc_step db ev)) = map k_duration (keys db)"
    using that names inv map_inv_all[OF that(2), of "\<lambda>k. 3600 \<le> k_duration k"] by (simp add: keys_inv_def)
  consider (redeem) e u k where "ev = E_Redeem e u k" | (device) e i k where "ev = E_RedeemDevice e i k"
    | (gen) e d w where "ev = E_Generate e d w"
    | (other) "\<And>e u k. ev \<noteq> E_Redeem e u k" "\<And>e i k. ev \<noteq> E_RedeemDevice e i k" "\<And>e d w. ev \<noteq> E_Generate e d w"
    by blast
  then show ?thesis
  proof cases
    case redeem
    then show ?thesis using redeem_keys[of e u k db] by (intro same) auto
  next
    case device
    then show ?thesis using redeem_device_keys[of e i k db] by (intro same) auto
  next
    case gen
    have "3600 \<le> d div 1000000000" if "valid_duration d"
      using that zdiv_mono1[of 3600000000000 d 1000000000] by (simp add: valid_duration_def)
    then show ?thesis using inv names gen
      by (auto simp: keys_inv_def GenerateActivationKey_def Let_def split: option.split)
  next
    case other
    note m = arg_cong[OF other_keys[of ev db, OF other], of "map fst"] arg_cong[OF other_keys[of ev db, OF other], of "map (fst \<circ> snd)"]
    show ?thesis by (rule same) (use m in \<open>simp_all add: comp_def\<close>)
  qed
qed

interpretation keyring: event_system acc_step keys_inv
  by unfold_locales (rule keys_inv_step)

lemma used_stays:
  assumes "keys_inv db" "key_used db h"
  shows "key_used (acc_step db ev) h"
proof -
  obtain k where k: "k \<in> set (keys db)" "k_hash k = h" "used k" using assms(2) by (auto simp: key_used_def)
  consider (redeem) e u key where "ev = E_Redeem e u key" | (device) e i key where "ev = E_RedeemDevice e i key"
    | (gen) e d w where "ev = E_Generate e d w"
    | (other) "\<And>e u k. ev \<noteq> E_Redeem e u k" "\<And>e i k. ev \<noteq> E_RedeemDevice e i k" "\<And>e d w. ev \<noteq> E_Generate e d w"
    by blast
  then show ?thesis
  proof cases
    case redeem
    have "u \<noteq> []" if "r \<in> set (accounts db)" "a_name r = u" for r using that assms(1) by (auto simp: keys_inv_def)
    with redeem assms(2) redeem_keys[of e u key db] show ?thesis by (auto intro: key_used_mark)
  next
    case device
    with assms(2) redeem_device_keys[of e i key db] show ?thesis by (auto intro: key_used_mark)
  next
    case gen
    with k show ?thesis by (auto simp: key_used_def GenerateActivationKey_def Let_def split: option.split)
  next
    case other
    have "(k_hash k, k_duration k, k_by k, k_at k) \<in> set (map (\<lambda>k. (k_hash k, k_duration k, k_by k, k_at k)) (keys (acc_step db ev)))"
      unfolding other_keys[of ev db, OF other] using k(1) by force
    with k(2,3) show ?thesis by (auto simp: key_used_def used_def)
  qed
qed

lemma redeems_unused:
  assumes "keys_inv db" "h \<in> set (redeems db ev)"
  shows "\<not> key_used db h \<and> key_used (acc_step db ev) h \<and> redeems db ev = [h]"
proof -
  have unique: "\<not> key_used db h" if "k \<in> set (keys db)" "k_hash k = h" "\<not> used k" for k
    using that assms(1) by (auto simp: keys_inv_def key_used_def distinct_map inj_on_def)
  consider (redeem) e u key where "ev = E_Redeem e u key" | (device) e i key where "ev = E_RedeemDevice e i key"
    using assms(2) by (cases ev) auto
  then show ?thesis
  proof cases
    case redeem
    then obtain t where "fst (RedeemActivationKey e u key db) = Inr t" and h: "h = hashToken e (normalize key)"
      using assms(2) by (cases "fst (RedeemActivationKey e u key db)") auto
    then obtain k r where k: "keys (snd (RedeemActivationKey e u key db)) = mark h u (unix (clock e 0)) (keys db)"
      "k \<in> set (keys db)" "k_hash k = h" "\<not> used k" "k_revoked k = 0" "r \<in> set (accounts db)" "a_name r = u"
      using redeem_keys[of e u key db] by auto
    then have "u \<noteq> []" using assms(1) by (auto simp: keys_inv_def)
    with k redeem h show ?thesis
      using mark_uses[of u k "keys db" "unix (clock e 0)"] unique[of k] \<open>fst _ = Inr t\<close> by (simp add: key_used_def)
  next
    case device
    then obtain t where "fst (RedeemDeviceActivationKey e i key db) = Inr t" and h: "h = hashToken e (normalize key)"
      using assms(2) by (cases "fst (RedeemDeviceActivationKey e i key db)") auto
    then obtain k where k: "keys (snd (RedeemDeviceActivationKey e i key db)) =
        mark h (''device:'' @ normalize i) (unix (clock e 0)) (keys db)"
      "k \<in> set (keys db)" "k_hash k = h" "\<not> used k" "k_revoked k = 0"
      using redeem_device_keys[of e i key db] by auto
    with device h show ?thesis
      using mark_uses[of "''device:'' @ normalize i" k "keys db" "unix (clock e 0)"] unique[of k] \<open>fst _ = Inr t\<close>
      by (simp add: key_used_def)
  qed
qed

lemma redeemed_once:
  "keys_inv db \<Longrightarrow> distinct (redeemed_in db evs) \<and> (\<forall>h \<in> set (redeemed_in db evs). \<not> key_used db h)"
proof (induction evs arbitrary: db)
  case (Cons ev evs)
  have IH: "distinct (redeemed_in (acc_step db ev) evs)"
    "\<forall>h \<in> set (redeemed_in (acc_step db ev) evs). \<not> key_used (acc_step db ev) h"
    using Cons.IH[OF keys_inv_step[OF Cons.prems]] by auto
  show ?case
  proof (cases "redeems db ev")
    case Nil
    then show ?thesis using IH used_stays[OF Cons.prems] by auto
  next
    case (Cons h hs)
    then have "\<not> key_used db h \<and> key_used (acc_step db ev) h \<and> redeems db ev = [h]"
      using redeems_unused[OF Cons.prems, of h ev] by simp
    then show ?thesis using IH used_stays[OF \<open>keys_inv db\<close>] by auto
  qed
qed simp

end
