(* ===== verification/Account_Licences.thy ===== *)
theory Account_Licences
  imports Account_Props SecureConn_Props "HOL-Library.Sublist"
begin

text \<open>
  The properties of the account store: keys, licences, revocation, device codes, ownership and
  sessions, over arbitrary sequences of operations.
\<close>

section \<open>Keys\<close>

text \<open>C9: An activation key is redeemed at most once. In every history of the store, whatever
  statements fail and whether keys are redeemed for accounts or for devices, no key hash is
  redeemed twice.\<close>

theorem activation_keys_redeemed_once: "distinct (redeemed_in empty_db evs)"
  using redeemed_once[of empty_db evs] by (simp add: keys_inv_def empty_db_def)

section \<open>Rows by identifier\<close>

lemma find_update:
  "(\<And>r. g (f r) = g r) \<Longrightarrow> find (\<lambda>r. g r = i) (update_rows P f rs) =
     map_option (\<lambda>r. if P r then f r else r) (find (\<lambda>r. g r = i) rs)"
  by (induction rs) (auto simp: update_rows_def)

lemma find_append: "find P (xs @ ys) = (case find P xs of None \<Rightarrow> find P ys | Some x \<Rightarrow> Some x)"
  by (induction xs) auto

lemma find_filter_other: "i \<noteq> j \<Longrightarrow> find (\<lambda>r. g r = i) (filter (\<lambda>r. g r \<noteq> j) rs) = find (\<lambda>r. g r = i) rs"
  by (induction rs) auto

definition dev :: "db \<Rightarrow> string \<Rightarrow> licensed_row option" where
  "dev db i = find (\<lambda>d. l_id d = i) (licensed db)"

fun deletes :: "acc_event \<Rightarrow> string \<Rightarrow> bool" where
  "deletes (E_Delete e j) i \<longleftrightarrow> normalize j = i"
| "deletes _ i \<longleftrightarrow> False"

text \<open>The operations that let a disabled device in again.\<close>

fun lets_in :: "acc_event \<Rightarrow> string \<Rightarrow> bool" where
  "lets_in (E_Delete e j) i \<longleftrightarrow> normalize j = i"
| "lets_in (E_Unrevoke e j) i \<longleftrightarrow> normalize j = i"
| "lets_in (E_Grant e j d) i \<longleftrightarrow> normalize j = i"
| "lets_in _ i \<longleftrightarrow> False"

text \<open>Sane clocks: nobody activates a device permanently after the year 9999.\<close>

fun before_9999 :: "acc_event \<Rightarrow> bool" where
  "before_9999 (E_EnsurePermanent e i) \<longleftrightarrow> unix (clock e 0) \<le> permanentDeviceLicenseUnix"
| "before_9999 _ \<longleftrightarrow> True"

text \<open>What an operation does to a device's row.\<close>

definition dev_moves :: "db \<Rightarrow> acc_event \<Rightarrow> string \<Rightarrow> licensed_row \<Rightarrow> licensed_row \<Rightarrow> bool" where
  "dev_moves db ev i d d' \<longleftrightarrow> l_id d' = l_id d \<and> l_key d' = l_key d
     \<and> (keys_inv db \<and> before_9999 ev \<longrightarrow> l_until d \<le> l_until d')
     \<and> (l_revoked d \<noteq> 0 \<and> \<not> lets_in ev i \<longrightarrow> l_revoked d' \<noteq> 0 \<and> l_until d' = l_until d)"

lemma dev_moves_refl [simp]: "dev_moves db ev i d d"
  by (simp add: dev_moves_def)

lemma dev_update:
  assumes "dev db i = Some d" "licensed (acc_step db ev) = update_rows P f (licensed db)"
    and "\<And>r. l_id (f r) = l_id r" "P d \<Longrightarrow> dev_moves db ev i d (f d)"
  shows "\<exists>d'. dev (acc_step db ev) i = Some d' \<and> dev_moves db ev i d d'"
  using assms find_update[of l_id f i P "licensed db"] by (auto simp: dev_def)

lemma dev_same: "dev db i = Some d \<Longrightarrow> licensed (acc_step db ev) = licensed db \<Longrightarrow>
    \<exists>d'. dev (acc_step db ev) i = Some d' \<and> dev_moves db ev i d d'"
  by (simp add: dev_def)

lemma dev_maybe:
  assumes "dev db i = Some d"
    and "licensed (acc_step db ev) = licensed db \<or> licensed (acc_step db ev) = update_rows P f (licensed db)"
    and "\<And>r. l_id (f r) = l_id r" "P d \<Longrightarrow> dev_moves db ev i d (f d)"
  shows "\<exists>d'. dev (acc_step db ev) i = Some d' \<and> dev_moves db ev i d d'"
  using dev_same[OF assms(1), of ev] dev_update[OF assms(1) _ assms(3,4), of P] assms(2) by blast

lemma dev_step:
  assumes "dev db i = Some d" "\<not> deletes ev i"
  shows "\<exists>d'. dev (acc_step db ev) i = Some d' \<and> dev_moves db ev i d d'"
proof (cases ev)
  case (E_RegisterDevice e j p n)
  have "\<exists>d'. dev (acc_step db ev) i = Some d' \<and> dev_moves db ev i d d'"
    if "licensed (acc_step db ev) = update_rows (\<lambda>d. l_id d = normalize j)
      (\<lambda>d. d\<lparr>l_seen := x, l_name := (if y = [] then l_name d else y)\<rparr>) (licensed db)" for x y
    by (rule dev_update[OF assms(1) that]) (simp_all add: dev_moves_def)
  moreover have "\<exists>d'. dev (acc_step db ev) i = Some d' \<and> dev_moves db ev i d d'"
    if "licensed (acc_step db ev) = licensed db @ [r]" for r
    using that assms(1) by (simp add: dev_def find_append)
  moreover have "(\<exists>x y. licensed (acc_step db ev) = update_rows (\<lambda>d. l_id d = normalize j)
      (\<lambda>d. d\<lparr>l_seen := x, l_name := (if y = [] then l_name d else y)\<rparr>) (licensed db))
     \<or> (\<exists>r. licensed (acc_step db ev) = licensed db @ [r]) \<or> licensed (acc_step db ev) = licensed db"
    by (auto simp: E_RegisterDevice RegisterLicensedDeviceNamed_def Let_def split: option.split)
  ultimately show ?thesis using dev_same[OF assms(1)] by blast
next
  case (E_Rename e j n)
  show ?thesis
    by (rule dev_maybe[OF assms(1), where P = "\<lambda>d. l_id d = normalize j" and f = "\<lambda>d. d\<lparr>l_name := trim_space n\<rparr>"])
      (auto simp: E_Rename acc_defs Let_def dev_moves_def)
next
  case (E_Touch e j t)
  show ?thesis
  proof (cases t)
    case (Some x)
    show ?thesis
      by (rule dev_maybe[OF assms(1), where P = "\<lambda>d. l_id d = normalize j \<and> l_seen d < unix x"
          and f = "\<lambda>d. d\<lparr>l_seen := unix x\<rparr>"]) (auto simp: E_Touch Some acc_defs dev_moves_def)
  qed (use assms E_Touch in \<open>simp add: acc_defs dev_def\<close>)
next
  case (E_Pin e j p)
  show ?thesis
    by (rule dev_maybe[OF assms(1), where P = "\<lambda>d. l_id d = normalize j" and f = "\<lambda>d. d\<lparr>l_pin := trim_space p\<rparr>"])
      (auto simp: E_Pin acc_defs Let_def dev_moves_def)
next
  case (E_EnsurePermanent e j)
  show ?thesis
    by (rule dev_maybe[OF assms(1), where P = "\<lambda>d. l_id d = normalize j \<and> l_revoked d = 0 \<and> l_until d \<le> unix (clock e 0)"
        and f = "\<lambda>d. d\<lparr>l_until := permanentDeviceLicenseUnix\<rparr>"])
      (auto simp: E_EnsurePermanent acc_defs Let_def dev_moves_def)
next
  case (E_RedeemDevice e j k)
  then consider "snd (RedeemDeviceActivationKey e j k db) = db"
    | (ok) t r x where "r \<in> set (keys db)" "l_revoked x = 0" "dev db (normalize j) = Some x"
        "t = max (unix (clock e 0)) (l_until x) + k_duration r"
        "licensed (acc_step db ev) = update_rows (\<lambda>d. l_id d = normalize j) (\<lambda>d. d\<lparr>l_until := t\<rparr>) (licensed db)"
    using redeem_device_keys[of e j k db] by (auto simp: dev_def)
  then show ?thesis
  proof cases
    case ok
    have "l_id d = i" using assms(1) find_mem[of "\<lambda>d. l_id d = i"] by (auto simp: dev_def)
    then have "x = d" if "l_id d = normalize j" using that ok(3) assms(1) by simp
    moreover have "0 \<le> k_duration r" if "keys_inv db" using that ok(1) by (force simp: keys_inv_def)
    ultimately show ?thesis using ok(2,4) by (intro dev_update[OF assms(1) ok(5)]) (auto simp: dev_moves_def)
  qed (use E_RedeemDevice assms in simp)
next
  case (E_Grant e j t)
  have "l_id d = i" using assms(1) find_mem[of "\<lambda>d. l_id d = i"] by (auto simp: dev_def)
  moreover have "0 \<le> t div 1000000000" if "valid_duration t"
    using that by (simp add: valid_duration_def pos_imp_zdiv_nonneg_iff)
  moreover have "\<not> valid_duration t \<Longrightarrow> snd (GrantDeviceLicense e j t db) = db" by (simp add: GrantDeviceLicense_def)
  ultimately show ?thesis
    by (cases "valid_duration t", intro dev_maybe[OF assms(1), where P = "\<lambda>d. l_id d = normalize j" and
          f = "\<lambda>d. d\<lparr>l_until := (if l_until d \<ge> permanentDeviceLicenseUnix then l_until d
                 else if l_until d > unix (clock e 0) then l_until d + t div 1000000000
                 else unix (clock e 0) + t div 1000000000), l_revoked := 0\<rparr>"])
      (auto simp: E_Grant GrantDeviceLicense_def Let_def dev_moves_def assms)
next
  case (E_Revoke e j)
  show ?thesis
    by (rule dev_maybe[OF assms(1), where P = "\<lambda>d. l_id d = normalize j \<and> l_revoked d = 0"
        and f = "\<lambda>d. d\<lparr>l_revoked := unix (clock e 0)\<rparr>"]) (auto simp: E_Revoke acc_defs Let_def dev_moves_def)
next
  case (E_Unrevoke e j)
  have "l_id d = i" using assms(1) find_mem[of "\<lambda>d. l_id d = i"] by (auto simp: dev_def)
  then show ?thesis
    by (intro dev_maybe[OF assms(1), where P = "\<lambda>d. l_id d = normalize j \<and> l_revoked d > 0"
        and f = "\<lambda>d. d\<lparr>l_revoked := 0\<rparr>"]) (auto simp: E_Unrevoke acc_defs Let_def dev_moves_def)
next
  case (E_Delete e j)
  then show ?thesis using assms find_filter_other[of i "normalize j" l_id "licensed db"]
    by (auto simp: dev_def DeleteLicensedDevice_def exec_one_def Let_def)
next
  case (E_Redeem e u k)
  then show ?thesis using Redeem_frame[of e u k db] by (intro dev_same[OF assms(1)]) simp
qed (rule dev_same[OF assms(1)]; auto simp: acc_defs Let_def EnsureDeviceCode_frame Backfill_frame split: acc_splits)+


section \<open>Licences and revocation\<close>

lemma dev_run:
  "dev db i = Some d \<Longrightarrow> keys_inv db \<Longrightarrow> \<forall>ev \<in> set evs. \<not> deletes ev i \<and> before_9999 ev \<Longrightarrow>
     \<exists>d'. dev (foldl acc_step db evs) i = Some d' \<and> l_key d' = l_key d \<and> l_until d \<le> l_until d'"
proof (induction evs arbitrary: db d)
  case (Cons ev evs)
  obtain d1 where d1: "dev (acc_step db ev) i = Some d1" "dev_moves db ev i d d1"
    using dev_step[OF Cons.prems(1), of ev] Cons.prems(3) by auto
  then show ?case
    using Cons.IH[OF d1(1) keys_inv_step[OF Cons.prems(2)]] Cons.prems(2,3) by (auto simp: dev_moves_def)
qed auto

text \<open>A licence is never shortened. As long as a device is not deleted, no sequence of
  redemptions, grants, permanent activations, registrations, revocations and renamings moves its
  expiry backwards or changes its identity key.\<close>

theorem licences_never_shortened:
  assumes "dev (foldl acc_step empty_db evs0) i = Some d" "\<forall>ev \<in> set evs. \<not> deletes ev i \<and> before_9999 ev"
  shows "\<exists>d'. dev (foldl acc_step empty_db (evs0 @ evs)) i = Some d' \<and> l_key d' = l_key d \<and> l_until d \<le> l_until d'"
proof -
  have "keys_inv (foldl acc_step empty_db evs0)"
    by (rule keyring.run_keeps) (simp add: keys_inv_def empty_db_def)
  from dev_run[OF assms(1) this assms(2)] show ?thesis by simp
qed

definition plain_env :: acc_env where
  "plain_env = \<lparr>clock = (\<lambda>_. 1000000000000), fault = (\<lambda>_. False), draw = (\<lambda>_. Some [1, 2, 3, 4]),
     draw_int = (\<lambda>k. Some k), argon2 = (\<lambda>salt p. salt @ str_bytes p), prims = toy\<rparr>"

text \<open>The identifier of the toy key: the hash is 32 bytes of 32.\<close>

definition dev_id :: string where
  "dev_id = DeviceID toy (replicate 32 1)"

lemma dev_id: "dev_id = ''202020202020202020202020''" "normalize dev_id = dev_id"
  by code_simp+

lemma register_dev:
  "dev (foldl acc_step empty_db [E_RegisterDevice plain_env dev_id (replicate 32 1) ''pc'']) dev_id =
     Some \<lparr>l_id = dev_id, l_key = replicate 32 1, l_name = ''pc'', l_pin = [], l_first = 1000, l_seen = 1000,
       l_until = 0, l_revoked = 0\<rparr>"
proof -
  have "trim_space ''pc'' = ''pc''" "rune_count ''pc'' = 2" by code_simp+
  then show ?thesis
    by (simp add: RegisterLicensedDeviceNamed_def dev_id(2) equal_fold_def plain_env_def empty_db_def
        dev_def unix_def flip: dev_id_def)
qed

lemma licences_never_shortened_witness:
  "\<exists>d'. dev (foldl acc_step empty_db ([E_RegisterDevice plain_env dev_id (replicate 32 1) ''pc''] @
      [E_Grant plain_env dev_id 3600000000000, E_Revoke plain_env dev_id])) dev_id = Some d' \<and> l_key d' = replicate 32 1"
  using licences_never_shortened[OF register_dev, of "[E_Grant plain_env dev_id 3600000000000, E_Revoke plain_env dev_id]"]
  by auto

lemma revoked_run:
  "dev db i = Some d \<Longrightarrow> l_revoked d \<noteq> 0 \<Longrightarrow> \<forall>ev \<in> set evs. \<not> lets_in ev i \<Longrightarrow>
     \<exists>d'. dev (foldl acc_step db evs) i = Some d' \<and> l_revoked d' \<noteq> 0 \<and> l_until d' = l_until d"
proof (induction evs arbitrary: db d)
  case (Cons ev evs)
  have "\<not> deletes ev i" using Cons.prems(3) by (cases ev) auto
  then obtain d1 where d1: "dev (acc_step db ev) i = Some d1" "dev_moves db ev i d d1"
    using dev_step[OF Cons.prems(1)] by auto
  then show ?case
    using Cons.IH[OF d1(1)] Cons.prems(2,3) by (auto simp: dev_moves_def)
qed auto

text \<open>C11: A revoked device stays out. Until the administrator re-enables, grants or deletes it, no
  operation gives it a licence or moves its expiry: it never has an active licence, redeems no
  key and cannot register again.\<close>

theorem revoked_device_stays_out:
  assumes "dev db i = Some d" "l_revoked d \<noteq> 0" "\<forall>ev \<in> set evs. \<not> lets_in ev i" "normalize j = i"
  shows "\<not> HasActiveDeviceLicense e j (foldl acc_step db evs)
    \<and> (\<exists>err. RedeemDeviceActivationKey e j key (foldl acc_step db evs) = (Inl err, foldl acc_step db evs))
    \<and> (\<exists>err. RegisterLicensedDeviceNamed e j p n (foldl acc_step db evs) = (Inl err, foldl acc_step db evs))
    \<and> (\<exists>d'. dev (foldl acc_step db evs) i = Some d' \<and> l_until d' = l_until d)"
proof -
  obtain d' where d': "find (\<lambda>d. l_id d = i) (licensed (foldl acc_step db evs)) = Some d'" "l_revoked d' \<noteq> 0"
    "l_until d' = l_until d"
    using revoked_run[OF assms(1-3)] by (auto simp: dev_def)
  then show ?thesis
    using assms(4) by (auto simp: HasActiveDeviceLicense_def DeviceLicenseExpiry_def RedeemDeviceActivationKey_def
        RegisterLicensedDeviceNamed_def Let_def dev_def)
qed

lemma revoked_device_stays_out_witness:
  "\<not> HasActiveDeviceLicense plain_env ''AB'' (foldl acc_step
     (empty_db\<lparr>licensed := [\<lparr>l_id = ''AB'', l_key = [], l_name = [], l_pin = [], l_first = 0, l_seen = 0,
        l_until = 5000, l_revoked = 7\<rparr>]\<rparr>)
     [E_EnsurePermanent plain_env ''AB'', E_RedeemDevice plain_env ''AB'' ''K'', E_Unrevoke plain_env ''CD''])"
proof -
  have n: "normalize ''AB'' = ''AB''" "normalize ''CD'' \<noteq> ''AB''" by code_simp+
  then show ?thesis
    by (intro conjunct1[OF revoked_device_stays_out[where i = "''AB''"]]) (auto simp: dev_def)
qed

section \<open>Device codes\<close>

definition codes_inv :: "db \<Rightarrow> bool" where
  "codes_inv db \<longleftrightarrow> distinct (map fst (codes db)) \<and> distinct (map snd (codes db))
     \<and> list_all ValidDeviceCode (map snd (codes db))"

definition codes_grow :: "db \<Rightarrow> db \<Rightarrow> bool" where
  "codes_grow db db' \<longleftrightarrow> codes_inv db' \<and> prefix (codes db) (codes db')"

lemma codes_grow_refl: "codes_inv db \<Longrightarrow> codes_grow db db"
  by (simp add: codes_grow_def)

lemma codes_grow_trans: "codes_grow a b \<Longrightarrow> codes_grow b c \<Longrightarrow> codes_grow a c"
  by (auto simp: codes_grow_def)

lemma codes_grow_inv: "codes_grow a b \<Longrightarrow> codes_inv b"
  by (simp add: codes_grow_def)

lemma hd_decimal: "hd (decimal (Suc n) k) = char_of (48 + (k div 10 ^ n) mod 10)"
proof (induction n arbitrary: k)
  case (Suc n)
  have "decimal (Suc n) (k div 10) \<noteq> []" using decimal_length[of "Suc n" "k div 10"] by (metis length_0_conv nat.distinct(1))
  then have "hd (decimal (Suc (Suc n)) k) = hd (decimal (Suc n) (k div 10))"
    by (simp only: decimal.simps(2)[of "Suc n"] hd_append if_False)
  then show ?case using Suc by (simp only: div_mult2_eq[symmetric] power_Suc)
qed simp

lemma drawn_code: "n < 900000000 \<Longrightarrow> ValidDeviceCode (decimal 9 (100000000 + n))"
proof -
  assume n: "n < 900000000"
  let ?k = "100000000 + n"
  have "1 \<le> ?k div 10 ^ 8" "?k div 10 ^ 8 < 10" using n by simp_all
  then have k: "?k div 10 ^ 8 mod 10 \<noteq> 0" "?k div 10 ^ 8 mod 10 < 10" by simp_all
  have "hd (decimal (Suc 8) ?k) = char_of (48 + ?k div 10 ^ 8 mod 10)" by (rule hd_decimal)
  moreover have "char_of (48 + ?k div 10 ^ 8 mod 10) \<noteq> CHR ''0''"
  proof
    assume "char_of (48 + ?k div 10 ^ 8 mod 10) = CHR ''0''"
    then have "of_char (char_of (48 + ?k div 10 ^ 8 mod 10) :: char) = (of_char CHR ''0'' :: nat)" by (rule arg_cong)
    then show False using k by simp
  qed
  ultimately have "hd (decimal (Suc 8) ?k) \<noteq> CHR ''0''" by (simp only: not_False_eq_True)
  moreover have "(9 :: nat) = Suc 8" by simp
  moreover have "list_all is_digit (decimal (Suc 8) ?k)" unfolding list_all_iff using decimal_digits by blast
  ultimately show ?thesis unfolding ValidDeviceCode_def by (simp only: decimal_length simp_thms)
qed

lemma insert_code_grows:
  assumes "codes_inv db" "ValidDeviceCode c" shows "codes_grow db (insert_code i c db)"
proof -
  have "i \<notin> fst ` set (codes db)" if "map_of (codes db) i = None" using that by (simp add: map_of_eq_None_iff)
  then show ?thesis
    using assms by (auto simp: codes_grow_def codes_inv_def insert_code_def list_all_iff)
qed

lemma allocate_code_grows: "codes_inv db \<Longrightarrow> codes_grow db (snd (allocate_code e i k n db))"
proof (induction n arbitrary: k db)
  case 0
  then show ?case by (simp add: codes_grow_refl)
next
  case (Suc n)
  show ?case
  proof (cases "draw_int e k")
    case None
    then show ?thesis using Suc.prems by (simp add: codes_grow_refl)
  next
    case (Some m)
    let ?c = "decimal 9 (100000000 + m mod 900000000)"
    have grow: "codes_grow db (insert_code i ?c db)"
      using Suc.prems by (intro insert_code_grows drawn_code) simp_all
    then have "codes_grow (insert_code i ?c db) (snd (allocate_code e i (Suc k) n (insert_code i ?c db)))"
      by (intro Suc.IH) (simp add: codes_grow_def)
    with grow have "codes_grow db (snd (allocate_code e i (Suc k) n (insert_code i ?c db)))"
      by (rule codes_grow_trans)
    with grow show ?thesis using Suc.prems Some
      by (simp add: codes_grow_refl Let_def del: decimal.simps split: option.split)
  qed
qed

lemma EnsureDeviceCode_grows: "codes_inv db \<Longrightarrow> codes_grow db (snd (EnsureDeviceCode e i db))"
  by (simp add: EnsureDeviceCode_def Let_def codes_grow_refl allocate_code_grows del: allocate_code.simps
      split: option.split)

lemma backfill_grows: "codes_inv db \<Longrightarrow> codes_grow db (snd (backfill es k is db))"
proof (induction "is" arbitrary: k db)
  case (Cons i "is")
  obtain r db' where E: "EnsureDeviceCode (es k) i db = (r, db')" by fastforce
  have "codes_grow db db'" using EnsureDeviceCode_grows[OF Cons.prems, of "es k" i] E by simp
  moreover from this have "codes_grow db' (snd (backfill es (Suc k) is db'))"
    by (intro Cons.IH) (simp add: codes_grow_def)
  ultimately show ?case using E codes_grow_trans by (cases r) auto
qed (simp add: codes_grow_refl)

lemma other_codes:
  assumes "\<And>e i. ev \<noteq> E_Code e i" "\<And>e es. ev \<noteq> E_Backfill e es"
  shows "codes (acc_step db ev) = codes db"
  using assms
  by (cases ev) (auto simp: acc_defs Let_def GenerateActivationKey_def Redeem_frame RedeemDevice_frame split: acc_splits)

lemma codes_step: "codes_inv db \<Longrightarrow> codes_grow db (acc_step db ev)"
proof (cases ev)
  case (E_Code e i)
  then show "codes_inv db \<Longrightarrow> ?thesis" by (simp add: EnsureDeviceCode_grows)
next
  case (E_Backfill e es)
  then show "codes_inv db \<Longrightarrow> ?thesis" by (simp add: BackfillDeviceCodes_def codes_grow_refl backfill_grows)
qed (simp_all add: codes_grow_def codes_inv_def other_codes del: acc_step.simps)

interpretation code_book: event_system acc_step codes_inv
  using codes_step by unfold_locales (auto simp: codes_grow_def)

text \<open>C30: Device codes are valid, unique and never recycled. In every history the allocated codes
  are nine digits without a leading zero, no two devices share one, no device has two, and later
  operations, deletions included, only append to the table.\<close>

theorem device_codes_never_recycled:
  fixes evs0 evs
  defines "db \<equiv> foldl acc_step empty_db evs0"
  shows "distinct (map fst (codes db)) \<and> distinct (map snd (codes db)) \<and> list_all ValidDeviceCode (map snd (codes db))
    \<and> prefix (codes db) (codes (foldl acc_step db evs))"
proof -
  have inv: "codes_inv db" unfolding db_def by (rule code_book.run_keeps) (simp add: codes_inv_def empty_db_def)
  have "codes_inv db \<longrightarrow> codes_grow db (foldl acc_step db evs)"
    by (rule code_book.run_rel[where R = "\<lambda>a b. codes_inv a \<longrightarrow> codes_grow a b", OF inv])
      (blast intro: codes_grow_refl codes_grow_trans codes_step dest: codes_grow_inv)+
  with inv show ?thesis by (simp add: codes_inv_def codes_grow_def)
qed

section \<open>Bound devices\<close>

definition bound :: "db \<Rightarrow> string \<Rightarrow> device_row option" where
  "bound db i = find (\<lambda>d. d_id d = i) (devices db)"

definition same_owner :: "device_row \<Rightarrow> device_row \<Rightarrow> bool" where
  "same_owner d d' \<longleftrightarrow> d_owner d' = d_owner d \<and> d_key d' = d_key d \<and> (d_revoked d \<noteq> 0 \<longrightarrow> d_revoked d' \<noteq> 0)"

lemma bound_update:
  assumes "bound db i = Some d" "devices db' = devices db \<or> devices db' = update_rows P f (devices db)"
    and "\<And>r. d_id (f r) = d_id r" "P d \<Longrightarrow> same_owner d (f d)"
  shows "\<exists>d'. bound db' i = Some d' \<and> same_owner d d'"
  using assms find_update[of d_id f i P "devices db"] by (auto simp: bound_def same_owner_def)

lemma bound_step:
  assumes "bound db i = Some d"
  shows "\<exists>d'. bound (acc_step db ev) i = Some d' \<and> same_owner d d'"
proof (cases ev)
  case (E_Bind e u j p n)
  have "\<exists>d'. bound (acc_step db ev) i = Some d' \<and> same_owner d d'"
    if "devices (acc_step db ev) = update_rows (\<lambda>d. d_id d = to_upper j)
      (\<lambda>d. d\<lparr>d_seen := x, d_name := (if n = [] then d_name d else n)\<rparr>) (devices db)" for x
    by (rule bound_update[OF assms disjI2[OF that]]) (simp_all add: same_owner_def)
  moreover have "\<exists>d'. bound (acc_step db ev) i = Some d' \<and> same_owner d d'"
    if "devices (acc_step db ev) = devices db @ [r]" for r
    using that assms by (simp add: bound_def find_append same_owner_def)
  moreover have "devices (acc_step db ev) = update_rows (\<lambda>d. d_id d = to_upper j)
      (\<lambda>d. d\<lparr>d_seen := unix (clock e 0), d_name := (if n = [] then d_name d else n)\<rparr>) (devices db)
     \<or> (\<exists>r. devices (acc_step db ev) = devices db @ [r]) \<or> devices (acc_step db ev) = devices db"
    by (auto simp: E_Bind BindDevice_def Let_def split: option.split)
  ultimately show ?thesis using assms by (auto simp: bound_def same_owner_def)
next
  case (E_TouchBound e j)
  show ?thesis
    by (rule bound_update[OF assms, where P = "\<lambda>d. d_id d = to_upper j" and f = "\<lambda>d. d\<lparr>d_seen := unix (clock e 0)\<rparr>"])
      (auto simp: E_TouchBound TouchDevice_def same_owner_def)
next
  case (E_RevokeBound e u j)
  show ?thesis
    by (rule bound_update[OF assms, where P = "\<lambda>d. d_owner d = u \<and> d_id d = to_upper j \<and> d_revoked d = 0"
        and f = "\<lambda>d. d\<lparr>d_revoked := unix (clock e 0)\<rparr>"]) (auto simp: E_RevokeBound RevokeDevice_def exec_one_def Let_def same_owner_def)
next
  case (E_Redeem e u k)
  then show ?thesis using assms Redeem_frame[of e u k db] by (simp add: bound_def same_owner_def)
next
  case (E_RedeemDevice e j k)
  then show ?thesis using assms RedeemDevice_frame[of e j k db] by (simp add: bound_def same_owner_def)
qed (rule bound_update[OF assms disjI1, where P = "\<lambda>_. False" and f = "\<lambda>d. d"];
    auto simp: acc_defs Let_def GenerateActivationKey_def EnsureDeviceCode_frame Backfill_frame split: acc_splits)+

lemma bound_run: "bound db i = Some d \<Longrightarrow> \<exists>d'. bound (foldl acc_step db evs) i = Some d' \<and> same_owner d d'"
proof (induction evs arbitrary: db d)
  case (Cons ev evs)
  obtain d1 where d1: "bound (acc_step db ev) i = Some d1" "same_owner d d1"
    using bound_step[OF Cons.prems] by blast
  then show ?case using Cons.IH[OF d1(1)] by (auto simp: same_owner_def)
qed (auto simp: same_owner_def)

text \<open>Ownership of a bound device is final. Once a device is bound to an account, no sequence of
  operations changes its owner or identity key, another account cannot bind it, and a revoked
  binding stays revoked.\<close>

theorem bound_device_ownership_is_final:
  assumes "bound db i = Some d" "to_upper j = i"
  shows "\<exists>d'. bound (foldl acc_step db evs) i = Some d' \<and> d_owner d' = d_owner d \<and> d_key d' = d_key d
    \<and> (d_revoked d \<noteq> 0 \<longrightarrow> d_revoked d' \<noteq> 0)
    \<and> (u \<noteq> d_owner d \<longrightarrow> (\<exists>err. fst (BindDevice e u j p n (foldl acc_step db evs)) = Inl err))"
proof -
  obtain d' where d': "bound (foldl acc_step db evs) i = Some d'" "same_owner d d'" using bound_run[OF assms(1)] by blast
  then show ?thesis using assms(2)
    by (auto simp: bound_def same_owner_def BindDevice_def Let_def)
qed

lemma bound_device_ownership_is_final_witness:
  "\<exists>d'. bound (foldl acc_step (empty_db\<lparr>devices := [\<lparr>d_id = ''AB'', d_owner = ''ann'', d_key = [1], d_name = [],
      d_approved = 0, d_seen = 0, d_revoked = 0\<rparr>]\<rparr>) [E_RevokeBound plain_env ''bob'' ''ab'', E_Bind plain_env ''bob'' ''ab'' [1] []]) ''AB''
      = Some d' \<and> d_owner d' = ''ann''"
proof -
  have "to_upper ''ab'' = ''AB''" by code_simp
  from bound_device_ownership_is_final[OF _ this, where db = "empty_db\<lparr>devices := [\<lparr>d_id = ''AB'', d_owner = ''ann'',
      d_key = [1], d_name = [], d_approved = 0, d_seen = 0, d_revoked = 0\<rparr>]\<rparr>"
      and d = "\<lparr>d_id = ''AB'', d_owner = ''ann'', d_key = [1], d_name = [], d_approved = 0, d_seen = 0, d_revoked = 0\<rparr>"
      and evs = "[E_RevokeBound plain_env ''bob'' ''ab'', E_Bind plain_env ''bob'' ''ab'' [1] []]"
      and u = "''bob''" and e = plain_env and p = "[]" and n = "[]"]
  show ?thesis by (auto simp: bound_def)
qed

section \<open>Sessions\<close>

lemma login_session:
  assumes "Login e u p db = (Inr token, db')" "draw e 0 = Some raw"
    and "unix (clock e 1) \<le> unix (clock e 0 + sessionLifetime)"
  shows "\<exists>r old. r \<in> set (accounts db) \<and> a_name r = trim_space u \<and> a_hash r = passwordHash e (a_salt r) p
    \<and> token = hex_encode raw \<and> (\<forall>s \<in> set old. s_hash s \<noteq> hashToken e token)
    \<and> sessions db' = old @ [\<lparr>s_hash = hashToken e token, s_user = trim_space u,
        s_expires = unix (clock e 0 + sessionLifetime), s_revoked = 0\<rparr>]"
proof -
  let ?new = "\<lparr>s_hash = hashToken e (hex_encode raw), s_user = trim_space u,
      s_expires = unix (clock e 0 + sessionLifetime), s_revoked = 0\<rparr>"
  obtain r where r: "find (\<lambda>r. a_name r = trim_space u) (accounts db) = Some r" "passwordHash e (a_salt r) p = a_hash r"
    using assms(1) by (auto simp: Login_def Let_def split: if_splits option.splits)
  then have out: "token = hex_encode raw" "\<forall>s \<in> set (sessions db). s_hash s \<noteq> hashToken e token"
    "sessions db' = (if fault e 2 then sessions db @ [?new]
        else filter (\<lambda>s. \<not> (s_expires s < unix (clock e 1) \<or> s_revoked s > 0)) (sessions db @ [?new]))"
    using assms(1,2) by (auto simp: Login_def Let_def split: if_splits)
  then have "\<exists>old. sessions db' = old @ [?new] \<and> (\<forall>s \<in> set old. s_hash s \<noteq> hashToken e token)"
    using assms(3) by auto
  with r out(1) find_mem[OF r(1)] show ?thesis by auto
qed

lemma find_last: "\<forall>x \<in> set xs. \<not> P x \<Longrightarrow> find P (xs @ [y]) = (if P y then Some y else None)"
  by (induction xs) auto

text \<open>A session lasts from login to logout. A successful login needs the password of an
  existing account; it returns a token that authenticates its user until 24 hours later, and once
  logged out it authenticates nobody.\<close>

theorem session_lifecycle:
  assumes login: "Login e u p db = (Inr token, db')" and "draw e 0 = Some raw" "raw \<noteq> []"
    and "unix (clock e 1) \<le> unix (clock e 0 + sessionLifetime)"
    and "prims e2 = prims e" "\<not> fault e2 0" "unix (clock e2 0) < unix (clock e 0 + sessionLifetime)"
    and "prims e3 = prims e" "\<not> fault e3 0" "unix (clock e3 0) \<noteq> 0" "prims e4 = prims e"
  shows "Authenticate e2 token db' = (trim_space u, True)
    \<and> (\<exists>r \<in> set (accounts db). a_name r = trim_space u \<and> a_hash r = passwordHash e (a_salt r) p)
    \<and> Authenticate e4 token (snd (Logout e3 token db')) = ([], False)"
proof -
  obtain r old where r: "r \<in> set (accounts db)" "a_name r = trim_space u" "a_hash r = passwordHash e (a_salt r) p"
    "token = hex_encode raw" "\<forall>s \<in> set old. s_hash s \<noteq> hashToken e token"
    "sessions db' = old @ [\<lparr>s_hash = hashToken e token, s_user = trim_space u,
        s_expires = unix (clock e 0 + sessionLifetime), s_revoked = 0\<rparr>]"
    using login_session[OF login assms(2,4)] by blast
  have token: "token \<noteq> []" using r(4) assms(3) by (cases raw) auto
  have h: "hashToken e2 token = hashToken e token" "hashToken e3 token = hashToken e token"
    "hashToken e4 token = hashToken e token" using assms by (simp_all add: hashToken_def)
  have "Authenticate e2 token db' = (trim_space u, True)"
    using r(5,6) token assms(6,7) by (simp add: Authenticate_def h find_last)
  moreover have "\<not> (s_hash s = hashToken e4 token \<and> s_revoked s = 0)"
    if "s \<in> set (sessions (snd (Logout e3 token db')))" for s
    using that assms(9,10) by (auto simp: Logout_def update_rows_mem h split: if_splits dest: arg_cong[where f = s_revoked])
  then have "Authenticate e4 token (snd (Logout e3 token db')) = ([], False)"
    by (auto simp: Authenticate_def find_None_iff split: option.split dest!: find_mem)
  ultimately show ?thesis using r by auto
qed

definition one_account :: db where
  "one_account = empty_db\<lparr>accounts := [\<lparr>a_name = ''ann'', a_hash = [7, 115], a_salt = [7], a_created = 0, a_until = 0\<rparr>]\<rparr>"

lemma session_lifecycle_witness:
  "\<exists>token db'. Login plain_env ''ann'' ''s'' one_account = (Inr token, db') \<and> Authenticate plain_env token db' = (''ann'', True)
    \<and> Authenticate plain_env token (snd (Logout plain_env token db')) = ([], False)"
proof -
  have n: "trim_space ''ann'' = ''ann''" by code_simp
  have "passwordHash plain_env [7] ''s'' = [7, 115]" by (simp add: passwordHash_def plain_env_def str_bytes_def)
  then have "\<exists>token. fst (Login plain_env ''ann'' ''s'' one_account) = Inr token"
    by (simp add: Login_def one_account_def n) (simp add: plain_env_def empty_db_def Let_def)
  then obtain token db' where l: "Login plain_env ''ann'' ''s'' one_account = (Inr token, db')"
    by (metis prod.collapse)
  then show ?thesis
    using session_lifecycle[OF l, of "[1, 2, 3, 4]" plain_env plain_env plain_env] n
    by (simp add: plain_env_def sessionLifetime_def unix_def)
qed

end
