(* ===== verification/RateLimit.thy ===== *)
theory RateLimit
  imports Prelude "HOL-Library.AList"
begin

text \<open>
  The rate limiters of the public endpoints: the response budget of the STUN server
  (\<open>internal/natstun/server.go\<close>, \<open>limiter.allow\<close>) and the directory lookups of the relay
  (\<open>cmd/yudesk-relay/resolve.go\<close>, \<open>permitLookup\<close>). Both keep fixed windows; what they promise is
  stated once, as the locale \<open>budget\<close>: no window is ever charged more than its limit.
\<close>

section \<open>The contract\<close>

text \<open>What the accepted requests of a run cost in the window \<open>w\<close>, and runs in which every request
  is legal when it comes.\<close>

fun accepted_cost ::
  "('s \<Rightarrow> 'r \<Rightarrow> bool \<times> 's) \<Rightarrow> ('s \<Rightarrow> 'r \<Rightarrow> 'w) \<Rightarrow> ('r \<Rightarrow> nat) \<Rightarrow> 's \<Rightarrow> 'r list \<Rightarrow> 'w \<Rightarrow> nat"
where
  "accepted_cost allow slot cost s [] w = 0"
| "accepted_cost allow slot cost s (r # rs) w =
     (if fst (allow s r) \<and> slot s r = w then cost r else 0)
       + accepted_cost allow slot cost (snd (allow s r)) rs w"

fun legal_run :: "('s \<Rightarrow> 'r \<Rightarrow> bool \<times> 's) \<Rightarrow> ('s \<Rightarrow> 'r \<Rightarrow> bool) \<Rightarrow> 's \<Rightarrow> 'r list \<Rightarrow> bool" where
  "legal_run allow legal s [] = True"
| "legal_run allow legal s (r # rs) = (legal s r \<and> legal_run allow legal (snd (allow s r)) rs)"

locale budget =
  fixes allow :: "'s \<Rightarrow> 'r \<Rightarrow> bool \<times> 's"
    and legal :: "'s \<Rightarrow> 'r \<Rightarrow> bool"
    and slot :: "'s \<Rightarrow> 'r \<Rightarrow> 'w"
    and cost :: "'r \<Rightarrow> nat"
    and spent :: "'s \<Rightarrow> 'w \<Rightarrow> nat"
    and dead :: "'s \<Rightarrow> 'w \<Rightarrow> bool"
    and inv :: "'s \<Rightarrow> bool"
    and limit :: nat
  assumes inv_kept: "inv s \<Longrightarrow> legal s r \<Longrightarrow> inv (snd (allow s r))"
    and accepted: "inv s \<Longrightarrow> legal s r \<Longrightarrow> fst (allow s r) \<Longrightarrow>
      \<not> dead s (slot s r) \<and> spent (snd (allow s r)) (slot s r) = spent s (slot s r) + cost r
        \<and> spent (snd (allow s r)) (slot s r) \<le> limit"
    and others: "inv s \<Longrightarrow> legal s r \<Longrightarrow> \<not> fst (allow s r) \<or> w \<noteq> slot s r \<Longrightarrow> \<not> dead (snd (allow s r)) w \<Longrightarrow>
      spent (snd (allow s r)) w = spent s w"
    and stale: "inv s \<Longrightarrow> legal s r \<Longrightarrow> dead s w \<Longrightarrow> dead (snd (allow s r)) w"
begin

lemma dead_is_free: "inv s \<Longrightarrow> legal_run allow legal s rs \<Longrightarrow> dead s w \<Longrightarrow> accepted_cost allow slot cost s rs w = 0"
proof (induction rs arbitrary: s)
  case (Cons r rs)
  then show ?case using accepted[of s r] stale[of s r w] inv_kept[of s r] by auto
qed simp

lemma within_limit:
  "inv s \<Longrightarrow> legal_run allow legal s rs \<Longrightarrow> spent s w \<le> limit \<Longrightarrow> \<not> dead s w \<Longrightarrow>
     spent s w + accepted_cost allow slot cost s rs w \<le> limit"
proof (induction rs arbitrary: s)
  case (Cons r rs)
  let ?s' = "snd (allow s r)" and ?c = "if fst (allow s r) \<and> slot s r = w then cost r else 0"
  have inv: "inv ?s'" and run: "legal_run allow legal ?s' rs" using Cons.prems inv_kept[of s r] by auto
  show ?case
  proof (cases "dead ?s' w")
    case True
    have "spent s w + ?c \<le> limit" using Cons.prems accepted[of s r] by auto
    then show ?thesis using dead_is_free[OF inv run True] by simp
  next
    case False
    have "spent s w + ?c \<le> limit" using Cons.prems accepted[of s r] by auto
    moreover have "spent ?s' w = spent s w + ?c"
      using Cons.prems accepted[of s r] others[of s r w] False by (auto split: if_splits)
    ultimately show ?thesis using Cons.IH[OF inv run _ False] by simp
  qed
qed simp

lemma never_over_budget:
  "inv s \<Longrightarrow> legal_run allow legal s rs \<Longrightarrow> spent s w = 0 \<Longrightarrow> accepted_cost allow slot cost s rs w \<le> limit"
  using dead_is_free[of s rs w] within_limit[of s rs w] by (cases "dead s w") auto

end

section \<open>The STUN response limiter\<close>

record window =
  w_second :: int
  w_count :: nat

record limiter =
  hosts :: "(string \<times> window) list"
  all :: window

definition fresh_limiter :: limiter where
  "fresh_limiter = \<lparr>hosts = [], all = \<lparr>w_second = 0, w_count = 0\<rparr>\<rparr>"

text \<open>\<open>limiter.allow\<close> for a source key and the Unix second of the clock.\<close>

definition allow_response :: "limiter \<Rightarrow> string \<times> int \<Rightarrow> bool \<times> limiter" where
  "allow_response l r =
     (case r of (host, second) \<Rightarrow>
        let l = (if w_second (all l) \<noteq> second then \<lparr>hosts = [], all = \<lparr>w_second = second, w_count = 0\<rparr>\<rparr> else l) in
        if w_count (all l) \<ge> 1000 then (False, l)
        else if map_of (hosts l) host = None \<and> length (hosts l) \<ge> 1000 then (False, l)
        else
          let w = (case map_of (hosts l) host of None \<Rightarrow> \<lparr>w_second = 0, w_count = 0\<rparr> | Some w \<Rightarrow> w);
              w = (if w_second w \<noteq> second then \<lparr>w_second = second, w_count = 0\<rparr> else w)
          in if w_count w \<ge> 20 then (False, l)
             else (True, l\<lparr>all := (all l)\<lparr>w_count := w_count (all l) + 1\<rparr>,
               hosts := AList.update host (w\<lparr>w_count := w_count w + 1\<rparr>) (hosts l)\<rparr>))"

definition limiter_inv :: "limiter \<Rightarrow> bool" where
  "limiter_inv l \<longleftrightarrow> (\<forall>h w. map_of (hosts l) h = Some w \<longrightarrow> w_second w = w_second (all l))
     \<and> length (hosts l) \<le> 1000 \<and> w_count (all l) \<le> 1000"

text \<open>The clock does not go back.\<close>

definition on_time :: "limiter \<Rightarrow> string \<times> int \<Rightarrow> bool" where
  "on_time l r \<longleftrightarrow> w_second (all l) \<le> snd r"

lemma length_update: "length (AList.update k v xs) = (if map_of xs k = None then Suc (length xs) else length xs)"
  by (induction xs) auto

definition host_count :: "limiter \<Rightarrow> string \<Rightarrow> nat" where
  "host_count l h = (case map_of (hosts l) h of None \<Rightarrow> 0 | Some v \<Rightarrow> w_count v)"

text \<open>The limiter at the second \<open>t\<close>, and the outcome of one request seen through the counts.\<close>

definition at_second :: "int \<Rightarrow> limiter \<Rightarrow> limiter" where
  "at_second t l = (if w_second (all l) \<noteq> t then \<lparr>hosts = [], all = \<lparr>w_second = t, w_count = 0\<rparr>\<rparr> else l)"

lemma at_second_facts:
  assumes "limiter_inv l"
  shows "limiter_inv (at_second t l)" "w_second (all (at_second t l)) = t"
    "host_count (at_second t l) h = (if w_second (all l) = t then host_count l h else 0)"
    "w_count (all (at_second t l)) = (if w_second (all l) = t then w_count (all l) else 0)"
  using assms by (auto simp: at_second_def limiter_inv_def host_count_def)

lemma allow_response_cases:
  assumes "limiter_inv l"
  obtains (refused) "allow_response l (h, t) = (False, at_second t l)"
  | (granted) l' where "allow_response l (h, t) = (True, l')" "limiter_inv l'" "w_second (all l') = t"
      "host_count l' h = host_count (at_second t l) h + 1" "host_count l' h \<le> 20"
      "\<And>g. g \<noteq> h \<Longrightarrow> host_count l' g = host_count (at_second t l) g"
      "w_count (all l') = w_count (all (at_second t l)) + 1" "w_count (all l') \<le> 1000"
proof -
  define l0 where "l0 = at_second t l"
  have inv: "limiter_inv l0" and t: "w_second (all l0) = t" using at_second_facts[OF assms] by (simp_all add: l0_def)
  define w where "w = (case map_of (hosts l0) h of None \<Rightarrow> \<lparr>w_second = t, w_count = 0\<rparr> | Some w \<Rightarrow> w)"
  have w: "w_count w = host_count l0 h" "w_second w = t"
    using inv t by (auto simp: w_def host_count_def limiter_inv_def split: option.split)
  have norm: "(let w = (case map_of (hosts l0) h of None \<Rightarrow> \<lparr>w_second = 0, w_count = 0\<rparr> | Some w \<Rightarrow> w)
      in if w_second w \<noteq> t then \<lparr>w_second = t, w_count = 0\<rparr> else w) = w"
    using inv t by (auto simp: w_def limiter_inv_def Let_def split: option.split)
  let ?l' = "l0\<lparr>all := (all l0)\<lparr>w_count := w_count (all l0) + 1\<rparr>,
      hosts := AList.update h (w\<lparr>w_count := w_count w + 1\<rparr>) (hosts l0)\<rparr>"
  have "allow_response l (h, t) =
     (if w_count (all l0) \<ge> 1000 \<or> map_of (hosts l0) h = None \<and> length (hosts l0) \<ge> 1000 \<or> w_count w \<ge> 20
      then (False, l0) else (True, ?l'))"
    using norm unfolding allow_response_def prod.case Let_def l0_def at_second_def by auto
  moreover have "limiter_inv ?l'" if "w_count (all l0) < 1000" "map_of (hosts l0) h = None \<longrightarrow> length (hosts l0) < 1000"
    using inv t w that by (auto simp: limiter_inv_def AList.update_conv' length_update)
  moreover have "host_count ?l' h = host_count l0 h + 1" "w_second (all ?l') = t" "w_count (all ?l') = w_count (all l0) + 1"
    "\<And>g. g \<noteq> h \<Longrightarrow> host_count ?l' g = host_count l0 g"
    using t w by (simp_all add: host_count_def AList.update_conv')
  ultimately show ?thesis using refused granted[of ?l'] w unfolding l0_def[symmetric] by (auto simp: not_le split: if_splits)
qed

definition host_spent :: "limiter \<Rightarrow> string \<times> int \<Rightarrow> nat" where
  "host_spent l w = (if w_second (all l) = snd w then host_count l (fst w) else 0)"

definition total_spent :: "limiter \<Rightarrow> int \<Rightarrow> nat" where
  "total_spent l t = (if w_second (all l) = t then w_count (all l) else 0)"

lemma allow_response_step:
  assumes "limiter_inv l" "on_time l (h, t)"
  shows "limiter_inv (snd (allow_response l (h, t)))"
    and "w_second (all (snd (allow_response l (h, t)))) = t"
    and "host_spent (snd (allow_response l (h, t))) (g, t) =
      host_spent l (g, t) + (if fst (allow_response l (h, t)) \<and> g = h then 1 else 0)"
    and "total_spent (snd (allow_response l (h, t))) t = total_spent l t + (if fst (allow_response l (h, t)) then 1 else 0)"
    and "fst (allow_response l (h, t)) \<Longrightarrow> host_spent (snd (allow_response l (h, t))) (h, t) \<le> 20
      \<and> total_spent (snd (allow_response l (h, t))) t \<le> 1000"
  by (rule allow_response_cases[OF assms(1), of h t];
      use at_second_facts[OF assms(1)] in \<open>simp add: host_spent_def total_spent_def\<close>)+

interpretation stun_host: budget allow_response on_time "\<lambda>l r. r" "\<lambda>r. 1" host_spent
  "\<lambda>l w. snd w < w_second (all l)" limiter_inv 20
proof unfold_locales
  fix l r and w :: "string \<times> int"
  assume inv: "limiter_inv l" and time: "on_time l r"
  obtain h t where r: "r = (h, t)" by fastforce
  note step = allow_response_step[OF inv time[unfolded r], folded r]
  have t: "w_second (all l) \<le> t" using time by (simp add: on_time_def r)
  show "limiter_inv (snd (allow_response l r))" using step(1) .
  show "fst (allow_response l r) \<Longrightarrow> \<not> snd r < w_second (all l)
      \<and> host_spent (snd (allow_response l r)) r = host_spent l r + 1 \<and> host_spent (snd (allow_response l r)) r \<le> 20"
    using step(3)[of h] step(5) t by (simp add: r)
  show "\<not> fst (allow_response l r) \<or> w \<noteq> r \<Longrightarrow> \<not> snd w < w_second (all (snd (allow_response l r))) \<Longrightarrow>
      host_spent (snd (allow_response l r)) w = host_spent l w"
    using step(2) step(3)[of "fst w"] t r by (cases w) (auto simp: host_spent_def)
  show "snd w < w_second (all l) \<Longrightarrow> snd w < w_second (all (snd (allow_response l r)))"
    using step(2) t by simp
qed

interpretation stun_total: budget allow_response on_time "\<lambda>l r. snd r" "\<lambda>r. 1" total_spent
  "\<lambda>l t. t < w_second (all l)" limiter_inv 1000
proof unfold_locales
  fix l r and u :: int
  assume inv: "limiter_inv l" and time: "on_time l r"
  obtain h t where r: "r = (h, t)" by fastforce
  note step = allow_response_step[OF inv time[unfolded r], folded r]
  have t: "w_second (all l) \<le> t" using time by (simp add: on_time_def r)
  show "limiter_inv (snd (allow_response l r))" using step(1) .
  show "fst (allow_response l r) \<Longrightarrow> \<not> snd r < w_second (all l)
      \<and> total_spent (snd (allow_response l r)) (snd r) = total_spent l (snd r) + 1
      \<and> total_spent (snd (allow_response l r)) (snd r) \<le> 1000"
    using step(4,5) t by (simp add: r)
  show "\<not> fst (allow_response l r) \<or> u \<noteq> snd r \<Longrightarrow> \<not> u < w_second (all (snd (allow_response l r))) \<Longrightarrow>
      total_spent (snd (allow_response l r)) u = total_spent l u"
    using step(2,4) t r by (cases "u = t") (auto simp: total_spent_def)
  show "u < w_second (all l) \<Longrightarrow> u < w_second (all (snd (allow_response l r)))"
    using step(2) t by simp
qed

section \<open>Directory lookups\<close>

record lookup_window =
  lw_at :: nanos
  lw_count :: nat

definition minute :: nanos where
  "minute = 60000000000"

text \<open>\<open>permitLookup\<close> for the host part of the remote address. A host without an entry has the zero
  window, whose time is more than a minute ago.\<close>

definition permitLookup ::
  "string \<Rightarrow> nat \<Rightarrow> nanos \<Rightarrow> (string \<times> lookup_window) list \<Rightarrow> bool \<times> (string \<times> lookup_window) list"
where
  "permitLookup host cost now lookups =
     (let full = (length lookups \<ge> 4096);
          lookups = (if full then filter (\<lambda>(k, v). now - lw_at v < minute) lookups else lookups)
      in if full \<and> map_of lookups host = None \<and> length lookups \<ge> 4096 then (False, lookups)
         else
           let w = (case map_of lookups host of
                      None \<Rightarrow> \<lparr>lw_at = now, lw_count = 0\<rparr>
                    | Some v \<Rightarrow> (if now - lw_at v \<ge> minute then \<lparr>lw_at = now, lw_count = 0\<rparr> else v))
           in if lw_count w + cost > 240 then (False, lookups)
              else (True, AList.update host (w\<lparr>lw_count := lw_count w + cost\<rparr>) lookups))"

text \<open>The table with the time of the last request.\<close>

type_synonym lookup_state = "(string \<times> lookup_window) list \<times> nanos"
type_synonym lookup_request = "string \<times> nat \<times> nanos"

definition lookup_step :: "lookup_state \<Rightarrow> lookup_request \<Rightarrow> bool \<times> lookup_state" where
  "lookup_step s r = (case r of (host, cost, now) \<Rightarrow>
     case permitLookup host cost now (fst s) of (b, lookups) \<Rightarrow> (b, (lookups, now)))"

definition lookup_inv :: "lookup_state \<Rightarrow> bool" where
  "lookup_inv s \<longleftrightarrow> distinct (map fst (fst s)) \<and> (\<forall>h v. map_of (fst s) h = Some v \<longrightarrow> lw_at v \<le> snd s)"

text \<open>The window a request falls in: the host's open one, or a new one that starts now.\<close>

definition lookup_slot :: "lookup_state \<Rightarrow> lookup_request \<Rightarrow> string \<times> nanos" where
  "lookup_slot s r = (case r of (host, cost, now) \<Rightarrow>
     (host, case map_of (fst s) host of None \<Rightarrow> now | Some v \<Rightarrow> (if now - lw_at v \<ge> minute then now else lw_at v)))"

definition lookup_spent :: "lookup_state \<Rightarrow> string \<times> nanos \<Rightarrow> nat" where
  "lookup_spent s w = (case map_of (fst s) (fst w) of None \<Rightarrow> 0 | Some v \<Rightarrow> (if lw_at v = snd w then lw_count v else 0))"

definition lookup_dead :: "lookup_state \<Rightarrow> string \<times> nanos \<Rightarrow> bool" where
  "lookup_dead s w \<longleftrightarrow> (case map_of (fst s) (fst w) of None \<Rightarrow> snd w + minute \<le> snd s | Some v \<Rightarrow> snd w < lw_at v)"

lemma map_of_filter_distinct:
  "distinct (map fst xs) \<Longrightarrow> map_of (filter (\<lambda>(k, v). P v) xs) k =
     (case map_of xs k of None \<Rightarrow> None | Some v \<Rightarrow> if P v then Some v else None)"
  by (induction xs) (auto simp: map_of_eq_None_iff split: option.splits dest: map_of_SomeD)

text \<open>One step, seen through the entry of each host.\<close>

lemma lookup_step_cases:
  assumes "lookup_inv (lks, past)" "past \<le> now"
  obtains lks1 where
    "distinct (map fst lks1)"
    "\<And>h. map_of lks1 h = map_of lks h \<or> (map_of lks1 h = None \<and> (\<exists>v. map_of lks h = Some v \<and> lw_at v + minute \<le> now))"
    "lookup_step (lks, past) (host, cost, now) = (False, (lks1, now))
     \<or> (\<exists>w. w = (case map_of lks host of None \<Rightarrow> \<lparr>lw_at = now, lw_count = 0\<rparr>
              | Some v \<Rightarrow> (if now - lw_at v \<ge> minute then \<lparr>lw_at = now, lw_count = 0\<rparr> else v))
          \<and> lw_count w + cost \<le> 240
          \<and> lookup_step (lks, past) (host, cost, now) =
              (True, (AList.update host (w\<lparr>lw_count := lw_count w + cost\<rparr>) lks1, now)))"
proof -
  let ?lks1 = "if length lks \<ge> 4096 then filter (\<lambda>(k, v). now - lw_at v < minute) lks else lks"
  have dist: "distinct (map fst lks)" using assms(1) by (simp add: lookup_inv_def)
  then have d1: "distinct (map fst ?lks1)" by (simp add: distinct_map_filter)
  have m: "map_of ?lks1 h = map_of lks h \<or> (map_of ?lks1 h = None \<and> (\<exists>v. map_of lks h = Some v \<and> lw_at v + minute \<le> now))" for h
    using map_of_filter_distinct[OF dist, of "\<lambda>v. now - lw_at v < minute" h] by (auto split: option.splits)
  show ?thesis
  proof (rule that[OF d1 m])
    have same: "(case map_of ?lks1 host of None \<Rightarrow> \<lparr>lw_at = now, lw_count = 0\<rparr>
          | Some v \<Rightarrow> (if now - lw_at v \<ge> minute then \<lparr>lw_at = now, lw_count = 0\<rparr> else v)) =
        (case map_of lks host of None \<Rightarrow> \<lparr>lw_at = now, lw_count = 0\<rparr>
          | Some v \<Rightarrow> (if now - lw_at v \<ge> minute then \<lparr>lw_at = now, lw_count = 0\<rparr> else v))"
      using m[of host] by (auto split: option.split)
    show "lookup_step (lks, past) (host, cost, now) = (False, (?lks1, now))
     \<or> (\<exists>w. w = (case map_of lks host of None \<Rightarrow> \<lparr>lw_at = now, lw_count = 0\<rparr>
              | Some v \<Rightarrow> (if now - lw_at v \<ge> minute then \<lparr>lw_at = now, lw_count = 0\<rparr> else v))
          \<and> lw_count w + cost \<le> 240
          \<and> lookup_step (lks, past) (host, cost, now) =
              (True, (AList.update host (w\<lparr>lw_count := lw_count w + cost\<rparr>) ?lks1, now)))"
      unfolding lookup_step_def permitLookup_def Let_def same prod.case fst_conv by (auto simp: not_less)
  qed
qed


definition lookup_legal :: "lookup_state \<Rightarrow> lookup_request \<Rightarrow> bool" where
  "lookup_legal s r \<longleftrightarrow> snd s \<le> snd (snd r)"

text \<open>The entry of a host after a request: kept, or swept away when its window is over; a granted
  request charges the window it falls in.\<close>

definition kept_or_swept :: "nanos \<Rightarrow> lookup_window option \<Rightarrow> lookup_window option \<Rightarrow> bool" where
  "kept_or_swept now v v' \<longleftrightarrow> v' = v \<or> (v' = None \<and> (case v of None \<Rightarrow> False | Some w \<Rightarrow> lw_at w + minute \<le> now))"

lemma lookup_entries:
  assumes "lookup_inv s" "snd s \<le> now" and r: "r = (host, cost, now)"
  shows "snd (snd (lookup_step s r)) = now" "distinct (map fst (fst (snd (lookup_step s r))))"
    and "\<not> fst (lookup_step s r) \<or> h \<noteq> host \<Longrightarrow>
      kept_or_swept now (map_of (fst s) h) (map_of (fst (snd (lookup_step s r))) h)"
    and "fst (lookup_step s r) \<Longrightarrow> map_of (fst (snd (lookup_step s r))) host =
        Some \<lparr>lw_at = snd (lookup_slot s r), lw_count = lookup_spent s (lookup_slot s r) + cost\<rparr>
      \<and> lookup_spent s (lookup_slot s r) + cost \<le> 240"
proof -
  obtain lks past where s: "s = (lks, past)" by fastforce
  have inv: "lookup_inv (lks, past)" and time: "past \<le> now" using assms by (simp_all add: s)
  have pos: "0 < minute" by (simp add: minute_def)
  define w where "w = (case map_of lks host of None \<Rightarrow> \<lparr>lw_at = now, lw_count = 0\<rparr>
              | Some v \<Rightarrow> (if now - lw_at v \<ge> minute then \<lparr>lw_at = now, lw_count = 0\<rparr> else v))"
  have w: "snd (lookup_slot s r) = lw_at w" "lookup_spent s (lookup_slot s r) = lw_count w"
    using pos by (auto simp: w_def s r lookup_slot_def lookup_spent_def split: option.split)
  obtain lks1 where d: "distinct (map fst lks1)"
    and m: "\<And>h. map_of lks1 h = map_of lks h \<or> (map_of lks1 h = None \<and> (\<exists>v. map_of lks h = Some v \<and> lw_at v + minute \<le> now))"
    and out: "lookup_step s r = (False, (lks1, now))
     \<or> lw_count w + cost \<le> 240 \<and> lookup_step s r = (True, (AList.update host (w\<lparr>lw_count := lw_count w + cost\<rparr>) lks1, now))"
    by (rule lookup_step_cases[OF inv time, of host cost]; unfold w_def s r) blast
  have swept: "kept_or_swept now (map_of lks h) (map_of lks1 h)" for h
    using m[of h] by (auto simp: kept_or_swept_def)
  from out show "snd (snd (lookup_step s r)) = now" "distinct (map fst (fst (snd (lookup_step s r))))"
    using d by (auto simp: AList.distinct_update)
  show "\<not> fst (lookup_step s r) \<or> h \<noteq> host \<Longrightarrow>
      kept_or_swept now (map_of (fst s) h) (map_of (fst (snd (lookup_step s r))) h)"
    using out swept[of h] by (auto simp: s AList.update_conv')
  show "fst (lookup_step s r) \<Longrightarrow> map_of (fst (snd (lookup_step s r))) host =
        Some \<lparr>lw_at = snd (lookup_slot s r), lw_count = lookup_spent s (lookup_slot s r) + cost\<rparr>
      \<and> lookup_spent s (lookup_slot s r) + cost \<le> 240"
    unfolding w using out by (auto simp: AList.update_conv')
qed

interpretation directory: budget lookup_step lookup_legal lookup_slot "\<lambda>r. fst (snd r)" lookup_spent lookup_dead
  lookup_inv 240
proof unfold_locales
  fix s r and w :: "string \<times> nanos"
  assume inv: "lookup_inv s" and legal: "lookup_legal s r"
  obtain host cost now where r: "r = (host, cost, now)" by (metis prod_cases3)
  have time: "snd s \<le> now" using legal by (simp add: lookup_legal_def r)
  note step = lookup_entries[OF inv time r]
  obtain g t where w: "w = (g, t)" by fastforce
  have at: "map_of (fst s) h = Some v \<Longrightarrow> lw_at v \<le> now" for h v using inv time by (force simp: lookup_inv_def)
  have pos: "0 < minute" by (simp add: minute_def)
  have slot: "fst (lookup_slot s r) = host" "snd (lookup_slot s r) \<le> now"
    using at[of host] by (auto simp: lookup_slot_def r split: option.split)
  show "lookup_inv (snd (lookup_step s r))"
    unfolding lookup_inv_def
  proof (intro conjI allI impI)
    fix h v assume v: "map_of (fst (snd (lookup_step s r))) h = Some v"
    show "lw_at v \<le> snd (snd (lookup_step s r))"
    proof (cases "fst (lookup_step s r) \<and> h = host")
      case True
      then show ?thesis using step(1,4) slot(2) v by auto
    next
      case False
      then have "map_of (fst s) h = Some v" using step(3)[of h] v by (auto simp: kept_or_swept_def)
      then show ?thesis using at step(1) by simp
    qed
  qed (rule step(2))
  show "fst (lookup_step s r) \<Longrightarrow> \<not> lookup_dead s (lookup_slot s r)
      \<and> lookup_spent (snd (lookup_step s r)) (lookup_slot s r) = lookup_spent s (lookup_slot s r) + fst (snd r)
      \<and> lookup_spent (snd (lookup_step s r)) (lookup_slot s r) \<le> 240"
  proof -
    assume g: "fst (lookup_step s r)"
    have "\<not> lookup_dead s (lookup_slot s r)"
      using at[of host] time pos by (auto simp: lookup_dead_def lookup_slot_def r split: option.split)
    moreover have "lookup_spent (snd (lookup_step s r)) (lookup_slot s r) = lookup_spent s (lookup_slot s r) + cost"
      using step(4)[OF g] slot(1) unfolding lookup_spent_def[of "snd (lookup_step s r)"] by simp
    ultimately show ?thesis using step(4)[OF g] by (simp add: r)
  qed
  show "\<not> fst (lookup_step s r) \<or> w \<noteq> lookup_slot s r \<Longrightarrow> \<not> lookup_dead (snd (lookup_step s r)) w \<Longrightarrow>
      lookup_spent (snd (lookup_step s r)) w = lookup_spent s w"
  proof (cases "fst (lookup_step s r) \<and> g = host")
    case True
    assume "\<not> fst (lookup_step s r) \<or> w \<noteq> lookup_slot s r" "\<not> lookup_dead (snd (lookup_step s r)) w"
    then have "t \<noteq> snd (lookup_slot s r)" "\<not> t < snd (lookup_slot s r)"
      using True w slot(1) step(4) by (auto simp: lookup_dead_def prod_eq_iff)
    then have "lookup_spent s w = 0" using True w pos by (auto simp: lookup_spent_def lookup_slot_def r split: option.splits if_splits)
    moreover have "lookup_spent (snd (lookup_step s r)) w = 0"
      using True w step(4) \<open>t \<noteq> snd (lookup_slot s r)\<close> by (simp add: lookup_spent_def)
    ultimately show ?thesis by simp
  next
    case False
    assume live: "\<not> lookup_dead (snd (lookup_step s r)) w"
    have "kept_or_swept now (map_of (fst s) g) (map_of (fst (snd (lookup_step s r))) g)" using False step(3)[of g] by blast
    then show ?thesis using live step(1) w pos
      by (auto simp: kept_or_swept_def lookup_spent_def lookup_dead_def split: option.splits)
  qed
  show "lookup_dead s w \<Longrightarrow> lookup_dead (snd (lookup_step s r)) w"
  proof (cases "fst (lookup_step s r) \<and> g = host")
    case True
    assume "lookup_dead s w"
    then have "t < snd (lookup_slot s r)"
      using True w time pos at[of host] by (auto simp: lookup_dead_def lookup_slot_def r split: option.splits)
    then show ?thesis using True w step(4) by (simp add: lookup_dead_def)
  next
    case False
    assume "lookup_dead s w"
    moreover have "kept_or_swept now (map_of (fst s) g) (map_of (fst (snd (lookup_step s r))) g)" using False step(3)[of g] by blast
    ultimately show ?thesis using w step(1) time
      by (auto simp: kept_or_swept_def lookup_dead_def split: option.splits)
  qed
qed

section \<open>Properties\<close>

text \<open>The STUN endpoint cannot be used to flood. As long as the clock does not go back, in every
  second at most 20 responses are sent to one source and at most 1000 altogether, whatever the
  sequence of requests.\<close>

theorem stun_responses_bounded:
  assumes "legal_run allow_response on_time fresh_limiter rs"
  shows "accepted_cost allow_response (\<lambda>l r. r) (\<lambda>r. 1) fresh_limiter rs (host, t) \<le> 20
    \<and> accepted_cost allow_response (\<lambda>l r. snd r) (\<lambda>r. 1) fresh_limiter rs t \<le> 1000"
proof -
  have "limiter_inv fresh_limiter" "host_spent fresh_limiter (host, t) = 0" "total_spent fresh_limiter t = 0"
    by (simp_all add: limiter_inv_def fresh_limiter_def host_spent_def total_spent_def host_count_def)
  then show ?thesis using stun_host.never_over_budget stun_total.never_over_budget assms by blast
qed

lemma stun_responses_bounded_witness:
  "accepted_cost allow_response (\<lambda>l r. r) (\<lambda>r. 1) fresh_limiter [(''a'', 5), (''b'', 5), (''a'', 6)] (''a'', 5) \<le> 20"
  using stun_responses_bounded[of "[(''a'', 5), (''b'', 5), (''a'', 6)]" "''a''" 5]
  by (simp add: on_time_def allow_response_def fresh_limiter_def)

text \<open>The relay's directory cannot be enumerated. As long as the clock does not go back, the
  lookups granted to one host cost at most 240 per window of a minute; a meeting lookup costs 12.\<close>

theorem directory_lookups_bounded:
  assumes "legal_run lookup_step lookup_legal ([], t0) rs"
  shows "accepted_cost lookup_step lookup_slot (\<lambda>r. fst (snd r)) ([], t0) rs (host, t) \<le> 240"
  by (rule directory.never_over_budget[OF _ assms]) (simp_all add: lookup_inv_def lookup_spent_def)

lemma directory_lookups_bounded_witness:
  "accepted_cost lookup_step lookup_slot (\<lambda>r. fst (snd r)) ([], 0) [(''h'', 200, 1), (''h'', 50, 2), (''h'', 40, 3)] (''h'', 1) \<le> 240"
  by (rule directory_lookups_bounded) (simp add: lookup_legal_def lookup_step_def permitLookup_def minute_def)

end
