(* ===== verification/Stun.thy ===== *)
theory Stun
  imports RateLimit
begin

text \<open>
  The binding-only STUN endpoint of \<open>internal/natstun/server.go\<close>: the parser of requests, the
  responses, and the handling of one datagram with the response limiter. The checksum
  (\<open>crc32.ChecksumIEEE\<close>) is a parameter. An address is the bytes of its IP (4 or 16) and its port.
\<close>

section \<open>Limits and addresses\<close>

definition cookie :: "32 word" where
  "cookie = 0x2112a442"

definition maxRequest :: nat where
  "maxRequest = 576"

definition maxUnknown :: nat where
  "maxUnknown = (maxRequest - 20) div 4"

text \<open>\<open>(n + 3) &^ 3\<close>.\<close>

definition pad4 :: "nat \<Rightarrow> nat" where
  "pad4 n = (n + 3) div 4 * 4"

definition maxResponse :: nat where
  "maxResponse = 20 + 8 + 4 + pad4 (2 * maxUnknown) + 8"

record udp_addr =
  ip :: bytes
  port :: int

definition to4 :: "bytes \<Rightarrow> bytes option" where
  "to4 a = (if length a = 4 then Some a
     else if length a = 16 \<and> take 12 a = replicate 10 0 @ [0xff, 0xff] then Some (drop 12 a) else None)"

definition is_unspecified :: "bytes \<Rightarrow> bool" where
  "is_unspecified a \<longleftrightarrow> list_all (\<lambda>b. b = 0) a"

definition is_multicast :: "bytes \<Rightarrow> bool" where
  "is_multicast a \<longleftrightarrow> (if length a = 4 then a ! 0 AND 0xf0 = 0xe0 else a ! 0 = 0xff)"

section \<open>Responses\<close>

definition u16_at :: "nat \<Rightarrow> bytes \<Rightarrow> 16 word" where
  "u16_at off b = de16 (take 2 (drop off b))"

definition u32_at :: "nat \<Rightarrow> bytes \<Rightarrow> 32 word" where
  "u32_at off b = de32 (take 4 (drop off b))"

definition put :: "nat \<Rightarrow> bytes \<Rightarrow> bytes \<Rightarrow> bytes" where
  "put off d b = take off b @ d @ drop (off + length d) b"

definition fingerprint_xor :: "32 word" where
  "fingerprint_xor = 0x5354554e"

definition finishResponse :: "(bytes \<Rightarrow> 32 word) \<Rightarrow> bytes \<Rightarrow> bytes \<Rightarrow> 16 word \<Rightarrow> bool \<Rightarrow> bytes" where
  "finishResponse crc response request kind fingerprint =
     (let r = put 0 (be16 kind) response;
          r = put 2 (be16 (word_of_nat (length response - 20))) r;
          r = put 4 (take 16 (drop 4 request)) r
      in if fingerprint then
           let offset = length r - 8;
               r = put offset (be16 0x8028) r;
               r = put (offset + 2) (be16 4) r
           in put (offset + 4) (be32 (crc (take offset r) XOR fingerprint_xor)) r
         else r)"

definition bindingError :: "(bytes \<Rightarrow> 32 word) \<Rightarrow> bytes \<Rightarrow> 16 word \<Rightarrow> 16 word list \<Rightarrow> bool \<Rightarrow> bytes" where
  "bindingError crc request code unknown fingerprint =
     (let sz = 28 + (if unknown = [] then 0 else 4 + pad4 (2 * length unknown)) + (if fingerprint then 8 else 0);
          r = replicate sz 0;
          r = put 20 (be16 0x0009) r;
          r = put 22 (be16 4) r;
          r = put 26 [ucast (code div 100), ucast (code mod 100)] r;
          r = (if unknown = [] then r
               else put 28 (be16 0x000a @ be16 (word_of_nat (2 * length unknown)) @ concat (map be16 unknown)) r)
      in finishResponse crc r request 0x0111 fingerprint)"

definition credential_kinds :: "16 word list" where
  "credential_kinds = [0x0006, 0x0008, 0x0014, 0x0015, 0x001c, 0x001d, 0x001e, 0x8002]"

text \<open>The attribute loop: fingerprint seen, unknown comprehension-required kinds, credentials seen.
  \<open>None\<close> is a datagram that is dropped.\<close>

function scan_attributes ::
  "(bytes \<Rightarrow> 32 word) \<Rightarrow> bytes \<Rightarrow> nat \<Rightarrow> bool \<Rightarrow> 16 word list \<Rightarrow> bool \<Rightarrow> (bool \<times> 16 word list \<times> bool) option"
where
  "scan_attributes crc request offset fp unknown cred =
     (if offset \<ge> length request then Some (fp, unknown, cred)
      else if offset + 4 > length request then None
      else
        let kind = u16_at offset request; sz = unat (u16_at (offset + 2) request);
            next = offset + 4 + pad4 sz
        in if next > length request then None
           else if kind = 0x8028 then
             (if sz \<noteq> 4 \<or> next \<noteq> length request
                 \<or> u32_at (offset + 4) request \<noteq> crc (take offset request) XOR fingerprint_xor
              then None else scan_attributes crc request next True unknown cred)
           else if kind \<in> set credential_kinds then scan_attributes crc request next fp unknown True
           else scan_attributes crc request next fp
             (if kind < 0x8000 \<and> kind \<notin> set unknown then unknown @ [kind] else unknown) cred)"
  by pat_completeness auto
termination
  by (relation "measure (\<lambda>(crc, request, offset, fp, unknown, cred). length request - offset)") auto

declare scan_attributes.simps [simp del]

definition bindingResponse :: "(bytes \<Rightarrow> 32 word) \<Rightarrow> bytes \<Rightarrow> udp_addr option \<Rightarrow> bytes option" where
  "bindingResponse crc request addr =
     (if length request < 20 \<or> length request > maxRequest \<or> u16_at 0 request \<noteq> 1
         \<or> u32_at 4 request \<noteq> cookie \<or> unat (u16_at 2 request) \<noteq> length request - 20
         \<or> length request mod 4 \<noteq> 0 then None
      else case addr of None \<Rightarrow> None
      | Some a \<Rightarrow>
        if port a \<le> 0 \<or> port a > 65535 then None
        else case scan_attributes crc request 20 False [] False of None \<Rightarrow> None
        | Some (fp, unknown, cred) \<Rightarrow>
          (case (case to4 (ip a) of Some v4 \<Rightarrow> Some (v4, 1) | None \<Rightarrow> if length (ip a) = 16 then Some (ip a, 2) else None) of
             None \<Rightarrow> None
           | Some (addr_bytes, family) \<Rightarrow>
             if is_unspecified addr_bytes \<or> is_multicast addr_bytes then None
             else if cred then Some (bindingError crc request 400 [] fp)
             else if unknown \<noteq> [] then Some (bindingError crc request 420 unknown fp)
             else
               let r = replicate (28 + length addr_bytes + (if fp then 8 else 0)) 0;
                   r = put 20 (be16 0x0020) r;
                   r = put 22 (be16 (word_of_nat (4 + length addr_bytes))) r;
                   r = put 25 [family] r;
                   r = put 26 (be16 (word_of_int (port a) XOR ucast (drop_bit 16 cookie))) r;
                   r = put 28 (map2 (XOR) addr_bytes (drop 4 request)) r
               in Some (finishResponse crc r request 0x0101 fp)))"

text \<open>One datagram of the serving loop: the response sent to its source, if any. \<open>key\<close> is the source
  key, \<open>second\<close> the Unix time.\<close>

definition serve_datagram ::
  "(bytes \<Rightarrow> 32 word) \<Rightarrow> string \<Rightarrow> int \<Rightarrow> bytes \<Rightarrow> udp_addr option \<Rightarrow> limiter \<Rightarrow> bytes option \<times> limiter"
where
  "serve_datagram crc key second packet addr l =
     (if length packet > maxRequest then (None, l)
      else case bindingResponse crc packet addr of None \<Rightarrow> (None, l)
      | Some response \<Rightarrow>
          (case allow_response l (key, second) of (ok, l) \<Rightarrow> (if ok then Some response else None, l)))"

section \<open>Lengths and layout\<close>

declare be16.enc_length [simp] be32.enc_length [simp] be16.dec_enc [simp] be32.dec_enc [simp]

lemma put_length [simp]: "off + length d \<le> length b \<Longrightarrow> length (put off d b) = length b"
  by (simp add: put_def)

lemma put_nth: "off + length d \<le> length b \<Longrightarrow> i < length b \<Longrightarrow>
    put off d b ! i = (if off \<le> i \<and> i < off + length d then d ! (i - off) else b ! i)"
  by (auto simp: put_def nth_append)

lemma put_get: "off + length d \<le> length b \<Longrightarrow> take (length d) (drop off (put off d b)) = d"
  by (simp add: put_def)

definition part :: "nat \<Rightarrow> nat \<Rightarrow> bytes \<Rightarrow> bytes" where
  "part off n b = take n (drop off b)"

lemma part_put_same: "off + length d \<le> length b \<Longrightarrow> n = length d \<Longrightarrow> part off n (put off d b) = d"
  by (simp add: part_def put_get)

lemma part_put_before:
  "off + length d \<le> length b \<Longrightarrow> n + m \<le> off \<Longrightarrow> part n m (put off d b) = part n m b"
  unfolding part_def by (rule nth_equalityI) (auto simp: put_nth)

lemma part_put_after:
  "off + length d \<le> length b \<Longrightarrow> n + m \<le> length b \<Longrightarrow> off + length d \<le> n \<Longrightarrow>
     part n m (put off d b) = part n m b"
  unfolding part_def by (rule nth_equalityI) (auto simp: put_nth)

lemma u16_at_part: "u16_at off b = de16 (part off 2 b)"
  by (simp add: u16_at_def part_def)

lemma u32_at_part: "u32_at off b = de32 (part off 4 b)"
  by (simp add: u32_at_def part_def)

lemma part_length [simp]: "off + n \<le> length b \<Longrightarrow> length (part off n b) = n"
  by (simp add: part_def)

lemma take_is_part: "take n b = part 0 n b"
  by (simp add: part_def)

lemma part_part: "i + m \<le> n \<Longrightarrow> part (a + i) m b = part i m (part a n b)"
  by (simp add: part_def drop_take add.commute)

lemmas put_parts = part_put_same part_put_before part_put_after

lemma finish_length: "28 \<le> length r \<Longrightarrow> 20 \<le> length q \<Longrightarrow> (fp \<longrightarrow> 36 \<le> length r) \<Longrightarrow>
    length (finishResponse crc r q kind fp) = length r"
  by (simp add: finishResponse_def Let_def)

lemma finish_body:
  assumes "28 \<le> length r" "20 \<le> length q" "20 \<le> n" "n + m + (if fp then 8 else 0) \<le> length r"
    "fp \<longrightarrow> 36 \<le> length r"
  shows "part n m (finishResponse crc r q kind fp) = part n m r"
  using assms by (auto simp: finishResponse_def Let_def part_put_before part_put_after)

lemma finish_head:
  assumes "28 \<le> length r" "20 \<le> length q" "fp \<longrightarrow> 36 \<le> length r"
  shows "part 0 2 (finishResponse crc r q kind fp) = be16 kind"
    and "part 2 2 (finishResponse crc r q kind fp) = be16 (word_of_nat (length r - 20))"
    and "part 4 16 (finishResponse crc r q kind fp) = part 4 16 q"
  using assms by (auto simp: finishResponse_def Let_def put_parts part_def[of 4 16 q, symmetric])

lemma finish_fingerprint:
  fixes kind :: "16 word"
  assumes "36 \<le> length r" "20 \<le> length q"
    and f_def: "f = finishResponse crc r q kind True"
  shows "part (length r - 8) 4 f = be16 0x8028 @ be16 4"
    and "u32_at (length r - 4) f = crc (take (length r - 8) f) XOR fingerprint_xor"
proof -
  define r1 where "r1 = put 4 (take 16 (drop 4 q)) (put 2 (be16 (word_of_nat (length r - 20))) (put 0 (be16 kind) r))"
  define r2 where "r2 = put (length r - 8 + 2) (be16 4) (put (length r - 8) (be16 0x8028) r1)"
  have l1: "length r1 = length r" using assms(1,2) by (simp add: r1_def)
  have l2: "length r2 = length r" using assms(1) by (simp add: r2_def l1)
  have f: "f = put (length r - 8 + 4) (be32 (crc (take (length r - 8) r2) XOR fingerprint_xor)) r2"
    unfolding f_def finishResponse_def Let_def r1_def[symmetric] by (simp add: l1 r2_def)
  have tail: "part (length r - 8) 4 r2 = be16 0x8028 @ be16 4"
  proof -
    have "part (length r - 8) 4 r2 = part (length r - 8) 2 r2 @ part (length r - 8 + 2) 2 r2"
      unfolding part_def by (simp add: take_add[of 2 2, simplified])
    also have "part (length r - 8) 2 r2 = be16 0x8028" using assms(1) l1 by (simp add: r2_def put_parts)
    also have "part (length r - 8 + 2) 2 r2 = be16 4" using assms(1) l1 by (simp add: r2_def put_parts)
    finally show ?thesis .
  qed
  show "part (length r - 8) 4 f = be16 0x8028 @ be16 4"
    using assms(1) l2 tail by (simp add: f part_put_before part_put_after)
  have four: "length r - 8 + 4 = length r - 4" using assms(1) by simp
  have "take (length r - 8) f = take (length r - 8) r2"
    using assms(1) l2 by (simp add: f take_is_part part_put_before part_put_after)
  then show "u32_at (length r - 4) f = crc (take (length r - 8) f) XOR fingerprint_xor"
    using assms(1) l2 by (simp add: u32_at_part f part_put_same)
qed

section \<open>The attribute loop\<close>

lemma pad4_bounds: "n \<le> pad4 n" "pad4 n < n + 4" "pad4 n mod 4 = 0"
proof -
  have "(n + 3) div 4 * 4 + (n + 3) mod 4 = n + 3" "(n + 3) mod 4 < 4" by (rule div_mult_mod_eq) simp
  then show "n \<le> pad4 n" "pad4 n < n + 4" unfolding pad4_def by linarith+
  show "pad4 n mod 4 = 0" unfolding pad4_def by (rule mod_mult_self2_is_0)
qed

text \<open>The kinds collected are distinct and each costs the request four bytes, a fingerprint eight.\<close>

lemma scan_collects:
  "scan_attributes crc q off fp u c = Some (fp', u', c') \<Longrightarrow> off \<le> length q \<Longrightarrow> distinct u \<Longrightarrow> (\<forall>k \<in> set u. k < 0x8000) \<Longrightarrow>
     distinct u' \<and> (\<forall>k \<in> set u'. k < 0x8000) \<and> 4 * length u' + off + (if fp' \<and> \<not> fp then 8 else 0) \<le> 4 * length u + length q"
proof (induction crc q off fp u c rule: scan_attributes.induct)
  case (1 crc q off fp u c)
  show ?case
  proof (cases "off \<ge> length q")
    case True
    then show ?thesis using "1.prems" by (simp add: scan_attributes.simps)
  next
    case False
    define k where "k = u16_at off q"
    define n where "n = off + 4 + pad4 (unat (u16_at (off + 2) q))"
    have big: "off + 4 \<le> n" by (simp add: n_def)
    note eq = scan_attributes.simps[of crc q off fp u c, unfolded Let_def, folded k_def n_def]
    have ok: "off + 4 \<le> length q" "n \<le> length q" using "1.prems"(1) False by (auto simp: eq split: if_splits)
    note IH = "1.IH"[OF False _ refl refl, folded k_def, unfolded n_def[symmetric]]
    consider (finger) "k = 0x8028" | (cred) "k \<noteq> 0x8028" "k \<in> set credential_kinds"
      | (other) "k \<noteq> 0x8028" "k \<notin> set credential_kinds" by blast
    then show ?thesis
    proof cases
      case finger
      then have "n = length q" "n = off + 8" and rest: "scan_attributes crc q n True u c = Some (fp', u', c')"
        using "1.prems"(1) False ok unfolding eq n_def by (auto simp: pad4_def split: if_splits)
      then show ?thesis using "1.prems"(3,4) by (simp add: scan_attributes.simps)
    next
      case cred
      then have "scan_attributes crc q n fp u True = Some (fp', u', c')"
        using "1.prems"(1) False ok by (simp add: eq)
      with IH(2) cred False ok "1.prems"(3,4) big show ?thesis by force
    next
      case other
      define u1 where "u1 = (if k < 0x8000 \<and> k \<notin> set u then u @ [k] else u)"
      have "scan_attributes crc q n fp u1 c = Some (fp', u', c')"
        using "1.prems"(1) False ok other by (simp add: eq u1_def)
      moreover have "distinct u1" "\<forall>k \<in> set u1. k < 0x8000" "length u1 \<le> length u + 1"
        using "1.prems"(3,4) by (auto simp: u1_def)
      ultimately show ?thesis using IH(3)[folded u1_def] other False ok big by force
    qed
  qed
qed

section \<open>What a response says\<close>

text \<open>The address a client reads out of a success response (XOR-MAPPED-ADDRESS of RFC 8489): the
  port and the address bytes under the cookie and the transaction identifier.\<close>

definition mapped_port :: "bytes \<Rightarrow> int" where
  "mapped_port r = uint (u16_at 26 r XOR ucast (drop_bit 16 cookie))"

definition mapped_ip :: "bytes \<Rightarrow> bytes" where
  "mapped_ip r = map2 (XOR) (part 28 (unat (u16_at 22 r) - 4) r) (part 4 16 r)"

text \<open>The error code and the kinds listed by an error response.\<close>

definition error_code :: "bytes \<Rightarrow> nat" where
  "error_code r = unat (r ! 26) * 100 + unat (r ! 27)"

definition listed_kinds :: "bytes \<Rightarrow> 16 word list" where
  "listed_kinds r = (if length r < 32 \<or> u16_at 28 r \<noteq> 0x000a then []
     else map (\<lambda>i. u16_at (32 + 2 * i) r) [0..<unat (u16_at 30 r) div 2])"

definition framed :: "bytes \<Rightarrow> bytes \<Rightarrow> bool" where
  "framed q r \<longleftrightarrow> 28 \<le> length r \<and> length r mod 4 = 0 \<and> unat (u16_at 2 r) = length r - 20 \<and> part 4 16 r = part 4 16 q"

lemma unat_of_nat16: "n < 65536 \<Longrightarrow> unat (word_of_nat n :: 16 word) = n"
  by (simp add: unsigned_of_nat take_bit_nat_eq_self)

lemma finish_framed:
  assumes "28 \<le> length r" "length r mod 4 = 0" "length r \<le> 1000" "20 \<le> length q" "fp \<longrightarrow> 36 \<le> length r"
  shows "framed q (finishResponse crc r q kind fp)" "u16_at 0 (finishResponse crc r q kind fp) = kind"
proof -
  have "unat (word_of_nat (length r - 20) :: 16 word) = length r - 20"
    by (rule unat_of_nat16) (use assms in simp)
  with assms show "framed q (finishResponse crc r q kind fp)" unfolding framed_def u16_at_part
    by (simp only: finish_length finish_head be16.dec_enc)
  show "u16_at 0 (finishResponse crc r q kind fp) = kind" using assms by (simp add: u16_at_part finish_head)
qed

text \<open>The body of an error response before its header and fingerprint are filled in.\<close>

definition error_size :: "16 word list \<Rightarrow> bool \<Rightarrow> nat" where
  "error_size unknown fp =
     28 + (if unknown = [] then 0 else 4 + pad4 (2 * length unknown)) + (if fp then 8 else 0)"

definition error_body :: "16 word \<Rightarrow> 16 word list \<Rightarrow> bool \<Rightarrow> bytes" where
  "error_body code unknown fp =
     (let r = put 26 [ucast (code div 100), ucast (code mod 100)] (put 22 (be16 4) (put 20 (be16 0x0009)
        (replicate (error_size unknown fp) 0)))
      in if unknown = [] then r
         else put 28 (be16 0x000a @ be16 (word_of_nat (2 * length unknown)) @ concat (map be16 unknown)) r)"

lemma bindingError_body: "bindingError crc q code u fp = finishResponse crc (error_body code u fp) q 0x0111 fp"
  unfolding bindingError_def error_body_def error_size_def Let_def by (rule refl)

lemma concat_be16_length [simp]: "length (concat (map be16 u)) = 2 * length u"
  by (induction u) simp_all

lemma part_concat_be16: "i < length u \<Longrightarrow> part (2 * i) 2 (concat (map be16 u)) = be16 (u ! i)"
proof (induction u arbitrary: i)
  case (Cons k u)
  then show ?case by (cases i) (simp_all add: part_def)
qed simp

lemma error_size_bounds: "28 \<le> error_size u fp" "36 \<le> error_size u fp \<or> \<not> fp" "error_size u fp mod 4 = 0"
  "error_size u fp \<le> 36 + 2 * length u + (if fp then 8 else 0)" "u \<noteq> [] \<Longrightarrow> 32 + 2 * length u + (if fp then 8 else 0) \<le> error_size u fp"
proof -
  have "4 dvd pad4 (2 * length u)" using pad4_bounds(3) by (simp add: dvd_eq_mod_eq_0)
  then have "4 dvd error_size u fp" unfolding error_size_def
    by (intro dvd_add) (simp_all add: dvd_add)
  then show "error_size u fp mod 4 = 0" by simp
qed (use pad4_bounds[of "2 * length u"] in \<open>auto simp: error_size_def\<close>)

lemma error_body_length [simp]: "length (error_body code u fp) = error_size u fp"
  using error_size_bounds[of u fp] by (cases "u = []") (simp_all add: error_body_def Let_def)

lemma error_framed:
  assumes "20 \<le> length q" "length u \<le> 139"
  shows "framed q (bindingError crc q code u fp)" and "u16_at 0 (bindingError crc q code u fp) = 0x0111"
    and "length (bindingError crc q code u fp) = error_size u fp"
  using assms error_size_bounds[of u fp] unfolding bindingError_body
  by (auto intro!: finish_framed simp: finish_length split: if_splits)

lemma error_reads:
  assumes "20 \<le> length q" "length u \<le> 139"
  shows "part 26 2 (bindingError crc q code u fp) = [ucast (code div 100), ucast (code mod 100)]"
    and "listed_kinds (bindingError crc q code u fp) = u"
proof -
  let ?r = "bindingError crc q code u fp" and ?b = "error_body code u fp"
  have body: "part n m ?r = part n m ?b" if "20 \<le> n" "n + m + (if fp then 8 else 0) \<le> error_size u fp" for n m
    unfolding bindingError_body using that assms(1) error_size_bounds[of u fp] by (intro finish_body) auto
  have "part 26 2 ?b = [ucast (code div 100), ucast (code mod 100)]"
    using error_size_bounds[of u fp]
    by (cases "u = []") (simp_all add: error_body_def Let_def part_put_same part_put_before)
  then show "part 26 2 ?r = [ucast (code div 100), ucast (code mod 100)]"
    using error_size_bounds[of u fp] by (simp add: body error_size_def)
  show "listed_kinds ?r = u"
  proof (cases "u = []")
    case True
    show ?thesis
    proof (cases fp)
      case fp: True
      have len: "length ?b = 36" using True fp by (simp add: error_size_def)
      have four: "part 28 4 ?r = be16 0x8028 @ be16 4"
        using finish_fingerprint(1)[of ?b q ?r crc "0x0111"] len assms(1) by (simp add: bindingError_body fp)
      have "part 28 2 ?r = part 0 2 (part 28 4 ?r)" using part_part[of 0 2 4 28 ?r] by simp
      then have "part 28 2 ?r = be16 0x8028" unfolding four by (simp add: part_def)
      then show ?thesis by (simp add: listed_kinds_def u16_at_part True)
    next
      case False
      then show ?thesis using True error_framed(3)[OF assms, of crc code fp]
        by (simp add: listed_kinds_def error_size_def)
    qed
  next
    case False
    let ?n = "length u"
    let ?d = "be16 0x000a @ be16 (word_of_nat (2 * ?n)) @ concat (map be16 u)"
    have big: "32 + 2 * ?n + (if fp then 8 else 0) \<le> error_size u fp" using error_size_bounds(5)[OF False] .
    have "part 28 (4 + 2 * ?n) ?b = ?d"
      using big False by (simp add: error_body_def Let_def part_put_same)
    then have d: "part 28 (4 + 2 * ?n) ?r = ?d" using big by (simp add: body)
    have at: "u16_at (28 + i) ?r = u16_at i ?d" if "i + 2 \<le> 4 + 2 * ?n" for i
      unfolding u16_at_part part_part[OF that] d by (rule refl)
    have "u16_at 28 ?r = 0x000a" "u16_at 30 ?r = word_of_nat (2 * ?n)"
      using at[of 0] at[of 2] False by (simp_all add: u16_at_part part_def)
    moreover have "u16_at (32 + 2 * i) ?r = u ! i" if "i < ?n" for i
      using at[of "4 + 2 * i"] that part_concat_be16[OF that] by (simp add: u16_at_part part_def)
    moreover have "unat (word_of_nat (2 * ?n) :: 16 word) = 2 * ?n" by (rule unat_of_nat16) (use assms(2) in simp)
    moreover have "length ?r \<ge> 32" using error_framed(3)[OF assms, of crc code fp] big by simp
    ultimately show ?thesis unfolding listed_kinds_def
      by (simp del: of_nat_mult) (rule nth_equalityI, simp_all)
  qed
qed

text \<open>The body of a success response.\<close>

definition success_body :: "bytes \<Rightarrow> bytes \<Rightarrow> 8 word \<Rightarrow> int \<Rightarrow> bool \<Rightarrow> bytes" where
  "success_body q a family p fp =
     put 28 (map2 (XOR) a (drop 4 q)) (put 26 (be16 (word_of_int p XOR ucast (drop_bit 16 cookie)))
       (put 25 [family] (put 22 (be16 (word_of_nat (4 + length a))) (put 20 (be16 0x0020)
         (replicate (28 + length a + (if fp then 8 else 0)) 0)))))"

lemma xor_back: "length a \<le> length k \<Longrightarrow> map2 (XOR) (map2 (XOR) a k) k = (a :: bytes)"
  by (rule nth_equalityI) (simp_all add: xor.assoc)

lemma success_reads:
  assumes "20 \<le> length q" "length a \<in> {4, 16}" "0 < p" "p \<le> 65535"
    and r_def: "r = finishResponse crc (success_body q a family p fp) q 0x0101 fp"
  shows "framed q r" and "u16_at 0 r = 0x0101" and "u16_at 20 r = 0x0020" and "r ! 25 = family"
    and "length r = 28 + length a + (if fp then 8 else 0)"
    and "mapped_port r = p" and "mapped_ip r = a"
proof -
  let ?b = "success_body q a family p fp"
  have len: "length ?b = 28 + length a + (if fp then 8 else 0)"
    using assms(1,2) by (auto simp: success_body_def)
  show "framed q r" "u16_at 0 r = 0x0101"
    unfolding r_def using assms(1,2) len by (auto intro!: finish_framed)
  show "length r = 28 + length a + (if fp then 8 else 0)"
    unfolding r_def using assms(1,2) len by (auto simp: finish_length)
  have body: "part n m r = part n m ?b" if "20 \<le> n" "n + m \<le> 28 + length a" for n m
    unfolding r_def using that assms(1,2) len by (intro finish_body) auto
  have parts: "part 20 2 r = be16 0x0020" "part 25 1 r = [family]"
      "part 26 2 r = be16 (word_of_int p XOR ucast (drop_bit 16 cookie))"
      "part 22 2 r = be16 (word_of_nat (4 + length a))"
      "part 28 (length a) r = map2 (XOR) a (drop 4 q)"
    using assms(1,2) by (auto simp: body success_body_def part_put_same part_put_before part_put_after)
  show "u16_at 20 r = 0x0020" by (simp add: u16_at_part parts)
  have "part 25 1 r ! 0 = r ! 25" using \<open>length r = _\<close> by (simp add: part_def)
  then show "r ! 25 = family" using parts(2) by (metis nth_Cons_0)
  have "uint (word_of_int p :: 16 word) = p" using assms(3,4) by (simp add: unsigned_of_int take_bit_int_eq_self)
  then show "mapped_port r = p" by (simp add: mapped_port_def u16_at_part parts xor.assoc)
  have "unat (word_of_nat (4 + length a) :: 16 word) = 4 + length a"
    by (rule unat_of_nat16) (use assms(2) in auto)
  then have "unat (u16_at 22 r) - 4 = length a" by (simp only: u16_at_part parts be16.dec_enc)
  moreover have "map2 (XOR) a (drop 4 q) = map2 (XOR) a (part 4 16 q)"
    by (rule nth_equalityI) (use assms(1,2) in \<open>auto simp: part_def\<close>)
  moreover have "part 4 16 r = part 4 16 q" using \<open>framed q r\<close> by (simp add: framed_def)
  ultimately show "mapped_ip r = a"
    unfolding mapped_ip_def using assms(1,2) by (simp only: parts) (rule xor_back, auto)
qed

section \<open>The endpoint answers only what it was asked\<close>

lemma to4_length: "to4 a = Some v \<Longrightarrow> length v = 4"
  by (auto simp: to4_def split: if_splits)

text \<open>The address the response reports and its family.\<close>

definition reported :: "bytes \<Rightarrow> (bytes \<times> byte) option" where
  "reported a = (case to4 a of Some v \<Rightarrow> Some (v, 1) | None \<Rightarrow> if length a = 16 then Some (a, 2) else None)"

lemma reported_length: "reported a = Some (v, f) \<Longrightarrow> length v \<in> {4, 16}"
  by (auto simp: reported_def to4_length split: option.splits if_splits)

lemma bindingResponse_cases:
  assumes "bindingResponse crc q addr = Some r"
  obtains a v family fp u cred where "addr = Some a" "0 < port a" "port a \<le> 65535" "20 \<le> length q" "length q \<le> maxRequest"
    "scan_attributes crc q 20 False [] False = Some (fp, u, cred)" "reported (ip a) = Some (v, family)"
    "r = (if cred then bindingError crc q 400 [] fp else if u \<noteq> [] then bindingError crc q 420 u fp
          else finishResponse crc (success_body q v family (port a) fp) q 0x0101 fp)"
proof -
  have eq: "bindingResponse crc q addr =
     (if length q < 20 \<or> length q > maxRequest \<or> u16_at 0 q \<noteq> 1
         \<or> u32_at 4 q \<noteq> cookie \<or> unat (u16_at 2 q) \<noteq> length q - 20
         \<or> length q mod 4 \<noteq> 0 then None
      else case addr of None \<Rightarrow> None
      | Some a \<Rightarrow>
        if port a \<le> 0 \<or> port a > 65535 then None
        else case scan_attributes crc q 20 False [] False of None \<Rightarrow> None
        | Some (fp, u, cred) \<Rightarrow>
          (case reported (ip a) of None \<Rightarrow> None
           | Some (v, family) \<Rightarrow>
             if is_unspecified v \<or> is_multicast v then None
             else Some (if cred then bindingError crc q 400 [] fp else if u \<noteq> [] then bindingError crc q 420 u fp
               else finishResponse crc (success_body q v family (port a) fp) q 0x0101 fp)))"
    unfolding bindingResponse_def reported_def success_body_def Let_def
    by (simp split: option.splits if_splits prod.splits)
  show thesis using assms that unfolding eq by (auto split: if_splits option.splits prod.splits)
qed

lemma error_code_part: "part 26 2 r = [ucast c, ucast d] \<Longrightarrow> error_code r = unat (ucast c :: byte) * 100 + unat (ucast d :: byte)"
proof -
  assume p: "part 26 2 r = [ucast c, ucast d]"
  then have "length (part 26 2 r) = 2" by simp
  then have "28 \<le> length r" by (simp add: part_def)
  then have "r ! 26 = part 26 2 r ! 0" "r ! 27 = part 26 2 r ! 1" by (simp_all add: part_def)
  then show ?thesis by (simp add: error_code_def p)
qed

text \<open>The kinds of the attributes of a request, read off its bytes: a kind, a length, and the value padded to four bytes.\<close>

function attribute_kinds :: "bytes \<Rightarrow> nat \<Rightarrow> 16 word list" where
  "attribute_kinds q off =
     (if off \<ge> length q then [] else u16_at off q # attribute_kinds q (off + 4 + pad4 (unat (u16_at (off + 2) q))))"
  by pat_completeness auto
termination
  by (relation "measure (\<lambda>(q, off). length q - off)") auto

declare attribute_kinds.simps [simp del]

definition unknown_kind :: "16 word \<Rightarrow> bool" where
  "unknown_kind k \<longleftrightarrow> k < 0x8000 \<and> k \<notin> set credential_kinds"

text \<open>The loop sees every attribute.\<close>

lemma scan_sees:
  "scan_attributes crc q off fp u c = Some (fp', u', c') \<Longrightarrow>
     fp' = (fp \<or> 0x8028 \<in> set (attribute_kinds q off))
     \<and> c' = (c \<or> (\<exists>k \<in> set (attribute_kinds q off). k \<in> set credential_kinds))
     \<and> set u' = set u \<union> {k \<in> set (attribute_kinds q off). unknown_kind k}"
proof (induction crc q off fp u c rule: scan_attributes.induct)
  case (1 crc q off fp u c)
  show ?case
  proof (cases "off \<ge> length q")
    case True
    then show ?thesis using "1.prems" by (simp add: scan_attributes.simps attribute_kinds.simps)
  next
    case False
    define k where "k = u16_at off q"
    define n where "n = off + 4 + pad4 (unat (u16_at (off + 2) q))"
    have kinds: "attribute_kinds q off = k # attribute_kinds q n"
      using False by (simp add: attribute_kinds.simps[of q off] k_def n_def)
    note eq = scan_attributes.simps[of crc q off fp u c, unfolded Let_def, folded k_def n_def]
    note IH = "1.IH"[OF False _ refl refl, folded k_def, unfolded n_def[symmetric]]
    have ok: "off + 4 \<le> length q" "n \<le> length q" using "1.prems"(1) False by (auto simp: eq split: if_splits)
    consider (finger) "k = 0x8028" | (cred) "k \<noteq> 0x8028" "k \<in> set credential_kinds"
      | (other) "k \<noteq> 0x8028" "k \<notin> set credential_kinds" by blast
    then show ?thesis
    proof cases
      case finger
      then have "n = length q" and rest: "scan_attributes crc q n True u c = Some (fp', u', c')"
        using "1.prems"(1) False ok unfolding eq by (auto split: if_splits)
      then have "attribute_kinds q n = []" "fp'" "u' = u" "c' = c" by (simp_all add: attribute_kinds.simps scan_attributes.simps)
      moreover have "k \<notin> set credential_kinds" "\<not> unknown_kind k" by (simp_all add: finger credential_kinds_def unknown_kind_def)
      ultimately show ?thesis using finger by (auto simp: kinds)
    next
      case cred
      then have "scan_attributes crc q n fp u True = Some (fp', u', c')" using "1.prems"(1) False ok by (simp add: eq)
      with IH(2) cred False ok show ?thesis by (auto simp: kinds unknown_kind_def)
    next
      case other
      define u1 where "u1 = (if k < 0x8000 \<and> k \<notin> set u then u @ [k] else u)"
      have "scan_attributes crc q n fp u1 c = Some (fp', u', c')" using "1.prems"(1) False ok other by (simp add: eq u1_def)
      with IH(3)[folded u1_def] other False ok
      have "fp' = (fp \<or> 0x8028 \<in> set (attribute_kinds q n)) \<and> c' = (c \<or> (\<exists>k \<in> set (attribute_kinds q n). k \<in> set credential_kinds))
          \<and> set u' = set u1 \<union> {k \<in> set (attribute_kinds q n). unknown_kind k}" by simp
      moreover have "set u1 = set u \<union> (if unknown_kind k then {k} else {})" using other by (auto simp: u1_def unknown_kind_def)
      ultimately show ?thesis using other by (auto simp: kinds)
    qed
  qed
qed

text \<open>C32: The endpoint answers a datagram only with a well-formed response to it: the transaction
  identifier is the request's, the header's length is the response's, at most 320 bytes and at most 24
  more than the request. A success reports exactly the source address and port it saw; it is given only if the request has no
  attribute of credentials and none that is unknown and has to be understood. With one of credentials the answer is the error 400;
  otherwise it is 420 with exactly the kinds of the request that are unknown and have to be understood, each once.\<close>

theorem stun_response_wellformed:
  assumes "bindingResponse crc q addr = Some r" and kinds: "ks = set (attribute_kinds q 20)"
  shows "framed q r \<and> length r \<le> maxResponse \<and> length r \<le> length q + 24
    \<and> (if ks \<inter> set credential_kinds \<noteq> {} then u16_at 0 r = 0x0111 \<and> error_code r = 400 \<and> listed_kinds r = []
       else if {k \<in> ks. unknown_kind k} \<noteq> {}
       then u16_at 0 r = 0x0111 \<and> error_code r = 420 \<and> distinct (listed_kinds r) \<and> set (listed_kinds r) = {k \<in> ks. unknown_kind k}
       else u16_at 0 r = 0x0101 \<and> u16_at 20 r = 0x0020
          \<and> (\<exists>a. addr = Some a \<and> mapped_port r = port a \<and> reported (ip a) = Some (mapped_ip r, r ! 25)))"
  using assms(1)
proof (rule bindingResponse_cases)
  fix a v family fp u cred
  assume addr: "addr = Some a" "0 < port a" "port a \<le> 65535" and q: "20 \<le> length q" "length q \<le> maxRequest"
    and scan: "scan_attributes crc q 20 False [] False = Some (fp, u, cred)" and v: "reported (ip a) = Some (v, family)"
    and r: "r = (if cred then bindingError crc q 400 [] fp else if u \<noteq> [] then bindingError crc q 420 u fp
          else finishResponse crc (success_body q v family (port a) fp) q 0x0101 fp)"
  have u: "distinct u" "4 * length u + 20 + (if fp then 8 else 0) \<le> length q"
    using scan_collects[OF scan] q by auto
  have seen: "cred \<longleftrightarrow> ks \<inter> set credential_kinds \<noteq> {}" "set u = {k \<in> ks. unknown_kind k}"
    using scan_sees[OF scan] by (auto simp: kinds)
  have small: "length u \<le> 139" using u(2) q(2) by (auto simp: maxRequest_def split: if_splits)
  have max: "maxResponse = 320" by (simp add: maxResponse_def maxUnknown_def maxRequest_def pad4_def)
  show ?thesis
  proof (cases "cred \<or> u \<noteq> []")
    case True
    define w where "w = (if cred then [] else u)"
    have w: "length w \<le> 139" "4 * length w + 20 + (if fp then 8 else 0) \<le> length q" using small u(2) q by (auto simp: w_def)
    have rw: "r = bindingError crc q (if cred then 400 else 420) w fp" using True by (cases cred) (simp_all add: r w_def)
    have "length r \<le> 36 + 2 * length w + (if fp then 8 else 0)"
      using error_size_bounds(4)[of w fp] error_framed(3)[OF q(1) w(1), of crc _ fp] by (simp add: rw)
    then have "length r \<le> maxResponse" "length r \<le> length q + 24"
      using w q(2) by (auto simp: max maxRequest_def split: if_splits)
    moreover have "framed q r" "u16_at 0 r = 0x0111" unfolding rw by (rule error_framed[OF q(1) w(1)])+
    moreover have "error_code r = (if cred then 400 else 420)" "listed_kinds r = w"
      using error_code_part[OF error_reads(1)[OF q(1) w(1), of crc _ fp]] error_reads(2)[OF q(1) w(1), of crc _ fp]
      by (simp_all add: rw)
    moreover have "\<not> cred \<Longrightarrow> {k \<in> ks. unknown_kind k} \<noteq> {}" using True unfolding seen(2)[symmetric] by simp
    ultimately show ?thesis using u(1) seen by (cases cred) (simp_all add: w_def)
  next
    case False
    then have "r = finishResponse crc (success_body q v family (port a) fp) q 0x0101 fp" by (simp add: r)
    note s = success_reads[OF q(1) reported_length[OF v] addr(2,3) this]
    have "length r \<le> maxResponse" "length r \<le> length q + 24"
      using s(5) reported_length[OF v] u(2) by (auto simp: max split: if_splits)
    moreover have "ks \<inter> set credential_kinds = {}" "{k \<in> ks. unknown_kind k} = {}" using False seen by auto
    ultimately show ?thesis using s addr(1) v by simp
  qed
qed

definition sample_request :: bytes where
  "sample_request = [0, 1, 0, 0, 0x21, 0x12, 0xa4, 0x42, 1, 2, 3, 4, 5, 6, 7, 8, 9, 10, 11, 12]"

definition sample_response :: bytes where
  "sample_response = [1, 1, 0, 12, 0x21, 0x12, 0xa4, 0x42, 1, 2, 3, 4, 5, 6, 7, 8, 9, 10, 11, 12,
     0, 0x20, 0, 8, 0, 1, 0x32, 0x9a, 0x2b, 0x12, 0xa4, 0x43]"

lemma sample_answered:
  "bindingResponse (\<lambda>_. 0) sample_request (Some \<lparr>ip = [10, 0, 0, 1], port = 5000\<rparr>) = Some sample_response"
  by code_simp

text \<open>A request with two attributes nobody knows, the first of them twice, and one that need not be understood.\<close>

definition odd_request :: bytes where
  "odd_request = [0, 1, 0, 16, 0x21, 0x12, 0xa4, 0x42, 1, 2, 3, 4, 5, 6, 7, 8, 9, 10, 11, 12,
     0x7f, 0xff, 0, 0, 0, 0x30, 0, 0, 0x7f, 0xff, 0, 0, 0x80, 0x22, 0, 0]"

lemma odd_kinds: "set (attribute_kinds odd_request 20) = {0x7fff, 0x30, 0x8022}"
proof -
  have "attribute_kinds odd_request 20 = [0x7fff, 0x30, 0x7fff, 0x8022]" by code_simp
  then show ?thesis by auto
qed

lemma odd_answered: "\<exists>r. bindingResponse (\<lambda>_. 0) odd_request (Some \<lparr>ip = [10, 0, 0, 1], port = 5000\<rparr>) = Some r"
proof -
  have "bindingResponse (\<lambda>_. 0) odd_request (Some \<lparr>ip = [10, 0, 0, 1], port = 5000\<rparr>) \<noteq> None" by code_simp
  then show ?thesis by blast
qed

theorem stun_response_wellformed_witness:
  "framed sample_request sample_response \<and> u16_at 0 sample_response = 0x0101 \<and> mapped_port sample_response = 5000
   \<and> (\<exists>r. bindingResponse (\<lambda>_. 0) odd_request (Some \<lparr>ip = [10, 0, 0, 1], port = 5000\<rparr>) = Some r
       \<and> error_code r = 420 \<and> set (listed_kinds r) = {0x7fff, 0x30})"
proof -
  have none: "attribute_kinds sample_request 20 = []" by code_simp
  have "framed sample_request sample_response \<and> u16_at 0 sample_response = 0x0101 \<and> mapped_port sample_response = 5000"
    using stun_response_wellformed[OF sample_answered refl] unfolding none by simp
  moreover obtain r where r: "bindingResponse (\<lambda>_. 0) odd_request (Some \<lparr>ip = [10, 0, 0, 1], port = 5000\<rparr>) = Some r"
    using odd_answered by blast
  have odd: "{0x7fff, 0x30, 0x8022} \<inter> set credential_kinds = {}" "{k \<in> {0x7fff, 0x30, 0x8022}. unknown_kind k} = {0x7fff, 0x30}"
    by (auto simp: credential_kinds_def unknown_kind_def)
  have "error_code r = 420 \<and> set (listed_kinds r) = {0x7fff, 0x30}"
    using stun_response_wellformed[OF r refl] unfolding odd_kinds odd by simp
  ultimately show ?thesis using r by blast
qed

end
