(* ===== verification/Approval.thy ===== *)
theory Approval
  imports GoStrings
begin

text \<open>
  The single-use, locally approved access requests of \<open>internal/approval/approval.go\<close>.

  A call of \<open>Request\<close> is a goroutine: it registers an entry, waits on a \<open>select\<close>, and a deferred
  function removes the entry. Each of these is one event; so are \<open>Resolve\<close> and \<open>Cancel\<close>, which
  run under the mutex. The entries are a heap indexed by the call, \<open>pending\<close> is the pointer the
  broker keeps, and the channel of capacity one is the optional value \<open>e_result\<close>. An event carries
  the clock reading it makes.
\<close>

section \<open>The broker\<close>

datatype outcome =
    Granted | Denied | Timeout | Cancelled | Busy | Too_frequent | Bad_mode | No_random

datatype phase = Waiting | Leaving | Gone

record entry =
  e_id :: string
  e_mode :: string
  e_deadline :: nanos
  e_result :: "bool option"
  e_phase :: phase

record broker =
  pending :: "nat option"
  history :: "nanos list"
  notified :: bool
  timeout :: nanos
  entries :: "nat \<Rightarrow> entry option"
  outcomes :: "nat \<Rightarrow> outcome option"

definition minute :: nanos where
  "minute = 60000000000"

definition New :: broker where
  "New = \<lparr>pending = None, history = [], notified = False, timeout = 60000000000, entries = Map.empty, outcomes = Map.empty\<rparr>"

text \<open>A send on the channel of capacity one that drops a second notice.\<close>

definition changed :: "broker \<Rightarrow> broker" where
  "changed b = b\<lparr>notified := True\<rparr>"

definition Pending :: "nanos \<Rightarrow> broker \<Rightarrow> entry option" where
  "Pending now b = (case pending b of None \<Rightarrow> None
     | Some k \<Rightarrow> (case entries b k of None \<Rightarrow> None
        | Some p \<Rightarrow> if e_deadline p > now then Some p else None))"

section \<open>A request\<close>

text \<open>The first part of \<open>Request\<close>, up to its wait: an outcome when it returns at once.\<close>

definition request_begin :: "nat \<Rightarrow> bool \<Rightarrow> string \<Rightarrow> bytes option \<Rightarrow> nanos \<Rightarrow> broker \<Rightarrow> outcome option \<times> broker" where
  "request_begin k ctx_done mode nonce now b =
     (if mode \<noteq> ''control'' \<and> mode \<noteq> ''view'' then (Some Bad_mode, b)
      else if ctx_done then (Some Cancelled, b)
      else case nonce of None \<Rightarrow> (Some No_random, b)
      | Some n \<Rightarrow>
        if pending b \<noteq> None then (Some Busy, b)
        else
          let kept = filter (\<lambda>at. now - at < minute) (history b); b = b\<lparr>history := kept\<rparr> in
          if length kept \<ge> 3 then (Some Too_frequent, b)
          else (None, changed (b\<lparr>history := kept @ [now], pending := Some k,
            entries := (entries b)(k \<mapsto> \<lparr>e_id = hex_encode n, e_mode = mode, e_deadline = now + timeout b,
              e_result = None, e_phase = Waiting\<rparr>)\<rparr>)))"

datatype wake = On_ctx | On_timer | On_result

text \<open>The \<open>select\<close>: which of its cases runs, and the outcome. \<open>None\<close> when that case is not ready.\<close>

definition request_wake :: "wake \<Rightarrow> bool \<Rightarrow> nanos \<Rightarrow> entry \<Rightarrow> (outcome \<times> entry) option" where
  "request_wake w ctx_done now p =
     (case w of
        On_ctx \<Rightarrow> if ctx_done then Some (Cancelled, p) else None
      | On_timer \<Rightarrow> if now \<ge> e_deadline p then Some (Timeout, p) else None
      | On_result \<Rightarrow>
          (case e_result p of None \<Rightarrow> None
           | Some allowed \<Rightarrow> Some
               (if ctx_done then Cancelled
                else if e_deadline p \<le> now then Timeout
                else if \<not> allowed then Denied else Granted, p\<lparr>e_result := None\<rparr>)))"

text \<open>The deferred removal.\<close>

definition request_end :: "nat \<Rightarrow> broker \<Rightarrow> broker" where
  "request_end k b = changed (if pending b = Some k then b\<lparr>pending := None\<rparr> else b)"

section \<open>The local user\<close>

definition offer_result :: "bool \<Rightarrow> entry \<Rightarrow> bool \<times> entry" where
  "offer_result accept p = (if e_result p = None then (True, p\<lparr>e_result := Some accept\<rparr>) else (False, p))"

definition Resolve :: "string \<Rightarrow> bool \<Rightarrow> nanos \<Rightarrow> broker \<Rightarrow> bool \<times> broker" where
  "Resolve i accept now b =
     (case pending b of None \<Rightarrow> (False, b)
      | Some k \<Rightarrow> (case entries b k of None \<Rightarrow> (False, b)
        | Some p \<Rightarrow>
          if e_id p \<noteq> i \<or> e_deadline p \<le> now then (False, b)
          else case offer_result accept p of (ok, p) \<Rightarrow> (ok, b\<lparr>entries := (entries b)(k \<mapsto> p)\<rparr>)))"

definition Cancel :: "broker \<Rightarrow> broker" where
  "Cancel b =
     (case pending b of None \<Rightarrow> b
      | Some k \<Rightarrow> (case entries b k of None \<Rightarrow> b
        | Some p \<Rightarrow> b\<lparr>entries := (entries b)(k \<mapsto> snd (offer_result False p))\<rparr>))"

section \<open>Events\<close>

datatype event =
    Begin nat bool string "bytes option" nanos
  | Wake nat wake bool nanos
  | End nat
  | Answer string bool nanos
  | Withdraw
  | Poll

text \<open>A call's number is used once; an event that the goroutine cannot make changes nothing.\<close>

fun step :: "broker \<Rightarrow> event \<Rightarrow> broker" where
  "step b (Begin k ctx_done mode nonce now) =
     (if entries b k \<noteq> None \<or> outcomes b k \<noteq> None then b
      else case request_begin k ctx_done mode nonce now b of
        (out, b) \<Rightarrow> b\<lparr>outcomes := (outcomes b)(k := out)\<rparr>)"
| "step b (Wake k w ctx_done now) =
     (case entries b k of None \<Rightarrow> b
      | Some p \<Rightarrow>
        if e_phase p \<noteq> Waiting then b
        else case request_wake w ctx_done now p of None \<Rightarrow> b
        | Some (out, p) \<Rightarrow> b\<lparr>entries := (entries b)(k \<mapsto> p\<lparr>e_phase := Leaving\<rparr>),
            outcomes := (outcomes b)(k \<mapsto> out)\<rparr>)"
| "step b (End k) =
     (case entries b k of None \<Rightarrow> b
      | Some p \<Rightarrow>
        if e_phase p \<noteq> Leaving then b
        else request_end k (b\<lparr>entries := (entries b)(k \<mapsto> p\<lparr>e_phase := Gone\<rparr>)\<rparr>))"
| "step b (Answer i accept now) = snd (Resolve i accept now b)"
| "step b Withdraw = Cancel b"
| "step b Poll = b\<lparr>notified := False\<rparr>"

definition run :: "event list \<Rightarrow> broker" where
  "run es = foldl step New es"

section \<open>Admission times\<close>

fun begin_times :: "event list \<Rightarrow> nanos list" where
  "begin_times [] = []"
| "begin_times (Begin k ctx_done mode nonce now # es) = now # begin_times es"
| "begin_times (_ # es) = begin_times es"

lemma begin_times_append [simp]: "begin_times (es @ es') = begin_times es @ begin_times es'"
  by (induction es rule: begin_times.induct) simp_all

text \<open>The time of a request that the broker lets wait for the user.\<close>

fun admits :: "broker \<Rightarrow> event \<Rightarrow> nanos list" where
  "admits b (Begin k ctx_done mode nonce now) =
     (if entries b k = None \<and> outcomes b k = None \<and> fst (request_begin k ctx_done mode nonce now b) = None
      then [now] else [])"
| "admits b _ = []"

fun admitted :: "broker \<Rightarrow> event list \<Rightarrow> nanos list" where
  "admitted b [] = []"
| "admitted b (e # es) = admits b e @ admitted (step b e) es"

lemma admitted_snoc: "admitted b (es @ [e]) = admitted b es @ admits (foldl step b es) e"
  by (induction es arbitrary: b) simp_all

lemma run_snoc: "run (es @ [e]) = step (run es) e"
  by (simp add: run_def)

text \<open>What one event does to the history: it drops times that are a minute old, and adds the time
  of an admitted request when at most two are left.\<close>

definition recent :: "nanos \<Rightarrow> nanos list \<Rightarrow> nanos list" where
  "recent now xs = filter (\<lambda>x. now - x < minute) xs"

lemma history_others:
  "history (changed b) = history b" "history (request_end k b) = history b"
  "history (snd (Resolve i a now b)) = history b" "history (Cancel b) = history b"
  by (simp_all add: changed_def request_end_def Resolve_def Cancel_def split: option.split prod.split)

lemma history_step:
  "history (step b e) = history b \<and> admits b e = [] \<or>
   (\<exists>k c m n now. e = Begin k c m n now \<and>
     (history (step b e) = recent now (history b) \<and> admits b e = []
      \<or> history (step b e) = recent now (history b) @ [now] \<and> admits b e = [now] \<and> length (recent now (history b)) < 3))"
proof (cases e)
  case (Begin k c m n now)
  have "history (snd (request_begin k c m n now b)) = history b \<and> fst (request_begin k c m n now b) \<noteq> None
    \<or> history (snd (request_begin k c m n now b)) = recent now (history b) \<and> fst (request_begin k c m n now b) \<noteq> None
    \<or> history (snd (request_begin k c m n now b)) = recent now (history b) @ [now] \<and> length (recent now (history b)) < 3
       \<and> fst (request_begin k c m n now b) = None"
    unfolding request_begin_def Let_def recent_def by (simp add: changed_def split: option.split)
  then show ?thesis unfolding Begin by (cases "entries b k"; cases "outcomes b k"; auto simp: case_prod_beta)
qed (simp_all add: history_others case_prod_beta split: option.split)

lemma recent_recent: "now \<le> now' \<Longrightarrow> recent now' (recent now xs) = recent now' xs"
  unfolding recent_def filter_filter by (rule filter_cong) auto

definition in_window :: "nanos \<Rightarrow> nanos list \<Rightarrow> nat" where
  "in_window t xs = length (filter (\<lambda>x. t \<le> x \<and> x < t + minute) xs)"

lemma in_window_append: "in_window t (xs @ ys) = in_window t xs + in_window t ys"
  by (simp add: in_window_def)

lemma in_window_recent: "now < t + minute \<Longrightarrow> in_window t (recent now xs) = in_window t xs"
  unfolding in_window_def recent_def filter_filter by (rule arg_cong[of _ _ length], rule filter_cong) auto

lemma in_window_le: "in_window t xs \<le> length xs"
  by (simp add: in_window_def)

lemma admissions:
  assumes "sorted (begin_times es)"
  shows "(\<forall>now. (\<forall>x \<in> set (begin_times es). x \<le> now) \<longrightarrow> recent now (admitted New es) = recent now (history (run es)))
    \<and> in_window t (admitted New es) \<le> 3"
  using assms
proof (induction es rule: rev_induct)
  case Nil
  then show ?case by (simp add: run_def New_def in_window_def)
next
  case (snoc e es)
  have srt: "sorted (begin_times es)" using snoc.prems by (simp add: sorted_append)
  let ?A = "admitted New es" and ?H = "history (run es)"
  have IH1: "recent now ?A = recent now ?H" if "\<forall>x \<in> set (begin_times es). x \<le> now" for now
    using snoc.IH[OF srt] that by blast
  have IH2: "in_window t ?A \<le> 3" using snoc.IH[OF srt] by blast
  have A': "admitted New (es @ [e]) = ?A @ admits (run es) e" by (simp add: admitted_snoc run_def)
  consider (same) "history (run (es @ [e])) = ?H" "admits (run es) e = []"
    | (dropped) k c m n now where "e = Begin k c m n now" "history (run (es @ [e])) = recent now ?H" "admits (run es) e = []"
    | (admitted) k c m n now where "e = Begin k c m n now" "history (run (es @ [e])) = recent now ?H @ [now]"
        "admits (run es) e = [now]" "length (recent now ?H) < 3"
    using history_step[of "run es" e] unfolding run_snoc by (elim disjE exE conjE) (metis+)
  then show ?case
  proof cases
    case same
    then show ?thesis using IH1 IH2 unfolding A' by simp
  next
    case dropped
    have "recent now' ?A = recent now' (recent now ?H)" if "\<forall>x \<in> set (begin_times (es @ [e])). x \<le> now'" for now'
      using that IH1[of now'] recent_recent[of now now' ?H] dropped(1) by simp
    then show ?thesis using IH2 unfolding A' dropped(2,3) by simp
  next
    case admitted
    have older: "\<forall>x \<in> set (begin_times es). x \<le> now" using snoc.prems admitted(1) by (simp add: sorted_append)
    have "recent now' (?A @ [now]) = recent now' (recent now ?H @ [now])"
      if "\<forall>x \<in> set (begin_times (es @ [e])). x \<le> now'" for now'
      using that IH1[of now'] recent_recent[of now now' ?H] admitted(1) by (simp add: recent_def)
    moreover have "in_window t (?A @ [now]) \<le> 3"
    proof (cases "t \<le> now \<and> now < t + minute")
      case True
      have "in_window t ?A = in_window t (recent now ?A)" using True by (simp add: in_window_recent)
      also have "\<dots> = in_window t (recent now ?H)" using IH1[OF older] by simp
      also have "\<dots> \<le> length (recent now ?H)" by (rule in_window_le)
      finally show ?thesis using admitted(4) by (simp add: in_window_append in_window_def)
    next
      case False
      then have "in_window t [now] = 0" by (auto simp: in_window_def)
      then show ?thesis using IH2 by (simp add: in_window_append)
    qed
    ultimately show ?thesis unfolding A' admitted(2,3) by blast
  qed
qed

section \<open>Where access comes from\<close>

text \<open>The answer at position \<open>i\<close> of a run accepts the pending request of call \<open>k\<close>.\<close>

definition accepts :: "broker \<Rightarrow> event \<Rightarrow> nat \<Rightarrow> bool" where
  "accepts b e k \<longleftrightarrow> (case e of Answer j True t \<Rightarrow> pending b = Some k
      \<and> (case entries b k of None \<Rightarrow> False | Some p \<Rightarrow> e_id p = j \<and> t < e_deadline p) | _ \<Rightarrow> False)"

definition accepted_at :: "event list \<Rightarrow> nat \<Rightarrow> nat \<Rightarrow> bool" where
  "accepted_at es k i \<longleftrightarrow> i < length es \<and> accepts (run (take i es)) (es ! i) k"

definition holds_yes :: "broker \<Rightarrow> nat \<Rightarrow> bool" where
  "holds_yes b k \<longleftrightarrow> (case entries b k of None \<Rightarrow> False | Some p \<Rightarrow> e_result p = Some True)"

lemma accepted_at_snoc: "accepted_at es k i \<Longrightarrow> accepted_at (es @ [e]) k i"
  by (simp add: accepted_at_def nth_append)

lemma accepts_last: "accepts (run es) e k \<Longrightarrow> accepted_at (es @ [e]) k (length es)"
  by (simp add: accepted_at_def)

lemma begin_entries:
  assumes "request_begin k c m n now b = (out, b')"
  shows "out \<noteq> Some Granted" and "outcomes b' = outcomes b"
    and "holds_yes b' k' \<Longrightarrow> holds_yes b k'"
  using assms unfolding request_begin_def Let_def changed_def holds_yes_def
  by (auto split: if_splits option.splits)

lemma step_yes:
  assumes "holds_yes (step b e) k"
  shows "holds_yes b k \<or> accepts b e k"
proof (cases e)
  case (Begin k' c m n now)
  show ?thesis
  proof (cases "request_begin k' c m n now b")
    case (Pair out b')
    have "holds_yes (b'\<lparr>outcomes := x\<rparr>) k = holds_yes b' k" for x by (simp add: holds_yes_def)
    then show ?thesis using assms begin_entries(3)[OF Pair] Pair by (auto simp: Begin split: if_splits)
  qed
next
  case (Wake k' w c now)
  then show ?thesis using assms
    by (auto simp: holds_yes_def request_wake_def split: option.splits if_splits wake.splits)
next
  case (End k')
  then show ?thesis using assms
    by (auto simp: holds_yes_def request_end_def changed_def split: option.splits if_splits)
next
  case (Answer j a t)
  then show ?thesis using assms
    by (auto simp: holds_yes_def accepts_def Resolve_def offer_result_def split: option.splits if_splits)
next
  case Withdraw
  then show ?thesis using assms
    by (auto simp: holds_yes_def Cancel_def offer_result_def split: option.splits if_splits)
qed (use assms in \<open>auto simp: holds_yes_def\<close>)

lemma step_granted:
  assumes "outcomes (step b e) k = Some Granted"
  shows "outcomes b k = Some Granted \<or> holds_yes b k"
proof (cases e)
  case (Begin k' c m n now)
  show ?thesis
  proof (cases "request_begin k' c m n now b")
    case (Pair out b')
    then show ?thesis using assms begin_entries(1,2)[OF Pair] by (auto simp: Begin split: if_splits)
  qed
next
  case (Wake k' w c now)
  then show ?thesis using assms
    by (auto simp: holds_yes_def request_wake_def split: option.splits if_splits wake.splits)
qed (use assms in \<open>auto simp: request_end_def changed_def Resolve_def Cancel_def split: option.splits if_splits prod.splits\<close>)

lemma granted_was_accepted:
  "(holds_yes (run es) k \<longrightarrow> (\<exists>i. accepted_at es k i))
     \<and> (outcomes (run es) k = Some Granted \<longrightarrow> (\<exists>i. accepted_at es k i))"
proof (induction es rule: rev_induct)
  case Nil
  show ?case by (simp add: run_def New_def holds_yes_def)
next
  case (snoc e es)
  have old: "\<exists>i. accepted_at (es @ [e]) k i" if "\<exists>i. accepted_at es k i" using that accepted_at_snoc by blast
  show ?case unfolding run_snoc
    using step_yes[of "run es" e k] step_granted[of "run es" e k] snoc old accepts_last[of es e k] by blast
qed

definition accepting :: "event \<Rightarrow> bool" where
  "accepting e = (case e of Answer j a t \<Rightarrow> a | _ \<Rightarrow> False)"

text \<open>C7: Nobody gets access without a local decision. A request that was granted was, while it was the
  pending one and before its deadline, accepted by the local user by its identifier; and every
  acceptance lets in at most one request: no more requests are granted than acceptances were given.\<close>

theorem access_needs_local_approval:
  "(outcomes (run es) k = Some Granted \<longrightarrow> (\<exists>i. accepted_at es k i))
   \<and> card {k. outcomes (run es) k = Some Granted} \<le> length (filter accepting es)"
proof
  show "outcomes (run es) k = Some Granted \<longrightarrow> (\<exists>i. accepted_at es k i)" using granted_was_accepted by blast
  let ?I = "{i. i < length es \<and> accepting (es ! i)}"
  have "{k. outcomes (run es) k = Some Granted} \<subseteq> (\<lambda>i. the (pending (run (take i es)))) ` ?I"
  proof
    fix k assume "k \<in> {k. outcomes (run es) k = Some Granted}"
    then obtain i where i: "accepted_at es k i" using granted_was_accepted by blast
    then have "accepting (es ! i)" "pending (run (take i es)) = Some k" "i < length es"
      by (auto simp: accepted_at_def accepts_def accepting_def split: event.splits bool.splits)
    then show "k \<in> (\<lambda>i. the (pending (run (take i es)))) ` ?I" by force
  qed
  then have "card {k. outcomes (run es) k = Some Granted} \<le> card ?I"
    by (rule surj_card_le[rotated]) simp
  then show "card {k. outcomes (run es) k = Some Granted} \<le> length (filter accepting es)"
    by (simp add: length_filter_conv_card)
qed

definition one_round :: "event list" where
  "one_round = [Begin 0 False ''view'' (Some [1]) 0, Answer ''01'' True 5, Wake 0 On_result False 6, End 0]"

lemma access_needs_local_approval_witness:
  "outcomes (run one_round) 0 = Some Granted \<and> (\<exists>i. accepted_at one_round 0 i)"
proof -
  have "outcomes (run one_round) 0 = Some Granted" by code_simp
  then show ?thesis using access_needs_local_approval[of one_round 0] by blast
qed

text \<open>Nobody can be pestered. As long as the clock does not go back, at most three requests are put
  before the user in any minute, whatever is asked, answered or withdrawn.\<close>

theorem approval_attempts_limited:
  assumes "sorted (begin_times es)"
  shows "in_window t (admitted New es) \<le> 3"
  using admissions[OF assms] by blast

definition four_asks :: "event list" where
  "four_asks = concat (map (\<lambda>k. [Begin k False ''view'' (Some [1]) (int k), Answer ''01'' False 5, Wake k On_result False 6, End k]) [0..<4])"

lemma approval_attempts_limited_witness:
  "admitted New four_asks = [0, 1, 2] \<and> in_window 0 (admitted New four_asks) \<le> 3"
proof
  show "admitted New four_asks = [0, 1, 2]" by code_simp
  have "sorted (begin_times four_asks)" by code_simp
  then show "in_window 0 (admitted New four_asks) \<le> 3" by (rule approval_attempts_limited)
qed

text \<open>a request that is let in to wait gets exactly the user's answer. The first answer by its
  identifier before the deadline counts, a second one is refused, the caller is granted access or denied
  accordingly, and the broker is free for the next request.\<close>

theorem approval_round:
  assumes "pending b = None" "entries b k = None" "outcomes b k = None" "length (recent now (history b)) < 3"
    and "mode = ''control'' \<or> mode = ''view''" "t < now + timeout b" "t' < now + timeout b"
    and b1: "b1 = step b (Begin k False mode (Some n) now)" and b2: "b2 = step b1 (Answer (hex_encode n) a t)"
    and b3: "b3 = step b2 (Wake k On_result False t')"
  shows "Pending t b1 = Some \<lparr>e_id = hex_encode n, e_mode = mode, e_deadline = now + timeout b, e_result = None, e_phase = Waiting\<rparr>
    \<and> fst (Resolve (hex_encode n) a t b1) \<and> \<not> fst (Resolve (hex_encode n) a' t b2)
    \<and> outcomes (step b3 (End k)) k = Some (if a then Granted else Denied) \<and> pending (step b3 (End k)) = None"
proof -
  have b1': "pending b1 = Some k" "outcomes b1 k = None" "timeout b1 = timeout b"
    "entries b1 k = Some \<lparr>e_id = hex_encode n, e_mode = mode, e_deadline = now + timeout b, e_result = None, e_phase = Waiting\<rparr>"
    unfolding b1 using assms(1-5) by (auto simp: request_begin_def Let_def changed_def recent_def)
  have b2': "pending b2 = Some k"
    "entries b2 k = Some \<lparr>e_id = hex_encode n, e_mode = mode, e_deadline = now + timeout b, e_result = Some a, e_phase = Waiting\<rparr>"
    unfolding b2 using b1' assms(6) by (auto simp: Resolve_def offer_result_def)
  have b3': "pending b3 = Some k" "outcomes b3 k = Some (if a then Granted else Denied)"
    "entries b3 k = Some \<lparr>e_id = hex_encode n, e_mode = mode, e_deadline = now + timeout b, e_result = None, e_phase = Leaving\<rparr>"
    unfolding b3 using b2' assms(7) by (auto simp: request_wake_def)
  have "fst (Resolve (hex_encode n) a t b1)" "\<not> fst (Resolve (hex_encode n) a' t b2)"
    using b1' b2' assms(6) by (simp_all add: Resolve_def offer_result_def)
  moreover have "Pending t b1 = entries b1 k" using b1' assms(6) by (simp add: Pending_def)
  moreover have "outcomes (step b3 (End k)) k = Some (if a then Granted else Denied)" "pending (step b3 (End k)) = None"
    using b3' by (simp_all add: request_end_def changed_def)
  ultimately show ?thesis using b1' by simp
qed

lemma approval_round_witness:
  "outcomes (run [Begin 0 False ''view'' (Some [1]) 0, Answer ''01'' True 5, Wake 0 On_result False 6, End 0]) 0 = Some Granted"
proof -
  have start: "pending New = None" "entries New 0 = None" "outcomes New 0 = None" "length (recent 0 (history New)) < 3"
    "timeout New = 60000000000" by (simp_all add: New_def recent_def)
  have "hex_encode [1] = ''01''" by code_simp
  then show ?thesis
    using approval_round[OF start(1-4), of "''view''" 5 6 _ "[1]" _ True] start(5) by (simp add: run_def)
qed

end
