(* ===== verification/TurnCredentials.thy ===== *)
theory TurnCredentials
  imports SecureConn
begin

text \<open>
  The temporary TURN credentials of the relay (\<open>cmd/yudesk-relay/conference_turn.go\<close>): the ICE
  policies that hand them out to meeting participants and to the two ends of a remote session, and
  the parser that reads an identity back from a user name. The MAC is the primitive
  \<open>hmac256\<close>; the clock is an argument. Which credentials are alive depends on the broker and is in
  \<open>ConferenceTurn\<close>.
\<close>

section \<open>Base 64\<close>

definition b64_digit :: "bool list \<Rightarrow> char" where
  "b64_digit bs =
     (let n = foldl (\<lambda>n b. 2 * n + (if b then 1 else 0)) (0 :: nat) bs
      in if n < 26 then char_of (65 + n) else if n < 52 then char_of (71 + n)
         else if n < 62 then char_of (n - 4) else if n = 62 then CHR ''+'' else CHR ''/'')"

text \<open>\<open>base64.StdEncoding\<close>: three bytes give four digits, a shorter rest is padded.\<close>

fun base64_encode :: "bytes \<Rightarrow> string" where
  "base64_encode (a # b # c # rest) =
     (let bs = byte_bits a @ byte_bits b @ byte_bits c
      in map (\<lambda>i. b64_digit (take 6 (drop (6 * i) bs))) [0..<4] @ base64_encode rest)"
| "base64_encode [a, b] =
     (let bs = byte_bits a @ byte_bits b @ [False, False]
      in map (\<lambda>i. b64_digit (take 6 (drop (6 * i) bs))) [0..<3] @ ''='')"
| "base64_encode [a] =
     (let bs = byte_bits a @ replicate 4 False
      in map (\<lambda>i. b64_digit (take 6 (drop (6 * i) bs))) [0..<2] @ ''=='')"
| "base64_encode [] = []"

lemma base64_rfc: "base64_encode (str_bytes ''foobar'') = ''Zm9vYmFy'' \<and> base64_encode (str_bytes ''fooba'') = ''Zm9vYmE=''
    \<and> base64_encode (str_bytes ''foob'') = ''Zm9vYg==''"
  by code_simp

section \<open>Policies\<close>

record ice_server =
  ice_urls :: "string list"
  ice_user :: string
  ice_credential :: string

record rtc_policy =
  ice_servers :: "ice_server list"
  direct_timeout :: int
  relay_enabled :: bool

record turn_config =
  t_public :: string
  t_secret :: bytes
  t_prims :: primitives

definition IsMeetingCode :: "string \<Rightarrow> bool" where
  "IsMeetingCode v \<longleftrightarrow> length v = 9 \<and> hd v \<noteq> CHR ''0'' \<and> list_all is_digit v"

definition conferenceTURNCredentialLifetime :: nanos where
  "conferenceTURNCredentialLifetime = 2 * 3600000000000"

definition unix_seconds :: "nanos \<Rightarrow> int" where
  "unix_seconds t = t div 1000000000"

definition password :: "turn_config \<Rightarrow> string \<Rightarrow> string" where
  "password m username = base64_encode (hmac256 (t_prims m) (t_secret m) (str_bytes username))"

definition stun_server :: "string \<Rightarrow> ice_server" where
  "stun_server url = \<lparr>ice_urls = [url], ice_user = [], ice_credential = []\<rparr>"

definition appendUniqueICEServer :: "ice_server list \<Rightarrow> ice_server \<Rightarrow> ice_server list" where
  "appendUniqueICEServer servers server =
     (if \<exists>x \<in> set servers. length (ice_urls x) = length (ice_urls server)
           \<and> join_with (char_of (0 :: nat)) (ice_urls x) = join_with (char_of (0 :: nat)) (ice_urls server)
           \<and> ice_user x = ice_user server
      then servers else servers @ [server])"

definition conference_username :: "nanos \<Rightarrow> string \<Rightarrow> string \<Rightarrow> string" where
  "conference_username expires room participant =
     show_int (unix_seconds expires) @ '':'' @ room @ '':'' @ participant"

definition policy :: "turn_config \<Rightarrow> nanos \<Rightarrow> string \<Rightarrow> string \<Rightarrow> nanos \<Rightarrow> string \<Rightarrow> int \<Rightarrow> rtc_policy" where
  "policy m now room participant roomExpiry stunURL directTimeoutMS =
     (let stun = (if has_prefix stunURL ''stun:'' then [stun_server stunURL] else []);
          expires = min roomExpiry (now + conferenceTURNCredentialLifetime);
          username = conference_username expires room participant
      in \<lparr>ice_servers = stun @ [\<lparr>ice_urls = [''turn:'' @ t_public m @ ''?transport=udp'', ''turn:'' @ t_public m @ ''?transport=tcp''],
            ice_user = username, ice_credential = password m username\<rparr>],
          direct_timeout = directTimeoutMS, relay_enabled = True\<rparr>)"

definition remote_username :: "nanos \<Rightarrow> string \<Rightarrow> string \<Rightarrow> string \<Rightarrow> string" where
  "remote_username expires deviceID sessionID role =
     show_int (unix_seconds expires) @ '':remote:'' @ to_lower deviceID @ '':'' @ to_lower sessionID @ '':'' @ role"

definition remotePolicy :: "turn_config \<Rightarrow> nanos \<Rightarrow> string \<Rightarrow> string \<Rightarrow> string \<Rightarrow> string \<Rightarrow> int \<Rightarrow> rtc_policy" where
  "remotePolicy m now deviceID sessionID role stunURL directTimeoutMS =
     (let timeout = (if directTimeoutMS < 500 \<or> directTimeoutMS > 10000 then 4500 else directTimeoutMS);
          servers = (if has_prefix stunURL ''stun:'' then appendUniqueICEServer [] (stun_server stunURL) else []);
          servers = appendUniqueICEServer servers (stun_server (''stun:'' @ t_public m));
          username = remote_username (now + conferenceTURNCredentialLifetime) deviceID sessionID role
      in \<lparr>ice_servers = servers @ [\<lparr>ice_urls = [''turn:'' @ t_public m @ ''?transport=udp''],
            ice_user = username, ice_credential = password m username\<rparr>],
          direct_timeout = timeout, relay_enabled = True\<rparr>)"

section \<open>Reading an identity\<close>

datatype turn_identity =
    Conference_user string string
  | Remote_user string string string

definition hex_lower :: "string \<Rightarrow> bool" where
  "hex_lower s \<longleftrightarrow> list_all (\<lambda>c. is_digit c \<or> 97 \<le> ord c \<and> ord c \<le> 102) s"

text \<open>\<open>credentialIdentity\<close>: a conference participant (room, participant) or one end of a remote
  session (device, session, role), with an expiry in the near future.\<close>

definition credentialIdentity :: "nanos \<Rightarrow> string \<Rightarrow> turn_identity option" where
  "credentialIdentity time username =
     (let parts = split_on (CHR '':'') username; now = unix_seconds time in
      if length parts < 3 then None
      else case parse_int64 (parts ! 0) of None \<Rightarrow> None
      | Some expires \<Rightarrow>
        if expires \<le> now \<or> expires > now + conferenceTURNCredentialLifetime div 1000000000 + 60 then None
        else if length parts = 3 \<and> IsMeetingCode (parts ! 1) \<and> length (parts ! 2) = 24 \<and> hex_lower (to_lower (parts ! 2))
        then Some (Conference_user (parts ! 1) (to_lower (parts ! 2)))
        else if length parts = 5 \<and> parts ! 1 = ''remote'' \<and> length (parts ! 2) = 24 \<and> hex_lower (to_lower (parts ! 2))
             \<and> length (parts ! 3) = 32 \<and> hex_lower (to_lower (parts ! 3)) \<and> (parts ! 4 = ''agent'' \<or> parts ! 4 = ''viewer'')
        then Some (Remote_user (to_upper (parts ! 2)) (to_lower (parts ! 3)) (parts ! 4))
        else None)"

section \<open>Printing and parsing\<close>

lemma no_colon: "is_digit c \<Longrightarrow> c \<noteq> CHR '':''"
  by (auto simp: is_digit_def)

lemma show_int_no_colon: "CHR '':'' \<notin> set (show_int i)"
  using show_nat_digits no_colon by (auto simp: show_int_def)

lemma hex_lower_no_colon: "hex_lower s \<Longrightarrow> CHR '':'' \<notin> set s"
  by (auto simp: hex_lower_def list_all_iff dest!: bspec[where x = "CHR '':''"] simp: is_digit_def)

section \<open>Properties\<close>

text \<open>Case mapping is the identity on lower-case hexadecimal digits, and maps back and forth on
  upper-case ones.\<close>

definition hex_upper :: "string \<Rightarrow> bool" where
  "hex_upper s \<longleftrightarrow> list_all (\<lambda>c. is_digit c \<or> 65 \<le> ord c \<and> ord c \<le> 70) s"

lemma lower_hex: "hex_lower s \<Longrightarrow> to_lower s = s"
proof -
  assume h: "hex_lower s"
  then have "\<forall>c \<in> set s. ord c < 128" by (fastforce simp: hex_lower_def list_all_iff is_digit_def)
  then have "to_lower s = map lower_char s" using to_lower_ascii_append[of s "[]"] by simp
  also have "\<dots> = s" using h by (induction s) (auto simp: hex_lower_def lower_char_def is_digit_def)
  finally show ?thesis .
qed

lemma upper_hex:
  assumes "hex_upper s"
  shows "hex_lower (to_lower s)" and "to_upper (to_lower s) = s"
proof -
  have "\<forall>c \<in> set s. ord c < 128" using assms by (fastforce simp: hex_upper_def list_all_iff is_digit_def)
  then have low: "to_lower s = map lower_char s" using to_lower_ascii_append[of s "[]"] by simp
  have c: "(is_digit (lower_char c) \<or> 97 \<le> ord (lower_char c) \<and> ord (lower_char c) \<le> 102) \<and> upper_char (lower_char c) = c"
    if "is_digit c \<or> 65 \<le> ord c \<and> ord c \<le> 70" for c
  proof (cases "is_digit c")
    case True
    then show ?thesis by (simp add: is_digit_def lower_char_def upper_char_def)
  next
    case False
    with that have r: "65 \<le> ord c" "ord c \<le> 70" by auto
    have "(ord c + 32) mod 256 = ord c + 32" using r by simp
    then have "(of_char (char_of (ord c + 32) :: char) :: nat) = ord c + 32" by (simp only: of_char_of)
    then show ?thesis using r by (simp add: lower_char_def upper_char_def)
  qed
  show h: "hex_lower (to_lower s)" using assms c by (auto simp: low hex_lower_def hex_upper_def list_all_iff)
  have "\<forall>c \<in> set (to_lower s). ord c < 128" using h by (fastforce simp: hex_lower_def list_all_iff is_digit_def)
  then have "to_upper (to_lower s) = map upper_char (to_lower s)" using to_upper_ascii_append[of "to_lower s" "[]"] by simp
  also have "\<dots> = s" using assms c by (simp add: low hex_upper_def list_all_iff map_idI)
  finally show "to_upper (to_lower s) = s" .
qed

lemma hex_upper_no_colon: "hex_upper s \<Longrightarrow> CHR '':'' \<notin> set (to_lower s)"
  by (rule hex_lower_no_colon[OF upper_hex(1)])

lemma meeting_code_no_colon: "IsMeetingCode v \<Longrightarrow> CHR '':'' \<notin> set v \<and> v \<noteq> ''remote''"
  using no_colon by (auto simp: IsMeetingCode_def list_all_iff)

lemma split_username:
  assumes "\<forall>p \<in> set ps. CHR '':'' \<notin> set p"
  shows "ps \<noteq> [] \<Longrightarrow> split_on (CHR '':'') (show_int i @ CHR '':'' # join_with (CHR '':'') ps) = show_int i # ps"
  using assms by (simp add: split_on_append show_int_no_colon split_join)

definition fresh_at :: "int \<Rightarrow> nanos \<Rightarrow> bool" where
  "fresh_at expires now \<longleftrightarrow> unix_seconds now < expires \<and> expires \<le> unix_seconds now + 7260"

lemma read_conference:
  assumes e: "- (2 ^ 63) \<le> unix_seconds expires" "unix_seconds expires < 2 ^ 63" and h: "IsMeetingCode room" "length p = 24" "hex_lower p"
  shows "credentialIdentity now (conference_username expires room p) =
    (if fresh_at (unix_seconds expires) now then Some (Conference_user room p) else None)"
proof -
  note parse = parse_show[OF e]
  have life: "conferenceTURNCredentialLifetime div 1000000000 = 7200" by (simp add: conferenceTURNCredentialLifetime_def)
  have "split_on (CHR '':'') (conference_username expires room p) = [show_int (unix_seconds expires), room, p]"
    unfolding conference_username_def using split_username[of "[room, p]" "unix_seconds expires"]
      meeting_code_no_colon[OF h(1)] hex_lower_no_colon[OF h(3)] by simp
  then show "credentialIdentity now (conference_username expires room p) =
        (if fresh_at (unix_seconds expires) now then Some (Conference_user room p) else None)"
    using h by (auto simp: credentialIdentity_def Let_def parse life fresh_at_def lower_hex)
qed

lemma read_remote:
  assumes e: "- (2 ^ 63) \<le> unix_seconds expires" "unix_seconds expires < 2 ^ 63"
    and h: "length device = 24" "hex_upper device" "length session = 32" "hex_lower session" "role \<in> {''agent'', ''viewer''}"
  shows "credentialIdentity now (remote_username expires device session role) =
    (if fresh_at (unix_seconds expires) now then Some (Remote_user device session role) else None)"
proof -
  note parse = parse_show[OF e]
  have life: "conferenceTURNCredentialLifetime div 1000000000 = 7200" by (simp add: conferenceTURNCredentialLifetime_def)
  have len: "length (to_lower device) = 24"
    using h(1,2) to_lower_ascii_append[of device "[]"] by (fastforce simp: hex_upper_def list_all_iff is_digit_def)
  have "split_on (CHR '':'') (remote_username expires device session role) =
      [show_int (unix_seconds expires), ''remote'', to_lower device, session, role]"
    unfolding remote_username_def lower_hex[OF h(4)]
    using split_username[of "[''remote'', to_lower device, session, role]" "unix_seconds expires"]
      hex_upper_no_colon[OF h(2)] hex_lower_no_colon[OF h(4)] h(5) by auto
  then show "credentialIdentity now (remote_username expires device session role) =
        (if fresh_at (unix_seconds expires) now then Some (Remote_user device session role) else None)"
    using h len lower_hex[OF upper_hex(1)[OF h(2)]] upper_hex[OF h(2)] lower_hex[OF h(4)]
    by (auto simp: credentialIdentity_def Let_def parse life fresh_at_def)
qed

text \<open>A TURN user name means one identity. The user name the relay puts into the policy of a meeting
  participant or of one end of a remote session is read back as exactly that participant of that room, or
  that role in that session of that device, as long as it is fresh, and as nothing once it has expired.\<close>

theorem turn_credentials_roundtrip:
  assumes "- (2 ^ 63) \<le> unix_seconds expires" "unix_seconds expires < 2 ^ 63"
  shows "(IsMeetingCode room \<and> length p = 24 \<and> hex_lower p \<longrightarrow>
      credentialIdentity now (conference_username expires room p) =
        (if fresh_at (unix_seconds expires) now then Some (Conference_user room p) else None))
    \<and> (length device = 24 \<and> hex_upper device \<and> length session = 32 \<and> hex_lower session \<and> role \<in> {''agent'', ''viewer''} \<longrightarrow>
      credentialIdentity now (remote_username expires device session role) =
        (if fresh_at (unix_seconds expires) now then Some (Remote_user device session role) else None))"
  using read_conference[OF assms, of room p now] read_remote[OF assms, of device session role now] by blast

lemma turn_credentials_roundtrip_witness:
  "credentialIdentity 0 (conference_username 7200000000000 ''123456789'' (replicate 24 CHR ''a'')) =
     Some (Conference_user ''123456789'' (replicate 24 CHR ''a''))"
proof -
  have "IsMeetingCode ''123456789'' \<and> length (replicate 24 CHR ''a'') = 24 \<and> hex_lower (replicate 24 CHR ''a'')" by code_simp
  moreover have "unix_seconds 7200000000000 = 7200" "unix_seconds 0 = 0" by (simp_all add: unix_seconds_def)
  ultimately show ?thesis
    using turn_credentials_roundtrip[of 7200000000000 "''123456789''" "replicate 24 CHR ''a''" 0] by (simp add: fresh_at_def)
qed

end
