(* ===== verification/Conference.thy ===== *)
theory Conference
  imports Account RateLimit TurnCredentials
begin

text \<open>
  Meetings of the relay: the directory of meeting codes (\<open>cmd/yudesk-relay/meeting.go\<close>), the
  conference rooms behind them (\<open>conference.go\<close>), and the checks and signed texts client and relay
  share (\<open>internal/relay/meeting.go\<close>, \<open>conference.go\<close>).

  The state is the part of the broker these handlers use. Each critical section is one definition;
  what a handler reads before it takes the lock comes as an argument. Participants are a heap of
  objects named by number (the pointers of the code); a room maps participant identifiers to them.
  A Go map is an association list with distinct keys; where the code ranges over a map the order of
  the list stands for the unspecified order, and no result depends on it. The queue of a participant
  is what the channel \<open>send\<close> holds. Delayed closings (\<open>time.AfterFunc\<close>) are collected in
  \<open>closing\<close> and happen by an event of their own. The sequence number of \<open>uint64\<close> is a number: it
  would take 2 to the 64 entries to wrap.
\<close>

section \<open>Shared checks\<close>

definition ValidMeetingTopic :: "string \<Rightarrow> bool" where
  "ValidMeetingTopic v = (let v = trim_space v in v \<noteq> [] \<and> rune_count v \<le> 64 \<and> \<not> has_control v)"

definition ValidConferenceName :: "string \<Rightarrow> bool" where
  "ValidConferenceName v = (let v = trim_space v in v \<noteq> [] \<and> rune_count v \<le> 32 \<and> \<not> has_control v)"

definition MeetingProof :: "string \<Rightarrow> string \<Rightarrow> bytes \<Rightarrow> bytes" where
  "MeetingProof deviceID action nonce =
     str_bytes (''yudesk-meeting-v1:'' @ to_upper deviceID @ '':'' @ action @ '':'') @ nonce"

definition nul :: string where
  "nul = [char_of (0 :: nat)]"

definition ConferenceProof :: "string \<Rightarrow> string \<Rightarrow> string \<Rightarrow> string \<Rightarrow> bytes \<Rightarrow> bytes" where
  "ConferenceProof deviceID room action name nonce =
     str_bytes (''yudesk-conference-v1'' @ nul @ to_upper (trim_space deviceID) @ nul
       @ trim_space room @ nul @ action @ nul @ trim_space name @ nul) @ nonce"

section \<open>Messages\<close>

record conf_peer =
  peer_id :: string
  peer_name :: string
  peer_joined :: int
  peer_host :: bool
  peer_mic :: bool
  peer_cam :: bool
  peer_screen :: bool
  peer_rec :: bool

record conf_msg =
  m_type :: string
  m_id :: string
  m_from :: string
  m_to :: string
  m_name :: string
  m_topic :: string
  m_joined :: int
  m_host :: string
  m_peers :: "conf_peer list"
  m_signal :: string
  m_sdp :: string
  m_candidate :: string
  m_mic :: bool
  m_cam :: bool
  m_screen :: bool
  m_rec :: bool
  m_text :: string
  m_rtc :: "rtc_policy option"

text \<open>\<open>ConferenceMessage{Type: t}\<close>.\<close>

definition msg :: "string \<Rightarrow> conf_msg" where
  "msg t = \<lparr>m_type = t, m_id = [], m_from = [], m_to = [], m_name = [], m_topic = [], m_joined = 0, m_host = [],
     m_peers = [], m_signal = [], m_sdp = [], m_candidate = [], m_mic = False, m_cam = False, m_screen = False,
     m_rec = False, m_text = [], m_rtc = None\<rparr>"

text \<open>The reasons shown to participants, in UTF-8: the host ended the meeting; the meeting has
  expired; the host has removed you from this meeting.\<close>

definition reason_ended :: string where
  "reason_ended = map char_of [228, 184, 187, 230, 140, 129, 228, 186, 186, 229, 183, 178, 231, 187, 147, 230, 157, 159,
     228, 188, 154, 232, 174, 174 :: nat]"

definition reason_expired :: string where
  "reason_expired = map char_of [228, 188, 154, 232, 174, 174, 229, 183, 178, 229, 136, 176, 230, 156, 159 :: nat]"

definition reason_removed :: string where
  "reason_removed = map char_of [228, 189, 160, 229, 183, 178, 232, 162, 171, 228, 184, 187, 230, 140, 129, 228, 186, 186,
     231, 167, 187, 229, 135, 186, 230, 156, 172, 230, 172, 161, 228, 188, 154, 232, 174, 174 :: nat]"

section \<open>State\<close>

record participant =
  p_id :: string
  p_device :: string
  p_name :: string
  p_send :: "conf_msg list"
  p_done :: bool
  p_seq :: nat
  p_joined :: int
  p_mic :: bool
  p_cam :: bool
  p_screen :: bool
  p_rec :: bool

type_synonym heap = "nat \<Rightarrow> participant"

record conf_room =
  members :: "(string \<times> nat) list"
  removed :: "string set"
  hostID :: string

record meeting_room =
  r_device :: string
  r_topic :: string
  r_expires :: nanos
  r_conf :: "conf_room option"

record control =
  c_stopping :: bool
  c_seen :: int

record broker =
  accounts_on :: bool
  store :: db
  deviceLicenses :: bool
  lookups :: "(string \<times> lookup_window) list"
  controls :: "string \<Rightarrow> control option"
  active :: "string \<Rightarrow> bool"
  meetings :: "(string \<times> meeting_room) list"
  meetingDevices :: "(string \<times> string) list"
  conferenceSeq :: nat
  parts :: heap
  next_part :: nat
  closing :: "nat list"
  conferenceTURN :: "turn_config option"
  conferenceSTUN :: string
  directTimeoutMS :: int

definition no_participant :: participant where
  "no_participant = \<lparr>p_id = [], p_device = [], p_name = [], p_send = [], p_done = True, p_seq = 0, p_joined = 0,
     p_mic = False, p_cam = False, p_screen = False, p_rec = False\<rparr>"

definition peer :: "string \<Rightarrow> participant \<Rightarrow> conf_peer" where
  "peer host p = \<lparr>peer_id = p_id p, peer_name = p_name p, peer_joined = p_joined p, peer_host = (p_id p = host),
     peer_mic = p_mic p, peer_cam = p_cam p, peer_screen = p_screen p, peer_rec = p_rec p\<rparr>"

definition close_participant :: "participant \<Rightarrow> participant" where
  "close_participant p = p\<lparr>p_done := True\<rparr>"

section \<open>Queues\<close>

definition queue_limit :: nat where
  "queue_limit = 64"

definition queueConference :: "nat \<Rightarrow> conf_msg \<Rightarrow> heap \<Rightarrow> heap" where
  "queueConference i m h =
     (let p = h i in
      if p_done p then h
      else if length (p_send p) < queue_limit then h(i := p\<lparr>p_send := p_send p @ [m]\<rparr>)
      else h(i := close_participant p))"

fun broadcast :: "(string \<times> nat) list \<Rightarrow> conf_msg \<Rightarrow> string \<Rightarrow> heap \<Rightarrow> heap" where
  "broadcast [] m except h = h"
| "broadcast ((k, i) # ms) m except h = broadcast ms m except (if k \<noteq> except then queueConference i m h else h)"

text \<open>\<open>closeConferenceLocked\<close>; the room it empties is dropped by its callers.\<close>

definition closeConference :: "conf_room option \<Rightarrow> string \<Rightarrow> broker \<Rightarrow> broker" where
  "closeConference room reason b =
     (case room of None \<Rightarrow> b
      | Some r \<Rightarrow> b\<lparr>parts := fold (\<lambda>(k, i). queueConference i ((msg ''ended'')\<lparr>m_text := reason\<rparr>)) (members r) (parts b),
          closing := closing b @ map snd (members r)\<rparr>)"

section \<open>Removing meetings\<close>

definition removeMeetingCode :: "string \<Rightarrow> string \<Rightarrow> broker \<Rightarrow> broker" where
  "removeMeetingCode code reason b =
     (case map_of (meetings b) code of None \<Rightarrow> b
      | Some room \<Rightarrow>
          let b = closeConference (r_conf room) reason b;
              b = b\<lparr>meetings := AList.delete code (meetings b)\<rparr>
          in if map_of (meetingDevices b) (r_device room) = Some code
             then b\<lparr>meetingDevices := AList.delete (r_device room) (meetingDevices b)\<rparr> else b)"

text \<open>\<open>cleanupMeetingsLocked\<close> ranges over the meetings; for each expired one its body is that of
  \<open>removeMeetingCodeLocked\<close>.\<close>

definition cleanupMeetings :: "nanos \<Rightarrow> broker \<Rightarrow> broker" where
  "cleanupMeetings now b =
     fold (\<lambda>(code, room) b. if r_expires room > now then b else removeMeetingCode code reason_expired b) (meetings b) b"

definition removeMeeting :: "string \<Rightarrow> broker \<Rightarrow> broker" where
  "removeMeeting deviceID b =
     (case map_of (meetingDevices b) deviceID of None \<Rightarrow> b
      | Some code \<Rightarrow>
          if code = [] then b
          else
            let b = (case map_of (meetings b) code of None \<Rightarrow> b
                     | Some room \<Rightarrow> closeConference (r_conf room) reason_ended b)
            in b\<lparr>meetingDevices := AList.delete deviceID (meetingDevices b),
                 meetings := AList.delete code (meetings b)\<rparr>)"

section \<open>Meetings: \<open>handleMeeting\<close>\<close>

record hello =
  h_id :: string
  h_key :: bytes
  h_action :: string
  h_room :: string
  h_name :: string
  h_topic :: string

text \<open>What the client sends back for the challenge: nothing in time, a line that is not JSON, or a
  message with its type and signature.\<close>

datatype reply = No_line | Bad_json | Reply string bytes

datatype answer =
    No_answer
  | Stop string string
  | Stop_error string acc_error
  | Closed
  | Opened nanos string string
  | Welcome

record ticket =
  t_device :: string
  t_topic :: string
  t_code :: string
  t_expires :: nanos

definition seconds :: "int \<Rightarrow> nanos" where
  "seconds n = n * 1000000000"

text \<open>\<open>expiry.After(now)\<close>, \<open>None\<close> being the zero time.\<close>

definition after :: "int option \<Rightarrow> nanos \<Rightarrow> bool" where
  "after expiry now = (case expiry of None \<Rightarrow> False | Some t \<Rightarrow> seconds t > now)"

definition audit_entry :: "string \<Rightarrow> string \<Rightarrow> string \<Rightarrow> audit_row" where
  "audit_entry action device remote = \<lparr>au_at = 0, au_user = [], au_action = action, au_device = device,
     au_remote = remote, au_detail = []\<rparr>"

definition log_audit :: "acc_env \<Rightarrow> audit_row \<Rightarrow> broker \<Rightarrow> broker" where
  "log_audit e row b = b\<lparr>store := Audit e None row (store b)\<rparr>"

text \<open>The checks before the challenge, and the authentication of its answer. \<open>nonce\<close> is \<open>None\<close> when
  the draw or the sending of the challenge fails.\<close>

definition meeting_request :: "primitives \<Rightarrow> hello \<Rightarrow> bytes option \<Rightarrow> reply \<Rightarrow> broker \<Rightarrow> answer + hello" where
  "meeting_request pr h nonce rep b =
     (if \<not> deviceLicenses b \<or> \<not> accounts_on b then Inl (Stop ''DENIED'' ''meeting directory is unavailable'')
      else
        let h = h\<lparr>h_id := to_upper (trim_space (h_id h)), h_topic := trim_space (h_topic h)\<rparr> in
        if h_action h \<notin> {''open'', ''close''} \<or> length (h_key h) \<noteq> 32 \<or> DeviceID pr (h_key h) \<noteq> h_id h
        then Inl (Stop ''DENIED'' ''invalid meeting request'')
        else if h_action h = ''open'' \<and> h_topic h \<noteq> [] \<and> \<not> ValidMeetingTopic (h_topic h)
        then Inl (Stop ''DENIED'' ''invalid meeting topic'')
        else case nonce of None \<Rightarrow> Inl No_answer
        | Some n \<Rightarrow> (case rep of No_line \<Rightarrow> Inl No_answer
          | Bad_json \<Rightarrow> Inl (Stop ''DENIED'' ''device identity authentication failed'')
          | Reply t sig \<Rightarrow>
              if t \<noteq> ''proof'' \<or> \<not> ed_verify pr (h_key h) (MeetingProof (h_id h) (h_action h) n) sig
              then Inl (Stop ''DENIED'' ''device identity authentication failed'') else Inr h))"

text \<open>\<open>e 0\<close> to \<open>e 3\<close> are the environments of the calls to the account store, in their order.\<close>

definition meeting_register :: "(nat \<Rightarrow> acc_env) \<Rightarrow> nanos \<Rightarrow> hello \<Rightarrow> broker \<Rightarrow> (answer + int) \<times> broker" where
  "meeting_register e now h b =
     (case RegisterLicensedDeviceNamed (e 0) (h_id h) (h_key h) [] (store b) of
        (Inl err, db) \<Rightarrow> (Inl (Stop_error ''DISABLED'' err), b\<lparr>store := db\<rparr>)
      | (Inr _, db) \<Rightarrow>
          let b = b\<lparr>store := db\<rparr> in
          (case DeviceLicenseExpiry (e 1) 0 (h_id h) db of
             Inr (Some t) \<Rightarrow> (if seconds t > now then (Inr t, b)
               else (Inl (Stop ''LICENSE_REQUIRED'' ''device activation is required or has expired''), b))
           | _ \<Rightarrow> (Inl (Stop ''LICENSE_REQUIRED'' ''device activation is required or has expired''), b)))"

definition meeting_close :: "acc_env \<Rightarrow> string \<Rightarrow> hello \<Rightarrow> broker \<Rightarrow> answer \<times> broker" where
  "meeting_close e remote h b =
     (Closed, log_audit e (audit_entry ''meeting_close'' (h_id h) remote) (removeMeeting (h_id h) b))"

text \<open>At most 64 draws for a code that no meeting has and that is not the device's own. \<open>None\<close> is a
  failing random source; \<open>rand.Int\<close> stays below its bound.\<close>

fun draw_code :: "(nat \<Rightarrow> nat option) \<Rightarrow> nat \<Rightarrow> nat \<Rightarrow> (string \<times> meeting_room) list \<Rightarrow> string \<Rightarrow> string" where
  "draw_code ds k 0 ms own = []"
| "draw_code ds k (Suc tries) ms own =
     (case ds k of None \<Rightarrow> []
      | Some v \<Rightarrow>
          let c = decimal 9 (100000000 + v mod 900000000) in
          if map_of ms c = None \<and> c \<noteq> own then c else draw_code ds (Suc k) tries ms own)"

definition offline :: "nanos \<Rightarrow> string \<Rightarrow> broker \<Rightarrow> bool" where
  "offline now d b = (case controls b d of None \<Rightarrow> True
     | Some c \<Rightarrow> c_stopping c \<or> now - seconds (c_seen c) > 15000000000 \<or> active b d)"

text \<open>The critical section that opens a meeting; the ticket is what was established before it.\<close>

definition meeting_locked :: "nanos \<Rightarrow> (nat \<Rightarrow> nat option) \<Rightarrow> ticket \<Rightarrow> broker \<Rightarrow> answer \<times> broker" where
  "meeting_locked now ds t b =
     (if offline now (t_device t) b then (Stop ''BUSY'' ''device is offline or already connected'', b)
      else
        let b = removeMeeting (t_device t) (cleanupMeetings now b);
            code = draw_code ds 0 64 (meetings b) (t_code t)
        in if code = [] then (Stop ''DENIED'' ''cannot allocate meeting code'', b)
           else (Opened (t_expires t) code (t_topic t), b\<lparr>
             meetings := AList.update code \<lparr>r_device = t_device t, r_topic = t_topic t, r_expires = t_expires t, r_conf = None\<rparr> (meetings b),
             meetingDevices := AList.update (t_device t) code (meetingDevices b)\<rparr>))"

text \<open>The whole handler. \<open>now\<close> is the clock when the licence is checked, \<open>now'\<close> when it opens.\<close>

definition handleMeeting ::
  "primitives \<Rightarrow> (nat \<Rightarrow> acc_env) \<Rightarrow> string \<Rightarrow> hello \<Rightarrow> bytes option \<Rightarrow> reply \<Rightarrow> nanos \<Rightarrow> nanos \<Rightarrow> (nat \<Rightarrow> nat option)
     \<Rightarrow> broker \<Rightarrow> answer \<times> broker"
where
  "handleMeeting pr e remote h nonce rep now now' ds b =
     (case meeting_request pr h nonce rep b of Inl a \<Rightarrow> (a, b)
      | Inr h \<Rightarrow>
        (case meeting_register e now h b of (Inl a, b) \<Rightarrow> (a, b)
         | (Inr licence, b) \<Rightarrow>
           if h_action h = ''close'' then meeting_close (e 2) remote h b
           else
             (case EnsureDeviceCode (e 2) (h_id h) (store b) of (r, db) \<Rightarrow>
                let code = (case r of Inl _ \<Rightarrow> [] | Inr c \<Rightarrow> c);
                    expires = min (seconds licence) (now' + 2 * 3600000000000);
                    t = \<lparr>t_device = h_id h, t_topic = h_topic h, t_code = code, t_expires = expires\<rparr>
                in (case meeting_locked now' ds t (b\<lparr>store := db\<rparr>) of
                      (Opened x y z, b) \<Rightarrow>
                        (Opened x y z, log_audit (e 3) (audit_entry ''meeting_open'' (h_id h) remote) b)
                    | (a, b) \<Rightarrow> (a, b)))))"

section \<open>The directory: \<open>handleMeetingResolve\<close>\<close>

text \<open>The device, topic and expiry of the meeting, or \<open>None\<close> for the one answer "meeting unavailable".\<close>

definition handleMeetingResolve ::
  "acc_env \<Rightarrow> string \<Rightarrow> nanos \<Rightarrow> string \<Rightarrow> broker \<Rightarrow> (string \<times> string \<times> nanos) option \<times> broker"
where
  "handleMeetingResolve e host now code b =
     (if \<not> IsMeetingCode code then (None, b)
      else case permitLookup host 12 now (lookups b) of (ok, ls) \<Rightarrow>
        let b = b\<lparr>lookups := ls\<rparr> in
        if \<not> ok then (None, b)
        else
          let b = cleanupMeetings now b in
          (case map_of (meetings b) code of None \<Rightarrow> (None, b)
           | Some room \<Rightarrow>
             (if offline now (r_device room) b then None
              else case DeviceLicenseExpiry e 0 (r_device room) (store b) of
                Inr expiry \<Rightarrow> if after expiry now then Some (r_device room, r_topic room, r_expires room) else None
              | Inl _ \<Rightarrow> None, b)))"

section \<open>Entering a room: \<open>handleConference\<close>\<close>

definition conference_request :: "primitives \<Rightarrow> hello \<Rightarrow> bytes option \<Rightarrow> reply \<Rightarrow> broker \<Rightarrow> answer + hello" where
  "conference_request pr h nonce rep b =
     (let h = h\<lparr>h_id := to_upper (trim_space (h_id h)), h_room := trim_space (h_room h), h_name := trim_space (h_name h)\<rparr> in
      if \<not> accounts_on b \<or> \<not> deviceLicenses b \<or> \<not> IsMeetingCode (h_room h) \<or> \<not> ValidConferenceName (h_name h)
         \<or> h_action h \<notin> {''host'', ''join''} \<or> length (h_key h) \<noteq> 32 \<or> DeviceID pr (h_key h) \<noteq> h_id h
      then Inl (Stop ''DENIED'' ''invalid conference request'')
      else case nonce of None \<Rightarrow> Inl No_answer
      | Some n \<Rightarrow> (case rep of No_line \<Rightarrow> Inl No_answer
        | Bad_json \<Rightarrow> Inl (Stop ''DENIED'' ''conference identity authentication failed'')
        | Reply t sig \<Rightarrow>
            if t \<noteq> ''proof'' \<or> \<not> ed_verify pr (h_key h) (ConferenceProof (h_id h) (h_room h) (h_action h) (h_name h) n) sig
            then Inl (Stop ''DENIED'' ''conference identity authentication failed'') else Inr h))"

definition has_device :: "broker \<Rightarrow> conf_room \<Rightarrow> string \<Rightarrow> bool" where
  "has_device b r d \<longleftrightarrow> (\<exists>(k, i) \<in> set (members r). p_device (parts b i) = d)"

text \<open>The first look at the room, and the licences of its owner and of the participant.
  \<open>None\<close> lets the client go on.\<close>

definition conference_admit :: "(nat \<Rightarrow> acc_env) \<Rightarrow> nanos \<Rightarrow> hello \<Rightarrow> broker \<Rightarrow> answer option \<times> broker" where
  "conference_admit e now h b =
     (let b = cleanupMeetings now b in
      (case map_of (meetings b) (h_room h) of
         None \<Rightarrow> Some (Stop ''NOT_FOUND'' ''meeting does not exist or has expired'')
       | Some room \<Rightarrow>
         if \<not> r_expires room > now then Some (Stop ''NOT_FOUND'' ''meeting does not exist or has expired'')
         else if (case DeviceLicenseExpiry (e 0) 0 (r_device room) (store b) of Inl _ \<Rightarrow> True | Inr t \<Rightarrow> \<not> after t now)
         then Some (Stop ''LICENSE_REQUIRED'' ''meeting host activation has expired'')
         else if h_action h = ''host'' \<and> r_device room \<noteq> h_id h
         then Some (Stop ''DENIED'' ''only the meeting owner can enter as the initial host'')
         else if h_action h \<noteq> ''host'' \<and> (case r_conf room of None \<Rightarrow> True | Some c \<Rightarrow> hostID c = [])
         then Some (Stop ''BUSY'' ''host has not entered the meeting yet'')
         else if (case r_conf room of None \<Rightarrow> False | Some c \<Rightarrow> has_device b c (h_id h))
         then Some (Stop ''BUSY'' ''this device is already in the meeting'')
         else if (case r_conf room of None \<Rightarrow> False | Some c \<Rightarrow> h_id h \<in> removed c)
         then Some (Stop ''DENIED'' ''this device was removed from the meeting'')
         else if (case DeviceLicenseExpiry (e 1) 0 (h_id h) (store b) of Inl _ \<Rightarrow> True | Inr t \<Rightarrow> \<not> after t now)
         then Some (Stop ''LICENSE_REQUIRED'' ''participant activation has expired'')
         else None, b))"

definition newConferenceParticipantID :: "bytes \<Rightarrow> string" where
  "newConferenceParticipantID value = hex_encode value"

definition set_conf :: "string \<Rightarrow> meeting_room \<Rightarrow> conf_room \<Rightarrow> broker \<Rightarrow> broker" where
  "set_conf code room c b = b\<lparr>meetings := AList.update code (room\<lparr>r_conf := Some c\<rparr>) (meetings b)\<rparr>"

definition welcome_rtc :: "nanos \<Rightarrow> string \<Rightarrow> string \<Rightarrow> nanos \<Rightarrow> broker \<Rightarrow> rtc_policy option" where
  "welcome_rtc now code pid expires b =
     (case conferenceTURN b of
        Some m \<Rightarrow> Some (policy m now code pid expires (conferenceSTUN b) (directTimeoutMS b))
      | None \<Rightarrow> if conferenceSTUN b \<noteq> [] then
          Some \<lparr>ice_servers = [stun_server (conferenceSTUN b)], direct_timeout = directTimeoutMS b, relay_enabled = False\<rparr>
          else None)"

text \<open>The second critical section, after the client said READY: the checks are made again, and the
  participant, a new object of the heap, enters. \<open>None\<close> when its connection is closed instead.\<close>

definition conference_join :: "nanos \<Rightarrow> int \<Rightarrow> string \<Rightarrow> hello \<Rightarrow> broker \<Rightarrow> nat option \<times> broker" where
  "conference_join now joinedAt pid h b =
     (case map_of (meetings b) (h_room h) of None \<Rightarrow> (None, b)
      | Some room \<Rightarrow>
        if \<not> r_expires room > now then (None, b)
        else if r_conf room = None \<and> h_action h \<noteq> ''host'' then (None, b)
        else
          let c = (case r_conf room of None \<Rightarrow> \<lparr>members = [], removed = {}, hostID = []\<rparr> | Some c \<Rightarrow> c) in
          if (h_action h = ''host'' \<and> r_device room \<noteq> h_id h) \<or> (h_action h = ''join'' \<and> hostID c = []) then (None, b)
          else if has_device b c (h_id h) then (None, b)
          else if h_id h \<in> removed c then (None, b)
          else
            let i = next_part b; sq = conferenceSeq b + 1;
                p = \<lparr>p_id = pid, p_device = h_id h, p_name = h_name h, p_send = [], p_done = False, p_seq = sq,
                  p_joined = joinedAt, p_mic = False, p_cam = False, p_screen = False, p_rec = False\<rparr>;
                peers = map (\<lambda>(k, j). peer (hostID c) (parts b j)) (members c);
                c' = c\<lparr>members := AList.update pid i (members c), hostID := (if hostID c = [] then pid else hostID c)\<rparr>;
                hp = broadcast (members c') ((msg ''peer-joined'')\<lparr>m_id := pid, m_name := h_name h, m_joined := joinedAt,
                  m_host := hostID c'\<rparr>) pid ((parts b)(i := p));
                welcome = (msg ''welcome'')\<lparr>m_id := pid, m_name := h_name h, m_topic := r_topic room, m_joined := joinedAt,
                  m_host := hostID c', m_peers := peers, m_rtc := welcome_rtc now (h_room h) pid (r_expires room) b\<rparr>
            in (Some i, set_conf (h_room h) room c' (b\<lparr>conferenceSeq := sq, next_part := Suc i,
                  parts := queueConference i welcome hp\<rparr>)))"

section \<open>In the room: \<open>applyConferenceMessage\<close>, \<open>leaveConference\<close>\<close>

definition valid_signal :: "conf_msg \<Rightarrow> bool" where
  "valid_signal m \<longleftrightarrow> m_signal m \<in> {''offer'', ''answer'', ''candidate''} \<and> length (m_sdp m) \<le> 32768
     \<and> length (m_candidate m) \<le> 8192 \<and> \<not> (m_signal m \<noteq> ''candidate'' \<and> m_sdp m = [])
     \<and> \<not> (m_signal m = ''candidate'' \<and> m_candidate m = [])"

definition state_msg :: "participant \<Rightarrow> conf_msg" where
  "state_msg p = (msg ''state'')\<lparr>m_id := p_id p, m_mic := p_mic p, m_cam := p_cam p, m_screen := p_screen p, m_rec := p_rec p\<rparr>"

text \<open>The cases of \<open>applyConferenceMessage\<close> for the participant \<open>i\<close> of the room \<open>c\<close> under \<open>code\<close>; False
  ends its connection.\<close>

definition apply_signal :: "conf_room \<Rightarrow> nat \<Rightarrow> conf_msg \<Rightarrow> broker \<Rightarrow> bool \<times> broker" where
  "apply_signal c i m b =
     (if \<not> valid_signal m then (False, b)
      else case map_of (members c) (m_to m) of None \<Rightarrow> (True, b)
      | Some j \<Rightarrow>
          if j = i then (False, b)
          else (True, b\<lparr>parts := queueConference j ((msg ''signal'')\<lparr>m_from := p_id (parts b i), m_signal := m_signal m,
            m_sdp := m_sdp m, m_candidate := m_candidate m\<rparr>) (parts b)\<rparr>))"

definition apply_state :: "conf_room \<Rightarrow> nat \<Rightarrow> conf_msg \<Rightarrow> broker \<Rightarrow> broker" where
  "apply_state c i m b =
     (let host = (hostID c = p_id (parts b i));
          p = (parts b i)\<lparr>p_mic := m_mic m, p_cam := m_cam m, p_screen := (host \<and> m_screen m), p_rec := (host \<and> m_rec m)\<rparr>
      in b\<lparr>parts := broadcast (members c) (state_msg p) [] ((parts b)(i := p))\<rparr>)"

definition apply_transfer :: "string \<Rightarrow> meeting_room \<Rightarrow> conf_room \<Rightarrow> nat \<Rightarrow> conf_msg \<Rightarrow> broker \<Rightarrow> bool \<times> broker" where
  "apply_transfer code room c i m b =
     (let p = parts b i in
      if hostID c \<noteq> p_id p \<or> map_of (members c) (m_to m) = None \<or> m_to m = p_id p then (False, b)
      else
        let p = p\<lparr>p_screen := False, p_rec := False\<rparr>;
            hp = broadcast (members c) (state_msg p) [] ((parts b)(i := p));
            hp = broadcast (members c) ((msg ''host'')\<lparr>m_host := m_to m\<rparr>) [] hp
        in (True, set_conf code room (c\<lparr>hostID := m_to m\<rparr>) (b\<lparr>parts := hp\<rparr>)))"

definition apply_kick :: "string \<Rightarrow> meeting_room \<Rightarrow> conf_room \<Rightarrow> nat \<Rightarrow> conf_msg \<Rightarrow> broker \<Rightarrow> bool \<times> broker" where
  "apply_kick code room c i m b =
     (if hostID c \<noteq> p_id (parts b i) \<or> m_to m = p_id (parts b i) then (False, b)
      else case map_of (members c) (m_to m) of None \<Rightarrow> (True, b)
      | Some j \<Rightarrow>
          (True, set_conf code room (c\<lparr>removed := insert (p_device (parts b j)) (removed c)\<rparr>)
            (b\<lparr>parts := queueConference j ((msg ''removed'')\<lparr>m_text := reason_removed\<rparr>) (parts b),
               closing := closing b @ [j]\<rparr>)))"

definition applyConferenceMessage :: "string \<Rightarrow> nat \<Rightarrow> conf_msg \<Rightarrow> broker \<Rightarrow> bool \<times> broker" where
  "applyConferenceMessage code i m b =
     (case map_of (meetings b) code of None \<Rightarrow> (False, b)
      | Some room \<Rightarrow> (case r_conf room of None \<Rightarrow> (False, b)
        | Some c \<Rightarrow>
          if map_of (members c) (p_id (parts b i)) \<noteq> Some i then (False, b)
          else if m_type m = ''ping'' then (True, b\<lparr>parts := queueConference i (msg ''pong'') (parts b)\<rparr>)
          else if m_type m = ''signal'' then apply_signal c i m b
          else if m_type m = ''state'' then (True, apply_state c i m b)
          else if m_type m = ''transfer'' then apply_transfer code room c i m b
          else if m_type m = ''kick'' then apply_kick code room c i m b
          else if m_type m = ''end'' then
            (if hostID c \<noteq> p_id (parts b i) then (False, b) else (False, removeMeetingCode code reason_ended b))
          else (False, b)))"

definition earliest :: "heap \<Rightarrow> (string \<times> nat) list \<Rightarrow> nat option" where
  "earliest hp ms = foldl (\<lambda>best (k, i). case best of None \<Rightarrow> Some i
     | Some j \<Rightarrow> if p_seq (hp i) < p_seq (hp j) then Some i else best) None ms"

definition leaveConference :: "string \<Rightarrow> nat \<Rightarrow> broker \<Rightarrow> broker" where
  "leaveConference code i b =
     (let stay = b\<lparr>closing := closing b @ [i]\<rparr> in
      case map_of (meetings b) code of None \<Rightarrow> stay
      | Some room \<Rightarrow> (case r_conf room of None \<Rightarrow> stay
        | Some c \<Rightarrow>
          let pid = p_id (parts b i) in
          if map_of (members c) pid \<noteq> Some i then stay
          else
            let ms = AList.delete pid (members c);
                hp = broadcast ms ((msg ''peer-left'')\<lparr>m_id := pid\<rparr>) [] (parts b);
                (host, hp) = (if hostID c \<noteq> pid then (hostID c, hp)
                  else case earliest hp ms of None \<Rightarrow> ([], hp)
                  | Some j \<Rightarrow> (p_id (hp j), broadcast ms ((msg ''host'')\<lparr>m_host := p_id (hp j)\<rparr>) [] hp))
            in set_conf code room (c\<lparr>members := ms, hostID := host\<rparr>)
                 (b\<lparr>parts := hp(i := close_participant (hp i))\<rparr>)))"

text \<open>The writer takes the next message; when sending it fails it closes the participant.\<close>

definition write_next :: "bool \<Rightarrow> participant \<Rightarrow> participant" where
  "write_next sent_ok p = (case p_send p of [] \<Rightarrow> p
     | m # ms \<Rightarrow> if sent_ok then p\<lparr>p_send := ms\<rparr> else close_participant (p\<lparr>p_send := ms\<rparr>))"

section \<open>Events\<close>

text \<open>The critical sections as events. What a handler established before its section is arbitrary:
  the sections themselves keep the rooms in order. An identifier is drawn with \<open>Join\<close>, whose request
  has passed the check of its action. The other
  parts of the relay change which devices are online (\<open>Presence\<close>), a management connection that ends
  removes its device's meeting (\<open>Control_gone\<close>), and the account store changes as it likes.\<close>

datatype conf_event =
    Open nanos "nat \<Rightarrow> nat option" ticket
  | CloseMeeting string
  | Resolve acc_env string nanos string
  | Admit "nat \<Rightarrow> acc_env" nanos hello
  | Join nanos int bytes hello
  | Message string nat conf_msg
  | Leave string nat
  | Written nat bool
  | Closing_timer nat
  | Control_gone string
  | Presence "string \<Rightarrow> control option" "string \<Rightarrow> bool"
  | Store acc_event

fun conf_step :: "broker \<Rightarrow> conf_event \<Rightarrow> broker" where
  "conf_step b (Open now ds t) = snd (meeting_locked now ds t b)"
| "conf_step b (CloseMeeting d) = removeMeeting d b"
| "conf_step b (Resolve e host now code) = snd (handleMeetingResolve e host now code b)"
| "conf_step b (Admit e now h) = snd (conference_admit e now h b)"
| "conf_step b (Join now joinedAt raw h) =
     (if length raw \<noteq> 12 \<or> h_action h \<notin> {''host'', ''join''} then b else snd (conference_join now joinedAt (newConferenceParticipantID raw) h b))"
| "conf_step b (Message code i m) = (if i < next_part b then snd (applyConferenceMessage code i m b) else b)"
| "conf_step b (Leave code i) = (if i < next_part b then leaveConference code i b else b)"
| "conf_step b (Written i ok) = (if i < next_part b then b\<lparr>parts := (parts b)(i := write_next ok (parts b i))\<rparr> else b)"
| "conf_step b (Closing_timer i) =
     (if i \<in> set (closing b) then b\<lparr>parts := (parts b)(i := close_participant (parts b i)), closing := remove1 i (closing b)\<rparr>
      else b)"
| "conf_step b (Control_gone d) = removeMeeting d (b\<lparr>controls := (controls b)(d := None)\<rparr>)"
| "conf_step b (Presence cs act) = b\<lparr>controls := cs, active := act\<rparr>"
| "conf_step b (Store ev) = b\<lparr>store := acc_step (store b) ev\<rparr>"

definition new_broker :: "db \<Rightarrow> turn_config option \<Rightarrow> string \<Rightarrow> int \<Rightarrow> broker" where
  "new_broker db turn stun timeout = \<lparr>accounts_on = True, store = db, deviceLicenses = True, lookups = [],
     controls = Map.empty, active = (\<lambda>_. False), meetings = [], meetingDevices = [], conferenceSeq = 0,
     parts = (\<lambda>_. no_participant), next_part = 0, closing = [], conferenceTURN = turn, conferenceSTUN = stun,
     directTimeoutMS = timeout\<rparr>"

end
