(* ===== verification/Conference_Props.thy ===== *)
theory Conference_Props
  imports Conference Account_Licences
begin

text \<open>
  The invariants of the meeting directory and of the rooms, over every sequence of events, and what
  they give: one host per room who is in it, one room per participant, one meeting per device, and
  bounded queues.
\<close>

section \<open>Queues\<close>

text \<open>A heap after queueing: only queues and closed flags differ, and no queue is over its limit.\<close>

definition same_person :: "participant \<Rightarrow> participant \<Rightarrow> bool" where
  "same_person p q \<longleftrightarrow> p_id p = p_id q \<and> p_device p = p_device q \<and> p_seq p = p_seq q
     \<and> p_screen p = p_screen q \<and> p_rec p = p_rec q"

definition queued :: "heap \<Rightarrow> heap \<Rightarrow> bool" where
  "queued h h' \<longleftrightarrow> (\<forall>i. same_person (h i) (h' i)
     \<and> (length (p_send (h i)) \<le> queue_limit \<longrightarrow> length (p_send (h' i)) \<le> queue_limit))"

lemma queued_refl [simp]: "queued h h"
  by (simp add: queued_def same_person_def)

lemma queued_trans: "queued h h' \<Longrightarrow> queued h' h'' \<Longrightarrow> queued h h''"
  unfolding queued_def same_person_def by metis

lemma queueConference_queued: "queued h (queueConference i m h)"
  by (auto simp: queued_def same_person_def queueConference_def Let_def close_participant_def)

lemma broadcast_queued: "queued h (broadcast ms m except h)"
proof (induction ms arbitrary: h)
  case (Cons x ms)
  then show ?case by (cases x) (auto intro: queued_trans queueConference_queued)
qed simp

lemma fold_queued: "queued h (fold (\<lambda>(k, i). queueConference i m) ms h)"
proof (induction ms arbitrary: h)
  case (Cons x ms)
  then show ?case by (cases x) (auto intro: queued_trans queueConference_queued)
qed simp

lemmas queueing = queueConference_queued broadcast_queued fold_queued

section \<open>The invariants\<close>

definition room_ok :: "heap \<Rightarrow> nat \<Rightarrow> conf_room \<Rightarrow> bool" where
  "room_ok h n c \<longleftrightarrow> distinct (map fst (members c))
     \<and> (\<forall>(k, i) \<in> set (members c). i < n \<and> p_id (h i) = k \<and> k \<noteq> [])
     \<and> distinct (map (\<lambda>(k, i). p_device (h i)) (members c))
     \<and> (if members c = [] then hostID c = [] else hostID c \<in> fst ` set (members c))
     \<and> (\<forall>(k, i) \<in> set (members c). k \<noteq> hostID c \<longrightarrow> \<not> p_screen (h i) \<and> \<not> p_rec (h i))"

definition conf_of :: "(string \<times> meeting_room) list \<Rightarrow> string \<Rightarrow> conf_room option" where
  "conf_of ms code = (case map_of ms code of None \<Rightarrow> None | Some r \<Rightarrow> r_conf r)"

definition rooms_inv :: "(string \<times> meeting_room) list \<Rightarrow> heap \<Rightarrow> nat \<Rightarrow> bool" where
  "rooms_inv ms h n \<longleftrightarrow>
     (\<forall>code c. conf_of ms code = Some c \<longrightarrow> room_ok h n c)
     \<and> (\<forall>a b c d i. conf_of ms a = Some c \<and> conf_of ms b = Some d \<and> i \<in> snd ` set (members c) \<and> i \<in> snd ` set (members d) \<longrightarrow> a = b)
     \<and> (\<forall>i. length (p_send (h i)) \<le> queue_limit)"

definition dir_inv :: "(string \<times> meeting_room) list \<Rightarrow> (string \<times> string) list \<Rightarrow> bool" where
  "dir_inv ms ds \<longleftrightarrow> distinct (map fst ms) \<and> distinct (map fst ds)
     \<and> (\<forall>d code. map_of ds d = Some code \<longleftrightarrow> (\<exists>r. map_of ms code = Some r \<and> r_device r = d))
     \<and> (\<forall>code \<in> fst ` set ms. IsMeetingCode code)"

definition conf_inv :: "broker \<Rightarrow> bool" where
  "conf_inv b \<longleftrightarrow> rooms_inv (meetings b) (parts b) (next_part b) \<and> dir_inv (meetings b) (meetingDevices b)"

lemma start_rooms: "conf_inv (new_broker db turn stun timeout)"
  by (simp add: conf_inv_def new_broker_def rooms_inv_def dir_inv_def conf_of_def no_participant_def)

lemma room_okI:
  assumes d: "distinct (map fst ms)" "distinct (map (\<lambda>(k, i). p_device (h i)) ms)"
    and m: "\<And>k i. (k, i) \<in> set ms \<Longrightarrow> i < n \<and> p_id (h i) = k \<and> k \<noteq> []"
    and host: "ms = [] \<Longrightarrow> host = []" "ms \<noteq> [] \<Longrightarrow> host \<in> fst ` set ms"
    and q: "\<And>k i. (k, i) \<in> set ms \<Longrightarrow> k \<noteq> host \<Longrightarrow> \<not> p_screen (h i) \<and> \<not> p_rec (h i)"
  shows "room_ok h n (c\<lparr>members := ms, hostID := host\<rparr>)"
proof -
  have "\<forall>(k, i) \<in> set ms. i < n \<and> p_id (h i) = k \<and> k \<noteq> []" using m by blast
  moreover have "\<forall>(k, i) \<in> set ms. k \<noteq> host \<longrightarrow> \<not> p_screen (h i) \<and> \<not> p_rec (h i)" using q by blast
  ultimately show ?thesis using d host by (simp add: room_ok_def)
qed

lemma room_ok_queued:
  assumes "room_ok h n c" "queued h h'" "n \<le> n'"
  shows "room_ok h' n' c"
proof -
  have s: "p_id (h' i) = p_id (h i)" "p_device (h' i) = p_device (h i)" "p_screen (h' i) = p_screen (h i)"
    "p_rec (h' i) = p_rec (h i)" for i
    using assms(2) by (simp_all add: queued_def same_person_def)
  show ?thesis using assms(1,3) by (auto simp: room_ok_def s)
qed

text \<open>Dropping meetings and queueing keep the rooms in order.\<close>

lemma rooms_shrink:
  assumes inv: "rooms_inv ms h n" and sub: "\<And>code c. conf_of ms' code = Some c \<Longrightarrow> conf_of ms code = Some c"
    and q: "queued h h'"
  shows "rooms_inv ms' h' n"
proof -
  have "\<forall>i. length (p_send (h' i)) \<le> queue_limit" using inv q by (simp add: rooms_inv_def queued_def)
  moreover have "room_ok h' n c" if "conf_of ms' code = Some c" for code c
    using inv sub[OF that] q by (auto simp: rooms_inv_def intro: room_ok_queued)
  moreover have "a = b" if "conf_of ms' a = Some c" "conf_of ms' b = Some d" "i \<in> snd ` set (members c)" "i \<in> snd ` set (members d)"
    for a b c d i
    using inv sub[OF that(1)] sub[OF that(2)] that(3,4) unfolding rooms_inv_def by blast
  ultimately show ?thesis unfolding rooms_inv_def by blast
qed

text \<open>One room and the heap change: the members are old ones of the room or one fresh object, and no
  other object changes but for its queue.\<close>

lemma rooms_change:
  assumes inv: "rooms_inv ms h n" and old: "conf_of ms code = Some c0 \<or> conf_of ms code = None \<and> c0 = \<lparr>members = [], removed = {}, hostID = []\<rparr>"
    and new: "\<And>a. conf_of ms' a = (if a = code then Some c else conf_of ms a)"
    and ok: "room_ok h' n' c" and mem: "snd ` set (members c) \<subseteq> snd ` set (members c0) \<union> {n..}"
    and others: "\<And>i. i \<notin> snd ` set (members c) \<union> snd ` set (members c0) \<Longrightarrow> same_person (h i) (h' i)"
    and bound: "\<forall>i. length (p_send (h' i)) \<le> queue_limit" and n: "n \<le> n'"
  shows "rooms_inv ms' h' n'"
proof -
  have lt: "i < n" if "conf_of ms a = Some d" "i \<in> snd ` set (members d)" for a d i
    using inv that by (fastforce simp: rooms_inv_def room_ok_def)
  have apart: "i \<notin> snd ` set (members c) \<union> snd ` set (members c0)"
    if a: "a \<noteq> code" "conf_of ms a = Some d" "i \<in> snd ` set (members d)" for a d i
  proof -
    have "i \<notin> snd ` set (members c0)" using old
    proof
      assume "conf_of ms code = Some c0"
      then show ?thesis using inv a unfolding rooms_inv_def by blast
    qed simp
    then show ?thesis using mem lt[OF a(2,3)] by auto
  qed
  have "room_ok h' n' d" if "conf_of ms' a = Some d" for a d
  proof (cases "a = code")
    case True
    then show ?thesis using that new ok by simp
  next
    case False
    then have d: "conf_of ms a = Some d" using that new by simp
    then have r: "room_ok h n d" using inv by (simp add: rooms_inv_def)
    have s: "same_person (h i) (h' i)" if "(k, i) \<in> set (members d)" for k i
      using others apart[OF False d, of i] that by force
    have dev: "map (\<lambda>(k, i). p_device (h' i)) (members d) = map (\<lambda>(k, i). p_device (h i)) (members d)"
      by (rule map_cong) (use s in \<open>auto simp: same_person_def\<close>)
    show ?thesis using r s n unfolding room_ok_def dev by (fastforce simp: same_person_def)
  qed
  moreover have "a = b" if "conf_of ms' a = Some d" "conf_of ms' b = Some d'" "i \<in> snd ` set (members d)" "i \<in> snd ` set (members d')"
    for a b d d' i
  proof (rule ccontr)
    note h = that
    assume ne: "a \<noteq> b"
    consider "a = code" "b \<noteq> code" | "a \<noteq> code" "b = code" | "a \<noteq> code" "b \<noteq> code" using ne by blast
    then show False
    proof cases
      case 1
      then show False using apart[of b d' i] h new by simp
    next
      case 2
      then show False using apart[of a d i] h new by simp
    next
      case 3
      then have "conf_of ms a = Some d" "conf_of ms b = Some d'" using h new by simp_all
      then show False using ne h(3,4) inv unfolding rooms_inv_def by blast
    qed
  qed
  ultimately show ?thesis unfolding rooms_inv_def using bound by blast
qed

section \<open>The directory\<close>

lemma dir_remove:
  assumes "dir_inv ms ds" "map_of ms code = Some r"
  shows "dir_inv (AList.delete code ms) (AList.delete (r_device r) ds)"
proof -
  have ds: "map_of ds d = Some c \<longleftrightarrow> (\<exists>r. map_of ms c = Some r \<and> r_device r = d)" for d c
    using assms(1) by (simp add: dir_inv_def)
  have "map_of (AList.delete (r_device r) ds) d = Some c \<longleftrightarrow> (\<exists>r. map_of (AList.delete code ms) c = Some r \<and> r_device r = d)" for d c
    using ds[of d c] ds[of "r_device r" code] ds[of "r_device r" c] assms(2) by (auto simp: AList.delete_conv')
  moreover have "\<forall>c \<in> fst ` set (AList.delete code ms). IsMeetingCode c"
    using assms(1) by (auto simp: dir_inv_def AList.delete_eq)
  ultimately show ?thesis using assms(1) by (simp add: dir_inv_def AList.distinct_delete)
qed

lemma closeConference_frame [simp]:
  "meetings (closeConference c r b) = meetings b" "meetingDevices (closeConference c r b) = meetingDevices b"
  "next_part (closeConference c r b) = next_part b" "store (closeConference c r b) = store b"
  "controls (closeConference c r b) = controls b" "active (closeConference c r b) = active b"
  by (simp_all add: closeConference_def split: option.split)

lemma closeConference_queued: "queued (parts b) (parts (closeConference c r b))"
  by (simp add: closeConference_def queueing split: option.split)

text \<open>What removing meetings does: some meetings go, everything else of the directory stays.\<close>

definition pruned :: "broker \<Rightarrow> broker \<Rightarrow> bool" where
  "pruned b b' \<longleftrightarrow> (\<forall>code r. map_of (meetings b') code = Some r \<longrightarrow> map_of (meetings b) code = Some r)
     \<and> queued (parts b) (parts b') \<and> next_part b' = next_part b \<and> store b' = store b
     \<and> controls b' = controls b \<and> active b' = active b
     \<and> (dir_inv (meetings b) (meetingDevices b) \<longrightarrow> dir_inv (meetings b') (meetingDevices b'))"

lemma pruned_refl [simp]: "pruned b b"
  by (simp add: pruned_def)

lemma pruned_trans: "pruned a b \<Longrightarrow> pruned b c \<Longrightarrow> pruned a c"
  by (auto simp: pruned_def intro: queued_trans)

lemma pruned_inv: "pruned b b' \<Longrightarrow> conf_inv b \<Longrightarrow> conf_inv b'"
proof -
  assume p: "pruned b b'" and inv: "conf_inv b"
  have "rooms_inv (meetings b') (parts b') (next_part b)"
  proof (rule rooms_shrink)
    show "rooms_inv (meetings b) (parts b) (next_part b)" using inv by (simp add: conf_inv_def)
    show "conf_of (meetings b) code = Some c" if "conf_of (meetings b') code = Some c" for code c
      using that p by (auto simp: conf_of_def pruned_def split: option.splits)
  qed (use p in \<open>simp add: pruned_def\<close>)
  then show ?thesis using p inv by (simp add: conf_inv_def pruned_def)
qed

lemma removeMeetingCode_pruned: "pruned b (removeMeetingCode code reason b)"
proof (cases "map_of (meetings b) code")
  case (Some room)
  have dir: "dir_inv (meetings b) (meetingDevices b) \<Longrightarrow> map_of (meetingDevices b) (r_device room) = Some code
      \<and> dir_inv (AList.delete code (meetings b)) (AList.delete (r_device room) (meetingDevices b))"
    using Some dir_remove[of "meetings b" "meetingDevices b" code room] by (auto simp: dir_inv_def)
  then show ?thesis using Some closeConference_queued[of b "r_conf room" reason]
    by (auto simp: removeMeetingCode_def pruned_def Let_def AList.delete_conv' split: if_splits)
qed (simp add: removeMeetingCode_def)

lemma removeMeeting_pruned: "dir_inv (meetings b) (meetingDevices b) \<Longrightarrow> pruned b (removeMeeting d b)"
proof (cases "map_of (meetingDevices b) d")
  case (Some code)
  assume inv: "dir_inv (meetings b) (meetingDevices b)"
  then obtain r where r: "map_of (meetings b) code = Some r" "r_device r = d" using Some by (auto simp: dir_inv_def)
  show ?thesis using Some r dir_remove[OF inv r(1)] closeConference_queued[of b "r_conf r" reason_ended]
    by (auto simp: removeMeeting_def pruned_def Let_def AList.delete_conv')
qed (simp add: removeMeeting_def)

lemma cleanup_fold_pruned:
  "pruned b (fold (\<lambda>(code, room) b. if r_expires room > now then b else removeMeetingCode code reason_expired b) ms b)"
proof (induction ms arbitrary: b)
  case (Cons x ms)
  obtain code room where x: "x = (code, room)" by fastforce
  show ?case unfolding x using Cons.IH pruned_trans[OF removeMeetingCode_pruned Cons.IH] by simp
qed simp

lemma cleanup_pruned: "pruned b (cleanupMeetings now b)"
  unfolding cleanupMeetings_def by (rule cleanup_fold_pruned)

lemma pruned_dir: "pruned b b' \<Longrightarrow> dir_inv (meetings b) (meetingDevices b) \<Longrightarrow> dir_inv (meetings b') (meetingDevices b')"
  by (simp add: pruned_def)

text \<open>The device of a meeting that \<open>removeMeeting\<close> ends has none afterwards.\<close>

lemma removeMeeting_device:
  "dir_inv (meetings b) (meetingDevices b) \<Longrightarrow> map_of (meetingDevices (removeMeeting d b)) d = None"
proof (cases "map_of (meetingDevices b) d")
  case (Some code)
  assume inv: "dir_inv (meetings b) (meetingDevices b)"
  then have "code \<in> fst ` set (meetings b)" using Some by (force simp: dir_inv_def dest: map_of_SomeD)
  then have "code \<noteq> []" using inv by (auto simp: dir_inv_def IsMeetingCode_def)
  then show ?thesis using Some by (simp add: removeMeeting_def Let_def AList.delete_conv' split: option.split)
qed (simp add: removeMeeting_def)

lemma draw_code_fresh:
  "draw_code ds k n ms own = code \<Longrightarrow> code \<noteq> [] \<Longrightarrow> map_of ms code = None \<and> code \<noteq> own \<and> IsMeetingCode code"
proof (induction ds k n ms own rule: draw_code.induct)
  case (2 ds k tries ms own)
  show ?case
  proof (cases "ds k")
    case (Some v)
    define c where "c = decimal 9 (100000000 + v mod 900000000)"
    have "ValidDeviceCode c" unfolding c_def by (rule drawn_code) simp
    then have "IsMeetingCode c" by (simp add: ValidDeviceCode_def IsMeetingCode_def)
    moreover have "draw_code ds k (Suc tries) ms own =
        (if map_of ms c = None \<and> c \<noteq> own then c else draw_code ds (Suc k) tries ms own)"
      by (simp only: draw_code.simps Some option.case Let_def c_def)
    ultimately show ?thesis using "2.IH"[OF Some refl, folded c_def] "2.prems" by metis
  qed (use 2 in simp)
qed simp

lemma dir_open:
  assumes "dir_inv ms ds" "map_of ms code = None" "map_of ds (r_device r) = None" "IsMeetingCode code"
  shows "dir_inv (AList.update code r ms) (AList.update (r_device r) code ds)"
proof -
  have ds: "map_of ds d = Some c \<longleftrightarrow> (\<exists>r. map_of ms c = Some r \<and> r_device r = d)" for d c
    using assms(1) by (simp add: dir_inv_def)
  have "map_of (AList.update (r_device r) code ds) d = Some c \<longleftrightarrow>
      (\<exists>r'. map_of (AList.update code r ms) c = Some r' \<and> r_device r' = d)" for d c
    using ds[of d c] ds[of "r_device r" c] assms(2,3) by (auto simp: AList.update_conv')
  moreover have "\<forall>c \<in> fst ` set (AList.update code r ms). IsMeetingCode c"
    using assms(1,4) by (auto simp: dir_inv_def AList.dom_update)
  ultimately show ?thesis using assms(1) by (simp add: dir_inv_def AList.distinct_update)
qed

lemma meeting_locked_keeps [keeps]: "conf_inv b \<Longrightarrow> conf_inv (snd (meeting_locked now ds t b))"
proof -
  assume inv: "conf_inv b"
  let ?b1 = "cleanupMeetings now b" let ?b2 = "removeMeeting (t_device t) ?b1"
  let ?code = "draw_code ds 0 64 (meetings ?b2) (t_code t)"
  let ?r = "\<lparr>r_device = t_device t, r_topic = t_topic t, r_expires = t_expires t, r_conf = None\<rparr>"
  have inv1: "conf_inv ?b1" using inv cleanup_pruned by (rule pruned_inv[rotated])
  then have dir1: "dir_inv (meetings ?b1) (meetingDevices ?b1)" by (simp add: conf_inv_def)
  have inv2: "conf_inv ?b2" using removeMeeting_pruned[OF dir1] inv1 by (rule pruned_inv)
  show ?thesis
  proof (cases "offline now (t_device t) b \<or> ?code = []")
    case True
    then show ?thesis using inv inv2 by (auto simp: meeting_locked_def Let_def)
  next
    case False
    then have fresh: "map_of (meetings ?b2) ?code = None" "IsMeetingCode ?code"
      using draw_code_fresh[of ds 0 64 "meetings ?b2" "t_code t"] by blast+
    have "dir_inv (AList.update ?code ?r (meetings ?b2)) (AList.update (t_device t) ?code (meetingDevices ?b2))"
      using dir_open[of "meetings ?b2" "meetingDevices ?b2" ?code ?r] inv2 fresh removeMeeting_device[OF dir1]
      by (simp add: conf_inv_def)
    moreover have "rooms_inv (AList.update ?code ?r (meetings ?b2)) (parts ?b2) (next_part ?b2)"
    proof (rule rooms_shrink[OF _ _ queued_refl])
      show "rooms_inv (meetings ?b2) (parts ?b2) (next_part ?b2)" using inv2 by (simp add: conf_inv_def)
      show "conf_of (meetings ?b2) code = Some c" if "conf_of (AList.update ?code ?r (meetings ?b2)) code = Some c" for code c
        using that by (auto simp: conf_of_def AList.update_conv' split: option.splits if_splits)
    qed
    ultimately show ?thesis using False by (simp add: meeting_locked_def Let_def conf_inv_def)
  qed
qed

section \<open>Rooms\<close>

lemma dir_set_conf: "dir_inv ms ds \<Longrightarrow> map_of ms code = Some room \<Longrightarrow> dir_inv (AList.update code (room\<lparr>r_conf := x\<rparr>) ms) ds"
proof -
  assume inv: "dir_inv ms ds" and room: "map_of ms code = Some room"
  have "code \<in> fst ` set ms" using room by (force dest: map_of_SomeD)
  then have "fst ` set (AList.update code (room\<lparr>r_conf := x\<rparr>) ms) = fst ` set ms" by (simp add: AList.dom_update insert_absorb)
  moreover have "(\<exists>r. map_of (AList.update code (room\<lparr>r_conf := x\<rparr>) ms) c = Some r \<and> r_device r = d)
      = (\<exists>r. map_of ms c = Some r \<and> r_device r = d)" for c d
    using room by (simp add: AList.update_conv')
  ultimately show ?thesis using inv by (simp add: dir_inv_def AList.distinct_update)
qed

definition empty_conf :: conf_room where
  "empty_conf = \<lparr>members = [], removed = {}, hostID = []\<rparr>"

text \<open>A critical section that replaces one room and the objects of its members.\<close>

lemma set_conf_keeps:
  assumes inv: "conf_inv b" and room: "map_of (meetings b) code = Some room"
    and c0: "(case r_conf room of None \<Rightarrow> empty_conf | Some c \<Rightarrow> c) = c0"
    and same: "meetings b' = meetings b" "meetingDevices b' = meetingDevices b" "next_part b \<le> next_part b'"
    and ok: "room_ok h1 (next_part b') c" and q: "queued h1 (parts b')"
    and mem: "snd ` set (members c) \<subseteq> snd ` set (members c0) \<union> {next_part b..}"
    and others: "\<And>i. i \<notin> snd ` set (members c) \<union> snd ` set (members c0) \<Longrightarrow> same_person (parts b i) (parts b' i)"
    and bound: "\<forall>i. length (p_send (h1 i)) \<le> queue_limit"
  shows "conf_inv (set_conf code room c b')"
proof -
  have old: "conf_of (meetings b) code = Some c0 \<or> conf_of (meetings b) code = None \<and> c0 = \<lparr>members = [], removed = {}, hostID = []\<rparr>"
    using room c0 by (auto simp: conf_of_def empty_conf_def split: option.splits)
  have "rooms_inv (AList.update code (room\<lparr>r_conf := Some c\<rparr>) (meetings b)) (parts b') (next_part b')"
  proof (rule rooms_change[where c = c and c0 = c0 and code = code and h = "parts b" and n = "next_part b" and ms = "meetings b"])
    show "rooms_inv (meetings b) (parts b) (next_part b)" using inv by (simp add: conf_inv_def)
    show "conf_of (AList.update code (room\<lparr>r_conf := Some c\<rparr>) (meetings b)) a = (if a = code then Some c else conf_of (meetings b) a)" for a
      by (simp add: conf_of_def AList.update_conv')
    show "room_ok (parts b') (next_part b') c" using ok q by (rule room_ok_queued) simp
    show "\<forall>i. length (p_send (parts b' i)) \<le> queue_limit" using bound q by (simp add: queued_def)
  qed (use old mem others same(3) in auto)
  then show ?thesis using inv dir_set_conf[OF _ room] by (simp add: set_conf_def conf_inv_def same)
qed

lemma set_conf_same: "distinct (map fst (meetings b)) \<Longrightarrow> map_of (meetings b) code = Some room \<Longrightarrow> r_conf room = Some c
    \<Longrightarrow> set_conf code room c b = b"
proof -
  assume "distinct (map fst (meetings b))" and m: "map_of (meetings b) code = Some room" and c: "r_conf room = Some c"
  have "room\<lparr>r_conf := Some c\<rparr> = room" using c by simp
  moreover have "AList.update code room xs = xs" if "map_of xs code = Some room" for xs
    using that by (induction xs) (auto split: if_splits)
  ultimately show ?thesis using m by (simp add: set_conf_def)
qed

text \<open>What a member of a room of a well-formed broker is.\<close>

lemma member_facts:
  assumes "conf_inv b" "map_of (meetings b) code = Some room" "r_conf room = Some c" "map_of (members c) k = Some i"
  shows "room_ok (parts b) (next_part b) c" "i < next_part b" "p_id (parts b i) = k" "k \<noteq> []" "(k, i) \<in> set (members c)"
    "i \<in> snd ` set (members c)" "\<forall>i. length (p_send (parts b i)) \<le> queue_limit" "distinct (map fst (meetings b))"
proof -
  have "conf_of (meetings b) code = Some c" using assms(2,3) by (simp add: conf_of_def)
  then show r: "room_ok (parts b) (next_part b) c" and "\<forall>i. length (p_send (parts b i)) \<le> queue_limit" and "distinct (map fst (meetings b))"
    using assms(1) by (auto simp: conf_inv_def rooms_inv_def dir_inv_def)
  show m: "(k, i) \<in> set (members c)" using assms(4) by (rule map_of_SomeD)
  then show "i < next_part b" "p_id (parts b i) = k" "k \<noteq> []" using r by (auto simp: room_ok_def)
  show "i \<in> snd ` set (members c)" using m by force
qed

lemma same_person_refl [simp]: "same_person p p"
  by (simp add: same_person_def)

lemma queued_same: "queued h h' \<Longrightarrow> same_person (h i) (h' i)"
  by (simp add: queued_def)

lemma queue_only_keeps:
  "conf_inv b \<Longrightarrow> queued (parts b) h \<Longrightarrow> conf_inv (b\<lparr>parts := h\<rparr>)"
  using rooms_shrink[of "meetings b" "parts b" "next_part b" "meetings b" h] by (simp add: conf_inv_def)

text \<open>Only the host's object may show a screen or record, so changing one member's flags is fine.\<close>

lemma room_ok_flags:
  assumes "room_ok h n c" "(p_id (h i), i) \<in> set (members c)"
    and p: "p_id p = p_id (h i)" "p_device p = p_device (h i)" "hostID c \<noteq> p_id p \<Longrightarrow> \<not> p_screen p \<and> \<not> p_rec p"
  shows "room_ok (h(i := p)) n c"
proof -
  have dev: "map (\<lambda>(k, j). p_device ((h(i := p)) j)) (members c) = map (\<lambda>(k, j). p_device (h j)) (members c)"
    by (rule map_cong) (auto simp: p)
  show ?thesis unfolding room_ok_def dev using assms(1,5) p(1) by (auto simp: room_ok_def)
qed

lemma room_ok_host:
  assumes "room_ok h n c" "map_of (members c) k = Some j" "\<forall>(k', i) \<in> set (members c). k' \<noteq> k \<longrightarrow> \<not> p_screen (h i) \<and> \<not> p_rec (h i)"
  shows "room_ok h n (c\<lparr>hostID := k\<rparr>)"
proof -
  have "k \<in> fst ` set (members c)" using assms(2) by (force dest: map_of_SomeD)
  then show ?thesis using assms(1,3) by (auto simp: room_ok_def)
qed

lemma signal_keeps: "conf_inv b \<Longrightarrow> conf_inv (snd (apply_signal c i m b))"
  by (auto simp: apply_signal_def queueing intro: queue_only_keeps split: option.split)

lemma flags_bound: "\<forall>i. length (p_send (h i)) \<le> queue_limit \<Longrightarrow> p_send p = p_send (h i) \<Longrightarrow>
    \<forall>j. length (p_send ((h(i := p)) j)) \<le> queue_limit"
  by simp

lemma in_room:
  assumes "conf_inv b" "map_of (meetings b) code = Some room" "r_conf room = Some c" "map_of (members c) (p_id (parts b i)) = Some i"
  shows "room_ok (parts b) (next_part b) c" "(p_id (parts b i), i) \<in> set (members c)" "i \<in> snd ` set (members c)"
    "\<forall>i. length (p_send (parts b i)) \<le> queue_limit" "distinct (map fst (meetings b))"
  using member_facts[OF assms] by auto

lemma state_keeps:
  assumes inv: "conf_inv b" and room: "map_of (meetings b) code = Some room" and c: "r_conf room = Some c"
    and i: "map_of (members c) (p_id (parts b i)) = Some i"
  shows "conf_inv (apply_state c i m b)"
proof -
  note mem = in_room[OF inv room c i]
  define p where "p = (parts b i)\<lparr>p_mic := m_mic m, p_cam := m_cam m,
    p_screen := (hostID c = p_id (parts b i) \<and> m_screen m), p_rec := (hostID c = p_id (parts b i) \<and> m_rec m)\<rparr>"
  let ?b = "apply_state c i m b"
  have parts: "parts ?b = broadcast (members c) (state_msg p) [] ((parts b)(i := p))"
    by (simp add: apply_state_def p_def Let_def)
  have "conf_inv (set_conf code room c ?b)"
  proof (rule set_conf_keeps[OF inv room, of c _ "(parts b)(i := p)"])
    show "room_ok ((parts b)(i := p)) (next_part ?b) c"
      using room_ok_flags[OF mem(1,2), of p] by (simp add: p_def apply_state_def Let_def)
    show "same_person (parts b j) (parts ?b j)" if "j \<notin> snd ` set (members c) \<union> snd ` set (members c)" for j
    proof -
      have "j \<noteq> i" using that mem(3) by blast
      then have "((parts b)(i := p)) j = parts b j" by simp
      then show ?thesis unfolding parts using queued_same[OF broadcast_queued, of "(parts b)(i := p)" j] by metis
    qed
  qed (use c mem(4) in \<open>auto simp: parts queueing p_def apply_state_def Let_def\<close>)
  moreover have "set_conf code room c ?b = ?b"
    by (rule set_conf_same) (use mem(5) room c in \<open>simp_all add: apply_state_def Let_def\<close>)
  ultimately show ?thesis by simp
qed

lemma transfer_keeps:
  assumes inv: "conf_inv b" and room: "map_of (meetings b) code = Some room" and c: "r_conf room = Some c"
    and i: "map_of (members c) (p_id (parts b i)) = Some i"
  shows "conf_inv (snd (apply_transfer code room c i m b))"
proof (cases "hostID c \<noteq> p_id (parts b i) \<or> map_of (members c) (m_to m) = None \<or> m_to m = p_id (parts b i)")
  case True
  then show ?thesis using inv by (simp add: apply_transfer_def)
next
  case False
  note mem = in_room[OF inv room c i]
  define p where "p = (parts b i)\<lparr>p_screen := False, p_rec := False\<rparr>"
  define h1 where "h1 = (parts b)(i := p)"
  define h2 where "h2 = broadcast (members c) ((msg ''host'')\<lparr>m_host := m_to m\<rparr>) [] (broadcast (members c) (state_msg p) [] h1)"
  have q: "queued h1 h2" unfolding h2_def by (rule queued_trans[OF broadcast_queued broadcast_queued])
  obtain j where j: "map_of (members c) (m_to m) = Some j" using False by auto
  have eq: "snd (apply_transfer code room c i m b) = set_conf code room (c\<lparr>hostID := m_to m\<rparr>) (b\<lparr>parts := h2\<rparr>)"
    using False j by (simp add: apply_transfer_def h2_def h1_def p_def Let_def)
  have ok1: "room_ok h1 (next_part b) c"
    unfolding h1_def using room_ok_flags[OF mem(1,2), of p] by (simp add: p_def)
  have clear: "\<not> p_screen (h1 a) \<and> \<not> p_rec (h1 a)" if "(k, a) \<in> set (members c)" for k a
  proof (cases "k = hostID c")
    case True
    then have "(p_id (parts b i), a) \<in> set (members c)" using that False by simp
    moreover have "distinct (map fst (members c))" using mem(1) by (simp add: room_ok_def)
    ultimately have "a = i" using mem(2) by (blast intro: eq_key_imp_eq_value)
    then show ?thesis by (simp add: h1_def p_def)
  next
    case False
    then show ?thesis using that ok1 by (auto simp: room_ok_def)
  qed
  have ok2: "room_ok h1 (next_part b) (c\<lparr>hostID := m_to m\<rparr>)"
    using room_ok_host[OF ok1 j] clear by blast
  show ?thesis unfolding eq
  proof (rule set_conf_keeps[OF inv room, of c _ h1])
    show "same_person (parts b a) (parts (b\<lparr>parts := h2\<rparr>) a)"
      if "a \<notin> snd ` set (members (c\<lparr>hostID := m_to m\<rparr>)) \<union> snd ` set (members c)" for a
    proof -
      have "a \<noteq> i" using that mem(3) by auto
      then have "h1 a = parts b a" by (simp add: h1_def)
      then show ?thesis using queued_same[OF q, of a] by simp
    qed
  qed (use c mem(4) ok2 q in \<open>auto simp: h1_def p_def\<close>)
qed

lemma kick_keeps:
  assumes inv: "conf_inv b" and room: "map_of (meetings b) code = Some room" and c: "r_conf room = Some c"
    and i: "map_of (members c) (p_id (parts b i)) = Some i"
  shows "conf_inv (snd (apply_kick code room c i m b))"
proof (cases "hostID c \<noteq> p_id (parts b i) \<or> m_to m = p_id (parts b i) \<or> map_of (members c) (m_to m) = None")
  case True
  then show ?thesis using inv by (auto simp: apply_kick_def)
next
  case False
  then obtain j where j: "map_of (members c) (m_to m) = Some j" by auto
  note mem = in_room[OF inv room c i]
  let ?c = "c\<lparr>removed := insert (p_device (parts b j)) (removed c)\<rparr>"
  let ?b = "b\<lparr>parts := queueConference j ((msg ''removed'')\<lparr>m_text := reason_removed\<rparr>) (parts b), closing := closing b @ [j]\<rparr>"
  have eq: "snd (apply_kick code room c i m b) = set_conf code room ?c ?b" using False j by (simp add: apply_kick_def)
  show ?thesis unfolding eq
  proof (rule set_conf_keeps[OF inv room, of c _ "parts b"])
    show "room_ok (parts b) (next_part ?b) ?c" using mem(1) by (simp add: room_ok_def)
  qed (use c mem(4) queued_same[OF queueConference_queued] in \<open>auto simp: queueing\<close>)
qed

lemma apply_keeps [keeps]:
  assumes inv: "conf_inv b"
  shows "conf_inv (snd (applyConferenceMessage code i m b))"
proof (cases "map_of (meetings b) code")
  case (Some room)
  note room = Some
  show ?thesis
  proof (cases "r_conf room")
    case (Some c)
    show ?thesis
    proof (cases "map_of (members c) (p_id (parts b i)) = Some i")
      case True
      note sections = state_keeps[OF inv room Some True] transfer_keeps[OF inv room Some True] kick_keeps[OF inv room Some True]
        signal_keeps[OF inv] queue_only_keeps[OF inv queueConference_queued] pruned_inv[OF removeMeetingCode_pruned inv]
      show ?thesis unfolding applyConferenceMessage_def room option.case Some
        using True inv sections by simp
    next
      case False
      then show ?thesis using inv room Some by (simp add: applyConferenceMessage_def)
    qed
  qed (simp add: applyConferenceMessage_def room inv)
qed (simp add: applyConferenceMessage_def inv)

lemma earliest_mem:
  "foldl (\<lambda>best (k, i). case best of None \<Rightarrow> Some i | Some j \<Rightarrow> if p_seq (h i) < p_seq (h j) then Some i else best) best ms
     = Some j \<Longrightarrow> best = Some j \<or> j \<in> snd ` set ms"
proof (induction ms arbitrary: best)
  case (Cons x ms)
  obtain k i where x: "x = (k, i)" by fastforce
  define nb where "nb = (case best of None \<Rightarrow> Some i | Some j \<Rightarrow> if p_seq (h i) < p_seq (h j) then Some i else best)"
  have "nb = Some j \<or> j \<in> snd ` set ms" using Cons.prems by (intro Cons.IH) (simp add: x nb_def)
  moreover have "nb = best \<or> nb = Some i" by (auto simp: nb_def split: option.split)
  ultimately show ?case by (auto simp: x)
qed simp

lemma earliest_none: "earliest h ms = None \<longleftrightarrow> ms = []"
proof -
  have some: "foldl (\<lambda>best (k, i). case best of None \<Rightarrow> Some i | Some j \<Rightarrow> if p_seq (h i) < p_seq (h j) then Some i else best) (Some j) ms
      \<noteq> None" for j ms
    by (induction ms arbitrary: j) (auto split: prod.splits)
  show ?thesis
  proof (cases ms)
    case (Cons x xs)
    then show ?thesis using some[of "snd x" xs] by (auto simp: earliest_def split: prod.splits)
  qed (simp add: earliest_def)
qed

lemma leave_keeps [keeps]:
  assumes inv: "conf_inv b"
  shows "conf_inv (leaveConference code i b)"
proof -
  have stay: "conf_inv (b\<lparr>closing := closing b @ [i]\<rparr>)" using inv by (simp add: conf_inv_def)
  show ?thesis
  proof (cases "\<exists>room c. map_of (meetings b) code = Some room \<and> r_conf room = Some c \<and> map_of (members c) (p_id (parts b i)) = Some i")
    case False
    then show ?thesis using stay by (auto simp: leaveConference_def Let_def split: option.splits)
  next
    case True
    then obtain room c where room: "map_of (meetings b) code = Some room" and c: "r_conf room = Some c"
      and i: "map_of (members c) (p_id (parts b i)) = Some i" by blast
    note mem = in_room[OF inv room c i]
    define pid where "pid = p_id (parts b i)"
    define ms where "ms = AList.delete pid (members c)"
    define h1 where "h1 = broadcast ms ((msg ''peer-left'')\<lparr>m_id := pid\<rparr>) [] (parts b)"
    define host where "host = (if hostID c \<noteq> pid then hostID c else case earliest h1 ms of None \<Rightarrow> [] | Some j \<Rightarrow> p_id (h1 j))"
    define h2 where "h2 = (if hostID c \<noteq> pid then h1 else case earliest h1 ms of None \<Rightarrow> h1
      | Some j \<Rightarrow> broadcast ms ((msg ''host'')\<lparr>m_host := p_id (h1 j)\<rparr>) [] h1)"
    define c' where "c' = c\<lparr>members := ms, hostID := host\<rparr>"
    have eq: "leaveConference code i b = set_conf code room c' (b\<lparr>parts := h2(i := close_participant (h2 i))\<rparr>)"
      unfolding leaveConference_def Let_def room c option.case pid_def[symmetric] ms_def[symmetric] h1_def[symmetric]
      using i by (auto simp: pid_def[symmetric] c'_def host_def h2_def split: option.split)
    have q1: "queued (parts b) h1" unfolding h1_def by (rule broadcast_queued)
    have q2: "queued h1 h2" by (auto simp: h2_def queueing split: option.split)
    have q3: "queued h2 (h2(i := close_participant (h2 i)))" by (auto simp: queued_def same_person_def close_participant_def)
    note q = queued_trans[OF queued_trans[OF q1 q2] q3]
    have sub: "set ms \<subseteq> set (members c)" by (auto simp: ms_def AList.delete_eq)
    have gone: "(k, j) \<in> set ms \<longleftrightarrow> (k, j) \<in> set (members c) \<and> k \<noteq> pid" for k j by (auto simp: ms_def AList.delete_eq)
    have r: "room_ok (parts b) (next_part b) c" by (rule mem(1))
    have id1: "p_id (h1 j) = k" if "(k, j) \<in> set ms" for k j
    proof -
      have "p_id (parts b j) = k" using that gone r by (auto simp: room_ok_def)
      then show ?thesis using queued_same[OF q1, of j] by (simp add: same_person_def)
    qed
    have quiet: "\<not> p_screen (parts b j) \<and> \<not> p_rec (parts b j)" if "(k, j) \<in> set ms" "k \<noteq> hostID c" for k j
      using that gone r unfolding room_ok_def by blast
    have "room_ok (parts b) (next_part b) c'"
    proof -
      have "host = []" if "ms = []"
      proof (cases "hostID c = pid")
        case True
        then show ?thesis using that earliest_none[of h1 ms] by (simp add: host_def)
      next
        case False
        have "members c \<noteq> []" using mem(2) by auto
        then have "hostID c \<in> fst ` set (members c)" using r by (simp add: room_ok_def)
        then obtain x where "(hostID c, x) \<in> set (members c)" by auto
        then have "(hostID c, x) \<in> set ms" using False gone by blast
        then show ?thesis using that by simp
      qed
      moreover have "host \<in> fst ` set ms" if "ms \<noteq> []"
      proof (cases "hostID c = pid")
        case True
        have "earliest h1 ms \<noteq> None" using that earliest_none[of h1 ms] by simp
        then obtain j where j: "earliest h1 ms = Some j" by blast
        then have "j \<in> snd ` set ms" using earliest_mem[of h1 None ms j] by (simp add: earliest_def)
        then obtain k where k: "(k, j) \<in> set ms" by auto
        have "host = k" using True j id1[OF k] by (simp add: host_def)
        then show ?thesis using imageI[OF k, of fst] by simp
      next
        case False
        have "members c \<noteq> []" using mem(2) by auto
        then have "hostID c \<in> fst ` set (members c)" using r by (simp add: room_ok_def)
        then obtain x where "(hostID c, x) \<in> set (members c)" by auto
        then have x: "(hostID c, x) \<in> set ms" using False gone by blast
        have "host = hostID c" using False by (simp add: host_def)
        then show ?thesis using imageI[OF x, of fst] by simp
      qed
      moreover have "\<not> p_screen (parts b j) \<and> \<not> p_rec (parts b j)" if "(k, j) \<in> set ms" "k \<noteq> host" for k j
      proof (cases "hostID c = pid")
        case True
        then show ?thesis using that(1) quiet gone by metis
      next
        case False
        then show ?thesis using that quiet by (simp add: host_def)
      qed
      moreover have "distinct (map fst ms)" "distinct (map (\<lambda>(k, i). p_device (parts b i)) ms)"
        using r by (auto simp: room_ok_def ms_def AList.delete_eq distinct_map_filter)
      moreover have "i < next_part b \<and> p_id (parts b i) = k \<and> k \<noteq> []" if "(k, i) \<in> set ms" for k i
        using that gone r unfolding room_ok_def by blast
      ultimately show ?thesis unfolding room_ok_def c'_def by (simp add: case_prod_beta) fastforce
    qed
    moreover have "snd ` set ms \<subseteq> snd ` set (members c)" using sub by auto
    moreover have "same_person (parts b j) ((h2(i := close_participant (h2 i))) j)" for j using queued_same[OF q] .
    ultimately show ?thesis unfolding eq
      by (intro set_conf_keeps[OF inv room, of c _ "parts b"]) (use c mem(4) q in \<open>auto simp: c'_def\<close>)
  qed
qed

lemma set_update: "set (AList.update k v xs) \<subseteq> insert (k, v) (set xs)"
  by (induction xs) (auto split: prod.splits if_splits)

lemma set_update_distinct:
  "distinct (map fst xs) \<Longrightarrow> set (AList.update k v xs) = insert (k, v) {x \<in> set xs. fst x \<noteq> k}"
proof (induction xs)
  case (Cons x xs)
  obtain a w where x: "x = (a, w)" by fastforce
  show ?case
  proof (cases "a = k")
    case True
    then have "\<forall>y \<in> set xs. fst y \<noteq> k" using Cons.prems x by force
    then show ?thesis using x True by auto
  next
    case False
    then show ?thesis using Cons x by auto
  qed
qed simp

lemma map_update_distinct:
  "distinct (map (\<lambda>(k, i). f i) xs) \<Longrightarrow> \<forall>(k, i) \<in> set xs. f i \<noteq> f v \<Longrightarrow> distinct (map (\<lambda>(k, i). f i) (AList.update k v xs))"
proof (induction xs)
  case (Cons x xs)
  obtain a w where x: "x = (a, w)" by fastforce
  have "f w \<notin> (\<lambda>(k, i). f i) ` set (AList.update k v xs)" if "a \<noteq> k"
    using Cons.prems set_update[of k v xs] x by fastforce
  then show ?case using Cons x by auto
qed simp

text \<open>A new object with no flags, whose device is not in the room yet, enters.\<close>

lemma room_ok_join:
  assumes ok: "room_ok h n c" and p: "p_id p = pid" "pid \<noteq> []" "\<not> p_screen p" "\<not> p_rec p"
    and fresh: "\<forall>(k, j) \<in> set (members c). p_device (h j) \<noteq> p_device p"
  shows "room_ok (h(n := p)) (Suc n) (c\<lparr>members := AList.update pid n (members c),
    hostID := (if hostID c = [] then pid else hostID c)\<rparr>)"
proof -
  define ms where "ms = AList.update pid n (members c)"
  define host where "host = (if hostID c = [] then pid else hostID c)"
  have d: "distinct (map fst (members c))" using ok by (simp add: room_ok_def)
  note sms = set_update_distinct[OF d, of pid n, folded ms_def]
  have mem: "j < n \<and> p_id (h j) = k \<and> k \<noteq> []" if "(k, j) \<in> set (members c)" for k j
    using ok that by (auto simp: room_ok_def)
  have old: "(h(n := p)) j = h j" if "(k, j) \<in> set (members c)" for k j using mem[OF that] by simp
  have devs: "map (\<lambda>(k, j). p_device ((h(n := p)) j)) (members c) = map (\<lambda>(k, j). p_device (h j)) (members c)"
    by (rule map_cong) (use old in auto)
  have dev: "distinct (map (\<lambda>(k, j). p_device ((h(n := p)) j)) (members c))" unfolding devs using ok by (simp add: room_ok_def)
  have r2: "distinct (map (\<lambda>(k, j). p_device ((h(n := p)) j)) ms)" unfolding ms_def
    by (rule map_update_distinct[where f = "\<lambda>j. p_device ((h(n := p)) j)", OF dev]) (use fresh old in fastforce)
  have r1: "distinct (map fst ms)" using d by (simp add: ms_def AList.distinct_update)
  have r3: "j < Suc n \<and> p_id ((h(n := p)) j) = k \<and> k \<noteq> []" if "(k, j) \<in> set ms" for k j
    using that mem[of k j] p(1,2) unfolding sms by auto
  have r4: "host = []" if "ms = []" using that sms by auto
  have r5: "host \<in> fst ` set ms"
    using ok by (auto simp: host_def ms_def room_ok_def AList.dom_update split: if_splits)
  have r6: "\<not> p_screen ((h(n := p)) j) \<and> \<not> p_rec ((h(n := p)) j)"
    if "(k, j) \<in> set ms" "k \<noteq> host" for k j
  proof (cases "j = n")
    case True
    then show ?thesis using p(3,4) by simp
  next
    case False
    then have old: "(k, j) \<in> set (members c)" using that(1) sms by auto
    then have "hostID c \<in> fst ` set (members c)" using ok by (auto simp: room_ok_def split: if_splits)
    then obtain l where "(hostID c, l) \<in> set (members c)" by force
    then have "hostID c \<noteq> []" using mem by blast
    then have "k \<noteq> hostID c" using that(2) by (simp add: host_def)
    then have "\<not> p_screen (h j) \<and> \<not> p_rec (h j)" using ok old unfolding room_ok_def by blast
    then show ?thesis using False by simp
  qed
  show ?thesis unfolding ms_def[symmetric] host_def[symmetric]
    by (rule room_okI[OF r1 r2 r3 r4 r5 r6])
qed

lemma hex_encode_nonempty: "length raw = 12 \<Longrightarrow> newConferenceParticipantID raw \<noteq> []"
  by (cases raw) (simp_all add: newConferenceParticipantID_def)

text \<open>What entering does, for all its uses: it is refused and changes nothing, or the room, opened if need be, passed the
  guards and has one more participant.\<close>

definition conf_or_empty :: "meeting_room \<Rightarrow> conf_room" where
  "conf_or_empty room = (case r_conf room of None \<Rightarrow> empty_conf | Some c \<Rightarrow> c)"

definition newcomer :: "int \<Rightarrow> string \<Rightarrow> hello \<Rightarrow> broker \<Rightarrow> participant" where
  "newcomer t pid h b = \<lparr>p_id = pid, p_device = h_id h, p_name = h_name h, p_send = [], p_done = False, p_seq = conferenceSeq b + 1,
     p_joined = t, p_mic = False, p_cam = False, p_screen = False, p_rec = False\<rparr>"

definition with_newcomer :: "string \<Rightarrow> broker \<Rightarrow> conf_room \<Rightarrow> conf_room" where
  "with_newcomer pid b c = c\<lparr>members := AList.update pid (next_part b) (members c), hostID := (if hostID c = [] then pid else hostID c)\<rparr>"

lemma join_refused: "fst (conference_join now t pid h b) = None \<Longrightarrow> snd (conference_join now t pid h b) = b"
  by (auto simp: conference_join_def Let_def split: option.splits if_splits)

lemma join_result:
  assumes enters: "fst (conference_join now t pid h b) \<noteq> None"
  obtains room m w where "map_of (meetings b) (h_room h) = Some room" "\<not> has_device b (conf_or_empty room) (h_id h)"
    "h_id h \<notin> removed (conf_or_empty room)" "h_action h = ''host'' \<Longrightarrow> r_device room = h_id h"
    "h_action h = ''join'' \<Longrightarrow> hostID (conf_or_empty room) \<noteq> []"
    "snd (conference_join now t pid h b) = set_conf (h_room h) room (with_newcomer pid b (conf_or_empty room))
      (b\<lparr>conferenceSeq := conferenceSeq b + 1, next_part := Suc (next_part b), parts := queueConference (next_part b) w
        (broadcast (members (with_newcomer pid b (conf_or_empty room))) m pid ((parts b)(next_part b := newcomer t pid h b)))\<rparr>)"
proof -
  obtain room where room: "map_of (meetings b) (h_room h) = Some room"
    using enters by (cases "map_of (meetings b) (h_room h)") (simp_all add: conference_join_def)
  define c where "c = conf_or_empty room"
  have c: "(case r_conf room of None \<Rightarrow> \<lparr>members = [], removed = {}, hostID = []\<rparr> | Some c \<Rightarrow> c) = c"
    unfolding c_def conf_or_empty_def empty_conf_def by (rule refl)
  let ?m = "(msg ''peer-joined'')\<lparr>m_id := pid, m_name := h_name h, m_joined := t, m_host := hostID (with_newcomer pid b c)\<rparr>"
  let ?w = "(msg ''welcome'')\<lparr>m_id := pid, m_name := h_name h, m_topic := r_topic room, m_joined := t, m_host := hostID (with_newcomer pid b c),
      m_peers := map (\<lambda>(k, j). peer (hostID c) (parts b j)) (members c), m_rtc := welcome_rtc now (h_room h) pid (r_expires room) b\<rparr>"
  define r where "r = set_conf (h_room h) room (with_newcomer pid b c)
      (b\<lparr>conferenceSeq := conferenceSeq b + 1, next_part := Suc (next_part b), parts := queueConference (next_part b) ?w
        (broadcast (members (with_newcomer pid b c)) ?m pid ((parts b)(next_part b := newcomer t pid h b)))\<rparr>)"
  have run: "conference_join now t pid h b = (if \<not> r_expires room > now then (None, b)
      else if r_conf room = None \<and> h_action h \<noteq> ''host'' then (None, b)
      else if (h_action h = ''host'' \<and> r_device room \<noteq> h_id h) \<or> (h_action h = ''join'' \<and> hostID c = []) then (None, b)
      else if has_device b c (h_id h) then (None, b) else if h_id h \<in> removed c then (None, b) else (Some (next_part b), r))"
    unfolding conference_join_def room option.case c Let_def r_def with_newcomer_def newcomer_def by (rule refl)
  have "snd (conference_join now t pid h b) = r" using enters by (auto simp: run split: if_splits)
  then have whole: "snd (conference_join now t pid h b) = set_conf (h_room h) room (with_newcomer pid b (conf_or_empty room))
      (b\<lparr>conferenceSeq := conferenceSeq b + 1, next_part := Suc (next_part b), parts := queueConference (next_part b) ?w
        (broadcast (members (with_newcomer pid b (conf_or_empty room))) ?m pid ((parts b)(next_part b := newcomer t pid h b)))\<rparr>)"
    unfolding r_def c_def .
  show thesis
    by (rule that[OF room _ _ _ _ whole]) (use enters in \<open>auto simp: run c_def[symmetric] split: if_splits\<close>)
qed

lemma join_keeps [keeps]:
  assumes inv: "conf_inv b" and raw: "pid \<noteq> []"
  shows "conf_inv (snd (conference_join now joinedAt pid h b))"
proof (cases "fst (conference_join now joinedAt pid h b)")
  case None
  then show ?thesis using inv by (simp add: join_refused)
next
  case (Some i)
  then obtain room m w where room: "map_of (meetings b) (h_room h) = Some room" and dev: "\<not> has_device b (conf_or_empty room) (h_id h)"
    and run: "snd (conference_join now joinedAt pid h b) = set_conf (h_room h) room (with_newcomer pid b (conf_or_empty room))
      (b\<lparr>conferenceSeq := conferenceSeq b + 1, next_part := Suc (next_part b), parts := queueConference (next_part b) w
        (broadcast (members (with_newcomer pid b (conf_or_empty room))) m pid ((parts b)(next_part b := newcomer joinedAt pid h b)))\<rparr>)"
    using join_result by (metis option.distinct(1))
  define c where "c = conf_or_empty room"
  define p where "p = newcomer joinedAt pid h b"
  define c' where "c' = with_newcomer pid b c"
  define h1 where "h1 = (parts b)(next_part b := p)"
  note eq = run[folded c_def, folded c'_def p_def, folded h1_def]
  have q: "queued h1 (queueConference (next_part b) w (broadcast (members c') m pid h1))"
    by (rule queued_trans[OF broadcast_queued queueConference_queued])
  have ok: "room_ok (parts b) (next_part b) c"
  proof (cases "r_conf room")
    case None
    then show ?thesis by (simp add: c_def conf_or_empty_def empty_conf_def room_ok_def)
  next
    case (Some d)
    then have "conf_of (meetings b) (h_room h) = Some c" using room by (simp add: conf_of_def c_def conf_or_empty_def)
    then show ?thesis using inv by (simp add: conf_inv_def rooms_inv_def)
  qed
  have bound: "\<forall>i. length (p_send (parts b i)) \<le> queue_limit" using inv by (simp add: conf_inv_def rooms_inv_def)
  show ?thesis unfolding eq
  proof (rule set_conf_keeps[OF inv room, of c _ h1])
    have "room_ok h1 (Suc (next_part b)) c'"
      unfolding h1_def c'_def with_newcomer_def using dev raw
      by (intro room_ok_join[OF ok]) (auto simp: p_def newcomer_def has_device_def c_def)
    then show "room_ok h1 (next_part (b\<lparr>conferenceSeq := conferenceSeq b + 1, next_part := Suc (next_part b),
        parts := queueConference (next_part b) w (broadcast (members c') m pid h1)\<rparr>)) c'" by simp
    show "snd ` set (members c') \<subseteq> snd ` set (members c) \<union> {next_part b..}"
      using set_update[of pid "next_part b" "members c"] by (auto simp: c'_def with_newcomer_def)
    have mem: "next_part b \<in> snd ` set (members c')"
      using ok by (force simp: c'_def with_newcomer_def room_ok_def set_update_distinct)
    show "same_person (parts b j) (parts (b\<lparr>conferenceSeq := conferenceSeq b + 1, next_part := Suc (next_part b),
        parts := queueConference (next_part b) w (broadcast (members c') m pid h1)\<rparr>) j)"
      if "j \<notin> snd ` set (members c') \<union> snd ` set (members c)" for j
    proof -
      have "j \<noteq> next_part b" using that mem by auto
      then have "h1 j = parts b j" by (simp add: h1_def)
      then show ?thesis using queued_same[OF q, of j] by simp
    qed
    show "\<forall>i. length (p_send (h1 i)) \<le> queue_limit" using bound by (simp add: h1_def p_def newcomer_def)
    show "(case r_conf room of None \<Rightarrow> empty_conf | Some c \<Rightarrow> c) = c" unfolding c_def conf_or_empty_def by (rule refl)
  qed (use q in simp_all)
qed

lemma admit_keeps [keeps]: "conf_inv b \<Longrightarrow> conf_inv (snd (conference_admit e now h b))"
  using pruned_inv[OF cleanup_pruned] by (simp add: conference_admit_def Let_def)

lemma resolve_keeps [keeps]: "conf_inv b \<Longrightarrow> conf_inv (snd (handleMeetingResolve e host now code b))"
proof -
  assume inv: "conf_inv b"
  have "conf_inv (b\<lparr>lookups := ls\<rparr>)" "conf_inv (cleanupMeetings now (b\<lparr>lookups := ls\<rparr>))" for ls
    using inv by (auto simp: conf_inv_def intro!: pruned_inv[OF cleanup_pruned, unfolded conf_inv_def])
  then show ?thesis using inv by (auto simp: handleMeetingResolve_def Let_def split: prod.split option.split)
qed

text \<open>Writing, closing and the rest of the relay touch neither rooms nor flags.\<close>

lemma touch_keeps: "conf_inv b \<Longrightarrow> same_person (parts b i) p \<Longrightarrow> length (p_send p) \<le> length (p_send (parts b i)) \<Longrightarrow>
    conf_inv (b\<lparr>parts := (parts b)(i := p)\<rparr>)"
  by (rule queue_only_keeps) (auto simp: queued_def)

lemma conf_step_keeps: "conf_inv b \<Longrightarrow> conf_inv (conf_step b ev)"
proof (cases ev)
  case (Join now joinedAt raw h)
  assume "conf_inv b"
  then show ?thesis using Join join_keeps hex_encode_nonempty by auto
next
  case (Written i ok)
  assume "conf_inv b"
  moreover have "same_person (parts b i) (write_next ok (parts b i))" "length (p_send (write_next ok (parts b i))) \<le> length (p_send (parts b i))"
    by (auto simp: write_next_def same_person_def close_participant_def split: list.split)
  ultimately show ?thesis using Written touch_keeps by simp
next
  case (Closing_timer i)
  assume inv: "conf_inv b"
  have "conf_inv (b\<lparr>parts := (parts b)(i := close_participant (parts b i))\<rparr>)"
    by (rule touch_keeps[OF inv]) (simp_all add: same_person_def close_participant_def)
  then show ?thesis using Closing_timer inv by (simp add: conf_inv_def)
next
  case (Control_gone d)
  assume inv: "conf_inv b"
  then have inv': "conf_inv (b\<lparr>controls := (controls b)(d := None)\<rparr>)" by (simp add: conf_inv_def)
  then show ?thesis using Control_gone pruned_inv[OF removeMeeting_pruned inv'] by (simp add: conf_inv_def)
next
  case (CloseMeeting d)
  assume inv: "conf_inv b"
  then show ?thesis using CloseMeeting pruned_inv[OF removeMeeting_pruned inv] by (simp add: conf_inv_def)
qed (simp_all add: keeps, simp_all add: conf_inv_def)

interpretation rooms: event_system conf_step conf_inv
  by unfold_locales (rule conf_step_keeps)

end
