(* ===== verification/Conference_Rooms.thy ===== *)
theory Conference_Rooms
  imports Conference_Props
begin

text \<open>
  The contract of a conference room as a small labelled transition system over who is in it, who was
  removed from it and who hosts it, and the refinement: every critical section of the relay moves each
  room as the contract allows, for a reason the event shows. The properties of the rooms follow from
  the contract by its cases.
\<close>

section \<open>The contract\<close>

record room_spec =
  people :: "(string \<times> string) list"
  banned :: "string set"
  chair :: string

datatype room_act = Stay | Enter string string | Transfer string string | Ban string string | Quit string

inductive room_move :: "string \<Rightarrow> room_spec \<Rightarrow> room_act \<Rightarrow> room_spec \<Rightarrow> bool" for owner where
  stays: "room_move owner s Stay s"
| enters: "d \<notin> snd ` set (people s) \<Longrightarrow> d \<notin> banned s \<Longrightarrow> chair s \<noteq> [] \<or> d = owner
    \<Longrightarrow> s' = s\<lparr>people := AList.update k d (people s), chair := (if chair s = [] then k else chair s)\<rparr>
    \<Longrightarrow> room_move owner s (Enter k d) s'"
| transfers: "by = chair s \<Longrightarrow> k \<in> fst ` set (people s) \<Longrightarrow> s' = s\<lparr>chair := k\<rparr>
    \<Longrightarrow> room_move owner s (Transfer by k) s'"
| bans: "by = chair s \<Longrightarrow> (k, d) \<in> set (people s) \<Longrightarrow> k \<noteq> by \<Longrightarrow> s' = s\<lparr>banned := insert d (banned s)\<rparr>
    \<Longrightarrow> room_move owner s (Ban by d) s'"
| quits: "k \<in> fst ` set (people s) \<Longrightarrow> people s' = AList.delete k (people s) \<Longrightarrow> banned s' = banned s
    \<Longrightarrow> (if chair s \<noteq> k then chair s' = chair s
         else if people s' = [] then chair s' = [] else chair s' \<in> fst ` set (people s'))
    \<Longrightarrow> room_move owner s (Quit k) s'"

inductive_cases enter_cases: "room_move owner s (Enter k d) s'"
inductive_cases transfer_cases: "room_move owner s (Transfer by k) s'"
inductive_cases ban_cases: "room_move owner s (Ban by d) s'"
inductive_cases quit_cases: "room_move owner s (Quit k) s'"
inductive_simps stay_simps [simp]: "room_move owner s Stay s'"

lemmas move_cases = enter_cases transfer_cases ban_cases quit_cases

text \<open>The object a participant of the room is, and who asked for a move: the event behind it.\<close>

definition member_of :: "broker \<Rightarrow> string \<Rightarrow> string \<Rightarrow> nat option" where
  "member_of b code k = (case conf_of (meetings b) code of None \<Rightarrow> None | Some c \<Rightarrow> map_of (members c) k)"

fun requested :: "broker \<Rightarrow> string \<Rightarrow> conf_event \<Rightarrow> room_act \<Rightarrow> bool" where
  "requested b code ev Stay = True"
| "requested b code ev (Enter k d) = (\<exists>now t raw h. ev = Join now t raw h \<and> h_room h = code \<and> h_id h = d
     \<and> k = newConferenceParticipantID raw)"
| "requested b code ev (Transfer by k) = (\<exists>i m. ev = Message code i m \<and> m_type m = ''transfer'' \<and> m_to m = k
     \<and> member_of b code by = Some i)"
| "requested b code ev (Ban by d) = (\<exists>i m. ev = Message code i m \<and> m_type m = ''kick'' \<and> member_of b code by = Some i)"
| "requested b code ev (Quit k) = (\<exists>i. ev = Leave code i \<and> member_of b code k = Some i)"

definition room_abs :: "heap \<Rightarrow> conf_room \<Rightarrow> room_spec" where
  "room_abs h c = \<lparr>people = map (\<lambda>(k, i). (k, p_device (h i))) (members c), banned = removed c, chair = hostID c\<rparr>"

section \<open>What the sections change\<close>

text \<open>No section changes the device of an object; only \<open>Join\<close> makes a new one.\<close>

definition same_devices :: "heap \<Rightarrow> heap \<Rightarrow> bool" where
  "same_devices h h' \<longleftrightarrow> (\<forall>i. p_device (h' i) = p_device (h i))"

lemma queued_devices: "queued h h' \<Longrightarrow> same_devices h h'"
  by (simp add: queued_def same_person_def same_devices_def)

lemma same_devices_trans: "same_devices h h' \<Longrightarrow> same_devices h' h'' \<Longrightarrow> same_devices h h''"
  by (simp add: same_devices_def)

lemma same_devices_refl [simp]: "same_devices h h"
  by (simp add: same_devices_def)

lemma same_devices_upd: "p_device p = p_device (h i) \<Longrightarrow> same_devices h (h(i := p))"
  by (simp add: same_devices_def)

lemma room_abs_same: "same_devices h h' \<Longrightarrow> room_abs h' c = room_abs h c"
  by (simp add: room_abs_def same_devices_def)

lemma removeMeeting_queued: "queued (parts b) (parts (removeMeeting d b))"
  using closeConference_queued by (auto simp: removeMeeting_def Let_def split: option.split)

lemma pruned_queued: "pruned b b' \<Longrightarrow> queued (parts b) (parts b')"
  by (simp add: pruned_def)

lemma set_conf_parts [simp]: "parts (set_conf code room c b) = parts b"
  by (simp add: set_conf_def)

lemma apply_devices: "same_devices (parts b) (parts (snd (applyConferenceMessage code i m b)))"
proof -
  note q = queueing[THEN queued_devices]
  have state: "same_devices (parts b) (parts (apply_state c i m b))" for c
    by (auto simp: apply_state_def Let_def intro: same_devices_trans[OF same_devices_upd q(2)])
  have transfer: "same_devices (parts b) (parts (snd (apply_transfer code room c i m b)))" for room c
    by (auto simp: apply_transfer_def Let_def
      intro: same_devices_trans[OF same_devices_trans[OF same_devices_upd q(2)] q(2)])
  have kick: "same_devices (parts b) (parts (snd (apply_kick code room c i m b)))" for room c
    by (auto simp: apply_kick_def q split: option.split)
  have signal: "same_devices (parts b) (parts (snd (apply_signal c i m b)))" for c
    by (auto simp: apply_signal_def q split: option.split)
  have ended: "same_devices (parts b) (parts (removeMeetingCode code reason_ended b))"
    by (rule queued_devices[OF pruned_queued[OF removeMeetingCode_pruned]])
  show ?thesis unfolding applyConferenceMessage_def
    by (auto simp: state transfer kick signal ended q split: option.split)
qed

lemma leave_devices: "same_devices (parts b) (parts (leaveConference code i b))"
proof -
  note q = queueing[THEN queued_devices]
  have close: "same_devices (parts b) (h(i := close_participant (h i)))" if "same_devices (parts b) h" for h
    using that by (simp add: same_devices_def close_participant_def)
  have "same_devices (parts b) (broadcast ms m e (broadcast ms m' e (parts b)))" for ms m m' e
    by (rule same_devices_trans[OF q(2) q(2)])
  then show ?thesis by (auto simp: leaveConference_def Let_def q intro!: close split: option.split)
qed

lemma pruned_stays:
  "pruned b b' \<Longrightarrow> conf_of (meetings b) code = Some c \<Longrightarrow> conf_of (meetings b') code = Some c'
     \<Longrightarrow> c' = c \<and> room_abs (parts b') c' = room_abs (parts b) c"
  by (auto simp: conf_of_def pruned_def room_abs_same[OF queued_devices] split: option.splits)

lemma conf_of_update: "conf_of (AList.update code (room\<lparr>r_conf := x\<rparr>) ms) a = (if a = code then x else conf_of ms a)"
  by (simp add: conf_of_def AList.update_conv')

lemma conf_of_set_conf [simp]:
  "conf_of (meetings (set_conf code room c b)) a = (if a = code then Some c else conf_of (meetings b) a)"
  by (simp add: set_conf_def conf_of_update)

lemma conf_ofD: "conf_of ms code = Some c \<Longrightarrow> \<exists>room. map_of ms code = Some room \<and> r_conf room = Some c"
  by (auto simp: conf_of_def split: option.splits)

text \<open>A message and a leaving participant touch the room of their code only.\<close>

lemma apply_other_room:
  "a \<noteq> code \<Longrightarrow> conf_of (meetings (snd (applyConferenceMessage code i m b))) a = conf_of (meetings b) a"
proof -
  assume a: "a \<noteq> code"
  have ended: "conf_of (meetings (removeMeetingCode code r b)) a = conf_of (meetings b) a" for r
    using a by (auto simp: removeMeetingCode_def Let_def conf_of_def AList.delete_conv' split: option.split)
  show ?thesis using a unfolding applyConferenceMessage_def
    by (auto simp: apply_signal_def apply_state_def apply_transfer_def apply_kick_def ended Let_def split: option.split)
qed

lemma leave_other_room: "a \<noteq> code \<Longrightarrow> conf_of (meetings (leaveConference code i b)) a = conf_of (meetings b) a"
  by (auto simp: leaveConference_def Let_def split: option.split)

section \<open>The refinement\<close>

lemma people_keys: "fst ` set (people (room_abs h c)) = fst ` set (members c)"
  by (force simp: room_abs_def)

lemma map_update: "map (\<lambda>(k, i). (k, f i)) (AList.update k v xs) = AList.update k (f v) (map (\<lambda>(k, i). (k, f i)) xs)"
  by (induction xs) auto

lemma map_delete: "map (\<lambda>(k, i). (k, f i)) (AList.delete k xs) = AList.delete k (map (\<lambda>(k, i). (k, f i)) xs)"
  by (induction xs) auto

abbreviation moves :: "string \<Rightarrow> broker \<Rightarrow> string \<Rightarrow> conf_event \<Rightarrow> conf_room \<Rightarrow> conf_room \<Rightarrow> bool" where
  "moves owner b code ev c c' \<equiv> \<exists>act. room_move owner (room_abs (parts b) c) act (room_abs (parts b) c') \<and> requested b code ev act"

lemma moves_refl [simp]: "moves owner b code ev c c"
  by (rule exI[of _ Stay]) simp

lemma message_moves:
  assumes inv: "conf_inv b" and after: "conf_of (meetings (snd (applyConferenceMessage code i m b))) code = Some c'"
  shows "\<exists>c. conf_of (meetings b) code = Some c \<and> moves owner b code (Message code i m) c c'"
proof (cases "\<exists>room c. map_of (meetings b) code = Some room \<and> r_conf room = Some c \<and> map_of (members c) (p_id (parts b i)) = Some i")
  case False
  then have "snd (applyConferenceMessage code i m b) = b"
    by (auto simp: applyConferenceMessage_def split: option.split)
  then show ?thesis using after by (intro exI[of _ c']) simp
next
  case True
  then obtain room c where room: "map_of (meetings b) code = Some room" and c: "r_conf room = Some c"
    and i: "map_of (members c) (p_id (parts b i)) = Some i" by blast
  have before: "conf_of (meetings b) code = Some c" using room c by (simp add: conf_of_def)
  have actor: "member_of b code (p_id (parts b i)) = Some i" using before i by (simp add: member_of_def)
  let ?run = "snd (applyConferenceMessage code i m b)"
  consider "m_type m = ''transfer''" | "m_type m = ''kick''" | "m_type m \<noteq> ''transfer''" "m_type m \<noteq> ''kick''" by blast
  then have "moves owner b code (Message code i m) c c'"
  proof cases
    case 1
    then have run: "?run = snd (apply_transfer code room c i m b)"
      using room c i by (simp add: applyConferenceMessage_def)
    show ?thesis
    proof (cases "hostID c \<noteq> p_id (parts b i) \<or> map_of (members c) (m_to m) = None \<or> m_to m = p_id (parts b i)")
      case True
      then have "c' = c" using after before unfolding run by (simp add: apply_transfer_def Let_def)
      then show ?thesis by simp
    next
      case False
      then have c': "c' = c\<lparr>hostID := m_to m\<rparr>" using after unfolding run by (auto simp: apply_transfer_def Let_def)
      have "m_to m \<in> fst ` set (people (room_abs (parts b) c))"
        unfolding people_keys using False by (force dest: map_of_SomeD)
      then have "room_move owner (room_abs (parts b) c) (Transfer (p_id (parts b i)) (m_to m)) (room_abs (parts b) c')"
        using False by (intro transfers) (simp_all add: room_abs_def c')
      then show ?thesis using 1 actor by (intro exI[of _ "Transfer (p_id (parts b i)) (m_to m)"]) simp
    qed
  next
    case 2
    then have run: "?run = snd (apply_kick code room c i m b)"
      using room c i by (simp add: applyConferenceMessage_def)
    show ?thesis
    proof (cases "hostID c \<noteq> p_id (parts b i) \<or> m_to m = p_id (parts b i) \<or> map_of (members c) (m_to m) = None")
      case True
      then have "c' = c" using after before unfolding run by (auto simp: apply_kick_def split: if_splits)
      then show ?thesis by simp
    next
      case False
      then obtain j where j: "map_of (members c) (m_to m) = Some j" by auto
      define d where "d = p_device (parts b j)"
      have c': "c' = c\<lparr>removed := insert d (removed c)\<rparr>" using after False j unfolding run by (simp add: apply_kick_def d_def)
      have "(m_to m, d) \<in> set (people (room_abs (parts b) c))"
        using map_of_SomeD[OF j] by (force simp: room_abs_def d_def)
      then have "room_move owner (room_abs (parts b) c) (Ban (p_id (parts b i)) d) (room_abs (parts b) c')"
        by (rule bans[rotated]) (use False in \<open>simp_all add: room_abs_def c'\<close>)
      then show ?thesis using 2 actor by (intro exI[of _ "Ban (p_id (parts b i)) d"]) simp
    qed
  next
    case 3
    have gone: "conf_of (meetings (removeMeetingCode code r b)) code = None" for r
      using room by (simp add: removeMeetingCode_def Let_def conf_of_def AList.delete_conv')
    have "c' = c" using after before 3 room c i unfolding applyConferenceMessage_def
      by (auto simp: apply_signal_def apply_state_def gone Let_def split: if_splits option.splits)
    then show ?thesis by simp
  qed
  then show ?thesis using before by blast
qed

lemma leave_moves:
  assumes inv: "conf_inv b" and after: "conf_of (meetings (leaveConference code i b)) code = Some c'"
  shows "\<exists>c. conf_of (meetings b) code = Some c \<and> moves owner b code (Leave code i) c c'"
proof (cases "\<exists>room c. map_of (meetings b) code = Some room \<and> r_conf room = Some c \<and> map_of (members c) (p_id (parts b i)) = Some i")
  case False
  then have "meetings (leaveConference code i b) = meetings b"
    by (auto simp: leaveConference_def Let_def split: option.split)
  then show ?thesis using after by (intro exI[of _ c']) simp
next
  case True
  then obtain room c where room: "map_of (meetings b) code = Some room" and c: "r_conf room = Some c"
    and i: "map_of (members c) (p_id (parts b i)) = Some i" by blast
  have before: "conf_of (meetings b) code = Some c" using room c by (simp add: conf_of_def)
  have actor: "member_of b code (p_id (parts b i)) = Some i" using before i by (simp add: member_of_def)
  define k where "k = p_id (parts b i)"
  have c': "members c' = AList.delete k (members c)" "removed c' = removed c" "hostID c \<noteq> k \<longrightarrow> hostID c' = hostID c"
    using after room c i by (auto simp: leaveConference_def k_def Let_def split: option.splits if_splits)
  have "room_ok (parts (leaveConference code i b)) (next_part (leaveConference code i b)) c'"
    using leave_keeps[OF inv, of code i] after by (simp add: conf_inv_def rooms_inv_def)
  then have host: "members c' = [] \<and> hostID c' = [] \<or> hostID c' \<in> fst ` set (members c')"
    by (auto simp: room_ok_def split: if_splits)
  have "room_move owner (room_abs (parts b) c) (Quit k) (room_abs (parts b) c')"
  proof (rule quits)
    show "k \<in> fst ` set (people (room_abs (parts b) c))" unfolding people_keys using map_of_SomeD[OF i] by (force simp: k_def)
    show "people (room_abs (parts b) c') = AList.delete k (people (room_abs (parts b) c))"
      by (simp add: room_abs_def c'(1) map_delete)
    show "if chair (room_abs (parts b) c) \<noteq> k then chair (room_abs (parts b) c') = chair (room_abs (parts b) c)
      else if people (room_abs (parts b) c') = [] then chair (room_abs (parts b) c') = []
      else chair (room_abs (parts b) c') \<in> fst ` set (people (room_abs (parts b) c'))"
      unfolding people_keys using host c'(3) by (auto simp: room_abs_def)
  qed (simp add: room_abs_def c'(2))
  then have "moves owner b code (Leave code i) c c'" using actor by (intro exI[of _ "Quit k"]) (simp add: k_def)
  then show ?thesis using before by blast
qed

text \<open>Entering: the room of the code, opened if need be, gets one more person.\<close>

lemma join_moves:
  assumes inv: "conf_inv b" and action: "h_action h = ''host'' \<or> h_action h = ''join''"
    and enters: "fst (conference_join now t k h b) \<noteq> None" and after: "conf_of (meetings b') code = Some c'"
    and b': "b' = snd (conference_join now t k h b)" and code: "code = h_room h"
  shows "\<exists>room. map_of (meetings b) code = Some room
    \<and> room_move (r_device room) (room_abs (parts b) (conf_or_empty room)) (Enter k (h_id h)) (room_abs (parts b') c')"
proof -
  obtain room m w where room: "map_of (meetings b) code = Some room"
    and open_door: "\<not> has_device b (conf_or_empty room) (h_id h)" "h_id h \<notin> removed (conf_or_empty room)"
      "h_action h = ''host'' \<Longrightarrow> r_device room = h_id h" "h_action h = ''join'' \<Longrightarrow> hostID (conf_or_empty room) \<noteq> []"
    and result: "b' = set_conf code room (with_newcomer k b (conf_or_empty room))
      (b\<lparr>conferenceSeq := conferenceSeq b + 1, next_part := Suc (next_part b), parts := queueConference (next_part b) w
        (broadcast (members (with_newcomer k b (conf_or_empty room))) m k ((parts b)(next_part b := newcomer t k h b)))\<rparr>)"
    using join_result[OF enters] unfolding b' code by metis
  define c where "c = conf_or_empty room"
  define p where "p = newcomer t k h b"
  define h1 where "h1 = (parts b)(next_part b := p)"
  define d where "d = with_newcomer k b c"
  note run = result[folded c_def, folded d_def p_def, folded h1_def]
  have guards: "\<not> has_device b c (h_id h)" "h_id h \<notin> removed c" "hostID c \<noteq> [] \<or> h_id h = r_device room"
    using open_door action by (auto simp: c_def)
  have c': "c' = d" using after unfolding run by simp
  have "same_devices h1 (parts b')" unfolding run
    using queued_devices[OF queued_trans[OF broadcast_queued queueConference_queued]] by simp
  then have abs: "room_abs (parts b') c' = room_abs h1 d" by (simp add: c' room_abs_same)
  have ok: "room_ok (parts b) (next_part b) c"
  proof (cases "r_conf room")
    case None
    then show ?thesis by (simp add: c_def conf_or_empty_def empty_conf_def room_ok_def)
  next
    case (Some e)
    then have "conf_of (meetings b) code = Some c" using room by (simp add: conf_of_def c_def conf_or_empty_def)
    then show ?thesis using inv by (simp add: conf_inv_def rooms_inv_def)
  qed
  have old: "map (\<lambda>(k, j). (k, p_device (h1 j))) (members c) = map (\<lambda>(k, j). (k, p_device (parts b j))) (members c)"
    by (rule map_cong) (use ok in \<open>auto simp: room_ok_def h1_def\<close>)
  have people: "people (room_abs h1 d) = AList.update k (h_id h) (people (room_abs (parts b) c))"
    by (simp add: room_abs_def d_def with_newcomer_def map_update[where f = "\<lambda>j. p_device (h1 j)"] old del: fun_upd_apply)
      (simp add: h1_def p_def newcomer_def)
  have "room_move (r_device room) (room_abs (parts b) c) (Enter k (h_id h)) (room_abs h1 d)"
  proof (rule room_move.enters)
    show "h_id h \<notin> snd ` set (people (room_abs (parts b) c))" using guards(1) by (force simp: room_abs_def has_device_def)
    show "h_id h \<notin> banned (room_abs (parts b) c)" using guards(2) by (simp add: room_abs_def)
    show "chair (room_abs (parts b) c) \<noteq> [] \<or> h_id h = r_device room" using guards(3) by (simp add: room_abs_def)
    show "room_abs h1 d = (room_abs (parts b) c)\<lparr>people := AList.update k (h_id h) (people (room_abs (parts b) c)),
        chair := if chair (room_abs (parts b) c) = [] then k else chair (room_abs (parts b) c)\<rparr>"
      using people by (simp add: room_abs_def d_def with_newcomer_def)
  qed
  then show ?thesis using room by (intro exI[of _ room]) (simp add: abs c_def)
qed

text \<open>The other events: the room was there before, and moved by \<open>Stay\<close> unless a message or a leaving
  participant moved it.\<close>

definition moved :: "broker \<Rightarrow> string \<Rightarrow> conf_event \<Rightarrow> broker \<Rightarrow> conf_room \<Rightarrow> bool" where
  "moved b code ev b' c' \<longleftrightarrow> (\<exists>room act. map_of (meetings b) code = Some room
     \<and> room_move (r_device room) (room_abs (parts b) (conf_or_empty room)) act (room_abs (parts b') c') \<and> requested b code ev act)"

lemma old_moved:
  assumes c: "conf_of (meetings b) code = Some c" and d: "same_devices (parts b) (parts b')"
    and m: "\<And>owner. moves owner b code ev c c'"
  shows "moved b code ev b' c'"
proof -
  obtain room where "map_of (meetings b) code = Some room" "r_conf room = Some c" using conf_ofD[OF c] by blast
  then show ?thesis using m[of "r_device room"] by (auto simp: moved_def conf_or_empty_def room_abs_same[OF d])
qed

lemma pruned_moved:
  assumes p: "pruned b b'" and c: "conf_of (meetings b') code = Some c"
  shows "moved b code ev b' c"
proof (rule old_moved[OF _ queued_devices[OF pruned_queued[OF p]]])
  show "conf_of (meetings b) code = Some c" using p c by (auto simp: conf_of_def pruned_def split: option.splits)
qed (rule moves_refl)

lemma quiet_moved:
  assumes m: "meetings b' = meetings b" and d: "same_devices (parts b) (parts b')" and c: "conf_of (meetings b') code = Some c"
  shows "moved b code ev b' c"
  using c m by (intro old_moved[OF _ d moves_refl]) simp

lemma open_moved:
  assumes inv: "conf_inv b" and c: "conf_of (meetings (snd (meeting_locked now ds t b))) code = Some c"
  shows "moved b code ev (snd (meeting_locked now ds t b)) c"
proof -
  let ?b1 = "cleanupMeetings now b" let ?b2 = "removeMeeting (t_device t) ?b1"
  have "conf_inv ?b1" using inv cleanup_pruned by (rule pruned_inv[rotated])
  then have p: "pruned b ?b2" using pruned_trans[OF cleanup_pruned removeMeeting_pruned] by (simp add: conf_inv_def)
  have "parts (snd (meeting_locked now ds t b)) = parts b \<or> parts (snd (meeting_locked now ds t b)) = parts ?b2"
    by (auto simp: meeting_locked_def Let_def)
  then have d: "same_devices (parts b) (parts (snd (meeting_locked now ds t b)))"
    using queued_devices[OF pruned_queued[OF p]] by auto
  have "conf_of (meetings b) code = Some c \<or> conf_of (meetings ?b2) code = Some c"
    using c by (auto simp: meeting_locked_def Let_def conf_of_def AList.update_conv' split: if_splits option.splits)
  then have "conf_of (meetings b) code = Some c" using p by (auto simp: conf_of_def pruned_def split: option.splits)
  then show ?thesis by (rule old_moved[OF _ d moves_refl])
qed

lemma join_devices: "i \<noteq> next_part b \<Longrightarrow> p_device (parts (snd (conference_join now t k h b)) i) = p_device (parts b i)"
proof -
  assume i: "i \<noteq> next_part b"
  have "same_devices ((parts b)(n := p)) (queueConference n w (broadcast ms m e ((parts b)(n := p))))" for n p w ms m e
    by (rule queued_devices[OF queued_trans[OF broadcast_queued queueConference_queued]])
  then show ?thesis using i by (auto simp: conference_join_def Let_def same_devices_def split: option.split)
qed

lemma join_other_room:
  assumes "h_room h \<noteq> code"
  shows "conf_of (meetings (snd (conference_join now t k h b))) code = conf_of (meetings b) code"
proof (cases "fst (conference_join now t k h b) = None")
  case False
  show ?thesis by (rule join_result[OF False]) (use assms in simp)
qed (simp add: join_refused)

lemma conf_step_moved:
  assumes inv: "conf_inv b" and c: "conf_of (meetings (conf_step b ev)) code = Some c'"
  shows "moved b code ev (conf_step b ev) c'"
proof (cases ev)
  case (Open now ds t)
  then show ?thesis using open_moved[OF inv] c by simp
next
  case (CloseMeeting d)
  then show ?thesis using pruned_moved[OF removeMeeting_pruned] inv c by (simp add: conf_inv_def)
next
  case (Resolve e host now a)
  have "pruned (b\<lparr>lookups := ls\<rparr>) (cleanupMeetings now (b\<lparr>lookups := ls\<rparr>))" for ls by (rule cleanup_pruned)
  then have "pruned b (cleanupMeetings now (b\<lparr>lookups := ls\<rparr>))" "pruned b (b\<lparr>lookups := ls\<rparr>)" for ls by (simp_all add: pruned_def)
  then have "pruned b (conf_step b ev)" unfolding Resolve
    by (auto simp: handleMeetingResolve_def Let_def split: prod.split option.split)
  then show ?thesis using c by (rule pruned_moved)
next
  case (Admit e now h)
  then have "pruned b (conf_step b ev)" by (simp add: conference_admit_def Let_def cleanup_pruned)
  then show ?thesis using c by (rule pruned_moved)
next
  case (Join now t raw h)
  define k where "k = newConferenceParticipantID raw"
  show ?thesis
  proof (cases "conf_step b ev = b \<or> fst (conference_join now t k h b) = None \<or> h_room h \<noteq> code")
    case True
    note none = join_refused[of now t k h b]
    show ?thesis
    proof (cases "conf_step b ev = b")
      case True
      then show ?thesis using quiet_moved[of b b] c by simp
    next
      case False
      then have other: "h_room h \<noteq> code" "conf_step b ev = snd (conference_join now t k h b)"
        using True none Join by (auto simp: k_def)
      then have old: "conf_of (meetings b) code = Some c'" using c by (simp add: join_other_room)
      then have "room_ok (parts b) (next_part b) c'" using inv by (simp add: conf_inv_def rooms_inv_def)
      then have "map (\<lambda>(k, i). (k, p_device (parts (conf_step b ev) i))) (members c') = map (\<lambda>(k, i). (k, p_device (parts b i))) (members c')"
        unfolding other(2) by (intro map_cong) (auto simp: room_ok_def intro!: join_devices)
      then have abs: "room_abs (parts (conf_step b ev)) c' = room_abs (parts b) c'" by (simp add: room_abs_def)
      obtain room where "map_of (meetings b) code = Some room" "r_conf room = Some c'" using conf_ofD[OF old] by blast
      then show ?thesis using abs by (auto simp: moved_def conf_or_empty_def intro!: exI[of _ Stay])
    qed
  next
    case False
    then have run: "conf_step b ev = snd (conference_join now t k h b)" and action: "h_action h = ''host'' \<or> h_action h = ''join''"
      using Join by (auto simp: k_def split: if_splits)
    have code: "code = h_room h" and enters: "fst (conference_join now t k h b) \<noteq> None" using False by simp_all
    obtain room where "map_of (meetings b) code = Some room" "room_move (r_device room)
        (room_abs (parts b) (conf_or_empty room)) (Enter k (h_id h)) (room_abs (parts (conf_step b ev)) c')"
      using join_moves[OF inv action enters c run code] by blast
    moreover have "requested b code ev (Enter k (h_id h))" using Join code by (auto simp: k_def)
    ultimately show ?thesis unfolding moved_def by blast
  qed
next
  case (Message a i m)
  show ?thesis
  proof (cases "i < next_part b")
    case True
    then have run: "conf_step b ev = snd (applyConferenceMessage a i m b)" using Message by simp
    show ?thesis
    proof (cases "a = code")
      case True
      have after: "conf_of (meetings (snd (applyConferenceMessage code i m b))) code = Some c'" using c run True by simp
      obtain c where before: "conf_of (meetings b) code = Some c" using message_moves[OF inv after] by blast
      moreover have "moves owner b code ev c c'" for owner using message_moves[OF inv after, of owner] before Message True by simp
      ultimately show ?thesis unfolding run by (rule old_moved[OF _ apply_devices])
    next
      case False
      then have "conf_of (meetings b) code = Some c'" using c apply_other_room unfolding run by metis
      then show ?thesis unfolding run by (rule old_moved[OF _ apply_devices moves_refl])
    qed
  qed (use Message c quiet_moved[of b b] in simp)
next
  case (Leave a i)
  show ?thesis
  proof (cases "i < next_part b")
    case True
    then have run: "conf_step b ev = leaveConference a i b" using Leave by simp
    show ?thesis
    proof (cases "a = code")
      case True
      have after: "conf_of (meetings (leaveConference code i b)) code = Some c'" using c run True by simp
      obtain c where before: "conf_of (meetings b) code = Some c" using leave_moves[OF inv after] by blast
      moreover have "moves owner b code ev c c'" for owner using leave_moves[OF inv after, of owner] before Leave True by simp
      ultimately show ?thesis unfolding run by (rule old_moved[OF _ leave_devices])
    next
      case False
      then have "conf_of (meetings b) code = Some c'" using c leave_other_room unfolding run by metis
      then show ?thesis unfolding run by (rule old_moved[OF _ leave_devices moves_refl])
    qed
  qed (use Leave c quiet_moved[of b b] in simp)
next
  case (Control_gone d)
  have "pruned (b\<lparr>controls := (controls b)(d := None)\<rparr>) (conf_step b ev)"
    using inv removeMeeting_pruned[of "b\<lparr>controls := (controls b)(d := None)\<rparr>" d] Control_gone by (simp add: conf_inv_def)
  then have q: "queued (parts b) (parts (conf_step b ev))" and "\<And>a r. map_of (meetings (conf_step b ev)) a = Some r \<Longrightarrow> map_of (meetings b) a = Some r"
    by (simp_all add: pruned_def)
  then have "conf_of (meetings b) code = Some c'" using c by (auto simp: conf_of_def split: option.splits)
  then show ?thesis by (rule old_moved[OF _ queued_devices[OF q] moves_refl])
next
  case (Written i ok)
  then show ?thesis using c
    by (intro quiet_moved) (auto simp: write_next_def close_participant_def intro!: same_devices_upd split: list.split)
next
  case (Closing_timer i)
  then show ?thesis using c by (intro quiet_moved) (auto simp: close_participant_def intro!: same_devices_upd)
qed (use c in \<open>auto intro!: quiet_moved\<close>)

section \<open>What the contract gives\<close>

lemma banned_stays:
  "room_move owner s act s' \<Longrightarrow> d \<in> banned s \<Longrightarrow> d \<in> banned s' \<and> (\<forall>k. (k, d) \<in> set (people s') \<longrightarrow> (k, d) \<in> set (people s))"
proof (induction rule: room_move.induct)
  case (enters d' s s' k)
  then show ?case using set_update[of k d' "people s"] by auto
next
  case (quits k s s')
  then show ?case by (simp add: AList.delete_eq)
qed auto

end
