(* ===== verification/Conference_Safety.thy ===== *)
theory Conference_Safety
  imports Conference_Rooms
begin

text \<open>
  The properties of meetings and rooms: what is always true of the directory and the rooms, that every
  critical section moves a room as its contract allows, who can change the host or remove somebody, that
  whoever was removed stays out, where signals go, and what opening a meeting takes.
\<close>

section \<open>Signals\<close>

definition signals :: "participant \<Rightarrow> conf_msg set" where
  "signals p = {s \<in> set (p_send p). m_type s = ''signal''}"

definition no_new :: "heap \<Rightarrow> heap \<Rightarrow> bool" where
  "no_new h h' \<longleftrightarrow> (\<forall>j. signals (h' j) \<subseteq> signals (h j))"

lemma no_new_refl [simp]: "no_new h h"
  by (simp add: no_new_def)

lemma no_new_trans: "no_new h h' \<Longrightarrow> no_new h' h'' \<Longrightarrow> no_new h h''"
  by (fastforce simp: no_new_def)

lemma no_new_upd: "signals p \<subseteq> signals (h i) \<Longrightarrow> no_new h (h(i := p))"
  by (simp add: no_new_def)

lemma queueConference_no_new: "m_type m \<noteq> ''signal'' \<Longrightarrow> no_new h (queueConference i m h)"
  by (auto simp: queueConference_def Let_def close_participant_def signals_def intro!: no_new_upd)

lemma broadcast_no_new: "m_type m \<noteq> ''signal'' \<Longrightarrow> no_new h (broadcast ms m except h)"
proof (induction ms arbitrary: h)
  case (Cons x ms)
  then show ?case by (cases x) (auto intro: no_new_trans queueConference_no_new)
qed simp

lemma fold_no_new: "m_type m \<noteq> ''signal'' \<Longrightarrow> no_new h (fold (\<lambda>(k, i). queueConference i m) ms h)"
proof (induction ms arbitrary: h)
  case (Cons x ms)
  then show ?case by (cases x) (auto intro: no_new_trans queueConference_no_new)
qed simp

lemma msg_type [simp]: "m_type (msg t) = t"
  by (simp add: msg_def)

lemmas quiet = queueConference_no_new broadcast_no_new fold_no_new

lemma closeConference_no_new: "no_new (parts b) (parts (closeConference c r b))"
  by (simp add: closeConference_def quiet split: option.split)

lemma removeMeetingCode_no_new: "no_new (parts b) (parts (removeMeetingCode code r b))"
  by (simp add: removeMeetingCode_def Let_def closeConference_no_new split: option.split)

lemma removeMeeting_no_new: "no_new (parts b) (parts (removeMeeting d b))"
  by (simp add: removeMeeting_def Let_def closeConference_no_new split: option.split)

lemma cleanup_fold_no_new:
  "no_new (parts b) (parts (fold (\<lambda>(code, room) b. if r_expires room > now then b else removeMeetingCode code reason_expired b) ms b))"
proof (induction ms arbitrary: b)
  case (Cons x ms)
  obtain code room where x: "x = (code, room)" by fastforce
  show ?case unfolding x using Cons.IH no_new_trans[OF removeMeetingCode_no_new Cons.IH] by simp
qed simp

lemma cleanup_no_new: "no_new (parts b) (parts (cleanupMeetings now b))"
  unfolding cleanupMeetings_def by (rule cleanup_fold_no_new)

lemma join_no_new: "no_new (parts b) (parts (snd (conference_join now t k h b)))"
proof -
  have "no_new (parts b) (queueConference n w (broadcast ms m e ((parts b)(n := p))))"
    if "signals p = {}" "m_type w \<noteq> ''signal''" "m_type m \<noteq> ''signal''" for n w ms m e p
    using that by (intro no_new_trans[OF no_new_trans[OF no_new_upd broadcast_no_new] queueConference_no_new]) auto
  then show ?thesis by (simp add: conference_join_def Let_def signals_def split: option.split)
qed

lemma leave_no_new: "no_new (parts b) (parts (leaveConference code i b))"
proof -
  have close: "no_new (parts b) (h(i := close_participant (h i)))" if "no_new (parts b) h" for h
    using that by (auto simp: no_new_def signals_def close_participant_def)
  have "no_new (parts b) (broadcast ms m e (broadcast ms m' e (parts b)))"
    if "m_type m \<noteq> ''signal''" "m_type m' \<noteq> ''signal''" for ms m m' e
    using that by (intro no_new_trans[OF broadcast_no_new broadcast_no_new])
  then show ?thesis by (auto simp: leaveConference_def Let_def quiet intro!: close split: option.split)
qed

text \<open>A message that is no signal makes none.\<close>

lemma apply_no_new: "m_type m \<noteq> ''signal'' \<Longrightarrow> no_new (parts b) (parts (snd (applyConferenceMessage code i m b)))"
proof -
  assume m: "m_type m \<noteq> ''signal''"
  have s: "m_type (state_msg p) \<noteq> ''signal''" for p by (simp add: state_msg_def)
  have up: "no_new (parts b) (broadcast ms (state_msg q) e ((parts b)(i := p)))" if "p_send p = p_send (parts b i)" for ms p q e
    using that by (intro no_new_trans[OF no_new_upd broadcast_no_new[OF s]]) (simp add: signals_def)
  have state: "no_new (parts b) (parts (apply_state c i m b))" for c
    by (simp add: apply_state_def Let_def up)
  have transfer: "no_new (parts b) (parts (snd (apply_transfer code room c i m b)))" for room c
    by (simp add: apply_transfer_def Let_def) (intro impI no_new_trans[OF up broadcast_no_new]; simp)
  have kick: "no_new (parts b) (parts (snd (apply_kick code room c i m b)))" for room c
    by (simp add: apply_kick_def quiet split: option.split)
  show ?thesis unfolding applyConferenceMessage_def
    using m by (simp add: state transfer kick quiet removeMeetingCode_no_new split: option.split)
qed

section \<open>The directory and the rooms\<close>

definition meeting_run :: "conf_event list \<Rightarrow> broker" where
  "meeting_run es = foldl conf_step (new_broker empty_db None [] 0) es"

text \<open>A run with a host and a guest.\<close>

definition demo_hello :: "string \<Rightarrow> string \<Rightarrow> hello" where
  "demo_hello action d = \<lparr>h_id = d, h_key = [], h_action = action, h_room = ''100000005'', h_name = ''N'', h_topic = []\<rparr>"

definition demo :: "conf_event list" where
  "demo = [Presence (\<lambda>_. Some \<lparr>c_stopping = False, c_seen = 0\<rparr>) (\<lambda>_. False),
     Open 0 (\<lambda>_. Some 5) \<lparr>t_device = ''A'', t_topic = ''T'', t_code = [], t_expires = 100\<rparr>,
     Join 0 0 (replicate 12 1) (demo_hello ''host'' ''A''), Join 0 0 (replicate 12 2) (demo_hello ''join'' ''B'')]"

lemma demo_code: "decimal 9 100000005 = ''100000005''"
proof -
  have "[char_of (49 :: nat), char_of (48 :: nat), char_of (53 :: nat)] = ''105''" by code_simp
  then show ?thesis by (simp add: decimal_numeral)
qed

lemma demo_draw: "own \<noteq> ''100000005'' \<Longrightarrow> draw_code (\<lambda>_. Some 5) 0 64 [] own = ''100000005''"
proof -
  have "(64 :: nat) = Suc 63" by simp
  moreover assume "own \<noteq> ''100000005''"
  ultimately show ?thesis by (simp only: draw_code.simps) (simp add: demo_code eq_commute[of own] del: decimal.simps)
qed

lemmas demo_simps = meeting_run_def demo_def new_broker_def meeting_locked_def offline_def seconds_def cleanupMeetings_def
  removeMeeting_def demo_draw conference_join_def demo_hello_def has_device_def Let_def set_conf_def conf_of_def

lemma start_reachable: "conf_inv (foldl conf_step (new_broker db turn stun timeout) es)"
  by (rule rooms.run_keeps[OF start_rooms])

text \<open>The directory and the rooms are always in order. Whatever happens on the relay, a meeting has a
  valid code and is the only one of its device; its room is empty with no host, or one of its members is
  the host; no identifier and no device is in it twice; nobody is in two rooms; no queue holds more than
  64 messages; and only the host shows a screen or records.\<close>

theorem conference_rooms:
  assumes b: "b = foldl conf_step (new_broker db turn stun timeout) es"
    and room: "map_of (meetings b) code = Some room"
  shows "IsMeetingCode code \<and> map_of (meetingDevices b) (r_device room) = Some code
    \<and> (\<forall>c. r_conf room = Some c \<longrightarrow>
        (members c = [] \<and> hostID c = [] \<or> member_of b code (hostID c) \<noteq> None)
        \<and> distinct (map fst (members c)) \<and> distinct (map (\<lambda>(k, i). p_device (parts b i)) (members c))
        \<and> (\<forall>k i. member_of b code k = Some i \<longrightarrow>
             p_id (parts b i) = k \<and> length (p_send (parts b i)) \<le> 64
             \<and> (k \<noteq> hostID c \<longrightarrow> \<not> p_screen (parts b i) \<and> \<not> p_rec (parts b i))
             \<and> (\<forall>a l. member_of b a l = Some i \<longrightarrow> a = code \<and> l = k)))"
proof -
  have inv: "conf_inv b" unfolding b by (rule start_reachable)
  then have "IsMeetingCode code" "map_of (meetingDevices b) (r_device room) = Some code"
    using room by (auto simp: conf_inv_def dir_inv_def dest: map_of_SomeD)
  moreover have "(members c = [] \<and> hostID c = [] \<or> member_of b code (hostID c) \<noteq> None)
      \<and> distinct (map fst (members c)) \<and> distinct (map (\<lambda>(k, i). p_device (parts b i)) (members c))" if c: "r_conf room = Some c" for c
  proof -
    have of: "conf_of (meetings b) code = Some c" using room c by (simp add: conf_of_def)
    then have ok: "room_ok (parts b) (next_part b) c" using inv by (simp add: conf_inv_def rooms_inv_def)
    have "map_of (members c) (hostID c) \<noteq> None \<longleftrightarrow> hostID c \<in> fst ` set (members c)" by (simp add: map_of_eq_None_iff)
    then show ?thesis using ok of by (auto simp: room_ok_def member_of_def split: if_splits)
  qed
  moreover have "p_id (parts b i) = k \<and> length (p_send (parts b i)) \<le> 64
      \<and> (k \<noteq> hostID c \<longrightarrow> \<not> p_screen (parts b i) \<and> \<not> p_rec (parts b i))
      \<and> (\<forall>a l. member_of b a l = Some i \<longrightarrow> a = code \<and> l = k)"
    if c: "r_conf room = Some c" and k: "member_of b code k = Some i" for c k i
  proof -
    have of: "conf_of (meetings b) code = Some c" using room c by (simp add: conf_of_def)
    then have i: "map_of (members c) k = Some i" using k by (simp add: member_of_def)
    note mem = member_facts[OF inv room c i]
    have quiet: "k \<noteq> hostID c \<longrightarrow> \<not> p_screen (parts b i) \<and> \<not> p_rec (parts b i)"
      using mem(1,5) unfolding room_ok_def by blast
    have once: "a = code \<and> l = k" if l: "member_of b a l = Some i" for a l
    proof -
      obtain d where d: "conf_of (meetings b) a = Some d" "map_of (members d) l = Some i"
        using l by (auto simp: member_of_def split: option.splits)
      obtain r where r: "map_of (meetings b) a = Some r" "r_conf r = Some d" using conf_ofD[OF d(1)] by blast
      have "i \<in> snd ` set (members d)" using member_facts(6)[OF inv r d(2)] .
      then have "a = code" using inv d(1) of mem(6) unfolding conf_inv_def rooms_inv_def by blast
      moreover have "l = k" using member_facts(3)[OF inv r d(2)] mem(3) by simp
      ultimately show ?thesis by simp
    qed
    show ?thesis using mem(3,7) quiet once by (simp add: queue_limit_def)
  qed
  ultimately show ?thesis by blast
qed

lemma conference_rooms_witness:
  "\<exists>room. map_of (meetings (meeting_run demo)) ''100000005'' = Some room
     \<and> map_of (meetingDevices (meeting_run demo)) (r_device room) = Some ''100000005''"
proof -
  have "map_of (meetings (meeting_run demo)) ''100000005'' \<noteq> None" by (simp add: demo_simps)
  then show ?thesis using conference_rooms[OF meeting_run_def, of demo "''100000005''"] by blast
qed

text \<open>C4: Every critical section moves each room as its contract allows, and for a reason: somebody
  enters by a join of his own who was neither removed nor is in the room already, the first one being the
  owner; the host is handed over and people are banned by a message of the host; and whoever leaves does so
  by his own connection, the host's place going to somebody who is still there.\<close>

theorem rooms_refine_contract:
  assumes b: "b = foldl conf_step (new_broker db turn stun timeout) es"
    and after: "conf_of (meetings (conf_step b ev)) code = Some c'"
  shows "\<exists>room act. map_of (meetings b) code = Some room
     \<and> room_move (r_device room) (room_abs (parts b) (conf_or_empty room)) act (room_abs (parts (conf_step b ev)) c')
     \<and> requested b code ev act"
  using conf_step_moved[OF _ after] start_reachable b unfolding moved_def by blast

lemma rooms_refine_contract_witness:
  "\<exists>room act c'. map_of (meetings (meeting_run (take 3 demo))) ''100000005'' = Some room
     \<and> room_move (r_device room) (room_abs (parts (meeting_run (take 3 demo))) (conf_or_empty room)) act
         (room_abs (parts (conf_step (meeting_run (take 3 demo)) (demo ! 3))) c')"
proof -
  have "conf_of (meetings (conf_step (meeting_run (take 3 demo)) (demo ! 3))) ''100000005'' \<noteq> None" by (simp add: demo_simps)
  then show ?thesis using rooms_refine_contract[OF meeting_run_def] by blast
qed

text \<open>C10: Only the host rules. When a section changes who hosts a room or who is banned from it, it handled
  a message of the member that hosts it, or the host left, or the owner of the meeting entered the empty room.\<close>

theorem only_the_host_rules:
  assumes b: "b = foldl conf_step (new_broker db turn stun timeout) es"
    and before: "conf_of (meetings b) code = Some c" and after: "conf_of (meetings (conf_step b ev)) code = Some c'"
    and change: "hostID c' \<noteq> hostID c \<or> removed c' \<noteq> removed c"
  shows "(\<exists>i m. ev = Message code i m \<and> map_of (members c) (hostID c) = Some i \<and> m_type m \<in> {''transfer'', ''kick''})
    \<or> (\<exists>i. ev = Leave code i \<and> map_of (members c) (hostID c) = Some i)
    \<or> (hostID c = [] \<and> (\<exists>now t raw h room. ev = Join now t raw h \<and> h_room h = code
          \<and> map_of (meetings b) code = Some room \<and> h_id h = r_device room))"
proof -
  have inv: "conf_inv b" unfolding b by (rule start_reachable)
  obtain room act where room: "map_of (meetings b) code = Some room"
    and move: "room_move (r_device room) (room_abs (parts b) (conf_or_empty room)) act (room_abs (parts (conf_step b ev)) c')"
    and req: "requested b code ev act" using conf_step_moved[OF inv after] unfolding moved_def by blast
  have c: "conf_or_empty room = c" using before room by (simp add: conf_of_def conf_or_empty_def)
  have at: "member_of b code k = map_of (members c) k" for k using before by (simp add: member_of_def)
  note move = move[unfolded c]
  show ?thesis
  proof (cases act)
    case Stay
    then show ?thesis using move change by (simp add: room_abs_def)
  next
    case (Enter k d)
    then show ?thesis using move[unfolded Enter] change req room by (elim enter_cases) (auto simp: room_abs_def split: if_splits)
  next
    case (Transfer who k)
    then show ?thesis using move[unfolded Transfer] req at by (elim transfer_cases) (auto simp: room_abs_def)
  next
    case (Ban who d)
    then show ?thesis using move[unfolded Ban] req at by (elim ban_cases) (auto simp: room_abs_def)
  next
    case (Quit k)
    then show ?thesis using move[unfolded Quit] change req at by (elim quit_cases) (auto simp: room_abs_def split: if_splits)
  qed
qed

text \<open>The host of the demonstration removes the guest.\<close>

definition kick :: conf_event where
  "kick = Message ''100000005'' 0 ((msg ''kick'')\<lparr>m_to := newConferenceParticipantID (replicate 12 2)\<rparr>)"

lemma demo_ids: "newConferenceParticipantID (replicate 12 1) = ''010101010101010101010101''"
  "newConferenceParticipantID (replicate 12 2) = ''020202020202020202020202''"
  by code_simp+

lemmas demo_run = demo_simps demo_ids kick_def queueConference_def queue_limit_def close_participant_def no_participant_def msg_def
  applyConferenceMessage_def apply_kick_def welcome_rtc_def peer_def

lemma demo_room: "conf_of (meetings (meeting_run demo)) ''100000005'' = Some \<lparr>members = [(''010101010101010101010101'', 0),
    (''020202020202020202020202'', 1)], removed = {}, hostID = ''010101010101010101010101''\<rparr>"
  by (simp add: demo_run)

lemma demo_kicked: "conf_of (meetings (conf_step (meeting_run demo) kick)) ''100000005'' = Some \<lparr>members = [(''010101010101010101010101'', 0),
    (''020202020202020202020202'', 1)], removed = {''B''}, hostID = ''010101010101010101010101''\<rparr>"
  by (simp add: demo_run)

lemma only_the_host_rules_witness:
  "\<exists>i m. kick = Message ''100000005'' i m \<and> map_of [(''010101010101010101010101'', 0), (''020202020202020202020202'', 1 :: nat)]
     ''010101010101010101010101'' = Some i \<and> m_type m \<in> {''transfer'', ''kick''}"
  using only_the_host_rules[OF meeting_run_def demo_room demo_kicked] by (simp add: kick_def)

text \<open>C16: Whoever was removed stays out. As long as the room exists, a banned device remains banned and does
  not enter: it is in the room at the end only where it has been there, under the same identifier, all along.\<close>

theorem removed_stays_out:
  assumes b: "b = foldl conf_step (new_broker db turn stun timeout) es" and b': "b' = foldl conf_step b es'"
    and room: "conf_of (meetings b) code = Some c" and banned: "d \<in> removed c"
    and lasts: "\<forall>n \<le> length es'. conf_of (meetings (foldl conf_step b (take n es'))) code \<noteq> None"
    and room': "conf_of (meetings b') code = Some c'"
  shows "d \<in> removed c' \<and> (\<forall>(k, i) \<in> set (members c'). p_device (parts b' i) = d \<longrightarrow> (k, d) \<in> set (people (room_abs (parts b) c)))"
proof -
  have "\<forall>c'. conf_of (meetings (foldl conf_step b es')) code = Some c' \<longrightarrow>
      (let s = room_abs (parts b) c; s' = room_abs (parts (foldl conf_step b es')) c'
       in d \<in> banned s' \<and> (\<forall>k. (k, d) \<in> set (people s') \<longrightarrow> (k, d) \<in> set (people s)))" using lasts
  proof (induction es' rule: rev_induct)
    case Nil
    then show ?case using room banned by (simp add: Let_def room_abs_def)
  next
    case (snoc ev es')
    let ?m = "foldl conf_step b es'"
    have "conf_of (meetings (foldl conf_step b (take n es'))) code \<noteq> None" if "n \<le> length es'" for n
      using snoc.prems[rule_format, of n] that by simp
    then have IH: "\<forall>c'. conf_of (meetings ?m) code = Some c' \<longrightarrow> (let s = room_abs (parts b) c; s' = room_abs (parts ?m) c'
       in d \<in> banned s' \<and> (\<forall>k. (k, d) \<in> set (people s') \<longrightarrow> (k, d) \<in> set (people s)))" by (intro snoc.IH) blast
    obtain cm where cm: "conf_of (meetings ?m) code = Some cm" using snoc.prems[rule_format, of "length es'"] by auto
    have inv: "conf_inv ?m" using start_reachable[of db turn stun timeout "es @ es'"] by (simp add: b)
    show ?case
    proof (intro allI impI)
      fix c' assume after: "conf_of (meetings (foldl conf_step b (es' @ [ev]))) code = Some c'"
      obtain r act where "map_of (meetings ?m) code = Some r"
        and move: "room_move (r_device r) (room_abs (parts ?m) (conf_or_empty r)) act (room_abs (parts (conf_step ?m ev)) c')"
        using conf_step_moved[OF inv, of ev code c'] after unfolding moved_def by auto
      then have "conf_or_empty r = cm" using cm by (simp add: conf_of_def conf_or_empty_def)
      then have move: "room_move (r_device r) (room_abs (parts ?m) cm) act (room_abs (parts (conf_step ?m ev)) c')" using move by simp
      show "let s = room_abs (parts b) c; s' = room_abs (parts (foldl conf_step b (es' @ [ev]))) c'
          in d \<in> banned s' \<and> (\<forall>k. (k, d) \<in> set (people s') \<longrightarrow> (k, d) \<in> set (people s))"
        using IH cm banned_stays[OF move, of d] by (auto simp: Let_def)
    qed
  qed
  then show ?thesis using room' b' by (force simp: Let_def room_abs_def)
qed

definition again :: conf_event where
  "again = Join 0 0 (replicate 12 3) (demo_hello ''join'' ''B'')"

lemma removed_stays_out_witness:
  "\<exists>c. conf_of (meetings (foldl conf_step (conf_step (meeting_run demo) kick) [Leave ''100000005'' 1, again])) ''100000005'' = Some c
     \<and> ''B'' \<in> removed c"
proof -
  let ?b = "conf_step (meeting_run demo) kick"
  have run: "?b = foldl conf_step (new_broker empty_db None [] 0) (demo @ [kick])" by (simp add: meeting_run_def)
  have one: "conf_of (meetings (conf_step ?b (Leave ''100000005'' 1))) ''100000005'' \<noteq> None"
    and two: "conf_of (meetings (conf_step (conf_step ?b (Leave ''100000005'' 1)) again)) ''100000005'' \<noteq> None"
    by (simp_all add: demo_run leaveConference_def again_def)
  have "\<forall>n \<le> length [Leave ''100000005'' 1, again]. conf_of (meetings (foldl conf_step ?b (take n [Leave ''100000005'' 1, again]))) ''100000005'' \<noteq> None"
  proof (intro allI impI)
    fix n assume "n \<le> length [Leave ''100000005'' 1, again]"
    then have "n = 0 \<or> n = 1 \<or> n = 2" by auto
    then show "conf_of (meetings (foldl conf_step ?b (take n [Leave ''100000005'' 1, again]))) ''100000005'' \<noteq> None"
      using one two demo_kicked by (elim disjE) simp_all
  qed
  note stays = removed_stays_out[OF run refl demo_kicked, of "''B''", OF _ this]
  obtain c where "conf_of (meetings (foldl conf_step ?b [Leave ''100000005'' 1, again])) ''100000005'' = Some c" using two by auto
  then show ?thesis using stays by auto
qed

section \<open>Signals\<close>

text \<open>Signals are authentic and private. A connection description that a section adds to somebody's queue
  was sent in this very section, as a well-formed signal, by the member whose identifier it carries, to the
  member that now has it; both are in the same room, and they are not the same.\<close>

theorem signals_are_authentic:
  assumes new: "s \<in> set (p_send (parts (conf_step b ev) j))" "s \<notin> set (p_send (parts b j))" and s: "m_type s = ''signal''"
  shows "\<exists>code i m. ev = Message code i m \<and> valid_signal m \<and> member_of b code (m_from s) = Some i
    \<and> member_of b code (m_to m) = Some j \<and> i \<noteq> j
    \<and> m_signal s = m_signal m \<and> m_sdp s = m_sdp m \<and> m_candidate s = m_candidate m"
proof -
  have loud: "\<not> no_new (parts b) (parts (conf_step b ev))" using new s by (auto simp: no_new_def signals_def)
  obtain code i m where ev: "ev = Message code i m" and m: "m_type m = ''signal''"
  proof (cases ev)
    case (Message code i m)
    then show ?thesis using that loud apply_no_new[of m b code i] by (cases "m_type m = ''signal''") (auto split: if_splits)
  next
    case (Open now ds t)
    have "no_new (parts b) (parts (removeMeeting d (cleanupMeetings now b)))" for d
      by (rule no_new_trans[OF cleanup_no_new removeMeeting_no_new])
    then show ?thesis using Open loud by (auto simp: meeting_locked_def Let_def split: if_splits)
  next
    case (Resolve e host now code)
    have "no_new (parts b) (parts (cleanupMeetings now (b\<lparr>lookups := ls\<rparr>)))" for ls
      using cleanup_no_new[of "b\<lparr>lookups := ls\<rparr>" now] by simp
    then have "no_new (parts b) (parts (conf_step b ev))"
      unfolding Resolve by (auto simp: handleMeetingResolve_def Let_def split: prod.split option.split)
    then show ?thesis using loud by simp
  next
    case (Control_gone d)
    then show ?thesis using loud removeMeeting_no_new[of "b\<lparr>controls := (controls b)(d := None)\<rparr>" d] by simp
  next
    case (Written i ok)
    have "no_new (parts b) ((parts b)(i := write_next ok (parts b i)))"
      by (intro no_new_upd) (auto simp: write_next_def signals_def close_participant_def split: list.split)
    then show ?thesis using Written loud by (auto split: if_splits)
  next
    case (Closing_timer i)
    have "no_new (parts b) ((parts b)(i := close_participant (parts b i)))"
      by (intro no_new_upd) (simp add: signals_def close_participant_def)
    then show ?thesis using Closing_timer loud by (auto split: if_splits)
  qed (use loud cleanup_no_new removeMeeting_no_new join_no_new leave_no_new in \<open>auto simp: conference_admit_def Let_def split: if_splits\<close>)
  let ?b = "snd (applyConferenceMessage code i m b)"
  have run: "conf_step b ev = ?b" using loud ev by (auto split: if_splits)
  obtain room c where room: "map_of (meetings b) code = Some room" "r_conf room = Some c" "map_of (members c) (p_id (parts b i)) = Some i"
    using loud unfolding run by (auto simp: applyConferenceMessage_def split: option.splits if_splits)
  have at: "member_of b code k = map_of (members c) k" for k using room by (simp add: member_of_def conf_of_def)
  have sig: "?b = snd (apply_signal c i m b)" using room m by (simp add: applyConferenceMessage_def)
  define w where "w = (msg ''signal'')\<lparr>m_from := p_id (parts b i), m_signal := m_signal m, m_sdp := m_sdp m, m_candidate := m_candidate m\<rparr>"
  obtain l where l: "valid_signal m" "map_of (members c) (m_to m) = Some l" "l \<noteq> i" "parts ?b = queueConference l w (parts b)"
    using loud unfolding run sig by (auto simp: apply_signal_def w_def split: option.splits if_splits)
  have "j = l \<and> s = w"
    using new unfolding run l(4) by (auto simp: queueConference_def Let_def close_participant_def split: if_splits)
  then show ?thesis using ev l room(3) at by (intro exI[of _ code] exI[of _ i] exI[of _ m]) (simp add: w_def msg_def)
qed

definition offer :: conf_event where
  "offer = Message ''100000005'' 1 ((msg ''signal'')\<lparr>m_to := ''010101010101010101010101'', m_signal := ''offer'', m_sdp := ''v=0''\<rparr>)"

lemma signals_are_authentic_witness:
  "\<exists>s. s \<in> set (p_send (parts (conf_step (meeting_run demo) offer) 0)) \<and> m_type s = ''signal''
     \<and> (\<exists>code i m. offer = Message code i m \<and> member_of (meeting_run demo) code (m_from s) = Some i)"
proof -
  let ?s = "(msg ''signal'')\<lparr>m_from := ''020202020202020202020202'', m_signal := ''offer'', m_sdp := ''v=0''\<rparr>"
  have s: "?s \<in> set (p_send (parts (conf_step (meeting_run demo) offer) 0))" "?s \<notin> set (p_send (parts (meeting_run demo) 0))"
    by (simp_all add: demo_run offer_def apply_signal_def valid_signal_def)
  have t: "m_type ?s = ''signal''" by (simp add: msg_def)
  show ?thesis using signals_are_authentic[OF s t] s(1) t by blast
qed

section \<open>Opening and expiry\<close>

lemma meeting_request_refusal: "meeting_request pr h nonce rep b = Inl a \<Longrightarrow> a \<noteq> Opened x y z"
  by (auto simp: meeting_request_def Let_def split: if_splits option.splits reply.splits)

lemma meeting_register_refusal: "meeting_register e now h b = (Inl a, b') \<Longrightarrow> a \<noteq> Opened x y z"
  by (auto simp: meeting_register_def Let_def split: if_splits option.splits sum.splits prod.splits)

text \<open>a meeting is opened only for a device that proved who it is and holds a licence. When the relay
  answers with a code, the request carried the key of the device and its signature of the challenge for this
  very action, the store gave the device a licence that has not run out, the meeting ends with it and two hours
  from now at the latest, and the code, a valid one that no other meeting has, is now that of the device.\<close>

theorem opened_meetings_are_licensed:
  assumes inv: "conf_inv b" and opened: "handleMeeting pr e remote h nonce rep now now' ds b = (Opened x y z, b')"
    and d: "d = to_upper (trim_space (h_id h))"
  shows "DeviceID pr (h_key h) = d \<and> h_action h = ''open''
    \<and> (\<exists>n sig. nonce = Some n \<and> rep = Reply ''proof'' sig \<and> ed_verify pr (h_key h) (MeetingProof d ''open'' n) sig)
    \<and> (\<exists>t db. RegisterLicensedDeviceNamed (e 0) d (h_key h) [] (store b) = (Inr (), db)
          \<and> DeviceLicenseExpiry (e 1) 0 d db = Inr (Some t) \<and> now < seconds t \<and> x \<le> seconds t)
    \<and> x \<le> now' + 2 * 3600000000000 \<and> IsMeetingCode y \<and> z = trim_space (h_topic h) \<and> (z \<noteq> [] \<longrightarrow> ValidMeetingTopic z)
    \<and> map_of (meetings b') y = Some \<lparr>r_device = d, r_topic = z, r_expires = x, r_conf = None\<rparr>
    \<and> map_of (meetingDevices b') d = Some y"
proof -
  obtain h' where req: "meeting_request pr h nonce rep b = Inr h'"
    using opened by (auto simp: handleMeeting_def dest: meeting_request_refusal split: sum.splits)
  have h': "h' = h\<lparr>h_id := d, h_topic := trim_space (h_topic h)\<rparr>" "DeviceID pr (h_key h) = d" "h_action h \<in> {''open'', ''close''}"
    and topic: "h_action h = ''open'' \<Longrightarrow> trim_space (h_topic h) \<noteq> [] \<Longrightarrow> ValidMeetingTopic (trim_space (h_topic h))"
    and proved: "\<exists>n sig. nonce = Some n \<and> rep = Reply ''proof'' sig \<and> ed_verify pr (h_key h) (MeetingProof d (h_action h) n) sig"
    using req by (auto simp: meeting_request_def d Let_def split: if_splits option.splits reply.splits)
  obtain t b1 where reg: "meeting_register e now h' b = (Inr t, b1)"
    using opened req by (auto simp: handleMeeting_def dest: meeting_register_refusal split: sum.splits prod.splits)
  then obtain db where db: "RegisterLicensedDeviceNamed (e 0) d (h_key h) [] (store b) = (Inr (), db)"
      "DeviceLicenseExpiry (e 1) 0 d db = Inr (Some t)" "now < seconds t" and b1: "b1 = b\<lparr>store := db\<rparr>"
    by (auto simp: meeting_register_def h'(1) Let_def split: sum.splits prod.splits option.splits if_splits)
  have action: "h_action h = ''open''"
    using h'(1,3) opened req reg by (auto simp: handleMeeting_def meeting_close_def)
  obtain r db2 where code: "EnsureDeviceCode (e 2) d db = (r, db2)" by fastforce
  define tk where "tk = \<lparr>t_device = d, t_topic = trim_space (h_topic h), t_code = (case r of Inl _ \<Rightarrow> [] | Inr c \<Rightarrow> c),
    t_expires = min (seconds t) (now' + 2 * 3600000000000)\<rparr>"
  obtain b2 where locked: "meeting_locked now' ds tk (b\<lparr>store := db2\<rparr>) = (Opened x y z, b2)"
    and b': "b' = log_audit (e 3) (audit_entry ''meeting_open'' d remote) b2"
    using opened req reg action code
    by (auto simp: handleMeeting_def h'(1) b1 tk_def Let_def split: prod.splits answer.splits)
  let ?m = "removeMeeting d (cleanupMeetings now' (b\<lparr>store := db2\<rparr>))"
  have out: "x = t_expires tk" "z = t_topic tk" "y \<noteq> []" "y = draw_code ds 0 64 (meetings ?m) (t_code tk)"
    "meetings b2 = AList.update y \<lparr>r_device = d, r_topic = z, r_expires = x, r_conf = None\<rparr> (meetings ?m)"
    "meetingDevices b2 = AList.update d y (meetingDevices ?m)"
    using locked by (auto simp: meeting_locked_def tk_def Let_def split: if_splits)
  have "IsMeetingCode y" using draw_code_fresh[OF out(4)[symmetric] out(3)] by blast
  moreover have "map_of (meetings b') y = Some \<lparr>r_device = d, r_topic = z, r_expires = x, r_conf = None\<rparr>"
    "map_of (meetingDevices b') d = Some y"
    by (simp_all add: b' log_audit_def out(5,6) AList.update_conv')
  ultimately show ?thesis using h'(2) action proved topic db out(1,2) by (auto simp: tk_def)
qed

text \<open>A licensed device that is online opens a meeting.\<close>

definition licensed_broker :: broker where
  "licensed_broker = (new_broker (empty_db\<lparr>licensed := [\<lparr>l_id = dev_id, l_key = replicate 32 1, l_name = [], l_pin = [],
     l_first = 0, l_seen = 0, l_until = 200, l_revoked = 0\<rparr>], codes := [(dev_id, ''123456789'')]\<rparr>) None [] 0)
     \<lparr>controls := (\<lambda>_. Some \<lparr>c_stopping = False, c_seen = 0\<rparr>)\<rparr>"

definition open_hello :: hello where
  "open_hello = \<lparr>h_id = dev_id, h_key = replicate 32 1, h_action = ''open'', h_room = [], h_name = [], h_topic = []\<rparr>"

lemma licensed_inv: "conf_inv licensed_broker"
  using start_rooms[of "empty_db" None "[]" 0] by (simp add: licensed_broker_def conf_inv_def new_broker_def)

lemma demo_opened: "\<exists>x b. handleMeeting toy (\<lambda>_. plain_env) [] open_hello (Some [1]) (Reply ''proof'' []) 0 0 (\<lambda>_. Some 5) licensed_broker
    = (Opened x ''100000005'' [], b)"
proof -
  have i: "to_upper (trim_space dev_id) = dev_id" "normalize dev_id = dev_id" "equal_fold dev_id dev_id" by code_simp+
  have k: "DeviceID toy (replicate 32 1) = dev_id" by (simp add: dev_id_def)
  have t: "trim_space [] = []" "rune_count [] = 0" by code_simp+
  have v: "ed_verify toy k m []" "prims plain_env = toy" "\<not> fault plain_env j" for k m j by (simp_all add: toy_def plain_env_def)
  show ?thesis
    by (simp add: handleMeeting_def meeting_request_def meeting_register_def RegisterLicensedDeviceNamed_def DeviceLicenseExpiry_def
      EnsureDeviceCode_def meeting_locked_def offline_def open_hello_def licensed_broker_def new_broker_def i k t v update_rows_def shown_def
      seconds_def cleanupMeetings_def removeMeeting_def demo_draw empty_db_def Let_def)
qed

lemma opened_meetings_are_licensed_witness:
  "\<exists>b :: broker. map_of (meetingDevices b) dev_id = Some ''100000005'' \<and> IsMeetingCode ''100000005''"
proof -
  have i: "dev_id = to_upper (trim_space (h_id open_hello))" by code_simp
  obtain x b where "handleMeeting toy (\<lambda>_. plain_env) [] open_hello (Some [1]) (Reply ''proof'' []) 0 0 (\<lambda>_. Some 5) licensed_broker
    = (Opened x ''100000005'' [], b)" using demo_opened by blast
  note facts = opened_meetings_are_licensed[OF licensed_inv this i]
  show ?thesis by (rule exI[of _ b]) (use facts in simp)
qed

text \<open>The expired meetings leave, and only they.\<close>

lemma cleanup_fold:
  assumes "dir_inv (meetings b) (meetingDevices b)" "distinct (map fst xs)" "\<forall>(code, r) \<in> set xs. map_of (meetings b) code = Some r"
  shows "meetings (fold (\<lambda>(code, room) b. if r_expires room > now then b else removeMeetingCode code reason_expired b) xs b)
      = filter (\<lambda>(code, _). \<not> (\<exists>r. (code, r) \<in> set xs \<and> r_expires r \<le> now)) (meetings b)
    \<and> meetingDevices (fold (\<lambda>(code, room) b. if r_expires room > now then b else removeMeetingCode code reason_expired b) xs b)
      = filter (\<lambda>(_, code). \<not> (\<exists>r. (code, r) \<in> set xs \<and> r_expires r \<le> now)) (meetingDevices b)"
  using assms
proof (induction xs arbitrary: b)
  case (Cons x xs)
  obtain code room where x: "x = (code, room)" by fastforce
  show ?case
  proof (cases "r_expires room > now")
    case True
    then have "(\<exists>r. (c, r) \<in> set (x # xs) \<and> r_expires r \<le> now) \<longleftrightarrow> (\<exists>r. (c, r) \<in> set xs \<and> r_expires r \<le> now)" for c
      using x by auto
    then show ?thesis using Cons.IH[of b] Cons.prems True x by simp
  next
    case False
    let ?b = "removeMeetingCode code reason_expired b"
    have room: "map_of (meetings b) code = Some room" using Cons.prems x by simp
    then have dev: "map_of (meetingDevices b) (r_device room) = Some code" using Cons.prems(1) by (auto simp: dir_inv_def)
    have ms: "meetings ?b = filter (\<lambda>(c, _). c \<noteq> code) (meetings b)"
      using room dev by (simp add: removeMeetingCode_def Let_def AList.delete_eq eq_commute[of code])
    have ds: "meetingDevices ?b = AList.delete (r_device room) (meetingDevices b)"
      using room dev by (simp add: removeMeetingCode_def Let_def)
    have "d \<noteq> r_device room \<longleftrightarrow> c \<noteq> code" if "(d, c) \<in> set (meetingDevices b)" for d c
    proof -
      have "map_of (meetingDevices b) d = Some c" using that Cons.prems(1) by (simp add: dir_inv_def)
      moreover then obtain r where "map_of (meetings b) c = Some r" "r_device r = d" using Cons.prems(1) unfolding dir_inv_def by blast
      ultimately show ?thesis using dev room by auto
    qed
    then have ds: "meetingDevices ?b = filter (\<lambda>(_, c). c \<noteq> code) (meetingDevices b)"
      unfolding ds AList.delete_eq by (intro filter_cong) auto
    have notin: "code \<notin> fst ` set xs" using Cons.prems(2) x by simp
    have "dir_inv (meetings ?b) (meetingDevices ?b)" using Cons.prems(1) pruned_dir[OF removeMeetingCode_pruned] by blast
    moreover have "\<forall>(c, r) \<in> set xs. map_of (meetings ?b) c = Some r"
    proof (clarify)
      fix c r assume cr: "(c, r) \<in> set xs"
      then have "c \<noteq> code" using notin by force
      then have "map_of (AList.delete code (meetings b)) c = Some r" using cr Cons.prems(3) by (auto simp: AList.delete_conv')
      then show "map_of (meetings ?b) c = Some r" by (simp add: ms AList.delete_eq eq_commute[of code])
    qed
    ultimately have IH: "meetings (fold (\<lambda>(code, room) b. if r_expires room > now then b else removeMeetingCode code reason_expired b) xs ?b)
        = filter (\<lambda>(code, _). \<not> (\<exists>r. (code, r) \<in> set xs \<and> r_expires r \<le> now)) (meetings ?b)"
      "meetingDevices (fold (\<lambda>(code, room) b. if r_expires room > now then b else removeMeetingCode code reason_expired b) xs ?b)
        = filter (\<lambda>(_, code). \<not> (\<exists>r. (code, r) \<in> set xs \<and> r_expires r \<le> now)) (meetingDevices ?b)"
      using Cons.IH[of ?b] Cons.prems(2) by auto
    show ?thesis using False by (simp add: x IH) (auto simp: ms ds filter_filter intro!: filter_cong)
  qed
qed (simp add: case_prod_beta)

text \<open>Cleaning up is filtering. Going through the meetings and ending the expired ones one by one leaves
  exactly the meetings that have not expired, in their order, and exactly their devices.\<close>

theorem cleanup_is_filter:
  assumes inv: "conf_inv b"
  shows "meetings (cleanupMeetings now b) = filter (\<lambda>(code, r). now < r_expires r) (meetings b)
    \<and> meetingDevices (cleanupMeetings now b)
      = filter (\<lambda>(d, code). \<exists>r. map_of (meetings b) code = Some r \<and> now < r_expires r) (meetingDevices b)"
proof -
  have d: "dir_inv (meetings b) (meetingDevices b)" using inv by (simp add: conf_inv_def)
  then have u: "distinct (map fst (meetings b))" by (simp add: dir_inv_def)
  have m: "(code, r) \<in> set (meetings b) \<longleftrightarrow> map_of (meetings b) code = Some r" for code r using u by simp
  have dm: "\<exists>r. map_of (meetings b) code = Some r" if "(k, code) \<in> set (meetingDevices b)" for k code
  proof -
    have "map_of (meetingDevices b) k = Some code" using that d by (simp add: dir_inv_def)
    then show ?thesis using d by (auto simp: dir_inv_def)
  qed
  have "meetings (cleanupMeetings now b) = filter (\<lambda>(code, _). \<not> (\<exists>r. (code, r) \<in> set (meetings b) \<and> r_expires r \<le> now)) (meetings b)"
    "meetingDevices (cleanupMeetings now b)
      = filter (\<lambda>(_, code). \<not> (\<exists>r. (code, r) \<in> set (meetings b) \<and> r_expires r \<le> now)) (meetingDevices b)"
    unfolding cleanupMeetings_def using cleanup_fold[OF d u, of now] u by auto
  moreover have "(\<not> (\<exists>r. (c, r) \<in> set (meetings b) \<and> r_expires r \<le> now)) \<longleftrightarrow> (\<exists>r. map_of (meetings b) c = Some r \<and> now < r_expires r)"
    if "(k, c) \<in> set (meetingDevices b)" for k c
    using dm[OF that] by (auto simp: m not_le)
  ultimately show ?thesis by (auto simp: m not_le intro!: filter_cong)
qed

lemma cleanup_is_filter_witness:
  "meetings (cleanupMeetings 100 (meeting_run demo)) = []"
  using cleanup_is_filter[OF start_reachable, of 100 empty_db None "[]" 0 demo] unfolding meeting_run_def[symmetric]
  by (simp add: demo_run)

end
