(* ===== verification/PortMap.thy ===== *)
theory PortMap
  imports Account TurnCredentials
begin

text \<open>
  Managed port mappings of the relay (\<open>cmd/yudesk-relay/portmap.go\<close>): a device asks over its
  management connection for a public port, the router is told by a hook to open it, and the embedded
  FRP server asks for every login, proxy and connection whether it was issued here.

  Mappings are objects named by number (the pointers of the code); the two maps of the broker are
  association lists with distinct keys. Opening a port is two critical sections with the hook between
  them, so creating is the two definitions \<open>create_reserve\<close> and \<open>create_commit\<close> (or \<open>create_failed\<close>).
  The hook is an external program: whether it succeeded is an argument, and the calls that reached it
  are logged in \<open>hook_log\<close>. The device's management connection, which these sections look up in
  \<open>b.controls\<close>, is an argument too.
\<close>

section \<open>Addresses\<close>

text \<open>\<open>net.SplitHostPort\<close>; \<open>None\<close> is its error. The position of the last colon and of the first closing bracket.\<close>

fun last_index :: "char \<Rightarrow> string \<Rightarrow> nat option" where
  "last_index x [] = None"
| "last_index x (c # cs) =
     (case last_index x cs of Some i \<Rightarrow> Some (Suc i) | None \<Rightarrow> if c = x then Some 0 else None)"

fun first_index :: "char \<Rightarrow> string \<Rightarrow> nat option" where
  "first_index x [] = None"
| "first_index x (c # cs) = (if c = x then Some 0 else map_option Suc (first_index x cs))"

definition SplitHostPort :: "string \<Rightarrow> (string \<times> string) option" where
  "SplitHostPort s =
     (case last_index (CHR '':'') s of None \<Rightarrow> None
      | Some i \<Rightarrow>
        if s ! 0 = CHR ''['' then
          (case first_index (CHR '']'') s of None \<Rightarrow> None
           | Some e \<Rightarrow>
             if e + 1 \<noteq> i then None
             else if CHR ''['' \<in> set (drop 1 s) \<or> CHR '']'' \<in> set (drop (e + 1) s) then None
             else Some (take (e - 1) (drop 1 s), drop (i + 1) s))
        else if CHR '':'' \<in> set (take i s) \<or> CHR ''['' \<in> set s \<or> CHR '']'' \<in> set s then None
        else Some (take i s, drop (i + 1) s))"

definition JoinHostPort :: "string \<Rightarrow> string \<Rightarrow> string" where
  "JoinHostPort host port =
     (if CHR '':'' \<in> set host then ''['' @ host @ '']:'' @ port else host @ '':'' @ port)"

lemma split_examples:
  "SplitHostPort ''relay.example:9347'' = Some (''relay.example'', ''9347'') \<and> SplitHostPort ''[::1]:80'' = Some (''::1'', ''80'')
     \<and> SplitHostPort ''::1'' = None \<and> SplitHostPort ''host'' = None \<and> SplitHostPort ''[::1]'' = None"
  by code_simp

section \<open>State\<close>

definition portMapMin :: int where "portMapMin = 9000"
definition portMapMax :: int where "portMapMax = 9500"
definition portMapLimit :: nat where "portMapLimit = 5"

record port_map =
  pm_id :: string
  pm_name :: string
  pm_protocol :: string
  pm_local :: int
  pm_remote :: int
  pm_address :: string
  pm_secret :: string
  pm_online :: bool
  pm_created :: nanos
  pm_device :: string
  pm_code :: string
  pm_label :: string
  pm_request :: string
  pm_session :: string
  pm_seen :: nanos
  pm_ready :: bool

record ports =
  pm_objs :: "nat \<Rightarrow> port_map"
  pm_next :: nat
  portMaps :: "(string \<times> nat) list"
  portByNumber :: "(int \<times> string) list"
  hook_log :: "(bool \<times> int) list"

record command =
  c_request :: string
  c_action :: string
  c_map :: string
  c_name :: string
  c_local :: int

text \<open>The outcomes the messages of the code tell the user.\<close>

datatype pm_answer =
    Bad_request | Bad_local_port | Long_name | Not_licensed | No_secret | No_id | Not_enabled
  | Control_stale | Already_created | Too_many | Random_failed | Pool_full | Bad_address | Hook_failed | Gone_offline
  | Created string | No_mapping | Mapping_closed | Unknown_action

definition pm_ok :: "pm_answer \<Rightarrow> bool" where
  "pm_ok a \<longleftrightarrow> (case a of Already_created \<Rightarrow> True | Created _ \<Rightarrow> True | Mapping_closed \<Rightarrow> True | _ \<Rightarrow> False)"

text \<open>The management connection of a device: \<open>deviceControl\<close>.\<close>

record device_control =
  ctl_conn :: nat
  ctl_stop :: "string option"
  ctl_stopping :: bool
  ctl_seen :: int
  ctl_pin :: string
  ctl_session :: string
  ctl_result :: "(string \<times> pm_answer) option"

definition setPortMapResult :: "string \<times> pm_answer \<Rightarrow> device_control \<Rightarrow> device_control" where
  "setPortMapResult r c = (if fst r = [] then c else c\<lparr>ctl_result := Some r\<rparr>)"

definition takePortMapResult :: "device_control \<Rightarrow> (string \<times> pm_answer) option \<times> device_control" where
  "takePortMapResult c = (ctl_result c, c\<lparr>ctl_result := None\<rparr>)"

definition constantStringEqual :: "primitives \<Rightarrow> string \<Rightarrow> string \<Rightarrow> bool" where
  "constantStringEqual pr a b \<longleftrightarrow> hash256 pr (str_bytes a) = hash256 pr (str_bytes b)"

text \<open>\<open>base64.RawURLEncoding\<close> of random bytes.\<close>

definition randomURLToken :: "bytes \<Rightarrow> string" where
  "randomURLToken raw =
     map (\<lambda>c. if c = CHR ''+'' then CHR ''-'' else if c = CHR ''/'' then CHR ''_'' else c)
       (filter (\<lambda>c. c \<noteq> CHR ''='') (base64_encode raw))"

text \<open>"local port " in Chinese, in UTF-8.\<close>

definition default_name :: "int \<Rightarrow> string" where
  "default_name port = map char_of [230, 156, 172, 229, 156, 176, 231, 171, 175, 229, 143, 163, 32 :: nat] @ show_int port"

section \<open>Ports and removal\<close>

text \<open>From \<open>start\<close>, which \<open>rand.Int\<close> keeps below the span, around the pool once.\<close>

fun free_from :: "(int \<times> string) list \<Rightarrow> nat \<Rightarrow> nat \<Rightarrow> nat \<Rightarrow> int option" where
  "free_from used start offset 0 = None"
| "free_from used start offset (Suc rest) =
     (let port = portMapMin + int ((start + offset) mod 501)
      in if map_of used port = None then Some port else free_from used start (Suc offset) rest)"

definition randomFreePort :: "nat option \<Rightarrow> ports \<Rightarrow> pm_answer + int" where
  "randomFreePort start s =
     (case start of None \<Rightarrow> Inl Random_failed
      | Some k \<Rightarrow> (case free_from (portByNumber s) (k mod 501) 0 501 of None \<Rightarrow> Inl Pool_full | Some p \<Rightarrow> Inr p))"

definition removePortMap :: "string \<Rightarrow> ports \<Rightarrow> nat option \<times> ports" where
  "removePortMap mapID s =
     (case map_of (portMaps s) mapID of None \<Rightarrow> (None, s)
      | Some i \<Rightarrow> (Some i, s\<lparr>portMaps := AList.delete mapID (portMaps s),
          portByNumber := AList.delete (pm_remote (pm_objs s i)) (portByNumber s)\<rparr>))"

text \<open>The hook is run with a port of the pool; its outcome is \<open>ok\<close>. With no hook configured nothing runs.\<close>

definition runPortMapHook :: "bool \<Rightarrow> bool \<Rightarrow> int \<Rightarrow> bool \<Rightarrow> ports \<Rightarrow> bool \<times> ports" where
  "runPortMapHook configured open_it port ok s =
     (if \<not> configured then (True, s)
      else if port < portMapMin \<or> port > portMapMax then (False, s)
      else (ok, s\<lparr>hook_log := hook_log s @ [(open_it, port)]\<rparr>))"

text \<open>Removing the mappings of one device, as \<open>closeDevicePortMaps\<close>, \<open>terminateDevice\<close> and the end of a
  management connection do; the result lists the mappings whose hooks are then closed.\<close>

definition remove_device_maps :: "string \<Rightarrow> ports \<Rightarrow> nat list \<times> ports" where
  "remove_device_maps d s =
     fold (\<lambda>(k, i) (out, s). if pm_device (pm_objs s i) = d then
         (case removePortMap k s of (None, s) \<Rightarrow> (out, s) | (Some j, s) \<Rightarrow> (out @ [j], s)) else (out, s)) (portMaps s) ([], s)"

definition closePortMapHooks :: "bool \<Rightarrow> nat list \<Rightarrow> ports \<Rightarrow> ports" where
  "closePortMapHooks configured is s = fold (\<lambda>i s. snd (runPortMapHook configured False (pm_remote (pm_objs s i)) True s)) is s"

definition closeDevicePortMaps :: "bool \<Rightarrow> string \<Rightarrow> ports \<Rightarrow> ports" where
  "closeDevicePortMaps configured d s = (case remove_device_maps d s of (is, s) \<Rightarrow> closePortMapHooks configured is s)"

definition closePortMapByAdmin :: "bool \<Rightarrow> string \<Rightarrow> ports \<Rightarrow> nat option \<times> ports" where
  "closePortMapByAdmin configured mapID s =
     (case removePortMap mapID s of (None, s) \<Rightarrow> (None, s)
      | (Some i, s) \<Rightarrow> (Some i, closePortMapHooks configured [i] s))"

section \<open>Creating a mapping\<close>

definition live_session :: "primitives \<Rightarrow> device_control option \<Rightarrow> string \<Rightarrow> bool" where
  "live_session pr ctl session = (case ctl of None \<Rightarrow> False
     | Some c \<Rightarrow> \<not> ctl_stopping c \<and> constantStringEqual pr (ctl_session c) session)"

text \<open>The checks before the lock. \<open>e 0\<close> and \<open>e 1\<close> are the environments of the two store calls.\<close>

record request =
  rq_name :: string
  rq_secret :: string
  rq_id :: string
  rq_code :: string
  rq_label :: string

definition create_checks ::
  "(nat \<Rightarrow> acc_env) \<Rightarrow> nanos \<Rightarrow> db \<Rightarrow> bytes option \<Rightarrow> bytes option \<Rightarrow> string \<Rightarrow> command \<Rightarrow> pm_answer + request"
where
  "create_checks e now db secret raw_id deviceID cmd =
     (let name = trim_space (c_name cmd) in
      if c_request cmd = [] then Inl Bad_request
      else if c_local cmd < 1 \<or> c_local cmd > 65535 then Inl Bad_local_port
      else
        let name = (if name = [] then default_name (c_local cmd) else name) in
        if rune_count name > 40 then Inl Long_name
        else if (case DeviceLicenseExpiry (e 0) 0 deviceID db of
              Inr (Some t) \<Rightarrow> \<not> t * 1000000000 > now | _ \<Rightarrow> True) then Inl Not_licensed
        else case secret of None \<Rightarrow> Inl No_secret
        | Some sec \<Rightarrow> (case raw_id of None \<Rightarrow> Inl No_id
          | Some r \<Rightarrow> (case DevicePublicLabel (e 1) deviceID db of (label, code) \<Rightarrow>
              Inr \<lparr>rq_name = name, rq_secret = randomURLToken sec, rq_id = randomURLToken r, rq_code = code, rq_label = label\<rparr>)))"

text \<open>The first critical section: it claims a port and registers the mapping.\<close>

definition device_maps :: "string \<Rightarrow> ports \<Rightarrow> (string \<times> nat) list" where
  "device_maps d s = filter (\<lambda>(k, i). pm_device (pm_objs s i) = d) (portMaps s)"

definition new_mapping :: "string \<Rightarrow> int \<Rightarrow> nanos \<Rightarrow> string \<Rightarrow> string \<Rightarrow> command \<Rightarrow> request \<Rightarrow> port_map" where
  "new_mapping host port now deviceID session cmd rq =
     \<lparr>pm_id = rq_id rq, pm_name = rq_name rq, pm_protocol = ''tcp'', pm_local = c_local cmd, pm_remote = port,
       pm_address = JoinHostPort host (show_int port), pm_secret = rq_secret rq, pm_online = False, pm_created = now,
       pm_device = deviceID, pm_code = rq_code rq, pm_label = rq_label rq, pm_request = c_request cmd,
       pm_session = session, pm_seen = now, pm_ready = False\<rparr>"

definition create_reserve ::
  "primitives \<Rightarrow> string \<Rightarrow> device_control option \<Rightarrow> nat option \<Rightarrow> nanos \<Rightarrow> string \<Rightarrow> string \<Rightarrow> command \<Rightarrow> request
     \<Rightarrow> ports \<Rightarrow> (pm_answer + nat) \<times> ports"
where
  "create_reserve pr server ctl start now deviceID session cmd rq s =
     (if server = [] then (Inl Not_enabled, s)
      else if \<not> live_session pr ctl session then (Inl Control_stale, s)
      else if \<exists>(k, i) \<in> set (device_maps deviceID s). pm_request (pm_objs s i) = c_request cmd then (Inl Already_created, s)
      else if length (device_maps deviceID s) \<ge> portMapLimit then (Inl Too_many, s)
      else case randomFreePort start s of Inl a \<Rightarrow> (Inl a, s)
      | Inr port \<Rightarrow> (case SplitHostPort server of None \<Rightarrow> (Inl Bad_address, s)
        | Some (host, _) \<Rightarrow>
            let i = pm_next s; m = new_mapping host port now deviceID session cmd rq
            in (Inr i, s\<lparr>pm_objs := (pm_objs s)(i := m), pm_next := Suc i,
                  portMaps := AList.update (rq_id rq) i (portMaps s),
                  portByNumber := AList.update port (rq_id rq) (portByNumber s)\<rparr>)))"

text \<open>After a failed open hook: the very mapping, if it is still there, is dropped, and the port closed again.\<close>

definition drop_exact :: "nat \<Rightarrow> ports \<Rightarrow> ports" where
  "drop_exact i s = (if map_of (portMaps s) (pm_id (pm_objs s i)) = Some i then snd (removePortMap (pm_id (pm_objs s i)) s) else s)"

definition create_failed :: "nat \<Rightarrow> ports \<Rightarrow> ports" where
  "create_failed i s = drop_exact i s"

text \<open>The second critical section: the mapping becomes visible only if it and the device's session are still there.\<close>

definition create_commit :: "primitives \<Rightarrow> device_control option \<Rightarrow> string \<Rightarrow> nat \<Rightarrow> ports \<Rightarrow> pm_answer \<times> ports" where
  "create_commit pr ctl session i s =
     (if map_of (portMaps s) (pm_id (pm_objs s i)) = Some i \<and> live_session pr ctl session
      then (Created (pm_address (pm_objs s i)), s\<lparr>pm_objs := (pm_objs s)(i := (pm_objs s i)\<lparr>pm_ready := True\<rparr>)\<rparr>)
      else (Gone_offline, drop_exact i s))"

definition port_audit :: "string \<Rightarrow> string \<Rightarrow> port_map \<Rightarrow> audit_row" where
  "port_audit action d m = \<lparr>au_at = 0, au_user = [], au_action = action, au_device = d, au_remote = [],
     au_detail = ''tcp '' @ pm_address m @ '' -> 127.0.0.1:'' @ show_int (pm_local m)\<rparr>"

text \<open>The whole of \<open>createPortMap\<close> when nothing comes between its sections; \<open>ctl\<close> and \<open>ctl'\<close> are what the
  two sections find, \<open>ok\<close> the outcome of the open hook.\<close>

definition createPortMap ::
  "primitives \<Rightarrow> (nat \<Rightarrow> acc_env) \<Rightarrow> bool \<Rightarrow> bool \<Rightarrow> string \<Rightarrow> device_control option \<Rightarrow> device_control option \<Rightarrow> bytes option \<Rightarrow> bytes option
     \<Rightarrow> nat option \<Rightarrow> nanos \<Rightarrow> nanos \<Rightarrow> string \<Rightarrow> string \<Rightarrow> command \<Rightarrow> ports \<times> db \<Rightarrow> pm_answer \<times> ports \<times> db"
where
  "createPortMap pr e configured ok server ctl ctl' secret raw_id start now now' deviceID session cmd sd =
     (case sd of (s, db) \<Rightarrow>
      (case create_checks e now db secret raw_id deviceID cmd of Inl a \<Rightarrow> (a, s, db)
       | Inr rq \<Rightarrow>
         (case create_reserve pr server ctl start now' deviceID session cmd rq s of
            (Inl a, s) \<Rightarrow> (a, s, db)
          | (Inr i, s) \<Rightarrow>
            (let port = pm_remote (pm_objs s i) in
             case runPortMapHook configured True port ok s of
               (False, s) \<Rightarrow> (Hook_failed, snd (runPortMapHook configured False port True (create_failed i s)), db)
             | (True, s) \<Rightarrow>
                 (case create_commit pr ctl' session i s of
                    (Created a, s) \<Rightarrow> (Created a, s, Audit (e 2) None (port_audit ''port_map_created'' deviceID (pm_objs s i)) db)
                  | (a, s) \<Rightarrow> (a, snd (runPortMapHook configured False port True s), db))))))"

section \<open>Deleting and listing\<close>

definition delete_section :: "string \<Rightarrow> string \<Rightarrow> ports \<Rightarrow> nat option \<times> ports" where
  "delete_section deviceID mapID s =
     (case map_of (portMaps s) mapID of None \<Rightarrow> (None, s)
      | Some i \<Rightarrow> if pm_device (pm_objs s i) \<noteq> deviceID then (None, s) else removePortMap (pm_id (pm_objs s i)) s)"

definition deletePortMap :: "acc_env \<Rightarrow> bool \<Rightarrow> string \<Rightarrow> command \<Rightarrow> ports \<times> db \<Rightarrow> pm_answer \<times> ports \<times> db" where
  "deletePortMap e configured deviceID cmd sd =
     (case sd of (s, db) \<Rightarrow>
      (case delete_section deviceID (c_map cmd) s of (None, s) \<Rightarrow> (No_mapping, s, db)
       | (Some i, s) \<Rightarrow>
           (Mapping_closed, snd (runPortMapHook configured False (pm_remote (pm_objs s i)) True s),
            Audit e None (port_audit ''port_map_closed'' deviceID (pm_objs s i)) db)))"

definition processPortMapCommand ::
  "(ports \<times> db \<Rightarrow> pm_answer \<times> ports \<times> db) \<Rightarrow> (ports \<times> db \<Rightarrow> pm_answer \<times> ports \<times> db) \<Rightarrow> command option \<Rightarrow> ports \<times> db
     \<Rightarrow> (string \<times> pm_answer option) \<times> ports \<times> db"
where
  "processPortMapCommand create del cmd sd =
     (case cmd of None \<Rightarrow> (([], None), sd)
      | Some c \<Rightarrow>
        let action = to_lower (trim_space (c_action c)) in
        if action = ''create'' then (case create sd of (a, sd) \<Rightarrow> ((c_request c, Some a), sd))
        else if action = ''delete'' then (case del sd of (a, sd) \<Rightarrow> ((c_request c, Some a), sd))
        else ((c_request c, Some Unknown_action), sd))"

fun insert_map :: "port_map \<Rightarrow> port_map list \<Rightarrow> port_map list" where
  "insert_map m [] = [m]"
| "insert_map m (x # xs) = (if pm_remote m < pm_remote x then m # x # xs else x # insert_map m xs)"

definition portMapStatus :: "primitives \<Rightarrow> string \<Rightarrow> string \<Rightarrow> ports \<Rightarrow> port_map list" where
  "portMapStatus pr deviceID session s =
     fold insert_map (map (\<lambda>(k, i). pm_objs s i)
       (filter (\<lambda>(k, i). pm_device (pm_objs s i) = deviceID \<and> pm_ready (pm_objs s i)
          \<and> constantStringEqual pr (pm_session (pm_objs s i)) session) (portMaps s))) []"

section \<open>The FRP server's questions\<close>

definition expectedFRPProxyName :: "string \<Rightarrow> string \<Rightarrow> string" where
  "expectedFRPProxyName deviceID mapID = to_upper (trim_space deviceID) @ ''.yudesk-'' @ mapID"

definition frpMapID :: "string \<Rightarrow> string \<Rightarrow> string" where
  "frpMapID deviceID proxyName =
     (let p = to_upper (trim_space deviceID) @ ''.yudesk-''
      in if has_prefix proxyName p then drop (length p) proxyName else proxyName)"

record frp_user =
  f_user :: string
  f_metas :: "string \<Rightarrow> string"

record frp_proxy =
  f_by :: frp_user
  f_name :: string
  f_type :: string
  f_port :: int
  f_proxy_metas :: "string \<Rightarrow> string"

text \<open>The request after its JSON was read; \<open>Undecodable\<close> is one whose content is not of the operation's shape.
  A missing key of \<open>metas\<close> is the empty string.\<close>

datatype frp_request =
    Frp_login frp_user
  | Frp_new_proxy frp_proxy
  | Frp_close_proxy frp_proxy
  | Frp_ping frp_user
  | Frp_new_work_conn frp_user
  | Frp_new_user_conn frp_user string string
  | Undecodable
  | Unsupported

definition validFRPSession :: "primitives \<Rightarrow> (string \<Rightarrow> device_control option) \<Rightarrow> frp_user \<Rightarrow> bool" where
  "validFRPSession pr ctls u = live_session pr (ctls (to_upper (trim_space (f_user u)))) (f_metas u ''yudesk_session'')"

definition touch :: "nanos \<Rightarrow> nat \<Rightarrow> ports \<Rightarrow> ports" where
  "touch now i s = s\<lparr>pm_objs := (pm_objs s)(i := (pm_objs s i)\<lparr>pm_seen := now\<rparr>)\<rparr>"

definition set_online :: "bool \<Rightarrow> nat \<Rightarrow> ports \<Rightarrow> ports" where
  "set_online v i s = s\<lparr>pm_objs := (pm_objs s)(i := (pm_objs s i)\<lparr>pm_online := v\<rparr>)\<rparr>"

definition issued :: "primitives \<Rightarrow> frp_proxy \<Rightarrow> ports \<Rightarrow> nat option" where
  "issued pr p s =
     (let mapID = f_proxy_metas p ''yudesk_map_id'' in
      case map_of (portMaps s) mapID of None \<Rightarrow> None
      | Some i \<Rightarrow>
        if pm_device (pm_objs s i) \<noteq> f_user (f_by p)
           \<or> \<not> constantStringEqual pr (pm_session (pm_objs s i)) (f_metas (f_by p) ''yudesk_session'')
           \<or> \<not> constantStringEqual pr (pm_secret (pm_objs s i)) (f_proxy_metas p ''yudesk_map_secret'')
           \<or> f_name p \<noteq> expectedFRPProxyName (f_user (f_by p)) mapID \<or> f_type p \<noteq> ''tcp''
           \<or> f_port p \<noteq> pm_remote (pm_objs s i) \<or> f_port p < portMapMin \<or> f_port p > portMapMax
        then None else Some i)"

definition authorizeFRPRequest ::
  "primitives \<Rightarrow> (string \<Rightarrow> device_control option) \<Rightarrow> nanos \<Rightarrow> frp_request \<Rightarrow> ports \<Rightarrow> bool \<times> ports"
where
  "authorizeFRPRequest pr ctls now r s =
     (case r of
        Frp_login u \<Rightarrow>
          (validFRPSession pr ctls u \<and> (\<exists>(k, i) \<in> set (portMaps s). pm_device (pm_objs s i) = f_user u
             \<and> constantStringEqual pr (pm_session (pm_objs s i)) (f_metas u ''yudesk_session'')), s)
      | Frp_new_proxy p \<Rightarrow>
          if \<not> validFRPSession pr ctls (f_by p) then (False, s)
          else (case issued pr p s of None \<Rightarrow> (False, s) | Some i \<Rightarrow> (True, touch now i (set_online True i s)))
      | Frp_close_proxy p \<Rightarrow>
          if \<not> validFRPSession pr ctls (f_by p) then (False, s)
          else (True, case map_of (portMaps s) (frpMapID (f_user (f_by p)) (f_name p)) of None \<Rightarrow> s
            | Some i \<Rightarrow> if pm_device (pm_objs s i) = f_user (f_by p) then touch now i (set_online False i s) else s)
      | Frp_ping u \<Rightarrow> if \<not> validFRPSession pr ctls u then (False, s)
          else (True, fold (\<lambda>(k, i). touch now i) (device_maps (f_user u) s) s)
      | Frp_new_work_conn u \<Rightarrow> if \<not> validFRPSession pr ctls u then (False, s)
          else (True, fold (\<lambda>(k, i). touch now i) (device_maps (f_user u) s) s)
      | Frp_new_user_conn u name type \<Rightarrow>
          if \<not> validFRPSession pr ctls u then (False, s)
          else (let mapID = frpMapID (f_user u) name in
            case map_of (portMaps s) mapID of None \<Rightarrow> (False, s)
            | Some i \<Rightarrow> if pm_device (pm_objs s i) \<noteq> f_user u \<or> name \<noteq> expectedFRPProxyName (f_user u) mapID \<or> type \<noteq> ''tcp''
                then (False, s) else (True, touch now i s))
      | Undecodable \<Rightarrow> (False, s)
      | Unsupported \<Rightarrow> (False, s))"

section \<open>Events\<close>

text \<open>The sections as events. \<open>Reserve\<close> draws an identifier (12 random bytes) that no live mapping has.\<close>

datatype port_event =
    Reserve primitives string "device_control option" "nat option" nanos string string command request
  | Open_failed nat
  | Commit primitives "device_control option" string nat
  | Delete string string
  | Remove_device string
  | Admin_close string
  | Hook bool bool int bool
  | Ask primitives "string \<Rightarrow> device_control option" nanos frp_request

fun port_step :: "ports \<Rightarrow> port_event \<Rightarrow> ports" where
  "port_step s (Reserve pr server ctl start now d session cmd rq) =
     (if map_of (portMaps s) (rq_id rq) \<noteq> None then s else snd (create_reserve pr server ctl start now d session cmd rq s))"
| "port_step s (Open_failed i) = create_failed i s"
| "port_step s (Commit pr ctl session i) = snd (create_commit pr ctl session i s)"
| "port_step s (Delete d k) = snd (delete_section d k s)"
| "port_step s (Remove_device d) = snd (remove_device_maps d s)"
| "port_step s (Admin_close k) = snd (removePortMap k s)"
| "port_step s (Hook configured open_it port ok) = snd (runPortMapHook configured open_it port ok s)"
| "port_step s (Ask pr ctls now r) = snd (authorizeFRPRequest pr ctls now r s)"

definition no_ports :: ports where
  "no_ports = \<lparr>pm_objs = (\<lambda>_. \<lparr>pm_id = [], pm_name = [], pm_protocol = [], pm_local = 0, pm_remote = 0, pm_address = [],
     pm_secret = [], pm_online = False, pm_created = 0, pm_device = [], pm_code = [], pm_label = [], pm_request = [], pm_session = [],
     pm_seen = 0, pm_ready = False\<rparr>), pm_next = 0, portMaps = [], portByNumber = [], hook_log = []\<rparr>"

end
