(* ===== verification/PortMap_Props.thy ===== *)
theory PortMap_Props
  imports PortMap SecureConn_Props "HOL-Library.Multiset"
begin

text \<open>
  Properties of the managed port mappings: the two maps of the broker stay inverse to each other, ports stay
  in the pool, no device has more than its five, a free port is found whenever there is one, and the FRP
  server is only ever told to publish what was issued. The sections of the handlers are events in any order.
\<close>

section \<open>The invariant\<close>

definition port_book :: "(nat \<Rightarrow> port_map) \<Rightarrow> nat \<Rightarrow> (string \<times> nat) list \<Rightarrow> (int \<times> string) list \<Rightarrow> bool" where
  "port_book objs n ms ns \<longleftrightarrow> distinct (map fst ms) \<and> distinct (map fst ns)
     \<and> (\<forall>(k, i) \<in> set ms. i < n \<and> pm_id (objs i) = k \<and> portMapMin \<le> pm_remote (objs i) \<and> pm_remote (objs i) \<le> portMapMax)
     \<and> (\<forall>p k. map_of ns p = Some k \<longleftrightarrow> (\<exists>i. map_of ms k = Some i \<and> pm_remote (objs i) = p))"

definition quota_ok :: "ports \<Rightarrow> bool" where
  "quota_ok s \<longleftrightarrow> (\<forall>d. length (device_maps d s) \<le> portMapLimit)"

definition ports_inv :: "ports \<Rightarrow> bool" where
  "ports_inv s \<longleftrightarrow> port_book (pm_objs s) (pm_next s) (portMaps s) (portByNumber s) \<and> quota_ok s"

lemma start_ports: "ports_inv no_ports"
  by (simp add: ports_inv_def port_book_def quota_ok_def no_ports_def device_maps_def)

text \<open>Objects that keep their identifier, port and device keep the invariant.\<close>

definition same_map :: "port_map \<Rightarrow> port_map \<Rightarrow> bool" where
  "same_map m m' \<longleftrightarrow> pm_id m' = pm_id m \<and> pm_remote m' = pm_remote m \<and> pm_device m' = pm_device m"

definition touched :: "ports \<Rightarrow> ports \<Rightarrow> bool" where
  "touched s s' \<longleftrightarrow> portMaps s' = portMaps s \<and> portByNumber s' = portByNumber s \<and> pm_next s' = pm_next s
     \<and> (\<forall>i. same_map (pm_objs s i) (pm_objs s' i))"

lemma touched_refl [simp]: "touched s s"
  by (simp add: touched_def same_map_def)

lemma touched_trans: "touched s s' \<Longrightarrow> touched s' s'' \<Longrightarrow> touched s s''"
  by (simp add: touched_def same_map_def)

lemma touched_inv: "touched s s' \<Longrightarrow> ports_inv s \<Longrightarrow> ports_inv s'"
  by (simp add: touched_def same_map_def ports_inv_def port_book_def quota_ok_def device_maps_def)

lemma touch_touched: "touched s (touch now i s)"
  by (simp add: touched_def same_map_def touch_def)

lemma set_online_touched: "touched s (set_online v i s)"
  by (simp add: touched_def same_map_def set_online_def)

lemma hook_touched: "touched s (snd (runPortMapHook configured open_it port ok s))"
  by (simp add: runPortMapHook_def touched_def same_map_def)

lemma fold_touched: "touched s (fold (\<lambda>(k, i). touch now i) xs s)"
proof (induction xs arbitrary: s)
  case (Cons x xs)
  then show ?case by (cases x) (auto intro: touched_trans touch_touched)
qed simp

lemma ask_touched: "touched s (snd (authorizeFRPRequest pr ctls now r s))"
  by (cases r) (auto simp: authorizeFRPRequest_def Let_def touch_touched set_online_touched fold_touched
      intro: touched_trans[OF set_online_touched touch_touched] split: option.split)

lemma book_delete:
  assumes book: "port_book objs n ms ns" and i: "map_of ms k = Some i"
  shows "port_book objs n (AList.delete k ms) (AList.delete (pm_remote (objs i)) ns)"
proof -
  have iff: "map_of ns p = Some l \<longleftrightarrow> (\<exists>j. map_of ms l = Some j \<and> pm_remote (objs j) = p)" for p l
    using book by (simp add: port_book_def)
  have unique: "l = k" if "map_of ms l = Some j" "pm_remote (objs j) = pm_remote (objs i)" for l j
    using iff[of "pm_remote (objs i)" l] iff[of "pm_remote (objs i)" k] i that by (metis option.inject)
  have "map_of (AList.delete (pm_remote (objs i)) ns) p = Some l
      \<longleftrightarrow> (\<exists>j. map_of (AList.delete k ms) l = Some j \<and> pm_remote (objs j) = p)" for p l
    using iff[of p l] iff[of "pm_remote (objs i)" k] i by (auto simp: AList.delete_conv' iff dest: unique)
  then show ?thesis using book by (simp add: port_book_def AList.distinct_delete) (auto simp: AList.delete_eq)
qed

lemma remove_keeps [keeps]: "ports_inv s \<Longrightarrow> ports_inv (snd (removePortMap k s))"
proof (cases "map_of (portMaps s) k")
  case (Some i)
  assume inv: "ports_inv s"
  then have "port_book (pm_objs s) (pm_next s) (AList.delete k (portMaps s)) (AList.delete (pm_remote (pm_objs s i)) (portByNumber s))"
    using book_delete[OF _ Some] by (simp add: ports_inv_def)
  moreover have "length (filter P (AList.delete k xs)) \<le> length (filter P xs)" for P and xs :: "(string \<times> nat) list"
    by (induction xs) auto
  then have "quota_ok (s\<lparr>portMaps := AList.delete k (portMaps s), portByNumber := ns\<rparr>)" for ns
    using inv unfolding ports_inv_def quota_ok_def device_maps_def by (auto intro: order_trans)
  ultimately show ?thesis using Some by (simp add: removePortMap_def ports_inv_def)
qed (simp add: removePortMap_def)

lemma drop_keeps [keeps]: "ports_inv s \<Longrightarrow> ports_inv (drop_exact i s)"
  by (simp add: drop_exact_def keeps)

lemma commit_keeps [keeps]: "ports_inv s \<Longrightarrow> ports_inv (snd (create_commit pr ctl session i s))"
proof -
  assume inv: "ports_inv s"
  have "touched s (s\<lparr>pm_objs := (pm_objs s)(i := (pm_objs s i)\<lparr>pm_ready := True\<rparr>)\<rparr>)" by (simp add: touched_def same_map_def)
  then show ?thesis using inv by (auto simp: create_commit_def keeps intro: touched_inv)
qed

lemma delete_keeps [keeps]: "ports_inv s \<Longrightarrow> ports_inv (snd (delete_section d k s))"
  by (simp add: delete_section_def keeps split: option.split)

lemma device_fold_keeps:
  "ports_inv s \<Longrightarrow> ports_inv (snd (fold (\<lambda>(k, i) (out, s). if pm_device (pm_objs s i) = d then
     (case removePortMap k s of (None, s) \<Rightarrow> (out, s) | (Some j, s) \<Rightarrow> (out @ [j], s)) else (out, s)) ms (out, s)))"
proof (induction ms arbitrary: out s)
  case (Cons x ms)
  obtain k i where x: "x = (k, i)" by fastforce
  obtain r t where t: "removePortMap k s = (r, t)" by fastforce
  have "ports_inv t" using remove_keeps[OF Cons.prems, of k] t by simp
  then show ?case using Cons by (simp add: x t split: option.split)
qed simp

lemma remove_device_keeps [keeps]: "ports_inv s \<Longrightarrow> ports_inv (snd (remove_device_maps d s))"
  unfolding remove_device_maps_def by (rule device_fold_keeps)

section \<open>The pool\<close>

lemma free_from_sound: "free_from used start off n = Some p \<Longrightarrow>
    map_of used p = None \<and> portMapMin \<le> p \<and> p \<le> portMapMax"
proof (induction used start off n rule: free_from.induct)
  case (2 used start off rest)
  have "(start + off) mod 501 < 501" by simp
  then have "int ((start + off) mod 501) \<le> 500" by linarith
  then show ?case using 2 by (auto simp: Let_def portMapMin_def portMapMax_def split: if_splits)
qed simp

lemma free_from_none: "free_from used start off n = None \<longleftrightarrow>
    (\<forall>k < n. map_of used (portMapMin + int ((start + off + k) mod 501)) \<noteq> None)"
proof (induction used start off n rule: free_from.induct)
  case (2 used start off rest)
  have "(\<forall>k < Suc rest. map_of used (portMapMin + int ((start + off + k) mod 501)) \<noteq> None) \<longleftrightarrow>
      map_of used (portMapMin + int ((start + off) mod 501)) \<noteq> None
      \<and> (\<forall>k < rest. map_of used (portMapMin + int ((start + Suc off + k) mod 501)) \<noteq> None)"
    by (auto simp: All_less_Suc2)
  then show ?case using 2 by (auto simp: Let_def simp del: map_of_eq_None_iff)
qed simp

text \<open>Going around a pool of 501 from anywhere visits every port.\<close>

lemma all_ports: "start < 501 \<Longrightarrow> portMapMin \<le> p \<Longrightarrow> p \<le> portMapMax \<Longrightarrow>
    \<exists>k < 501. portMapMin + int ((start + 0 + k) mod 501) = p"
proof -
  assume s: "start < 501" and p: "portMapMin \<le> p" "p \<le> portMapMax"
  define q where "q = nat (p - portMapMin)"
  have q: "q < 501" "p = portMapMin + int q" using p by (auto simp: q_def portMapMin_def portMapMax_def)
  define k where "k = (if start \<le> q then q - start else q + 501 - start)"
  have "k < 501" "(start + k) mod 501 = q" using s q by (auto simp: k_def)
  then show ?thesis using q by (intro exI[of _ k]) simp
qed

lemma update_new: "map_of xs k = None \<Longrightarrow> AList.update k v xs = xs @ [(k, v)]"
  by (induction xs) (auto split: if_splits)

text \<open>What a successful reservation does.\<close>

lemma reserve_result:
  assumes "create_reserve pr server ctl start now d session cmd rq s = (Inr i, s')"
  shows "\<exists>port host. randomFreePort start s = Inr port \<and> length (device_maps d s) < portMapLimit
    \<and> s' = s\<lparr>pm_objs := (pm_objs s)(pm_next s := new_mapping host port now d session cmd rq), pm_next := Suc (pm_next s),
        portMaps := AList.update (rq_id rq) (pm_next s) (portMaps s), portByNumber := AList.update port (rq_id rq) (portByNumber s)\<rparr>"
  using assms by (auto simp: create_reserve_def Let_def not_le split: if_splits sum.splits option.splits prod.splits)

lemma reserve_keeps:
  assumes inv: "ports_inv s" and fresh: "map_of (portMaps s) (rq_id rq) = None"
  shows "ports_inv (snd (create_reserve pr server ctl start now d session cmd rq s))"
proof (cases "fst (create_reserve pr server ctl start now d session cmd rq s)")
  case (Inl a)
  then have "snd (create_reserve pr server ctl start now d session cmd rq s) = s"
    by (auto simp: create_reserve_def Let_def split: if_splits sum.splits option.splits prod.splits)
  then show ?thesis using inv by simp
next
  case (Inr i)
  let ?s = "snd (create_reserve pr server ctl start now d session cmd rq s)"
  obtain port host where res: "randomFreePort start s = Inr port" "length (device_maps d s) < portMapLimit"
      "?s = s\<lparr>pm_objs := (pm_objs s)(pm_next s := new_mapping host port now d session cmd rq), pm_next := Suc (pm_next s),
        portMaps := AList.update (rq_id rq) (pm_next s) (portMaps s), portByNumber := AList.update port (rq_id rq) (portByNumber s)\<rparr>"
    using reserve_result[of pr server ctl start now d session cmd rq s i ?s] Inr by (metis prod.collapse)
  define m where "m = new_mapping host port now d session cmd rq"
  note port = res(1) and few = res(2) and s' = res(3)[folded m_def]
  have m: "pm_id m = rq_id rq" "pm_remote m = port" "pm_device m = d" by (simp_all add: m_def new_mapping_def)
  have free: "map_of (portByNumber s) port = None" "portMapMin \<le> port" "port \<le> portMapMax"
    using port free_from_sound by (auto simp: randomFreePort_def split: option.splits)
  have book: "port_book (pm_objs s) (pm_next s) (portMaps s) (portByNumber s)" using inv by (simp add: ports_inv_def)
  have lt: "j < pm_next s" if "map_of (portMaps s) k = Some j" for k j
    using book map_of_SomeD[OF that] by (auto simp: port_book_def)
  let ?objs = "(pm_objs s)(pm_next s := m)"
  have ne: "map_of (portMaps s) k = Some j \<Longrightarrow> j \<noteq> pm_next s" for k j using lt by blast
  have iff: "map_of (portByNumber s) p = Some k \<longleftrightarrow> (\<exists>j. map_of (portMaps s) k = Some j \<and> pm_remote (pm_objs s j) = p)" for p k
    using book by (simp add: port_book_def)
  have inverse: "map_of (AList.update port (rq_id rq) (portByNumber s)) p = Some k
      \<longleftrightarrow> (\<exists>j. map_of (AList.update (rq_id rq) (pm_next s) (portMaps s)) k = Some j \<and> pm_remote (?objs j) = p)" for p k
  proof (cases "k = rq_id rq")
    case True
    then show ?thesis using iff[of p k] fresh m(2) by (auto simp: AList.update_conv')
  next
    case False
    then have "(\<exists>j. map_of (AList.update (rq_id rq) (pm_next s) (portMaps s)) k = Some j \<and> pm_remote (?objs j) = p)
        \<longleftrightarrow> (\<exists>j. map_of (portMaps s) k = Some j \<and> pm_remote (pm_objs s j) = p)"
      using ne by (auto simp: AList.update_conv' split: if_splits)
    then show ?thesis using False iff[of p k] free(1) by (auto simp: AList.update_conv')
  qed
  have range: "i < Suc (pm_next s) \<and> pm_id (?objs i) = k \<and> portMapMin \<le> pm_remote (?objs i) \<and> pm_remote (?objs i) \<le> portMapMax"
    if "(k, i) \<in> set (AList.update (rq_id rq) (pm_next s) (portMaps s))" for k i
    using that book free(2,3) m(1,2) unfolding update_new[OF fresh] by (auto simp: port_book_def)
  have "distinct (map fst (AList.update (rq_id rq) (pm_next s) (portMaps s)))"
    "distinct (map fst (AList.update port (rq_id rq) (portByNumber s)))"
    using book by (simp_all add: port_book_def AList.distinct_update)
  then have "port_book ?objs (Suc (pm_next s)) (AList.update (rq_id rq) (pm_next s) (portMaps s)) (AList.update port (rq_id rq) (portByNumber s))"
    unfolding port_book_def using inverse range by blast
  moreover have "quota_ok ?s"
    unfolding quota_ok_def
  proof
    fix d'
    have "filter (\<lambda>(k, i). pm_device (?objs i) = d') (portMaps s) = device_maps d' s"
      unfolding device_maps_def by (rule filter_cong) (use book in \<open>auto simp: port_book_def\<close>)
    then have "device_maps d' ?s = device_maps d' s @ (if d = d' then [(rq_id rq, pm_next s)] else [])"
      unfolding s' by (simp add: device_maps_def update_new[OF fresh] m(3))
    then show "length (device_maps d' ?s) \<le> portMapLimit"
      using inv few by (auto simp: ports_inv_def quota_ok_def)
  qed
  ultimately show ?thesis unfolding s' by (simp add: ports_inv_def)
qed

lemma port_step_keeps: "ports_inv s \<Longrightarrow> ports_inv (port_step s ev)"
  by (cases ev) (simp_all add: keeps reserve_keeps create_failed_def touched_inv[OF hook_touched] touched_inv[OF ask_touched])

interpretation mappings: event_system port_step ports_inv
  by unfold_locales (rule port_step_keeps)

section \<open>Properties\<close>

text \<open>A device with a live management connection asks for a port twice.\<close>

definition demo_ctl :: device_control where
  "demo_ctl = \<lparr>ctl_conn = 0, ctl_stop = None, ctl_stopping = False, ctl_seen = 0, ctl_pin = [], ctl_session = ''S'', ctl_result = None\<rparr>"

definition demo_reserve :: "string \<Rightarrow> port_event" where
  "demo_reserve k = Reserve toy ''relay:1'' (Some demo_ctl) (Some 0) 0 ''D'' ''S''
     \<lparr>c_request = k, c_action = ''create'', c_map = [], c_name = [], c_local = 80\<rparr>
     \<lparr>rq_name = ''web'', rq_secret = ''secret'', rq_id = k, rq_code = [], rq_label = []\<rparr>"

definition mapping_run :: "port_event list \<Rightarrow> ports" where
  "mapping_run es = foldl port_step no_ports es"

lemma demo_address: "SplitHostPort ''relay:1'' = Some (''relay'', ''1'')"
  by code_simp

lemma first_free: "free_from used 0 0 501 = (if map_of used 9000 = None then Some 9000 else free_from used 0 1 500)"
proof -
  have n: "(501 :: nat) = Suc 500" by simp
  show ?thesis unfolding n free_from.simps by (simp add: portMapMin_def)
qed

lemmas demo_ports = mapping_run_def demo_reserve_def demo_ctl_def no_ports_def create_reserve_def live_session_def
  constantStringEqual_def device_maps_def portMapLimit_def randomFreePort_def first_free demo_address new_mapping_def
  create_commit_def delete_section_def removePortMap_def runPortMapHook_def portMapMin_def portMapMax_def

text \<open>C6: The port mappings are always in order. Whatever devices, administrator, hooks and FRP server do, the
  mappings and the ports are inverse to each other: every mapping holds exactly one public port, which is in
  the pool and recorded as its own, every recorded port belongs to a mapping, no two mappings share a port, and
  no device has more than five.\<close>

theorem port_maps_in_order:
  assumes s: "s = foldl port_step no_ports es"
  shows "(\<forall>k i. map_of (portMaps s) k = Some i \<longrightarrow> pm_id (pm_objs s i) = k \<and> 9000 \<le> pm_remote (pm_objs s i)
        \<and> pm_remote (pm_objs s i) \<le> 9500 \<and> map_of (portByNumber s) (pm_remote (pm_objs s i)) = Some k)
    \<and> (\<forall>p k. map_of (portByNumber s) p = Some k \<longrightarrow> (\<exists>i. map_of (portMaps s) k = Some i \<and> pm_remote (pm_objs s i) = p))
    \<and> (\<forall>k l i j. map_of (portMaps s) k = Some i \<and> map_of (portMaps s) l = Some j
        \<and> pm_remote (pm_objs s i) = pm_remote (pm_objs s j) \<longrightarrow> k = l)
    \<and> (\<forall>d. length (device_maps d s) \<le> 5)"
proof -
  have inv: "ports_inv s" unfolding s by (rule mappings.run_keeps[OF start_ports])
  then have iff: "map_of (portByNumber s) p = Some k \<longleftrightarrow> (\<exists>i. map_of (portMaps s) k = Some i \<and> pm_remote (pm_objs s i) = p)" for p k
    by (simp add: ports_inv_def port_book_def)
  have entry: "pm_id (pm_objs s i) = k \<and> 9000 \<le> pm_remote (pm_objs s i) \<and> pm_remote (pm_objs s i) \<le> 9500"
    if "map_of (portMaps s) k = Some i" for k i
    using inv map_of_SomeD[OF that] by (auto simp: ports_inv_def port_book_def portMapMin_def portMapMax_def)
  have own: "map_of (portByNumber s) (pm_remote (pm_objs s i)) = Some k" if "map_of (portMaps s) k = Some i" for k i
    using iff that by blast
  have once: "k = l" if "map_of (portMaps s) k = Some i" "map_of (portMaps s) l = Some j"
    "pm_remote (pm_objs s i) = pm_remote (pm_objs s j)" for k l i j
    using own[OF that(1)] own[OF that(2)] that(3) by simp
  have quota: "length (device_maps d s) \<le> 5" for d using inv by (simp add: ports_inv_def quota_ok_def portMapLimit_def)
  show ?thesis using entry own iff once quota by blast
qed

lemma port_maps_in_order_witness:
  "\<exists>i. map_of (portMaps (mapping_run [demo_reserve ''m''])) ''m'' = Some i
     \<and> map_of (portByNumber (mapping_run [demo_reserve ''m''])) (pm_remote (pm_objs (mapping_run [demo_reserve ''m'']) i)) = Some ''m''"
proof -
  have "map_of (portMaps (mapping_run [demo_reserve ''m''])) ''m'' = Some 0" by (simp add: demo_ports)
  then show ?thesis using port_maps_in_order[OF mapping_run_def, of "[demo_reserve ''m'']"] by blast
qed

text \<open>a public port is refused only when all 501 are taken. Starting anywhere, the search finds a port of the
  pool that nobody has if there is one, and reports a full pool exactly when there is none.\<close>

theorem free_port_found:
  "(randomFreePort (Some k) s = Inl Pool_full \<longleftrightarrow> (\<forall>p. 9000 \<le> p \<and> p \<le> 9500 \<longrightarrow> map_of (portByNumber s) p \<noteq> None))
   \<and> (\<forall>p. randomFreePort (Some k) s = Inr p \<longrightarrow> map_of (portByNumber s) p = None \<and> 9000 \<le> p \<and> p \<le> 9500)"
proof (intro conjI)
  define a where "a = k mod 501"
  have a: "a < 501" by (simp add: a_def)
  have res: "randomFreePort (Some k) s = (case free_from (portByNumber s) a 0 501 of None \<Rightarrow> Inl Pool_full | Some p \<Rightarrow> Inr p)"
    by (simp only: randomFreePort_def option.case a_def)
  have none: "free_from (portByNumber s) a 0 501 = None \<longleftrightarrow> (\<forall>p. 9000 \<le> p \<and> p \<le> 9500 \<longrightarrow> map_of (portByNumber s) p \<noteq> None)"
    (is "?l \<longleftrightarrow> ?r")
  proof
    assume l: ?l
    show ?r
    proof (intro allI impI)
      fix p :: int assume "9000 \<le> p \<and> p \<le> 9500"
      then obtain j where "j < 501" "portMapMin + int ((a + 0 + j) mod 501) = p"
        using all_ports[OF a, of p] by (auto simp: portMapMin_def portMapMax_def)
      then show "map_of (portByNumber s) p \<noteq> None" using l[unfolded free_from_none] by blast
    qed
  next
    assume r: ?r
    show ?l unfolding free_from_none
    proof (intro allI impI)
      fix j :: nat
      have "(a + 0 + j) mod 501 < 501" by simp
      then have "int ((a + 0 + j) mod 501) \<le> 500" by linarith
      then show "map_of (portByNumber s) (portMapMin + int ((a + 0 + j) mod 501)) \<noteq> None" using r by (simp add: portMapMin_def)
    qed
  qed
  then show "randomFreePort (Some k) s = Inl Pool_full \<longleftrightarrow> (\<forall>p. 9000 \<le> p \<and> p \<le> 9500 \<longrightarrow> map_of (portByNumber s) p \<noteq> None)"
    unfolding res by (cases "free_from (portByNumber s) a 0 501") simp_all
  show "\<forall>p. randomFreePort (Some k) s = Inr p \<longrightarrow> map_of (portByNumber s) p = None \<and> 9000 \<le> p \<and> p \<le> 9500"
    unfolding res using free_from_sound[of "portByNumber s" a 0 501]
    by (simp add: portMapMin_def portMapMax_def split: option.split)
qed

lemma free_port_found_witness: "randomFreePort (Some 0) no_ports = Inr 9000"
  using free_port_found[of 0 no_ports] by (simp add: demo_ports)

text \<open>Only issued mappings are published. The FRP server is told to accept a proxy only for a device whose
  management connection is live and carries the same session, and only for a mapping that was issued to this
  device in this session, with its secret (compared by hash), its name and the very port recorded for it; the
  answer changes nothing else.\<close>

theorem only_issued_proxies:
  assumes s: "s = foldl port_step no_ports es" and ok: "authorizeFRPRequest pr ctls now (Frp_new_proxy p) s = (True, s')"
  shows "\<exists>i c. map_of (portMaps s) (f_proxy_metas p ''yudesk_map_id'') = Some i
    \<and> ctls (to_upper (trim_space (f_user (f_by p)))) = Some c \<and> \<not> ctl_stopping c
    \<and> constantStringEqual pr (ctl_session c) (f_metas (f_by p) ''yudesk_session'')
    \<and> constantStringEqual pr (pm_session (pm_objs s i)) (f_metas (f_by p) ''yudesk_session'')
    \<and> constantStringEqual pr (pm_secret (pm_objs s i)) (f_proxy_metas p ''yudesk_map_secret'')
    \<and> pm_device (pm_objs s i) = f_user (f_by p) \<and> f_type p = ''tcp'' \<and> f_port p = pm_remote (pm_objs s i)
    \<and> map_of (portByNumber s) (f_port p) = Some (f_proxy_metas p ''yudesk_map_id'') \<and> 9000 \<le> f_port p \<and> f_port p \<le> 9500
    \<and> portMaps s' = portMaps s \<and> portByNumber s' = portByNumber s
    \<and> pm_objs s' = (pm_objs s)(i := (pm_objs s i)\<lparr>pm_online := True, pm_seen := now\<rparr>)"
proof -
  have inv: "ports_inv s" unfolding s by (rule mappings.run_keeps[OF start_ports])
  obtain i where valid: "validFRPSession pr ctls (f_by p)" and i: "issued pr p s = Some i" and s': "s' = touch now i (set_online True i s)"
    using ok by (auto simp: authorizeFRPRequest_def split: if_splits option.splits)
  have m: "map_of (portMaps s) (f_proxy_metas p ''yudesk_map_id'') = Some i" "pm_device (pm_objs s i) = f_user (f_by p)"
    "constantStringEqual pr (pm_session (pm_objs s i)) (f_metas (f_by p) ''yudesk_session'')"
    "constantStringEqual pr (pm_secret (pm_objs s i)) (f_proxy_metas p ''yudesk_map_secret'')"
    "f_type p = ''tcp''" "f_port p = pm_remote (pm_objs s i)" "9000 \<le> f_port p" "f_port p \<le> 9500"
    using i by (auto simp: issued_def Let_def portMapMin_def portMapMax_def split: option.splits if_splits)
  have "map_of (portByNumber s) (f_port p) = Some (f_proxy_metas p ''yudesk_map_id'')"
    using inv m(1,6) by (auto simp: ports_inv_def port_book_def)
  moreover obtain c where "ctls (to_upper (trim_space (f_user (f_by p)))) = Some c" "\<not> ctl_stopping c"
    "constantStringEqual pr (ctl_session c) (f_metas (f_by p) ''yudesk_session'')"
    using valid by (auto simp: validFRPSession_def live_session_def split: option.splits)
  moreover have "portMaps s' = portMaps s" "portByNumber s' = portByNumber s"
    "pm_objs s' = (pm_objs s)(i := (pm_objs s i)\<lparr>pm_online := True, pm_seen := now\<rparr>)"
    by (simp_all add: s' touch_def set_online_def)
  ultimately show ?thesis using m by blast
qed

definition demo_proxy :: frp_proxy where
  "demo_proxy = \<lparr>f_by = \<lparr>f_user = ''D'', f_metas = (\<lambda>_. ''S'')\<rparr>, f_name = ''D.yudesk-m'', f_type = ''tcp'', f_port = 9000,
     f_proxy_metas = (\<lambda>k. if k = ''yudesk_map_id'' then ''m'' else ''secret'')\<rparr>"

lemma demo_upper: "to_upper (trim_space ''D'') = ''D''" "expectedFRPProxyName ''D'' ''m'' = ''D.yudesk-m''"
  by code_simp+

lemma only_issued_proxies_witness:
  "\<exists>i. map_of (portMaps (mapping_run [demo_reserve ''m''])) ''m'' = Some i
     \<and> pm_device (pm_objs (mapping_run [demo_reserve ''m'']) i) = ''D''"
proof -
  obtain s' where "authorizeFRPRequest toy (\<lambda>_. Some demo_ctl) 0 (Frp_new_proxy demo_proxy) (mapping_run [demo_reserve ''m'']) = (True, s')"
    by (simp add: authorizeFRPRequest_def validFRPSession_def issued_def demo_proxy_def demo_upper demo_ports)
  from only_issued_proxies[OF mapping_run_def this] show ?thesis by (auto simp: demo_proxy_def)
qed

lemma length_filter_conj: "length (filter (\<lambda>x. P x \<and> Q x) xs) \<le> length (filter P xs)"
  by (induction xs) auto

text \<open>What the device is shown: insertion keeps the list sorted, and loses nothing.\<close>

lemma insert_map_mset: "mset (insert_map m xs) = add_mset m (mset xs)"
  by (induction xs) auto

lemma insert_map_sorted: "sorted (map pm_remote xs) \<Longrightarrow> sorted (map pm_remote (insert_map m xs))"
proof (induction xs)
  case (Cons x xs)
  have "set (insert_map m xs) = insert m (set xs)" using insert_map_mset[of m xs] by (metis set_mset_add_mset_insert set_mset_mset)
  then show ?case using Cons by auto
qed simp

lemma fold_insert_map:
  "sorted (map pm_remote ys) \<Longrightarrow> sorted (map pm_remote (fold insert_map xs ys)) \<and> mset (fold insert_map xs ys) = mset xs + mset ys"
  by (induction xs arbitrary: ys) (simp_all add: insert_map_sorted insert_map_mset)

text \<open>A device sees its open mappings, sorted. The list sent to a device is the sorted list of exactly those
  mappings that belong to it, that the router has opened and that were made in this session; their ports are
  strictly increasing, and there are at most five.\<close>

theorem status_is_sorted_selection:
  assumes s: "s = foldl port_step no_ports es"
  shows "portMapStatus pr d session s = sort_key pm_remote (map (\<lambda>(k, i). pm_objs s i)
      (filter (\<lambda>(k, i). pm_device (pm_objs s i) = d \<and> pm_ready (pm_objs s i) \<and> constantStringEqual pr (pm_session (pm_objs s i)) session)
        (portMaps s)))
    \<and> sorted_wrt (\<lambda>m m'. pm_remote m < pm_remote m') (portMapStatus pr d session s)
    \<and> length (portMapStatus pr d session s) \<le> 5"
proof -
  let ?sel = "filter (\<lambda>(k, i). pm_device (pm_objs s i) = d \<and> pm_ready (pm_objs s i) \<and> constantStringEqual pr (pm_session (pm_objs s i)) session)"
  define xs where "xs = map (\<lambda>(k, i). pm_objs s i) (?sel (portMaps s))"
  have st: "portMapStatus pr d session s = fold insert_map xs []" by (simp add: portMapStatus_def xs_def)
  have inv: "ports_inv s" unfolding s by (rule mappings.run_keeps[OF start_ports])
  then have book: "port_book (pm_objs s) (pm_next s) (portMaps s) (portByNumber s)" by (simp add: ports_inv_def)
  have port: "map_of (portByNumber s) (pm_remote (pm_objs s i)) = Some k" if "(k, i) \<in> set (portMaps s)" for k i
    using book that by (auto simp: port_book_def)
  have "distinct (map (\<lambda>(k, i). pm_remote (pm_objs s i)) (?sel (portMaps s)))"
  proof (rule distinct_map_filter, unfold distinct_map, intro conjI)
    show "distinct (portMaps s)" using book by (simp add: port_book_def distinct_map)
    show "inj_on (\<lambda>(k, i). pm_remote (pm_objs s i)) (set (portMaps s))"
    proof (rule inj_onI, clarify)
      fix k i l j assume h: "(k, i) \<in> set (portMaps s)" "(l, j) \<in> set (portMaps s)" "pm_remote (pm_objs s i) = pm_remote (pm_objs s j)"
      have "k = l" using port[OF h(1)] port[OF h(2)] h(3) by simp
      moreover have "distinct (map fst (portMaps s))" using book by (simp add: port_book_def)
      ultimately show "k = l \<and> i = j" using h by (blast intro: eq_key_imp_eq_value)
    qed
  qed
  then have dist: "distinct (map pm_remote xs)" by (simp add: xs_def comp_def case_prod_unfold)
  have sorted: "sorted (map pm_remote (fold insert_map xs []))" and mset: "mset (fold insert_map xs []) = mset xs"
    using fold_insert_map[of "[]" xs] by simp_all
  have "sort_key pm_remote xs = fold insert_map xs []"
    using sorted mset dist by (intro sort_key_inj_key_eq) (auto simp: distinct_map)
  moreover have "mset (map pm_remote (fold insert_map xs [])) = mset (map pm_remote xs)" using mset by simp
  then have "distinct (map pm_remote (fold insert_map xs []))" using dist by (metis mset_eq_imp_distinct_iff)
  then have "sorted_wrt (<) (map pm_remote (fold insert_map xs []))" using sorted by (simp add: strict_sorted_iff)
  then have "sorted_wrt (\<lambda>m m'. pm_remote m < pm_remote m') (fold insert_map xs [])" by (simp add: sorted_wrt_map)
  moreover have "length xs \<le> length (device_maps d s)"
    unfolding xs_def device_maps_def length_map case_prod_unfold by (rule length_filter_conj)
  then have "length (fold insert_map xs []) \<le> 5"
    using inv mset_eq_length[OF mset] by (simp add: ports_inv_def quota_ok_def portMapLimit_def) (meson order_trans)
  ultimately show ?thesis unfolding st xs_def[symmetric] by simp
qed

lemma status_is_sorted_selection_witness:
  "map pm_remote (portMapStatus toy ''D'' ''S'' (mapping_run [demo_reserve ''m'', Commit toy (Some demo_ctl) ''S'' 0])) = [9000]"
  using status_is_sorted_selection[OF mapping_run_def, of toy "''D''" "''S''" "[demo_reserve ''m'', Commit toy (Some demo_ctl) ''S'' 0]"]
  by (simp add: demo_ports)

section \<open>Closing races with opening\<close>

text \<open>A mapping gives up its port before its close hook has run. When the next mapping draws the same port and its
  open hook runs first, the late close hook closes the port of a mapping that is shown as open.\<close>

definition race :: "port_event list" where
  "race = [demo_reserve ''m'', Hook True True 9000 True, Commit toy (Some demo_ctl) ''S'' 0, Delete ''D'' ''m'',
     demo_reserve ''n'', Hook True True 9000 True, Commit toy (Some demo_ctl) ''S'' 1, Hook True False 9000 True]"

lemma close_hook_overtaken:
  "map_of (portByNumber (mapping_run race)) 9000 = Some ''n'' \<and> map_of (portMaps (mapping_run race)) ''n'' = Some 1
   \<and> pm_ready (pm_objs (mapping_run race) 1) \<and> hook_log (mapping_run race) = [(True, 9000), (True, 9000), (False, 9000)]"
  by (simp add: race_def demo_ports)

end
