(* ===== verification/Relay.thy ===== *)
theory Relay
  imports PortMap
begin

text \<open>
  The relay proper (\<open>cmd/yudesk-relay/main.go\<close>, \<open>control.go\<close>, \<open>resolve.go\<close>): who may connect, how an
  agent and a viewer of one device are paired, the management connections, and how an administrator ends
  sessions.

  Connections are numbers. The state is the part of the broker these handlers use, the one-place
  channels \<open>ready\<close> and \<open>stop\<close>, and where each handler stands. A handler is cut at its critical sections and
  at its blocking points, and every cut is an event, so the events of all handlers may interleave in any
  way the scheduler allows: what a section leaves to be done after unlocking, sending to a \<open>ready\<close> channel and
  closing connections, is pending until its own event. The clock, the draws and the store's
  environments are arguments.
\<close>

section \<open>Admission\<close>

record relay_hello =
  rh_role :: string
  rh_id :: string
  rh_name :: string
  rh_pin :: string
  rh_token :: string
  rh_auth :: string
  rh_key :: bytes
  rh_v2 :: bool

record relay_config =
  rc_licences :: bool
  rc_token :: string
  rc_auto :: bool

datatype verdict =
    Rejected string acc_error
  | Refused string string
  | Admitted string "int option"

text \<open>\<open>expiry.After(now)\<close>, \<open>None\<close> being the zero time.\<close>

definition runs_after :: "int option \<Rightarrow> nanos \<Rightarrow> bool" where
  "runs_after expiry now = (case expiry of None \<Rightarrow> False | Some t \<Rightarrow> t * 1000000000 > now)"

definition relay_audit :: "string \<Rightarrow> string \<Rightarrow> string \<Rightarrow> string \<Rightarrow> string \<Rightarrow> audit_row" where
  "relay_audit user action device remote detail = \<lparr>au_at = 0, au_user = user, au_action = action, au_device = device,
     au_remote = remote, au_detail = detail\<rparr>"

text \<open>One line, whatever the message holds.\<close>

definition writeRelayRejection :: "string \<Rightarrow> string \<Rightarrow> string" where
  "writeRelayRejection code message =
     ''ERR '' @ code @ '' '' @ map (\<lambda>c. if c = CHR 0x0D \<or> c = CHR 0x0A then CHR '' '' else c) (trim_space message) @ [CHR 0x0A]"

definition ensureAutomaticDeviceLicense ::
  "acc_env \<Rightarrow> acc_env \<Rightarrow> bool \<Rightarrow> string \<Rightarrow> string \<Rightarrow> db \<Rightarrow> (acc_error + unit) \<times> db"
where
  "ensureAutomaticDeviceLicense e e' auto deviceID remote db =
     (if \<not> auto then (Inr (), db)
      else case EnsurePermanentDeviceLicense e deviceID db of
        (Inl err, db) \<Rightarrow> (Inl err, db)
      | (Inr granted, db) \<Rightarrow>
          (Inr (), if granted then Audit e' None (relay_audit [] ''device_auto_activated'' deviceID remote ''permanent'') db else db))"

text \<open>The text of an error of the store holds the word "revoked" for a revoked device.\<close>

definition revoked_code :: "acc_error \<Rightarrow> string" where
  "revoked_code err = (if err = Device_revoked then ''DISABLED'' else ''DENIED'')"

text \<open>\<open>handle\<close> up to the loop, with \<open>h\<close> upper-cased and past the stop request. \<open>e k\<close> is the environment of the
  \<open>k\<close>-th call to the store. The last component of \<open>Admitted\<close> is the deadline put on the connection.\<close>

definition admit_licensed ::
  "(nat \<Rightarrow> acc_env) \<Rightarrow> nanos \<Rightarrow> relay_config \<Rightarrow> string \<Rightarrow> relay_hello \<Rightarrow> db \<Rightarrow> verdict \<times> db"
where
  "admit_licensed e now cfg remote h db =
     (let refuse = relay_audit [] ''device_license_denied'' (rh_id h) remote [];
          licence = (\<lambda>db. case DeviceLicenseExpiry (e 4) 0 (rh_id h) db of
            Inl err \<Rightarrow> (Rejected (revoked_code err) err, Audit (e 5) None refuse db)
          | Inr t \<Rightarrow>
              if \<not> runs_after t now then
                (Refused ''LICENSE_REQUIRED'' ''device activation is required or has expired'', Audit (e 5) None refuse db)
              else (Admitted (''device:'' @ rh_id h) (if IsPermanentDeviceLicense t then None else t), db))
      in if rh_role h = ''agent'' then
           (case RegisterLicensedDeviceNamed (e 0) (rh_id h) (rh_key h) (rh_name h) db of
              (Inl err, db) \<Rightarrow> (Rejected (revoked_code err) err,
                 Audit (e 1) None (relay_audit [] ''device_register_failed'' (rh_id h) remote []) db)
            | (Inr _, db) \<Rightarrow>
                (case ensureAutomaticDeviceLicense (e 2) (e 3) (rc_auto cfg) (rh_id h) remote db of
                   (Inl err, db) \<Rightarrow> (Refused ''DENIED'' ''automatic device activation failed'', db)
                 | (Inr _, db) \<Rightarrow> licence db))
         else licence db)"

definition admit_account :: "(nat \<Rightarrow> acc_env) \<Rightarrow> nanos \<Rightarrow> string \<Rightarrow> relay_hello \<Rightarrow> db \<Rightarrow> verdict \<times> db" where
  "admit_account e now remote h db =
     (let note = (\<lambda>k user action. Audit (e k) None (relay_audit user action (rh_id h) remote [])) in
      case Authenticate (e 0) (rh_auth h) db of (owner, valid) \<Rightarrow>
      if \<not> valid then (Refused ''DENIED'' ''invalid relay credentials'', note 1 [] ''relay_auth_failed'' db)
      else if (case LicenseExpiry (e 2) owner db of Inl _ \<Rightarrow> True | Inr t \<Rightarrow> \<not> runs_after t now)
      then (Refused ''LICENSE_REQUIRED'' ''account activation is required or has expired'', note 3 owner ''relay_license_denied'' db)
      else
        let deadline = (case LicenseExpiry (e 2) owner db of Inl _ \<Rightarrow> None | Inr t \<Rightarrow> t) in
        if rh_role h = ''agent'' then
          (case BindDevice (e 4) owner (rh_id h) (rh_key h) [] db of
             (Inl err, db) \<Rightarrow> (Rejected ''DENIED'' err, note 5 owner ''device_bind_failed'' db)
           | (Inr _, db) \<Rightarrow> (Admitted owner deadline, db))
        else if \<not> OwnsDevice (e 4) owner (rh_id h) db
        then (Refused ''DENIED'' ''device is not owned by this account'', note 5 owner ''device_access_denied'' db)
        else (Admitted owner deadline, db))"

definition relay_admit ::
  "(nat \<Rightarrow> acc_env) \<Rightarrow> nanos \<Rightarrow> relay_config \<Rightarrow> string \<Rightarrow> relay_hello \<Rightarrow> db \<Rightarrow> verdict \<times> db"
where
  "relay_admit e now cfg remote h db =
     (if rc_licences cfg then admit_licensed e now cfg remote h db
      else if rc_token cfg \<noteq> [] \<and> rh_token h = rc_token cfg then (Admitted ''legacy'' None, db)
      else admit_account e now remote h db)"

text \<open>The first line of a connection: \<open>None\<close> drops it. The JSON decoder is a parameter.\<close>

definition roles :: "string set" where
  "roles = {''agent'', ''viewer'', ''control'', ''resolve'', ''meeting'', ''meeting-resolve'', ''conference''}"

fun split_space :: "string \<Rightarrow> (string \<times> string) option" where
  "split_space [] = None"
| "split_space (c # cs) = (if c = CHR '' '' then Some ([], cs) else map_option (\<lambda>(a, b). (c # a, b)) (split_space cs))"

definition parse_hello :: "(string \<Rightarrow> relay_hello option) \<Rightarrow> string \<Rightarrow> relay_hello option" where
  "parse_hello json line =
     (if length line > 16384 then None
      else case split_space (trim_space line) of None \<Rightarrow> None
      | Some (tag, rest) \<Rightarrow>
          if tag \<noteq> ''YU_RELAY/1'' then None
          else case json rest of None \<Rightarrow> None
          | Some h \<Rightarrow> if rh_id h = [] \<or> rh_role h \<notin> roles then None else Some (h\<lparr>rh_id := to_upper (rh_id h)\<rparr>))"

definition canonicalDeviceID :: "acc_env \<Rightarrow> bool \<Rightarrow> string \<Rightarrow> db \<Rightarrow> string" where
  "canonicalDeviceID e accounts_on i db =
     (if IsMeetingCode i \<and> accounts_on then (case ResolveDeviceCode e i db of Inr full \<Rightarrow> full | Inl _ \<Rightarrow> i) else i)"

section \<open>State\<close>

record waiting =
  w_conn :: nat
  w_role :: string
  w_owner :: string
  w_v2 :: bool

record session =
  s_agent :: nat
  s_viewer :: nat
  s_owner :: string
  s_id :: string

text \<open>Where the handler of an agent's or viewer's connection stands; the device, the role and the owner are
  fixed when it is admitted.\<close>

datatype phase = Unknown | Pairing | Waiting | Handed_over | Proxying nat | Returned

record conn_info =
  k_device :: string
  k_role :: string
  k_owner :: string
  k_v2 :: bool

record relay =
  rl_devices :: "string \<Rightarrow> waiting option"
  rl_active :: "string \<Rightarrow> session option"
  rl_controls :: "string \<Rightarrow> device_control option"
  rl_stops :: "string \<Rightarrow> string option"
  rl_ports :: ports
  rl_info :: "nat \<Rightarrow> conn_info"
  rl_phase :: "nat \<Rightarrow> phase"
  rl_ready :: "nat \<Rightarrow> (nat option) list"
  rl_sends :: "(nat \<times> nat option) list"
  rl_closing :: "nat list"
  rl_closed :: "nat set"

definition new_relay :: relay where
  "new_relay = \<lparr>rl_devices = Map.empty, rl_active = Map.empty, rl_controls = Map.empty, rl_stops = Map.empty, rl_ports = no_ports,
     rl_info = (\<lambda>_. \<lparr>k_device = [], k_role = [], k_owner = [], k_v2 = False\<rparr>), rl_phase = (\<lambda>_. Unknown), rl_ready = (\<lambda>_. []),
     rl_sends = [], rl_closing = [], rl_closed = {}\<rparr>"

definition set_phase :: "nat \<Rightarrow> phase \<Rightarrow> relay \<Rightarrow> relay" where
  "set_phase c p r = r\<lparr>rl_phase := (rl_phase r)(c := p)\<rparr>"

text \<open>A handler returns; unless the connection was handed over its deferred call closes it.\<close>

definition return_closing :: "nat \<Rightarrow> relay \<Rightarrow> relay" where
  "return_closing c r = set_phase c Returned (r\<lparr>rl_closed := insert c (rl_closed r)\<rparr>)"

section \<open>Stop requests\<close>

definition takeStopRequest :: "string \<Rightarrow> relay \<Rightarrow> string option \<times> relay" where
  "takeStopRequest d r =
     (let d = to_upper d in (rl_stops r d, r\<lparr>rl_stops := (rl_stops r)(d := None)\<rparr>))"

definition clearStopRequest :: "string \<Rightarrow> string \<Rightarrow> relay \<Rightarrow> relay" where
  "clearStopRequest d reason r =
     (let d = to_upper d
      in if (case rl_stops r d of None \<Rightarrow> [] | Some s \<Rightarrow> s) = reason then r\<lparr>rl_stops := (rl_stops r)(d := None)\<rparr> else r)"

section \<open>Pairing\<close>

text \<open>One round of the loop of \<open>handle\<close> for the connection \<open>c\<close>; \<open>sid\<close> is the identifier a new session draws
  (empty when the draw fails).\<close>

datatype round = Busy | Wait | Denied | Paired | Again

definition attach :: "nat \<Rightarrow> string \<Rightarrow> relay \<Rightarrow> round \<times> relay" where
  "attach c sid r =
     (let d = k_device (rl_info r c); role = k_role (rl_info r c); owner = k_owner (rl_info r c) in
      if rl_active r d \<noteq> None then (Busy, return_closing c r)
      else case rl_devices r d of
        None \<Rightarrow> (Wait, set_phase c Waiting (r\<lparr>rl_devices := (rl_devices r)(d \<mapsto> \<lparr>w_conn = c, w_role = role, w_owner = owner,
                   w_v2 = k_v2 (rl_info r c)\<rparr>)\<rparr>))
      | Some old \<Rightarrow>
          if w_role old \<noteq> role then
            (if w_owner old \<noteq> owner then (Denied, return_closing c r)
             else
               let s = (if role = ''agent'' then \<lparr>s_agent = c, s_viewer = w_conn old, s_owner = owner, s_id = sid\<rparr>
                        else \<lparr>s_agent = w_conn old, s_viewer = c, s_owner = owner, s_id = sid\<rparr>)
               in (Paired, set_phase c Handed_over (r\<lparr>rl_devices := (rl_devices r)(d := None),
                     rl_active := (rl_active r)(d \<mapsto> s), rl_sends := rl_sends r @ [(w_conn old, Some c)]\<rparr>)))
          else
            (Again, r\<lparr>rl_devices := (rl_devices r)(d := None), rl_closing := rl_closing r @ [w_conn old],
               rl_sends := rl_sends r @ [(w_conn old, None)]\<rparr>))"

text \<open>What the two ends are told: with both ends of the second version and TURN in use each gets its own policy.
  \<open>encode\<close> is the JSON and base 64 encoding of a policy.\<close>

definition pairing_lines ::
  "(rtc_policy \<Rightarrow> string option) \<Rightarrow> turn_config option \<Rightarrow> nanos \<Rightarrow> string \<Rightarrow> int \<Rightarrow> bool \<Rightarrow> string \<Rightarrow> string \<Rightarrow> string \<Rightarrow> string \<times> string"
where
  "pairing_lines encode turn now stun timeout both_v2 d sid old_role =
     (case turn of None \<Rightarrow> (''OK'', ''OK'')
      | Some m \<Rightarrow>
        if \<not> both_v2 \<or> sid = [] then (''OK'', ''OK'')
        else (case (encode (remotePolicy m now d sid ''agent'' stun timeout), encode (remotePolicy m now d sid ''viewer'' stun timeout)) of
            (Some a, Some v) \<Rightarrow>
              let a = ''OK '' @ a; v = ''OK '' @ v in if old_role = ''agent'' then (a, v) else (v, a)
          | _ \<Rightarrow> (''OK'', ''OK'')))"

text \<open>The waiting handler takes what is in its channel: \<open>nil\<close> ends it; a peer must still be the other end of the
  active session, otherwise both are closed.\<close>

definition matches :: "relay \<Rightarrow> nat \<Rightarrow> nat \<Rightarrow> bool" where
  "matches r c p =
     (case rl_active r (k_device (rl_info r c)) of None \<Rightarrow> False
      | Some s \<Rightarrow> k_role (rl_info r c) = ''agent'' \<and> s_agent s = c \<and> s_viewer s = p
          \<or> k_role (rl_info r c) = ''viewer'' \<and> s_agent s = p \<and> s_viewer s = c)"

definition receive :: "nat \<Rightarrow> relay \<Rightarrow> relay" where
  "receive c r =
     (case rl_ready r c of [] \<Rightarrow> r
      | None # _ \<Rightarrow> return_closing c r
      | Some p # _ \<Rightarrow>
          if matches r c p then set_phase c (Proxying p) r
          else set_phase c Returned (r\<lparr>rl_closed := insert c (insert p (rl_closed r))\<rparr>))"

text \<open>\<open>relay.Proxy\<close> returns once a direction has ended and both connections are closed; the deferred section then
  frees the device if the session is still this one.\<close>

definition proxy_done :: "nat \<Rightarrow> relay \<Rightarrow> relay" where
  "proxy_done c r =
     (case rl_phase r c of
        Proxying p \<Rightarrow>
          let d = k_device (rl_info r c);
              r = set_phase c Returned (r\<lparr>rl_closed := insert c (insert p (rl_closed r))\<rparr>)
          in if matches r c p then r\<lparr>rl_active := (rl_active r)(d := None)\<rparr> else r
      | _ \<Rightarrow> r)"

definition disconnected :: "nat \<Rightarrow> relay \<Rightarrow> relay" where
  "disconnected c r =
     (let d = k_device (rl_info r c);
          r = (case rl_devices r d of None \<Rightarrow> r
               | Some w \<Rightarrow> if w_conn w = c then r\<lparr>rl_devices := (rl_devices r)(d := None)\<rparr> else r);
          r = (case rl_active r d of None \<Rightarrow> r
               | Some s \<Rightarrow> if s_agent s = c \<or> s_viewer s = c
                   then r\<lparr>rl_closed := insert (s_agent s) (insert (s_viewer s) (rl_closed r)), rl_active := (rl_active r)(d := None)\<rparr>
                   else r)
      in return_closing c r)"

definition ping_failed :: "nat \<Rightarrow> relay \<Rightarrow> relay" where
  "ping_failed c r =
     (let d = k_device (rl_info r c);
          r = (case rl_devices r d of None \<Rightarrow> r
               | Some w \<Rightarrow> if w_conn w = c then r\<lparr>rl_devices := (rl_devices r)(d := None)\<rparr> else r)
      in return_closing c r)"

section \<open>Ending sessions\<close>

text \<open>Both ways of an administrator or a user to end what a device is doing drop the waiting entry and the active
  session when they have the owner; the connections are closed after unlocking.\<close>

definition drop_waiting :: "string \<Rightarrow> string \<Rightarrow> relay \<Rightarrow> relay" where
  "drop_waiting owner d r =
     (case rl_devices r d of None \<Rightarrow> r
      | Some w \<Rightarrow> if w_owner w \<noteq> owner then r
          else r\<lparr>rl_devices := (rl_devices r)(d := None), rl_closing := rl_closing r @ [w_conn w],
            rl_ready := (rl_ready r)(w_conn w := rl_ready r (w_conn w) @ [None])\<rparr>)"

definition drop_active :: "string \<Rightarrow> string \<Rightarrow> relay \<Rightarrow> relay" where
  "drop_active owner d r =
     (case rl_active r d of None \<Rightarrow> r
      | Some s \<Rightarrow> if s_owner s \<noteq> owner then r
          else r\<lparr>rl_active := (rl_active r)(d := None), rl_closing := rl_closing r @ [s_agent s, s_viewer s]\<rparr>)"

definition disconnectDevice :: "string \<Rightarrow> string \<Rightarrow> relay \<Rightarrow> relay" where
  "disconnectDevice owner deviceID r = (let d = to_upper deviceID in drop_active owner d (drop_waiting owner d r))"

definition stop_control :: "string \<Rightarrow> device_control \<Rightarrow> device_control" where
  "stop_control reason c = c\<lparr>ctl_stopping := True, ctl_stop := (case ctl_stop c of None \<Rightarrow> Some reason | Some x \<Rightarrow> Some x)\<rparr>"

definition add_stop :: "string \<Rightarrow> string \<Rightarrow> relay \<Rightarrow> relay" where
  "add_stop d reason r = r\<lparr>rl_stops := (rl_stops r)(d \<mapsto> reason)\<rparr>"

definition mark_stopping :: "string \<Rightarrow> string \<Rightarrow> string \<Rightarrow> relay \<Rightarrow> relay" where
  "mark_stopping owner d reason r =
     (case rl_controls r d of None \<Rightarrow> r
      | Some c \<Rightarrow> if owner = ''device:'' @ d then r\<lparr>rl_controls := (rl_controls r)(d \<mapsto> stop_control reason c)\<rparr> else r)"

definition stop_if :: "bool \<Rightarrow> string \<Rightarrow> string \<Rightarrow> relay \<Rightarrow> relay" where
  "stop_if b d reason r = (if b then add_stop d reason r else r)"

text \<open>The section of \<open>terminateDevice\<close>. An agent that waits and has no management connection is told directly: the
  first result is its connection. The second says whether anything was found, the third lists the mappings whose
  hooks are to be closed.\<close>

definition terminate_section :: "string \<Rightarrow> string \<Rightarrow> string \<Rightarrow> relay \<Rightarrow> (nat option \<times> bool \<times> nat list) \<times> relay" where
  "terminate_section owner deviceID reason r =
     (let d = to_upper deviceID;
          no_ctl = (rl_controls r d = None);
          own = (owner = ''device:'' @ d);
          r = mark_stopping owner d reason r;
          w_hit = (case rl_devices r d of None \<Rightarrow> False | Some w \<Rightarrow> w_owner w = owner);
          direct = (case rl_devices r d of None \<Rightarrow> None
            | Some w \<Rightarrow> if w_owner w = owner \<and> w_role w = ''agent'' \<and> no_ctl then Some (w_conn w) else None);
          r = stop_if (direct \<noteq> None) d reason (drop_waiting owner d r);
          a_hit = (case rl_active r d of None \<Rightarrow> False | Some s \<Rightarrow> s_owner s = owner);
          r = drop_active owner d (stop_if (a_hit \<and> no_ctl) d reason r);
          late = (own \<and> no_ctl \<and> direct = None);
          r = stop_if late d reason r;
          removed = remove_device_maps d (rl_ports r)
      in ((direct, (\<not> no_ctl \<and> own) \<or> w_hit \<or> a_hit \<or> late, fst removed), r\<lparr>rl_ports := snd removed\<rparr>))"

text \<open>After unlocking: the hooks run, and an agent told directly needs no stop request any more.\<close>

definition terminate_after :: "bool \<Rightarrow> string \<Rightarrow> string \<Rightarrow> bool \<Rightarrow> nat option \<Rightarrow> nat list \<Rightarrow> relay \<Rightarrow> relay" where
  "terminate_after configured deviceID reason told direct gone r =
     (let r = r\<lparr>rl_ports := closePortMapHooks configured gone (rl_ports r)\<rparr>
      in case direct of None \<Rightarrow> r | Some c \<Rightarrow> if told then clearStopRequest deviceID reason r else r)"

definition terminateDevice ::
  "bool \<Rightarrow> string \<Rightarrow> string \<Rightarrow> string \<Rightarrow> bool \<Rightarrow> relay \<Rightarrow> bool \<times> relay"
where
  "terminateDevice configured owner deviceID reason told r =
     (case terminate_section owner deviceID reason r of ((direct, found, gone), r) \<Rightarrow>
        (found, terminate_after configured deviceID reason told direct gone r))"

section \<open>Management connections\<close>

definition ControlProof :: "string \<Rightarrow> bytes \<Rightarrow> bytes" where
  "ControlProof deviceID nonce = str_bytes (''yudesk-management-v1:'' @ deviceID @ '':'') @ nonce"

datatype ctl_reply = Ctl_none | Ctl_bad | Ctl_reply string bytes

datatype ctl_verdict =
    Ctl_silent
  | Ctl_stop string string
  | Ctl_error string acc_error
  | Ctl_ready string string

text \<open>\<open>handleControl\<close> up to the registration: the result carries the device's code and the drawn port-map session.\<close>

definition control_checks ::
  "primitives \<Rightarrow> (nat \<Rightarrow> acc_env) \<Rightarrow> relay_config \<Rightarrow> string \<Rightarrow> relay_hello \<Rightarrow> bytes option \<Rightarrow> ctl_reply \<Rightarrow> bytes option
     \<Rightarrow> db \<Rightarrow> ctl_verdict \<times> db"
where
  "control_checks pr e cfg remote h nonce rep tok db =
     (if \<not> rc_licences cfg then (Ctl_stop ''DENIED'' ''device management is unavailable'', db)
      else if length (rh_key h) \<noteq> 32 \<or> DeviceID pr (rh_key h) \<noteq> rh_id h then (Ctl_stop ''DENIED'' ''invalid device identity'', db)
      else case nonce of None \<Rightarrow> (Ctl_silent, db)
      | Some n \<Rightarrow>
        if rep = Ctl_none then (Ctl_silent, db)
        else if (case rep of Ctl_reply t sig \<Rightarrow> t \<noteq> ''proof'' \<or> \<not> ed_verify pr (rh_key h) (ControlProof (rh_id h) n) sig | _ \<Rightarrow> True)
        then (Ctl_stop ''DENIED'' ''device identity authentication failed'', db)
        else (case RegisterLicensedDeviceNamed (e 0) (rh_id h) (rh_key h) (rh_name h) db of
            (Inl err, db) \<Rightarrow> (Ctl_error ''DISABLED'' err, db)
          | (Inr _, db) \<Rightarrow>
            (case EnsureDeviceCode (e 1) (rh_id h) db of
               (Inl _, db) \<Rightarrow> (Ctl_stop ''DENIED'' ''cannot assign device code'', db)
             | (Inr code, db) \<Rightarrow>
               (case (if rh_pin h = [] then (Inr (), db) else UpdateLicensedDevicePIN (e 2) (rh_id h) (rh_pin h) db) of
                  (Inl _, db) \<Rightarrow> (Ctl_stop ''DENIED'' ''invalid pairing PIN'', db)
                | (Inr _, db) \<Rightarrow>
                  (case ensureAutomaticDeviceLicense (e 3) (e 4) (rc_auto cfg) (rh_id h) remote db of
                     (Inl _, db) \<Rightarrow> (Ctl_stop ''DENIED'' ''automatic device activation failed'', db)
                   | (Inr _, db) \<Rightarrow>
                     (case tok of None \<Rightarrow> (Ctl_stop ''DENIED'' ''cannot create device management session'', db)
                      | Some t \<Rightarrow> (Ctl_ready code (randomURLToken t), db)))))))"

text \<open>Registration: a stopping predecessor refuses, a running one is replaced and leaves its session.\<close>

definition control_register :: "nat \<Rightarrow> string \<Rightarrow> string \<Rightarrow> int \<Rightarrow> string \<Rightarrow> relay \<Rightarrow> bool \<times> relay" where
  "control_register c d pin seen tok r =
     (let new = \<lparr>ctl_conn = c, ctl_stop = None, ctl_stopping = False, ctl_seen = seen, ctl_pin = pin, ctl_session = tok, ctl_result = None\<rparr> in
      case rl_controls r d of
        None \<Rightarrow> (True, r\<lparr>rl_controls := (rl_controls r)(d \<mapsto> new)\<rparr>)
      | Some old \<Rightarrow>
          if ctl_stopping old then (False, r)
          else (True, r\<lparr>rl_controls := (rl_controls r)(d \<mapsto> new\<lparr>ctl_session := ctl_session old\<rparr>), rl_closing := rl_closing r @ [ctl_conn old]\<rparr>))"

text \<open>The deferred section when the handler of \<open>c\<close> ends: only the current management connection of the device
  cleans up. The result lists the mappings whose hooks are then closed. The section also removes the meeting of the
  device, which acts on the directory of meetings alone: \<open>removeMeeting\<close> of theory \<open>Conference\<close>, where the end of a
  management connection is the event \<open>Control_gone\<close>.\<close>

definition control_end :: "nat \<Rightarrow> string \<Rightarrow> relay \<Rightarrow> nat list \<times> relay" where
  "control_end c d r =
     (case rl_controls r d of None \<Rightarrow> ([], r)
      | Some ctl \<Rightarrow>
        if ctl_conn ctl \<noteq> c then ([], r)
        else
          let r = r\<lparr>rl_controls := (rl_controls r)(d := None)\<rparr>;
              r = drop_active (''device:'' @ d) d (drop_waiting (''device:'' @ d) d r);
              (gone, ps) = remove_device_maps d (rl_ports r)
          in (gone, r\<lparr>rl_ports := ps\<rparr>))"

text \<open>A heartbeat of the device: \<open>False\<close> ends the reader. \<open>e\<close> and \<open>e'\<close> are the environments of the two calls to the
  store, \<open>result\<close> is what \<open>processPortMapCommand\<close> of theory \<open>PortMap\<close> answers to the command of the heartbeat, if it has
  one; it is put where the status loop takes it. \<open>persisted\<close> is when the last heartbeat was written to the store.\<close>

definition pong_saved :: "acc_env \<Rightarrow> nanos \<Rightarrow> string \<Rightarrow> nanos option \<Rightarrow> db \<Rightarrow> nanos option \<times> db" where
  "pong_saved e' now d persisted db =
     (if (case persisted of None \<Rightarrow> True | Some t \<Rightarrow> now - t \<ge> 15 * 1000000000) then
        (case TouchLicensedDevice e' d (Some now) db of
           (Inl _, db) \<Rightarrow> (persisted, db)
         | (Inr _, db) \<Rightarrow> (Some now, db))
      else (persisted, db))"

definition control_pong ::
  "acc_env \<Rightarrow> acc_env \<Rightarrow> nanos \<Rightarrow> string \<Rightarrow> string \<Rightarrow> string \<Rightarrow> (string \<times> pm_answer) option \<Rightarrow> nanos option \<Rightarrow> db
     \<Rightarrow> device_control \<Rightarrow> bool \<times> nanos option \<times> db \<times> device_control"
where
  "control_pong e e' now d type pin result persisted db c =
     (if type \<noteq> ''pong'' then (False, persisted, db, c)
      else
        let c = c\<lparr>ctl_seen := unix now\<rparr>;
            rest = (\<lambda>db c. case pong_saved e' now d persisted db of (persisted, db) \<Rightarrow>
              (True, persisted, db, case result of None \<Rightarrow> c | Some x \<Rightarrow> setPortMapResult x c))
        in if pin \<noteq> [] \<and> pin \<noteq> ctl_pin c then
             (case UpdateLicensedDevicePIN e d pin db of
                (Inl _, db) \<Rightarrow> (False, persisted, db, c)
              | (Inr _, db) \<Rightarrow> rest db (c\<lparr>ctl_pin := pin\<rparr>))
           else rest db c)"

text \<open>One round of the status loop: stop the client, or send the status. \<open>was_active\<close> is carried along.\<close>

datatype tick = Tick_stop string | Tick_status bool "int option"

definition control_tick :: "acc_env \<Rightarrow> nanos \<Rightarrow> string \<Rightarrow> bool \<Rightarrow> db \<Rightarrow> tick \<times> bool" where
  "control_tick e now d was_active db =
     (case DeviceLicenseExpiry e 0 d db of Inl _ \<Rightarrow> (Tick_stop ''DISABLED'', was_active)
      | Inr expiry \<Rightarrow>
        let active = runs_after expiry now in
        if \<not> active \<and> (was_active \<or> expiry \<noteq> None) then (Tick_stop ''EXPIRED'', was_active)
        else (Tick_status active expiry, was_active \<or> active))"

section \<open>Status\<close>

text \<open>Online, connected and ready, as the public device status and the counters of the home page see them.\<close>

definition device_status :: "string \<Rightarrow> relay \<Rightarrow> bool \<times> bool \<times> bool" where
  "device_status d r =
     (let connected = (rl_active r d \<noteq> None);
          agent_waits = (case rl_devices r d of None \<Rightarrow> False | Some w \<Rightarrow> w_role w = ''agent'');
          ctl_online = (case rl_controls r d of None \<Rightarrow> False | Some c \<Rightarrow> \<not> ctl_stopping c);
          ctl_free = (case rl_controls r d of None \<Rightarrow> True | Some c \<Rightarrow> \<not> ctl_stopping c)
      in (connected \<or> agent_waits \<or> ctl_online, connected, agent_waits \<and> \<not> connected \<and> ctl_free))"

section \<open>Login attempts\<close>

record attempt_window =
  at_count :: nat
  at_reset :: nanos

type_synonym login_limiter = "(string \<times> attempt_window) list"

definition login_allow :: "string \<Rightarrow> nanos \<Rightarrow> login_limiter \<Rightarrow> bool \<times> login_limiter" where
  "login_allow key now l =
     (case map_of l key of None \<Rightarrow> (True, AList.delete key l)
      | Some v \<Rightarrow> if now > at_reset v then (True, AList.delete key l) else (at_count v < 5, l))"

definition login_failure :: "string \<Rightarrow> nanos \<Rightarrow> login_limiter \<Rightarrow> login_limiter" where
  "login_failure key now l =
     (let fresh = \<lparr>at_count = 0, at_reset = now + 15 * 60000000000\<rparr>;
          v = (case map_of l key of None \<Rightarrow> fresh | Some v \<Rightarrow> if now > at_reset v then fresh else v)
      in AList.update key (v\<lparr>at_count := at_count v + 1\<rparr>) l)"

definition login_success :: "string \<Rightarrow> login_limiter \<Rightarrow> login_limiter" where
  "login_success key l = AList.delete key l"

section \<open>Events\<close>

datatype relay_event =
    Arrive nat conn_info
  | Round nat string
  | Send nat
  | Close nat
  | Receive nat
  | Proxy_done nat
  | Disconnected nat
  | Ping_failed nat
  | Terminate string string string
  | Terminate_after bool string string bool "nat option" "nat list"
  | Disconnect string string
  | Take_stop string
  | Control_in nat string string int string
  | Control_out nat string
  | Port_event port_event

text \<open>A connection arrives once, after its admission. Rounds, receiving and the rest happen only in the phase in
  which the code does them. Any pending send or close may be carried out at any time; the
  port-map sections act on their part of the state.\<close>

fun relay_step :: "relay \<Rightarrow> relay_event \<Rightarrow> relay" where
  "relay_step r (Arrive c info) =
     (if rl_phase r c = Unknown \<and> k_role info \<in> {''agent'', ''viewer''}
      then set_phase c Pairing (r\<lparr>rl_info := (rl_info r)(c := info)\<rparr>) else r)"
| "relay_step r (Round c sid) = (if rl_phase r c = Pairing then snd (attach c sid r) else r)"
| "relay_step r (Send k) =
     (if k < length (rl_sends r) then
        (case rl_sends r ! k of (w, x) \<Rightarrow>
           r\<lparr>rl_sends := take k (rl_sends r) @ drop (Suc k) (rl_sends r), rl_ready := (rl_ready r)(w := rl_ready r w @ [x])\<rparr>)
      else r)"
| "relay_step r (Close c) =
     (if c \<in> set (rl_closing r) then r\<lparr>rl_closing := remove1 c (rl_closing r), rl_closed := insert c (rl_closed r)\<rparr> else r)"
| "relay_step r (Receive c) = (if rl_phase r c = Waiting then receive c r else r)"
| "relay_step r (Proxy_done c) = proxy_done c r"
| "relay_step r (Disconnected c) = (if rl_phase r c = Waiting then disconnected c r else r)"
| "relay_step r (Ping_failed c) = (if rl_phase r c = Waiting then ping_failed c r else r)"
| "relay_step r (Terminate owner d reason) = snd (terminate_section owner d reason r)"
| "relay_step r (Terminate_after configured d reason told direct gone) = terminate_after configured d reason told direct gone r"
| "relay_step r (Disconnect owner d) = disconnectDevice owner d r"
| "relay_step r (Take_stop d) = snd (takeStopRequest d r)"
| "relay_step r (Control_in c d pin seen tok) = snd (control_register c d pin seen tok r)"
| "relay_step r (Control_out c d) = snd (control_end c d r)"
| "relay_step r (Port_event ev) = r\<lparr>rl_ports := port_step (rl_ports r) ev\<rparr>"

end
