(* ===== verification/Relay_Props.thy ===== *)
theory Relay_Props
  imports Relay PortMap_Props Account_Licences
begin

text \<open>
  The invariant of the pairing and what it gives, for all interleavings of the handlers: sessions join an agent
  and a viewer of one device and one owner, the one-place channels never block a sender, and at most one session
  of a device forwards bytes. Then what an administrator's stop achieves, who is admitted, and one interleaving
  that leaves a device busy.
\<close>

section \<open>The invariant\<close>

definition wait_ok :: "relay \<Rightarrow> bool" where
  "wait_ok r \<longleftrightarrow> (\<forall>d w. rl_devices r d = Some w \<longrightarrow> rl_active r d = None \<and> rl_phase r (w_conn w) = Waiting
     \<and> rl_info r (w_conn w) = \<lparr>k_device = d, k_role = w_role w, k_owner = w_owner w, k_v2 = w_v2 w\<rparr>
     \<and> rl_ready r (w_conn w) = [] \<and> w_conn w \<notin> fst ` set (rl_sends r))"

definition end_ok :: "relay \<Rightarrow> string \<Rightarrow> string \<Rightarrow> string \<Rightarrow> nat \<Rightarrow> bool" where
  "end_ok r d owner role c \<longleftrightarrow> rl_phase r c \<noteq> Unknown \<and> k_device (rl_info r c) = d \<and> k_role (rl_info r c) = role
     \<and> k_owner (rl_info r c) = owner"

definition active_ok :: "relay \<Rightarrow> bool" where
  "active_ok r \<longleftrightarrow> (\<forall>d s. rl_active r d = Some s \<longrightarrow>
     end_ok r d (s_owner s) ''agent'' (s_agent s) \<and> end_ok r d (s_owner s) ''viewer'' (s_viewer s))"

definition chan_ok :: "relay \<Rightarrow> bool" where
  "chan_ok r \<longleftrightarrow> (\<forall>c. length (rl_ready r c) + length (filter (\<lambda>x. fst x = c) (rl_sends r)) \<le> 1
     \<and> (rl_ready r c \<noteq> [] \<or> c \<in> fst ` set (rl_sends r) \<longrightarrow> rl_phase r c \<notin> {Unknown, Pairing, Handed_over}))"

definition peer_ok :: "relay \<Rightarrow> bool" where
  "peer_ok r \<longleftrightarrow> (\<forall>c p. Some p \<in> set (rl_ready r c) \<or> (c, Some p) \<in> set (rl_sends r) \<or> rl_phase r c = Proxying p
     \<longrightarrow> rl_phase r p = Handed_over)"

definition proxy_ok :: "relay \<Rightarrow> bool" where
  "proxy_ok r \<longleftrightarrow> (\<forall>c p. rl_phase r c = Proxying p \<longrightarrow>
     matches r c p \<or> (c \<in> set (rl_closing r) \<union> rl_closed r \<and> p \<in> set (rl_closing r) \<union> rl_closed r))"

definition role_ok :: "relay \<Rightarrow> bool" where
  "role_ok r \<longleftrightarrow> (\<forall>c. rl_phase r c \<noteq> Unknown \<longrightarrow> k_role (rl_info r c) \<in> {''agent'', ''viewer''})"

definition relay_inv :: "relay \<Rightarrow> bool" where
  "relay_inv r \<longleftrightarrow> wait_ok r \<and> active_ok r \<and> chan_ok r \<and> peer_ok r \<and> proxy_ok r \<and> role_ok r"

lemmas relay_invs = relay_inv_def wait_ok_def active_ok_def chan_ok_def peer_ok_def proxy_ok_def role_ok_def end_ok_def

lemma start_relay: "relay_inv new_relay"
  by (simp add: relay_invs new_relay_def)

text \<open>The other parts of the state do not matter.\<close>

lemma matches_frame [simp]:
  "matches (r\<lparr>rl_ports := ps\<rparr>) c p = matches r c p" "matches (r\<lparr>rl_controls := cs\<rparr>) c p = matches r c p"
  "matches (r\<lparr>rl_stops := st\<rparr>) c p = matches r c p" "matches (r\<lparr>rl_ready := x\<rparr>) c p = matches r c p"
  "matches (r\<lparr>rl_sends := y\<rparr>) c p = matches r c p" "matches (r\<lparr>rl_closing := z\<rparr>) c p = matches r c p"
  "matches (r\<lparr>rl_closed := cl\<rparr>) c p = matches r c p" "matches (r\<lparr>rl_phase := ph\<rparr>) c p = matches r c p"
  "matches (r\<lparr>rl_devices := dv\<rparr>) c p = matches r c p" "matches (set_phase i q r) c p = matches r c p"
  by (simp_all add: matches_def set_phase_def split: option.split)

lemma inv_frame [simp]:
  "relay_inv (r\<lparr>rl_ports := ps\<rparr>) = relay_inv r" "relay_inv (r\<lparr>rl_controls := cs\<rparr>) = relay_inv r"
  "relay_inv (r\<lparr>rl_stops := st\<rparr>) = relay_inv r"
  by (simp_all add: relay_invs)

text \<open>Closing more connections is harmless.\<close>

lemma inv_close:
  assumes inv: "relay_inv r" and more: "set (rl_closing r) \<union> rl_closed r \<subseteq> set cg \<union> cd"
  shows "relay_inv (r\<lparr>rl_closing := cg, rl_closed := cd\<rparr>)" (is "relay_inv ?r")
  unfolding relay_inv_def
proof (intro conjI)
  show "wait_ok ?r" using inv by (simp add: relay_inv_def wait_ok_def)
  show "active_ok ?r" using inv by (simp add: relay_inv_def active_ok_def end_ok_def)
  show "chan_ok ?r" using inv by (simp add: relay_inv_def chan_ok_def)
  show "peer_ok ?r" using inv by (simp add: relay_inv_def peer_ok_def)
  show "proxy_ok ?r" using inv more unfolding relay_inv_def proxy_ok_def by simp blast
  show "role_ok ?r" using inv by (simp add: relay_inv_def role_ok_def)
qed

text \<open>Dropping an entry that waits.\<close>

lemma inv_drop_device: "relay_inv r \<Longrightarrow> relay_inv (r\<lparr>rl_devices := (rl_devices r)(d := None)\<rparr>)"
  by (simp add: relay_invs)

text \<open>A waiting handler returns, or a peer joins it: its phase moves on.\<close>

lemma inv_return:
  assumes inv: "relay_inv r" and free: "\<forall>d w. rl_devices r d = Some w \<longrightarrow> w_conn w \<noteq> c"
    and ph: "rl_phase r c \<noteq> Unknown" "rl_phase r c \<noteq> Handed_over"
  shows "relay_inv (set_phase c Returned r)"
  unfolding relay_inv_def
proof (intro conjI)
  show "wait_ok (set_phase c Returned r)" using inv free by (auto simp: relay_inv_def wait_ok_def set_phase_def)
  show "active_ok (set_phase c Returned r)" using inv by (auto simp: relay_inv_def active_ok_def end_ok_def set_phase_def)
  show "chan_ok (set_phase c Returned r)" using inv by (auto simp: relay_inv_def chan_ok_def set_phase_def)
  show "peer_ok (set_phase c Returned r)" using inv ph(2) unfolding relay_inv_def peer_ok_def set_phase_def by auto
  show "proxy_ok (set_phase c Returned r)" using inv by (auto simp: relay_inv_def proxy_ok_def set_phase_def)
  show "role_ok (set_phase c Returned r)" using inv ph(1) by (auto simp: relay_inv_def role_ok_def set_phase_def)
qed

lemma inv_return_closing:
  assumes "relay_inv r" "\<forall>d w. rl_devices r d = Some w \<longrightarrow> w_conn w \<noteq> c" "rl_phase r c \<noteq> Unknown" "rl_phase r c \<noteq> Handed_over"
  shows "relay_inv (return_closing c r)"
proof -
  have "relay_inv (r\<lparr>rl_closing := rl_closing r, rl_closed := insert c (rl_closed r)\<rparr>)" using assms(1) by (rule inv_close) auto
  then have "relay_inv (r\<lparr>rl_closed := insert c (rl_closed r)\<rparr>)" by simp
  then show ?thesis unfolding return_closing_def by (rule inv_return) (use assms in simp_all)
qed

lemma one_place: "relay_inv r \<Longrightarrow> rl_devices r d = Some w \<Longrightarrow> rl_devices r e = Some x \<Longrightarrow> w_conn w = w_conn x \<Longrightarrow> d = e"
  unfolding relay_inv_def wait_ok_def by (metis conn_info.select_convs(1))

lemma drop_waiting_keeps [keeps]: "relay_inv r \<Longrightarrow> relay_inv (drop_waiting owner d r)"
proof (cases "rl_devices r d")
  case (Some w)
  assume inv: "relay_inv r"
  show ?thesis
  proof (cases "w_owner w = owner")
    case True
    have w: "rl_phase r (w_conn w) = Waiting" "rl_ready r (w_conn w) = []" "w_conn w \<notin> fst ` set (rl_sends r)"
      "k_device (rl_info r (w_conn w)) = d"
      using inv Some by (simp_all add: relay_inv_def wait_ok_def)
    let ?r = "r\<lparr>rl_devices := (rl_devices r)(d := None), rl_closing := rl_closing r @ [w_conn w],
        rl_ready := (rl_ready r)(w_conn w := rl_ready r (w_conn w) @ [None])\<rparr>"
    have none: "filter (\<lambda>x. fst x = w_conn w) (rl_sends r) = []" using w(3) by (force simp: filter_empty_conv)
    have "relay_inv ?r" unfolding relay_inv_def
    proof (intro conjI)
      have "w_conn x \<noteq> w_conn w" if "rl_devices r e = Some x" "e \<noteq> d" for e x using one_place[OF inv that(1) Some] that(2) by blast
      then show "wait_ok ?r" using inv by (auto simp: relay_inv_def wait_ok_def)
      show "active_ok ?r" using inv by (simp add: relay_inv_def active_ok_def end_ok_def)
      show "chan_ok ?r" using inv w none by (auto simp: relay_inv_def chan_ok_def)
      show "peer_ok ?r" using inv w(2) by (auto simp: relay_inv_def peer_ok_def)
      show "proxy_ok ?r" using inv by (auto simp: relay_inv_def proxy_ok_def)
      show "role_ok ?r" using inv by (simp add: relay_inv_def role_ok_def)
    qed
    then show ?thesis using Some True by (simp add: drop_waiting_def)
  qed (simp add: drop_waiting_def Some inv)
qed (simp add: drop_waiting_def)

text \<open>An active session ends, and both its connections are closed or about to be.\<close>

lemma inv_end_session:
  assumes inv: "relay_inv r" and s: "rl_active r d = Some s"
    and both: "set (rl_closing r) \<union> rl_closed r \<union> {s_agent s, s_viewer s} \<subseteq> set cg \<union> cd"
  shows "relay_inv (r\<lparr>rl_active := (rl_active r)(d := None), rl_closing := cg, rl_closed := cd\<rparr>)" (is "relay_inv ?r")
  unfolding relay_inv_def
proof (intro conjI)
  show "wait_ok ?r" using inv by (auto simp: relay_inv_def wait_ok_def)
  show "active_ok ?r" using inv by (auto simp: relay_inv_def active_ok_def end_ok_def)
  show "chan_ok ?r" using inv by (simp add: relay_inv_def chan_ok_def)
  show "peer_ok ?r" using inv by (simp add: relay_inv_def peer_ok_def)
  show "role_ok ?r" using inv by (simp add: relay_inv_def role_ok_def)
  show "proxy_ok ?r" unfolding proxy_ok_def
  proof (intro allI impI)
    fix c p assume "rl_phase ?r c = Proxying p"
    then have old: "matches r c p \<or> (c \<in> set (rl_closing r) \<union> rl_closed r \<and> p \<in> set (rl_closing r) \<union> rl_closed r)"
      using inv by (simp add: relay_inv_def proxy_ok_def)
    show "matches ?r c p \<or> (c \<in> set (rl_closing ?r) \<union> rl_closed ?r \<and> p \<in> set (rl_closing ?r) \<union> rl_closed ?r)"
    proof (cases "k_device (rl_info r c) = d")
      case True
      then show ?thesis using old s both by (auto simp: matches_def)
    next
      case False
      then have "matches ?r c p = matches r c p" by (simp add: matches_def split: option.split)
      then show ?thesis using old both by auto
    qed
  qed
qed

lemma inv_forget_session:
  "relay_inv r \<Longrightarrow> rl_active r d = Some s \<Longrightarrow> {s_agent s, s_viewer s} \<subseteq> set (rl_closing r) \<union> rl_closed r
     \<Longrightarrow> relay_inv (r\<lparr>rl_active := (rl_active r)(d := None)\<rparr>)"
  using inv_end_session[of r d s "rl_closing r" "rl_closed r"] by simp

lemma inv_closed: "relay_inv r \<Longrightarrow> rl_closed r \<subseteq> cd \<Longrightarrow> relay_inv (r\<lparr>rl_closed := cd\<rparr>)"
  using inv_close[of r "rl_closing r" cd] by fastforce

lemma drop_active_keeps [keeps]: "relay_inv r \<Longrightarrow> relay_inv (drop_active owner d r)"
proof (cases "rl_active r d")
  case (Some s)
  assume "relay_inv r"
  then have "relay_inv (r\<lparr>rl_active := (rl_active r)(d := None), rl_closing := rl_closing r @ [s_agent s, s_viewer s], rl_closed := rl_closed r\<rparr>)"
    by (rule inv_end_session[OF _ Some]) auto
  then show ?thesis using Some \<open>relay_inv r\<close> by (simp add: drop_active_def)
qed (simp add: drop_active_def)

lemma admin_keeps [keeps]:
  "relay_inv r \<Longrightarrow> relay_inv (disconnectDevice owner d r)"
  "relay_inv r \<Longrightarrow> relay_inv (snd (control_register c d pin seen tok r))"
  "relay_inv r \<Longrightarrow> relay_inv (snd (control_end c d r))"
  "relay_inv r \<Longrightarrow> relay_inv (terminate_after configured d reason told direct gone r)"
  "relay_inv r \<Longrightarrow> relay_inv (snd (takeStopRequest d r))"
proof -
  show "relay_inv r \<Longrightarrow> relay_inv (disconnectDevice owner d r)" by (simp add: disconnectDevice_def Let_def keeps)
  show "relay_inv r \<Longrightarrow> relay_inv (snd (control_end c d r))"
    by (simp add: control_end_def Let_def keeps split: option.split prod.split)
  show "relay_inv r \<Longrightarrow> relay_inv (terminate_after configured d reason told direct gone r)"
    by (simp add: terminate_after_def clearStopRequest_def Let_def split: option.split)
  show "relay_inv r \<Longrightarrow> relay_inv (snd (takeStopRequest d r))" by (simp add: takeStopRequest_def Let_def)
  assume inv: "relay_inv r"
  have "relay_inv (r\<lparr>rl_closing := rl_closing r @ [x], rl_closed := rl_closed r\<rparr>)" for x using inv by (rule inv_close) auto
  then have "relay_inv (r\<lparr>rl_controls := cs, rl_closing := rl_closing r @ [x]\<rparr>)" for x cs by (simp add: relay_invs)
  then show "relay_inv (snd (control_register c d pin seen tok r))"
    using inv by (simp add: control_register_def Let_def split: option.split)
qed

lemma stop_keeps [keeps]:
  "relay_inv r \<Longrightarrow> relay_inv (stop_if b d reason r)" "relay_inv r \<Longrightarrow> relay_inv (mark_stopping owner d reason r)"
  by (simp_all add: stop_if_def add_stop_def mark_stopping_def split: option.split)

lemma terminate_keeps [keeps]: "relay_inv r \<Longrightarrow> relay_inv (snd (terminate_section owner d reason r))"
  by (simp add: terminate_section_def Let_def keeps)

section \<open>Handlers\<close>

lemma arrive_keeps [keeps]:
  assumes inv: "relay_inv r" and c: "rl_phase r c = Unknown" and role: "k_role info = ''agent'' \<or> k_role info = ''viewer''"
  shows "relay_inv (set_phase c Pairing (r\<lparr>rl_info := (rl_info r)(c := info)\<rparr>))" (is "relay_inv ?r")
  unfolding relay_inv_def
proof (intro conjI)
  have wait: "w_conn w \<noteq> c" if "rl_devices r d = Some w" for d w
    using that inv c by (metis relay_inv_def wait_ok_def phase.distinct(3))
  show "wait_ok ?r" using inv wait by (auto simp: relay_inv_def wait_ok_def set_phase_def)
  show "active_ok ?r" using inv c by (auto simp: relay_inv_def active_ok_def end_ok_def set_phase_def)
  show "chan_ok ?r" using inv c by (auto simp: relay_inv_def chan_ok_def set_phase_def)
  show "peer_ok ?r" using inv c by (fastforce simp: relay_inv_def peer_ok_def set_phase_def)
  have "matches ?r i p = matches r i p" if "i \<noteq> c" for i p using that by (simp add: matches_def set_phase_def split: option.split)
  then show "proxy_ok ?r" using inv by (auto simp: relay_inv_def proxy_ok_def set_phase_def)
  show "role_ok ?r" using inv role by (auto simp: relay_inv_def role_ok_def set_phase_def)
qed

lemma send_keeps:
  assumes inv: "relay_inv r" and k: "k < length (rl_sends r)" and x: "rl_sends r ! k = (w, x)"
  shows "relay_inv (r\<lparr>rl_sends := take k (rl_sends r) @ drop (Suc k) (rl_sends r), rl_ready := (rl_ready r)(w := rl_ready r w @ [x])\<rparr>)"
    (is "relay_inv ?r")
  unfolding relay_inv_def
proof (intro conjI)
  have split: "rl_sends r = take k (rl_sends r) @ (w, x) # drop (Suc k) (rl_sends r)" using id_take_nth_drop[OF k] x by simp
  have sub: "set (rl_sends ?r) \<subseteq> set (rl_sends r)" by (auto dest: in_set_takeD in_set_dropD)
  have mem: "(w, x) \<in> set (rl_sends r)" using nth_mem[OF k] x by simp
  have cnt: "length (filter P (rl_sends r)) = length (filter P (rl_sends ?r)) + (if P (w, x) then 1 else 0)" for P
    by (subst split) simp
  have "w_conn y \<noteq> w" if "rl_devices r e = Some y" for e y using that inv mem unfolding relay_inv_def wait_ok_def by force
  moreover have "fst ` set (rl_sends ?r) \<subseteq> fst ` set (rl_sends r)" using sub by blast
  ultimately show "wait_ok ?r" using inv unfolding relay_inv_def wait_ok_def by simp blast
  show "active_ok ?r" using inv by (simp add: relay_inv_def active_ok_def end_ok_def)
  show "chan_ok ?r" unfolding chan_ok_def
  proof
    fix c
    have old: "length (rl_ready r c) + length (filter (\<lambda>x. fst x = c) (rl_sends r)) \<le> 1"
      "rl_ready r c \<noteq> [] \<or> c \<in> fst ` set (rl_sends r) \<longrightarrow> rl_phase r c \<notin> {Unknown, Pairing, Handed_over}"
      using inv unfolding relay_inv_def chan_ok_def by blast+
    have "length (rl_ready ?r c) + length (filter (\<lambda>x. fst x = c) (rl_sends ?r)) \<le> 1"
      using old(1) cnt[of "\<lambda>x. fst x = c"] by auto
    moreover have "rl_ready ?r c \<noteq> [] \<or> c \<in> fst ` set (rl_sends ?r) \<longrightarrow> rl_phase ?r c \<notin> {Unknown, Pairing, Handed_over}"
      using old(2) sub mem by (cases "c = w") force+
    ultimately show "length (rl_ready ?r c) + length (filter (\<lambda>x. fst x = c) (rl_sends ?r)) \<le> 1
        \<and> (rl_ready ?r c \<noteq> [] \<or> c \<in> fst ` set (rl_sends ?r) \<longrightarrow> rl_phase ?r c \<notin> {Unknown, Pairing, Handed_over})" by blast
  qed
  show "peer_ok ?r" using inv sub mem unfolding relay_inv_def peer_ok_def by (auto split: if_splits)
  show "proxy_ok ?r" using inv by (simp add: relay_inv_def proxy_ok_def)
  show "role_ok ?r" using inv by (simp add: relay_inv_def role_ok_def)
qed

text \<open>A waiting connection enters the map.\<close>

lemma wait_keeps:
  assumes inv: "relay_inv r" and c: "rl_phase r c = Pairing" and d: "d = k_device (rl_info r c)"
    and free: "rl_active r d = None"
  shows "relay_inv (set_phase c Waiting (r\<lparr>rl_devices := (rl_devices r)(d \<mapsto> \<lparr>w_conn = c, w_role = k_role (rl_info r c),
    w_owner = k_owner (rl_info r c), w_v2 = k_v2 (rl_info r c)\<rparr>)\<rparr>))" (is "relay_inv ?r")
  unfolding relay_inv_def
proof (intro conjI)
  have wait: "w_conn w \<noteq> c" if "rl_devices r e = Some w" for e w
    using that inv c by (metis relay_inv_def wait_ok_def phase.distinct(11))
  have chan: "rl_ready r c = []" "c \<notin> fst ` set (rl_sends r)" using inv c by (auto simp: relay_inv_def chan_ok_def)
  have i: "\<lparr>k_device = d, k_role = k_role (rl_info r c), k_owner = k_owner (rl_info r c), k_v2 = k_v2 (rl_info r c)\<rparr> = rl_info r c"
    by (simp add: d)
  show "wait_ok ?r" using inv wait chan free i unfolding relay_inv_def wait_ok_def set_phase_def by auto
  show "active_ok ?r" using inv by (auto simp: relay_inv_def active_ok_def end_ok_def set_phase_def)
  show "chan_ok ?r" using inv by (auto simp: relay_inv_def chan_ok_def set_phase_def)
  show "peer_ok ?r" using inv c by (fastforce simp: relay_inv_def peer_ok_def set_phase_def)
  show "proxy_ok ?r" using inv unfolding set_phase_def by (auto simp: relay_inv_def proxy_ok_def)
  show "role_ok ?r" using inv c by (auto simp: relay_inv_def role_ok_def set_phase_def)
qed

text \<open>A second connection of the same role replaces the one that waits.\<close>

lemma replace_keeps:
  assumes inv: "relay_inv r" and old: "rl_devices r d = Some old"
  shows "relay_inv (r\<lparr>rl_devices := (rl_devices r)(d := None), rl_closing := rl_closing r @ [w_conn old],
    rl_sends := rl_sends r @ [(w_conn old, None)]\<rparr>)" (is "relay_inv ?r")
  unfolding relay_inv_def
proof (intro conjI)
  have w: "rl_phase r (w_conn old) = Waiting" "rl_ready r (w_conn old) = []" "w_conn old \<notin> fst ` set (rl_sends r)"
    using inv old by (simp_all add: relay_inv_def wait_ok_def)
  have none: "filter (\<lambda>x. fst x = w_conn old) (rl_sends r) = []" using w(3) by (force simp: filter_empty_conv)
  have "w_conn y \<noteq> w_conn old" if "rl_devices r e = Some y" "e \<noteq> d" for e y using one_place[OF inv that(1) old] that(2) by blast
  then show "wait_ok ?r" using inv by (auto simp: relay_inv_def wait_ok_def)
  show "active_ok ?r" using inv by (simp add: relay_inv_def active_ok_def end_ok_def)
  show "chan_ok ?r" using inv w none by (auto simp: relay_inv_def chan_ok_def)
  show "peer_ok ?r" using inv by (auto simp: relay_inv_def peer_ok_def)
  show "proxy_ok ?r" using inv by (auto simp: relay_inv_def proxy_ok_def)
  show "role_ok ?r" using inv by (simp add: relay_inv_def role_ok_def)
qed

text \<open>The other end arrives.\<close>

lemma pair_keeps:
  assumes inv: "relay_inv r" and c: "rl_phase r c = Pairing" and d: "d = k_device (rl_info r c)"
    and free: "rl_active r d = None" and old: "rl_devices r d = Some old"
    and role: "w_role old \<noteq> k_role (rl_info r c)" and owner: "w_owner old = k_owner (rl_info r c)"
    and s: "s = (if k_role (rl_info r c) = ''agent'' then \<lparr>s_agent = c, s_viewer = w_conn old, s_owner = k_owner (rl_info r c), s_id = sid\<rparr>
      else \<lparr>s_agent = w_conn old, s_viewer = c, s_owner = k_owner (rl_info r c), s_id = sid\<rparr>)"
  shows "relay_inv (set_phase c Handed_over (r\<lparr>rl_devices := (rl_devices r)(d := None), rl_active := (rl_active r)(d \<mapsto> s),
    rl_sends := rl_sends r @ [(w_conn old, Some c)]\<rparr>))" (is "relay_inv ?r")
  unfolding relay_inv_def
proof (intro conjI)
  have w: "rl_phase r (w_conn old) = Waiting" "rl_ready r (w_conn old) = []" "w_conn old \<notin> fst ` set (rl_sends r)"
    "k_device (rl_info r (w_conn old)) = d" "k_role (rl_info r (w_conn old)) = w_role old" "k_owner (rl_info r (w_conn old)) = w_owner old"
    using inv old by (simp_all add: relay_inv_def wait_ok_def)
  have ne: "w_conn old \<noteq> c" using w(1) c by auto
  have chan: "rl_ready r c = []" "c \<notin> fst ` set (rl_sends r)" using inv c by (auto simp: relay_inv_def chan_ok_def)
  have none: "filter (\<lambda>x. fst x = w_conn old) (rl_sends r) = []" "filter (\<lambda>x. fst x = c) (rl_sends r) = []"
    using w(3) chan(2) by (force simp: filter_empty_conv)+
  have roles: "k_role (rl_info r c) \<in> {''agent'', ''viewer''}" "w_role old \<in> {''agent'', ''viewer''}"
    using inv c w(1,5) by (auto simp: relay_inv_def role_ok_def) (metis phase.distinct(3,5))+
  have others: "w_conn y \<noteq> w_conn old" "w_conn y \<noteq> c" if "rl_devices r e = Some y" "e \<noteq> d" for e y
    using one_place[OF inv that(1) old] that inv c unfolding relay_inv_def wait_ok_def by (blast, metis phase.distinct(11))
  show "wait_ok ?r" using inv others by (auto simp: relay_inv_def wait_ok_def set_phase_def)
  have "active_ok r" using inv by (simp add: relay_inv_def)
  then show "active_ok ?r" using s w c d roles role owner by (auto simp: active_ok_def end_ok_def set_phase_def)
  show "chan_ok ?r" using inv w none chan ne by (auto simp: relay_inv_def chan_ok_def set_phase_def)
  show "peer_ok ?r" using inv c by (fastforce simp: relay_inv_def peer_ok_def set_phase_def)
  show "role_ok ?r" using inv c by (auto simp: relay_inv_def role_ok_def set_phase_def)
  have "matches ?r i p" if "matches r i p" for i p
    using that free by (cases "k_device (rl_info r i) = d") (auto simp: matches_def set_phase_def split: option.splits)
  then show "proxy_ok ?r" using inv by (fastforce simp: relay_inv_def proxy_ok_def set_phase_def)
qed

lemma phase_not_waiting: "relay_inv r \<Longrightarrow> rl_phase r c \<noteq> Waiting \<Longrightarrow> rl_devices r d = Some w \<Longrightarrow> w_conn w \<noteq> c"
  unfolding relay_inv_def wait_ok_def by metis

lemma attach_keeps [keeps]: "relay_inv r \<Longrightarrow> rl_phase r c = Pairing \<Longrightarrow> relay_inv (snd (attach c sid r))"
proof -
  assume inv: "relay_inv r" and c: "rl_phase r c = Pairing"
  have give_up: "relay_inv (return_closing c r)" using inv c phase_not_waiting[OF inv] by (intro inv_return_closing) auto
  show ?thesis
  proof (cases "rl_active r (k_device (rl_info r c))")
    case None
    note free = None
    show ?thesis
    proof (cases "rl_devices r (k_device (rl_info r c))")
      case None
      then show ?thesis using wait_keeps[OF inv c refl free] free by (simp add: attach_def Let_def)
    next
      case (Some old)
      then show ?thesis using give_up free pair_keeps[OF inv c refl free Some _ _ refl, of sid] replace_keeps[OF inv Some]
        by (simp add: attach_def Let_def)
    qed
  qed (simp add: attach_def Let_def give_up)
qed

lemma receive_keeps [keeps]: "relay_inv r \<Longrightarrow> rl_phase r c = Waiting \<Longrightarrow> relay_inv (receive c r)"
proof (cases "rl_ready r c")
  case (Cons x xs)
  assume inv: "relay_inv r" and c: "rl_phase r c = Waiting"
  have free: "\<forall>d w. rl_devices r d = Some w \<longrightarrow> w_conn w \<noteq> c" using inv Cons unfolding relay_inv_def wait_ok_def by force
  show ?thesis
  proof (cases x)
    case None
    then show ?thesis using Cons inv_return_closing[OF inv free] c by (simp add: receive_def)
  next
    case (Some p)
    have "Some p \<in> set (rl_ready r c)" using Cons Some by simp
    then have p: "rl_phase r p = Handed_over" using inv unfolding relay_inv_def peer_ok_def by blast
    show ?thesis
    proof (cases "matches r c p")
      case True
      have "relay_inv (set_phase c (Proxying p) r)" (is "relay_inv ?r") unfolding relay_inv_def
      proof (intro conjI)
        show "wait_ok ?r" using inv free by (auto simp: relay_inv_def wait_ok_def set_phase_def)
        show "active_ok ?r" using inv by (auto simp: relay_inv_def active_ok_def end_ok_def set_phase_def)
        show "chan_ok ?r" using inv by (auto simp: relay_inv_def chan_ok_def set_phase_def)
        show "peer_ok ?r" using inv c p unfolding relay_inv_def peer_ok_def set_phase_def by auto
        show "proxy_ok ?r" using inv True by (auto simp: relay_inv_def proxy_ok_def set_phase_def)
        show "role_ok ?r" using inv c by (auto simp: relay_inv_def role_ok_def set_phase_def)
      qed
      then show ?thesis using Cons Some True by (simp add: receive_def)
    next
      case False
      have "relay_inv (r\<lparr>rl_closing := rl_closing r, rl_closed := insert c (insert p (rl_closed r))\<rparr>)" using inv by (rule inv_close) auto
      then have "relay_inv (set_phase c Returned (r\<lparr>rl_closed := insert c (insert p (rl_closed r))\<rparr>))"
        using free c by (intro inv_return) simp_all
      then show ?thesis using Cons Some False by (simp add: receive_def)
    qed
  qed
qed (simp add: receive_def)

lemma proxy_done_keeps [keeps]: "relay_inv r \<Longrightarrow> relay_inv (proxy_done c r)"
proof (cases "rl_phase r c")
  case (Proxying p)
  assume inv: "relay_inv r"
  have free: "\<forall>d w. rl_devices r d = Some w \<longrightarrow> w_conn w \<noteq> c" using phase_not_waiting[OF inv] Proxying by simp
  let ?r = "set_phase c Returned (r\<lparr>rl_closed := insert c (insert p (rl_closed r))\<rparr>)"
  have "relay_inv (r\<lparr>rl_closing := rl_closing r, rl_closed := insert c (insert p (rl_closed r))\<rparr>)" using inv by (rule inv_close) auto
  then have inv': "relay_inv ?r" using free Proxying by (intro inv_return) simp_all
  show ?thesis
  proof (cases "matches ?r c p")
    case True
    then have "matches r c p" by simp
    then obtain s where s: "rl_active r (k_device (rl_info r c)) = Some s" "{s_agent s, s_viewer s} = {c, p}"
      by (auto simp: matches_def split: option.splits)
    have "rl_active ?r (k_device (rl_info r c)) = Some s" "{s_agent s, s_viewer s} \<subseteq> set (rl_closing ?r) \<union> rl_closed ?r"
      using s by (auto simp: set_phase_def)
    from inv_forget_session[OF inv' this]
    show ?thesis using True Proxying by (simp add: proxy_done_def Let_def set_phase_def)
  next
    case False
    then show ?thesis using inv' Proxying by (simp add: proxy_done_def Let_def)
  qed
qed (simp_all add: proxy_done_def)

text \<open>A handler that gives up first leaves the map of waiting connections.\<close>

definition unwait :: "nat \<Rightarrow> relay \<Rightarrow> relay" where
  "unwait c r = (case rl_devices r (k_device (rl_info r c)) of None \<Rightarrow> r
     | Some w \<Rightarrow> if w_conn w = c then r\<lparr>rl_devices := (rl_devices r)(k_device (rl_info r c) := None)\<rparr> else r)"

lemma unwait_keeps:
  assumes inv: "relay_inv r"
  shows "relay_inv (unwait c r)" "\<forall>d w. rl_devices (unwait c r) d = Some w \<longrightarrow> w_conn w \<noteq> c" "rl_phase (unwait c r) = rl_phase r"
    "rl_info (unwait c r) = rl_info r" "rl_active (unwait c r) = rl_active r"
proof -
  show "relay_inv (unwait c r)" using inv inv_drop_device[OF inv] by (simp add: unwait_def split: option.split)
  have "k_device (rl_info r (w_conn w)) = d" if "rl_devices r d = Some w" for d w
    using inv that unfolding relay_inv_def wait_ok_def by (metis conn_info.select_convs(1))
  moreover have "rl_devices (unwait c r) d = Some w \<Longrightarrow> rl_devices r d = Some w" for d w
    by (auto simp: unwait_def split: option.splits if_splits)
  moreover have "rl_devices r (k_device (rl_info r c)) = Some w \<Longrightarrow> w_conn w = c \<Longrightarrow> rl_devices (unwait c r) (k_device (rl_info r c)) = None" for w
    by (simp add: unwait_def)
  ultimately show "\<forall>d w. rl_devices (unwait c r) d = Some w \<longrightarrow> w_conn w \<noteq> c" by (metis option.distinct(1))
qed (simp_all add: unwait_def split: option.split)

lemma ping_failed_keeps [keeps]: "relay_inv r \<Longrightarrow> rl_phase r c = Waiting \<Longrightarrow> relay_inv (ping_failed c r)"
proof -
  assume inv: "relay_inv r" and c: "rl_phase r c = Waiting"
  have "ping_failed c r = return_closing c (unwait c r)" by (simp add: ping_failed_def unwait_def Let_def)
  then show ?thesis using inv_return_closing[OF unwait_keeps(1,2)[OF inv]] c by (simp add: unwait_keeps(3)[OF inv])
qed

lemma disconnected_keeps [keeps]: "relay_inv r \<Longrightarrow> rl_phase r c = Waiting \<Longrightarrow> relay_inv (disconnected c r)"
proof -
  assume inv: "relay_inv r" and c: "rl_phase r c = Waiting"
  note u = unwait_keeps[OF inv, of c]
  define r' where "r' = (case rl_active (unwait c r) (k_device (rl_info r c)) of None \<Rightarrow> unwait c r
    | Some s \<Rightarrow> if s_agent s = c \<or> s_viewer s = c
        then (unwait c r)\<lparr>rl_closed := insert (s_agent s) (insert (s_viewer s) (rl_closed (unwait c r))),
          rl_active := (rl_active (unwait c r))(k_device (rl_info r c) := None)\<rparr> else unwait c r)"
  have eq: "disconnected c r = return_closing c r'"
    unfolding disconnected_def Let_def r'_def unwait_def[symmetric] ..
  have "relay_inv ((unwait c r)\<lparr>rl_closed := insert (s_agent s) (insert (s_viewer s) (rl_closed (unwait c r))),
      rl_active := (rl_active (unwait c r))(d := None)\<rparr>)" if s: "rl_active (unwait c r) d = Some s" for d s
  proof -
    let ?c = "(unwait c r)\<lparr>rl_closed := insert (s_agent s) (insert (s_viewer s) (rl_closed (unwait c r)))\<rparr>"
    have "relay_inv ?c" by (rule inv_closed[OF u(1)]) auto
    moreover have "rl_active ?c d = Some s" "{s_agent s, s_viewer s} \<subseteq> set (rl_closing ?c) \<union> rl_closed ?c" using s by simp_all
    ultimately show ?thesis using inv_forget_session[of ?c d s] by simp
  qed
  then have "relay_inv r'" using u(1) by (simp add: r'_def split: option.split)
  moreover have "rl_devices r' = rl_devices (unwait c r)" "rl_phase r' = rl_phase r"
    by (auto simp: r'_def u(3) split: option.split)
  ultimately show ?thesis unfolding eq using u(2) c by (intro inv_return_closing) simp_all
qed

lemma relay_step_keeps: "relay_inv r \<Longrightarrow> relay_inv (relay_step r ev)"
proof (cases ev)
  case (Send k)
  assume inv: "relay_inv r"
  then show ?thesis using Send send_keeps[OF inv, of k] by (cases "rl_sends r ! k") auto
next
  case (Close c)
  assume inv: "relay_inv r"
  have "set (rl_closing r) \<union> rl_closed r \<subseteq> set (remove1 c (rl_closing r)) \<union> insert c (rl_closed r)"
    by (metis (no_types, opaque_lifting) Un_iff in_set_remove1 insert_iff subsetI)
  then show ?thesis using Close inv inv_close[OF inv] by simp
qed (simp_all add: keeps)

text \<open>The mappings stay in order beside the sessions.\<close>

definition all_inv :: "relay \<Rightarrow> bool" where
  "all_inv r \<longleftrightarrow> relay_inv r \<and> ports_inv (rl_ports r)"

lemma stop_ports [simp]:
  "rl_ports (stop_if b d reason r) = rl_ports r" "rl_ports (mark_stopping owner d reason r) = rl_ports r"
  "rl_ports (drop_waiting owner d r) = rl_ports r" "rl_ports (drop_active owner d r) = rl_ports r"
  by (simp_all add: stop_if_def add_stop_def mark_stopping_def drop_waiting_def drop_active_def split: option.split)

lemma hooks_touched: "touched s (closePortMapHooks configured gone s)"
  unfolding closePortMapHooks_def
proof (induction gone arbitrary: s)
  case (Cons i gone)
  show ?case by simp (rule touched_trans[OF hook_touched Cons.IH])
qed simp

lemma relay_ports: "ports_inv (rl_ports r) \<Longrightarrow> ports_inv (rl_ports (relay_step r ev))"
proof (cases ev)
  case (Round c sid)
  then show "ports_inv (rl_ports r) \<Longrightarrow> ?thesis"
    by (auto simp: attach_def return_closing_def set_phase_def Let_def split: option.split)
next
  case (Terminate owner d reason)
  then show "ports_inv (rl_ports r) \<Longrightarrow> ?thesis" by (simp add: terminate_section_def Let_def remove_device_keeps)
next
  case (Control_out c d)
  have "ports_inv s \<Longrightarrow> ports_inv (snd (remove_device_maps d s))" for s by (rule remove_device_keeps)
  then show "ports_inv (rl_ports r) \<Longrightarrow> ?thesis"
    using Control_out by (auto simp: control_end_def Let_def split: option.split prod.split) (metis snd_conv)
next
  case (Terminate_after configured d reason told direct gone)
  then show "ports_inv (rl_ports r) \<Longrightarrow> ?thesis"
    by (auto simp: terminate_after_def clearStopRequest_def Let_def touched_inv[OF hooks_touched] split: option.split)
qed (auto simp: receive_def proxy_done_def disconnected_def ping_failed_def return_closing_def set_phase_def Let_def disconnectDevice_def
    takeStopRequest_def control_register_def port_step_keeps split: option.split list.split phase.split prod.split)

interpretation pairing: event_system relay_step all_inv
  by unfold_locales (simp add: all_inv_def relay_step_keeps relay_ports)

lemma reachable_relay: "relay_inv (foldl relay_step new_relay es)" "ports_inv (rl_ports (foldl relay_step new_relay es))"
proof -
  have "all_inv new_relay" using start_relay start_ports by (simp add: all_inv_def new_relay_def)
  then have "all_inv (foldl relay_step new_relay es)" by (rule pairing.run_keeps)
  then show "relay_inv (foldl relay_step new_relay es)" "ports_inv (rl_ports (foldl relay_step new_relay es))" by (simp_all add: all_inv_def)
qed

section \<open>Sessions\<close>

definition relay_run :: "relay_event list \<Rightarrow> relay" where
  "relay_run es = foldl relay_step new_relay es"

definition demo_info :: "string \<Rightarrow> conn_info" where
  "demo_info role = \<lparr>k_device = ''D'', k_role = role, k_owner = ''device:D'', k_v2 = False\<rparr>"

text \<open>An agent waits, a viewer comes, and the agent's handler forwards between them.\<close>

definition meet :: "relay_event list" where
  "meet = [Arrive 1 (demo_info ''agent''), Round 1 [], Arrive 2 (demo_info ''viewer''), Round 2 ''s'', Send 0, Receive 1]"

lemmas relay_defs = relay_run_def meet_def demo_info_def new_relay_def set_phase_def attach_def receive_def matches_def Let_def

lemma meet_active: "rl_active (relay_run meet) ''D'' = Some \<lparr>s_agent = 1, s_viewer = 2, s_owner = ''device:D'', s_id = ''s''\<rparr>"
  "rl_phase (relay_run meet) 1 = Proxying 2" "rl_closing (relay_run meet) = []" "rl_closed (relay_run meet) = {}"
  by (simp_all add: relay_defs)

text \<open>C5: A session joins the two ends of one device. In every interleaving of the handlers an active session has the
  connection of an agent and that of a viewer, both admitted for this device and for the owner of the session;
  nobody waits for a device that has a session; and whoever waits was admitted for that device and owner.\<close>

theorem sessions_join_own_ends:
  assumes r: "r = foldl relay_step new_relay es"
  shows "(\<forall>d s. rl_active r d = Some s \<longrightarrow> rl_devices r d = None
        \<and> k_device (rl_info r (s_agent s)) = d \<and> k_role (rl_info r (s_agent s)) = ''agent'' \<and> k_owner (rl_info r (s_agent s)) = s_owner s
        \<and> k_device (rl_info r (s_viewer s)) = d \<and> k_role (rl_info r (s_viewer s)) = ''viewer'' \<and> k_owner (rl_info r (s_viewer s)) = s_owner s)
    \<and> (\<forall>d w. rl_devices r d = Some w \<longrightarrow> k_device (rl_info r (w_conn w)) = d \<and> k_role (rl_info r (w_conn w)) = w_role w
        \<and> k_owner (rl_info r (w_conn w)) = w_owner w)"
proof -
  have inv: "relay_inv r" unfolding r by (rule reachable_relay)
  have wait: "rl_devices r d = Some w \<Longrightarrow> rl_active r d = None \<and> rl_info r (w_conn w) = \<lparr>k_device = d, k_role = w_role w, k_owner = w_owner w, k_v2 = w_v2 w\<rparr>"
    for d w using inv by (simp add: relay_inv_def wait_ok_def)
  have act: "rl_active r d = Some s \<Longrightarrow> end_ok r d (s_owner s) ''agent'' (s_agent s) \<and> end_ok r d (s_owner s) ''viewer'' (s_viewer s)" for d s
    using inv by (simp add: relay_inv_def active_ok_def)
  have "rl_devices r d = None" if "rl_active r d = Some s" for d s using wait that by (cases "rl_devices r d") auto
  then show ?thesis using wait act unfolding end_ok_def by simp
qed

lemma sessions_join_own_ends_witness:
  "rl_devices (relay_run meet) ''D'' = None \<and> k_role (rl_info (relay_run meet) 2) = ''viewer''"
  using sessions_join_own_ends[OF relay_run_def, of meet] meet_active(1) by fastforce

text \<open>C21: Nobody blocks while holding the broker. Each handler's channel has room for one value, and over the whole life
  of the handler at most one value is ever sent to it, counting the sends still to be made; so no send can block,
  neither those after unlocking nor those an administrator's stop makes under the lock.\<close>

theorem sends_never_block:
  assumes r: "r = foldl relay_step new_relay es"
  shows "length (rl_ready r c) + length (filter (\<lambda>x. fst x = c) (rl_sends r)) \<le> 1
    \<and> (\<forall>d w. rl_devices r d = Some w \<longrightarrow> rl_ready r (w_conn w) = [] \<and> w_conn w \<notin> fst ` set (rl_sends r))"
  using reachable_relay(1)[of es] unfolding r relay_inv_def chan_ok_def wait_ok_def by blast

lemma sends_never_block_witness: "length (rl_ready (relay_run meet) 1) \<le> 1"
  using sends_never_block[OF relay_run_def, of meet 1] by linarith

text \<open>One live session per device. Two handlers that forward bytes for the same device, both with their connection
  neither closed nor about to be, are the same handler forwarding to the same peer.\<close>

theorem one_live_session:
  assumes r: "r = foldl relay_step new_relay es"
    and c: "rl_phase r c = Proxying p" "c \<notin> set (rl_closing r) \<union> rl_closed r"
    and c': "rl_phase r c' = Proxying p'" "c' \<notin> set (rl_closing r) \<union> rl_closed r"
    and d: "k_device (rl_info r c) = k_device (rl_info r c')"
  shows "c = c' \<and> p = p'"
proof -
  have inv: "relay_inv r" unfolding r by (rule reachable_relay)
  have m: "matches r c p" "matches r c' p'" using inv c c' unfolding relay_inv_def proxy_ok_def by blast+
  have "rl_phase r p = Handed_over" using inv c(1) unfolding relay_inv_def peer_ok_def by blast
  then have "p \<noteq> c'" using c'(1) by auto
  then show ?thesis using m d by (auto simp: matches_def split: option.splits)
qed

lemma one_live_session_witness: "{p. rl_phase (relay_run meet) 1 = Proxying p} = {2}"
proof -
  have "p = 2" if "rl_phase (relay_run meet) 1 = Proxying p" for p
    using one_live_session[OF relay_run_def that _ meet_active(2)] by (simp add: meet_active)
  then show ?thesis using meet_active(2) by auto
qed

section \<open>Stopping a device\<close>

lemma remove_fold:
  assumes "distinct (map fst ms)" "\<forall>(k, i) \<in> set ms. map_of (portMaps t) k = Some i"
    and "fold (\<lambda>(k, i) (out, s). if pm_device (pm_objs s i) = d then
      (case removePortMap k s of (None, s) \<Rightarrow> (out, s) | (Some j, s) \<Rightarrow> (out @ [j], s)) else (out, s)) ms (out, t) = (out', t')"
  shows "out' = out @ map snd (filter (\<lambda>(k, i). pm_device (pm_objs t i) = d) ms) \<and> pm_objs t' = pm_objs t
    \<and> portMaps t' = filter (\<lambda>(k, _). \<not> (\<exists>i. (k, i) \<in> set ms \<and> pm_device (pm_objs t i) = d)) (portMaps t)"
  using assms
proof (induction ms arbitrary: out t)
  case (Cons x ms)
  obtain k i where x: "x = (k, i)" by fastforce
  have notin: "k \<notin> fst ` set ms" using Cons.prems(1) x by simp
  show ?case
  proof (cases "pm_device (pm_objs t i) = d")
    case True
    have ki: "map_of (portMaps t) k = Some i" using Cons.prems(2) x by simp
    define t1 where "t1 = snd (removePortMap k t)"
    have rm: "removePortMap k t = (Some i, t1)" "pm_objs t1 = pm_objs t" "portMaps t1 = filter (\<lambda>(l, _). l \<noteq> k) (portMaps t)"
      using ki by (simp_all add: removePortMap_def t1_def AList.delete_eq eq_commute[of k])
    have "map_of (portMaps t1) l = Some j" if "(l, j) \<in> set ms" for l j
    proof -
      have "l \<noteq> k" using that notin by force
      moreover have "portMaps t1 = AList.delete k (portMaps t)" by (simp add: rm(3) AList.delete_eq eq_commute[of k])
      ultimately show ?thesis using Cons.prems(2) that by (auto simp: AList.delete_conv')
    qed
    then have "out' = (out @ [i]) @ map snd (filter (\<lambda>(k, i). pm_device (pm_objs t1 i) = d) ms) \<and> pm_objs t' = pm_objs t1
      \<and> portMaps t' = filter (\<lambda>(k, _). \<not> (\<exists>i. (k, i) \<in> set ms \<and> pm_device (pm_objs t1 i) = d)) (portMaps t1)"
      using Cons.prems True by (intro Cons.IH) (auto simp: x rm(1))
    then show ?thesis using True by (auto simp: x rm(2,3) filter_filter intro!: filter_cong)
  next
    case False
    then have "(\<exists>j. (l, j) \<in> set (x # ms) \<and> pm_device (pm_objs t j) = d) \<longleftrightarrow> (\<exists>j. (l, j) \<in> set ms \<and> pm_device (pm_objs t j) = d)" for l
      using x by auto
    moreover have "out' = out @ map snd (filter (\<lambda>(k, i). pm_device (pm_objs t i) = d) ms) \<and> pm_objs t' = pm_objs t
      \<and> portMaps t' = filter (\<lambda>(k, _). \<not> (\<exists>i. (k, i) \<in> set ms \<and> pm_device (pm_objs t i) = d)) (portMaps t)"
      using Cons.prems False by (intro Cons.IH) (auto simp: x)
    ultimately show ?thesis using False x by simp
  qed
qed (simp add: case_prod_beta)

lemma remove_device_result:
  assumes inv: "ports_inv s"
  shows "device_maps d (snd (remove_device_maps d s)) = []"
    "fst (remove_device_maps d s) = map snd (device_maps d s)"
proof -
  obtain out' t' where run: "remove_device_maps d s = (out', t')" by fastforce
  have dist: "distinct (map fst (portMaps s))" using inv by (simp add: ports_inv_def port_book_def)
  have "out' = [] @ map snd (filter (\<lambda>(k, i). pm_device (pm_objs s i) = d) (portMaps s)) \<and> pm_objs t' = pm_objs s
    \<and> portMaps t' = filter (\<lambda>(k, _). \<not> (\<exists>i. (k, i) \<in> set (portMaps s) \<and> pm_device (pm_objs s i) = d)) (portMaps s)"
    using run[unfolded remove_device_maps_def] dist by (intro remove_fold) auto
  then show "device_maps d (snd (remove_device_maps d s)) = []" "fst (remove_device_maps d s) = map snd (device_maps d s)"
    by (auto simp: run device_maps_def filter_empty_conv)
qed

lemma drop_effect [simp]:
  "rl_controls (drop_waiting owner d r) = rl_controls r" "rl_controls (drop_active owner d r) = rl_controls r"
  "rl_stops (drop_waiting owner d r) = rl_stops r" "rl_stops (drop_active owner d r) = rl_stops r"
  "rl_active (drop_waiting owner d r) = rl_active r" "rl_devices (drop_active owner d r) = rl_devices r"
  "rl_controls (stop_if b d reason r) = rl_controls r" "rl_active (stop_if b d reason r) = rl_active r"
  "rl_devices (stop_if b d reason r) = rl_devices r" "rl_closing (stop_if b d reason r) = rl_closing r"
  "rl_active (mark_stopping owner d reason r) = rl_active r" "rl_devices (mark_stopping owner d reason r) = rl_devices r"
  "rl_closing (mark_stopping owner d reason r) = rl_closing r"
  by (simp_all add: drop_waiting_def drop_active_def stop_if_def add_stop_def mark_stopping_def split: option.split)

text \<open>C12: A device an administrator stops is stopped. One section removes the device's waiting connection and its session,
  whose connections are closed, and all its port mappings; and it leaves something that reaches the process: a device
  with a management connection has a reason in its stop channel and cannot replace that connection any more, and one
  without is refused at its next handshake, unless it was waiting and is told directly.\<close>

theorem stopped_device_is_stopped:
  assumes r: "r = foldl relay_step new_relay es" and d: "d = to_upper deviceID" "to_upper d = d"
    and stop: "terminate_section (''device:'' @ d) deviceID reason r = ((direct, found, gone), r')"
  shows "found \<and> (\<forall>w. rl_devices r' d = Some w \<longrightarrow> w_owner w \<noteq> ''device:'' @ d) \<and> (\<forall>s. rl_active r' d = Some s \<longrightarrow> s_owner s \<noteq> ''device:'' @ d)
    \<and> (\<forall>s. rl_active r d = Some s \<and> s_owner s = ''device:'' @ d \<longrightarrow> {s_agent s, s_viewer s} \<subseteq> set (rl_closing r'))
    \<and> device_maps d (rl_ports r') = [] \<and> gone = map snd (device_maps d (rl_ports r))
    \<and> (case rl_controls r d of
         None \<Rightarrow> fst (takeStopRequest deviceID r') = Some reason
       | Some ctl \<Rightarrow> (\<exists>ctl'. rl_controls r' d = Some ctl' \<and> ctl_conn ctl' = ctl_conn ctl \<and> ctl_stop ctl' \<noteq> None)
           \<and> (\<forall>c pin seen tok. control_register c d pin seen tok r' = (False, r')))"
proof -
  let ?o = "''device:'' @ d"
  have ports: "ports_inv (rl_ports r)" unfolding r by (rule reachable_relay)
  define no_ctl where "no_ctl = (rl_controls r d = None)"
  define r0 where "r0 = mark_stopping ?o d reason r"
  define r1 where "r1 = stop_if (direct \<noteq> None) d reason (drop_waiting ?o d r0)"
  obtain b where r': "r' = (stop_if (no_ctl \<and> direct = None) d reason (drop_active ?o d (stop_if b d reason r1)))
      \<lparr>rl_ports := snd (remove_device_maps d (rl_ports r))\<rparr>"
    and gone: "gone = fst (remove_device_maps d (rl_ports r))" and found: "found"
    using stop by (auto simp: terminate_section_def Let_def d(1)[symmetric] r1_def r0_def no_ctl_def split: option.splits if_splits)
  have kept: "rl_devices r0 = rl_devices r" "rl_active r1 = rl_active r" by (simp_all add: r0_def r1_def)
  have waits: "w_owner w \<noteq> ?o" if "rl_devices r' d = Some w" for w
    using that by (auto simp: r' r1_def drop_waiting_def split: option.splits if_splits)
  have act: "s_owner s \<noteq> ?o" if "rl_active r' d = Some s" for s
    using that by (auto simp: r' drop_active_def split: option.splits if_splits)
  have closed: "{s_agent s, s_viewer s} \<subseteq> set (rl_closing r')" if "rl_active r d = Some s" "s_owner s = ?o" for s
    using that by (simp add: r' drop_active_def kept)
  have left: "fst (takeStopRequest deviceID r') = Some reason" if "rl_controls r d = None"
    using that by (cases direct)
      (auto simp: r' takeStopRequest_def Let_def d(1)[symmetric] no_ctl_def stop_if_def add_stop_def r1_def)
  have "rl_controls r' d = Some (stop_control reason ctl)" if "rl_controls r d = Some ctl" for ctl
    using that by (simp add: r' r1_def r0_def mark_stopping_def)
  then have told: "(\<exists>ctl'. rl_controls r' d = Some ctl' \<and> ctl_conn ctl' = ctl_conn ctl \<and> ctl_stop ctl' \<noteq> None)
      \<and> (\<forall>c pin seen tok. control_register c d pin seen tok r' = (False, r'))" if "rl_controls r d = Some ctl" for ctl
    using that by (simp add: stop_control_def control_register_def Let_def split: option.split)
  have maps: "device_maps d (rl_ports r') = []" "gone = map snd (device_maps d (rl_ports r))"
    using remove_device_result[OF ports] by (simp_all add: r' gone)
  show ?thesis
  proof (cases "rl_controls r d")
    case None
    then show ?thesis using found waits act closed maps left by simp
  next
    case (Some ctl)
    then show ?thesis using found waits act closed maps told[OF Some] by simp
  qed
qed

text \<open>The demonstration device waits without a management connection.\<close>

lemma stopped_device_is_stopped_witness:
  "let r = snd (terminate_section ''device:D'' ''D'' ''bye'' (relay_run (take 2 meet))) in
     rl_devices (relay_run (take 2 meet)) ''D'' \<noteq> None \<and> fst (takeStopRequest ''D'' r) = Some ''bye''"
proof -
  have up: "to_upper ''D'' = ''D''" by code_simp
  obtain direct found gone r' where stop: "terminate_section (''device:'' @ ''D'') ''D'' ''bye'' (relay_run (take 2 meet)) = ((direct, found, gone), r')"
    by (metis surj_pair)
  have "rl_controls (relay_run (take 2 meet)) ''D'' = None" "rl_devices (relay_run (take 2 meet)) ''D'' \<noteq> None" by (simp_all add: relay_defs)
  then show ?thesis using stopped_device_is_stopped[OF relay_run_def up[symmetric] up stop] stop by simp
qed

section \<open>Who is admitted\<close>

lemma registered_key:
  "RegisterLicensedDeviceNamed e i k n db = (Inr (), db') \<Longrightarrow> \<exists>d. dev db' (normalize i) = Some d \<and> l_key d = k"
  by (auto simp: RegisterLicensedDeviceNamed_def Let_def dev_def find_append find_update split: if_splits option.splits)

lemma automatic_key:
  "ensureAutomaticDeviceLicense e e' auto i remote db = (Inr (), db') \<Longrightarrow> dev db j = Some d \<Longrightarrow> \<exists>d'. dev db' j = Some d' \<and> l_key d' = l_key d"
  by (auto simp: ensureAutomaticDeviceLicense_def EnsurePermanentDeviceLicense_def Audit_def Let_def dev_def find_update split: if_splits)

lemma licence_row:
  "DeviceLicenseExpiry e k i db = Inr t \<Longrightarrow> runs_after t now \<Longrightarrow> \<exists>d. dev db (normalize i) = Some d \<and> l_revoked d = 0 \<and> l_until d * 1000000000 > now"
  by (auto simp: DeviceLicenseExpiry_def dev_def shown_def runs_after_def split: if_splits option.splits)

text \<open>C1: The relay admits only who may connect. With device licences the connection gets the device's own owner name and
  the device is registered, not disabled and its licence runs beyond now, and an agent has shown the key registered for the
  device. Without them it is the configured token, or a session of an account whose licence runs beyond now, to which the
  device is bound.\<close>

theorem relay_admits_only_licensed:
  assumes "relay_admit e now cfg remote h db = (Admitted owner deadline, db')"
  shows "if rc_licences cfg then owner = ''device:'' @ rh_id h
      \<and> (\<exists>d. dev db' (normalize (rh_id h)) = Some d \<and> l_revoked d = 0 \<and> l_until d * 1000000000 > now
          \<and> (rh_role h = ''agent'' \<longrightarrow> l_key d = rh_key h))
    else owner = ''legacy'' \<and> rc_token cfg \<noteq> [] \<and> rh_token h = rc_token cfg
      \<or> Authenticate (e 0) (rh_auth h) db = (owner, True) \<and> (\<exists>t. LicenseExpiry (e 2) owner db = Inr t \<and> runs_after t now)
        \<and> (if rh_role h = ''agent'' then BindDevice (e 4) owner (rh_id h) (rh_key h) [] db = (Inr (), db')
           else OwnsDevice (e 4) owner (rh_id h) db)"
proof (cases "rc_licences cfg")
  case True
  then have adm: "admit_licensed e now cfg remote h db = (Admitted owner deadline, db')" using assms by (simp add: relay_admit_def)
  have key: "\<exists>d. dev db2 (normalize (rh_id h)) = Some d \<and> l_key d = rh_key h"
    if "RegisterLicensedDeviceNamed (e 0) (rh_id h) (rh_key h) (rh_name h) db = (Inr (), db1)"
      "ensureAutomaticDeviceLicense (e 2) (e 3) (rc_auto cfg) (rh_id h) remote db1 = (Inr (), db2)" for db1 db2
    using registered_key[OF that(1)] automatic_key[OF that(2)] by metis
  show ?thesis
    using adm True key licence_row[where now = now and i = "rh_id h"] unfolding admit_licensed_def Let_def
    by (fastforce split: if_splits sum.splits prod.splits)
next
  case False
  then show ?thesis using assms
    by (auto simp: relay_admit_def admit_account_def Let_def split: if_splits sum.splits prod.splits)
qed

text \<open>A registered device with a licence, met by a viewer.\<close>

lemma relay_admits_only_licensed_witness:
  "let row = \<lparr>l_id = ''AB'', l_key = [1], l_name = [], l_pin = [], l_first = 0, l_seen = 0, l_until = 5000, l_revoked = 0\<rparr>;
       h = \<lparr>rh_role = ''viewer'', rh_id = ''AB'', rh_name = [], rh_pin = [], rh_token = [], rh_auth = [], rh_key = [], rh_v2 = False\<rparr>
   in \<exists>d. dev (empty_db\<lparr>licensed := [row]\<rparr>) (normalize (rh_id h)) = Some d \<and> l_revoked d = 0 \<and> l_until d * 1000000000 > 7"
proof -
  let ?row = "\<lparr>l_id = ''AB'', l_key = [1], l_name = [], l_pin = [], l_first = 0, l_seen = 0, l_until = 5000, l_revoked = 0\<rparr>"
  let ?h = "\<lparr>rh_role = ''viewer'', rh_id = ''AB'', rh_name = [], rh_pin = [], rh_token = [], rh_auth = [], rh_key = [], rh_v2 = False\<rparr>"
  let ?db = "empty_db\<lparr>licensed := [?row]\<rparr>"
  let ?cfg = "\<lparr>rc_licences = True, rc_token = [], rc_auto = False\<rparr>"
  have n: "normalize ''AB'' = ''AB''" by code_simp
  have "relay_admit (\<lambda>_. plain_env) 7 ?cfg [] ?h ?db = (Admitted ''device:AB'' (Some 5000), ?db)"
    by (simp add: relay_admit_def admit_licensed_def DeviceLicenseExpiry_def n plain_env_def shown_def runs_after_def
        IsPermanentDeviceLicense_def permanentDeviceLicenseUnix_def)
  from relay_admits_only_licensed[OF this] show ?thesis by auto
qed

section \<open>An interleaving that keeps a device busy\<close>

text \<open>The waiting agent's connection breaks while a viewer joins it: the pairing is entered, then the agent's handler
  fails to write its next ping and leaves, and only then does the viewer's handler hand its connection over. The session
  stays entered although no handler forwards for it and none will remove it, and the viewer's connection stays open; every
  later connection of the device is told that it is busy.\<close>

definition broken_meet :: "relay_event list" where
  "broken_meet = [Arrive 1 (demo_info ''agent''), Round 1 [], Arrive 2 (demo_info ''viewer''), Round 2 ''s'', Ping_failed 1, Send 0]"

lemma ping_failure_keeps_device_busy:
  "rl_active (relay_run broken_meet) ''D'' \<noteq> None \<and> rl_phase (relay_run broken_meet) 1 = Returned \<and> rl_phase (relay_run broken_meet) 2 = Handed_over
    \<and> rl_sends (relay_run broken_meet) = [] \<and> 2 \<notin> rl_closed (relay_run broken_meet) \<and> rl_closing (relay_run broken_meet) = []
    \<and> fst (attach 3 [] (relay_step (relay_run broken_meet) (Arrive 3 (demo_info ''agent'')))) = Busy"
  by (simp add: relay_defs broken_meet_def ping_failed_def return_closing_def)

end
