(* ===== verification/Tiles.thy ===== *)
theory Tiles
  imports Prelude "HOL-Library.AList" "HOL-Library.Product_Lexorder"
begin

text \<open>
  The desktop codec (\<open>internal/stream/tiles.go\<close>) and the tile cache of the viewer
  (\<open>internal/viewerapp/tiles.go\<close>): the agent compares a captured image with the last one it encoded and sends the
  rectangles of a 256-pixel grid that changed; the viewer keeps the newest tile of every grid position and answers
  a browser with all tiles newer than what the browser has.

  Images are rows of bytes in one buffer, as \<open>image.RGBA\<close> has them. The PNG and JPEG encoders of the standard library
  and the JSON encoder are parameters. Sizes and coordinates are \<open>int\<close>; the sum that may leave 64 bits is
  wrapped.
\<close>

definition TileSize :: int where "TileSize = 256"
definition MaxPixels :: int where "MaxPixels = 3840 * 2160 * 4"
definition MaxDataSize :: int where "MaxDataSize = 33554432"

datatype tile_error =
    Invalid_dimensions | Duplicate_tile | Invalid_payload | Length_mismatch
  | Invalid_grid | Incomplete_keyframe | Missing_keyframe | Cache_full
  | Bad_pixels | Encoder_error string

record tile =
  t_x :: int
  t_y :: int
  t_w :: int
  t_h :: int
  t_size :: int
  t_mime :: string

record tile_frame =
  f_revision :: nat
  f_w :: int
  f_h :: int
  f_sw :: int
  f_sh :: int
  f_reset :: bool
  f_tiles :: "tile list"

section \<open>\<open>TileFrame.Validate\<close>\<close>

definition bad_tile :: "tile_frame \<Rightarrow> int \<Rightarrow> tile \<Rightarrow> bool" where
  "bad_tile f room t \<longleftrightarrow> t_x t < 0 \<or> t_y t < 0 \<or> t_w t < 1 \<or> t_h t < 1 \<or> wrap64 (t_x t + t_w t) > f_w f
     \<or> wrap64 (t_y t + t_h t) > f_h f \<or> t_size t < 1 \<or> t_size t > room
     \<or> (t_mime t \<noteq> ''image/png'' \<and> t_mime t \<noteq> ''image/jpeg'')"

fun scan_tiles :: "tile_frame \<Rightarrow> int \<Rightarrow> (int \<times> int) list \<Rightarrow> int \<Rightarrow> tile list \<Rightarrow> tile_error + int" where
  "scan_tiles f len seen n [] = Inr n"
| "scan_tiles f len seen n (t # ts) =
     (if (t_x t, t_y t) \<in> set seen then Inl Duplicate_tile
      else if bad_tile f (len - n) t then Inl Invalid_payload
      else scan_tiles f len ((t_x t, t_y t) # seen) (n + t_size t) ts)"

definition Validate :: "tile_frame \<Rightarrow> bytes \<Rightarrow> tile_error + unit" where
  "Validate f data =
     (if f_w f < 1 \<or> f_h f < 1 \<or> f_w f > 16384 \<or> f_h f > 16384 \<or> f_w f * f_h f > MaxPixels \<or> length (f_tiles f) > 1024
      then Inl Invalid_dimensions
      else case scan_tiles f (int (length data)) [] 0 (f_tiles f) of
        Inl err \<Rightarrow> Inl err
      | Inr n \<Rightarrow> if n \<noteq> int (length data) then Inl Length_mismatch else Inr ())"

section \<open>Images\<close>

record rgba =
  im_x0 :: int
  im_y0 :: int
  im_w :: int
  im_h :: int
  im_stride :: int
  im_pix :: bytes

record rect =
  r_x :: int
  r_y :: int
  r_w :: int
  r_h :: int

type_synonym pixels = "bytes list"

definition PixOffset :: "rgba \<Rightarrow> int \<Rightarrow> int \<Rightarrow> int" where
  "PixOffset img x y = (y - im_y0 img) * im_stride img + (x - im_x0 img) * 4"

text \<open>\<open>img.Pix[a:a+r.Dx()*4]\<close> and the image \<open>img.SubImage(r)\<close> as its rows.\<close>

definition pix_row :: "rgba \<Rightarrow> int \<Rightarrow> int \<Rightarrow> int \<Rightarrow> bytes" where
  "pix_row img x y w = take (nat (w * 4)) (drop (nat (PixOffset img x y)) (im_pix img))"

definition sub_image :: "rgba \<Rightarrow> rect \<Rightarrow> pixels" where
  "sub_image img r = map (\<lambda>y. pix_row img (r_x r) y (r_w r)) [r_y r .. r_y r + r_h r - 1]"

text \<open>\<open>for y := a; y < b; y += step\<close>.\<close>

function range_step :: "int \<Rightarrow> int \<Rightarrow> int \<Rightarrow> int list" where
  "range_step a b step = (if 0 < step \<and> a < b then a # range_step (a + step) b step else [])"
  by auto
termination by (relation "measure (\<lambda>(a, b, step). nat (b - a))") auto

declare range_step.simps [simp del]

definition grid :: "int \<Rightarrow> int \<Rightarrow> rect list" where
  "grid w h = concat (map (\<lambda>y. map (\<lambda>x. \<lparr>r_x = x, r_y = y, r_w = min (x + TileSize) w - x, r_h = min (y + TileSize) h - y\<rparr>)
     (range_step 0 w TileSize)) (range_step 0 h TileSize))"

section \<open>\<open>TileEncoder.Encode\<close>\<close>

text \<open>The colour of a sample, four bits of each channel, and the bitmap of the colours seen.\<close>

definition sample_color :: "rgba \<Rightarrow> int \<Rightarrow> int \<Rightarrow> nat" where
  "sample_color img x y =
     (let i = nat (PixOffset img x y); ch = (\<lambda>k. unat (drop_bit 4 (im_pix img ! (i + k))))
      in push_bit 8 (ch 0) OR push_bit 4 (ch 1) OR ch 2)"

definition mark_color :: "64 word list \<Rightarrow> nat \<Rightarrow> 64 word list" where
  "mark_color colors c = colors[c div 64 := colors ! (c div 64) OR push_bit (c mod 64) 1]"

definition ones_count :: "64 word \<Rightarrow> nat" where
  "ones_count w = length (filter (bit w) [0..<64])"

definition photographic :: "rgba \<Rightarrow> rect \<Rightarrow> bool" where
  "photographic img r =
     (let colors = fold (\<lambda>y colors. fold (\<lambda>x colors. mark_color colors (sample_color img x y)) (range_step (r_x r) (r_x r + r_w r) 8) colors)
        (range_step (r_y r) (r_y r + r_h r) 8) (replicate 64 0)
      in sum_list (map ones_count colors) > 96)"

record codec =
  enc_png :: "pixels \<Rightarrow> string + bytes"
  enc_jpeg :: "int \<Rightarrow> pixels \<Rightarrow> string + bytes"

definition rect_changed :: "rgba \<Rightarrow> rgba \<Rightarrow> rect \<Rightarrow> bool" where
  "rect_changed img old r =
     list_ex (\<lambda>y. pix_row img (r_x r) y (r_w r) \<noteq> pix_row old (r_x r) y (r_w r)) [r_y r .. r_y r + r_h r - 1]"

definition tile_at :: "rect \<Rightarrow> bytes \<Rightarrow> string \<Rightarrow> tile" where
  "tile_at r out mime = \<lparr>t_x = r_x r, t_y = r_y r, t_w = r_w r, t_h = r_h r, t_size = int (length out), t_mime = mime\<rparr>"

definition encode_tile :: "codec \<Rightarrow> rgba \<Rightarrow> int \<Rightarrow> rect \<Rightarrow> string + tile \<times> bytes" where
  "encode_tile cd img quality r =
     (let photo = photographic img r in
      case (if photo then Inr [] else enc_png cd (sub_image img r)) of
        Inl err \<Rightarrow> Inl err
      | Inr out \<Rightarrow>
          if photo \<or> int (length out) > r_w r * r_h r div 3 then
            (case enc_jpeg cd quality (sub_image img r) of Inl err \<Rightarrow> Inl err | Inr out \<Rightarrow> Inr (tile_at r out ''image/jpeg'', out))
          else Inr (tile_at r out ''image/png'', out))"

text \<open>All rectangles are encoded, by as many workers as there may be; the first error in their order is the result.\<close>

fun encode_all :: "codec \<Rightarrow> rgba \<Rightarrow> int \<Rightarrow> rect list \<Rightarrow> string + tile list \<times> bytes" where
  "encode_all cd img quality [] = Inr ([], [])"
| "encode_all cd img quality (r # rs) =
     (case encode_tile cd img quality r of Inl err \<Rightarrow> Inl err
      | Inr (t, out) \<Rightarrow> (case encode_all cd img quality rs of Inl err \<Rightarrow> Inl err | Inr (ts, data) \<Rightarrow> Inr (t # ts, out @ data)))"

definition tileWorkerCount :: "int \<Rightarrow> int \<Rightarrow> int" where
  "tileWorkerCount tasks cpus = min tasks (max 1 (min 4 (cpus - 1)))"

definition same_rect :: "rgba \<Rightarrow> rgba \<Rightarrow> bool" where
  "same_rect a b \<longleftrightarrow> im_x0 a = im_x0 b \<and> im_y0 a = im_y0 b \<and> im_w a = im_w b \<and> im_h a = im_h b"

text \<open>The encoder's state is the image it encoded last.\<close>

definition Encode :: "codec \<Rightarrow> rgba option \<Rightarrow> int \<Rightarrow> bool \<Rightarrow> rgba option \<Rightarrow> (tile_error + tile_frame \<times> bytes) \<times> rgba option" where
  "Encode cd picture quality force previous =
     (case picture of None \<Rightarrow> (Inl Bad_pixels, previous)
      | Some img \<Rightarrow>
        if im_x0 img \<noteq> 0 \<or> im_y0 img \<noteq> 0 \<or> im_w img < 1 \<or> im_h img < 1 \<or> im_w img * im_h img > MaxPixels
        then (Inl Bad_pixels, previous)
        else
          let fresh = (force \<or> (case previous of None \<Rightarrow> True | Some old \<Rightarrow> \<not> same_rect old img));
              rectangles = filter (\<lambda>r. fresh \<or> (case previous of None \<Rightarrow> True | Some old \<Rightarrow> rect_changed img old r))
                (grid (im_w img) (im_h img))
          in case encode_all cd img quality rectangles of
               Inl err \<Rightarrow> (Inl (Encoder_error err), previous)
             | Inr (ts, data) \<Rightarrow> (Inr (\<lparr>f_revision = 0, f_w = im_w img, f_h = im_h img, f_sw = 0, f_sh = 0, f_reset = fresh,
                   f_tiles = ts\<rparr>, data), Some img))"

section \<open>The viewer's cache: \<open>tileHub\<close>\<close>

record cached =
  c_tile :: tile
  c_data :: bytes
  c_rev :: nat

record hub =
  hb_frame :: tile_frame
  hb_tiles :: "((int \<times> int) \<times> cached) list"
  hb_rev :: nat
  hb_reset :: nat
  hb_bytes :: int

definition newTileHub :: hub where
  "newTileHub = \<lparr>hb_frame = \<lparr>f_revision = 0, f_w = 0, f_h = 0, f_sw = 0, f_sh = 0, f_reset = False, f_tiles = []\<rparr>, hb_tiles = [],
     hb_rev = 0, hb_reset = 0, hb_bytes = 0\<rparr>"

definition on_grid :: "tile_frame \<Rightarrow> tile \<Rightarrow> bool" where
  "on_grid f t \<longleftrightarrow> t_x t mod TileSize = 0 \<and> t_y t mod TileSize = 0 \<and> t_w t = min TileSize (f_w f - t_x t) \<and> t_h t = min TileSize (f_h f - t_y t)"

definition whole_grid :: "tile_frame \<Rightarrow> int" where
  "whole_grid f = ((f_w f + TileSize - 1) div TileSize) * ((f_h f + TileSize - 1) div TileSize)"

text \<open>The bytes the cache will hold, and storing the tiles of a frame.\<close>

definition retained_bytes :: "tile_frame \<Rightarrow> hub \<Rightarrow> int" where
  "retained_bytes f h =
     fold (\<lambda>t n. (if f_reset f then n
         else n - (case map_of (hb_tiles h) (t_x t, t_y t) of None \<Rightarrow> 0 | Some c \<Rightarrow> int (length (c_data c)))) + t_size t)
       (f_tiles f) (if f_reset f then 0 else hb_bytes h)"

fun store_tiles :: "nat \<Rightarrow> tile list \<Rightarrow> bytes \<Rightarrow> ((int \<times> int) \<times> cached) list \<Rightarrow> ((int \<times> int) \<times> cached) list" where
  "store_tiles n [] data m = m"
| "store_tiles n (t # ts) data m =
     store_tiles n ts (drop (nat (t_size t)) data)
       (AList.update (t_x t, t_y t) \<lparr>c_tile = t, c_data = take (nat (t_size t)) data, c_rev = n\<rparr> m)"

definition publish :: "tile_frame \<Rightarrow> bytes \<Rightarrow> bool \<Rightarrow> hub \<Rightarrow> (tile_error + unit) \<times> hub" where
  "publish f data legacy h =
     (case Validate f data of Inl err \<Rightarrow> (Inl err, h)
      | Inr _ \<Rightarrow>
        if \<not> legacy \<and> \<not> list_all (on_grid f) (f_tiles f) then (Inl Invalid_grid, h)
        else if \<not> legacy \<and> f_reset f \<and> int (length (f_tiles f)) \<noteq> whole_grid f then (Inl Incomplete_keyframe, h)
        else if \<not> f_reset f \<and> (hb_rev h = 0 \<or> f_w f \<noteq> f_w (hb_frame h) \<or> f_h f \<noteq> f_h (hb_frame h)) then (Inl Missing_keyframe, h)
        else if retained_bytes f h > MaxDataSize then (Inl Cache_full, h)
        else
          let n = Suc (hb_rev h) in
          (Inr (), h\<lparr>hb_bytes := retained_bytes f h, hb_rev := n, hb_reset := (if f_reset f then n else hb_reset h),
             hb_frame := f\<lparr>f_tiles := []\<rparr>,
             hb_tiles := store_tiles n (f_tiles f) data (if f_reset f then [] else hb_tiles h)\<rparr>))"

text \<open>The tiles a browser that has seen revision \<open>after\<close> needs, in the order of the rows.\<close>

definition snapshot :: "nat \<Rightarrow> hub \<Rightarrow> tile_frame \<times> bytes \<times> nat" where
  "snapshot after h =
     (let reset = (after < hb_reset h);
          selected = sort_key (\<lambda>c. (t_y (c_tile c), t_x (c_tile c)))
            (filter (\<lambda>c. c_rev c > after \<or> reset) (map snd (hb_tiles h)))
      in ((hb_frame h)\<lparr>f_tiles := map c_tile selected, f_reset := reset\<rparr>, concat (map c_data selected), hb_rev h))"

datatype tile_reply = Wait_change | Reply bytes nat

definition serve_at :: "(tile_frame \<Rightarrow> bytes option) \<Rightarrow> nat \<Rightarrow> hub \<Rightarrow> tile_reply option" where
  "serve_at json after h =
     (case snapshot after h of (f, data, next) \<Rightarrow>
        if next = after then Some Wait_change
        else case json (f\<lparr>f_revision := next\<rparr>) of None \<Rightarrow> None
        | Some header \<Rightarrow> Some (Reply (be32 (word_of_nat (length header)) @ be32 (word_of_nat (length data)) @ header @ data) next))"

text \<open>A cursor from before a reconnection starts again from nothing.\<close>

definition serveTiles :: "(tile_frame \<Rightarrow> bytes option) \<Rightarrow> nat \<Rightarrow> hub \<Rightarrow> tile_reply option" where
  "serveTiles json after h = (if hb_rev h < after then serve_at json 0 h else serve_at json after h)"

text \<open>What the viewer does with a picture of the agent (\<open>readLoop\<close> in \<open>internal/viewerapp/main.go\<close>): a whole JPEG
  from an agent that knows no tiles becomes a keyframe of one tile.\<close>

datatype media = Media_tiles tile_frame bytes | Media_frame int int bytes

definition legacy_frame :: "int \<Rightarrow> int \<Rightarrow> bytes \<Rightarrow> tile_frame" where
  "legacy_frame w h data = \<lparr>f_revision = 0, f_w = w, f_h = h, f_sw = 0, f_sh = 0, f_reset = True,
     f_tiles = [\<lparr>t_x = 0, t_y = 0, t_w = w, t_h = h, t_size = int (length data), t_mime = ''image/jpeg''\<rparr>]\<rparr>"

definition receive_media :: "hub \<Rightarrow> media \<Rightarrow> (tile_error + unit) \<times> hub" where
  "receive_media h m = (case m of Media_tiles f data \<Rightarrow> publish f data False h
     | Media_frame w ht data \<Rightarrow> publish (legacy_frame w ht data) data True h)"

end
