(* ===== verification/Tiles_Props.thy ===== *)
theory Tiles_Props
  imports Tiles
begin

text \<open>
  What the desktop codec and the viewer's cache guarantee together: the colour bitmap counts colours, an encoded frame
  passes the receiver's checks, the cache stays bounded and inside the frame, and a browser that looks at any
  moment, however many frames it missed, sees the screen of the last frame that arrived.
\<close>

section \<open>The grid\<close>

lemma range_step_mem: "0 < step \<Longrightarrow> y \<in> set (range_step a b step) \<longleftrightarrow> a \<le> y \<and> y < b \<and> (y - a) mod step = 0"
proof (induction a b step rule: range_step.induct)
  case (1 a b step)
  show ?case
  proof (cases "a < b")
    case True
    have "y = a \<or> (a + step \<le> y \<and> y < b \<and> (y - (a + step)) mod step = 0) \<longleftrightarrow> a \<le> y \<and> y < b \<and> (y - a) mod step = 0"
    proof -
      have "(y - (a + step)) mod step = (y - a) mod step" by (metis diff_diff_eq minus_mod_self2)
      moreover have "a + step \<le> y" if "a \<le> y" "y \<noteq> a" "(y - a) mod step = 0"
        using zmod_eq_0_iff[of "y - a" step] that \<open>0 < step\<close>
        by (metis add_le_cancel_left diff_add_cancel diff_ge_0_iff_ge dvd_imp_le_int dvd_eq_mod_eq_0 abs_of_nonneg abs_of_pos eq_iff_diff_eq_0 add.commute)
      ultimately show ?thesis using True \<open>0 < step\<close> by auto
    qed
    then show ?thesis using True 1 by (subst range_step.simps) auto
  qed (subst range_step.simps, auto)
qed

lemma range_step_sorted: "0 < step \<Longrightarrow> sorted_wrt (<) (range_step a b step)"
proof (induction a b step rule: range_step.induct)
  case (1 a b step)
  then show ?case by (subst range_step.simps) (auto simp: range_step_mem)
qed

lemma range_step_distinct: "0 < step \<Longrightarrow> distinct (range_step a b step)"
  using range_step_sorted strict_sorted_iff by blast

lemma range_step_length: "0 < step \<Longrightarrow> a \<le> b \<Longrightarrow> int (length (range_step a b step)) = (b - a + step - 1) div step"
proof (induction a b step rule: range_step.induct)
  case (1 a b step)
  show ?case
  proof (cases "a < b")
    case True
    have len: "range_step a b step = a # range_step (a + step) b step" using True 1(2) by (subst range_step.simps) simp
    show ?thesis
    proof (cases "a + step \<le> b")
      case le: True
      have "(b - a + step - 1) div step = (b - (a + step) + step - 1) div step + 1"
        using div_add_self2[of step "b - (a + step) + step - 1"] 1(2) by (simp add: algebra_simps)
      then show ?thesis using 1(1)[OF _ 1(2) le] True 1(2) by (simp add: len)
    next
      case False
      have "range_step (a + step) b step = []" using False by (subst range_step.simps) simp
      moreover have "(b - a + step - 1) div step = 1" using True False 1(2) by (intro int_div_pos_eq[of _ _ _ "b - a - 1"]) auto
      ultimately show ?thesis by (simp add: len)
    qed
  next
    case False
    then have "(b - a + step - 1) div step = 0" using 1(2,3) by (simp add: div_pos_pos_trivial)
    then show ?thesis using False by (subst range_step.simps) simp
  qed
qed

definition corner :: "rect \<Rightarrow> int \<times> int" where
  "corner r = (r_x r, r_y r)"

lemma grid_mem: "r \<in> set (grid w h) \<longleftrightarrow> 0 \<le> r_x r \<and> r_x r < w \<and> r_x r mod TileSize = 0 \<and> 0 \<le> r_y r \<and> r_y r < h \<and> r_y r mod TileSize = 0
    \<and> r_w r = min (r_x r + TileSize) w - r_x r \<and> r_h r = min (r_y r + TileSize) h - r_y r"
proof -
  have "r \<in> set (grid w h) \<longleftrightarrow> (\<exists>y \<in> set (range_step 0 h TileSize). \<exists>x \<in> set (range_step 0 w TileSize).
      r = \<lparr>r_x = x, r_y = y, r_w = min (x + TileSize) w - x, r_h = min (y + TileSize) h - y\<rparr>)"
    by (auto simp: grid_def)
  then show ?thesis by (cases r) (auto simp: range_step_mem TileSize_def)
qed

lemma grid_corners: "map corner (grid w h) = concat (map (\<lambda>y. map (\<lambda>x. (x, y)) (range_step 0 w TileSize)) (range_step 0 h TileSize))"
  by (simp add: grid_def corner_def map_concat comp_def)

lemma grid_distinct: "distinct (map corner (grid w h))"
proof -
  have "distinct (concat (map (\<lambda>y. map (\<lambda>x. (x, y)) xs) ys))" if "distinct xs" "distinct ys" for xs ys :: "int list"
    using that(2) by (induction ys) (auto simp: distinct_map inj_on_def that(1))
  then show ?thesis by (simp add: grid_corners range_step_distinct TileSize_def)
qed

lemma grid_length:
  assumes "1 \<le> w" "1 \<le> h"
  shows "int (length (grid w h)) = ((w + TileSize - 1) div TileSize) * ((h + TileSize - 1) div TileSize)"
proof -
  have "length (concat (map (\<lambda>y. map (f y) xs) ys)) = length xs * length ys" for f :: "int \<Rightarrow> int \<Rightarrow> rect" and xs ys
    by (induction ys) simp_all
  then have "length (grid w h) = length (range_step 0 w TileSize) * length (range_step 0 h TileSize)" by (simp add: grid_def)
  then show ?thesis using assms by (simp add: range_step_length TileSize_def)
qed

section \<open>The colour bitmap\<close>

definition marked :: "64 word list \<Rightarrow> nat set" where
  "marked colors = {c. c < 4096 \<and> bit (colors ! (c div 64)) (c mod 64)}"

lemma sample_color_less: "sample_color img x y < 4096"
proof -
  have ch: "unat (drop_bit 4 (w :: byte)) < 16" for w
  proof -
    have "unat w < 2 ^ LENGTH(8)" by (rule unsigned_less)
    then have "unat w < 256" by simp
    then show ?thesis by (simp add: unsigned_drop_bit_eq drop_bit_nat_def less_mult_imp_div_less take_bit_nat_eq_self)
  qed
  have or: "take_bit 12 (a OR b) = a OR b" if "a < 4096" "b < 4096" for a b :: nat
    using that take_bit_nat_eq_self[of a 12] take_bit_nat_eq_self[of b 12] by (simp add: take_bit_or)
  have "take_bit 12 (push_bit 8 a OR push_bit 4 b OR c) = push_bit 8 a OR push_bit 4 b OR c" if "a < 16" "b < 16" "c < 16" for a b c :: nat
  proof (rule or)
    have "push_bit 8 a < 4096" using that by (simp add: push_bit_nat_def)
    moreover have "push_bit 4 b OR c = take_bit 12 (push_bit 4 b OR c)" using that or[of "push_bit 4 b" c] by (simp add: push_bit_nat_def)
    moreover have "take_bit 12 z < 4096" for z :: nat using take_bit_nat_less_exp[of 12 z] by simp
    ultimately show "push_bit 8 a < 4096" "push_bit 4 b OR c < 4096" by metis+
  qed
  then have "take_bit 12 (sample_color img x y) = sample_color img x y"
    unfolding sample_color_def Let_def using ch by blast
  moreover have "take_bit 12 z < 4096" for z :: nat using take_bit_nat_less_exp[of 12 z] by simp
  ultimately show ?thesis by metis
qed

lemma mark_color_length [simp]: "length (mark_color colors c) = length colors"
  by (simp add: mark_color_def)

lemma marked_mark:
  assumes "length colors = 64" "c < 4096"
  shows "marked (mark_color colors c) = insert c (marked colors)"
proof -
  have "bit (mark_color colors c ! (d div 64)) (d mod 64) \<longleftrightarrow> d = c \<or> bit (colors ! (d div 64)) (d mod 64)" if "d < 4096" for d
  proof (cases "d div 64 = c div 64")
    case True
    have "d = c \<longleftrightarrow> d mod 64 = c mod 64" using True by (metis div_mult_mod_eq)
    moreover have "c div 64 < 64" using assms(2) by (simp add: less_mult_imp_div_less)
    ultimately show ?thesis using True assms(1) by (auto simp: mark_color_def bit_or_iff bit_push_bit_iff bit_1_iff bit_exp_iff)
  next
    case False
    then show ?thesis by (auto simp: mark_color_def)
  qed
  then show ?thesis using assms(2) by (auto simp: marked_def)
qed

lemma ones_count_marked: "length colors = 64 \<Longrightarrow> sum_list (map ones_count colors) = card (marked colors)"
proof -
  assume len: "length colors = 64"
  have ones: "ones_count w = card {j. j < 64 \<and> bit w j}" for w
    unfolding ones_count_def by (subst distinct_card[symmetric]) (auto intro: arg_cong[where f = card])
  have "bij_betw (\<lambda>c. (c div 64, c mod 64)) (marked colors) (SIGMA i:{..<64}. {j. j < 64 \<and> bit (colors ! i) j})"
    by (rule bij_betw_byWitness[where f' = "\<lambda>(i, j). i * 64 + j"]) (auto simp: marked_def less_mult_imp_div_less)
  then have "card (marked colors) = card (SIGMA i:{..<64}. {j. j < 64 \<and> bit (colors ! i) j})" by (rule bij_betw_same_card)
  also have "\<dots> = (\<Sum>i<64. ones_count (colors ! i))" by (simp add: ones)
  also have "\<dots> = sum_list (map ones_count colors)" by (simp add: sum_list_sum_nth len atLeast0LessThan)
  finally show ?thesis by simp
qed

text \<open>The samples of a rectangle.\<close>

definition samples :: "rgba \<Rightarrow> rect \<Rightarrow> nat list" where
  "samples img r = concat (map (\<lambda>y. map (\<lambda>x. sample_color img x y) (range_step (r_x r) (r_x r + r_w r) 8))
     (range_step (r_y r) (r_y r + r_h r) 8))"

lemma fold_nested: "fold (\<lambda>y. fold (\<lambda>x s. f s (g x y)) xs) ys s = fold (\<lambda>z s. f s z) (concat (map (\<lambda>y. map (\<lambda>x. g x y) xs) ys)) s"
  by (induction ys arbitrary: s) (simp_all add: fold_map comp_def)

lemma marked_fold: "length colors = 64 \<Longrightarrow> \<forall>c \<in> set cs. c < 4096 \<Longrightarrow>
    marked (fold (\<lambda>c colors. mark_color colors c) cs colors) = set cs \<union> marked colors
    \<and> length (fold (\<lambda>c colors. mark_color colors c) cs colors) = 64"
  by (induction cs arbitrary: colors) (auto simp: marked_mark)

text \<open>The bitmap of 4096 bits counts colours. A rectangle is treated as photographic exactly when its samples, one in
  eight in each direction, have more than 96 distinct colours of four bits per channel.\<close>

theorem photographic_counts_colors: "photographic img r \<longleftrightarrow> length (remdups (samples img r)) > 96"
proof -
  let ?cs = "fold (\<lambda>c colors. mark_color colors c) (samples img r) (replicate 64 0)"
  have less: "\<forall>c \<in> set (samples img r). c < 4096" by (auto simp: samples_def sample_color_less)
  have "marked (replicate 64 0) = {}" by (auto simp: marked_def less_mult_imp_div_less)
  then have "marked ?cs = set (samples img r)" "length ?cs = 64" using marked_fold[OF _ less, of "replicate 64 0"] by simp_all
  then have "sum_list (map ones_count ?cs) = card (set (samples img r))" by (simp add: ones_count_marked)
  then show ?thesis by (simp add: photographic_def fold_nested samples_def length_remdups_card_conv Let_def)
qed

section \<open>Frames and their payload\<close>

definition tpos :: "tile \<Rightarrow> int \<times> int" where
  "tpos t = (t_x t, t_y t)"

text \<open>The payload cut into the bytes of each tile.\<close>

fun slices :: "tile list \<Rightarrow> bytes \<Rightarrow> bytes list" where
  "slices [] data = []"
| "slices (t # ts) data = take (nat (t_size t)) data # slices ts (drop (nat (t_size t)) data)"

lemma slices_length [simp]: "length (slices ts data) = length ts"
  by (induction ts arbitrary: data) simp_all

definition sized :: "tile list \<Rightarrow> bytes list \<Rightarrow> bool" where
  "sized ts ds = list_all2 (\<lambda>t d. t_size t = int (length d) \<and> d \<noteq> []) ts ds"

lemma sized_simps [simp]: "sized [] ds \<longleftrightarrow> ds = []" "sized (t # ts) (d # ds) \<longleftrightarrow> t_size t = int (length d) \<and> d \<noteq> [] \<and> sized ts ds"
  by (simp_all add: sized_def)

lemma slices_concat: "sized ts ds \<Longrightarrow> slices ts (concat ds) = ds"
  unfolding sized_def by (induction rule: list_all2_induct) simp_all

lemma sized_slices: "\<forall>t \<in> set ts. 1 \<le> t_size t \<Longrightarrow> sum_list (map t_size ts) = int (length data) \<Longrightarrow>
    sized ts (slices ts data) \<and> concat (slices ts data) = data"
proof (induction ts arbitrary: data)
  case (Cons t ts)
  have "0 \<le> t_size x" if "x \<in> set ts" for x using Cons.prems(1) that by fastforce
  then have pos: "1 \<le> t_size t" "0 \<le> sum_list (map t_size ts)" using Cons.prems(1) by (auto intro!: sum_list_nonneg)
  then have "nat (t_size t) \<le> length data" using Cons.prems(2) by simp
  then have "sum_list (map t_size ts) = int (length (drop (nat (t_size t)) data))" using Cons.prems pos by simp
  then show ?case using Cons.IH[of "drop (nat (t_size t)) data"] Cons.prems pos by auto
qed simp

lemma scan_tiles_Inr:
  "scan_tiles f len seen n ts = Inr m \<Longrightarrow> distinct (map tpos ts) \<and> set (map tpos ts) \<inter> set seen = {} \<and> m = n + sum_list (map t_size ts)
     \<and> (\<forall>t \<in> set ts. 0 \<le> t_x t \<and> 0 \<le> t_y t \<and> 1 \<le> t_w t \<and> 1 \<le> t_h t \<and> 1 \<le> t_size t
         \<and> wrap64 (t_x t + t_w t) \<le> f_w f \<and> wrap64 (t_y t + t_h t) \<le> f_h f)"
proof (induction ts arbitrary: seen n)
  case (Cons t ts)
  then have t: "tpos t \<notin> set seen" "\<not> bad_tile f (len - n) t" "scan_tiles f len (tpos t # seen) (n + t_size t) ts = Inr m"
    by (auto simp: tpos_def split: if_splits)
  show ?case using Cons.IH[OF t(3)] t(1,2) by (auto simp: bad_tile_def)
qed simp

lemma Validate_Inr:
  assumes "Validate f data = Inr u"
  shows "distinct (map tpos (f_tiles f))" "sized (f_tiles f) (slices (f_tiles f) data)" "concat (slices (f_tiles f) data) = data"
    "1 \<le> f_w f" "f_w f \<le> 16384" "1 \<le> f_h f" "f_h f \<le> 16384"
    "t \<in> set (f_tiles f) \<Longrightarrow> 0 \<le> t_x t \<and> 0 \<le> t_y t \<and> wrap64 (t_x t + t_w t) \<le> f_w f \<and> wrap64 (t_y t + t_h t) \<le> f_h f"
proof -
  have scan: "scan_tiles f (int (length data)) [] 0 (f_tiles f) = Inr (int (length data))"
    and dims: "1 \<le> f_w f" "f_w f \<le> 16384" "1 \<le> f_h f" "f_h f \<le> 16384"
    using assms by (auto simp: Validate_def split: if_splits sum.splits)
  note s = scan_tiles_Inr[OF scan]
  have "\<forall>t \<in> set (f_tiles f). 1 \<le> t_size t" "sum_list (map t_size (f_tiles f)) = int (length data)" using s by auto
  then show "sized (f_tiles f) (slices (f_tiles f) data)" "concat (slices (f_tiles f) data) = data" using sized_slices by blast+
  show "distinct (map tpos (f_tiles f))" using s by blast
  show "t \<in> set (f_tiles f) \<Longrightarrow> 0 \<le> t_x t \<and> 0 \<le> t_y t \<and> wrap64 (t_x t + t_w t) \<le> f_w f \<and> wrap64 (t_y t + t_h t) \<le> f_h f"
    using s by blast
qed (use assms in \<open>auto simp: Validate_def split: if_splits sum.splits\<close>)

section \<open>The cache\<close>

definition stored :: "nat \<Rightarrow> tile \<times> bytes \<Rightarrow> cached" where
  "stored n td = \<lparr>c_tile = fst td, c_data = snd td, c_rev = n\<rparr>"

lemma store_tiles_fold: "store_tiles n ts data m = fold (\<lambda>td m. AList.update (tpos (fst td)) (stored n td) m) (zip ts (slices ts data)) m"
  by (induction ts arbitrary: data m) (simp_all add: stored_def tpos_def)

text \<open>Drawing tiles one after the other, as a browser does.\<close>

definition draw_tiles :: "(tile \<times> bytes) list \<Rightarrow> (int \<times> int \<Rightarrow> (tile \<times> bytes) option) \<Rightarrow> int \<times> int \<Rightarrow> (tile \<times> bytes) option" where
  "draw_tiles tds m = fold (\<lambda>td m. m(tpos (fst td) \<mapsto> td)) tds m"

lemma draw_other: "k \<notin> tpos ` fst ` set tds \<Longrightarrow> draw_tiles tds m k = m k"
  unfolding draw_tiles_def by (induction tds arbitrary: m) auto

lemma draw_mem: "distinct (map (tpos \<circ> fst) tds) \<Longrightarrow> td \<in> set tds \<Longrightarrow> draw_tiles tds m (tpos (fst td)) = Some td"
proof (induction tds arbitrary: m)
  case (Cons x tds)
  show ?case
  proof (cases "td = x")
    case True
    have "draw_tiles tds (m(tpos (fst x) \<mapsto> x)) (tpos (fst x)) = (m(tpos (fst x) \<mapsto> x)) (tpos (fst x))"
      by (rule draw_other) (use Cons.prems(1) in \<open>auto simp: image_comp\<close>)
    then show ?thesis using True by (simp add: draw_tiles_def)
  next
    case False
    then show ?thesis using Cons.IH[of "m(tpos (fst x) \<mapsto> x)"] Cons.prems by (simp add: draw_tiles_def del: fun_upd_apply)
  qed
qed simp

definition view :: "((int \<times> int) \<times> cached) list \<Rightarrow> int \<times> int \<Rightarrow> (tile \<times> bytes) option" where
  "view m k = map_option (\<lambda>c. (c_tile c, c_data c)) (map_of m k)"

lemma view_update: "view (AList.update k (stored n td) m) = (view m)(k \<mapsto> td)"
  by (auto simp: view_def update_conv stored_def)

lemma view_store: "view (store_tiles n ts data m) = draw_tiles (zip ts (slices ts data)) (view m)"
proof -
  have "view (fold (\<lambda>td m. AList.update (tpos (fst td)) (stored n td) m) tds m) = draw_tiles tds (view m)" for tds
    unfolding draw_tiles_def by (induction tds arbitrary: m) (simp_all add: view_update)
  then show ?thesis by (simp add: store_tiles_fold)
qed

definition weight :: "((int \<times> int) \<times> cached) list \<Rightarrow> int" where
  "weight m = sum_list (map (\<lambda>kc. int (length (c_data (snd kc)))) m)"

definition held :: "((int \<times> int) \<times> cached) list \<Rightarrow> int \<times> int \<Rightarrow> int" where
  "held m k = (case map_of m k of None \<Rightarrow> 0 | Some c \<Rightarrow> int (length (c_data c)))"

lemma weight_update: "weight (AList.update k c m) = weight m - held m k + int (length (c_data c))"
  by (induction m) (auto simp: weight_def held_def)

lemma weight_store:
  "distinct (map tpos ts) \<Longrightarrow> sized ts ds \<Longrightarrow>
     weight (store_tiles n ts (concat ds) m) = fold (\<lambda>t w. w - held m (tpos t) + t_size t) ts (weight m)"
proof (induction ts arbitrary: ds m)
  case (Cons t ts)
  obtain d es where ds: "ds = d # es" using Cons.prems(2) by (cases ds) (simp_all add: sized_def)
  have sz: "t_size t = int (length d)" "sized ts es" using Cons.prems(2) by (simp_all add: ds)
  define m' where "m' = AList.update (tpos t) \<lparr>c_tile = t, c_data = d, c_rev = n\<rparr> m"
  have "held m' (tpos x) = held m (tpos x)" if "x \<in> set ts" for x
  proof -
    have "tpos t \<notin> tpos ` set ts" using Cons.prems(1) by simp
    then have "tpos x \<noteq> tpos t" using that by (metis imageI)
    then show ?thesis by (simp add: held_def m'_def update_conv)
  qed
  then have same: "fold (\<lambda>x w. w - held m' (tpos x) + t_size x) ts w = fold (\<lambda>x w. w - held m (tpos x) + t_size x) ts w" for w
    by (intro fold_cong) auto
  have "weight m' = weight m - held m (tpos t) + t_size t" by (simp add: m'_def weight_update sz(1))
  moreover have "store_tiles n (t # ts) (concat ds) m = store_tiles n ts (concat es) m'" by (simp add: ds sz(1) m'_def tpos_def)
  ultimately show ?case using Cons.IH[of es m'] Cons.prems(1) sz(2) same by simp
qed (simp add: sized_def)

definition hub_ok :: "hub \<Rightarrow> bool" where
  "hub_ok h \<longleftrightarrow> distinct (map fst (hb_tiles h)) \<and> hb_bytes h = weight (hb_tiles h) \<and> hb_bytes h \<le> MaxDataSize
     \<and> hb_reset h \<le> hb_rev h \<and> (hb_rev h \<noteq> 0 \<longrightarrow> hb_reset h \<noteq> 0)
     \<and> (\<forall>(k, c) \<in> set (hb_tiles h). k = tpos (c_tile c) \<and> t_size (c_tile c) = int (length (c_data c)) \<and> c_data c \<noteq> []
          \<and> hb_reset h \<le> c_rev c \<and> c_rev c \<le> hb_rev h
          \<and> 0 \<le> t_x (c_tile c) \<and> t_x (c_tile c) + t_w (c_tile c) \<le> f_w (hb_frame h)
          \<and> 0 \<le> t_y (c_tile c) \<and> t_y (c_tile c) + t_h (c_tile c) \<le> f_h (hb_frame h))"

lemma start_tiles: "hub_ok newTileHub"
  by (simp add: hub_ok_def newTileHub_def weight_def MaxDataSize_def)

text \<open>A tile that passed the checks of its kind of frame lies inside the frame, whatever the wrapped sums said.\<close>

definition in_frame :: "tile_frame \<Rightarrow> tile \<Rightarrow> bool" where
  "in_frame f t \<longleftrightarrow> 0 \<le> t_x t \<and> t_x t + t_w t \<le> f_w f \<and> 0 \<le> t_y t \<and> t_y t + t_h t \<le> f_h f"

lemma on_grid_in_frame: "Validate f data = Inr u \<Longrightarrow> t \<in> set (f_tiles f) \<Longrightarrow> on_grid f t \<Longrightarrow> in_frame f t"
  using Validate_Inr(8)[of f data u t] by (auto simp: on_grid_def in_frame_def TileSize_def)

lemma legacy_in_frame: "t \<in> set (f_tiles (legacy_frame w ht data)) \<Longrightarrow> in_frame (legacy_frame w ht data) t"
  by (simp add: legacy_frame_def in_frame_def)

text \<open>What a successful \<open>publish\<close> did.\<close>

lemma retained_weight:
  assumes "distinct (map tpos (f_tiles f))" "sized (f_tiles f) ds" "hb_bytes h = weight (hb_tiles h)"
  shows "retained_bytes f h = weight (store_tiles n (f_tiles f) (concat ds) (if f_reset f then [] else hb_tiles h))"
proof (cases "f_reset f")
  case True
  then show ?thesis using weight_store[OF assms(1,2), of n "[]"] by (simp add: retained_bytes_def held_def weight_def)
next
  case False
  then show ?thesis using weight_store[OF assms(1,2), of n "hb_tiles h"]
    by (simp add: retained_bytes_def held_def tpos_def assms(3))
qed

lemma publish_Inr:
  assumes "publish f data legacy h = (Inr u, h')"
  shows "Validate f data = Inr ()" "f_reset f \<or> (hb_rev h \<noteq> 0 \<and> f_w f = f_w (hb_frame h) \<and> f_h f = f_h (hb_frame h))"
    "retained_bytes f h \<le> MaxDataSize" "\<not> legacy \<Longrightarrow> list_all (on_grid f) (f_tiles f)"
    "h' = h\<lparr>hb_bytes := retained_bytes f h, hb_rev := Suc (hb_rev h), hb_reset := (if f_reset f then Suc (hb_rev h) else hb_reset h),
        hb_frame := f\<lparr>f_tiles := []\<rparr>, hb_tiles := store_tiles (Suc (hb_rev h)) (f_tiles f) data (if f_reset f then [] else hb_tiles h)\<rparr>"
  using assms by (auto simp: publish_def Let_def split: if_splits sum.splits)

lemma publish_Inl: "publish f data legacy h = (Inl err, h') \<Longrightarrow> h' = h"
  by (auto simp: publish_def Let_def split: if_splits sum.splits)

lemma store_keys: "distinct (map fst m) \<Longrightarrow> distinct (map fst (store_tiles n ts data m))"
  by (induction ts arbitrary: data m) (simp_all add: distinct_update)

lemma store_mem:
  "distinct (map fst m) \<Longrightarrow> (k, c) \<in> set (store_tiles n ts data m) \<Longrightarrow>
     (\<exists>(t, d) \<in> set (zip ts (slices ts data)). k = tpos t \<and> c = stored n (t, d)) \<or> (k, c) \<in> set m"
proof (induction ts arbitrary: data m)
  case (Cons t ts)
  let ?m = "AList.update (t_x t, t_y t) \<lparr>c_tile = t, c_data = take (nat (t_size t)) data, c_rev = n\<rparr> m"
  have dm: "distinct (map fst ?m)" by (rule distinct_update[OF Cons.prems(1)])
  have "(k, c) \<in> set ?m \<Longrightarrow> (k = tpos t \<and> c = stored n (t, take (nat (t_size t)) data)) \<or> (k, c) \<in> set m"
    using Cons.prems(1) by (auto simp: tpos_def stored_def update_conv dest!: map_of_is_SomeI[OF dm] split: if_splits)
  then show ?case using Cons.IH[OF dm] Cons.prems(2) by fastforce
qed simp

lemma publish_keeps [keeps]:
  assumes ok: "hub_ok h" and bounds: "\<forall>t \<in> set (f_tiles f). Validate f data = Inr () \<longrightarrow> (\<not> legacy \<longrightarrow> on_grid f t) \<longrightarrow> in_frame f t"
  shows "hub_ok (snd (publish f data legacy h))"
proof (cases "publish f data legacy h")
  case (Pair res h')
  show ?thesis
  proof (cases res)
    case (Inl err)
    then show ?thesis using publish_Inl[of f data legacy h] Pair ok by simp
  next
    case (Inr u)
    note p = publish_Inr[OF Pair[unfolded Inr]]
    note v = Validate_Inr[OF p(1)]
    let ?m = "if f_reset f then [] else hb_tiles h"
    let ?n = "Suc (hb_rev h)"
    have dm: "distinct (map fst ?m)" using ok by (simp add: hub_ok_def)
    have bytes: "retained_bytes f h = weight (store_tiles ?n (f_tiles f) data ?m)"
      using retained_weight[OF v(1,2), of h ?n] ok by (simp add: v(3) hub_ok_def)
    have tile: "k = tpos (c_tile c) \<and> t_size (c_tile c) = int (length (c_data c)) \<and> c_data c \<noteq> []
        \<and> (if f_reset f then ?n else hb_reset h) \<le> c_rev c \<and> c_rev c \<le> ?n \<and> in_frame f (c_tile c)"
      if "(k, c) \<in> set (store_tiles ?n (f_tiles f) data ?m)" for k c
      using store_mem[OF dm that]
    proof
      assume "\<exists>(t, d) \<in> set (zip (f_tiles f) (slices (f_tiles f) data)). k = tpos t \<and> c = stored ?n (t, d)"
      then obtain t d where td: "(t, d) \<in> set (zip (f_tiles f) (slices (f_tiles f) data))" "k = tpos t" "c = stored ?n (t, d)" by auto
      have t: "t \<in> set (f_tiles f)" using td(1) by (rule set_zip_leftD)
      then have "in_frame f t" using bounds p(1,4) by (auto simp: list_all_iff)
      moreover have "t_size t = int (length d) \<and> d \<noteq> []" using td(1) v(2) unfolding sized_def list_all2_iff by blast
      ultimately show ?thesis using td(2,3) ok by (simp add: stored_def hub_ok_def)
    next
      assume old: "(k, c) \<in> set ?m"
      then have "\<not> f_reset f" "(k, c) \<in> set (hb_tiles h)" by (auto split: if_splits)
      then show ?thesis using ok p(2) unfolding hub_ok_def in_frame_def by fastforce
    qed
    have tiles: "\<forall>(k, c) \<in> set (hb_tiles h'). k = tpos (c_tile c) \<and> t_size (c_tile c) = int (length (c_data c)) \<and> c_data c \<noteq> []
        \<and> hb_reset h' \<le> c_rev c \<and> c_rev c \<le> hb_rev h'
        \<and> 0 \<le> t_x (c_tile c) \<and> t_x (c_tile c) + t_w (c_tile c) \<le> f_w (hb_frame h')
        \<and> 0 \<le> t_y (c_tile c) \<and> t_y (c_tile c) + t_h (c_tile c) \<le> f_h (hb_frame h')"
    proof (intro ballI, clarify)
      fix a b c assume "((a, b), c) \<in> set (hb_tiles h')"
      then have "((a, b), c) \<in> set (store_tiles ?n (f_tiles f) data ?m)" by (simp add: p(5))
      from tile[OF this] show "(a, b) = tpos (c_tile c) \<and> t_size (c_tile c) = int (length (c_data c)) \<and> c_data c \<noteq> []
        \<and> hb_reset h' \<le> c_rev c \<and> c_rev c \<le> hb_rev h'
        \<and> 0 \<le> t_x (c_tile c) \<and> t_x (c_tile c) + t_w (c_tile c) \<le> f_w (hb_frame h')
        \<and> 0 \<le> t_y (c_tile c) \<and> t_y (c_tile c) + t_h (c_tile c) \<le> f_h (hb_frame h')"
        by (simp add: p(5) in_frame_def)
    qed
    have "distinct (map fst (hb_tiles h'))" using store_keys[OF dm] by (simp add: p(5))
    moreover have "hb_bytes h' = weight (hb_tiles h')" "hb_bytes h' \<le> MaxDataSize" using bytes p(3) by (simp_all add: p(5))
    moreover have "hb_reset h' \<le> hb_rev h'" "hb_reset h' \<noteq> 0"
      using ok p(2) by (auto simp: p(5) hub_ok_def)
    ultimately show ?thesis using tiles unfolding Pair snd_conv hub_ok_def by blast
  qed
qed

lemma media_keeps: "hub_ok h \<Longrightarrow> hub_ok (snd (receive_media h m))"
  by (cases m) (auto simp: receive_media_def intro!: publish_keeps intro: on_grid_in_frame legacy_in_frame)

text \<open>One picture after the other.\<close>

definition media_step :: "hub \<Rightarrow> media \<Rightarrow> hub" where
  "media_step h m = snd (receive_media h m)"

interpretation tiles: event_system media_step hub_ok
  by unfold_locales (simp add: media_step_def media_keeps)

text \<open>C34: The cache stays bounded and inside its frame. Whatever an agent sends, tiles or whole pictures, the viewer counts
  the bytes it holds exactly, holds at most one payload, and every tile it keeps lies inside the current frame.\<close>

theorem tile_cache_bounded:
  "let h = foldl media_step newTileHub ms in hb_bytes h = weight (hb_tiles h) \<and> weight (hb_tiles h) \<le> MaxDataSize
     \<and> (\<forall>(k, c) \<in> set (hb_tiles h). k = tpos (c_tile c) \<and> in_frame (hb_frame h) (c_tile c))"
  using tiles.run_keeps[OF start_tiles, of ms] by (auto simp: Let_def hub_ok_def in_frame_def)

definition one_tile :: tile_frame where
  "one_tile = \<lparr>f_revision = 0, f_w = 2, f_h = 1, f_sw = 0, f_sh = 0, f_reset = True,
     f_tiles = [\<lparr>t_x = 0, t_y = 0, t_w = 2, t_h = 1, t_size = 3, t_mime = ''image/png''\<rparr>]\<rparr>"

lemma tile_cache_bounded_witness:
  "let h = foldl media_step newTileHub [Media_tiles one_tile [1, 2, 3]] in hb_bytes h = 3 \<and> weight (hb_tiles h) \<le> MaxDataSize"
proof -
  have "hb_bytes (foldl media_step newTileHub [Media_tiles one_tile [1, 2, 3]]) = 3" by code_simp
  then show ?thesis using tile_cache_bounded[of "[Media_tiles one_tile [1, 2, 3]]"] by (simp add: Let_def)
qed

text \<open>The check of \<open>Validate\<close> alone does not keep a tile inside the frame: the sum of its corner and its width leaves 64
  bits and wraps to a small number. Only the grid check of \<open>publish\<close> refuses such a tile.\<close>

lemma validate_wraps:
  "Validate \<lparr>f_revision = 0, f_w = 2, f_h = 1, f_sw = 0, f_sh = 0, f_reset = True,
     f_tiles = [\<lparr>t_x = 9223372036854775807, t_y = 0, t_w = 9223372036854775807, t_h = 1, t_size = 1, t_mime = ''image/png''\<rparr>]\<rparr> [0] = Inr ()"
  by code_simp

section \<open>A browser's canvas\<close>

text \<open>What a browser shows: for each position the tile drawn there last. A frame with \<open>reset\<close> starts an empty canvas of its
  own size. A browser asks with the revision it has drawn, and the handler answers as \<open>serveTiles\<close> does.\<close>

record canvas =
  cv_w :: int
  cv_h :: int
  cv_tiles :: "int \<times> int \<Rightarrow> (tile \<times> bytes) option"

definition paint :: "tile_frame \<Rightarrow> bytes \<Rightarrow> canvas \<Rightarrow> canvas" where
  "paint f data cv =
     (let tds = zip (f_tiles f) (slices (f_tiles f) data) in
      if f_reset f then \<lparr>cv_w = f_w f, cv_h = f_h f, cv_tiles = draw_tiles tds Map.empty\<rparr>
      else cv\<lparr>cv_tiles := draw_tiles tds (cv_tiles cv)\<rparr>)"

definition browse :: "hub \<Rightarrow> nat \<times> canvas \<Rightarrow> nat \<times> canvas" where
  "browse h b =
     (let a = (if hb_rev h < fst b then 0 else fst b) in
      if hb_rev h = a then b else case snapshot a h of (f, data, next) \<Rightarrow> (next, paint f data (snd b)))"

definition in_step :: "hub \<Rightarrow> nat \<times> canvas \<Rightarrow> bool" where
  "in_step h b \<longleftrightarrow> fst b \<le> hb_rev h \<and> (hb_rev h \<noteq> 0 \<and> hb_reset h \<le> fst b \<longrightarrow>
     cv_w (snd b) = f_w (hb_frame h) \<and> cv_h (snd b) = f_h (hb_frame h)
     \<and> (\<forall>k. case map_of (hb_tiles h) k of None \<Rightarrow> cv_tiles (snd b) k = None
          | Some c \<Rightarrow> c_rev c \<le> fst b \<longrightarrow> cv_tiles (snd b) k = Some (c_tile c, c_data c)))"

lemma start_browser: "in_step newTileHub (0, cv)"
  by (simp add: in_step_def newTileHub_def)

lemma draw_grows: "draw_tiles tds m k = None \<Longrightarrow> m k = None"
proof (induction tds arbitrary: m)
  case (Cons td tds)
  have "draw_tiles tds (m(tpos (fst td) \<mapsto> td)) k = None" using Cons.prems by (simp add: draw_tiles_def del: fun_upd_apply)
  from Cons.IH[OF this] show ?case by (simp split: if_splits)
qed (simp add: draw_tiles_def)

lemma publish_in_step:
  assumes ok: "hub_ok h" and b: "in_step h b" and p: "publish f data legacy h = (Inr u, h')"
  shows "in_step h' b"
proof (cases "f_reset f")
  case True
  then show ?thesis using b by (simp add: publish_Inr(5)[OF p] in_step_def)
next
  case False
  note q = publish_Inr[OF p]
  have h': "hb_tiles h' = store_tiles (Suc (hb_rev h)) (f_tiles f) data (hb_tiles h)" "hb_reset h' = hb_reset h"
    "hb_rev h' = Suc (hb_rev h)" "f_w (hb_frame h') = f_w (hb_frame h)" "f_h (hb_frame h') = f_h (hb_frame h)" "hb_rev h \<noteq> 0"
    using False q(2) by (simp_all add: q(5))
  have dist: "distinct (map fst (hb_tiles h))" using ok by (simp add: hub_ok_def)
  have "case map_of (hb_tiles h') k of None \<Rightarrow> cv_tiles (snd b) k = None
      | Some c \<Rightarrow> c_rev c \<le> fst b \<longrightarrow> cv_tiles (snd b) k = Some (c_tile c, c_data c)" if reset: "hb_reset h \<le> fst b" for k
  proof (cases "map_of (hb_tiles h') k")
    case None
    then have "view (hb_tiles h) k = None" unfolding h'(1) using draw_grows by (metis view_store view_def option.map_disc_iff)
    then have "map_of (hb_tiles h) k = None" by (simp add: view_def)
    then show ?thesis using None b reset h'(6) unfolding in_step_def by (metis (no_types, lifting) option.simps(4))
  next
    case (Some c)
    have "(k, c) \<in> set (store_tiles (Suc (hb_rev h)) (f_tiles f) data (hb_tiles h))" using map_of_SomeD[OF Some] by (simp add: h'(1))
    from store_mem[OF dist this] show ?thesis
    proof
      assume "\<exists>(t, d) \<in> set (zip (f_tiles f) (slices (f_tiles f) data)). k = tpos t \<and> c = stored (Suc (hb_rev h)) (t, d)"
      then have "c_rev c = Suc (hb_rev h)" by (auto simp: stored_def)
      then show ?thesis using Some b by (simp add: in_step_def)
    next
      assume "(k, c) \<in> set (hb_tiles h)"
      then have "map_of (hb_tiles h) k = Some c" using dist by simp
      then show ?thesis using Some b reset h'(6) unfolding in_step_def by (metis (no_types, lifting) option.simps(5))
    qed
  qed
  then show ?thesis using b h' unfolding in_step_def by simp
qed

text \<open>Looking brings the canvas up to date.\<close>

lemma snapshot_draw:
  assumes ok: "hub_ok h" and s: "snapshot a h = (f, data, next)"
  shows "f_reset f = (a < hb_reset h)" "f_w f = f_w (hb_frame h)" "f_h f = f_h (hb_frame h)" "next = hb_rev h"
    "(k, c) \<in> set (hb_tiles h) \<Longrightarrow> a < c_rev c \<or> a < hb_reset h \<Longrightarrow>
       draw_tiles (zip (f_tiles f) (slices (f_tiles f) data)) m k = Some (c_tile c, c_data c)"
    "\<forall>c. (k, c) \<in> set (hb_tiles h) \<longrightarrow> \<not> (a < c_rev c \<or> a < hb_reset h) \<Longrightarrow>
       draw_tiles (zip (f_tiles f) (slices (f_tiles f) data)) m k = m k"
proof -
  define sel where "sel = sort_key (\<lambda>c. (t_y (c_tile c), t_x (c_tile c))) (filter (\<lambda>c. c_rev c > a \<or> a < hb_reset h) (map snd (hb_tiles h)))"
  have f: "f = (hb_frame h)\<lparr>f_tiles := map c_tile sel, f_reset := (a < hb_reset h)\<rparr>" and data: "data = concat (map c_data sel)"
    and nx: "next = hb_rev h"
    using s by (simp_all add: snapshot_def sel_def Let_def)
  show "f_reset f = (a < hb_reset h)" "f_w f = f_w (hb_frame h)" "f_h f = f_h (hb_frame h)" "next = hb_rev h" by (simp_all add: f nx)
  have entry: "\<And>k c. (k, c) \<in> set (hb_tiles h) \<Longrightarrow> k = tpos (c_tile c) \<and> t_size (c_tile c) = int (length (c_data c)) \<and> c_data c \<noteq> []"
    using ok by (auto simp: hub_ok_def)
  have sel: "c \<in> set sel \<longleftrightarrow> (\<exists>k. (k, c) \<in> set (hb_tiles h)) \<and> (a < c_rev c \<or> a < hb_reset h)" for c by (force simp: sel_def)
  have sz: "sized (map c_tile sel) (map c_data sel)"
    unfolding sized_def list_all2_map1 list_all2_map2 using sel entry by (auto simp: list_all2_same)
  have "zip (map c_tile cs) (map c_data cs) = map (\<lambda>c. (c_tile c, c_data c)) cs" for cs by (induction cs) simp_all
  then have tds: "zip (f_tiles f) (slices (f_tiles f) data) = map (\<lambda>c. (c_tile c, c_data c)) sel"
    using slices_concat[OF sz] unfolding f data by simp
  have "map (\<lambda>c. tpos (c_tile c)) (map snd (hb_tiles h)) = map fst (hb_tiles h)" using entry by (auto simp: comp_def)
  then have dist: "distinct (map (\<lambda>c. tpos (c_tile c)) (map snd (hb_tiles h)))" using ok by (simp add: hub_ok_def del: map_map)
  then have inj: "inj_on (\<lambda>c. tpos (c_tile c)) (snd ` set (hb_tiles h))" "distinct (map snd (hb_tiles h))"
    unfolding distinct_map by auto
  have "distinct (map (\<lambda>c. tpos (c_tile c)) sel)"
    unfolding distinct_map using inj by (auto simp: sel_def intro: inj_on_subset)
  then have distinct: "distinct (map (tpos \<circ> fst) (map (\<lambda>c. (c_tile c, c_data c)) sel))" by (simp add: comp_def)
  show "draw_tiles (zip (f_tiles f) (slices (f_tiles f) data)) m k = Some (c_tile c, c_data c)"
    if "(k, c) \<in> set (hb_tiles h)" "a < c_rev c \<or> a < hb_reset h"
  proof -
    have "c \<in> set sel" using that sel by blast
    then show ?thesis using draw_mem[OF distinct, of "(c_tile c, c_data c)" m] entry[OF that(1)] by (simp add: tds)
  qed
  show "draw_tiles (zip (f_tiles f) (slices (f_tiles f) data)) m k = m k"
    if none: "\<forall>c. (k, c) \<in> set (hb_tiles h) \<longrightarrow> \<not> (a < c_rev c \<or> a < hb_reset h)"
    unfolding tds by (rule draw_other) (use none sel entry in force)
qed

lemma browse_current:
  assumes ok: "hub_ok h" and b: "in_step h b" and some: "hb_rev h \<noteq> 0"
  shows "fst (browse h b) = hb_rev h" "cv_tiles (snd (browse h b)) = view (hb_tiles h)"
    "cv_w (snd (browse h b)) = f_w (hb_frame h)" "cv_h (snd (browse h b)) = f_h (hb_frame h)"
proof -
  obtain a cv where ab: "b = (a, cv)" by fastforce
  have le: "a \<le> hb_rev h" using b by (simp add: in_step_def ab)
  have dist: "distinct (map fst (hb_tiles h))" and revs: "\<And>k c. (k, c) \<in> set (hb_tiles h) \<Longrightarrow> c_rev c \<le> hb_rev h"
    and "hb_reset h \<le> hb_rev h" using ok by (auto simp: hub_ok_def)
  have kept: "cv_w cv = f_w (hb_frame h)" "cv_h cv = f_h (hb_frame h)"
    "map_of (hb_tiles h) k = None \<Longrightarrow> cv_tiles cv k = None"
    "map_of (hb_tiles h) k = Some c \<Longrightarrow> c_rev c \<le> a \<Longrightarrow> cv_tiles cv k = Some (c_tile c, c_data c)"
    if "hb_reset h \<le> a" for k c
  proof -
    have all: "cv_w cv = f_w (hb_frame h) \<and> cv_h cv = f_h (hb_frame h) \<and> (\<forall>k. case map_of (hb_tiles h) k of None \<Rightarrow> cv_tiles cv k = None
        | Some c \<Rightarrow> c_rev c \<le> a \<longrightarrow> cv_tiles cv k = Some (c_tile c, c_data c))"
      using b that some unfolding in_step_def ab fst_conv snd_conv by blast
    note entry = conjunct2[OF conjunct2[OF all], THEN spec, of k]
    show "cv_w cv = f_w (hb_frame h)" "cv_h cv = f_h (hb_frame h)" using all by simp_all
    show "map_of (hb_tiles h) k = None \<Longrightarrow> cv_tiles cv k = None" using entry by simp
    show "map_of (hb_tiles h) k = Some c \<Longrightarrow> c_rev c \<le> a \<Longrightarrow> cv_tiles cv k = Some (c_tile c, c_data c)" using entry by simp
  qed
  have "fst (browse h b) = hb_rev h \<and> cv_tiles (snd (browse h b)) = view (hb_tiles h)
    \<and> cv_w (snd (browse h b)) = f_w (hb_frame h) \<and> cv_h (snd (browse h b)) = f_h (hb_frame h)"
  proof (cases "a = hb_rev h")
    case True
    then have reset: "hb_reset h \<le> a" using \<open>hb_reset h \<le> hb_rev h\<close> by simp
    have "cv_tiles cv k = view (hb_tiles h) k" for k
    proof (cases "map_of (hb_tiles h) k")
      case (Some c)
      then show ?thesis using kept(4)[OF reset Some] revs map_of_SomeD[OF Some] True by (simp add: view_def)
    qed (use kept(3)[OF reset] in \<open>simp add: view_def\<close>)
    then show ?thesis using True kept(1,2)[OF reset] by (simp add: browse_def ab fun_eq_iff)
  next
    case False
    obtain f data n where s: "snapshot a h = (f, data, n)" by (metis prod_cases3)
    note d = snapshot_draw[OF ok s]
    have run: "browse h b = (hb_rev h, paint f data cv)" using False le by (simp add: browse_def ab s d(4))
    have "cv_tiles (paint f data cv) k = view (hb_tiles h) k" for k
    proof (cases "map_of (hb_tiles h) k")
      case None
      then have "\<forall>c. (k, c) \<in> set (hb_tiles h) \<longrightarrow> \<not> (a < c_rev c \<or> a < hb_reset h)" using dist by force
      from d(6)[OF this] show ?thesis using None kept(3) by (simp add: paint_def Let_def view_def d(1) not_less)
    next
      case (Some c)
      have mem: "(k, c) \<in> set (hb_tiles h)" using Some by (rule map_of_SomeD)
      show ?thesis
      proof (cases "a < c_rev c \<or> a < hb_reset h")
        case True
        show ?thesis using d(5)[OF mem True] Some by (simp add: paint_def Let_def view_def)
      next
        case False
        have "\<forall>c'. (k, c') \<in> set (hb_tiles h) \<longrightarrow> \<not> (a < c_rev c' \<or> a < hb_reset h)" using False mem dist by (metis map_of_is_SomeI option.inject)
        from d(6)[OF this] show ?thesis using Some kept(4)[OF _ Some] False by (simp add: paint_def Let_def view_def d(1) not_less)
      qed
    qed
    moreover have "cv_w (paint f data cv) = f_w (hb_frame h)" "cv_h (paint f data cv) = f_h (hb_frame h)"
      using kept(1,2) by (auto simp: paint_def Let_def d(1,2,3) not_less)
    ultimately show ?thesis by (simp add: run fun_eq_iff)
  qed
  then show "fst (browse h b) = hb_rev h" "cv_tiles (snd (browse h b)) = view (hb_tiles h)"
    "cv_w (snd (browse h b)) = f_w (hb_frame h)" "cv_h (snd (browse h b)) = f_h (hb_frame h)" by blast+
qed

end
