(* ===== verification/Screen.thy ===== *)
theory Screen
  imports Tiles_Props
begin

text \<open>
  The screen from capture to browser: the stream of \<open>runTileStream\<close> (\<open>internal/agentapp/tiles.go\<close>), frames in
  flight in their order, the viewer's cache and a browser that looks now and then. The theorems say that what the
  encoder sends is what the receiver accepts, and that the browser sees the screen.
\<close>

section \<open>Sending\<close>

text \<open>The frame sent for a captured image: none when nothing changed and idle saving is on.\<close>

definition stream_frame ::
  "codec \<Rightarrow> rgba \<Rightarrow> int \<Rightarrow> int \<Rightarrow> int \<Rightarrow> bool \<Rightarrow> rgba option \<Rightarrow> (tile_error + (tile_frame \<times> bytes) option) \<times> rgba option"
where
  "stream_frame cd img sw sh quality save_idle enc =
     (case Encode cd (Some img) quality False enc of
        (Inl err, enc) \<Rightarrow> (Inl err, enc)
      | (Inr (f, data), enc) \<Rightarrow>
          (Inr (if f_tiles f \<noteq> [] \<or> \<not> save_idle then Some (f\<lparr>f_sw := sw, f_sh := sh\<rparr>, data) else None), enc))"

section \<open>What an encoder produces\<close>

text \<open>\<open>out\<close> is an encoding of exactly these pixels.\<close>

definition depicts :: "codec \<Rightarrow> pixels \<Rightarrow> string \<Rightarrow> bytes \<Rightarrow> bool" where
  "depicts cd px mime out \<longleftrightarrow> mime = ''image/png'' \<and> enc_png cd px = Inr out \<or> mime = ''image/jpeg'' \<and> (\<exists>q. enc_jpeg cd q px = Inr out)"

text \<open>Encoded images are never empty: both formats begin with a signature.\<close>

definition real_codec :: "codec \<Rightarrow> bool" where
  "real_codec cd \<longleftrightarrow> (\<forall>px. enc_png cd px \<noteq> Inr []) \<and> (\<forall>q px. enc_jpeg cd q px \<noteq> Inr [])"

lemma encode_tile_Inr:
  "encode_tile cd img q r = Inr (t, out) \<Longrightarrow> t = tile_at r out (t_mime t) \<and> depicts cd (sub_image img r) (t_mime t) out"
  by (auto simp: encode_tile_def depicts_def tile_at_def Let_def split: if_splits sum.splits)

lemma encode_all_Inr:
  "encode_all cd img q rs = Inr (ts, data) \<Longrightarrow>
     \<exists>tds. ts = map fst tds \<and> data = concat (map snd tds) \<and> list_all2 (\<lambda>r td. encode_tile cd img q r = Inr td) rs tds"
proof (induction rs arbitrary: ts data)
  case (Cons r rs)
  then obtain t out us more where run: "encode_tile cd img q r = Inr (t, out)" "encode_all cd img q rs = Inr (us, more)"
    "ts = t # us" "data = out @ more"
    by (auto split: sum.splits prod.splits)
  obtain tds where tds: "us = map fst tds" "more = concat (map snd tds)" "list_all2 (\<lambda>r td. encode_tile cd img q r = Inr td) rs tds"
    using Cons.IH[OF run(2)] by blast
  show ?case by (rule exI[of _ "(t, out) # tds"]) (simp add: run tds)
qed simp

lemma Encode_Inr:
  assumes "Encode cd (Some img) q force prev = (Inr (f, data), st)"
  obtains tds where "f_tiles f = map fst tds" "data = concat (map snd tds)" "f_w f = im_w img" "f_h f = im_h img" "st = Some img"
    "1 \<le> im_w img" "1 \<le> im_h img" "im_w img * im_h img \<le> MaxPixels" "im_x0 img = 0" "im_y0 img = 0"
    "f_reset f = (force \<or> (case prev of None \<Rightarrow> True | Some old \<Rightarrow> \<not> same_rect old img))"
    "list_all2 (\<lambda>r td. encode_tile cd img q r = Inr td)
       (filter (\<lambda>r. f_reset f \<or> (case prev of None \<Rightarrow> True | Some old \<Rightarrow> rect_changed img old r)) (grid (im_w img) (im_h img))) tds"
proof -
  let ?fresh = "force \<or> (case prev of None \<Rightarrow> True | Some old \<Rightarrow> \<not> same_rect old img)"
  let ?rs = "filter (\<lambda>r. ?fresh \<or> (case prev of None \<Rightarrow> True | Some old \<Rightarrow> rect_changed img old r)) (grid (im_w img) (im_h img))"
  obtain ts d where run: "encode_all cd img q ?rs = Inr (ts, d)"
    and f: "f = \<lparr>f_revision = 0, f_w = im_w img, f_h = im_h img, f_sw = 0, f_sh = 0, f_reset = ?fresh, f_tiles = ts\<rparr>" "data = d" "st = Some img"
    and dims: "1 \<le> im_w img" "1 \<le> im_h img" "im_w img * im_h img \<le> MaxPixels" "im_x0 img = 0" "im_y0 img = 0"
    using assms unfolding Encode_def Let_def by (auto split: if_splits sum.splits)
  obtain tds where tds: "ts = map fst tds" "d = concat (map snd tds)" "list_all2 (\<lambda>r td. encode_tile cd img q r = Inr td) ?rs tds"
    using encode_all_Inr[OF run] by blast
  show thesis by (rule that[of tds]) (use tds(3) in \<open>simp_all add: f tds(1,2) dims\<close>)
qed

section \<open>Encoded frames are accepted\<close>

lemma scan_tiles_ok:
  "distinct (map tpos ts) \<Longrightarrow> tpos ` set ts \<inter> set seen = {} \<Longrightarrow> sized ts ds \<Longrightarrow> n + int (length (concat ds)) \<le> len \<Longrightarrow>
     \<forall>t \<in> set ts. 0 \<le> t_x t \<and> 0 \<le> t_y t \<and> 1 \<le> t_w t \<and> 1 \<le> t_h t \<and> t_x t + t_w t \<le> f_w f \<and> t_y t + t_h t \<le> f_h f
       \<and> t_mime t \<in> {''image/png'', ''image/jpeg''} \<Longrightarrow> f_w f \<le> 16384 \<Longrightarrow> f_h f \<le> 16384 \<Longrightarrow>
     scan_tiles f len seen n ts = Inr (n + int (length (concat ds)))"
proof (induction ts arbitrary: seen n ds)
  case (Cons t ts)
  obtain d es where ds: "ds = d # es" using Cons.prems(3) by (cases ds) (simp_all add: sized_def)
  have sz: "t_size t = int (length d)" "d \<noteq> []" "sized ts es" using Cons.prems(3) by (simp_all add: ds)
  have t: "0 \<le> t_x t" "0 \<le> t_y t" "1 \<le> t_w t" "1 \<le> t_h t" "t_x t + t_w t \<le> f_w f" "t_y t + t_h t \<le> f_h f"
    "t_mime t \<in> {''image/png'', ''image/jpeg''}"
    using Cons.prems(5) by simp_all
  have wrap: "wrap64 z = z" if "0 \<le> z" "z \<le> 16384" for z
    using that by (intro wrap64_small) simp_all
  have "int (length d) \<ge> 1" using sz(2) by (cases d) simp_all
  then have good: "\<not> bad_tile f (len - n) t"
    using t Cons.prems(4,6,7) wrap[of "t_x t + t_w t"] wrap[of "t_y t + t_h t"] by (auto simp: bad_tile_def ds sz(1))
  have "scan_tiles f len (tpos t # seen) (n + t_size t) ts = Inr (n + t_size t + int (length (concat es)))"
    using Cons.prems sz by (intro Cons.IH) (auto simp: ds)
  then show ?case using good Cons.prems(2) by (simp add: ds sz(1) tpos_def)
qed (simp add: sized_def)

lemma grid_bound:
  assumes "1 \<le> w" "1 \<le> h" "w \<le> 16384" "h \<le> 16384" "w * h \<le> MaxPixels"
  shows "length (grid w h) \<le> 1024"
proof -
  define a where "a = (w + TileSize - 1) div TileSize"
  define b where "b = (h + TileSize - 1) div TileSize"
  have ab: "0 \<le> a" "0 \<le> b" "256 * a \<le> w + 255" "256 * b \<le> h + 255" using assms by (simp_all add: a_def b_def TileSize_def)
  have "(256 * a) * (256 * b) \<le> (w + 255) * (h + 255)" by (rule mult_mono) (use ab assms in auto)
  also have "\<dots> = w * h + 255 * w + 255 * h + 65025" by (simp add: algebra_simps)
  also have "\<dots> \<le> 41598465" using assms by (simp add: MaxPixels_def)
  finally have "65536 * (a * b) \<le> 41598465" by simp
  then have "a * b \<le> 1024" by simp
  moreover have "int (length (grid w h)) = a * b" using grid_length[of w h] assms by (simp add: a_def b_def)
  ultimately show ?thesis by simp
qed

lemma encoded_tiles:
  assumes "list_all2 (\<lambda>r td. encode_tile cd img q r = Inr td) rs tds"
  shows "map (\<lambda>td. tpos (fst td)) tds = map corner rs" "\<forall>td \<in> set tds. \<exists>r \<in> set rs. encode_tile cd img q r = Inr td"
  using assms
proof (induction rule: list_all2_induct)
  case (Cons r rs td tds)
  then have "tpos (fst td) = corner r" using encode_tile_Inr[of cd img q r "fst td" "snd td"]
    by (metis corner_def prod.collapse select_convs(1,2) tile_at_def tile.select_convs(1,2) tpos_def)
  then show "map (\<lambda>td. tpos (fst td)) (td # tds) = map corner (r # rs)" using Cons.IH by simp
  show "\<forall>td \<in> set (td # tds). \<exists>r \<in> set (r # rs). encode_tile cd img q r = Inr td" using Cons by auto
qed simp_all

text \<open>C33: What the agent sends the viewer takes. For an image of at most 16384 pixels a side the encoder's frame passes the
  receiver's checks, the grid and the completeness of a keyframe included, when the viewer has the previous frame's
  size or the frame is a keyframe: the only refusal left is a cache that would exceed the payload limit.\<close>

theorem encoded_frame_accepted:
  assumes enc: "Encode cd (Some img) q force prev = (Inr (f, data), st)" and real: "real_codec cd"
    and dims: "im_w img \<le> 16384" "im_h img \<le> 16384"
    and base: "f_reset f \<or> hb_rev h \<noteq> 0 \<and> f_w (hb_frame h) = im_w img \<and> f_h (hb_frame h) = im_h img"
  shows "fst (publish f data False h) = (if retained_bytes f h > MaxDataSize then Inl Cache_full else Inr ())"
proof -
  obtain tds where f: "f_tiles f = map fst tds" "data = concat (map snd tds)" "f_w f = im_w img" "f_h f = im_h img"
    and img: "1 \<le> im_w img" "1 \<le> im_h img" "im_w img * im_h img \<le> MaxPixels"
    and all: "list_all2 (\<lambda>r td. encode_tile cd img q r = Inr td)
       (filter (\<lambda>r. f_reset f \<or> (case prev of None \<Rightarrow> True | Some old \<Rightarrow> rect_changed img old r)) (grid (im_w img) (im_h img))) tds"
    using Encode_Inr[OF enc] by metis
  let ?rs = "filter (\<lambda>r. f_reset f \<or> (case prev of None \<Rightarrow> True | Some old \<Rightarrow> rect_changed img old r)) (grid (im_w img) (im_h img))"
  note tiles = encoded_tiles[OF all]
  have "distinct (map corner ?rs)" using grid_distinct[of "im_w img" "im_h img"] by (simp add: distinct_map inj_on_subset[of corner "set (grid (im_w img) (im_h img))"])
  then have distinct: "distinct (map tpos (f_tiles f))" by (simp add: f(1) comp_def tiles(1))
  have each: "t_size (fst td) = int (length (snd td)) \<and> snd td \<noteq> [] \<and> (\<exists>r \<in> set (grid (im_w img) (im_h img)). \<exists>m.
      fst td = tile_at r (snd td) m \<and> m \<in> {''image/png'', ''image/jpeg''})" if td: "td \<in> set tds" for td
  proof -
    obtain r where r: "r \<in> set (grid (im_w img) (im_h img))" "encode_tile cd img q r = Inr td"
      using bspec[OF tiles(2) td] by (elim bexE) (simp only: set_filter mem_Collect_eq, blast)
    from encode_tile_Inr[of cd img q r "fst td" "snd td"] r(2)
    have e: "fst td = tile_at r (snd td) (t_mime (fst td))" "depicts cd (sub_image img r) (t_mime (fst td)) (snd td)" by simp_all
    have "snd td \<noteq> []" using e(2) real unfolding depicts_def real_codec_def by metis
    moreover have "t_mime (fst td) \<in> {''image/png'', ''image/jpeg''}" using e(2) unfolding depicts_def by blast
    moreover have "t_size (fst td) = int (length (snd td))" by (subst e(1)) (simp add: tile_at_def)
    ultimately show ?thesis using e(1) r(1) by blast
  qed
  have sized: "sized (f_tiles f) (map snd tds)"
    unfolding sized_def f(1) list_all2_map1 list_all2_map2 using each by (auto simp: list_all2_same)
  have tile: "0 \<le> t_x t \<and> 0 \<le> t_y t \<and> 1 \<le> t_w t \<and> 1 \<le> t_h t \<and> t_x t + t_w t \<le> f_w f \<and> t_y t + t_h t \<le> f_h f
      \<and> t_mime t \<in> {''image/png'', ''image/jpeg''} \<and> on_grid f t" if t: "t \<in> set (f_tiles f)" for t
  proof -
    obtain td where td: "td \<in> set tds" "t = fst td" using t by (auto simp: f(1))
    then obtain r m where r: "r \<in> set (grid (im_w img) (im_h img))" "t = tile_at r (snd td) m"
      "m \<in> {''image/png'', ''image/jpeg''}" using each[OF td(1)] by auto
    show ?thesis using r(1,3) by (auto simp: r(2) tile_at_def grid_mem on_grid_def f(3,4) TileSize_def)
  qed
  have scan: "scan_tiles f (int (length data)) [] 0 (f_tiles f) = Inr (int (length data))"
    using scan_tiles_ok[OF distinct _ sized, of "[]" 0 "int (length data)" f] tile dims by (simp add: f(2-4))
  have few: "length (f_tiles f) \<le> 1024"
  proof -
    have "length tds = length ?rs" using all by (rule list_all2_lengthD[symmetric])
    also have "\<dots> \<le> length (grid (im_w img) (im_h img))" by (rule length_filter_le)
    also have "\<dots> \<le> 1024" by (rule grid_bound[OF img(1,2) dims img(3)])
    finally show ?thesis by (simp add: f(1))
  qed
  have "Validate f data = Inr ()" using scan few img dims by (simp add: Validate_def f(3,4) del: of_nat_le_iff)
  moreover have "list_all (on_grid f) (f_tiles f)" using tile by (simp add: list_all_iff)
  moreover have "int (length (f_tiles f)) = whole_grid f" if "f_reset f"
  proof -
    have "length tds = length (grid (im_w img) (im_h img))" using list_all2_lengthD[OF all] that by simp
    then show ?thesis using grid_length[OF img(1,2)] by (simp add: f whole_grid_def)
  qed
  ultimately show ?thesis using base by (auto simp: publish_def Let_def f(3,4))
qed

section \<open>The browser sees the screen\<close>

text \<open>What is drawn is this image: it has the image's size, every rectangle of the grid has a tile that encodes exactly the
  image's pixels there, and nothing else is drawn.\<close>

definition displays :: "codec \<Rightarrow> int \<Rightarrow> int \<Rightarrow> (int \<times> int \<Rightarrow> (tile \<times> bytes) option) \<Rightarrow> rgba \<Rightarrow> bool" where
  "displays cd w h m img \<longleftrightarrow> w = im_w img \<and> h = im_h img
     \<and> (\<forall>r \<in> set (grid w h). \<exists>t out. m (corner r) = Some (t, out) \<and> t = tile_at r out (t_mime t)
          \<and> depicts cd (sub_image img r) (t_mime t) out)
     \<and> (\<forall>k. m k \<noteq> None \<longrightarrow> k \<in> corner ` set (grid w h))"

text \<open>Two images that look the same.\<close>

definition looks :: "rgba \<Rightarrow> rgba \<Rightarrow> bool" where
  "looks a b \<longleftrightarrow> im_w a = im_w b \<and> im_h a = im_h b \<and> (\<forall>r \<in> set (grid (im_w a) (im_h a)). sub_image a r = sub_image b r)"

lemma looks_refl [simp]: "looks a a" and looks_trans: "looks a b \<Longrightarrow> looks b c \<Longrightarrow> looks a c"
  by (simp_all add: looks_def)

lemma displays_looks:
  assumes m: "displays cd w h m a" and l: "looks a b"
  shows "displays cd w h m b"
proof -
  have "\<exists>t out. m (corner r) = Some (t, out) \<and> t = tile_at r out (t_mime t) \<and> depicts cd (sub_image b r) (t_mime t) out"
    if r: "r \<in> set (grid w h)" for r
  proof -
    have "sub_image a r = sub_image b r" using m l r by (simp add: displays_def looks_def)
    then show ?thesis using m r unfolding displays_def by metis
  qed
  then show ?thesis using m l unfolding displays_def looks_def by metis
qed

lemma unchanged_rect: "\<not> rect_changed img old r \<Longrightarrow> sub_image old r = sub_image img r"
  by (simp add: rect_changed_def sub_image_def list_ex_iff)

text \<open>A frame of the encoder, relative to nothing or to what is already shown.\<close>

definition next_frame :: "codec \<Rightarrow> rgba option \<Rightarrow> tile_frame \<Rightarrow> bytes \<Rightarrow> rgba \<Rightarrow> bool" where
  "next_frame cd last_img f data img \<longleftrightarrow> (\<exists>q prev g st. fst (Encode cd (Some img) q False prev) = Inr (g, data) \<and> st = Some img
     \<and> (prev = None \<or> (\<exists>p l. prev = Some p \<and> last_img = Some l \<and> looks l p))
     \<and> f_tiles f = f_tiles g \<and> f_w f = f_w g \<and> f_h f = f_h g \<and> f_reset f = f_reset g)"

lemma frame_displayed:
  assumes frame: "next_frame cd last_img f data img" and ok: "hub_ok h"
    and before: "\<And>l. last_img = Some l \<Longrightarrow> displays cd (f_w (hb_frame h)) (f_h (hb_frame h)) (view (hb_tiles h)) l"
    and p: "publish f data False h = (Inr u, h')"
  shows "displays cd (f_w (hb_frame h')) (f_h (hb_frame h')) (view (hb_tiles h')) img"
proof -
  obtain q prev g where enc: "fst (Encode cd (Some img) q False prev) = Inr (g, data)"
    and prev: "prev = None \<or> (\<exists>p l. prev = Some p \<and> last_img = Some l \<and> looks l p)"
    and f: "f_tiles f = f_tiles g" "f_w f = f_w g" "f_h f = f_h g" "f_reset f = f_reset g"
    using frame unfolding next_frame_def by blast
  have enc: "Encode cd (Some img) q False prev = (Inr (g, data), snd (Encode cd (Some img) q False prev))" using enc by (metis prod.collapse)
  obtain tds where g: "f_tiles g = map fst tds" "data = concat (map snd tds)" "f_w g = im_w img" "f_h g = im_h img"
    and reset: "f_reset g = (False \<or> (case prev of None \<Rightarrow> True | Some old \<Rightarrow> \<not> same_rect old img))"
    and all: "list_all2 (\<lambda>r td. encode_tile cd img q r = Inr td)
       (filter (\<lambda>r. f_reset g \<or> (case prev of None \<Rightarrow> True | Some old \<Rightarrow> rect_changed img old r)) (grid (im_w img) (im_h img))) tds"
    using Encode_Inr[OF enc] by metis
  let ?grid = "grid (im_w img) (im_h img)"
  let ?rs = "filter (\<lambda>r. f_reset g \<or> (case prev of None \<Rightarrow> True | Some old \<Rightarrow> rect_changed img old r)) ?grid"
  note q = publish_Inr[OF p] and v = Validate_Inr[OF publish_Inr(1)[OF p]] and tiles = encoded_tiles[OF all]
  have each: "t_size (fst td) = int (length (snd td))" if td: "td \<in> set tds" for td
  proof -
    obtain r where "encode_tile cd img q r = Inr td" using bspec[OF tiles(2) td] by blast
    then have "fst td = tile_at r (snd td) (t_mime (fst td))" using encode_tile_Inr[of cd img q r "fst td" "snd td"] by simp
    then show ?thesis by (metis tile_at_def tile.select_convs(5))
  qed
  have "snd td \<noteq> []" if td: "td \<in> set tds" for td
  proof -
    have "fst td \<in> set (f_tiles f)" using td by (simp add: f(1) g(1))
    then obtain d where "(fst td, d) \<in> set (zip (f_tiles f) (slices (f_tiles f) data))" by (metis in_set_impl_in_set_zip1 slices_length)
    then have "t_size (fst td) = int (length d) \<and> d \<noteq> []" using v(2) unfolding sized_def list_all2_iff by blast
    then show ?thesis using each[OF td] by auto
  qed
  then have "sized (f_tiles f) (map snd tds)"
    unfolding sized_def f(1) g(1) list_all2_map1 list_all2_map2 using each by (auto simp: list_all2_same)
  then have "slices (f_tiles f) data = map snd tds" by (simp add: g(2) slices_concat)
  then have tds: "zip (f_tiles f) (slices (f_tiles f) data) = tds" by (simp add: f(1) g(1) zip_map_fst_snd)
  have "hb_tiles h' = store_tiles (Suc (hb_rev h)) (f_tiles f) data (if f_reset f then [] else hb_tiles h)" by (simp add: q(5))
  then have hub: "view (hb_tiles h') = draw_tiles tds (view (if f_reset f then [] else hb_tiles h))"
    "f_w (hb_frame h') = im_w img" "f_h (hb_frame h') = im_h img"
    unfolding view_store tds by (simp_all add: view_store tds q(5) f(2,3) g(3,4))
  have distinct: "distinct (map (tpos \<circ> fst) tds)" using v(1) by (simp add: f(1) g(1) comp_def)
  have keys: "tpos ` fst ` set tds = corner ` set ?rs"
    using arg_cong[OF tiles(1), of set] by (simp add: image_image)
  have drawn: "\<exists>t out. view (hb_tiles h') (corner r) = Some (t, out) \<and> t = tile_at r out (t_mime t) \<and> depicts cd (sub_image img r) (t_mime t) out"
    if r: "r \<in> set ?rs" for r
  proof -
    obtain i where i: "i < length ?rs" "r = ?rs ! i" using r by (metis in_set_conv_nth)
    define td where "td = tds ! i"
    have td: "td \<in> set tds" "encode_tile cd img q r = Inr td"
      using i list_all2_nthD[OF all i(1)] list_all2_lengthD[OF all] by (simp_all add: td_def)
    have e: "fst td = tile_at r (snd td) (t_mime (fst td)) \<and> depicts cd (sub_image img r) (t_mime (fst td)) (snd td)"
      using encode_tile_Inr[of cd img q r "fst td" "snd td"] td(2) by simp
    then have "tpos (fst td) = corner r" by (metis corner_def select_convs(1,2) tile_at_def tile.select_convs(1,2) tpos_def)
    then have "view (hb_tiles h') (corner r) = Some td" using draw_mem[OF distinct td(1)] by (simp add: hub(1))
    then show ?thesis using e by (metis prod.collapse)
  qed
  have kept: "\<exists>l. displays cd (im_w img) (im_h img) (view (hb_tiles h)) l \<and> \<not> f_reset f
      \<and> (\<forall>r \<in> set ?grid - set ?rs. sub_image l r = sub_image img r)" if some: "\<not> f_reset f"
  proof -
    obtain p l where pl: "prev = Some p" "last_img = Some l" "looks l p" using prev some reset f(4) by auto
    have rect: "same_rect p img" using some reset f(4) by (simp add: pl(1))
    have shown: "displays cd (f_w (hb_frame h)) (f_h (hb_frame h)) (view (hb_tiles h)) l" by (rule before[OF pl(2)])
    have "f_w (hb_frame h) = im_w img" "f_h (hb_frame h) = im_h img" using shown pl(3) rect by (simp_all add: displays_def looks_def same_rect_def)
    moreover have "sub_image l r = sub_image img r" if r: "r \<in> set ?grid - set ?rs" for r
    proof -
      have "\<not> rect_changed img p r" using r by (simp add: pl(1))
      then have "sub_image p r = sub_image img r" by (rule unchanged_rect)
      moreover have "sub_image l r = sub_image p r" using pl(3) r rect by (simp add: looks_def same_rect_def)
      ultimately show ?thesis by simp
    qed
    ultimately show ?thesis using shown some by auto
  qed
  have cornered: "corner r \<notin> corner ` set ?rs" if "r \<in> set ?grid - set ?rs" for r
    using that grid_distinct[of "im_w img" "im_h img"] unfolding distinct_map inj_on_def by auto
  show ?thesis unfolding displays_def hub(2,3)
  proof (intro conjI ballI allI impI)
    fix r assume r: "r \<in> set ?grid"
    show "\<exists>t out. view (hb_tiles h') (corner r) = Some (t, out) \<and> t = tile_at r out (t_mime t) \<and> depicts cd (sub_image img r) (t_mime t) out"
    proof (cases "r \<in> set ?rs")
      case False
      then have out: "r \<in> set ?grid - set ?rs" using r by blast
      have "\<not> f_reset f" using False r by (auto simp: f(4))
      then obtain l where l: "displays cd (im_w img) (im_h img) (view (hb_tiles h)) l" "\<not> f_reset f" "sub_image l r = sub_image img r"
        using kept out by blast
      have "view (hb_tiles h') (corner r) = view (hb_tiles h) (corner r)"
        unfolding hub(1) using draw_other[of "corner r" tds] cornered[OF out] keys l(2) by auto
      then show ?thesis using l r unfolding displays_def by metis
    qed (rule drawn)
  next
    fix k assume k: "view (hb_tiles h') k \<noteq> None"
    show "k \<in> corner ` set ?grid"
    proof (cases "k \<in> corner ` set ?rs")
      case False
      then have base: "view (if f_reset f then [] else hb_tiles h) k \<noteq> None" using k draw_other[of k tds] keys by (simp add: hub(1))
      then have plain: "\<not> f_reset f" by (auto simp: view_def)
      then obtain l where "displays cd (im_w img) (im_h img) (view (hb_tiles h)) l" using kept by blast
      moreover have "view (hb_tiles h) k \<noteq> None" using base plain by simp
      ultimately show ?thesis unfolding displays_def by blast
    qed auto
  qed simp_all
qed

section \<open>From capture to browser\<close>

text \<open>The encoder with the image it compares with, the frames in flight with the images they were made from, the viewer's
  cache with the image of the last frame that arrived, and a browser. The connection keeps the order of the
  frames; it may end at any time, after which nothing is captured or delivered.\<close>

record desk =
  dk_enc :: "rgba option"
  dk_flight :: "(tile_frame \<times> bytes \<times> rgba) list"
  dk_hub :: hub
  dk_shown :: "rgba option"
  dk_browser :: "nat \<times> canvas"
  dk_over :: bool

definition new_desk :: desk where
  "new_desk = \<lparr>dk_enc = None, dk_flight = [], dk_hub = newTileHub, dk_shown = None,
     dk_browser = (0, \<lparr>cv_w = 0, cv_h = 0, cv_tiles = Map.empty\<rparr>), dk_over = False\<rparr>"

datatype desk_event = Capture rgba int int int bool | Fresh_encoder | Arrive | Look

fun desk_step :: "codec \<Rightarrow> desk \<Rightarrow> desk_event \<Rightarrow> desk" where
  "desk_step cd s (Capture img sw sh quality save_idle) =
     (if dk_over s then s
      else case stream_frame cd img sw sh quality save_idle (dk_enc s) of
        (Inl err, enc) \<Rightarrow> s\<lparr>dk_enc := None, dk_flight := [], dk_over := True\<rparr>
      | (Inr None, enc) \<Rightarrow> s\<lparr>dk_enc := enc\<rparr>
      | (Inr (Some (f, data)), enc) \<Rightarrow> s\<lparr>dk_enc := enc, dk_flight := dk_flight s @ [(f, data, img)]\<rparr>)"
| "desk_step cd s Fresh_encoder = s\<lparr>dk_enc := None\<rparr>"
| "desk_step cd s Arrive =
     (case dk_flight s of [] \<Rightarrow> s
      | (f, data, img) # rest \<Rightarrow>
          (case publish f data False (dk_hub s) of
             (Inl err, h) \<Rightarrow> s\<lparr>dk_enc := None, dk_flight := [], dk_over := True\<rparr>
           | (Inr _, h) \<Rightarrow> s\<lparr>dk_hub := h, dk_shown := Some img, dk_flight := rest\<rparr>))"
| "desk_step cd s Look = s\<lparr>dk_browser := browse (dk_hub s) (dk_browser s)\<rparr>"

fun linked :: "codec \<Rightarrow> rgba option \<Rightarrow> (tile_frame \<times> bytes \<times> rgba) list \<Rightarrow> rgba option \<Rightarrow> bool" where
  "linked cd base [] enc \<longleftrightarrow> enc = None \<or> (\<exists>p l. enc = Some p \<and> base = Some l \<and> looks l p)"
| "linked cd base ((f, data, img) # fl) enc \<longleftrightarrow> next_frame cd base f data img \<and> linked cd (Some img) fl enc"

lemma linked_none: "linked cd base fl enc \<Longrightarrow> linked cd base fl None"
  by (induction fl arbitrary: base) auto

lemma linked_snoc:
  assumes "linked cd base fl enc" "Encode cd (Some img) q False enc = (Inr (g, data), st)"
    and "f_tiles f = f_tiles g" "f_w f = f_w g" "f_h f = f_h g" "f_reset f = f_reset g"
  shows "linked cd base (fl @ [(f, data, img)]) (Some img)"
  using assms(1)
proof (induction fl arbitrary: base)
  case Nil
  then have "enc = None \<or> (\<exists>p l. enc = Some p \<and> base = Some l \<and> looks l p)" by simp
  then have "next_frame cd base f data img" unfolding next_frame_def using assms(2-)
    by (intro exI[of _ q] exI[of _ enc] exI[of _ g] exI[of _ "Some img"]) simp
  then show ?case by simp
qed (auto split: prod.splits)

text \<open>A frame without tiles was made from an image that looks like the one compared with.\<close>

lemma idle_looks:
  assumes run: "Encode cd (Some img) q False enc = (Inr (g, data), st)" and idle: "f_tiles g = []"
  shows "\<exists>p. enc = Some p \<and> looks p img \<and> st = Some img"
proof -
  obtain tds where t: "f_tiles g = map fst tds" "st = Some img" "1 \<le> im_w img" "1 \<le> im_h img"
    and reset: "f_reset g = (False \<or> (case enc of None \<Rightarrow> True | Some old \<Rightarrow> \<not> same_rect old img))"
    and all: "list_all2 (\<lambda>r td. encode_tile cd img q r = Inr td)
       (filter (\<lambda>r. f_reset g \<or> (case enc of None \<Rightarrow> True | Some old \<Rightarrow> rect_changed img old r)) (grid (im_w img) (im_h img))) tds"
    using Encode_Inr[OF run] by metis
  have none: "filter (\<lambda>r. f_reset g \<or> (case enc of None \<Rightarrow> True | Some old \<Rightarrow> rect_changed img old r)) (grid (im_w img) (im_h img)) = []"
    using all idle t(1) by simp
  have "\<lparr>r_x = 0, r_y = 0, r_w = min TileSize (im_w img), r_h = min TileSize (im_h img)\<rparr> \<in> set (grid (im_w img) (im_h img))"
    using t(3,4) by (simp add: grid_mem)
  then have "\<not> f_reset g" using none by (auto simp: filter_empty_conv)
  then obtain p where p: "enc = Some p" "same_rect p img" using reset by (auto split: option.splits)
  have "\<not> rect_changed img p r" if "r \<in> set (grid (im_w img) (im_h img))" for r
    using none that by (auto simp: filter_empty_conv p(1))
  then have "looks p img" using p(2) unchanged_rect by (simp add: looks_def same_rect_def)
  then show ?thesis using p t(2) by blast
qed

lemma linked_looks: "linked cd base fl (Some p) \<Longrightarrow> looks p img \<Longrightarrow> linked cd base fl (Some img)"
proof (induction fl arbitrary: base)
  case (Cons x fl)
  then show ?case by (cases x) auto
qed (auto intro: looks_trans)

definition desk_inv :: "codec \<Rightarrow> desk \<Rightarrow> bool" where
  "desk_inv cd s \<longleftrightarrow> hub_ok (dk_hub s) \<and> in_step (dk_hub s) (dk_browser s) \<and> linked cd (dk_shown s) (dk_flight s) (dk_enc s)
     \<and> (\<forall>img. dk_shown s = Some img \<longrightarrow> hb_rev (dk_hub s) \<noteq> 0
          \<and> displays cd (f_w (hb_frame (dk_hub s))) (f_h (hb_frame (dk_hub s))) (view (hb_tiles (dk_hub s))) img)"

lemma start_desk: "desk_inv cd new_desk"
  by (simp add: desk_inv_def new_desk_def start_tiles start_browser)

lemma browse_in_step: "hub_ok h \<Longrightarrow> in_step h b \<Longrightarrow> in_step h (browse h b)"
proof (cases "hb_rev h = 0")
  case True
  assume "in_step h b"
  then show ?thesis using True by (simp add: browse_def in_step_def)
next
  case False
  assume ok: "hub_ok h" and b: "in_step h b"
  show ?thesis using browse_current[OF ok b False]
    by (auto simp: in_step_def view_def split: option.split)
qed

lemma capture_keeps: "desk_inv cd s \<Longrightarrow> desk_inv cd (desk_step cd s (Capture img sw sh q save_idle))"
proof -
  assume inv: "desk_inv cd s"
  have link: "linked cd (dk_shown s) (dk_flight s) (dk_enc s)" using inv by (simp add: desk_inv_def)
  have over: "desk_inv cd (s\<lparr>dk_enc := None, dk_flight := [], dk_over := True\<rparr>)" using inv by (simp add: desk_inv_def)
  obtain res enc where run: "Encode cd (Some img) q False (dk_enc s) = (res, enc)" by fastforce
  show ?thesis
  proof (cases res)
    case (Inl err)
    then show ?thesis using inv over by (simp add: stream_frame_def run)
  next
    case (Inr gd)
    obtain g data where gd: "gd = (g, data)" by fastforce
    note run = run[unfolded Inr gd]
    have enc: "enc = Some img" using Encode_Inr[OF run] by metis
    show ?thesis
    proof (cases "f_tiles g \<noteq> [] \<or> \<not> save_idle")
      case True
      have "linked cd (dk_shown s) (dk_flight s @ [(g\<lparr>f_sw := sw, f_sh := sh\<rparr>, data, img)]) (Some img)"
        by (rule linked_snoc[OF link run]) simp_all
      then show ?thesis using inv True by (simp add: stream_frame_def run enc desk_inv_def)
    next
      case False
      then obtain p where p: "dk_enc s = Some p" "looks p img" using idle_looks[OF run] by blast
      then have "linked cd (dk_shown s) (dk_flight s) (Some img)" using link linked_looks by simp
      then show ?thesis using inv False by (simp add: stream_frame_def run enc desk_inv_def)
    qed
  qed
qed

lemma arrive_keeps_desk: "desk_inv cd s \<Longrightarrow> desk_inv cd (desk_step cd s Arrive)"
proof -
  assume inv: "desk_inv cd s"
  show ?thesis
  proof (cases "dk_flight s")
    case (Cons x rest)
    obtain f data img where x: "x = (f, data, img)" by (cases x) auto
    have ok: "hub_ok (dk_hub s)" and b: "in_step (dk_hub s) (dk_browser s)" and frame: "next_frame cd (dk_shown s) f data img"
      and link: "linked cd (Some img) rest (dk_enc s)"
      using inv by (simp_all add: desk_inv_def Cons x)
    obtain res h where p: "publish f data False (dk_hub s) = (res, h)" by fastforce
    show ?thesis
    proof (cases res)
      case (Inl err)
      have "desk_inv cd (s\<lparr>dk_enc := None, dk_flight := [], dk_over := True\<rparr>)" using inv by (simp add: desk_inv_def)
      then show ?thesis by (simp add: Cons x p Inl)
    next
      case (Inr u)
      note p = p[unfolded Inr]
      have "displays cd (f_w (hb_frame h)) (f_h (hb_frame h)) (view (hb_tiles h)) img"
        by (rule frame_displayed[OF frame ok _ p]) (use inv in \<open>simp add: desk_inv_def\<close>)
      moreover have "hub_ok h" using media_keeps[OF ok, of "Media_tiles f data"] by (simp add: receive_media_def p)
      moreover have "hb_rev h \<noteq> 0" by (simp add: publish_Inr(5)[OF p])
      ultimately have "desk_inv cd (s\<lparr>dk_hub := h, dk_shown := Some img, dk_flight := rest\<rparr>)"
        using link publish_in_step[OF ok b p] by (simp add: desk_inv_def)
      then show ?thesis by (simp add: Cons x p)
    qed
  qed (simp add: inv)
qed

lemma desk_keeps: "desk_inv cd s \<Longrightarrow> desk_inv cd (desk_step cd s ev)"
proof (cases ev)
  case Fresh_encoder
  assume "desk_inv cd s"
  then show ?thesis using Fresh_encoder linked_none[of cd "dk_shown s" "dk_flight s" "dk_enc s"] by (simp add: desk_inv_def)
next
  case Look
  assume "desk_inv cd s"
  then show ?thesis using Look browse_in_step by (simp add: desk_inv_def)
qed (simp_all only: capture_keeps arrive_keeps_desk)

interpretation desks: event_system "desk_step cd" "desk_inv cd" for cd
  by unfold_locales (rule desk_keeps)

text \<open>C13: The browser sees the screen. However captures, deliveries, restarts of the encoder and looks interleave, and however
  many frames the browser missed, a browser that looks draws the image of the last frame that arrived: its size, one tile
  per rectangle of the grid, each an encoding of exactly the pixels of that image, and nothing else. When
  nothing is in flight this is the newest image the agent encoded or found unchanged.\<close>

theorem browser_sees_screen:
  assumes s: "s = foldl (desk_step cd) new_desk evs"
  shows "(\<forall>img. dk_shown s = Some img \<longrightarrow> (let cv = snd (dk_browser (desk_step cd s Look)) in displays cd (cv_w cv) (cv_h cv) (cv_tiles cv) img))
    \<and> (\<forall>img. dk_flight s = [] \<and> dk_enc s = Some img \<longrightarrow>
         (let cv = snd (dk_browser (desk_step cd s Look)) in displays cd (cv_w cv) (cv_h cv) (cv_tiles cv) img))"
proof -
  have inv: "desk_inv cd s" unfolding s by (rule desks.run_keeps[OF start_desk])
  have shown: "let cv = snd (dk_browser (desk_step cd s Look)) in displays cd (cv_w cv) (cv_h cv) (cv_tiles cv) img"
    if some: "dk_shown s = Some img" for img
  proof -
    have ok: "hub_ok (dk_hub s)" "in_step (dk_hub s) (dk_browser s)" "hb_rev (dk_hub s) \<noteq> 0"
      and d: "displays cd (f_w (hb_frame (dk_hub s))) (f_h (hb_frame (dk_hub s))) (view (hb_tiles (dk_hub s))) img"
      using inv some by (simp_all add: desk_inv_def)
    show ?thesis using d browse_current[OF ok] by (simp add: Let_def)
  qed
  moreover have "\<exists>l. dk_shown s = Some l \<and> looks l img" if "dk_flight s = []" "dk_enc s = Some img" for img
    using inv that by (simp add: desk_inv_def)
  ultimately show ?thesis using displays_looks by (metis (no_types, lifting))
qed

section \<open>A small screen\<close>

text \<open>Two pixels, and encoders that write a byte of signature before the pixels.\<close>

definition tiny_codec :: codec where
  "tiny_codec = \<lparr>enc_png = (\<lambda>px. Inr (137 # concat px)), enc_jpeg = (\<lambda>q px. Inr (255 # concat px))\<rparr>"

definition tiny_image :: "byte \<Rightarrow> rgba" where
  "tiny_image b = \<lparr>im_x0 = 0, im_y0 = 0, im_w = 2, im_h = 1, im_stride = 8, im_pix = [b, 0, 0, 255, 7, 7, 7, 255]\<rparr>"

lemma tiny_encode:
  "Encode tiny_codec (Some (tiny_image 1)) 50 False None =
     (Inr (\<lparr>f_revision = 0, f_w = 2, f_h = 1, f_sw = 0, f_sh = 0, f_reset = True,
        f_tiles = [\<lparr>t_x = 0, t_y = 0, t_w = 2, t_h = 1, t_size = 9, t_mime = ''image/jpeg''\<rparr>]\<rparr>, [255, 1, 0, 0, 255, 7, 7, 7, 255]), Some (tiny_image 1))"
  by code_simp

lemma tiny_real: "real_codec tiny_codec"
  by (simp add: real_codec_def tiny_codec_def)

lemma encoded_frame_accepted_witness:
  "fst (publish \<lparr>f_revision = 0, f_w = 2, f_h = 1, f_sw = 0, f_sh = 0, f_reset = True,
        f_tiles = [\<lparr>t_x = 0, t_y = 0, t_w = 2, t_h = 1, t_size = 9, t_mime = ''image/jpeg''\<rparr>]\<rparr> [255, 1, 0, 0, 255, 7, 7, 7, 255] False newTileHub)
     = Inr ()"
  using encoded_frame_accepted[OF tiny_encode tiny_real, of newTileHub]
  by (simp add: tiny_image_def retained_bytes_def MaxDataSize_def)

definition tiny_run :: desk where
  "tiny_run = foldl (desk_step tiny_codec) new_desk
     [Capture (tiny_image 1) 2 1 50 True, Arrive, Look, Capture (tiny_image 2) 2 1 50 True, Arrive]"

lemma tiny_shown: "dk_shown tiny_run = Some (tiny_image 2)"
  by code_simp

lemma browser_sees_screen_witness:
  "let cv = snd (dk_browser (desk_step tiny_codec tiny_run Look)) in displays tiny_codec (cv_w cv) (cv_h cv) (cv_tiles cv) (tiny_image 2)"
  using browser_sees_screen[OF tiny_run_def] tiny_shown by blast

end
