(* ===== verification/RemoteInput.thy ===== *)
theory RemoteInput
  imports Prelude GoStrings "HOL-Library.AList" "HOL-Library.Signed_Division" "HOL-Library.Sublist"
begin

text \<open>
  Remote input at the agent: the queue between the connection and the input worker
  (\<open>internal/agentapp/input_queue.go\<close>), the session that injects events and owes releases
  (\<open>internal/agentapp/input.go\<close>), the coordinates (\<open>internal/desktop/encode.go\<close>), and the part of the message loop
  that feeds the queue (\<open>internal/agentapp/main.go\<close>).

  The JSON decoder is a parameter. Whether the operating system accepts an event is a parameter that sees the events
  it has accepted before; the session carries that history, which no code reads, to say what is pressed.
\<close>

section \<open>Messages\<close>

record input_event =
  ev_type :: string
  ev_x :: int
  ev_y :: int
  ev_button :: int
  ev_key :: string
  ev_code :: string
  ev_text :: string
  ev_dx :: int
  ev_dy :: int

record in_message =
  in_kind :: string
  in_method :: string
  in_params :: bytes
  in_data :: bytes

text \<open>The parameters as the queue decodes them, the events alone, and as the session does, with a width and a height.\<close>

type_synonym events_json = "bytes \<Rightarrow> input_event list option"
type_synonym input_json = "bytes \<Rightarrow> (input_event list \<times> int \<times> int) option"

section \<open>The queue\<close>

definition inputQueueLimit :: nat where "inputQueueLimit = 64"
definition inputParamsLimit :: nat where "inputParamsLimit = 65536"

record input_queue =
  q_items :: "(in_message \<times> bool) list"
  q_buttons :: "8 word"
  q_stopped :: bool

definition newInputQueue :: input_queue where
  "newInputQueue = \<lparr>q_items = [], q_buttons = 0, q_stopped = False\<rparr>"

text \<open>The buttons after the events of a message.\<close>

definition press :: "input_event \<Rightarrow> 8 word \<Rightarrow> 8 word" where
  "press e b =
     (if 1 \<le> ev_button e \<and> ev_button e \<le> 3 then
        (if ev_type e = ''down'' then b OR push_bit (nat (ev_button e)) 1
         else if ev_type e = ''up'' then b AND NOT (push_bit (nat (ev_button e)) 1) else b)
      else b)"

definition is_hover :: "events_json \<Rightarrow> in_message \<Rightarrow> 8 word \<Rightarrow> bool" where
  "is_hover json m b \<longleftrightarrow> in_method m = ''input'' \<and> b = 0 \<and> in_kind m = ''event''
     \<and> (case json (in_params m) of None \<Rightarrow> False | Some evs \<Rightarrow> length evs = 1 \<and> ev_type (hd evs) = ''move'')"

definition buttons_after :: "events_json \<Rightarrow> in_message \<Rightarrow> 8 word \<Rightarrow> 8 word" where
  "buttons_after json m b =
     (if in_method m = ''input_release'' then 0
      else if in_method m = ''input'' then (case json (in_params m) of None \<Rightarrow> b | Some evs \<Rightarrow> fold press evs b) else b)"

definition enqueue :: "events_json \<Rightarrow> in_message \<Rightarrow> input_queue \<Rightarrow> bool \<times> input_queue" where
  "enqueue json m q =
     (if length (in_params m) > inputParamsLimit \<or> in_data m \<noteq> [] then (False, q)
      else if q_stopped q then (False, q)
      else
        let hover = is_hover json m (q_buttons q) in
        if hover \<and> q_items q \<noteq> [] \<and> snd (last (q_items q))
        then (True, q\<lparr>q_items := butlast (q_items q) @ [(m, True)]\<rparr>)
        else if length (q_items q) = inputQueueLimit then (False, q)
        else (True, q\<lparr>q_buttons := buttons_after json m (q_buttons q), q_items := q_items q @ [(m, hover)]\<rparr>))"

text \<open>The worker takes the first message; nothing after \<open>stop\<close>.\<close>

definition take_input :: "input_queue \<Rightarrow> in_message option \<times> input_queue" where
  "take_input q =
     (if q_stopped q then (None, q)
      else case q_items q of [] \<Rightarrow> (None, q) | (m, _) # rest \<Rightarrow> (Some m, q\<lparr>q_items := rest\<rparr>))"

definition stop_input :: "input_queue \<Rightarrow> input_queue" where
  "stop_input q = q\<lparr>q_stopped := True, q_items := []\<rparr>"

text \<open>What the message loop does with a message of the input methods; view-only sessions inject nothing.\<close>

datatype input_verdict = Input_queued | Input_ignored | Input_refused | Session_ends

definition receive_input :: "events_json \<Rightarrow> bool \<Rightarrow> in_message \<Rightarrow> input_queue \<Rightarrow> input_verdict \<times> input_queue" where
  "receive_input json control m q =
     (if in_method m \<noteq> ''input'' \<and> in_method m \<noteq> ''input_release'' then (Input_ignored, q)
      else if in_kind m \<noteq> ''request'' then
        (if in_kind m \<noteq> ''event'' \<or> \<not> control then (Input_ignored, q)
         else case enqueue json m q of (ok, q) \<Rightarrow> (if ok then Input_queued else Session_ends, q))
      else if \<not> control then (Input_refused, q)
      else case enqueue json m q of (ok, q) \<Rightarrow> (if ok then Input_queued else Session_ends, q))"

section \<open>Coordinates\<close>

definition ScaleCoordinate :: "int \<Rightarrow> int \<Rightarrow> int \<Rightarrow> int" where
  "ScaleCoordinate v a b =
     (if a \<le> 1 \<or> b \<le> 1 then 0
      else let v = min (max v 0) (a - 1)
           in wrap64 (wrap64 (v * (b - 1)) + (a - 1) div 2) sdiv (a - 1))"

text \<open>The size of the captured screen, published as one word.\<close>

definition pack_geometry :: "int \<Rightarrow> int \<Rightarrow> 64 word" where
  "pack_geometry w h = push_bit 32 (ucast (word_of_int w :: 32 word)) OR ucast (word_of_int h :: 32 word)"

definition geometry :: "int \<Rightarrow> int \<Rightarrow> 64 word \<Rightarrow> 64 word" where
  "geometry w h g = (if w > 0 \<and> h > 0 then pack_geometry w h else g)"

definition load_geometry :: "64 word \<Rightarrow> int \<times> int" where
  "load_geometry g = (uint (drop_bit 32 g), uint (ucast g :: 32 word))"

section \<open>The session\<close>

datatype input_error = Input_json_error | Too_many_events | Input_cancelled | Invalid_button | Inject_failed | Release_failed

type_synonym injector = "input_event list \<Rightarrow> input_event \<Rightarrow> bool"

record input_session =
  is_geometry :: "64 word"
  is_x :: int
  is_y :: int
  is_buttons :: "int list"
  is_keys :: "(string \<times> input_event) list"
  is_pending :: bool
  is_log :: "input_event list"

definition newInputSession :: input_session where
  "newInputSession = \<lparr>is_geometry = 0, is_x = 0, is_y = 0, is_buttons = [], is_keys = [], is_pending = False, is_log = []\<rparr>"

definition inject :: "injector \<Rightarrow> input_event \<Rightarrow> input_session \<Rightarrow> bool \<times> input_session" where
  "inject os e s = (if os (is_log s) e then (True, s\<lparr>is_log := is_log s @ [e]\<rparr>) else (False, s))"

definition mouse_up :: "input_session \<Rightarrow> int \<Rightarrow> input_event" where
  "mouse_up s b = \<lparr>ev_type = ''up'', ev_x = is_x s, ev_y = is_y s, ev_button = b, ev_key = [], ev_code = [], ev_text = [], ev_dx = 0, ev_dy = 0\<rparr>"

text \<open>Every button and every key is released once; what the operating system refuses stays owed. The maps of the code are
  walked in some order; here it is that of the lists.\<close>

fun release_buttons :: "injector \<Rightarrow> int list \<Rightarrow> input_session \<Rightarrow> nat \<times> input_session" where
  "release_buttons os [] s = (0, s)"
| "release_buttons os (b # bs) s =
     (case inject os (mouse_up s b) s of
        (True, s) \<Rightarrow> release_buttons os bs (s\<lparr>is_buttons := removeAll b (is_buttons s)\<rparr>)
      | (False, s) \<Rightarrow> (case release_buttons os bs s of (n, s) \<Rightarrow> (Suc n, s)))"

fun release_keys :: "injector \<Rightarrow> (string \<times> input_event) list \<Rightarrow> input_session \<Rightarrow> nat \<times> input_session" where
  "release_keys os [] s = (0, s)"
| "release_keys os ((k, e) # ks) s =
     (case inject os (e\<lparr>ev_type := ''key_up''\<rparr>) s of
        (True, s) \<Rightarrow> release_keys os ks (s\<lparr>is_keys := AList.delete k (is_keys s)\<rparr>)
      | (False, s) \<Rightarrow> (case release_keys os ks s of (n, s) \<Rightarrow> (Suc n, s)))"

definition release_inputs :: "injector \<Rightarrow> input_session \<Rightarrow> (input_error + unit) \<times> input_session" where
  "release_inputs os s =
     (case release_buttons os (is_buttons s) s of (m, s) \<Rightarrow>
      case release_keys os (is_keys s) s of (n, s) \<Rightarrow>
        (if m + n > 0 then Inl Release_failed else Inr (), s\<lparr>is_pending := (m + n > 0)\<rparr>))"

definition key_id :: "input_event \<Rightarrow> string" where
  "key_id e = (if ev_code e = [] then ev_key e else ev_code e)"

text \<open>Where an event happens, and what a successful one leaves owed.\<close>

definition place :: "int \<Rightarrow> int \<Rightarrow> int \<times> int \<Rightarrow> input_event \<Rightarrow> input_event" where
  "place pw ph g e =
     (if pw > 0 \<and> ph > 0 \<and> fst g > 0 \<and> snd g > 0
      then e\<lparr>ev_x := ScaleCoordinate (ev_x e) pw (fst g), ev_y := ScaleCoordinate (ev_y e) ph (snd g)\<rparr> else e)"

definition owe :: "input_event \<Rightarrow> input_session \<Rightarrow> input_session" where
  "owe e s =
     (if ev_type e = ''down'' then s\<lparr>is_buttons := (if ev_button e \<in> set (is_buttons s) then is_buttons s else is_buttons s @ [ev_button e])\<rparr>
      else if ev_type e = ''key_down'' then s\<lparr>is_keys := AList.update (key_id e) e (is_keys s)\<rparr>
      else if ev_type e = ''up'' then s\<lparr>is_buttons := removeAll (ev_button e) (is_buttons s)\<rparr>
      else if ev_type e = ''key_up'' then s\<lparr>is_keys := AList.delete (key_id e) (is_keys s)\<rparr>
      else s)"

text \<open>\<open>cancelled k\<close>: the context has ended at the \<open>k\<close>-th look at it.\<close>

fun handle_events ::
  "injector \<Rightarrow> (nat \<Rightarrow> bool) \<Rightarrow> nat \<Rightarrow> int \<Rightarrow> int \<Rightarrow> int \<times> int \<Rightarrow> input_event list \<Rightarrow> input_session \<Rightarrow> (input_error + unit) \<times> input_session"
where
  "handle_events os cancelled k pw ph g [] s = (Inr (), s)"
| "handle_events os cancelled k pw ph g (e # es) s =
     (if cancelled k then (Inl Input_cancelled, s)
      else
        let mouse = (ev_type e \<in> {''move'', ''down'', ''up''}) in
        if ev_type e \<in> {''down'', ''up''} \<and> (ev_button e < 1 \<or> ev_button e > 3) then (Inl Invalid_button, s)
        else
          let e = (if mouse then place pw ph g e else e);
              s = (if mouse then s\<lparr>is_x := ev_x e, is_y := ev_y e\<rparr> else s)
          in case inject os e s of
               (False, s) \<Rightarrow> (Inl Inject_failed, s)
             | (True, s) \<Rightarrow> handle_events os cancelled (Suc k) pw ph g es (owe e s))"

definition handleContext ::
  "injector \<Rightarrow> input_json \<Rightarrow> (nat \<Rightarrow> bool) \<Rightarrow> bytes \<Rightarrow> input_session \<Rightarrow> (input_error + unit) \<times> input_session"
where
  "handleContext os json cancelled raw s =
     (case json raw of None \<Rightarrow> (Inl Input_json_error, s)
      | Some (evs, pw, ph) \<Rightarrow>
        if length evs > 64 then (Inl Too_many_events, s)
        else if cancelled 0 then (Inl Input_cancelled, s)
        else
          let g = load_geometry (is_geometry s) in
          case (if is_pending s then release_inputs os s else (Inr (), s)) of
            (Inl err, s) \<Rightarrow> (Inl err, s)
          | (Inr _, s) \<Rightarrow> handle_events os cancelled 1 pw ph g evs s)"

text \<open>The worker: after a failed message everything held is released.\<close>

definition work_input ::
  "injector \<Rightarrow> input_json \<Rightarrow> (nat \<Rightarrow> bool) \<Rightarrow> in_message \<Rightarrow> input_session \<Rightarrow> (input_error + unit) \<times> input_session"
where
  "work_input os json cancelled m s =
     (if in_method m = ''input_release'' then release_inputs os s
      else case handleContext os json cancelled (in_params m) s of
        (Inr u, s) \<Rightarrow> (Inr u, s)
      | (Inl err, s) \<Rightarrow> (Inl err, snd (release_inputs os s)))"

datatype input_step = Work in_message "nat \<Rightarrow> bool" | Release_all | Screen_size int int

fun input_run_step :: "injector \<Rightarrow> input_json \<Rightarrow> input_session \<Rightarrow> input_step \<Rightarrow> input_session" where
  "input_run_step os json s (Work m cancelled) = snd (work_input os json cancelled m s)"
| "input_run_step os json s Release_all = snd (release_inputs os s)"
| "input_run_step os json s (Screen_size w h) = s\<lparr>is_geometry := geometry w h (is_geometry s)\<rparr>"

end
