(* ===== verification/CapturePipe.thy ===== *)
theory CapturePipe
  imports Screen RemoteInput
begin

text \<open>
  How images get from the desktop to the encoder: the capture worker (\<open>internal/agentapp/capture_pipeline.go\<close>), the
  loop of \<open>runTileStream\<close> that encodes (\<open>internal/agentapp/tiles.go\<close>), and the buffers they pass around by reference
  (\<open>internal/desktop/encode.go\<close>, \<open>internal/desktop/bgra.go\<close>). The worker and the encoder run side by side, so the
  state is a heap of images and every step of either is a step of a relation. The theorems say that no capture ever
  writes to an image the encoder still reads, and that the pipeline with its references is the screen of \<open>Screen\<close>, which
  passes images by value.

  The native capture and the timers are steps that may happen at any time; the quality of a frame is any number.
\<close>

section \<open>Images of the desktop\<close>

text \<open>\<open>image.Rect(0, 0, w, h)\<close> orders its corners; \<open>image.NewRGBA\<close> is black and transparent.\<close>

definition new_rgba :: "int \<Rightarrow> int \<Rightarrow> rgba" where
  "new_rgba w h = \<lparr>im_x0 = min 0 w, im_y0 = min 0 h, im_w = \<bar>w\<bar>, im_h = \<bar>h\<bar>, im_stride = 4 * \<bar>w\<bar>, im_pix = replicate (nat (4 * \<bar>w\<bar> * \<bar>h\<bar>)) 0\<rparr>"

definition reusable :: "rgba \<Rightarrow> int \<Rightarrow> int \<Rightarrow> bool" where
  "reusable img w h \<longleftrightarrow> same_rect img (new_rgba w h) \<and> im_stride img = w * 4 \<and> int (length (im_pix img)) \<ge> w * h * 4"

text \<open>Buffers are allocated at the next free address.\<close>

type_synonym images = "nat \<rightharpoonup> rgba"

definition reusableCaptureBuffer :: "nat option \<Rightarrow> int \<Rightarrow> int \<Rightarrow> images \<Rightarrow> nat \<Rightarrow> nat \<times> images \<times> nat" where
  "reusableCaptureBuffer buffer w h heap free =
     (case buffer of
        Some a \<Rightarrow> (case heap a of
            Some img \<Rightarrow> if reusable img w h then (a, heap, free) else (free, heap(free \<mapsto> new_rgba w h), Suc free)
          | None \<Rightarrow> (free, heap(free \<mapsto> new_rgba w h), Suc free))
      | None \<Rightarrow> (free, heap(free \<mapsto> new_rgba w h), Suc free))"

text \<open>The pixels of a Windows bitmap are blue, green, red, unused; two of them are turned at a time, as one little-endian
  word.\<close>

definition le64 :: "bytes \<Rightarrow> 64 word" where
  "le64 bs = de64 (List.rev bs)"

definition put_le64 :: "64 word \<Rightarrow> bytes" where
  "put_le64 v = List.rev (be64 v)"

definition turn_word :: "64 word \<Rightarrow> 64 word" where
  "turn_word v = push_bit 16 (v AND 0x000000ff000000ff) OR drop_bit 16 (v AND 0x00ff000000ff0000) OR (v AND 0x0000ff000000ff00)
     OR 0xff000000ff000000"

fun turn_pixels :: "bytes \<Rightarrow> bytes" where
  "turn_pixels (a # b # c # d # e # f # g # h # rest) = put_le64 (turn_word (le64 [a, b, c, d, e, f, g, h])) @ turn_pixels rest"
| "turn_pixels (b # g # r # rest) = [r, g, b, 255]"
| "turn_pixels rest = []"

definition ownedBGRA :: "bytes \<Rightarrow> int \<Rightarrow> int \<Rightarrow> rgba \<Rightarrow> rgba" where
  "ownedBGRA source w h result =
     (let n = nat (w * h * 4) in result\<lparr>im_pix := turn_pixels (take n source) @ drop n (im_pix result)\<rparr>)"

text \<open>A capture wider than asked for is sampled down, row by row.\<close>

definition scaled_height :: "int \<Rightarrow> int \<Rightarrow> int \<Rightarrow> int" where
  "scaled_height w h nw = max 1 (h * nw div w)"

definition scale_down :: "rgba \<Rightarrow> int \<Rightarrow> bytes" where
  "scale_down img nw =
     (let w = im_w img; h = im_h img; nh = scaled_height w h nw
      in concat (map (\<lambda>y. concat (map (\<lambda>x. pix_row img (im_x0 img + x * w div nw) (im_y0 img + y * h div nh) 1) [0..nw - 1])) [0..nh - 1]))"

section \<open>The pipeline\<close>

text \<open>A captured screen with the size of its source, or the error of the capture.\<close>

datatype captured = Shot nat int int | No_shot string

datatype worker =
    W_next
  | W_capture "nat option"
  | W_write nat int int
  | W_offer captured "nat option"
  | W_drop captured "nat option"
  | W_send captured "nat option"

datatype streamer = S_take | S_encode nat int int | S_over

datatype notice = Stream_waiting string | Stream_resumed | Stream_frame tile_frame bytes | Stream_error tile_error

record pipe =
  cp_heap :: images
  cp_free :: nat
  cp_pixels :: "nat list"
  cp_frames :: "captured list"
  cp_worker :: worker
  cp_stream :: streamer
  cp_enc :: "nat option"
  cp_prev :: "nat option"
  cp_error :: string
  cp_geometry :: "64 word"
  cp_out :: "notice list"

definition new_pipe :: pipe where
  "new_pipe = \<lparr>cp_heap = Map.empty, cp_free = 0, cp_pixels = [], cp_frames = [], cp_worker = W_next, cp_stream = S_take, cp_enc = None,
     cp_prev = None, cp_error = [], cp_geometry = 0, cp_out = []\<rparr>"

definition recycle :: "nat option \<Rightarrow> pipe \<Rightarrow> pipe" where
  "recycle p s = (case p of None \<Rightarrow> s
     | Some a \<Rightarrow> if length (cp_pixels s) < 3 then s\<lparr>cp_pixels := cp_pixels s @ [a]\<rparr> else s)"

definition shot_pixels :: "captured \<Rightarrow> nat option" where
  "shot_pixels f = (case f of Shot a sw sh \<Rightarrow> Some a | No_shot e \<Rightarrow> None)"

text \<open>The end of a round of the worker: after an error the unused buffer goes back.\<close>

definition round_over :: "captured \<Rightarrow> nat option \<Rightarrow> pipe \<Rightarrow> pipe" where
  "round_over f buf s = (case f of Shot a sw sh \<Rightarrow> s\<lparr>cp_worker := W_next\<rparr> | No_shot e \<Rightarrow> (recycle buf s)\<lparr>cp_worker := W_next\<rparr>)"

text \<open>What the encoder compares with, looked up in the heap.\<close>

definition reference :: "pipe \<Rightarrow> rgba option" where
  "reference s = Option.bind (cp_enc s) (cp_heap s)"

definition take_error :: "string \<Rightarrow> pipe \<Rightarrow> pipe" where
  "take_error e s = (if cp_error s = e then s else s\<lparr>cp_error := e, cp_out := cp_out s @ [Stream_waiting e]\<rparr>)"

definition take_shot :: "nat \<Rightarrow> int \<Rightarrow> int \<Rightarrow> pipe \<Rightarrow> pipe" where
  "take_shot a sw sh s =
     (if cp_error s = [] then s else s\<lparr>cp_error := [], cp_enc := None, cp_out := cp_out s @ [Stream_resumed]\<rparr>)\<lparr>cp_stream := S_encode a sw sh\<rparr>"

definition encode_shot :: "codec \<Rightarrow> bool \<Rightarrow> int \<Rightarrow> nat \<Rightarrow> int \<Rightarrow> int \<Rightarrow> rgba \<Rightarrow> pipe \<Rightarrow> pipe" where
  "encode_shot cd save_idle q a sw sh img s =
     (case fst (stream_frame cd img sw sh q save_idle (reference s)) of
        Inl err \<Rightarrow> s\<lparr>cp_stream := S_over, cp_out := cp_out s @ [Stream_error err]\<rparr>
      | Inr fr \<Rightarrow> (recycle (cp_prev s) s)\<lparr>cp_enc := Some a, cp_prev := Some a, cp_stream := S_take,
            cp_out := cp_out s @ (case fr of None \<Rightarrow> [] | Some (f, data) \<Rightarrow> [Stream_frame f data])\<rparr>)"

inductive pipe_step :: "codec \<Rightarrow> bool \<Rightarrow> pipe \<Rightarrow> pipe \<Rightarrow> bool" for cd save_idle where
  take_buffer: "cp_worker s = W_next \<Longrightarrow>
     pipe_step cd save_idle s (s\<lparr>cp_pixels := tl (cp_pixels s), cp_worker := W_capture (case cp_pixels s of [] \<Rightarrow> None | a # _ \<Rightarrow> Some a)\<rparr>)"
| begin_capture: "cp_worker s = W_capture buf \<Longrightarrow> dest = buf \<or> dest = None \<Longrightarrow>
     reusableCaptureBuffer dest w h (cp_heap s) (cp_free s) = (a, heap, free) \<Longrightarrow>
     pipe_step cd save_idle s (s\<lparr>cp_heap := heap, cp_free := free, cp_worker := W_write a sw sh\<rparr>)"
| write_pixels: "cp_worker s = W_write a sw sh \<Longrightarrow> cp_heap s a = Some img \<Longrightarrow> length px = length (im_pix img) \<Longrightarrow>
     pipe_step cd save_idle s (s\<lparr>cp_heap := (cp_heap s)(a \<mapsto> img\<lparr>im_pix := px\<rparr>)\<rparr>)"
| captured: "cp_worker s = W_write a sw sh \<Longrightarrow>
     pipe_step cd save_idle s (s\<lparr>cp_geometry := geometry sw sh (cp_geometry s), cp_worker := W_offer (Shot a sw sh) None\<rparr>)"
| capture_failed: "cp_worker s = W_capture buf \<Longrightarrow> pipe_step cd save_idle s (s\<lparr>cp_worker := W_offer (No_shot e) buf\<rparr>)"
| offer: "cp_worker s = W_offer f buf \<Longrightarrow> cp_frames s = [] \<Longrightarrow> pipe_step cd save_idle s (round_over f buf (s\<lparr>cp_frames := [f]\<rparr>))"
| offer_full: "cp_worker s = W_offer f buf \<Longrightarrow> cp_frames s \<noteq> [] \<Longrightarrow> pipe_step cd save_idle s (s\<lparr>cp_worker := W_drop f buf\<rparr>)"
| drop_frame: "cp_worker s = W_drop f buf \<Longrightarrow> cp_frames s = old # rest \<Longrightarrow>
     pipe_step cd save_idle s ((recycle (shot_pixels old) (s\<lparr>cp_frames := rest\<rparr>))\<lparr>cp_worker := W_send f buf\<rparr>)"
| drop_nothing: "cp_worker s = W_drop f buf \<Longrightarrow> cp_frames s = [] \<Longrightarrow> pipe_step cd save_idle s (s\<lparr>cp_worker := W_send f buf\<rparr>)"
| send: "cp_worker s = W_send f buf \<Longrightarrow> cp_frames s = [] \<Longrightarrow> pipe_step cd save_idle s (round_over f buf (s\<lparr>cp_frames := [f]\<rparr>))"
| error_taken: "cp_stream s = S_take \<Longrightarrow> cp_frames s = No_shot e # rest \<Longrightarrow> pipe_step cd save_idle s (take_error e (s\<lparr>cp_frames := rest\<rparr>))"
| shot_taken: "cp_stream s = S_take \<Longrightarrow> cp_frames s = Shot a sw sh # rest \<Longrightarrow>
     pipe_step cd save_idle s (take_shot a sw sh (s\<lparr>cp_frames := rest\<rparr>))"
| encoded: "cp_stream s = S_encode a sw sh \<Longrightarrow> cp_heap s a = Some img \<Longrightarrow> pipe_step cd save_idle s (encode_shot cd save_idle q a sw sh img s)"
| cancelled: "pipe_step cd save_idle s (s\<lparr>cp_stream := S_over\<rparr>)"

inductive_cases pipe_stepE: "pipe_step cd save_idle s t"

inductive pipe_run :: "codec \<Rightarrow> bool \<Rightarrow> pipe \<Rightarrow> bool" for cd save_idle where
  run_start: "pipe_run cd save_idle new_pipe"
| run_step: "pipe_run cd save_idle s \<Longrightarrow> pipe_step cd save_idle s t \<Longrightarrow> pipe_run cd save_idle t"

end
