(* ===== verification/CapturePipe_Props.thy ===== *)
theory CapturePipe_Props
  imports CapturePipe
begin

text \<open>
  The pipeline of captures: what every address is held by, that the images the encoder reads are never written, the
  refinement of the screen by value, and the conversion of bitmap pixels.
\<close>

section \<open>Who holds which buffer\<close>

definition opt_list :: "'a option \<Rightarrow> 'a list" where
  "opt_list p = (case p of None \<Rightarrow> [] | Some a \<Rightarrow> [a])"

lemma opt_list_simps [simp]: "opt_list None = []" "opt_list (Some a) = [a]"
  by (simp_all add: opt_list_def)

lemma shot_pixels_simps [simp]: "shot_pixels (Shot a sw sh) = Some a" "shot_pixels (No_shot e) = None"
  by (simp_all add: shot_pixels_def)

fun worker_holds :: "worker \<Rightarrow> nat list" where
  "worker_holds W_next = []"
| "worker_holds (W_capture buf) = opt_list buf"
| "worker_holds (W_write a sw sh) = [a]"
| "worker_holds (W_offer f buf) = opt_list (shot_pixels f) @ opt_list buf"
| "worker_holds (W_drop f buf) = opt_list (shot_pixels f) @ opt_list buf"
| "worker_holds (W_send f buf) = opt_list (shot_pixels f) @ opt_list buf"

fun stream_holds :: "streamer \<Rightarrow> nat list" where
  "stream_holds (S_encode a sw sh) = [a]"
| "stream_holds S_take = []"
| "stream_holds S_over = []"

definition frames_hold :: "captured list \<Rightarrow> nat list" where
  "frames_hold fs = concat (map (\<lambda>f. opt_list (shot_pixels f)) fs)"

lemma frames_hold_simps [simp]: "frames_hold [] = []" "frames_hold (f # fs) = opt_list (shot_pixels f) @ frames_hold fs"
  by (simp_all add: frames_hold_def)

definition holders :: "pipe \<Rightarrow> nat list" where
  "holders s = cp_pixels s @ frames_hold (cp_frames s) @ worker_holds (cp_worker s) @ stream_holds (cp_stream s) @ opt_list (cp_prev s)"

text \<open>What the encoder may read: the image it is given and the one it compares with.\<close>

definition encoder_reads :: "pipe \<Rightarrow> nat set" where
  "encoder_reads s = set (stream_holds (cp_stream s)) \<union> set (opt_list (cp_enc s))"

definition pipe_ok :: "pipe \<Rightarrow> bool" where
  "pipe_ok s \<longleftrightarrow> distinct (holders s) \<and> (\<forall>a \<in> set (holders s). cp_heap s a \<noteq> None) \<and> (\<forall>a. cp_heap s a \<noteq> None \<longrightarrow> a < cp_free s)
     \<and> (\<forall>a. cp_enc s = Some a \<longrightarrow> cp_prev s = Some a) \<and> length (cp_frames s) \<le> 1 \<and> length (cp_pixels s) \<le> 3
     \<and> (\<forall>f buf. cp_worker s = W_send f buf \<longrightarrow> cp_frames s = [])"

lemma start_pipe: "pipe_ok new_pipe"
  by (simp add: pipe_ok_def new_pipe_def holders_def)

lemma begin_dest: 
  assumes "reusableCaptureBuffer dest w h heap free = (a, heap', free')" and ok: "\<And>x. heap x \<noteq> None \<Longrightarrow> x < free"
  shows "(a = free \<or> dest = Some a \<and> heap a \<noteq> None) \<and> heap' a \<noteq> None \<and> (\<forall>x. x \<noteq> a \<longrightarrow> heap' x = heap x)
    \<and> (\<forall>x. heap' x \<noteq> None \<longrightarrow> x < free') \<and> (\<forall>x. heap x \<noteq> None \<longrightarrow> heap' x = heap x)"
proof -
  have fresh: "heap free = None" using ok[of free] by blast
  show ?thesis using assms(1) fresh ok
    by (auto simp: reusableCaptureBuffer_def less_Suc_eq split: option.splits if_splits)
qed

lemmas pipe_defs = pipe_ok_def holders_def recycle_def round_over_def take_error_def take_shot_def

lemma tl_hd_cases: "cp_pixels s = [] \<or> (\<exists>a rest. cp_pixels s = a # rest)"
  by (cases "cp_pixels s") auto

lemma pipe_keeps: "pipe_step cd save_idle s t \<Longrightarrow> pipe_ok s \<Longrightarrow> pipe_ok t"
proof (induction rule: pipe_step.induct)
  case (take_buffer s)
  then show ?case using tl_hd_cases[of s] by (auto simp: pipe_defs)
next
  case (begin_capture s buf dest w h a heap free sw sh)
  have below: "\<And>x. cp_heap s x \<noteq> None \<Longrightarrow> x < cp_free s" using begin_capture.prems by (simp add: pipe_ok_def)
  note d = begin_dest[OF begin_capture.hyps(3) below]
  have free: "cp_free s \<notin> set (holders s)" using begin_capture.prems below[of "cp_free s"] unfolding pipe_ok_def by (metis less_irrefl)
  have "a = cp_free s \<or> buf = Some a" using d begin_capture.hyps(2) by auto
  then show ?case using d free begin_capture.prems begin_capture.hyps(1)
    by (auto simp: pipe_ok_def holders_def)
next
  case (write_pixels s a sw sh img px)
  then show ?case by (auto simp: pipe_defs)
next
  case (encoded s a sw sh img q)
  obtain r where r: "fst (stream_frame cd img sw sh q save_idle (reference s)) = r" by simp
  show ?case
  proof (cases r)
    case (Inl err)
    then show ?thesis using encoded r by (simp add: encode_shot_def pipe_ok_def holders_def)
  next
    case (Inr fr)
    have t: "encode_shot cd save_idle q a sw sh img s = (recycle (cp_prev s) s)\<lparr>cp_enc := Some a, cp_prev := Some a, cp_stream := S_take,
        cp_out := cp_out s @ (case fr of None \<Rightarrow> [] | Some (f, data) \<Rightarrow> [Stream_frame f data])\<rparr>"
      using Inr r by (simp add: encode_shot_def)
    show ?thesis unfolding t using encoded.prems encoded.hyps
      by (cases "cp_prev s"; cases "length (cp_pixels s) < 3") (auto simp: recycle_def pipe_ok_def holders_def)
  qed
next
  case (drop_frame s f buf old rest)
  then show ?case by (auto simp: pipe_defs split: option.splits)
next
  case (offer s f buf)
  then show ?case by (auto simp: pipe_defs split: option.splits captured.splits)
next
  case (send s f buf)
  then show ?case by (auto simp: pipe_defs split: option.splits captured.splits)
qed (auto simp: pipe_defs)

lemma run_ok: "pipe_run cd save_idle s \<Longrightarrow> pipe_ok s"
  by (induction rule: pipe_run.induct) (auto intro: start_pipe pipe_keeps)

text \<open>A step leaves every image of the heap alone but the one the worker writes.\<close>

lemma step_heap:
  assumes "pipe_step cd save_idle s t" "pipe_ok s" "cp_heap s a \<noteq> None" "a \<notin> set (worker_holds (cp_worker s))"
  shows "cp_heap t a = cp_heap s a"
  using assms
proof (induction rule: pipe_step.induct)
  case (begin_capture s buf dest w h b heap free sw sh)
  have below: "\<And>x. cp_heap s x \<noteq> None \<Longrightarrow> x < cp_free s" using begin_capture.prems(1) by (simp add: pipe_ok_def)
  then show ?case using begin_dest[OF begin_capture.hyps(3) below] begin_capture.prems(2) by simp
qed (auto simp: recycle_def round_over_def take_error_def take_shot_def encode_shot_def split: option.splits captured.splits sum.splits)

text \<open>No capture overwrites an image the encoder still reads: whatever step the worker or the encoder takes, in whatever
  order, the image being encoded and the reference of the next comparison are in the heap and stay as they are, and the
  worker holds neither.\<close>

theorem encoder_images_never_overwritten:
  assumes run: "pipe_run cd save_idle s" and step: "pipe_step cd save_idle s t" and a: "a \<in> encoder_reads s"
  shows "cp_heap s a \<noteq> None \<and> cp_heap t a = cp_heap s a \<and> a \<notin> set (worker_holds (cp_worker s)) \<and> a \<notin> set (cp_pixels s)"
proof -
  have ok: "pipe_ok s" by (rule run_ok[OF run])
  have "a \<in> set (stream_holds (cp_stream s)) \<or> cp_prev s = Some a"
    using a ok by (cases "cp_enc s") (auto simp: encoder_reads_def pipe_ok_def)
  then have held: "a \<notin> set (worker_holds (cp_worker s))" "a \<notin> set (cp_pixels s)" "cp_heap s a \<noteq> None"
    using ok by (auto simp: pipe_ok_def holders_def)
  then show ?thesis using step_heap[OF step ok] by blast
qed


section \<open>The screen by value\<close>

definition frames_of :: "notice list \<Rightarrow> (tile_frame \<times> bytes) list" where
  "frames_of ns = concat (map (\<lambda>n. case n of Stream_frame f data \<Rightarrow> [(f, data)] | _ \<Rightarrow> []) ns)"

lemma frames_of_simps [simp]:
  "frames_of [] = []" "frames_of (Stream_waiting e # ns) = frames_of ns" "frames_of (Stream_resumed # ns) = frames_of ns"
  "frames_of (Stream_frame f data # ns) = (f, data) # frames_of ns" "frames_of (Stream_error err # ns) = frames_of ns"
  "frames_of (ns @ ms) = frames_of ns @ frames_of ms"
  by (simp_all add: frames_of_def)

definition sent_frames :: "desk \<Rightarrow> (tile_frame \<times> bytes) list" where
  "sent_frames d = map (\<lambda>(f, data, img). (f, data)) (dk_flight d)"

text \<open>The events of the agent's side of the screen.\<close>

definition agent_event :: "bool \<Rightarrow> desk_event \<Rightarrow> bool" where
  "agent_event save_idle e = (case e of Capture img sw sh q i \<Rightarrow> i = save_idle | Fresh_encoder \<Rightarrow> True | _ \<Rightarrow> False)"

definition follows :: "bool \<Rightarrow> pipe \<Rightarrow> desk \<Rightarrow> bool" where
  "follows save_idle s d \<longleftrightarrow> sent_frames d = frames_of (cp_out s) \<and> \<not> dk_over d \<and> (cp_stream s \<noteq> S_over \<longrightarrow> dk_enc d = reference s)"

lemma reference_kept:
  assumes "pipe_step cd save_idle s t" "pipe_ok s" "cp_enc t = cp_enc s"
  shows "reference t = reference s"
proof (cases "cp_enc s")
  case (Some a)
  then have "cp_prev s = Some a" using assms(2) by (simp add: pipe_ok_def)
  then have "cp_heap s a \<noteq> None" "a \<notin> set (worker_holds (cp_worker s))" using assms(2) by (auto simp: pipe_ok_def holders_def)
  then show ?thesis using step_heap[OF assms(1,2)] Some assms(3) by (simp add: reference_def)
qed (simp add: reference_def assms(3))

lemma quiet_step:
  assumes "follows save_idle s d" "pipe_step cd save_idle s t" "pipe_ok s"
    and "cp_enc t = cp_enc s" "frames_of (cp_out t) = frames_of (cp_out s)" "cp_stream s = S_over \<longrightarrow> cp_stream t = S_over"
  shows "\<exists>evs. (\<forall>e \<in> set evs. agent_event save_idle e) \<and> follows save_idle t (foldl (desk_step cd) d evs)"
  by (rule exI[of _ "[]"]) (use assms reference_kept[OF assms(2-4)] in \<open>auto simp: follows_def\<close>)

lemma step_follows:
  assumes step: "pipe_step cd save_idle s t" and ok: "pipe_ok s" and d: "follows save_idle s d"
  shows "\<exists>evs. (\<forall>e \<in> set evs. agent_event save_idle e) \<and> follows save_idle t (foldl (desk_step cd) d evs)"
proof -
  note quiet = quiet_step[OF d step ok]
  show ?thesis using step
  proof (cases rule: pipe_step.cases)
    case (shot_taken a sw sh rest)
    show ?thesis
    proof (cases "cp_error s = []")
      case False
      then have "follows save_idle t (desk_step cd d Fresh_encoder)"
        using d shot_taken by (simp add: follows_def take_shot_def sent_frames_def reference_def)
      then show ?thesis by (intro exI[of _ "[Fresh_encoder]"]) (simp add: agent_event_def)
    next
      case True
      show ?thesis by (rule quiet) (use shot_taken True in \<open>simp_all add: take_shot_def\<close>)
    qed
  next
    case (encoded a sw sh img q)
    have enc: "dk_enc d = reference s" using d encoded(2) by (simp add: follows_def)
    show ?thesis
    proof (cases "stream_frame cd img sw sh q save_idle (reference s)")
      case (Pair r st)
      show ?thesis
      proof (cases r)
        case (Inl err)
        then have "follows save_idle t d" using d encoded Pair by (simp add: follows_def encode_shot_def)
        then show ?thesis by (intro exI[of _ "[]"]) simp
      next
        case (Inr fr)
        have st: "st = Some img" using Pair Inr Encode_Inr
          by (auto simp: stream_frame_def split: prod.splits sum.splits)
        have t: "reference t = Some img" using encoded Pair Inr
          by (simp add: encode_shot_def reference_def recycle_def split: option.splits)
        have "follows save_idle t (desk_step cd d (Capture img sw sh q save_idle))"
          using d enc t st encoded Pair Inr by (auto simp: follows_def encode_shot_def recycle_def sent_frames_def split: option.splits)
        then show ?thesis by (intro exI[of _ "[Capture img sw sh q save_idle]"]) (simp add: agent_event_def)
      qed
    qed
  next
    case cancelled
    then have "follows save_idle t d" using d by (simp add: follows_def)
    then show ?thesis by (intro exI[of _ "[]"]) simp
  qed (rule quiet; simp add: take_error_def round_over_def recycle_def split: captured.splits option.splits)+
qed

text \<open>C35: The pipeline of references refines the screen by value: the frames sent in any run are those of captures handed one
  by one to an encoder that keeps its own copy of each image, as if no buffer were ever used again, and the image in
  the heap the encoder will compare with is that copy.\<close>

theorem pipeline_refines_screen:
  assumes "pipe_run cd save_idle s"
  shows "\<exists>evs. (\<forall>e \<in> set evs. agent_event save_idle e) \<and> follows save_idle s (foldl (desk_step cd) new_desk evs)"
  using assms
proof (induction rule: pipe_run.induct)
  case run_start
  show ?case by (rule exI[of _ "[]"]) (simp add: follows_def new_desk_def new_pipe_def sent_frames_def reference_def)
next
  case (run_step s t)
  then obtain evs where evs: "\<forall>e \<in> set evs. agent_event save_idle e" "follows save_idle s (foldl (desk_step cd) new_desk evs)" by blast
  obtain evs' where "\<forall>e \<in> set evs'. agent_event save_idle e" "follows save_idle t (foldl (desk_step cd) (foldl (desk_step cd) new_desk evs) evs')"
    using step_follows[OF run_step.hyps(2) run_ok[OF run_step.hyps(1)] evs(2)] by blast
  then show ?case using evs(1) by (intro exI[of _ "evs @ evs'"]) auto
qed


text \<open>Four captures' worth of steps: the first image is being encoded, and its buffer is nobody else's.\<close>

definition demo_pipe :: pipe where
  "demo_pipe = new_pipe\<lparr>cp_heap := [0 \<mapsto> new_rgba 2 1], cp_free := 1, cp_stream := S_encode 0 2 1,
     cp_geometry := geometry 2 1 0\<rparr>"

lemma demo_run: "pipe_run tiny_codec True demo_pipe"
proof -
  note defs = new_pipe_def round_over_def take_shot_def reusableCaptureBuffer_def
  have "pipe_run tiny_codec True (new_pipe\<lparr>cp_worker := W_capture None\<rparr>)"
    using run_step[OF run_start take_buffer[of new_pipe tiny_codec True]] by (simp add: defs)
  from run_step[OF this begin_capture[where dest = None and buf = None and w = 2 and h = 1 and sw = 2 and sh = 1]]
  have "pipe_run tiny_codec True (new_pipe\<lparr>cp_heap := [0 \<mapsto> new_rgba 2 1], cp_free := 1, cp_worker := W_write 0 2 1\<rparr>)" by (simp add: defs)
  from run_step[OF this captured[where a = 0 and sw = 2 and sh = 1]]
  have "pipe_run tiny_codec True (new_pipe\<lparr>cp_heap := [0 \<mapsto> new_rgba 2 1], cp_free := 1, cp_worker := W_offer (Shot 0 2 1) None,
      cp_geometry := geometry 2 1 0\<rparr>)" by (simp add: defs)
  from run_step[OF this offer[where f = "Shot 0 2 1" and buf = None]]
  have "pipe_run tiny_codec True (new_pipe\<lparr>cp_heap := [0 \<mapsto> new_rgba 2 1], cp_free := 1, cp_frames := [Shot 0 2 1],
      cp_geometry := geometry 2 1 0\<rparr>)" by (simp add: defs)
  from run_step[OF this shot_taken[where a = 0 and sw = 2 and sh = 1 and rest = "[]"]]
  show ?thesis by (simp add: defs demo_pipe_def)
qed

lemma encoder_images_never_overwritten_witness: "cp_heap demo_pipe 0 = Some (new_rgba 2 1) \<and> 0 \<notin> set (worker_holds (cp_worker demo_pipe))"
  using encoder_images_never_overwritten[OF demo_run take_buffer, of 0] by (simp add: demo_pipe_def new_pipe_def encoder_reads_def)

lemma pipeline_refines_screen_witness:
  "\<exists>evs. follows True (encode_shot tiny_codec True 50 0 2 1 (new_rgba 2 1) demo_pipe) (foldl (desk_step tiny_codec) new_desk evs)"
proof -
  have "pipe_step tiny_codec True demo_pipe (encode_shot tiny_codec True 50 0 2 1 (new_rgba 2 1) demo_pipe)"
    by (rule encoded) (simp_all add: demo_pipe_def)
  from pipeline_refines_screen[OF run_step[OF demo_run this]] show ?thesis by blast
qed

section \<open>Bitmap pixels\<close>

text \<open>The conversion pixel by pixel.\<close>

fun plain_turn :: "bytes \<Rightarrow> bytes" where
  "plain_turn (b # g # r # x # rest) = r # g # b # 255 # plain_turn rest"
| "plain_turn rest = []"

lemma below_8: "n < 8 \<Longrightarrow> n = 0 \<or> n = 1 \<or> n = 2 \<or> n = 3 \<or> n = 4 \<or> n = 5 \<or> n = 6 \<or> n = (7::nat)" by arith

lemma byte_eqI: "(\<And>n. n \<in> {0,1,2,3,4,5,6,7} \<Longrightarrow> bit x n = bit y n) \<Longrightarrow> x = y" for x y :: byte
  by (rule bit_word_eqI) (use below_8 in auto)


lemma turned_byte:
  "n \<in> {0,1,2,3,4,5,6,7} \<Longrightarrow> bit (turn_word v) n = bit v (n + 16)"
  "n \<in> {0,1,2,3,4,5,6,7} \<Longrightarrow> bit (turn_word v) (n + 8) = bit v (n + 8)"
  "n \<in> {0,1,2,3,4,5,6,7} \<Longrightarrow> bit (turn_word v) (n + 16) = bit v n"
  "n \<in> {0,1,2,3,4,5,6,7} \<Longrightarrow> bit (turn_word v) (n + 24)"
  "n \<in> {0,1,2,3,4,5,6,7} \<Longrightarrow> bit (turn_word v) (n + 32) = bit v (n + 48)"
  "n \<in> {0,1,2,3,4,5,6,7} \<Longrightarrow> bit (turn_word v) (n + 40) = bit v (n + 40)"
  "n \<in> {0,1,2,3,4,5,6,7} \<Longrightarrow> bit (turn_word v) (n + 48) = bit v (n + 32)"
  "n \<in> {0,1,2,3,4,5,6,7} \<Longrightarrow> bit (turn_word v) (n + 56)"
  by (elim insertE; simp add: turn_word_def bit_simps)+

lemma le64_byte:
  "n < 8 \<Longrightarrow> bit (le64 [a, b, c, d, e, f, g, h]) n = bit a n"
  "n < 8 \<Longrightarrow> bit (le64 [a, b, c, d, e, f, g, h]) (n + 8) = bit b n"
  "n < 8 \<Longrightarrow> bit (le64 [a, b, c, d, e, f, g, h]) (n + 16) = bit c n"
  "n < 8 \<Longrightarrow> bit (le64 [a, b, c, d, e, f, g, h]) (n + 24) = bit d n"
  "n < 8 \<Longrightarrow> bit (le64 [a, b, c, d, e, f, g, h]) (n + 32) = bit e n"
  "n < 8 \<Longrightarrow> bit (le64 [a, b, c, d, e, f, g, h]) (n + 40) = bit f n"
  "n < 8 \<Longrightarrow> bit (le64 [a, b, c, d, e, f, g, h]) (n + 48) = bit g n"
  "n < 8 \<Longrightarrow> bit (le64 [a, b, c, d, e, f, g, h]) (n + 56) = bit h n"
  by (auto simp: le64_def de64_def de32_def bit_simps dest: bit_imp_le_length)

lemma put_turned: "put_le64 (turn_word (le64 [a, b, c, d, e, f, g, h])) = [c, b, a, 255, g, f, e, 255]"
proof -
  have ones: "(255 :: byte) = - 1" by simp
  show ?thesis unfolding put_le64_def be64_def be32_def ones
    by (simp, intro conjI; rule bit_word_eqI) (use below_8 in \<open>simp_all add: bit_simps turned_byte le64_byte add.commute\<close>)
qed

lemma turn_plain: "length bs mod 4 = 0 \<Longrightarrow> turn_pixels bs = plain_turn bs"
proof (induction bs rule: length_induct)
  case (1 bs)
  show ?case
  proof (cases "length bs < 8")
    case True
    then have "length bs = 0 \<or> length bs = 4" using 1(2) by presburger
    then have "bs = [] \<or> (\<exists>b g r x. bs = [b, g, r, x])" by (auto simp: numeral_eq_Suc length_Suc_conv)
    then show ?thesis by auto
  next
    case False
    then obtain a b c d e f g h rest where bs: "bs = a # b # c # d # e # f # g # h # rest"
      by (auto simp: numeral_eq_Suc Suc_le_length_iff not_less)
    then have "length rest mod 4 = 0" using 1(2) by (simp add: mod_Suc split: if_splits)
    then show ?thesis using 1(1) bs by (simp add: put_turned)
  qed
qed

lemma length_plain_turn: "length bs mod 4 = 0 \<Longrightarrow> length (plain_turn bs) = length bs"
  by (induction bs rule: plain_turn.induct) (auto simp: mod_Suc split: if_splits)

text \<open>C40: Turning two pixels at a time is turning each pixel: the captured bitmap becomes red, green, blue and an opaque
  alpha of the same bitmap, whatever a recycled buffer held before, and the buffer keeps its length.\<close>

theorem bitmap_pixels_turned:
  assumes "0 \<le> w" "0 \<le> h" "nat (w * h * 4) \<le> length source" "nat (w * h * 4) \<le> length (im_pix result)"
  shows "im_pix (ownedBGRA source w h result) = plain_turn (take (nat (w * h * 4)) source) @ drop (nat (w * h * 4)) (im_pix result)
    \<and> length (im_pix (ownedBGRA source w h result)) = length (im_pix result)"
proof -
  have "nat (w * h * 4) = nat (w * h) * 4" using assms(1,2) by (simp add: nat_mult_distrib)
  then have "length (take (nat (w * h * 4)) source) mod 4 = 0" using assms(3) by (simp add: min_absorb2)
  from turn_plain[OF this] length_plain_turn[OF this] show ?thesis using assms(3,4) by (simp add: ownedBGRA_def Let_def min_absorb2)
qed

lemma bitmap_pixels_turned_witness:
  "im_pix (ownedBGRA [1, 2, 3, 4, 5, 6, 7, 8, 9, 10, 11, 12] 3 1 (new_rgba 3 1)) = [3, 2, 1, 255, 7, 6, 5, 255, 11, 10, 9, 255]"
  using bitmap_pixels_turned[of 3 1 "[1, 2, 3, 4, 5, 6, 7, 8, 9, 10, 11, 12]" "new_rgba 3 1"] by (simp add: new_rgba_def)

end
