(* ===== verification/Latency.thy ===== *)
theory Latency
  imports GoStrings Tiles
begin

text \<open>
  The pace of the screen stream: the options (\<open>internal/stream/options.go\<close>), the delay-based controller
  (\<open>internal/stream/latency.go\<close>), the frames in flight and their acknowledgements
  (\<open>runTileStream\<close> in \<open>internal/agentapp/tiles.go\<close>) and the intervals between captures
  (\<open>internal/agentapp/capture_pipeline.go\<close>). Times are nanoseconds. The product of floating-point numbers that gives the
  byte window is a parameter, an arbitrary number before it is clamped.
\<close>

abbreviation second :: nanos where "second \<equiv> 1000000000"
abbreviation millisecond :: nanos where "millisecond \<equiv> 1000000"

section \<open>Options\<close>

record stream_options =
  so_version :: int
  so_fps :: int
  so_quality :: int
  so_mode :: string
  so_max_width :: int
  so_max_mbps :: int
  so_save_idle :: bool
  so_frame_ack :: bool
  so_tile_delta :: bool

definition Normalized :: "stream_options \<Rightarrow> stream_options" where
  "Normalized opts =
     opts\<lparr>so_fps := min 60 (max 1 (so_fps opts)), so_quality := min 90 (max 30 (so_quality opts)),
       so_mode := (if so_mode opts \<noteq> ''fixed'' then ''adaptive'' else so_mode opts),
       so_max_width := (if so_max_width opts \<noteq> 0 then min 3840 (max 640 (so_max_width opts)) else 0),
       so_max_mbps := min 100 (max 0 (so_max_mbps opts))\<rparr>"

section \<open>The controller\<close>

record controller =
  lc_baseline :: nanos
  lc_rtt :: nanos
  lc_last :: "nanos option"
  lc_bad :: int
  lc_good :: int
  lc_quality :: int
  lc_width :: int
  lc_max_quality :: int
  lc_max_width :: int

definition NewLatencyController :: "stream_options \<Rightarrow> controller" where
  "NewLatencyController opts = \<lparr>lc_baseline = 0, lc_rtt = 0, lc_last = None, lc_bad = 0, lc_good = 0, lc_quality = so_quality opts,
     lc_width = so_max_width opts, lc_max_quality = so_quality opts, lc_max_width = so_max_width opts\<rparr>"

definition Ack :: "nanos \<Rightarrow> controller \<Rightarrow> controller" where
  "Ack rtt c =
     (if rtt \<le> 0 then c
      else c\<lparr>lc_baseline := (if lc_baseline c = 0 \<or> rtt < lc_baseline c then rtt else lc_baseline c),
        lc_rtt := (if lc_rtt c = 0 then rtt else (lc_rtt c * 3 + rtt) div 4)\<rparr>)"

definition QueueDelay :: "controller \<Rightarrow> nanos" where
  "QueueDelay c = max 0 (lc_rtt c - lc_baseline c)"

text \<open>\<open>math.Round\<close> of a positive quotient: a half goes up.\<close>

definition round_quotient :: "int \<Rightarrow> int \<Rightarrow> int" where
  "round_quotient a b = (2 * a + b) div (2 * b)"

definition propagation :: "controller \<Rightarrow> nanos" where
  "propagation c = (if lc_baseline c \<le> 0 then 50 * millisecond else min (150 * millisecond) (max (20 * millisecond) (lc_baseline c)))"

definition flight_frames :: "nanos \<Rightarrow> controller \<Rightarrow> int" where
  "flight_frames period c = (if lc_baseline c \<le> 0 then 2 else min 8 (max 2 (round_quotient (propagation c) period)))"

definition FlightWindow :: "(int \<Rightarrow> nanos \<Rightarrow> int) \<Rightarrow> nanos \<Rightarrow> int \<Rightarrow> controller \<Rightarrow> int \<times> int" where
  "FlightWindow product period mbps c =
     (flight_frames (if period \<le> 0 then second div 30 else period) c,
      if mbps \<le> 0 then 131072 else min 1048576 (max 8192 (product mbps (propagation c))))"

text \<open>The three parts of \<open>Update\<close>: the counters, a step back and a step forward.\<close>

definition count_frame :: "nanos \<Rightarrow> nanos \<Rightarrow> controller \<Rightarrow> controller" where
  "count_frame cost budget c =
     (if QueueDelay c > 40 * millisecond \<or> cost > budget * 3 div 2
      then c\<lparr>lc_bad := lc_bad c + 1, lc_good := 0\<rparr> else c\<lparr>lc_good := lc_good c + 1, lc_bad := 0\<rparr>)"

definition capped :: "int \<Rightarrow> int \<Rightarrow> int" where
  "capped width source = (if width = 0 \<or> width > source then source else width)"

definition step_back :: "nanos \<Rightarrow> nanos \<Rightarrow> nanos \<Rightarrow> int \<Rightarrow> controller \<Rightarrow> controller" where
  "step_back now cost budget source c =
     (let q = max (min 45 (lc_max_quality c)) (lc_quality c - 8);
          narrow = (q \<le> 61 \<or> QueueDelay c > 100 * millisecond \<or> cost > budget * 3)
      in c\<lparr>lc_quality := q, lc_width := (if narrow then max (min 640 source) (capped (lc_width c) source * 4 div 5) else lc_width c),
           lc_last := Some now, lc_bad := 0, lc_good := 0\<rparr>)"

definition step_forward :: "nanos \<Rightarrow> int \<Rightarrow> controller \<Rightarrow> controller" where
  "step_forward now source c =
     c\<lparr>lc_quality := min (lc_max_quality c) (lc_quality c + 2),
       lc_width := (if lc_width c > 0 then min (capped (lc_max_width c) source) (lc_width c + 160) else lc_width c),
       lc_last := Some now, lc_good := 0\<rparr>"

definition Update :: "nanos \<Rightarrow> nanos \<Rightarrow> nanos \<Rightarrow> int \<Rightarrow> controller \<Rightarrow> controller" where
  "Update now cost budget source c =
     (let c = count_frame cost budget c
      in if (case lc_last c of None \<Rightarrow> False | Some t \<Rightarrow> now - t < second) then c
         else if lc_bad c \<ge> 3 then step_back now cost budget source c
         else if lc_good c \<ge> 150 \<and> QueueDelay c < 15 * millisecond \<and> cost < budget then step_forward now source c
         else c)"

section \<open>Intervals between captures\<close>

definition tileCaptureInterval :: "nanos \<Rightarrow> nanos \<Rightarrow> bool \<Rightarrow> bool \<Rightarrow> nanos" where
  "tileCaptureInterval base bandwidth idle interactive =
     max (if interactive then min base (second div 60) else if idle then max base (100 * millisecond) else base) bandwidth"

definition inputCaptureInterval :: "nanos \<Rightarrow> nanos \<Rightarrow> nanos" where
  "inputCaptureInterval base cost = min base (max (second div 120) (min (second div 60) (cost * 2)))"

definition inputTailCaptureInterval :: "nanos \<Rightarrow> nanos \<Rightarrow> nanos" where
  "inputTailCaptureInterval base cost = min base (max (second div 60) (cost * 2))"

text \<open>The interval the worker waits for, at a time, after the last input.\<close>

definition capture_wait :: "stream_options \<Rightarrow> nanos \<Rightarrow> nanos \<Rightarrow> bool \<Rightarrow> nanos option \<Rightarrow> nanos" where
  "capture_wait opts now cost idle input =
     (let base = second div so_fps opts;
          before = (\<lambda>d. case input of None \<Rightarrow> False | Some t \<Rightarrow> now < t + d);
          interactive = (so_mode opts = ''adaptive'' \<and> before (350 * millisecond))
      in if interactive then (if before (100 * millisecond) then inputCaptureInterval base cost else inputTailCaptureInterval base cost)
         else tileCaptureInterval base 0 (so_save_idle opts \<and> idle) False)"

section \<open>Frames in flight\<close>

text \<open>The loop has passed the gate when it may take an image; it then sends at most one frame.\<close>

record flow =
  fl_pending :: "(string \<times> (int \<times> nanos)) list"
  fl_bytes :: int
  fl_seq :: nat
  fl_open :: bool
  fl_controller :: controller
  fl_quality :: int
  fl_width :: int

definition new_flow :: "stream_options \<Rightarrow> flow" where
  "new_flow opts = \<lparr>fl_pending = [], fl_bytes = 0, fl_seq = 0, fl_open = False, fl_controller = NewLatencyController opts,
     fl_quality = so_quality opts, fl_width = so_max_width opts\<rparr>"

definition ack :: "string \<Rightarrow> nanos \<Rightarrow> flow \<Rightarrow> flow" where
  "ack fid now s =
     (case map_of (fl_pending s) fid of None \<Rightarrow> s
      | Some (len, sent) \<Rightarrow> s\<lparr>fl_bytes := fl_bytes s - len, fl_controller := Ack (now - sent) (fl_controller s),
          fl_pending := AList.delete fid (fl_pending s)\<rparr>)"

definition pass_gate :: "stream_options \<Rightarrow> (int \<Rightarrow> nanos \<Rightarrow> int) \<Rightarrow> flow \<Rightarrow> flow" where
  "pass_gate opts product s =
     (case FlightWindow product (second div so_fps opts) (so_max_mbps opts) (fl_controller s) of (frames, window) \<Rightarrow>
        if so_frame_ack opts \<and> (int (length (fl_pending s)) \<ge> frames \<or> fl_bytes s \<ge> window) then s else s\<lparr>fl_open := True\<rparr>)"

definition frame_id :: "string \<Rightarrow> nat \<Rightarrow> string" where
  "frame_id generation n = generation @ '':'' @ show_nat n"

text \<open>A frame of \<open>len\<close> bytes is written; \<open>cost\<close> is what \<open>Update\<close> is told.\<close>

definition send_frame :: "stream_options \<Rightarrow> string \<Rightarrow> int \<Rightarrow> nanos \<Rightarrow> nanos \<Rightarrow> nanos \<Rightarrow> int \<Rightarrow> flow \<Rightarrow> flow" where
  "send_frame opts generation len sent now cost source s =
     (let n = Suc (fl_seq s);
          s = s\<lparr>fl_seq := n, fl_open := False\<rparr>;
          s = (if so_frame_ack opts
               then s\<lparr>fl_pending := AList.update (frame_id generation n) (len, sent) (fl_pending s), fl_bytes := fl_bytes s + len\<rparr> else s)
      in if so_mode opts = ''adaptive''
         then let c = Update now cost (second div so_fps opts) source (fl_controller s)
              in s\<lparr>fl_controller := c, fl_quality := lc_quality c, fl_width := lc_width c\<rparr>
         else s)"

text \<open>Data over the limit of a message is not written and ends the stream; nothing is sent for an idle frame.\<close>

datatype flow_event = Frame_ack string nanos | Gate_try | Frame_out nat nanos nanos nanos int | Frame_idle

fun flow_step :: "stream_options \<Rightarrow> (int \<Rightarrow> nanos \<Rightarrow> int) \<Rightarrow> string \<Rightarrow> flow \<Rightarrow> flow_event \<Rightarrow> flow" where
  "flow_step opts product generation s (Frame_ack fid now) = ack fid now s"
| "flow_step opts product generation s Gate_try = pass_gate opts product s"
| "flow_step opts product generation s (Frame_out len sent now cost source) =
     (if fl_open s \<and> int len \<le> MaxDataSize then send_frame opts generation (int len) sent now cost source s else s)"
| "flow_step opts product generation s Frame_idle = s\<lparr>fl_open := False\<rparr>"

section \<open>The controller stays in its range\<close>

definition controller_ok :: "int \<Rightarrow> int \<Rightarrow> controller \<Rightarrow> bool" where
  "controller_ok q w c \<longleftrightarrow> 0 \<le> lc_baseline c \<and> lc_baseline c \<le> lc_rtt c \<and> (lc_baseline c = 0 \<longrightarrow> lc_rtt c = 0)
     \<and> lc_max_quality c = q \<and> lc_max_width c = w \<and> min 45 q \<le> lc_quality c \<and> lc_quality c \<le> q
     \<and> 0 \<le> lc_width c \<and> (w \<noteq> 0 \<longrightarrow> 0 < lc_width c \<and> lc_width c \<le> w)"

lemma weighted_mean: "b \<le> x \<Longrightarrow> b \<le> y \<Longrightarrow> b \<le> (x * 3 + y) div 4" for b x y :: int
  by presburger

lemma ack_keeps: "controller_ok q w c \<Longrightarrow> controller_ok q w (Ack rtt c)"
  using weighted_mean[of "lc_baseline c" "lc_rtt c" rtt] weighted_mean[of rtt "lc_rtt c" rtt]
  by (simp add: controller_ok_def Ack_def del: div_mult_self1 div_mult_self2 div_mult_self3 div_mult_self4)

lemma count_keeps: "controller_ok q w c \<Longrightarrow> controller_ok q w (count_frame cost budget c)"
  by (simp add: controller_ok_def count_frame_def)

lemma four_fifths: "0 < x \<Longrightarrow> 0 \<le> x * 4 div 5 \<and> x * 4 div 5 \<le> x" for x :: int
  by presburger

lemma back_keeps:
  assumes ok: "controller_ok q w c" and source: "0 < source" and w: "w = 0 \<or> 640 \<le> w"
  shows "controller_ok q w (step_back now cost budget source c)"
proof -
  define x where "x = capped (lc_width c) source"
  have x: "0 < x" "w \<noteq> 0 \<longrightarrow> x \<le> w" using ok source by (auto simp: controller_ok_def x_def capped_def)
  have "0 < max (min 640 source) (x * 4 div 5)" "w \<noteq> 0 \<longrightarrow> max (min 640 source) (x * 4 div 5) \<le> w"
    using x four_fifths[OF x(1)] source w by auto
  then show ?thesis using ok unfolding step_back_def Let_def x_def[symmetric] by (auto simp: controller_ok_def)
qed

lemma forward_keeps: "controller_ok q w c \<Longrightarrow> 0 < source \<Longrightarrow> controller_ok q w (step_forward now source c)"
  by (auto simp: controller_ok_def step_forward_def capped_def)

lemma update_keeps:
  assumes "controller_ok q w c" "0 < source" "w = 0 \<or> 640 \<le> w"
  shows "controller_ok q w (Update now cost budget source c)"
  using count_keeps[OF assms(1), of cost budget] assms(2,3) by (auto simp: Update_def Let_def intro: back_keeps forward_keeps)

lemma window_bounds: "FlightWindow product period mbps c = (frames, window) \<Longrightarrow> 2 \<le> frames \<and> frames \<le> 8 \<and> 8192 \<le> window \<and> window \<le> 1048576"
  by (auto simp: FlightWindow_def flight_frames_def)

section \<open>The frames in flight\<close>

lemma show_nat_inject: "show_nat m = show_nat n \<longleftrightarrow> m = n"
proof
  assume "show_nat m = show_nat n"
  then have "digits_value 0 (show_nat m) = digits_value 0 (show_nat n)" by (rule arg_cong)
  then show "m = n" unfolding digits_value_show by simp
qed simp

lemma frame_id_inject: "frame_id g m = frame_id g n \<longleftrightarrow> m = n"
  by (simp add: frame_id_def show_nat_inject)

definition in_flight :: "(string \<times> (int \<times> nanos)) list \<Rightarrow> int" where
  "in_flight ps = sum_list (map (fst \<circ> snd) ps)"

lemma in_flight_delete: "distinct (map fst ps) \<Longrightarrow> map_of ps k = Some (len, sent) \<Longrightarrow> in_flight (AList.delete k ps) = in_flight ps - len"
proof (induction ps)
  case (Cons p ps)
  obtain k' l t where p: "p = (k', l, t)" by (cases p)
  show ?case
  proof (cases "k' = k")
    case True
    then have "AList.delete k ps = ps" using Cons.prems p by (simp add: delete_idem)
    then show ?thesis using True Cons.prems p by (simp add: in_flight_def)
  qed (use Cons p in \<open>simp add: in_flight_def\<close>)
qed simp

lemma length_delete: "length (AList.delete k ps) \<le> length ps"
  by (simp add: AList.delete_eq)

lemma pending_update_new: "k \<notin> fst ` set ps \<Longrightarrow> AList.update k v ps = ps @ [(k, v)]"
  by (induction ps) auto

definition flow_ok :: "stream_options \<Rightarrow> string \<Rightarrow> flow \<Rightarrow> bool" where
  "flow_ok opts g s \<longleftrightarrow> controller_ok (so_quality opts) (so_max_width opts) (fl_controller s)
     \<and> min 45 (so_quality opts) \<le> fl_quality s \<and> fl_quality s \<le> so_quality opts
     \<and> 0 \<le> fl_width s \<and> (so_max_width opts \<noteq> 0 \<longrightarrow> 0 < fl_width s \<and> fl_width s \<le> so_max_width opts)
     \<and> distinct (map fst (fl_pending s)) \<and> (\<forall>(k, len, sent) \<in> set (fl_pending s). 0 \<le> len \<and> (\<exists>n \<le> fl_seq s. k = frame_id g n))
     \<and> fl_bytes s = in_flight (fl_pending s) \<and> length (fl_pending s) \<le> 8 \<and> fl_bytes s < 1048576 + MaxDataSize
     \<and> (fl_open s \<and> so_frame_ack opts \<longrightarrow> length (fl_pending s) < 8 \<and> fl_bytes s < 1048576)
     \<and> (so_frame_ack opts \<or> fl_pending s = [])"


lemma start_flow: "flow_ok (Normalized opts) g (new_flow (Normalized opts))"
  by (auto simp: flow_ok_def new_flow_def NewLatencyController_def controller_ok_def Normalized_def in_flight_def MaxDataSize_def)

lemma ack_flow:
  assumes ok: "flow_ok opts g s"
  shows "flow_ok opts g (ack fid now s)"
proof (cases "map_of (fl_pending s) fid")
  case (Some p)
  obtain len sent where p: "p = (len, sent)" by (cases p)
  let ?ps = "AList.delete fid (fl_pending s)"
  have "0 \<le> len" using ok map_of_SomeD[OF Some] p by (auto simp: flow_ok_def)
  moreover have "in_flight ?ps = in_flight (fl_pending s) - len"
    by (rule in_flight_delete) (use ok Some p in \<open>auto simp: flow_ok_def\<close>)
  moreover have "length ?ps \<le> length (fl_pending s)" by (rule length_delete)
  moreover have "set ?ps \<subseteq> set (fl_pending s)" by (auto simp: AList.delete_eq)
  moreover have "distinct (map fst ?ps)" using ok by (simp add: flow_ok_def distinct_delete)
  ultimately show ?thesis using ok ack_keeps Some p by (auto simp: flow_ok_def ack_def)
qed (use ok in \<open>simp add: ack_def\<close>)

lemma gate_flow: "flow_ok opts g s \<Longrightarrow> flow_ok opts g (pass_gate opts product s)"
proof (cases "FlightWindow product (second div so_fps opts) (so_max_mbps opts) (fl_controller s)")
  case (Pair frames window)
  assume "flow_ok opts g s"
  then show ?thesis using Pair window_bounds[OF Pair] by (auto simp: pass_gate_def flow_ok_def)
qed

lemma send_flow:
  assumes ok: "flow_ok opts g s" and len: "0 \<le> len" "len \<le> MaxDataSize" and open_: "fl_open s"
    and source: "0 < source" and w: "so_max_width opts = 0 \<or> 640 \<le> so_max_width opts"
  shows "flow_ok opts g (send_frame opts g len sent now cost source s)"
proof -
  let ?k = "frame_id g (Suc (fl_seq s))"
  have fresh: "?k \<notin> fst ` set (fl_pending s)" using ok by (fastforce simp: flow_ok_def frame_id_inject)
  define ps where "ps = (if so_frame_ack opts then fl_pending s @ [(?k, len, sent)] else fl_pending s)"
  define c where "c = (if so_mode opts = ''adaptive'' then Update now cost (second div so_fps opts) source (fl_controller s) else fl_controller s)"
  have c: "controller_ok (so_quality opts) (so_max_width opts) c"
    using ok update_keeps[OF _ source w] by (auto simp: c_def flow_ok_def)
  have ps: "distinct (map fst ps)" "\<forall>(k, len, sent) \<in> set ps. 0 \<le> len \<and> (\<exists>n \<le> Suc (fl_seq s). k = frame_id g n)"
      "length ps \<le> 8" "in_flight ps < 1048576 + MaxDataSize" "so_frame_ack opts \<or> ps = []"
      "in_flight ps = (if so_frame_ack opts then fl_bytes s + len else fl_bytes s)"
    using ok fresh len open_ by (auto simp: ps_def flow_ok_def in_flight_def le_Suc_eq)
  have t: "send_frame opts g len sent now cost source s = s\<lparr>fl_seq := Suc (fl_seq s), fl_open := False, fl_pending := ps,
      fl_bytes := in_flight ps, fl_controller := c, fl_quality := (if so_mode opts = ''adaptive'' then lc_quality c else fl_quality s),
      fl_width := (if so_mode opts = ''adaptive'' then lc_width c else fl_width s)\<rparr>"
    unfolding send_frame_def Let_def by (simp add: ps(6) c_def) (simp add: ps_def pending_update_new[OF fresh])
  show ?thesis unfolding t using ok c ps by (auto simp: flow_ok_def controller_ok_def)
qed

text \<open>A stream never has more than a few frames outstanding: whatever is acknowledged, sent and measured, at most eight
  frames are in flight, the byte count is the sum of their sizes and stays under a megabyte and one frame, and quality
  and width stay in the range of the options.\<close>

theorem stream_flight_bounded:
  assumes s: "s = foldl (flow_step opts product g) (new_flow opts) evs" and opts: "opts = Normalized o'"
    and source: "\<forall>len sent now cost source. Frame_out len sent now cost source \<in> set evs \<longrightarrow> 0 < source"
  shows "length (fl_pending s) \<le> 8 \<and> fl_bytes s = in_flight (fl_pending s) \<and> 0 \<le> fl_bytes s \<and> fl_bytes s < 1048576 + MaxDataSize
    \<and> min 45 (so_quality opts) \<le> fl_quality s \<and> fl_quality s \<le> so_quality opts
    \<and> (so_max_width opts \<noteq> 0 \<longrightarrow> 0 < fl_width s \<and> fl_width s \<le> so_max_width opts)"
proof -
  have w: "so_max_width opts = 0 \<or> 640 \<le> so_max_width opts" using opts by (auto simp: Normalized_def)
  have "flow_ok opts g s" using source unfolding s
  proof (induction evs rule: rev_induct)
    case (snoc e evs)
    then have ok: "flow_ok opts g (foldl (flow_step opts product g) (new_flow opts) evs)" by simp
    show ?case
    proof (cases e)
      case (Frame_out len sent now cost source)
      then show ?thesis using ok send_flow[OF ok _ _ _ _ w] snoc.prems by simp
    next
      case Frame_idle
      then show ?thesis using ok by (simp add: flow_ok_def)
    qed (use ok ack_flow gate_flow in simp_all)
  qed (simp add: opts start_flow)
  moreover from this have "0 \<le> in_flight (fl_pending s)"
    unfolding in_flight_def flow_ok_def by (intro sum_list_nonneg) auto
  ultimately show ?thesis by (simp add: flow_ok_def)
qed

definition demo_options :: stream_options where
  "demo_options = Normalized \<lparr>so_version = 1, so_fps = 30, so_quality = 80, so_mode = [], so_max_width = 0, so_max_mbps = 0,
     so_save_idle = True, so_frame_ack = True, so_tile_delta = True\<rparr>"

lemma stream_flight_bounded_witness:
  "length (fl_pending (foldl (flow_step demo_options (\<lambda>m p. 0) ''g'') (new_flow demo_options)
     [Gate_try, Frame_out 1000 0 5 7 1920, Gate_try, Frame_out 2000 3 8 7 1920])) \<le> 8"
  using stream_flight_bounded[OF refl demo_options_def, where g = "''g''" and product = "\<lambda>m p. 0"
    and evs = "[Gate_try, Frame_out 1000 0 5 7 1920, Gate_try, Frame_out 2000 3 8 7 1920]"]
  by auto

end
