(* ===== verification/ConferenceTurn.thy ===== *)
theory ConferenceTurn
  imports Conference Relay
begin

text \<open>
  The TURN service of the relay (\<open>cmd/yudesk-relay/conference_turn.go\<close>): which credentials are alive, which peer
  addresses may be reached, and the relayed sockets of every user with their quota. Identities are read by
  \<open>credentialIdentity\<close> of \<open>TurnCredentials\<close>; the meeting rooms are those of \<open>Conference\<close>, the sessions those of \<open>Relay\<close>.

  The TURN server itself, its address generator and the rate limiter are libraries; what the generator answers to an
  allocation is a value of the event. The addresses are those of Go's package \<open>net\<close>.
\<close>

section \<open>Addresses\<close>

definition to4 :: "bytes \<Rightarrow> bytes option" where
  "to4 ip = (if length ip = 4 then Some ip
     else if length ip = 16 \<and> take 12 ip = replicate 10 0 @ [255, 255] then Some (drop 12 ip) else None)"

definition is_unspecified :: "bytes \<Rightarrow> bool" where
  "is_unspecified ip \<longleftrightarrow> to4 ip = Some [0, 0, 0, 0] \<or> ip = replicate 16 0"

definition is_loopback :: "bytes \<Rightarrow> bool" where
  "is_loopback ip = (case to4 ip of Some v \<Rightarrow> v ! 0 = 127 | None \<Rightarrow> ip = replicate 15 0 @ [1])"

definition is_private :: "bytes \<Rightarrow> bool" where
  "is_private ip = (case to4 ip of
     Some v \<Rightarrow> v ! 0 = 10 \<or> v ! 0 = 172 \<and> v ! 1 AND 0xf0 = 16 \<or> v ! 0 = 192 \<and> v ! 1 = 168
   | None \<Rightarrow> length ip = 16 \<and> ip ! 0 AND 0xfe = 0xfc)"

definition is_multicast :: "bytes \<Rightarrow> bool" where
  "is_multicast ip = (case to4 ip of Some v \<Rightarrow> v ! 0 AND 0xf0 = 0xe0 | None \<Rightarrow> length ip = 16 \<and> ip ! 0 = 0xff)"

definition is_link_local_unicast :: "bytes \<Rightarrow> bool" where
  "is_link_local_unicast ip = (case to4 ip of
     Some v \<Rightarrow> v ! 0 = 169 \<and> v ! 1 = 254 | None \<Rightarrow> length ip = 16 \<and> ip ! 0 = 0xfe \<and> ip ! 1 AND 0xc0 = 0x80)"

definition is_broadcast :: "bytes \<Rightarrow> bool" where
  "is_broadcast ip \<longleftrightarrow> to4 ip = Some [255, 255, 255, 255]"

definition is_global_unicast :: "bytes \<Rightarrow> bool" where
  "is_global_unicast ip \<longleftrightarrow> (length ip = 4 \<or> length ip = 16) \<and> \<not> is_broadcast ip \<and> \<not> is_unspecified ip \<and> \<not> is_loopback ip
     \<and> \<not> is_multicast ip \<and> \<not> is_link_local_unicast ip"

text \<open>A network is a number and a mask of the same length.\<close>

definition net_contains :: "bytes \<times> bytes \<Rightarrow> bytes \<Rightarrow> bool" where
  "net_contains net ip =
     (let ip = (case to4 ip of Some v \<Rightarrow> v | None \<Rightarrow> ip)
      in length ip = length (fst net) \<and> list_all (\<lambda>((n, m), b). n AND m = b AND m) (zip (zip (fst net) (snd net)) ip))"

definition permission :: "(bytes \<times> bytes) list \<Rightarrow> bytes \<Rightarrow> bool" where
  "permission allowed ip =
     (if ip = [] \<or> is_unspecified ip \<or> is_multicast ip then False
      else if \<exists>net \<in> set allowed. net_contains net ip then True
      else
        let cgnat = (case to4 ip of None \<Rightarrow> False | Some v \<Rightarrow> v ! 0 = 100 \<and> v ! 1 AND 192 = 64)
        in is_global_unicast ip \<and> \<not> is_private ip \<and> \<not> is_loopback ip \<and> \<not> is_link_local_unicast ip \<and> \<not> is_broadcast ip \<and> \<not> cgnat)"

section \<open>Credentials that are alive\<close>

definition alive :: "broker \<Rightarrow> (string \<Rightarrow> session option) \<Rightarrow> nanos \<Rightarrow> string \<Rightarrow> bool" where
  "alive b act now username =
     (case credentialIdentity now username of
        None \<Rightarrow> False
      | Some (Remote_user device sid role) \<Rightarrow> (case act device of None \<Rightarrow> False | Some s \<Rightarrow> s_id s = sid)
      | Some (Conference_user room p) \<Rightarrow>
          (case map_of (meetings b) room of None \<Rightarrow> False
           | Some r \<Rightarrow> (case r_conf r of None \<Rightarrow> False
               | Some conf \<Rightarrow> r_expires r > now
                   \<and> (case map_of (members conf) p of None \<Rightarrow> False | Some k \<Rightarrow> \<not> p_done (parts b k)))))"

text \<open>The long-term key of the TURN protocol is computed by the library.\<close>

definition authenticate ::
  "turn_config \<Rightarrow> string \<Rightarrow> (string \<Rightarrow> string \<Rightarrow> string \<Rightarrow> bytes) \<Rightarrow> broker \<Rightarrow> (string \<Rightarrow> session option) \<Rightarrow> nanos \<Rightarrow> string \<Rightarrow> string \<Rightarrow> (string \<times> bytes) option"
where
  "authenticate m realm auth_key b act now username request_realm =
     (if request_realm \<noteq> realm \<or> \<not> alive b act now username then None
      else Some (username, auth_key username realm (password m username)))"

section \<open>Relayed sockets\<close>

definition conferenceTURNMaxAllocations :: nat where "conferenceTURNMaxAllocations = 20"

record turn_conn =
  tc_username :: string
  tc_user :: string

text \<open>An allocation between its two critical sections is in progress.\<close>

record turn_service =
  ts_users :: "string \<Rightarrow> nat option"
  ts_conns :: "(nat \<times> turn_conn) list"
  ts_progress :: "turn_conn list"
  ts_next :: nat
  ts_closing :: bool
  ts_ports :: "int \<times> int"

definition turn_user :: "turn_identity \<Rightarrow> string" where
  "turn_user i = (case i of Conference_user room p \<Rightarrow> ''conference:'' @ room @ '':'' @ p @ '':''
     | Remote_user device sid role \<Rightarrow> ''remote:'' @ device @ '':'' @ role @ '':'' @ sid)"

datatype turn_error = Invalid_identity | Port_outside_range | Quota_reached | Generator_error | Service_stopping

definition count_of :: "turn_service \<Rightarrow> string \<Rightarrow> nat" where
  "count_of s u = (case ts_users s u of None \<Rightarrow> 0 | Some n \<Rightarrow> n)"

text \<open>One socket or reservation of a user less.\<close>

definition give_back :: "string \<Rightarrow> turn_service \<Rightarrow> turn_service" where
  "give_back u s = (case ts_users s u of None \<Rightarrow> s
     | Some n \<Rightarrow> s\<lparr>ts_users := (ts_users s)(u := (if n - 1 = 0 then None else Some (n - 1)))\<rparr>)"

definition allocate_reserve :: "nanos \<Rightarrow> string \<Rightarrow> int \<Rightarrow> turn_service \<Rightarrow> (turn_error + turn_conn) \<times> turn_service" where
  "allocate_reserve now username port s =
     (case credentialIdentity now username of None \<Rightarrow> (Inl Invalid_identity, s)
      | Some i \<Rightarrow>
        if port \<noteq> 0 \<and> (port < fst (ts_ports s) \<or> port > snd (ts_ports s)) then (Inl Port_outside_range, s)
        else
          let u = turn_user i;
              n = count_of s u
          in if ts_closing s \<or> n \<ge> conferenceTURNMaxAllocations then (Inl Quota_reached, s\<lparr>ts_users := (ts_users s)(u \<mapsto> n)\<rparr>)
             else (Inr \<lparr>tc_username = username, tc_user = u\<rparr>,
               s\<lparr>ts_users := (ts_users s)(u \<mapsto> n + 1), ts_progress := ts_progress s @ [\<lparr>tc_username = username, tc_user = u\<rparr>]\<rparr>))"

text \<open>\<open>conferencePacketConn.Close\<close>: a socket that is already closed is not in the table.\<close>

definition close_conn :: "nat \<Rightarrow> turn_service \<Rightarrow> turn_service" where
  "close_conn k s = (case map_of (ts_conns s) k of None \<Rightarrow> s
     | Some c \<Rightarrow> give_back (tc_user c) (s\<lparr>ts_conns := filter (\<lambda>(j, _). j \<noteq> k) (ts_conns s)\<rparr>))"

definition allocate_finish :: "turn_conn \<Rightarrow> bool \<Rightarrow> turn_service \<Rightarrow> (turn_error + nat) \<times> turn_service" where
  "allocate_finish c generated s =
     (let s = s\<lparr>ts_progress := remove1 c (ts_progress s)\<rparr>; k = ts_next s in
      if \<not> generated then (Inl Generator_error, give_back (tc_user c) s)
      else
        let s' = s\<lparr>ts_conns := ts_conns s @ [(k, c)], ts_next := Suc k\<rparr>
        in if ts_closing s then (Inl Service_stopping, close_conn k s') else (Inr k, s'))"

definition prune :: "(string \<Rightarrow> bool) \<Rightarrow> turn_service \<Rightarrow> turn_service" where
  "prune live s = fold (\<lambda>(k, c) s. if live (tc_username c) then s else close_conn k s) (ts_conns s) s"

definition close_service :: "turn_service \<Rightarrow> turn_service" where
  "close_service s = (if ts_closing s then s else fold (\<lambda>(k, c) s. close_conn k s) (ts_conns s) (s\<lparr>ts_closing := True\<rparr>))"

definition new_service :: "int \<times> int \<Rightarrow> turn_service" where
  "new_service ports = \<lparr>ts_users = Map.empty, ts_conns = [], ts_progress = [], ts_next = 0, ts_closing = False, ts_ports = ports\<rparr>"

text \<open>The prune of a tick is given the credentials alive at that moment.\<close>

datatype turn_event =
    Allocate nanos string int
  | Allocated turn_conn bool
  | Close_conn nat
  | Prune "string \<Rightarrow> bool"
  | Close_service

fun turn_step :: "turn_service \<Rightarrow> turn_event \<Rightarrow> turn_service" where
  "turn_step s (Allocate now username port) = snd (allocate_reserve now username port s)"
| "turn_step s (Allocated c generated) = (if c \<in> set (ts_progress s) then snd (allocate_finish c generated s) else s)"
| "turn_step s (Close_conn k) = close_conn k s"
| "turn_step s (Prune live) = prune live s"
| "turn_step s Close_service = close_service s"

end
