(* ===== verification/ConferenceTurn_Props.thy ===== *)
theory ConferenceTurn_Props
  imports ConferenceTurn
begin

text \<open>
  The TURN service: the addresses it may reach, credentials that follow meetings and sessions, and the accounts of
  relayed sockets.
\<close>

section \<open>Public addresses only\<close>

lemma ip4_length: "to4 ip = Some v \<Longrightarrow> length v = 4 \<and> to4 v = Some v"
  by (auto simp: to4_def split: if_splits)

lemma to4_not_v6: "to4 ip = Some v \<Longrightarrow> ip \<noteq> replicate 16 0 \<and> v \<noteq> replicate 16 0 \<and> (length ip = 4 \<or> length ip = 16)"
proof -
  assume v: "to4 ip = Some v"
  have "ip \<noteq> replicate 16 0"
  proof
    assume "ip = replicate 16 0"
    then have zero: "ip ! 10 = 0" "length ip \<noteq> 4" by simp_all
    have "take 12 ip = replicate 10 0 @ [255, 255]" using v zero(2) by (auto simp: to4_def split: if_splits)
    from arg_cong[OF this, of "\<lambda>xs. xs ! 10"] have "ip ! 10 = 255" by (simp add: nth_append)
    then show False using zero(1) by simp
  qed
  moreover have "v \<noteq> replicate 16 0" using ip4_length[OF v] by auto
  ultimately show ?thesis using v by (auto simp: to4_def split: if_splits)
qed

lemmas address_defs = is_unspecified_def is_loopback_def is_private_def is_multicast_def is_link_local_unicast_def is_broadcast_def
  is_global_unicast_def

lemma permission_to4:
  assumes "to4 ip = Some v"
  shows "permission allowed ip = permission allowed v"
proof -
  have v: "to4 v = Some v" "length v = 4" "length ip = 4 \<or> length ip = 16" "ip \<noteq> []" "v \<noteq> []" "ip \<noteq> replicate 16 0" "v \<noteq> replicate 16 0"
    using ip4_length[OF assms] to4_not_v6[OF assms] by auto
  have nets: "net_contains net ip = net_contains net v" for net using assms v(1) by (simp add: net_contains_def)
  have same: "is_unspecified ip = is_unspecified v" "is_loopback ip = is_loopback v" "is_private ip = is_private v"
    "is_multicast ip = is_multicast v" "is_link_local_unicast ip = is_link_local_unicast v" "is_broadcast ip = is_broadcast v"
    using assms v by (simp_all add: address_defs)
  then have "is_global_unicast ip = is_global_unicast v" using v(2,3) by (auto simp: is_global_unicast_def)
  then show ?thesis using same nets v assms by (simp add: permission_def)
qed

text \<open>The upper bits of a byte.\<close>

lemma drop_is: "unat (drop_bit k x) = unat x div 2 ^ k" for x :: byte
  unfolding drop_bit_eq_div[symmetric] by (rule unat_drop_bit_eq)

lemma high_bits: "x AND push_bit k (mask (8 - k)) = push_bit k (drop_bit k x)" for x :: byte
  by (rule bit_word_eqI) (auto simp: bit_simps)

lemma push_high: "push_bit k (drop_bit k x) = push_bit k y \<longleftrightarrow> drop_bit k x = y" if "drop_bit (8 - k) y = 0" "k \<le> 8" for x y :: byte
proof
  assume a: "push_bit k (drop_bit k x) = push_bit k y"
  show "drop_bit k x = y"
  proof (rule bit_word_eqI)
    fix n assume n: "n < LENGTH(8)"
    show "bit (drop_bit k x) n = bit y n"
    proof (cases "n + k < 8")
      case True
      have "bit (push_bit k (drop_bit k x)) (n + k) = bit (push_bit k y) (n + k)" using a by simp
      then show ?thesis using True by (simp add: bit_simps)
    next
      case False
      have "bit (drop_bit (8 - k) y) (n + k - 8) = bit y n" using False that(2) by (simp add: bit_simps)
      then have "\<not> bit y n" using that(1) by simp
      then show ?thesis using False by (auto simp: bit_simps dest: bit_imp_le_length)
    qed
  qed
qed simp

lemma high_is:
  fixes x y z m :: byte
  assumes "k \<le> 8" "m = push_bit k (mask (8 - k))" "z = push_bit k y" "drop_bit (8 - k) y = 0"
  shows "x AND m = z \<longleftrightarrow> unat x div 2 ^ k = unat y"
  unfolding assms(2,3) high_bits push_high[OF assms(4,1)] by (simp add: drop_is[symmetric] word_unat_eq_iff)

lemma byte_classes:
  "x AND 0xf0 = 16 \<longleftrightarrow> 16 \<le> unat x \<and> unat x \<le> 31" "x AND 0xf0 = 0xe0 \<longleftrightarrow> 224 \<le> unat x \<and> unat x \<le> 239"
  "x AND 192 = 64 \<longleftrightarrow> 64 \<le> unat x \<and> unat x \<le> 127" for x :: byte
proof -
  show "x AND 0xf0 = 16 \<longleftrightarrow> 16 \<le> unat x \<and> unat x \<le> 31"
    by (subst high_is[of 4 _ _ 1]) (simp_all add: mask_numeral, arith)
  show "x AND 0xf0 = 0xe0 \<longleftrightarrow> 224 \<le> unat x \<and> unat x \<le> 239"
    by (subst high_is[of 4 _ _ 14]) (simp_all add: mask_numeral, arith)
  show "x AND 192 = 64 \<longleftrightarrow> 64 \<le> unat x \<and> unat x \<le> 127"
    by (subst high_is[of 6 _ _ 1]) (simp_all add: mask_numeral, arith)
qed

text \<open>TURN reaches the public internet only: unless the operator allows a network, a peer address the service permits is none of
  the relay's own, private, link-local, carrier-grade, multicast or broadcast addresses, and writing an IPv4 address as an
  IPv6 one changes nothing.\<close>

theorem turn_peers_are_public:
  assumes v: "to4 ip = Some v"
  shows "permission allowed ip = permission allowed v
    \<and> (permission allowed ip \<and> (\<forall>net \<in> set allowed. \<not> net_contains net ip) \<longrightarrow>
       (let a = unat (v ! 0); b = unat (v ! 1)
        in a \<noteq> 10 \<and> a \<noteq> 127 \<and> \<not> (a = 172 \<and> 16 \<le> b \<and> b \<le> 31) \<and> \<not> (a = 192 \<and> b = 168) \<and> \<not> (a = 169 \<and> b = 254)
         \<and> \<not> (a = 100 \<and> 64 \<le> b \<and> b \<le> 127) \<and> \<not> (224 \<le> a \<and> a \<le> 239) \<and> v \<noteq> [0, 0, 0, 0] \<and> v \<noteq> [255, 255, 255, 255]))"
proof (intro conjI impI)
  show "permission allowed ip = permission allowed v" by (rule permission_to4[OF v])
  have num: "x = word_of_nat n \<longleftrightarrow> unat x = n" if "n < 256" for x :: byte and n
    using that by (simp add: word_unat_eq_iff unsigned_of_nat take_bit_nat_eq_self)
  assume "permission allowed ip \<and> (\<forall>net \<in> set allowed. \<not> net_contains net ip)"
  then have "\<not> is_unspecified ip \<and> \<not> is_multicast ip \<and> \<not> is_private ip \<and> \<not> is_loopback ip \<and> \<not> is_link_local_unicast ip \<and> \<not> is_broadcast ip
      \<and> \<not> (v ! 0 = 100 \<and> v ! 1 AND 192 = 64)"
    using v by (auto simp: permission_def Let_def split: if_splits)
  then show "let a = unat (v ! 0); b = unat (v ! 1)
        in a \<noteq> 10 \<and> a \<noteq> 127 \<and> \<not> (a = 172 \<and> 16 \<le> b \<and> b \<le> 31) \<and> \<not> (a = 192 \<and> b = 168) \<and> \<not> (a = 169 \<and> b = 254)
         \<and> \<not> (a = 100 \<and> 64 \<le> b \<and> b \<le> 127) \<and> \<not> (224 \<le> a \<and> a \<le> 239) \<and> v \<noteq> [0, 0, 0, 0] \<and> v \<noteq> [255, 255, 255, 255]"
    using v num[of 10 "v ! 0"] num[of 127 "v ! 0"] num[of 172 "v ! 0"] num[of 192 "v ! 0"] num[of 168 "v ! 1"] num[of 169 "v ! 0"]
      num[of 254 "v ! 1"] num[of 100 "v ! 0"]
    by (simp add: Let_def is_unspecified_def is_multicast_def is_private_def is_loopback_def is_link_local_unicast_def is_broadcast_def byte_classes)
qed

lemma turn_peers_are_public_witness:
  "permission [] (replicate 10 0 @ [255, 255, 10, 0, 0, 1]) = permission [] [10, 0, 0, 1] \<and> permission [] [8, 8, 8, 8]"
  using turn_peers_are_public[of "replicate 10 0 @ [255, 255, 10, 0, 0, 1]" "[10, 0, 0, 1]" "[]"] by code_simp


section \<open>Sockets and their accounts\<close>

text \<open>What a user holds: open sockets and allocations in progress.\<close>

definition sockets :: "string \<Rightarrow> (nat \<times> turn_conn) list \<Rightarrow> nat" where
  "sockets u cs = length (filter (\<lambda>(k, c). tc_user c = u) cs)"

definition in_progress :: "string \<Rightarrow> turn_conn list \<Rightarrow> nat" where
  "in_progress u ps = length (filter (\<lambda>c. tc_user c = u) ps)"

definition turn_ok :: "turn_service \<Rightarrow> bool" where
  "turn_ok s \<longleftrightarrow> distinct (map fst (ts_conns s)) \<and> (\<forall>k \<in> fst ` set (ts_conns s). k < ts_next s)
     \<and> (\<forall>u. count_of s u = sockets u (ts_conns s) + in_progress u (ts_progress s)
       \<and> sockets u (ts_conns s) + in_progress u (ts_progress s) \<le> conferenceTURNMaxAllocations)
     \<and> (ts_closing s \<longrightarrow> ts_conns s = [])"

lemma start_turn: "turn_ok (new_service ports)"
  by (simp add: turn_ok_def new_service_def count_of_def sockets_def in_progress_def)

lemma count_give_back: "count_of (give_back u s) v = (if v = u then count_of s u - 1 else count_of s v)"
  by (auto simp: give_back_def count_of_def split: option.splits)

lemma give_back_kept [simp]:
  "ts_conns (give_back u s) = ts_conns s" "ts_progress (give_back u s) = ts_progress s" "ts_next (give_back u s) = ts_next s"
  "ts_closing (give_back u s) = ts_closing s"
  by (simp_all add: give_back_def split: option.splits)

lemma sockets_without:
  "distinct (map fst cs) \<Longrightarrow> map_of cs k = Some c \<Longrightarrow> sockets u (filter (\<lambda>(j, _). j \<noteq> k) cs) = sockets u cs - (if tc_user c = u then 1 else 0)
     \<and> (tc_user c = u \<longrightarrow> 0 < sockets u cs)"
proof (induction cs)
  case (Cons p cs)
  obtain j d where p: "p = (j, d)" by (cases p)
  show ?case
  proof (cases "j = k")
    case True
    then have "filter (\<lambda>(j, _). j \<noteq> k) cs = cs" using Cons.prems p by (force simp: filter_id_conv)
    then show ?thesis using True Cons.prems p by (simp add: sockets_def)
  next
    case False
    then show ?thesis using Cons p by (auto simp: sockets_def)
  qed
qed simp

lemma in_progress_remove:
  "c \<in> set ps \<Longrightarrow> in_progress u (remove1 c ps) = in_progress u ps - (if tc_user c = u then 1 else 0) \<and> (tc_user c = u \<longrightarrow> 0 < in_progress u ps)"
  by (induction ps) (auto simp: in_progress_def)

lemma close_conns: "ts_conns (close_conn k s) = filter (\<lambda>(j, _). j \<noteq> k) (ts_conns s)"
proof (cases "map_of (ts_conns s) k")
  case None
  then have "\<forall>x \<in> set (ts_conns s). fst x \<noteq> k" by (auto simp: map_of_eq_None_iff)
  then have "filter (\<lambda>(j, _). j \<noteq> k) (ts_conns s) = ts_conns s" by (auto simp: filter_id_conv split_beta)
  then show ?thesis using None by (simp add: close_conn_def)
qed (simp add: close_conn_def)

lemma close_kept [simp]: "ts_closing (close_conn k s) = ts_closing s" "ts_next (close_conn k s) = ts_next s"
  by (simp_all add: close_conn_def split: option.splits)

text \<open>The accounts without what holds while the service closes.\<close>

definition accounts_ok :: "turn_service \<Rightarrow> bool" where
  "accounts_ok s \<longleftrightarrow> distinct (map fst (ts_conns s)) \<and> (\<forall>k \<in> fst ` set (ts_conns s). k < ts_next s)
     \<and> (\<forall>u. count_of s u = sockets u (ts_conns s) + in_progress u (ts_progress s)
       \<and> sockets u (ts_conns s) + in_progress u (ts_progress s) \<le> conferenceTURNMaxAllocations)"

lemma turn_ok_alt: "turn_ok s \<longleftrightarrow> accounts_ok s \<and> (ts_closing s \<longrightarrow> ts_conns s = [])"
  by (auto simp: turn_ok_def accounts_ok_def)

lemma distinct_filter_keys: "distinct (map fst cs) \<Longrightarrow> distinct (map fst (filter P cs))"
  by (induction cs) auto

lemma length_filter_conj_le: "length (filter P (filter Q xs)) \<le> length (filter P xs)"
  by (induction xs) auto

lemma close_accounts: "accounts_ok s \<Longrightarrow> accounts_ok (close_conn k s)"
proof (cases "map_of (ts_conns s) k")
  case (Some c)
  assume ok: "accounts_ok s"
  have eq: "count_of (close_conn k s) v = (if v = tc_user c then count_of s v - 1 else count_of s v)" for v
    using Some by (simp add: close_conn_def count_give_back) (simp add: count_of_def)
  have prog: "ts_progress (close_conn k s) = ts_progress s" by (simp add: close_conn_def split: option.splits)
  show ?thesis unfolding accounts_ok_def
  proof (intro conjI allI)
    show "distinct (map fst (ts_conns (close_conn k s)))" using ok by (simp add: accounts_ok_def close_conns distinct_filter_keys)
    show "\<forall>j \<in> fst ` set (ts_conns (close_conn k s)). j < ts_next (close_conn k s)" using ok by (auto simp: accounts_ok_def close_conns)
    fix u
    have old: "count_of s u = sockets u (ts_conns s) + in_progress u (ts_progress s)" "sockets u (ts_conns s) + in_progress u (ts_progress s) \<le> conferenceTURNMaxAllocations"
      using ok by (simp_all add: accounts_ok_def)
    show "count_of (close_conn k s) u = sockets u (ts_conns (close_conn k s)) + in_progress u (ts_progress (close_conn k s))"
      using sockets_without[of "ts_conns s" k c u] ok Some old by (auto simp: eq close_conns prog accounts_ok_def)
    show "sockets u (ts_conns (close_conn k s)) + in_progress u (ts_progress (close_conn k s)) \<le> conferenceTURNMaxAllocations"
      using old(2) unfolding close_conns prog by (rule order_trans[rotated]) (simp only: sockets_def add_le_cancel_right length_filter_conj_le)
  qed
qed (simp add: close_conn_def)

lemma prune_fold:
  "accounts_ok s \<Longrightarrow> accounts_ok (fold (\<lambda>(k, c) s. if live (tc_username c) then s else close_conn k s) cs s)
     \<and> ts_closing (fold (\<lambda>(k, c) s. if live (tc_username c) then s else close_conn k s) cs s) = ts_closing s
     \<and> ts_conns (fold (\<lambda>(k, c) s. if live (tc_username c) then s else close_conn k s) cs s)
       = filter (\<lambda>(j, _). \<forall>(k, c) \<in> set cs. live (tc_username c) \<or> j \<noteq> k) (ts_conns s)"
proof (induction cs arbitrary: s)
  case (Cons p cs)
  obtain k c where p: "p = (k, c)" by (cases p)
  show ?case
  proof (cases "live (tc_username c)")
    case True
    then show ?thesis using Cons p by simp
  next
    case False
    then show ?thesis using Cons.IH[OF close_accounts[OF Cons.prems, of k]] p
      by (auto simp: close_conns intro!: filter_cong)
  qed
qed simp

lemma prune_conns:
  assumes "accounts_ok s"
  shows "accounts_ok (prune live s) \<and> ts_closing (prune live s) = ts_closing s
    \<and> ts_conns (prune live s) = filter (\<lambda>(k, c). live (tc_username c)) (ts_conns s)"
proof -
  have d: "distinct (map fst (ts_conns s))" using assms by (simp add: accounts_ok_def)
  have one: "c = d" if "(k, c) \<in> set (ts_conns s)" "(k, d) \<in> set (ts_conns s)" for k c d
    using d that by (metis map_of_is_SomeI option.inject)
  have "filter (\<lambda>(j, _). \<forall>(k, c) \<in> set (ts_conns s). live (tc_username c) \<or> j \<noteq> k) (ts_conns s)
      = filter (\<lambda>(k, c). live (tc_username c)) (ts_conns s)"
    by (rule filter_cong) (auto dest: one)
  then show ?thesis using prune_fold[OF assms, of live "ts_conns s"] by (simp add: prune_def)
qed

lemma close_service_ok: "turn_ok s \<Longrightarrow> turn_ok (close_service s)"
proof (cases "ts_closing s")
  case False
  assume "turn_ok s"
  then have ok: "accounts_ok (s\<lparr>ts_closing := True\<rparr>)" by (simp add: turn_ok_def accounts_ok_def count_of_def)
  have "close_service s = prune (\<lambda>_. False) (s\<lparr>ts_closing := True\<rparr>)" using False by (simp add: close_service_def prune_def)
  then show ?thesis using prune_conns[OF ok, of "\<lambda>_. False"] by (simp add: turn_ok_alt)
qed (simp add: close_service_def)


lemma reserve_ok: "turn_ok s \<Longrightarrow> turn_ok (snd (allocate_reserve now username port s))"
proof (cases "credentialIdentity now username")
  case (Some i)
  assume ok: "turn_ok s"
  define u where "u = turn_user i"
  have c: "count_of (s\<lparr>ts_users := (ts_users s)(u \<mapsto> n)\<rparr>) v = (if v = u then n else count_of s v)" for n v
    by (simp add: count_of_def)
  have c': "count_of (s\<lparr>ts_users := (ts_users s)(u \<mapsto> n), ts_progress := ps\<rparr>) v = (if v = u then n else count_of s v)" for n v ps
    by (simp add: count_of_def)
  have sum: "count_of s v = sockets v (ts_conns s) + in_progress v (ts_progress s)"
      "sockets v (ts_conns s) + in_progress v (ts_progress s) \<le> conferenceTURNMaxAllocations" for v
    using ok by (simp_all add: turn_ok_def)
  show ?thesis using ok Some sum[of u]
    by (simp add: allocate_reserve_def Let_def u_def[symmetric] turn_ok_def c c' in_progress_def)
qed (simp add: allocate_reserve_def)

lemma finish_ok: "turn_ok s \<Longrightarrow> c \<in> set (ts_progress s) \<Longrightarrow> turn_ok (snd (allocate_finish c generated s))"
proof -
  assume ok: "turn_ok s" and c: "c \<in> set (ts_progress s)"
  define r where "r = s\<lparr>ts_progress := remove1 c (ts_progress s)\<rparr>"
  define t where "t = r\<lparr>ts_conns := ts_conns s @ [(ts_next s, c)], ts_next := Suc (ts_next s)\<rparr>"
  have sum: "count_of s v = sockets v (ts_conns s) + in_progress v (ts_progress s)"
      "sockets v (ts_conns s) + in_progress v (ts_progress s) \<le> conferenceTURNMaxAllocations" for v
    using ok by (simp_all add: turn_ok_def)
  note prog = in_progress_remove[OF c]
  have t: "accounts_ok t"
    unfolding accounts_ok_def
  proof (intro conjI allI)
    show "distinct (map fst (ts_conns t))" "\<forall>k \<in> fst ` set (ts_conns t). k < ts_next t"
      using ok by (auto simp: t_def turn_ok_def less_Suc_eq)
    fix u
    show "count_of t u = sockets u (ts_conns t) + in_progress u (ts_progress t)"
      "sockets u (ts_conns t) + in_progress u (ts_progress t) \<le> conferenceTURNMaxAllocations"
      using sum[of u] prog[of u] by (auto simp: t_def r_def count_of_def sockets_def)
  qed
  have refused: "turn_ok (give_back (tc_user c) r)"
    unfolding turn_ok_def count_give_back
  proof (intro conjI allI)
    show "distinct (map fst (ts_conns (give_back (tc_user c) r)))" "\<forall>k \<in> fst ` set (ts_conns (give_back (tc_user c) r)). k < ts_next (give_back (tc_user c) r)"
      "ts_closing (give_back (tc_user c) r) \<longrightarrow> ts_conns (give_back (tc_user c) r) = []"
      using ok by (auto simp: r_def turn_ok_def)
    fix u
    have "count_of r u = count_of s u" by (simp add: r_def count_of_def)
    then show "(if u = tc_user c then count_of r (tc_user c) - 1 else count_of r u)
          = sockets u (ts_conns (give_back (tc_user c) r)) + in_progress u (ts_progress (give_back (tc_user c) r))"
      "sockets u (ts_conns (give_back (tc_user c) r)) + in_progress u (ts_progress (give_back (tc_user c) r)) \<le> conferenceTURNMaxAllocations"
      using sum[of u] prog[of u] by (auto simp: r_def)
  qed
  have "ts_conns (close_conn (ts_next s) t) = []" if "ts_closing s"
    using that ok by (simp add: close_conns t_def turn_ok_def)
  then have "turn_ok (if ts_closing s then close_conn (ts_next s) t else t)"
    using t close_accounts[OF t] by (auto simp: turn_ok_alt t_def r_def)
  then show ?thesis using refused unfolding t_def r_def by (auto simp: allocate_finish_def Let_def)
qed

lemma turn_step_ok: "turn_ok s \<Longrightarrow> turn_ok (turn_step s e)"
proof (cases e)
  case (Prune live)
  assume "turn_ok s"
  then show ?thesis using Prune prune_conns[of s live] by (auto simp: turn_ok_alt)
next
  case (Close_conn k)
  assume "turn_ok s"
  then show ?thesis using Close_conn close_accounts[of s k] by (auto simp: turn_ok_alt close_conns)
qed (auto intro: reserve_ok finish_ok close_service_ok)

interpretation turn: event_system turn_step turn_ok
  by unfold_locales (rule turn_step_ok)

text \<open>C37: The TURN service keeps exact accounts: in every run each user's count is the number of sockets and of allocations in
  progress, these are never more than twenty, a closed service has no socket, and a tick of the prune keeps
  exactly the sockets whose credentials are alive.\<close>

theorem turn_accounts_exact:
  assumes s: "s = foldl turn_step (new_service ports) evs"
  shows "count_of s u = sockets u (ts_conns s) + in_progress u (ts_progress s)
    \<and> sockets u (ts_conns s) + in_progress u (ts_progress s) \<le> conferenceTURNMaxAllocations
    \<and> (ts_closing s \<longrightarrow> ts_conns s = [])
    \<and> ts_conns (turn_step s (Prune live)) = filter (\<lambda>(k, c). live (tc_username c)) (ts_conns s)"
proof -
  have "turn_ok s" unfolding s by (rule turn.run_keeps[OF start_turn])
  then show ?thesis using prune_conns[of s live] by (auto simp: turn_ok_alt accounts_ok_def)
qed

definition demo_user :: string where
  "demo_user = ''7200:123456789:aaaaaaaaaaaaaaaaaaaaaaaa''"

lemma turn_accounts_exact_witness:
  "count_of (foldl turn_step (new_service (50000, 50100)) [Allocate 0 demo_user 0]) ''conference:123456789:aaaaaaaaaaaaaaaaaaaaaaaa:'' \<le> 20"
  using turn_accounts_exact[OF refl, where ports = "(50000, 50100)" and evs = "[Allocate 0 demo_user 0]"] unfolding conferenceTURNMaxAllocations_def by metis

section \<open>Credentials and sessions\<close>

text \<open>TURN follows the remote session: the user name handed to one end of a session is accepted as long as it is fresh and exactly
  this session of the device is the active one; a new session or none makes it worthless at once.\<close>

theorem turn_follows_the_session:
  assumes "- (2 ^ 63) \<le> unix_seconds expires" "unix_seconds expires < 2 ^ 63"
    and "length device = 24" "hex_upper device" "length sid = 32" "hex_lower sid" "role \<in> {''agent'', ''viewer''}"
  shows "(authenticate m realm auth_key b (rl_active r) now (remote_username expires device sid role) realm \<noteq> None)
    \<longleftrightarrow> fresh_at (unix_seconds expires) now \<and> (\<exists>s. rl_active r device = Some s \<and> s_id s = sid)"
  using read_remote[OF assms, of now] by (auto simp: authenticate_def alive_def split: option.splits if_splits)

definition demo_relay :: relay where
  "demo_relay = new_relay\<lparr>rl_active := [replicate 24 CHR ''A'' \<mapsto> \<lparr>s_agent = 1, s_viewer = 2, s_owner = [], s_id = replicate 32 CHR ''b''\<rparr>]\<rparr>"

lemma turn_follows_the_session_witness:
  "\<forall>m auth_key b. authenticate m ''yudesk'' auth_key b (rl_active demo_relay) 0
     (remote_username 7200000000000 (replicate 24 CHR ''A'') (replicate 32 CHR ''b'') ''viewer'') ''yudesk'' \<noteq> None"
proof -
  have "hex_upper (replicate 24 CHR ''A'')" "hex_lower (replicate 32 CHR ''b'')" by code_simp+
  moreover have "unix_seconds 7200000000000 = 7200" "unix_seconds 0 = 0" by (simp_all add: unix_seconds_def)
  ultimately show ?thesis
    using turn_follows_the_session[of 7200000000000 "replicate 24 CHR ''A''" "replicate 32 CHR ''b''" "''viewer''" _ "''yudesk''" _ _ demo_relay 0]
    by (simp add: fresh_at_def demo_relay_def)
qed

end
