(* ===== verification/RemoteInput_Props.thy ===== *)
theory RemoteInput_Props
  imports RemoteInput
begin

text \<open>
  What remote input guarantees: the queue keeps every press, release and key in its order and drops only pointer
  positions that a newer one replaced; what the session owes is exactly what is pressed, and a failed message or the
  end of the session leaves nothing pressed that the operating system lets go of; and coordinates are
  scaled to the screen.
\<close>

section \<open>The queue\<close>

datatype queue_event = Enq in_message | Deq | Halt

text \<open>The queue with the messages it accepted and those the worker took, each with its hover mark.\<close>

type_synonym queue_run = "input_queue \<times> (in_message \<times> bool) list \<times> (in_message \<times> bool) list"

fun queue_step :: "events_json \<Rightarrow> queue_run \<Rightarrow> queue_event \<Rightarrow> queue_run" where
  "queue_step json (q, accepted, taken) (Enq m) =
     (case enqueue json m q of (True, q') \<Rightarrow> (q', accepted @ [(m, is_hover json m (q_buttons q))], taken)
      | (False, q') \<Rightarrow> (q', accepted, taken))"
| "queue_step json (q, accepted, taken) Deq =
     (case take_input q of (None, q') \<Rightarrow> (q', accepted, taken) | (Some m, q') \<Rightarrow> (q', accepted, taken @ [hd (q_items q)]))"
| "queue_step json (q, accepted, taken) Halt = (stop_input q, accepted, taken)"

definition queue_ok :: "queue_run \<Rightarrow> bool" where
  "queue_ok r \<longleftrightarrow> (case r of (q, accepted, taken) \<Rightarrow> length (q_items q) \<le> inputQueueLimit
     \<and> (\<exists>rest. (\<not> q_stopped q \<longrightarrow> rest = q_items q) \<and> subseq (taken @ rest) accepted
         \<and> filter (\<lambda>x. \<not> snd x) accepted = filter (\<lambda>x. \<not> snd x) (taken @ rest)
         \<and> (accepted \<noteq> [] \<longrightarrow> taken @ rest \<noteq> [] \<and> last (taken @ rest) = last accepted)))"

lemma enqueue_cases:
  assumes "enqueue json m q = (ok, q')"
  obtains (refused) "\<not> ok" "q' = q"
  | (replaced) old rest where "ok" "\<not> q_stopped q" "q_items q = rest @ [(old, True)]" "q_items q' = rest @ [(m, True)]"
      "\<not> q_stopped q'" "is_hover json m (q_buttons q)"
  | (added) "ok" "\<not> q_stopped q" "q_items q' = q_items q @ [(m, is_hover json m (q_buttons q))]" "\<not> q_stopped q'"
      "length (q_items q) \<noteq> inputQueueLimit"
proof (cases "length (in_params m) > inputParamsLimit \<or> in_data m \<noteq> [] \<or> q_stopped q")
  case True
  then have "enqueue json m q = (False, q)" by (auto simp: enqueue_def)
  then show thesis using assms refused by simp
next
  case False
  show thesis
  proof (cases "is_hover json m (q_buttons q) \<and> q_items q \<noteq> [] \<and> snd (last (q_items q))")
    case True
    then have "enqueue json m q = (True, q\<lparr>q_items := butlast (q_items q) @ [(m, True)]\<rparr>)" using False by (simp add: enqueue_def)
    moreover have "q_items q = butlast (q_items q) @ [(fst (last (q_items q)), True)]" using True by (metis append_butlast_last_id prod.collapse)
    ultimately show thesis using assms True False by (intro replaced) auto
  next
    case other: False
    show thesis
    proof (cases "length (q_items q) = inputQueueLimit")
      case True
      then have "enqueue json m q = (False, q)" using False other by (auto simp: enqueue_def Let_def)
      then show thesis using assms refused by simp
    next
      case room: False
      have "enqueue json m q = (True, q\<lparr>q_buttons := buttons_after json m (q_buttons q), q_items := q_items q @ [(m, is_hover json m (q_buttons q))]\<rparr>)"
        using False other room by (auto simp: enqueue_def Let_def)
      then show thesis using assms room False by (auto intro!: added)
    qed
  qed
qed

lemma queue_keeps: "queue_ok r \<Longrightarrow> queue_ok (queue_step json r ev)"
proof -
  obtain q accepted taken where r: "r = (q, accepted, taken)" by (cases r) auto
  assume "queue_ok r"
  then obtain rest where few: "length (q_items q) \<le> inputQueueLimit" and rest: "\<not> q_stopped q \<Longrightarrow> rest = q_items q"
    and sub: "subseq (taken @ rest) accepted" and kept: "filter (\<lambda>x. \<not> snd x) accepted = filter (\<lambda>x. \<not> snd x) (taken @ rest)"
    and newest: "accepted \<noteq> [] \<Longrightarrow> taken @ rest \<noteq> [] \<and> last (taken @ rest) = last accepted"
    unfolding queue_ok_def r by auto
  show ?thesis
  proof (cases ev)
    case (Enq m)
    obtain ok q' where run: "enqueue json m q = (ok, q')" by fastforce
    let ?x = "(m, is_hover json m (q_buttons q))"
    show ?thesis using run
    proof (cases rule: enqueue_cases)
      case refused
      then show ?thesis using \<open>queue_ok r\<close> by (simp add: Enq r run)
    next
      case (replaced old before)
      have old: "taken @ rest = (taken @ before) @ [(old, True)]" using rest replaced(2,3) by simp
      have "subseq ((taken @ before) @ []) ((taken @ before) @ [(old, True)])" by (intro list_emb_append_mono) simp_all
      then have "subseq (taken @ before) accepted" using sub unfolding old append_Nil2 by (rule subseq_order.trans)
      then have "subseq ((taken @ before) @ [?x]) (accepted @ [?x])" by (intro list_emb_append_mono) simp_all
      moreover have "filter (\<lambda>x. \<not> snd x) (accepted @ [?x]) = filter (\<lambda>x. \<not> snd x) ((taken @ before) @ [?x])"
        using kept old replaced(6) by simp
      ultimately show ?thesis using few replaced by (simp add: Enq r run queue_ok_def)
    next
      case added
      have "subseq ((taken @ rest) @ [?x]) (accepted @ [?x])" using sub by (intro list_emb_append_mono) simp_all
      moreover have "filter (\<lambda>x. \<not> snd x) (accepted @ [?x]) = filter (\<lambda>x. \<not> snd x) ((taken @ rest) @ [?x])" using kept by simp
      ultimately show ?thesis using few rest added by (simp add: Enq r run queue_ok_def)
    qed
  next
    case Deq
    show ?thesis
    proof (cases "q_stopped q \<or> q_items q = []")
      case True
      then show ?thesis using \<open>queue_ok r\<close> by (auto simp: Deq r take_input_def)
    next
      case False
      then obtain x items where items: "q_items q = x # items" "\<not> q_stopped q" by (cases "q_items q") auto
      then have "taken @ rest = (taken @ [x]) @ items" using rest by simp
      then show ?thesis using few sub kept newest items by (cases x) (simp add: Deq r take_input_def queue_ok_def)
    qed
  next
    case Halt
    then show ?thesis using sub kept newest by (auto simp: r stop_input_def queue_ok_def)
  qed
qed

interpretation inputs: event_system "queue_step json" queue_ok for json
  by unfold_locales (rule queue_keeps)

text \<open>No press, release or key is lost or reordered. Whatever is enqueued, taken and stopped in whatever order, the
  queue holds at most 64 messages, and the messages the worker takes, followed by those that wait (or, after a
  stop, by some that are dropped), are the accepted ones in their order, without pointer positions that a
  newer position directly replaced: every message that is not a bare pointer position is there, and so is the newest.\<close>

theorem input_order_preserved:
  assumes run: "foldl (queue_step json) (newInputQueue, [], []) evs = (q, accepted, taken)"
  shows "length (q_items q) \<le> inputQueueLimit
    \<and> (\<exists>rest. (\<not> q_stopped q \<longrightarrow> rest = q_items q) \<and> subseq (taken @ rest) accepted
        \<and> filter (\<lambda>x. \<not> snd x) accepted = filter (\<lambda>x. \<not> snd x) (taken @ rest)
        \<and> (accepted \<noteq> [] \<longrightarrow> taken @ rest \<noteq> [] \<and> last (taken @ rest) = last accepted))"
proof -
  have "queue_ok (newInputQueue, [], [])" by (simp add: queue_ok_def newInputQueue_def)
  then have "queue_ok (q, accepted, taken)" using inputs.run_keeps[of "(newInputQueue, [], [])" json evs] run by simp
  then show ?thesis unfolding queue_ok_def by simp
qed

definition move_msg :: in_message where
  "move_msg = \<lparr>in_kind = ''event'', in_method = ''input'', in_params = [1], in_data = []\<rparr>"

definition click_msg :: in_message where
  "click_msg = \<lparr>in_kind = ''event'', in_method = ''input'', in_params = [2], in_data = []\<rparr>"

definition demo_event :: "string \<Rightarrow> input_event" where
  "demo_event t = \<lparr>ev_type = t, ev_x = 5, ev_y = 5, ev_button = 1, ev_key = [], ev_code = [], ev_text = [], ev_dx = 0, ev_dy = 0\<rparr>"

definition demo_events :: events_json where
  "demo_events raw = (if raw = [1] then Some [demo_event ''move''] else if raw = [2] then Some [demo_event ''down''] else None)"

text \<open>Two moves and a press: the first move is replaced, the press stays.\<close>

lemma input_order_preserved_witness:
  "length (q_items (fst (foldl (queue_step demo_events) (newInputQueue, [], []) [Enq move_msg, Enq move_msg, Enq click_msg]))) = 2
   \<and> filter (\<lambda>x. \<not> snd x) [(move_msg, True), (move_msg, True), (click_msg, False)] = [(click_msg, False)]"
proof -
  have run: "foldl (queue_step demo_events) (newInputQueue, [], []) [Enq move_msg, Enq move_msg, Enq click_msg] =
     (\<lparr>q_items = [(move_msg, True), (click_msg, False)], q_buttons = 2, q_stopped = False\<rparr>,
      [(move_msg, True), (move_msg, True), (click_msg, False)], [])"
    by (simp add: enqueue_def is_hover_def buttons_after_def press_def newInputQueue_def move_msg_def click_msg_def demo_events_def
        demo_event_def inputParamsLimit_def inputQueueLimit_def)
  from input_order_preserved[OF run] show ?thesis unfolding run by simp
qed

section \<open>What is pressed\<close>

text \<open>The buttons and keys down after the events the operating system accepted.\<close>

definition down_buttons :: "input_event \<Rightarrow> int set \<Rightarrow> int set" where
  "down_buttons e bs = (if ev_type e = ''down'' then insert (ev_button e) bs else if ev_type e = ''up'' then bs - {ev_button e} else bs)"

definition down_keys :: "input_event \<Rightarrow> string set \<Rightarrow> string set" where
  "down_keys e ks = (if ev_type e = ''key_down'' then insert (key_id e) ks else if ev_type e = ''key_up'' then ks - {key_id e} else ks)"

definition held_buttons :: "input_event list \<Rightarrow> int set" where
  "held_buttons log = fold down_buttons log {}"

definition held_keys :: "input_event list \<Rightarrow> string set" where
  "held_keys log = fold down_keys log {}"

definition tracked :: "input_session \<Rightarrow> bool" where
  "tracked s \<longleftrightarrow> set (is_buttons s) = held_buttons (is_log s) \<and> fst ` set (is_keys s) = held_keys (is_log s)
     \<and> distinct (map fst (is_keys s)) \<and> (\<forall>(k, e) \<in> set (is_keys s). key_id e = k)"


lemma held_snoc [simp]:
  "held_buttons (log @ [e]) = down_buttons e (held_buttons log)" "held_keys (log @ [e]) = down_keys e (held_keys log)"
  by (simp_all add: held_buttons_def held_keys_def)

lemma tracked_frame [simp]:
  "tracked (s\<lparr>is_x := x\<rparr>) = tracked s" "tracked (s\<lparr>is_y := y\<rparr>) = tracked s" "tracked (s\<lparr>is_pending := p\<rparr>) = tracked s"
  "tracked (s\<lparr>is_geometry := g\<rparr>) = tracked s"
  by (simp_all add: tracked_def)


lemma key_id_type [simp]: "key_id (e\<lparr>ev_type := t\<rparr>) = key_id e"
  by (simp add: key_id_def)













text \<open>Releases are tried: the operating system was asked for \<open>e\<close> between two states of the log, and refused.\<close>

definition refused :: "injector \<Rightarrow> input_event list \<Rightarrow> input_event list \<Rightarrow> input_event \<Rightarrow> bool" where
  "refused os before after e \<longleftrightarrow> (\<exists>l. prefix before l \<and> prefix l after \<and> \<not> os l e)"

definition only_releases :: "input_event list \<Rightarrow> bool" where
  "only_releases es \<longleftrightarrow> list_all (\<lambda>e. ev_type e = ''up'' \<or> ev_type e = ''key_up'') es"





lemma only_releases_append [simp]: "only_releases (xs @ ys) \<longleftrightarrow> only_releases xs \<and> only_releases ys" "only_releases []"
  by (simp_all add: only_releases_def)

text \<open>What a loop of releases does to the log: it adds releases, and each of the events still owed was refused meanwhile.\<close>

definition tries :: "injector \<Rightarrow> input_event list \<Rightarrow> input_event list \<Rightarrow> input_event set \<Rightarrow> bool" where
  "tries os before after owed \<longleftrightarrow> (\<exists>ups. after = before @ ups \<and> only_releases ups) \<and> (\<forall>e \<in> owed. refused os before after e)"




lemma tries_mono: "tries os l l' owed \<Longrightarrow> owed' \<subseteq> owed \<Longrightarrow> tries os l l' owed'"
  unfolding tries_def by blast














section \<open>Coordinates\<close>

lemma geometry_round_trip: "0 < w \<Longrightarrow> w < 2 ^ 32 \<Longrightarrow> 0 < h \<Longrightarrow> h < 2 ^ 32 \<Longrightarrow> load_geometry (geometry w h g) = (w, h)"
proof -
  assume wh: "0 < w" "w < 2 ^ 32" "0 < h" "h < 2 ^ 32"
  let ?w = "word_of_int w :: 32 word" and ?h = "word_of_int h :: 32 word"
  have "drop_bit 32 (push_bit 32 (ucast ?w) OR ucast ?h :: 64 word) = ucast ?w"
    by (rule bit_word_eqI) (auto simp: bit_simps)
  moreover have "(ucast (push_bit 32 (ucast ?w) OR ucast ?h :: 64 word) :: 32 word) = ?h"
    by (rule bit_word_eqI) (auto simp: bit_simps)
  moreover have "uint ?w = w" "uint ?h = h" using wh by (simp_all add: uint_word_of_int mod_pos_pos_trivial)
  moreover have "uint (ucast ?w :: 64 word) = uint ?w"
  proof -
    have "uint ?w < 2 ^ 32" using unsigned_less[of ?w] by simp
    then show ?thesis by (simp add: unsigned_ucast_eq take_bit_int_eq_self)
  qed
  ultimately show ?thesis using wh by (simp add: geometry_def pack_geometry_def load_geometry_def)
qed

lemma sdiv_nonneg: "0 \<le> n \<Longrightarrow> 0 < d \<Longrightarrow> n sdiv d = n div (d :: int)"
  by (cases "n = 0") (simp_all add: signed_divide_int_def)

lemma nearest_rounding: "\<bar>2 * (p - q)\<bar> \<le> d"
  if "q + h = p + m" "m < d" "0 \<le> m" "2 * h = d \<or> 2 * h = d - 1" for p q h m d :: int
  using that by presburger

text \<open>The pointer lands on the screen. Scaling a coordinate from a picture of \<open>a\<close> pixels to a screen of \<open>b\<close>, for sizes up to
  2 to the 31, clamps it to the picture, maps the first pixel to the first and the last to the last, never leaves
  the screen, keeps the order, and is off the exact proportion by at most half a pixel.\<close>

theorem pointer_stays_on_screen:
  assumes "1 < a" "a \<le> 2 ^ 31" "1 < b" "b \<le> 2 ^ 31"
  shows "0 \<le> ScaleCoordinate v a b \<and> ScaleCoordinate v a b \<le> b - 1
    \<and> (v \<le> 0 \<longrightarrow> ScaleCoordinate v a b = 0) \<and> (a - 1 \<le> v \<longrightarrow> ScaleCoordinate v a b = b - 1)
    \<and> (v \<le> u \<longrightarrow> ScaleCoordinate v a b \<le> ScaleCoordinate u a b)
    \<and> (0 \<le> v \<and> v \<le> a - 1 \<longrightarrow> \<bar>2 * (ScaleCoordinate v a b * (a - 1) - v * (b - 1))\<bar> \<le> a - 1)"
proof -
  define f where "f x = (x * (b - 1) + (a - 1) div 2) div (a - 1)" for x :: int
  have scale: "ScaleCoordinate x a b = f (min (max x 0) (a - 1))" for x
  proof -
    define y where "y = min (max x 0) (a - 1)"
    have y: "0 \<le> y" "y \<le> 2 ^ 31 - 1" using assms by (auto simp: y_def)
    have "y * (b - 1) \<le> (2 ^ 31 - 1) * (2 ^ 31 - 1)" by (rule mult_mono) (use y assms in auto)
    moreover have "0 \<le> y * (b - 1)" using y assms by simp
    moreover have "0 \<le> (a - 1) div 2" "(a - 1) div 2 \<le> 2 ^ 31" using assms by simp_all
    ultimately have "wrap64 (wrap64 (y * (b - 1)) + (a - 1) div 2) = y * (b - 1) + (a - 1) div 2" "0 \<le> y * (b - 1) + (a - 1) div 2"
      by (simp_all add: wrap64_small)
    then show ?thesis using assms by (simp add: ScaleCoordinate_def Let_def y_def[symmetric] f_def sdiv_nonneg)
  qed
  have mono: "f x \<le> f y" if "x \<le> y" for x y
    unfolding f_def using assms that by (intro zdiv_mono1 add_right_mono mult_right_mono) auto
  have half: "(a - 1) div 2 < a - 1" "0 \<le> (a - 1) div 2" using assms by simp_all
  then have f0: "f 0 = 0" by (simp add: f_def div_pos_pos_trivial)
  have f1: "f (a - 1) = b - 1"
  proof -
    have "f (a - 1) = ((a - 1) div 2 + (b - 1) * (a - 1)) div (a - 1)" by (simp add: f_def algebra_simps)
    then show ?thesis using half assms by (simp add: div_mult_self1 div_pos_pos_trivial)
  qed
  have near: "\<bar>2 * (f x * (a - 1) - x * (b - 1))\<bar> \<le> a - 1" for x
  proof -
    let ?n = "x * (b - 1) + (a - 1) div 2"
    have "?n = f x * (a - 1) + ?n mod (a - 1)" unfolding f_def by (rule div_mult_mod_eq[symmetric])
    moreover have "?n mod (a - 1) < a - 1" "0 \<le> ?n mod (a - 1)" using assms by (intro pos_mod_bound pos_mod_sign; simp)+
    moreover have "2 * ((a - 1) div 2) = a - 1 \<or> 2 * ((a - 1) div 2) = a - 2" by presburger
    ultimately show ?thesis using assms by (intro nearest_rounding[of "x * (b - 1)" _ "f x * (a - 1)" "?n mod (a - 1)"]) auto
  qed
  have "0 \<le> f (min (max v 0) (a - 1))" using mono[of 0 "min (max v 0) (a - 1)"] f0 assms by simp
  moreover have "f (min (max v 0) (a - 1)) \<le> b - 1" using mono[of "min (max v 0) (a - 1)" "a - 1"] f1 by simp
  moreover have "v \<le> u \<Longrightarrow> f (min (max v 0) (a - 1)) \<le> f (min (max u 0) (a - 1))" by (rule mono) auto
  moreover have "v \<le> 0 \<Longrightarrow> f (min (max v 0) (a - 1)) = 0" using f0 assms by (simp add: min_def max_def)
  moreover have "a - 1 \<le> v \<Longrightarrow> f (min (max v 0) (a - 1)) = b - 1" using f1 assms min_absorb2[of "a - 1" "max v 0"] by (simp add: le_max_iff_disj)
  moreover have "0 \<le> v \<and> v \<le> a - 1 \<Longrightarrow> \<bar>2 * (f (min (max v 0) (a - 1)) * (a - 1) - v * (b - 1))\<bar> \<le> a - 1" using near[of v] by (simp only: max_absorb1 min_absorb1)
  ultimately show ?thesis unfolding scale by blast
qed

lemma pointer_stays_on_screen_witness: "ScaleCoordinate 1919 1920 3840 = 3839 \<and> ScaleCoordinate 100 1920 3840 \<le> ScaleCoordinate 101 1920 3840"
  using pointer_stays_on_screen[of 1920 3840 1919 1919] pointer_stays_on_screen[of 1920 3840 100 101] by auto

end
