(* ===== verification/RelayClient.thy ===== *)
theory RelayClient
  imports Relay
begin

text \<open>
  The relay's clients (\<open>internal/relay/relay.go\<close>, \<open>internal/relay/resolve.go\<close>): the refusals the relay writes and the client
  reads, the ICE policy carried by the last line before the session, and the loop that waits for a peer. What the
  server writes is \<open>writeRelayRejection\<close> of \<open>cmd/yudesk-relay/main.go\<close> and the lines of \<open>Relay\<close>.

  JSON, SHA-256 and the system's certificate verification are parameters. Base 64 is written out. A connection is
  the bytes it will still deliver, after which reading fails.
\<close>

section \<open>Base 64 for one line\<close>

text \<open>\<open>base64.RawURLEncoding\<close>.\<close>

definition url_digit :: "nat \<Rightarrow> char" where
  "url_digit v = (if v < 26 then char_of (65 + v) else if v < 52 then char_of (71 + v) else if v < 62 then char_of (v - 4)
     else if v = 62 then CHR ''-'' else CHR ''_'')"

definition url_value :: "char \<Rightarrow> nat option" where
  "url_value c =
     (let n = ord c in
      if 65 \<le> n \<and> n \<le> 90 then Some (n - 65) else if 97 \<le> n \<and> n \<le> 122 then Some (n - 71) else if 48 \<le> n \<and> n \<le> 57 then Some (n + 4)
      else if c = CHR ''-'' then Some 62 else if c = CHR ''_'' then Some 63 else None)"

fun sextets :: "nat list \<Rightarrow> nat list" where
  "sextets (a # b # c # rest) = [a div 4, a mod 4 * 16 + b div 16, b mod 16 * 4 + c div 64, c mod 64] @ sextets rest"
| "sextets [a, b] = [a div 4, a mod 4 * 16 + b div 16, b mod 16 * 4]"
| "sextets [a] = [a div 4, a mod 4 * 16]"
| "sextets [] = []"

fun octets :: "nat list \<Rightarrow> nat list option" where
  "octets (v # w # x # y # rest) =
     map_option (\<lambda>bs. [v * 4 + w div 16, w mod 16 * 16 + x div 4, x mod 4 * 64 + y] @ bs) (octets rest)"
| "octets [v, w, x] = Some [v * 4 + w div 16, w mod 16 * 16 + x div 4]"
| "octets [v, w] = Some [v * 4 + w div 16]"
| "octets [v] = None"
| "octets [] = Some []"

definition url_encode :: "bytes \<Rightarrow> string" where
  "url_encode bs = map url_digit (sextets (map unat bs))"

fun all_values :: "string \<Rightarrow> nat list option" where
  "all_values [] = Some []"
| "all_values (c # cs) = (case (url_value c, all_values cs) of (Some v, Some vs) \<Rightarrow> Some (v # vs) | _ \<Rightarrow> None)"

text \<open>The decoder of Go skips line ends.\<close>

definition url_decode :: "string \<Rightarrow> bytes option" where
  "url_decode s = map_option (map word_of_nat) (Option.bind (all_values (filter (\<lambda>c. ord c \<noteq> 10 \<and> ord c \<noteq> 13) s)) octets)"

section \<open>Policies\<close>

definition maxRTCPolicyBytes :: nat where "maxRTCPolicyBytes = 8192"

definition valid_url :: "string \<Rightarrow> bool" where
  "valid_url v \<longleftrightarrow> length v \<noteq> 0 \<and> length v \<le> 512 \<and> (\<forall>c \<in> set v. ord c \<noteq> 13 \<and> ord c \<noteq> 10)"

definition valid_server :: "ice_server \<Rightarrow> bool" where
  "valid_server s \<longleftrightarrow> length (ice_urls s) \<noteq> 0 \<and> length (ice_urls s) \<le> 4 \<and> length (ice_user s) \<le> 512 \<and> length (ice_credential s) \<le> 1024
     \<and> list_all valid_url (ice_urls s)"

definition validateRTCPolicy :: "rtc_policy \<Rightarrow> bool" where
  "validateRTCPolicy p \<longleftrightarrow> 500 \<le> direct_timeout p \<and> direct_timeout p \<le> 10000 \<and> length (ice_servers p) \<noteq> 0 \<and> length (ice_servers p) \<le> 8
     \<and> list_all valid_server (ice_servers p)"

text \<open>\<open>marshal\<close> fails never for these types; \<open>unmarshal\<close> refuses unknown fields and trailing data.\<close>

record policy_json =
  marshal :: "rtc_policy \<Rightarrow> bytes"
  unmarshal :: "bytes \<Rightarrow> rtc_policy option"

definition EncodeRTCPolicy :: "policy_json \<Rightarrow> rtc_policy \<Rightarrow> string option" where
  "EncodeRTCPolicy json p =
     (if \<not> validateRTCPolicy p then None
      else if length (marshal json p) > maxRTCPolicyBytes then None else Some (url_encode (marshal json p)))"

text \<open>\<open>RawURLEncoding.EncodedLen\<close>.\<close>

definition encoded_len :: "nat \<Rightarrow> nat" where
  "encoded_len n = n div 3 * 4 + (n mod 3 * 8 + 5) div 6"

definition decodeRTCPolicy :: "policy_json \<Rightarrow> string \<Rightarrow> rtc_policy option" where
  "decodeRTCPolicy json s =
     (if length s = 0 \<or> length s > encoded_len maxRTCPolicyBytes then None
      else case url_decode s of None \<Rightarrow> None
      | Some raw \<Rightarrow> if length raw > maxRTCPolicyBytes then None
          else case unmarshal json raw of None \<Rightarrow> None | Some p \<Rightarrow> if validateRTCPolicy p then Some p else None)"

section \<open>Refusals\<close>

definition one_line :: "string \<Rightarrow> string" where
  "one_line s = map (\<lambda>c. if ord c = 13 \<or> ord c = 10 then CHR '' '' else c) s"

definition newline :: char where "newline = CHR 0x0A"

definition writeRelayRejection :: "string \<Rightarrow> string \<Rightarrow> string" where
  "writeRelayRejection code message = ''ERR '' @ code @ '' '' @ one_line (trim_space message) @ [newline]"

definition validRejectionCode :: "string \<Rightarrow> bool" where
  "validRejectionCode code \<longleftrightarrow> code \<noteq> [] \<and> list_all (\<lambda>c. 65 \<le> ord c \<and> ord c \<le> 90 \<or> c = CHR ''_'') code"

text \<open>\<open>strings.Contains\<close>, and \<open>strings.SplitN(s, " ", 2)\<close>.\<close>

fun has_substring :: "string \<Rightarrow> string \<Rightarrow> bool" where
  "has_substring [] p = (p = [])"
| "has_substring (c # cs) p = (has_prefix (c # cs) p \<or> has_substring cs p)"

definition split_two :: "string \<Rightarrow> string \<times> string option" where
  "split_two s = (case dropWhile (\<lambda>c. c \<noteq> CHR '' '') s of [] \<Rightarrow> (s, None) | _ # rest \<Rightarrow> (takeWhile (\<lambda>c. c \<noteq> CHR '' '') s, Some rest))"

datatype rejection = Plain_error string | Rejection string string

definition guess_code :: "string \<Rightarrow> string" where
  "guess_code rest =
     (let lower = to_lower rest in
      if has_substring lower ''activation is required'' \<or> has_substring lower ''has expired'' then ''LICENSE_REQUIRED''
      else if has_substring lower ''revoked'' \<or> has_substring lower ''disabled'' then ''DISABLED'' else ''DENIED'')"

definition parseRelayRejection :: "string \<Rightarrow> rejection" where
  "parseRelayRejection line =
     (if \<not> has_prefix line ''ERR '' then Plain_error line
      else
        let rest = trim_space (drop 4 line) in
        case split_two rest of
          (code, Some message) \<Rightarrow> if validRejectionCode code then Rejection code (trim_space message) else Rejection (guess_code rest) rest
        | (_, None) \<Rightarrow> Rejection (guess_code rest) rest)"

section \<open>Waiting for a peer\<close>

datatype dial_result =
    Read_failed
  | Refused_by rejection
  | Bad_policy
  | Connected "rtc_policy option" string

text \<open>\<open>ReadString('\n')\<close>.\<close>

definition read_line :: "string \<Rightarrow> (string \<times> string) option" where
  "read_line s = (case dropWhile (\<lambda>c. c \<noteq> newline) s of [] \<Rightarrow> None | n # rest \<Rightarrow> Some (takeWhile (\<lambda>c. c \<noteq> newline) s @ [n], rest))"

text \<open>The loop of \<open>DialWithContext\<close>: \<open>None\<close> would be a loop without end. What follows the last line stays in the
  connection.\<close>

partial_function (option) dial_loop :: "policy_json \<Rightarrow> bool \<Rightarrow> string \<Rightarrow> dial_result option" where
  "dial_loop json v2 s =
     (case read_line s of
        None \<Rightarrow> Some Read_failed
      | Some (line, rest) \<Rightarrow>
          let trimmed = trim_space line in
          if trimmed = ''WAIT'' \<or> trimmed = ''PING'' then dial_loop json v2 rest
          else if trimmed = ''OK'' then Some (Connected None rest)
          else if v2 \<and> has_prefix trimmed ''OK '' then
            (case decodeRTCPolicy json (trim_space (drop 3 trimmed)) of None \<Rightarrow> Some Bad_policy | Some p \<Rightarrow> Some (Connected (Some p) rest))
          else Some (Refused_by (parseRelayRejection trimmed)))"

section \<open>Certificates and device codes\<close>

record dial_options =
  do_tls :: bool
  do_insecure :: bool
  do_fingerprint :: string

definition upper_hex_string :: "bytes \<Rightarrow> string" where
  "upper_hex_string bs = to_upper (hex_encode bs)"

definition wanted_fingerprint :: "dial_options \<Rightarrow> string" where
  "wanted_fingerprint opts = to_upper (filter (\<lambda>c. c \<noteq> CHR '':'') (trim_space (do_fingerprint opts)))"

text \<open>Which certificates the TLS client of \<open>clientTLSConfig\<close> accepts; \<open>verify\<close> is the verification of the standard library.\<close>

definition accepts_server :: "(bytes \<Rightarrow> bytes) \<Rightarrow> (bytes list \<Rightarrow> bool) \<Rightarrow> dial_options \<Rightarrow> bytes list \<Rightarrow> bool" where
  "accepts_server sha256 verify opts certs =
     (if do_insecure opts then True
      else if wanted_fingerprint opts \<noteq> [] then certs \<noteq> [] \<and> upper_hex_string (sha256 (hd certs)) = wanted_fingerprint opts
      else verify certs)"

definition IsDeviceCode :: "string \<Rightarrow> bool" where
  "IsDeviceCode v \<longleftrightarrow> length v = 9 \<and> hd v \<noteq> CHR ''0'' \<and> list_all is_digit v"

record resolution =
  rs_id :: string
  rs_code :: string
  rs_name :: string
  rs_error :: string

datatype resolve_error = Not_a_code | Unverified_relay | No_answer_line | Not_found

text \<open>\<open>ResolveDevice\<close> up to the connection, and what it makes of the answer.\<close>

definition resolve_start :: "dial_options \<Rightarrow> string \<Rightarrow> resolve_error + unit" where
  "resolve_start opts code = (if \<not> IsDeviceCode code then Inl Not_a_code else if \<not> do_tls opts \<or> do_insecure opts then Inl Unverified_relay else Inr ())"

definition resolve_answer :: "string \<Rightarrow> resolution option option \<Rightarrow> resolve_error + resolution" where
  "resolve_answer code answer =
     (case answer of None \<Rightarrow> Inl No_answer_line
      | Some None \<Rightarrow> Inl Not_found
      | Some (Some r) \<Rightarrow>
          if rs_error r \<noteq> [] \<or> rs_code r \<noteq> code \<or> length (rs_id r) \<noteq> 24 \<or> \<not> list_all (\<lambda>c. is_digit c \<or> 65 \<le> ord c \<and> ord c \<le> 70) (rs_id r)
          then Inl Not_found else Inr r)"

end
