(* ===== verification/RelayClient_Props.thy ===== *)
theory RelayClient_Props
  imports RelayClient "HOL-Library.Sublist"
begin

text \<open>
  The relay's clients: refusals and policies are read as they were written, and the wait for a peer always ends, with
  nothing of the session lost.
\<close>

section \<open>Base 64\<close>















section \<open>Trimming lines\<close>

lemma trim_left_stays: "\<not> ascii_space c \<Longrightarrow> ord c < 128 \<Longrightarrow> trim_left (c # cs) = c # cs"
  by (auto simp: space2_def space3_def split: list.splits)

lemma trim_rev_stays: "\<not> ascii_space c \<Longrightarrow> ord c < 128 \<Longrightarrow> trim_rev (c # cs) = c # cs"
  by (auto simp: space2_def space3_def split: list.splits)

lemma newline_space [simp]: "ascii_space newline"
  by (simp add: ascii_space_def newline_def)

lemma trim_line:
  assumes "s \<noteq> []" "\<not> ascii_space (hd s)" "ord (hd s) < 128" "\<not> ascii_space (last s)" "ord (last s) < 128"
  shows "trim_space (s @ [newline]) = s" "trim_space s = s"
proof -
  have l: "trim_left (s @ xs) = s @ xs" for xs using assms trim_left_stays by (cases s) auto
  have r: "trim_rev (List.rev s) = List.rev s" using assms trim_rev_stays by (cases s rule: rev_cases) auto
  show "trim_space (s @ [newline]) = s" using l[of "[newline]"] r by (simp add: trim_space_def)
  show "trim_space s = s" using l[of "[]"] r by (simp add: trim_space_def)
qed

lemma read_line_append: "newline \<notin> set s \<Longrightarrow> read_line (s @ newline # rest) = Some (s @ [newline], rest)"
proof -
  assume "newline \<notin> set s"
  then have "dropWhile (\<lambda>c. c \<noteq> newline) (s @ newline # rest) = newline # rest" "takeWhile (\<lambda>c. c \<noteq> newline) (s @ newline # rest) = s"
    by (auto simp: dropWhile_append takeWhile_append)
  then show ?thesis by (simp add: read_line_def)
qed

lemma read_line_parts: "read_line s = Some (line, rest) \<Longrightarrow> s = line @ rest \<and> line \<noteq> []"
proof -
  assume a: "read_line s = Some (line, rest)"
  then obtain n where "dropWhile (\<lambda>c. c \<noteq> newline) s = n # rest" "line = takeWhile (\<lambda>c. c \<noteq> newline) s @ [n]"
    by (auto simp: read_line_def split: list.splits)
  then show ?thesis using takeWhile_dropWhile_id[of "\<lambda>c. c \<noteq> newline" s] by simp
qed

section \<open>The wait for a peer\<close>

text \<open>A line, and a line that asks to wait.\<close>

definition is_line :: "string \<Rightarrow> bool" where
  "is_line l \<longleftrightarrow> (\<exists>t. l = t @ [newline] \<and> newline \<notin> set t)"

definition asks_to_wait :: "string \<Rightarrow> bool" where
  "asks_to_wait l \<longleftrightarrow> is_line l \<and> (trim_space l = ''WAIT'' \<or> trim_space l = ''PING'')"

lemma read_line_exact: "read_line s = Some (line, rest) \<Longrightarrow> s = line @ rest \<and> is_line line"
proof -
  assume a: "read_line s = Some (line, rest)"
  then obtain n where n: "dropWhile (\<lambda>c. c \<noteq> newline) s = n # rest" "line = takeWhile (\<lambda>c. c \<noteq> newline) s @ [n]"
    by (auto simp: read_line_def split: list.splits)
  then have "n = newline" using hd_dropWhile[of "\<lambda>c. c \<noteq> newline" s] by auto
  then show ?thesis using n takeWhile_dropWhile_id[of "\<lambda>c. c \<noteq> newline" s] by (auto simp: is_line_def dest: set_takeWhileD)
qed

lemma read_line_None: "read_line s = None \<Longrightarrow> newline \<notin> set s"
  by (auto simp: read_line_def dropWhile_eq_Nil_conv split: list.splits)

text \<open>What a result says of the bytes: after lines that ask to wait comes the answer, and what follows it is left.\<close>

definition answered :: "policy_json \<Rightarrow> bool \<Rightarrow> string \<Rightarrow> dial_result \<Rightarrow> bool" where
  "answered json v2 s r \<longleftrightarrow> (\<exists>waits tail. s = concat waits @ tail \<and> list_all asks_to_wait waits \<and>
     (case r of
        Read_failed \<Rightarrow> newline \<notin> set tail
      | Connected p rest \<Rightarrow> \<exists>line. tail = line @ rest \<and> is_line line
          \<and> (trim_space line = ''OK'' \<and> p = None
             \<or> v2 \<and> has_prefix (trim_space line) ''OK '' \<and> p \<noteq> None \<and> p = decodeRTCPolicy json (trim_space (drop 3 (trim_space line))))
      | Bad_policy \<Rightarrow> \<exists>line rest. tail = line @ rest \<and> is_line line \<and> v2 \<and> has_prefix (trim_space line) ''OK ''
          \<and> decodeRTCPolicy json (trim_space (drop 3 (trim_space line))) = None
      | Refused_by e \<Rightarrow> \<exists>line rest. tail = line @ rest \<and> is_line line \<and> \<not> asks_to_wait line \<and> trim_space line \<noteq> ''OK''
          \<and> \<not> (v2 \<and> has_prefix (trim_space line) ''OK '') \<and> e = parseRelayRejection (trim_space line)))"

lemma answered_now:
  "(case r of
        Read_failed \<Rightarrow> newline \<notin> set s
      | Connected p rest \<Rightarrow> \<exists>line. s = line @ rest \<and> is_line line
          \<and> (trim_space line = ''OK'' \<and> p = None
             \<or> v2 \<and> has_prefix (trim_space line) ''OK '' \<and> p \<noteq> None \<and> p = decodeRTCPolicy json (trim_space (drop 3 (trim_space line))))
      | Bad_policy \<Rightarrow> \<exists>line rest. s = line @ rest \<and> is_line line \<and> v2 \<and> has_prefix (trim_space line) ''OK ''
          \<and> decodeRTCPolicy json (trim_space (drop 3 (trim_space line))) = None
      | Refused_by e \<Rightarrow> \<exists>line rest. s = line @ rest \<and> is_line line \<and> \<not> asks_to_wait line \<and> trim_space line \<noteq> ''OK''
          \<and> \<not> (v2 \<and> has_prefix (trim_space line) ''OK '') \<and> e = parseRelayRejection (trim_space line)) \<Longrightarrow> answered json v2 s r"
  unfolding answered_def by (intro exI[of _ "[]"] exI[of _ s]) simp

lemma answered_later: "asks_to_wait line \<Longrightarrow> answered json v2 rest r \<Longrightarrow> answered json v2 (line @ rest) r"
  unfolding answered_def by (elim exE conjE) (rule_tac x = "line # waits" in exI, rule_tac x = tail in exI, simp)

lemma dial_loop_answered: "\<exists>r. dial_loop json v2 s = Some r \<and> answered json v2 s r"
proof (induction s rule: length_induct)
  case (1 s)
  note IH = 1
  show ?case
  proof (cases "read_line s")
    case None
    then show ?thesis using read_line_None by (intro exI[of _ Read_failed] conjI answered_now) (simp_all add: dial_loop.simps[of json v2 s])
  next
    case (Some lr)
    obtain line rest where lr: "lr = (line, rest)" by (cases lr)
    have s: "s = line @ rest" "is_line line" using read_line_exact[of s line rest] Some lr by auto
    define t where "t = trim_space line"
    note step = dial_loop.simps[of json v2 s, unfolded Some lr option.case prod.case Let_def, folded t_def]
    consider "t = ''WAIT'' \<or> t = ''PING''" | "t = ''OK''" | "t \<notin> {''WAIT'', ''PING'', ''OK''}" "v2 \<and> has_prefix t ''OK ''"
      | "t \<notin> {''WAIT'', ''PING'', ''OK''}" "\<not> (v2 \<and> has_prefix t ''OK '')" by blast
    then show ?thesis
    proof cases
      case 1
      then have "asks_to_wait line" "length rest < length s" using s by (auto simp: asks_to_wait_def t_def is_line_def)
      moreover from this obtain r where "dial_loop json v2 rest = Some r" "answered json v2 rest r" using IH by blast
      moreover have "dial_loop json v2 s = dial_loop json v2 rest" using 1 by (simp add: step)
      ultimately show ?thesis using answered_later unfolding s(1) by auto
    next
      case 2
      then have "dial_loop json v2 s = Some (Connected None rest)" by (simp add: step)
      moreover have "answered json v2 s (Connected None rest)" by (rule answered_now) (use s 2 in \<open>auto simp: t_def\<close>)
      ultimately show ?thesis by blast
    next
      case 3
      show ?thesis
      proof (cases "decodeRTCPolicy json (trim_space (drop 3 t))")
        case None
        then have "dial_loop json v2 s = Some Bad_policy" unfolding step using 3 by simp
        moreover have "answered json v2 s Bad_policy" by (rule answered_now) (use s 3 None in \<open>auto simp: t_def\<close>)
        ultimately show ?thesis by blast
      next
        case (Some p)
        then have "dial_loop json v2 s = Some (Connected (Some p) rest)" unfolding step using 3 by simp
        moreover have "answered json v2 s (Connected (Some p) rest)" by (rule answered_now) (use s 3 Some in \<open>auto simp: t_def\<close>)
        ultimately show ?thesis by blast
      qed
    next
      case 4
      then have "dial_loop json v2 s = Some (Refused_by (parseRelayRejection t))" unfolding step by auto
      moreover have "answered json v2 s (Refused_by (parseRelayRejection t))"
        by (rule answered_now) (use s 4 in \<open>auto simp: t_def asks_to_wait_def\<close>)
      ultimately show ?thesis by blast
    qed
  qed
qed

text \<open>Lines that ask to wait.\<close>

lemma dial_skips:
  "\<forall>l \<in> set noise. l = ''WAIT'' \<or> l = ''PING'' \<Longrightarrow>
     dial_loop json v2 (concat (map (\<lambda>l. l @ [newline]) noise) @ s) = dial_loop json v2 s"
proof (induction noise)
  case (Cons l noise)
  then have l: "l = ''WAIT'' \<or> l = ''PING''" by simp
  have "newline \<notin> set l" "trim_space (l @ [newline]) = l"
    using l trim_line(1)[of "''WAIT''"] trim_line(1)[of "''PING''"] by (auto simp: newline_def ascii_space_def)
  then have "dial_loop json v2 (l @ newline # concat (map (\<lambda>l. l @ [newline]) noise) @ s) = dial_loop json v2 (concat (map (\<lambda>l. l @ [newline]) noise) @ s)"
    using l by (subst dial_loop.simps) (simp add: read_line_append Let_def)
  then show ?case using Cons by simp
qed simp

lemma dial_plain: "dial_loop json v2 (''OK'' @ newline # payload) = Some (Connected None payload)"
proof -
  have "newline \<notin> set ''OK''" "trim_space (''OK'' @ [newline]) = ''OK''"
    using trim_line(1)[of "''OK''"] by (auto simp: newline_def ascii_space_def)
  moreover from this have "read_line (''OK'' @ newline # payload) = Some (''OK'' @ [newline], payload)" by (intro read_line_append)
  ultimately show ?thesis by (subst dial_loop.simps) (simp add: Let_def)
qed



text \<open>C38: The wait ends: whatever the relay sends, however often it says to wait, the loop returns. It has read lines that ask to wait and
  then one line, the answer, or found the connection at its end before the next line was complete. A connection it hands out
  delivers exactly what came after the answer, not a byte more or less, and carries the policy of the answer, if it had one; any other
  line is a refusal.\<close>

theorem dial_returns:
  "\<exists>r waits tail. dial_loop json v2 s = Some r \<and> s = concat waits @ tail \<and> list_all asks_to_wait waits \<and>
     (case r of
        Read_failed \<Rightarrow> newline \<notin> set tail
      | Connected p rest \<Rightarrow> \<exists>line. tail = line @ rest \<and> is_line line
          \<and> (trim_space line = ''OK'' \<and> p = None
             \<or> v2 \<and> has_prefix (trim_space line) ''OK '' \<and> p \<noteq> None \<and> p = decodeRTCPolicy json (trim_space (drop 3 (trim_space line))))
      | Bad_policy \<Rightarrow> \<exists>line rest. tail = line @ rest \<and> is_line line \<and> v2 \<and> has_prefix (trim_space line) ''OK ''
          \<and> decodeRTCPolicy json (trim_space (drop 3 (trim_space line))) = None
      | Refused_by e \<Rightarrow> \<exists>line rest. tail = line @ rest \<and> is_line line \<and> \<not> asks_to_wait line \<and> trim_space line \<noteq> ''OK''
          \<and> \<not> (v2 \<and> has_prefix (trim_space line) ''OK '') \<and> e = parseRelayRejection (trim_space line))"
proof -
  obtain r where "dial_loop json v2 s = Some r" "answered json v2 s r" using dial_loop_answered by blast
  then show ?thesis unfolding answered_def by blast
qed

lemma dial_returns_witness:
  "dial_loop \<lparr>marshal = \<lambda>p. [1], unmarshal = \<lambda>bs. None\<rparr> True (''PING'' @ newline # ''OK'' @ newline # ''session'') = Some (Connected None ''session'')
   \<and> (\<exists>waits line. ''PING'' @ newline # ''OK'' @ newline # ''session'' = concat waits @ line @ ''session'' \<and> list_all asks_to_wait waits \<and> is_line line)"
proof -
  let ?json = "\<lparr>marshal = \<lambda>p. [1], unmarshal = \<lambda>bs. None\<rparr>"
  have run: "dial_loop ?json True (''PING'' @ newline # ''OK'' @ newline # ''session'') = Some (Connected None ''session'')"
    using dial_skips[of "[''PING'']" ?json True "''OK'' @ newline # ''session''"] dial_plain[of ?json True "''session''"] by simp
  obtain r waits tail where r: "dial_loop ?json True (''PING'' @ newline # ''OK'' @ newline # ''session'') = Some r"
      "''PING'' @ newline # ''OK'' @ newline # ''session'' = concat waits @ tail" "list_all asks_to_wait waits"
      "\<forall>p rest. r = Connected p rest \<longrightarrow> (\<exists>line. tail = line @ rest \<and> is_line line)"
    using dial_returns[of ?json True "''PING'' @ newline # ''OK'' @ newline # ''session''"] by (elim exE conjE) (rule that, auto)
  then obtain line where "tail = line @ ''session''" "is_line line" using run by auto
  then show ?thesis using run r(2,3) by metis
qed
















section \<open>Refusals\<close>

text \<open>What \<open>TrimSpace\<close> leaves at the end, reversed, and at the beginning.\<close>

definition right_trimmed :: "string \<Rightarrow> bool" where
  "right_trimmed s \<longleftrightarrow> (case s of [] \<Rightarrow> True | c # cs \<Rightarrow> \<not> ascii_space c
     \<and> (case cs of [] \<Rightarrow> True | d # ds \<Rightarrow> \<not> space2 d c \<and> (case ds of [] \<Rightarrow> True | e # es \<Rightarrow> \<not> space3 e d c)))"

definition left_trimmed :: "string \<Rightarrow> bool" where
  "left_trimmed s \<longleftrightarrow> (case s of [] \<Rightarrow> True | c # cs \<Rightarrow> \<not> ascii_space c
     \<and> (case cs of [] \<Rightarrow> True | d # ds \<Rightarrow> \<not> space2 c d \<and> (case ds of [] \<Rightarrow> True | e # es \<Rightarrow> \<not> space3 c d e)))"

lemma trim_rev_trimmed: "right_trimmed (trim_rev s)"
proof (induction s rule: trim_rev.induct)
  case (2 c cs)
  show ?case
  proof (cases "ascii_space c")
    case False
    note outer = 2 False
    show ?thesis
    proof (cases cs)
      case (Cons d ds)
      show ?thesis
      proof (cases "space2 d c")
        case True
        then show ?thesis using outer Cons by simp
      next
        case two: False
        show ?thesis
        proof (cases ds)
          case (Cons e es)
          then show ?thesis using outer two \<open>cs = d # ds\<close> by (cases "space3 e d c") (simp_all add: right_trimmed_def)
        qed (use outer two Cons in \<open>simp add: right_trimmed_def\<close>)
      qed
    qed (use outer in \<open>simp add: right_trimmed_def\<close>)
  qed (use 2 in simp)
qed (simp add: right_trimmed_def)

lemma trimmed_trim_rev: "right_trimmed s \<Longrightarrow> trim_rev s = s"
proof (cases s)
  case (Cons c cs)
  assume ok: "right_trimmed s"
  show ?thesis
  proof (cases cs)
    case two: (Cons d ds)
    then show ?thesis using ok Cons by (cases ds) (simp_all add: right_trimmed_def)
  qed (use ok Cons in \<open>simp add: right_trimmed_def\<close>)
qed simp

lemma trim_left_trimmed: "left_trimmed (trim_left s)"
proof (induction s rule: trim_left.induct)
  case (2 c cs)
  show ?case
  proof (cases "ascii_space c")
    case False
    note outer = 2 False
    show ?thesis
    proof (cases cs)
      case (Cons d ds)
      show ?thesis
      proof (cases "space2 c d")
        case True
        then show ?thesis using outer Cons by simp
      next
        case two: False
        show ?thesis
        proof (cases ds)
          case (Cons e es)
          then show ?thesis using outer two \<open>cs = d # ds\<close> by (cases "space3 c d e") (simp_all add: left_trimmed_def)
        qed (use outer two Cons in \<open>simp add: left_trimmed_def\<close>)
      qed
    qed (use outer in \<open>simp add: left_trimmed_def\<close>)
  qed (use 2 in simp)
qed (simp add: left_trimmed_def)

lemma trimmed_trim_left: "left_trimmed s \<Longrightarrow> trim_left s = s"
proof (cases s)
  case (Cons c cs)
  assume ok: "left_trimmed s"
  show ?thesis
  proof (cases cs)
    case two: (Cons d ds)
    then show ?thesis using ok Cons by (cases ds) (simp_all add: left_trimmed_def)
  qed (use ok Cons in \<open>simp add: left_trimmed_def\<close>)
qed simp

lemma trim_rev_append:
  assumes "right_trimmed s" "s \<noteq> []" "ord c < 128"
  shows "trim_rev (s @ c # t) = s @ c # t"
proof (rule trimmed_trim_rev)
  show "right_trimmed (s @ c # t)"
    using assms by (cases s; cases "tl s"; cases "tl (tl s)") (auto simp: right_trimmed_def space2_def space3_def split: list.splits)
qed

lemma one_line_spaces:
  "ascii_space (if ord c = 13 \<or> ord c = 10 then CHR '' '' else c) = ascii_space c"
  "space2 (if ord c = 13 \<or> ord c = 10 then CHR '' '' else c) (if ord d = 13 \<or> ord d = 10 then CHR '' '' else d) = space2 c d"
  "space3 (if ord c = 13 \<or> ord c = 10 then CHR '' '' else c) (if ord d = 13 \<or> ord d = 10 then CHR '' '' else d)
     (if ord e = 13 \<or> ord e = 10 then CHR '' '' else e) = space3 c d e"
  by (auto simp: ascii_space_def space2_def space3_def)

lemma one_line_trimmed: "right_trimmed (List.rev s) \<Longrightarrow> right_trimmed (List.rev (one_line s))"
proof -
  have "right_trimmed s \<Longrightarrow> right_trimmed (map (\<lambda>c. if ord c = 13 \<or> ord c = 10 then CHR '' '' else c) s)" for s
    by (cases s; cases "tl s"; cases "tl (tl s)") (auto simp: right_trimmed_def one_line_spaces)
  then show "right_trimmed (List.rev s) \<Longrightarrow> ?thesis" by (simp add: one_line_def rev_map)
qed

lemma one_line_left: "left_trimmed s \<Longrightarrow> left_trimmed (one_line s)"
  unfolding one_line_def by (cases s; cases "tl s"; cases "tl (tl s)") (auto simp: left_trimmed_def one_line_spaces)

lemma left_trimmed_prefix: "left_trimmed (s @ t) \<Longrightarrow> left_trimmed s"
  by (cases s; cases "tl s"; cases "tl (tl s)") (auto simp: left_trimmed_def split: list.splits)

lemma trim_rev_suffix: "suffix (trim_rev s) s"
proof (induction s rule: trim_rev.induct)
  case (2 c cs)
  show ?case
  proof (cases "ascii_space c")
    case False
    note outer = 2 False
    show ?thesis
    proof (cases cs)
      case (Cons d ds)
      then show ?thesis using outer by (cases ds) (simp_all add: suffix_ConsI)
    qed (use outer in simp)
  qed (use 2 in \<open>simp add: suffix_ConsI\<close>)
qed simp

lemma trim_space_left: "left_trimmed (trim_space s)"
proof -
  obtain t where "List.rev (trim_left s) = t @ trim_rev (List.rev (trim_left s))" using trim_rev_suffix by (auto simp: suffix_def)
  then have "trim_left s = trim_space s @ List.rev t" unfolding trim_space_def by (metis rev_append rev_rev_ident)
  then show ?thesis using trim_left_trimmed[of s] left_trimmed_prefix by metis
qed

lemma clean_message:
  "right_trimmed (List.rev (one_line (trim_space s)))" "left_trimmed (one_line (trim_space s))" "newline \<notin> set (one_line s)"
proof -
  show "right_trimmed (List.rev (one_line (trim_space s)))"
    by (rule one_line_trimmed) (simp add: trim_space_def trim_rev_trimmed)
  show "left_trimmed (one_line (trim_space s))" by (rule one_line_left[OF trim_space_left])
  show "newline \<notin> set (one_line s)" by (auto simp: one_line_def newline_def)
qed

lemma trim_clean:
  assumes "right_trimmed (List.rev m)" "left_trimmed m"
  shows "trim_space m = m"
  using assms by (simp add: trim_space_def trimmed_trim_left trimmed_trim_rev)

lemma trim_clean_end:
  assumes "right_trimmed (List.rev m)" "m \<noteq> []" "\<not> ascii_space c" "ord c < 128" "list_all (\<lambda>x. ascii_space x) ws" "ord d < 128"
  shows "trim_space ((c # s) @ d # m @ ws) = (c # s) @ d # m"
proof -
  have skip: "trim_rev (xs @ t) = trim_rev t" if "list_all (\<lambda>x. ascii_space x) xs" for xs t
    using that by (induction xs) auto
  have ws: "list_all (\<lambda>x. ascii_space x) (List.rev ws)" using assms(5) by (simp add: list_all_iff)
  have "trim_rev (List.rev m @ d # List.rev (c # s)) = List.rev m @ d # List.rev (c # s)"
    by (rule trim_rev_append) (use assms in auto)
  then have "trim_rev (List.rev ws @ List.rev m @ d # List.rev (c # s)) = List.rev m @ d # List.rev (c # s)" by (simp add: skip[OF ws])
  then show ?thesis using trim_left_stays[OF assms(3,4)] by (simp add: trim_space_def)
qed

lemma code_chars: "validRejectionCode code \<Longrightarrow> c \<in> set code \<Longrightarrow> 65 \<le> ord c \<and> ord c < 128"
proof -
  assume "validRejectionCode code" "c \<in> set code"
  then have "65 \<le> ord c \<and> ord c \<le> 90 \<or> c = CHR ''_''" by (simp add: validRejectionCode_def list_all_iff)
  then show ?thesis by (elim disjE) simp_all
qed

lemma code_ends:
  assumes "validRejectionCode code"
  shows "code \<noteq> []" "CHR '' '' \<notin> set code" "newline \<notin> set code" "right_trimmed (List.rev code)" "\<not> ascii_space (hd code)" "ord (hd code) < 128"
proof -
  show ne: "code \<noteq> []" using assms by (simp add: validRejectionCode_def)
  show "CHR '' '' \<notin> set code" "newline \<notin> set code" using code_chars[OF assms] by (fastforce simp: newline_def)+
  show "\<not> ascii_space (hd code)" "ord (hd code) < 128" using code_chars[OF assms hd_in_set[OF ne]] by (auto simp: ascii_space_def)
  have "\<forall>c \<in> set (List.rev code). 65 \<le> ord c \<and> ord c < 128" using code_chars[OF assms] by simp
  then show "right_trimmed (List.rev code)"
    by (auto simp: right_trimmed_def ascii_space_def space2_def space3_def split: list.splits)
qed

lemma parse_code:
  assumes code: "validRejectionCode code" and m: "right_trimmed (List.rev m)" "left_trimmed m" "m \<noteq> []"
  shows "parseRelayRejection (''ERR '' @ code @ CHR '' '' # m) = Rejection code m"
proof -
  note c = code_ends[OF code]
  obtain x xs where x: "code = x # xs" using c(1) by (cases code) auto
  have trim: "trim_space (code @ CHR '' '' # m) = code @ CHR '' '' # m"
    using trim_clean_end[OF m(1,3), of x "[]" "CHR '' ''" xs] c(5,6) x by simp
  have "\<forall>y \<in> set code. y \<noteq> CHR '' ''" using c(2) by auto
  then have "split_two (code @ CHR '' '' # m) = (code, Some m)"
    by (simp add: split_two_def takeWhile_append2 dropWhile_append2)
  then show ?thesis using code trim_clean[OF m(1,2)] trim
    by (simp add: parseRelayRejection_def has_prefix_def)
qed

text \<open>A refusal arrives as it was sent: the client reads back the code and the message the relay wrote, the message trimmed and on
  one line. Only a refusal without a message loses its code, which the client then takes for the message.\<close>

theorem refusal_round_trip:
  assumes code: "validRejectionCode code"
  shows "dial_loop json v2 (writeRelayRejection code message @ rest) = Some (Refused_by
    (let m = one_line (trim_space message) in if m = [] then Rejection (guess_code code) code else Rejection code m))"
proof -
  define m where "m = one_line (trim_space message)"
  have m: "right_trimmed (List.rev m)" "left_trimmed m" "newline \<notin> set m" using clean_message by (simp_all add: m_def)
  note c = code_ends[OF code]
  let ?line = "''ERR '' @ code @ CHR '' '' # m"
  have "newline \<notin> set ?line" using c(3) m(3) by (simp add: newline_def)
  then have line: "read_line (?line @ newline # rest) = Some (?line @ [newline], rest)" by (rule read_line_append)
  have "trim_space (?line @ [newline]) = (if m = [] then ''ERR '' @ code else ?line)"
  proof (cases "m = []")
    case True
    have "trim_space ((CHR ''E'' # ''RR'') @ CHR '' '' # code @ [CHR '' '', newline]) = (CHR ''E'' # ''RR'') @ CHR '' '' # code"
      by (rule trim_clean_end[OF c(4,1)]) (simp_all add: ascii_space_def newline_def)
    then show ?thesis using True by simp
  next
    case False
    have "trim_space ((CHR ''E'' # ''RR '' @ code) @ CHR '' '' # m @ [newline]) = (CHR ''E'' # ''RR '' @ code) @ CHR '' '' # m"
      by (rule trim_clean_end[OF m(1) False]) (simp_all add: ascii_space_def newline_def)
    then show ?thesis using False by simp
  qed
  moreover have "parseRelayRejection (''ERR '' @ code) = Rejection (guess_code code) code"
  proof -
    obtain x xs where x: "code = x # xs" using c(1) by (cases code) auto
    have "trim_left code = code" using c(5,6) x trim_left_stays by simp
    then have "trim_space code = code" using c(4) by (simp add: trim_space_def trimmed_trim_rev)
    moreover have "dropWhile (\<lambda>y. y \<noteq> CHR '' '') code = []" using c(2) by (auto simp: dropWhile_eq_Nil_conv)
    moreover from this have "split_two code = (code, None)" unfolding split_two_def by (simp only: list.case)
    ultimately show ?thesis by (simp add: parseRelayRejection_def has_prefix_def)
  qed
  ultimately have "dial_loop json v2 (?line @ newline # rest) = Some (Refused_by (if m = [] then Rejection (guess_code code) code else Rejection code m))"
    using line parse_code[OF code m(1,2)] by (cases "m = []"; subst dial_loop.simps) (simp_all add: Let_def has_prefix_def)
  then show ?thesis by (simp add: writeRelayRejection_def m_def[symmetric] Let_def)
qed


lemma refusal_round_trip_witness:
  "\<forall>json. dial_loop json True (writeRelayRejection ''BUSY'' ''in use '') = Some (Refused_by (Rejection ''BUSY'' ''in use''))"
proof -
  have "validRejectionCode ''BUSY''" "one_line (trim_space ''in use '') = ''in use''" by code_simp+
  then show ?thesis using refusal_round_trip[of "''BUSY''" _ True "''in use ''" "[]"] by (simp add: Let_def)
qed

end
