(* ===== verification/NetText.thy ===== *)
theory NetText
  imports GoStrings
begin

text \<open>
  Addresses and words as text, as the Go packages \<open>net\<close> and \<open>strings\<close> read them: \<open>net.ParseIP\<close>, \<open>strings.Fields\<close>,
  splitting at CR LF. They serve the signalling of \<open>internal/peerpath\<close> and the mappings of \<open>internal/natmap\<close>.
\<close>

section \<open>Addresses\<close>

text \<open>One field of a dotted quad: digits without a leading zero, at most 255.\<close>

definition octet_text :: "string \<Rightarrow> byte option" where
  "octet_text p =
     (if p \<noteq> [] \<and> list_all is_digit p \<and> (length p = 1 \<or> hd p \<noteq> CHR ''0'') then
        (case digits_value 0 p of Some v \<Rightarrow> if v \<le> 255 then Some (word_of_nat v) else None | None \<Rightarrow> None)
      else None)"

definition parse_v4 :: "string \<Rightarrow> bytes option" where
  "parse_v4 s =
     (case split_on (CHR ''.'') s of
        [a, b, c, d] \<Rightarrow>
          (case (octet_text a, octet_text b, octet_text c, octet_text d) of
             (Some w, Some x, Some y, Some z) \<Rightarrow> Some [w, x, y, z] | _ \<Rightarrow> None)
      | _ \<Rightarrow> None)"

definition hex_char :: "char \<Rightarrow> bool" where
  "hex_char c \<longleftrightarrow> hex_value c \<noteq> None"

definition group_bytes :: "string \<Rightarrow> bytes" where
  "group_bytes h =
     (let v = foldl (\<lambda>n c. 16 * n + (case hex_value c of Some k \<Rightarrow> k | None \<Rightarrow> 0)) 0 h
      in [word_of_nat (v div 256), word_of_nat (v mod 256)])"

text \<open>The groups of an IPv6 address. The first argument is how many may still come, the last where \<open>::\<close> stood.\<close>

fun v6_groups :: "nat \<Rightarrow> string \<Rightarrow> bytes \<Rightarrow> nat option \<Rightarrow> (string \<times> bytes \<times> nat option) option" where
  "v6_groups 0 s ip gap = Some (s, ip, gap)"
| "v6_groups (Suc k) s ip gap =
     (let h = takeWhile hex_char s; ip' = ip @ group_bytes h in
      if h = [] \<or> length h > 4 then None
      else case drop (length h) s of
        [] \<Rightarrow> Some ([], ip', gap)
      | c # cs \<Rightarrow>
          if c = CHR ''.'' then
            (if gap = None \<and> length ip \<noteq> 12 \<or> length ip > 12 then None
             else map_option (\<lambda>v. ([], ip @ v, gap)) (parse_v4 s))
          else if c \<noteq> CHR '':'' \<or> cs = [] then None
          else if hd cs = CHR '':'' then
            (if gap \<noteq> None then None
             else if tl cs = [] then Some ([], ip', Some (length ip'))
             else v6_groups k (tl cs) ip' (Some (length ip')))
          else v6_groups k cs ip' gap)"

definition parse_v6 :: "string \<Rightarrow> bytes option" where
  "parse_v6 s =
     (let led = has_prefix s ''::''; s = (if led then drop 2 s else s) in
      if led \<and> s = [] then Some (replicate 16 0)
      else case v6_groups 8 s [] (if led then Some 0 else None) of None \<Rightarrow> None
      | Some (rest, ip, gap) \<Rightarrow>
          if rest \<noteq> [] then None
          else if length ip < 16 then map_option (\<lambda>g. take g ip @ replicate (16 - length ip) 0 @ drop g ip) gap
          else if gap \<noteq> None then None else Some ip)"

text \<open>\<open>net.ParseIP\<close>: sixteen bytes; an address with a zone is none.\<close>

definition ParseIP :: "string \<Rightarrow> bytes option" where
  "ParseIP s =
     (if CHR ''%'' \<in> set s then None
      else case find (\<lambda>c. c = CHR ''.'' \<or> c = CHR '':'') s of None \<Rightarrow> None
      | Some c \<Rightarrow> if c = CHR ''.'' then map_option (\<lambda>v. replicate 10 0 @ [255, 255] @ v) (parse_v4 s) else parse_v6 s)"

lemma parse_v4_length: "parse_v4 s = Some v \<Longrightarrow> length v = 4"
  by (auto simp: parse_v4_def split: list.splits option.splits)

lemma v6_groups_length: "v6_groups k s ip gap = Some (rest, ip', gap') \<Longrightarrow> length ip + 2 * k \<le> 16 \<Longrightarrow> length ip' \<le> 16"
proof (induction k s ip gap rule: v6_groups.induct)
  case (2 k s ip gap)
  then show ?case
    by (auto simp: Let_def group_bytes_def dest!: parse_v4_length split: list.splits if_splits)
qed simp

lemma ParseIP_length: "ParseIP s = Some ip \<Longrightarrow> length ip = 16"
proof -
  have "length ip = 16" if "parse_v6 s = Some ip"
    using that by (auto simp: parse_v6_def Let_def dest: v6_groups_length split: option.splits if_splits prod.splits)
  then show "ParseIP s = Some ip \<Longrightarrow> length ip = 16"
    by (auto simp: ParseIP_def dest: parse_v4_length split: option.splits if_splits)
qed

section \<open>Words and lines\<close>

definition ended :: "string \<Rightarrow> string list" where
  "ended w = (if w = [] then [] else [rev w])"

text \<open>\<open>strings.Fields\<close>; the first argument is the word read so far, reversed.\<close>

fun fields_from :: "string \<Rightarrow> string \<Rightarrow> string list" where
  "fields_from w [] = ended w"
| "fields_from w (c # cs) =
     (if ascii_space c then ended w @ fields_from [] cs
      else case cs of
        d # ds \<Rightarrow>
          (if space2 c d then ended w @ fields_from [] ds
           else case ds of
             e # es \<Rightarrow> (if space3 c d e then ended w @ fields_from [] es else fields_from (c # w) cs)
           | [] \<Rightarrow> fields_from (c # w) cs)
      | [] \<Rightarrow> fields_from (c # w) cs)"

definition Fields :: "string \<Rightarrow> string list" where
  "Fields s = fields_from [] s"

text \<open>\<open>strings.Split(s, "\r\n")\<close> and \<open>strings.Join\<close> with the same separator.\<close>

definition cr :: char where "cr = CHR 0x0D"
definition lf :: char where "lf = CHR 0x0A"

fun split_crlf :: "string \<Rightarrow> string list" where
  "split_crlf [] = [[]]"
| "split_crlf [c] = [[c]]"
| "split_crlf (c # d # cs) =
     (if c = cr \<and> d = lf then [] # split_crlf cs
      else case split_crlf (d # cs) of [] \<Rightarrow> [[c]] | p # ps \<Rightarrow> (c # p) # ps)"

fun join_crlf :: "string list \<Rightarrow> string" where
  "join_crlf [] = []"
| "join_crlf [p] = p"
| "join_crlf (p # ps) = p @ cr # lf # join_crlf ps"

lemma split_crlf_nonempty [simp]: "split_crlf s \<noteq> []"
  by (induction s rule: split_crlf.induct) (auto split: list.splits)

lemma join_split_crlf: "join_crlf (split_crlf s) = s"
proof (induction s rule: split_crlf.induct)
  case (3 c d cs)
  show ?case
  proof (cases "c = cr \<and> d = lf")
    case True
    then show ?thesis using 3(1) by (cases "split_crlf cs") auto
  next
    case False
    then obtain p ps where "split_crlf (d # cs) = p # ps" by (meson list.exhaust split_crlf_nonempty)
    then show ?thesis using False 3(2) by (cases ps) auto
  qed
qed simp_all

text \<open>\<open>strings.Trim(s, "[]")\<close>.\<close>

definition trim_brackets :: "string \<Rightarrow> string" where
  "trim_brackets s = (let b = (\<lambda>c. c = CHR ''['' \<or> c = CHR '']'') in rev (dropWhile b (rev (dropWhile b s))))"

end
