(* ===== verification/PeerPath.thy ===== *)
theory PeerPath
  imports NetText ConferenceTurn Wire
begin

text \<open>
  The direct path between two peers (\<open>internal/peerpath/options.go\<close>, \<open>rtc.go\<close>, \<open>negotiate.go\<close>): which candidates and descriptions
  are accepted, and the six messages by which viewer and agent agree on one path over the encrypted relay connection.

  What comes from the pion libraries is a parameter, collected in \<open>path_env\<close>: the parsers of session descriptions,
  candidates and URIs, whether a peer connection could be made and took the other's description, what it gathered,
  which event ended the wait for the channel, and the selected pair of candidates. JSON is \<open>signal_json\<close>. A connection
  is the messages it will still deliver; each stage says whether its read and its write succeed.
\<close>

section \<open>Options\<close>

record turn_server =
  ts_urls :: "string list"
  ts_user :: string
  ts_credential :: "string option"

record path_options =
  po_stun :: "string list option"
  po_ice :: "turn_server list"
  po_mapping :: bool
  po_v2 :: bool
  po_timeout :: nanos

definition defaultTimeout :: nanos where "defaultTimeout = 4500000000"
definition maxSDP :: nat where "maxSDP = 32 * 1024"
definition maxCandidates :: nat where "maxCandidates = 32"

definition DefaultOptions :: path_options where
  "DefaultOptions = \<lparr>po_stun = Some [''stun:www.yucg.cn:8233'', ''stun:www.yucg.cn:8254''], po_ice = [], po_mapping = True,
     po_v2 = False, po_timeout = defaultTimeout\<rparr>"

text \<open>One server of the policy: STUN addresses that are new, and the others as one TURN server. Go's \<open>append\<close> to a nil slice
  keeps it nil while nothing is added.\<close>

definition add_stun :: "string list option \<Rightarrow> string \<Rightarrow> string list option" where
  "add_stun urls raw =
     (case urls of None \<Rightarrow> Some [raw] | Some us \<Rightarrow> if raw \<in> set us then Some us else Some (us @ [raw]))"

definition add_server :: "bool \<Rightarrow> ice_server \<Rightarrow> path_options \<Rightarrow> path_options" where
  "add_server relay s opt =
     (let is_stun = (\<lambda>raw. has_prefix raw ''stun:'');
          turns = filter (\<lambda>raw. \<not> is_stun raw) (ice_urls s);
          opt = opt\<lparr>po_stun := foldl add_stun (po_stun opt) (filter is_stun (ice_urls s))\<rparr>
      in if turns \<noteq> [] \<and> relay
         then opt\<lparr>po_ice := po_ice opt @ [\<lparr>ts_urls = turns, ts_user = ice_user s, ts_credential = Some (ice_credential s)\<rparr>]\<rparr>
         else opt)"

definition copy_urls :: "string list option \<Rightarrow> string list option" where
  "copy_urls urls = (case urls of Some (u # us) \<Rightarrow> Some (u # us) | _ \<Rightarrow> None)"

definition WithRTCPolicy :: "rtc_policy option \<Rightarrow> path_options \<Rightarrow> path_options" where
  "WithRTCPolicy p opt =
     (case p of None \<Rightarrow> opt
      | Some p \<Rightarrow>
          let opt = opt\<lparr>po_stun := copy_urls (po_stun opt), po_v2 := True\<rparr>;
              opt = (if 500 \<le> direct_timeout p \<and> direct_timeout p \<le> 10000
                    then opt\<lparr>po_timeout := direct_timeout p * 1000000\<rparr> else opt)
          in foldl (\<lambda>opt s. add_server (relay_enabled p) s opt) opt (ice_servers p))"

definition normalized :: "path_options \<Rightarrow> path_options" where
  "normalized opt =
     opt\<lparr>po_stun := (case po_stun opt of None \<Rightarrow> po_stun DefaultOptions | Some us \<Rightarrow> Some us),
        po_timeout := min (if po_timeout opt \<le> 0 then defaultTimeout else po_timeout opt) 10000000000\<rparr>"

definition stun_urls :: "path_options \<Rightarrow> string list" where
  "stun_urls opt = (case po_stun opt of None \<Rightarrow> [] | Some us \<Rightarrow> us)"

text \<open>The time for gathering.\<close>

definition gather_budget :: "path_options \<Rightarrow> nanos" where
  "gather_budget opt =
     (let t = po_timeout opt; b = min t (min 1200000000 (max 250000000 (t div 4)))
      in if length (stun_urls opt) > 1 \<or> po_ice opt \<noteq> [] then min t (max b 700000000) else b)"

section \<open>The peer connection\<close>

datatype cand_type = Host | Server_reflexive | Peer_reflexive | Relayed

record candidate =
  cd_type :: cand_type
  cd_udp :: bool
  cd_address :: string
  cd_component :: nat
  cd_port :: int
  cd_related :: "(string \<times> int) option"

record sdp_text =
  sd_attrs :: "(string \<times> string) list"
  sd_media :: "(string \<times> (string \<times> string) list) list"

record pair_end =
  pe_type :: cand_type
  pe_udp :: bool
  pe_address :: string

text \<open>What gathering ended with: an error of the library, the end of the attempt's time, or a local description.\<close>

datatype gathered = No_description | Gather_timeout | Gathered "string option"

datatype waited = Opened | Ice_failed | Wait_timeout

datatype fate = Delivered | Lost | Delivered_with_error

record path_env =
  pv_uri :: "string \<Rightarrow> (string \<times> string) option"
  pv_sdp :: "string \<Rightarrow> sdp_text option"
  pv_cand :: "string \<Rightarrow> candidate option"
  pv_late :: bool
  pv_mapping :: "(bytes \<times> nat \<times> nat \<times> bool) option"
  pv_connection :: bool
  pv_remote :: "string \<Rightarrow> bool"
  pv_gathered :: gathered
  pv_waited :: waited
  pv_failed_then :: bool
  pv_pair :: "(pair_end \<times> pair_end) option"
  pv_failed_last :: bool
  pv_read :: "string \<Rightarrow> bool"
  pv_write :: "string \<Rightarrow> fate"
  pv_clear :: bool
  pv_done :: bool

definition usableMappedAddress :: "bytes \<Rightarrow> bool" where
  "usableMappedAddress ip \<longleftrightarrow> to4 ip \<noteq> None \<and> \<not> is_unspecified ip \<and> \<not> is_loopback ip \<and> \<not> is_multicast ip"

text \<open>The two loops at the start of \<open>newAttempt\<close>.\<close>

definition servers_allowed :: "path_env \<Rightarrow> path_options \<Rightarrow> bool" where
  "servers_allowed v opt \<longleftrightarrow>
     length (stun_urls opt) \<le> 8 \<and> length (po_ice opt) \<le> 4
     \<and> list_all (\<lambda>u. length u \<le> 256 \<and> pv_uri v u = Some (''stun'', ''udp'')) (stun_urls opt)
     \<and> list_all (\<lambda>s. ts_urls s \<noteq> [] \<and> length (ts_urls s) \<le> 4 \<and> ts_user s \<noteq> [] \<and> ts_credential s \<noteq> None
         \<and> list_all (\<lambda>u. length u \<le> 512 \<and> pv_uri v u = Some (''turn'', ''udp'')) (ts_urls s)) (po_ice opt)"

text \<open>The result is whether a router's mapping is in use; \<open>None\<close> is an error.\<close>

definition newAttempt :: "path_env \<Rightarrow> path_options \<Rightarrow> bool option" where
  "newAttempt v opt =
     (if \<not> servers_allowed v opt \<or> \<not> pv_connection v then None
      else Some (po_mapping opt \<and>
        (case pv_mapping v of None \<Rightarrow> False
         | Some (ip, external, local, rewritten) \<Rightarrow> external = local \<and> usableMappedAddress ip \<and> rewritten)))"

section \<open>Descriptions\<close>

definition candidate_allowed :: "bool \<Rightarrow> candidate \<Rightarrow> bool" where
  "candidate_allowed relay c \<longleftrightarrow>
     cd_udp c \<and> (cd_type c = Host \<or> cd_type c = Server_reflexive \<or> relay \<and> cd_type c = Relayed)
     \<and> ParseIP (cd_address c) \<noteq> None \<and> cd_component c = 1"

definition fingerprint_allowed :: "string \<Rightarrow> bool" where
  "fingerprint_allowed value =
     (case Fields value of
        [h, f] \<Rightarrow> h = ''sha-256'' \<and> (case hex_decode (filter (\<lambda>c. c \<noteq> CHR '':'') f) of Some b \<Rightarrow> length b = 32 | None \<Rightarrow> False)
      | _ \<Rightarrow> False)"

text \<open>The loop over the attributes, with the numbers of candidates and fingerprints so far.\<close>

fun attributes_allowed :: "(string \<Rightarrow> candidate option) \<Rightarrow> bool \<Rightarrow> (string \<times> string) list \<Rightarrow> nat \<Rightarrow> nat \<Rightarrow> bool" where
  "attributes_allowed parse relay [] n f = (n \<noteq> 0 \<and> f \<noteq> 0)"
| "attributes_allowed parse relay ((key, value) # rest) n f =
     (if key = ''candidate'' then
        (if Suc n > maxCandidates \<or> length value > 1024 then False
         else case parse value of None \<Rightarrow> False
         | Some c \<Rightarrow> candidate_allowed relay c \<and> attributes_allowed parse relay rest (Suc n) f)
      else if key = ''fingerprint'' then fingerprint_allowed value \<and> attributes_allowed parse relay rest n (Suc f)
      else attributes_allowed parse relay rest n f)"

definition validateSDP :: "path_env \<Rightarrow> string \<Rightarrow> bool \<Rightarrow> bool" where
  "validateSDP v raw relay =
     (if length raw = 0 \<or> length raw > maxSDP then False
      else case pv_sdp v raw of None \<Rightarrow> False
      | Some d \<Rightarrow>
          (case sd_media d of
             [(media, attrs)] \<Rightarrow> media = ''application'' \<and> attributes_allowed (pv_cand v) relay (sd_attrs d @ attrs) 0 0
           | _ \<Rightarrow> False))"

text \<open>The lines of a local description that are sent: of the candidates only those of component 1, and no more than 32. The
  number counts the ones beyond, too.\<close>

fun kept_lines :: "nat \<Rightarrow> string list \<Rightarrow> string list \<times> nat" where
  "kept_lines n [] = ([], n)"
| "kept_lines n (l # ls) =
     (if has_prefix l ''a=candidate:'' then
        (let fs = Fields l in
         if length fs > 1 \<and> fs ! 1 \<noteq> ''1'' then kept_lines n ls
         else if Suc n > maxCandidates then kept_lines (Suc n) ls
         else (case kept_lines (Suc n) ls of (k, m) \<Rightarrow> (l # k, m)))
      else (case kept_lines n ls of (k, m) \<Rightarrow> (l # k, m)))"

text \<open>\<open>description\<close>: the text and, without one, the reason.\<close>

definition description :: "path_env \<Rightarrow> bool \<Rightarrow> string \<times> string" where
  "description v relay =
     (case pv_gathered v of
        No_description \<Rightarrow> ([], ''rtc_unavailable'')
      | Gather_timeout \<Rightarrow> ([], ''ice_timeout'')
      | Gathered None \<Rightarrow> ([], ''rtc_unavailable'')
      | Gathered (Some raw) \<Rightarrow>
          (case kept_lines 0 (split_crlf raw) of (kept, n) \<Rightarrow>
             if n = 0 then ([], ''udp_unavailable'')
             else if \<not> validateSDP v (join_crlf kept) relay then ([], ''rtc_unavailable'')
             else (join_crlf kept, [])))"

text \<open>The signature of a NAT whose mapping depends on the destination: one local end with two public ports.\<close>

fun two_ports :: "path_env \<Rightarrow> string list \<Rightarrow> ((string \<times> int) \<times> int) list \<Rightarrow> bool" where
  "two_ports v [] seen = False"
| "two_ports v (l # ls) seen =
     (if \<not> has_prefix l ''a=candidate:'' then two_ports v ls seen
      else case pv_cand v (drop 12 l) of None \<Rightarrow> two_ports v ls seen
      | Some c \<Rightarrow>
          (case cd_related c of
             Some key \<Rightarrow>
               if cd_type c \<noteq> Server_reflexive then two_ports v ls seen
               else if \<exists>(k, port) \<in> set seen. k = key \<and> port \<noteq> cd_port c then True
               else two_ports v ls ((key, cd_port c) # seen)
           | None \<Rightarrow> two_ports v ls seen))"

definition endpointDependentMapping :: "path_env \<Rightarrow> string \<Rightarrow> bool" where
  "endpointDependentMapping v raw = two_ports v (split_crlf raw) []"

section \<open>Waiting for the channel\<close>

record path_info =
  pi_mode :: string
  pi_reason :: string

definition usableCandidate :: "cand_type \<Rightarrow> bool \<Rightarrow> bool" where
  "usableCandidate t relay \<longleftrightarrow> t = Host \<or> t = Server_reflexive \<or> t = Peer_reflexive \<or> relay \<and> t = Relayed"

definition isIPv6Candidate :: "string \<Rightarrow> bool" where
  "isIPv6Candidate address = (case ParseIP (trim_brackets address) of None \<Rightarrow> False | Some ip \<Rightarrow> to4 ip = None)"

text \<open>\<open>ready\<close>: whether there is a stream, and what kind.\<close>

definition channel_ready :: "path_env \<Rightarrow> bool \<Rightarrow> bool \<times> path_info" where
  "channel_ready v relay =
     (let none = (\<lambda>r. (False, \<lparr>pi_mode = [], pi_reason = r\<rparr>)) in
      case pv_waited v of
        Ice_failed \<Rightarrow> none ''ice_failed''
      | Wait_timeout \<Rightarrow> none ''ice_timeout''
      | Opened \<Rightarrow>
          if pv_failed_then v then none ''ice_failed''
          else case pv_pair v of None \<Rightarrow> none ''ice_failed''
          | Some (l, r) \<Rightarrow>
              if \<not> pe_udp l \<or> \<not> pe_udp r \<or> \<not> usableCandidate (pe_type l) relay \<or> \<not> usableCandidate (pe_type r) relay
              then none ''ice_failed''
              else (True,
                if pe_type l = Relayed \<or> pe_type r = Relayed then \<lparr>pi_mode = ''udp-relay'', pi_reason = ''turn_udp''\<rparr>
                else if isIPv6Candidate (pe_address l) \<and> isIPv6Candidate (pe_address r)
                then \<lparr>pi_mode = ''p2p'', pi_reason = ''ipv6_direct''\<rparr>
                else \<lparr>pi_mode = ''p2p'', pi_reason = ''udp_direct''\<rparr>))"

section \<open>Signalling\<close>

record path_signal =
  sg_sdp :: string
  sg_ready :: bool
  sg_info :: path_info

record signal_json =
  sj_marshal :: "path_signal \<Rightarrow> bytes"
  sj_unmarshal :: "bytes \<Rightarrow> path_signal option"

type_synonym peer_message = "(string \<times> bytes) list message"

datatype path_error =
    Bad_role | Write_failed | Read_failed | Unexpected_signal | Bad_signal | Oversized_reason | Bad_description
  | Remote_refused | Answer_without_offer | Bad_ready | Inconsistent_commit | Clear_failed | Direct_lost | Session_over

record path_io =
  io_in :: "peer_message list"
  io_out :: "peer_message list"

definition signal_message :: "signal_json \<Rightarrow> string \<Rightarrow> path_signal \<Rightarrow> peer_message" where
  "signal_message J stage s =
     \<lparr>hdr = \<lparr>kind = ''peerpath'', msg_id = [], method = stage, params = sj_marshal J s, ok = False, error = [], meta = []\<rparr>, data = []\<rparr>"

definition send_signal :: "path_env \<Rightarrow> signal_json \<Rightarrow> string \<Rightarrow> path_signal \<Rightarrow> path_io \<Rightarrow> (path_error + unit) \<times> path_io" where
  "send_signal v J stage s io =
     (case pv_write v stage of
        Lost \<Rightarrow> (Inl Write_failed, io)
      | Delivered_with_error \<Rightarrow> (Inl Write_failed, io\<lparr>io_out := io_out io @ [signal_message J stage s]\<rparr>)
      | Delivered \<Rightarrow> (Inr (), io\<lparr>io_out := io_out io @ [signal_message J stage s]\<rparr>))"

definition read_signal :: "signal_json \<Rightarrow> string \<Rightarrow> peer_message \<Rightarrow> path_error + path_signal" where
  "read_signal J stage m =
     (let h = hdr m in
      if kind h \<noteq> ''peerpath'' \<or> method h \<noteq> stage \<or> msg_id h \<noteq> [] \<or> ok h \<or> error h \<noteq> [] \<or> data m \<noteq> [] \<or> meta h \<noteq> []
         \<or> length (params h) > 2 * maxSDP
      then Inl Unexpected_signal
      else case sj_unmarshal J (params h) of None \<Rightarrow> Inl Bad_signal
      | Some s \<Rightarrow> if length (pi_reason (sg_info s)) > 64 then Inl Oversized_reason else Inr s)"

definition receive_signal :: "path_env \<Rightarrow> signal_json \<Rightarrow> string \<Rightarrow> path_io \<Rightarrow> (path_error + path_signal) \<times> path_io" where
  "receive_signal v J stage io =
     (if \<not> pv_read v stage then (Inl Read_failed, io)
      else case io_in io of [] \<Rightarrow> (Inl Read_failed, io)
      | m # ms \<Rightarrow> (read_signal J stage m, io\<lparr>io_in := ms\<rparr>))"

definition exchange :: "path_env \<Rightarrow> signal_json \<Rightarrow> string \<Rightarrow> string \<Rightarrow> path_signal \<Rightarrow> path_io \<Rightarrow> (path_error + path_signal) \<times> path_io" where
  "exchange v J role stage own io =
     (if role = ''viewer'' then
        (case send_signal v J stage own io of (Inl e, io) \<Rightarrow> (Inl e, io) | (Inr _, io) \<Rightarrow> receive_signal v J stage io)
      else
        (case receive_signal v J stage io of (Inl e, io) \<Rightarrow> (Inl e, io)
         | (Inr other, io) \<Rightarrow>
             (case send_signal v J stage own io of (Inl e, io) \<Rightarrow> (Inl e, io) | (Inr _, io) \<Rightarrow> (Inr other, io))))"

definition validReason :: "string \<Rightarrow> bool" where
  "validReason s \<longleftrightarrow> s \<in> {''rtc_unavailable'', ''udp_unavailable'', ''peer_unavailable'', ''ice_timeout'', ''ice_failed'', ''endpoint_dependent_nat''}"

definition validDescription :: "path_env \<Rightarrow> path_signal \<Rightarrow> bool \<Rightarrow> bool" where
  "validDescription v s relay =
     (if sg_ready s \<or> pi_mode (sg_info s) \<noteq> [] then False
      else if sg_sdp s = [] then validReason (pi_reason (sg_info s))
      else if pi_reason (sg_info s) \<noteq> [] then False
      else validateSDP v (sg_sdp s) relay)"

definition validReady :: "path_signal \<Rightarrow> bool \<Rightarrow> bool" where
  "validReady s v2 =
     (let mode = pi_mode (sg_info s); reason = pi_reason (sg_info s) in
      if \<not> v2 then mode = [] \<and> (if sg_ready s then reason = [] else validReason reason)
      else if sg_ready s then mode = ''p2p'' \<and> (reason = ''udp_direct'' \<or> reason = ''ipv6_direct'') \<or> mode = ''udp-relay'' \<and> reason = ''turn_udp''
      else mode = [] \<and> validReason reason)"

section \<open>The negotiation\<close>

definition no_info :: path_info where "no_info = \<lparr>pi_mode = [], pi_reason = []\<rparr>"

text \<open>The attempt, if one could be made, and the reason if not.\<close>

definition start_attempt :: "path_env \<Rightarrow> path_options \<Rightarrow> bool option \<times> string" where
  "start_attempt v opt =
     (if pv_late v then (None, ''ice_timeout'')
      else case newAttempt v opt of None \<Rightarrow> (None, ''rtc_unavailable'') | Some mapped \<Rightarrow> (Some mapped, []))"

text \<open>The own description; for an agent without one to answer there is none.\<close>

definition own_description :: "path_env \<Rightarrow> path_options \<Rightarrow> bool \<Rightarrow> path_signal" where
  "own_description v opt mapped =
     (case description v (po_ice opt \<noteq> []) of (sdp, reason) \<Rightarrow>
        if sdp \<noteq> [] \<and> po_ice opt = [] \<and> \<not> mapped \<and> endpointDependentMapping v sdp
        then \<lparr>sg_sdp = [], sg_ready = False, sg_info = \<lparr>pi_mode = [], pi_reason = ''endpoint_dependent_nat''\<rparr>\<rparr>
        else \<lparr>sg_sdp = sdp, sg_ready = False, sg_info = \<lparr>pi_mode = [], pi_reason = reason\<rparr>\<rparr>)"

definition unavailable :: "string \<Rightarrow> path_signal" where
  "unavailable reason = \<lparr>sg_sdp = [], sg_ready = False, sg_info = \<lparr>pi_mode = [], pi_reason = reason\<rparr>\<rparr>"

text \<open>Offer and answer, seen by the viewer and by the agent: the local and the remote signal.\<close>

definition viewer_describes ::
  "path_env \<Rightarrow> signal_json \<Rightarrow> path_options \<Rightarrow> path_io \<Rightarrow> (path_error + path_signal \<times> path_signal) \<times> path_io"
where
  "viewer_describes v J opt io =
     (case start_attempt v opt of (a, reason) \<Rightarrow>
      let own = (case a of None \<Rightarrow> unavailable reason | Some mapped \<Rightarrow> own_description v opt mapped) in
      case send_signal v J ''offer'' own io of (Inl e, io) \<Rightarrow> (Inl e, io)
      | (Inr _, io) \<Rightarrow>
        (case receive_signal v J ''answer'' io of (Inl e, io) \<Rightarrow> (Inl e, io)
         | (Inr remote, io) \<Rightarrow>
             if \<not> validDescription v remote (po_ice opt \<noteq> []) then (Inl Bad_description, io)
             else if sg_sdp remote = [] then (Inr (own, remote), io)
             else if a = None \<or> sg_sdp own = [] then (Inl Answer_without_offer, io)
             else if \<not> pv_remote v (sg_sdp remote) then (Inl Remote_refused, io)
             else (Inr (own, remote), io)))"

definition agent_describes ::
  "path_env \<Rightarrow> signal_json \<Rightarrow> path_options \<Rightarrow> path_io \<Rightarrow> (path_error + path_signal \<times> path_signal) \<times> path_io"
where
  "agent_describes v J opt io =
     (case start_attempt v opt of (a, reason) \<Rightarrow>
      case receive_signal v J ''offer'' io of (Inl e, io) \<Rightarrow> (Inl e, io)
      | (Inr remote, io) \<Rightarrow>
          if \<not> validDescription v remote (po_ice opt \<noteq> []) then (Inl Bad_description, io)
          else if sg_sdp remote \<noteq> [] \<and> a \<noteq> None \<and> \<not> pv_remote v (sg_sdp remote) then (Inl Remote_refused, io)
          else
            let own = (if sg_sdp remote = [] then unavailable ''peer_unavailable''
                       else case a of None \<Rightarrow> unavailable reason | Some mapped \<Rightarrow> own_description v opt mapped)
            in (case send_signal v J ''answer'' own io of (Inl e, io) \<Rightarrow> (Inl e, io) | (Inr _, io) \<Rightarrow> (Inr (own, remote), io)))"

text \<open>What this end says of its channel.\<close>

definition own_ready :: "path_env \<Rightarrow> path_options \<Rightarrow> path_signal \<Rightarrow> path_signal \<Rightarrow> path_signal" where
  "own_ready v opt own remote =
     (let reason = pi_reason (sg_info own) in
      if reason \<noteq> [] then unavailable reason
      else if sg_sdp remote = [] then unavailable ''peer_unavailable''
      else case channel_ready v (po_ice opt \<noteq> []) of
        (False, i) \<Rightarrow> unavailable (pi_reason i)
      | (True, i) \<Rightarrow> \<lparr>sg_sdp = [], sg_ready = True, sg_info = (if po_v2 opt then i else no_info)\<rparr>)"

text \<open>The decision, a function of what both ends said.\<close>

definition decide_path :: "path_signal \<Rightarrow> path_signal \<Rightarrow> path_info" where
  "decide_path vw ag =
     (if \<not> sg_ready vw \<or> \<not> sg_ready ag then
        (let r = pi_reason (sg_info vw);
             r = (if r = [] \<or> r = ''peer_unavailable'' then pi_reason (sg_info ag) else r);
             r = (if r = [] then ''peer_unavailable'' else r)
         in \<lparr>pi_mode = ''relay'', pi_reason = r\<rparr>)
      else if pi_mode (sg_info vw) = ''udp-relay'' \<or> pi_mode (sg_info ag) = ''udp-relay''
      then \<lparr>pi_mode = ''udp-relay'', pi_reason = ''turn_udp''\<rparr>
      else if pi_reason (sg_info vw) = ''ipv6_direct'' \<and> pi_reason (sg_info ag) = ''ipv6_direct''
      then \<lparr>pi_mode = ''p2p'', pi_reason = ''ipv6_direct''\<rparr>
      else \<lparr>pi_mode = ''p2p'', pi_reason = ''udp_direct''\<rparr>)"

text \<open>From the ready signals to the decision, and from there to the commitment of both.\<close>

definition agree ::
  "path_env \<Rightarrow> signal_json \<Rightarrow> path_options \<Rightarrow> string \<Rightarrow> path_signal \<Rightarrow> path_io \<Rightarrow> (path_error + path_info) \<times> path_io"
where
  "agree v J opt role mine io =
     (case exchange v J role ''ready'' mine io of (Inl e, io) \<Rightarrow> (Inl e, io)
      | (Inr other, io) \<Rightarrow>
          if sg_sdp other \<noteq> [] \<or> \<not> validReady other (po_v2 opt) then (Inl Bad_ready, io)
          else (Inr (if role = ''agent'' then decide_path other mine else decide_path mine other), io))"

definition commit_path ::
  "path_env \<Rightarrow> signal_json \<Rightarrow> string \<Rightarrow> path_info \<Rightarrow> path_io \<Rightarrow> (path_error + path_info) \<times> path_io"
where
  "commit_path v J role info io =
     (case exchange v J role ''commit'' \<lparr>sg_sdp = [], sg_ready = False, sg_info = info\<rparr> io of (Inl e, io) \<Rightarrow> (Inl e, io)
      | (Inr c, io) \<Rightarrow>
          if sg_info c \<noteq> info \<or> sg_ready c \<or> sg_sdp c \<noteq> [] then (Inl Inconsistent_commit, io)
          else if \<not> pv_clear v then (Inl Clear_failed, io)
          else if pi_mode info \<noteq> ''relay'' \<and> pv_failed_last v then (Inl Direct_lost, io)
          else (Inr info, io))"

definition negotiation ::
  "path_env \<Rightarrow> signal_json \<Rightarrow> path_options \<Rightarrow> string \<Rightarrow> path_io \<Rightarrow> (path_error + path_info) \<times> path_io"
where
  "negotiation v J opt role io =
     (case (if role = ''agent'' then agent_describes v J opt io else viewer_describes v J opt io) of (Inl e, io) \<Rightarrow> (Inl e, io)
      | (Inr (own, remote), io) \<Rightarrow>
        (case agree v J opt role (own_ready v opt own remote) io of (Inl e, io) \<Rightarrow> (Inl e, io)
         | (Inr info, io) \<Rightarrow> commit_path v J role info io))"

text \<open>What the caller gets, and what is left open: the base connection, the attempt and the direct connection.\<close>

record path_result =
  pr_answer :: "path_error + path_info"
  pr_base :: bool
  pr_attempt :: bool
  pr_direct :: bool

definition Negotiate ::
  "path_env \<Rightarrow> signal_json \<Rightarrow> path_options \<Rightarrow> string \<Rightarrow> peer_message list \<Rightarrow> path_result \<times> peer_message list"
where
  "Negotiate v J opt role inbox =
     (let failed = (\<lambda>e. \<lparr>pr_answer = Inl e, pr_base = False, pr_attempt = False, pr_direct = False\<rparr>) in
      if role \<noteq> ''viewer'' \<and> role \<noteq> ''agent'' then (failed Bad_role, [])
      else case negotiation v J (normalized opt) role \<lparr>io_in = inbox, io_out = []\<rparr> of
        (Inl e, io) \<Rightarrow> (failed e, io_out io)
      | (Inr info, io) \<Rightarrow>
          if pv_done v then (failed Session_over, io_out io)
          else (\<lparr>pr_answer = Inr info, pr_base = True, pr_attempt = (pi_mode info \<noteq> ''relay''),
            pr_direct = (pi_mode info \<noteq> ''relay'')\<rparr>, io_out io))"

section \<open>Options of a policy\<close>

lemma gather_budget_bounds:
  assumes "0 < po_timeout opt"
  shows "0 < gather_budget opt \<and> gather_budget opt \<le> po_timeout opt \<and> gather_budget opt \<le> 1200000000"
  using assms by (simp add: gather_budget_def Let_def min_def max_def)

lemma normalized_timeout: "0 < po_timeout (normalized opt) \<and> po_timeout (normalized opt) \<le> 10000000000"
  by (simp add: normalized_def defaultTimeout_def)

text \<open>The comment on \<open>STUNURLs\<close> promises that an explicitly empty list gathers local hosts only. A policy without STUN addresses turns it
  into the list of public servers.\<close>

lemma add_server_keeps_stun:
  "\<forall>u \<in> set (ice_urls s). \<not> has_prefix u ''stun:'' \<Longrightarrow> po_stun (add_server r s opt) = po_stun opt"
  by (simp add: add_server_def Let_def filter_empty_conv cong: filter_cong)

lemma empty_list_lost:
  assumes "po_stun opt = Some []" "\<forall>s \<in> set (ice_servers p). \<forall>u \<in> set (ice_urls s). \<not> has_prefix u ''stun:''"
  shows "po_stun (normalized (WithRTCPolicy (Some p) opt)) = po_stun DefaultOptions"
proof -
  have keeps: "\<forall>s \<in> set ss. \<forall>u \<in> set (ice_urls s). \<not> has_prefix u ''stun:'' \<Longrightarrow> po_stun (foldl (\<lambda>o1 s. add_server r s o1) o0 ss) = po_stun o0"
    for ss o0 r
    by (induction ss arbitrary: o0) (simp_all add: add_server_keeps_stun)
  show ?thesis using assms(1) keeps[OF assms(2)]
    by (simp add: WithRTCPolicy_def normalized_def copy_urls_def Let_def)
qed

end
