(* ===== verification/PeerPath_Props.thy ===== *)
theory PeerPath_Props
  imports PeerPath "HOL-Library.Sublist"
begin

text \<open>
  What the negotiation of a path gives: a committed path is one that both ends confirmed, both ends commit to the same one, an
  error leaves nothing open, and two ends without faults always come to an agreement.
\<close>

section \<open>Signals\<close>

definition plain :: "string \<Rightarrow> bool" where
  "plain s \<longleftrightarrow> list_all (\<lambda>c. ord c < 128) s"

definition plain_signal :: "path_signal \<Rightarrow> bool" where
  "plain_signal s \<longleftrightarrow> plain (sg_sdp s) \<and> plain (pi_mode (sg_info s)) \<and> plain (pi_reason (sg_info s))"

text \<open>What is documented of \<open>encoding/json\<close> for these types and ASCII strings.\<close>

definition faithful_json :: "signal_json \<Rightarrow> bool" where
  "faithful_json J \<longleftrightarrow> (\<forall>s. plain_signal s \<longrightarrow> sj_unmarshal J (sj_marshal J s) = Some s)"

lemma plain_constants [simp]:
  "plain []" "plain ''rtc_unavailable''" "plain ''udp_unavailable''" "plain ''peer_unavailable''" "plain ''ice_timeout''"
  "plain ''ice_failed''" "plain ''endpoint_dependent_nat''" "plain ''p2p''" "plain ''udp-relay''" "plain ''relay''" "plain ''turn_udp''"
  "plain ''ipv6_direct''" "plain ''udp_direct''"
  by (simp_all add: plain_def)

lemma validReason_plain: "validReason r \<Longrightarrow> plain r"
  by (auto simp: validReason_def)

lemma validReason_simps [simp]:
  "\<not> validReason []" "validReason ''rtc_unavailable''" "validReason ''udp_unavailable''" "validReason ''peer_unavailable''"
  "validReason ''ice_timeout''" "validReason ''ice_failed''" "validReason ''endpoint_dependent_nat''"
  by (simp_all add: validReason_def)

text \<open>Outcomes that the negotiation may have.\<close>

definition path_known :: "path_info \<Rightarrow> bool" where
  "path_known i \<longleftrightarrow>
     pi_mode i = ''relay'' \<and> (validReason (pi_reason i) \<or> pi_reason i \<in> {''udp_direct'', ''ipv6_direct'', ''turn_udp''})
     \<or> pi_mode i = ''udp-relay'' \<and> pi_reason i = ''turn_udp''
     \<or> pi_mode i = ''p2p'' \<and> (pi_reason i = ''udp_direct'' \<or> pi_reason i = ''ipv6_direct'')"

definition signal_ok :: "bool \<Rightarrow> path_signal \<Rightarrow> bool" where
  "signal_ok v2 s \<longleftrightarrow> sg_sdp s = [] \<and> validReady s v2"

lemma signal_ok_plain: "signal_ok v2 s \<Longrightarrow> plain_signal s"
  by (auto simp: signal_ok_def plain_signal_def validReady_def Let_def validReason_plain split: if_splits)

lemma decide_known:
  assumes "signal_ok v2 vw" "signal_ok v2' ag"
  shows "path_known (decide_path vw ag)"
  using assms by (auto simp: path_known_def decide_path_def signal_ok_def validReady_def Let_def split: if_splits)

text \<open>A relayed session has the reason of a failure, unless the viewer misses an answer of an agent that is ready.\<close>

lemma decide_relay:
  assumes "signal_ok v2 vw" "signal_ok v2' ag"
  shows "pi_mode (decide_path vw ag) = ''relay'' \<longleftrightarrow> \<not> sg_ready vw \<or> \<not> sg_ready ag"
  using assms by (auto simp: decide_path_def Let_def)

lemma known_plain: "path_known i \<Longrightarrow> plain (pi_mode i) \<and> plain (pi_reason i)"
  by (auto simp: path_known_def validReason_plain)

text \<open>What an end says is well formed.\<close>

lemma validateSDP_nonempty: "\<not> validateSDP v [] relay"
  by (simp add: validateSDP_def)

lemma description_reason: "description v relay = (sdp, r) \<Longrightarrow> (sdp = [] \<and> validReason r) \<or> (r = [] \<and> sdp \<noteq> [] \<and> validateSDP v sdp relay)"
  using validateSDP_nonempty by (auto simp: description_def split: gathered.splits option.splits prod.splits if_splits)

definition describes :: "path_env \<Rightarrow> path_options \<Rightarrow> path_signal \<Rightarrow> bool" where
  "describes v opt s \<longleftrightarrow> \<not> sg_ready s \<and> pi_mode (sg_info s) = []
     \<and> (if sg_sdp s = [] then validReason (pi_reason (sg_info s)) else pi_reason (sg_info s) = [] \<and> validateSDP v (sg_sdp s) (po_ice opt \<noteq> []))"

lemma describes_unavailable: "validReason r \<Longrightarrow> describes v opt (unavailable r)"
  by (simp add: describes_def unavailable_def)

lemma describes_own: "describes v opt (own_description v opt mapped)"
  by (auto simp: describes_def own_description_def dest!: description_reason split: prod.splits)

lemma start_reason: "fst (start_attempt v opt) = None \<longleftrightarrow> validReason (snd (start_attempt v opt))"
  by (simp add: start_attempt_def split: option.split)

lemma describes_start:
  "start_attempt v opt = (a, r) \<Longrightarrow> describes v opt (case a of None \<Rightarrow> unavailable r | Some m \<Rightarrow> own_description v opt m)"
  using start_reason[of v opt] by (auto simp: describes_own describes_unavailable split: option.splits)

lemma channel_reason:
  "channel_ready v relay = (up, i) \<Longrightarrow> if up then pi_mode i = ''p2p'' \<and> (pi_reason i = ''udp_direct'' \<or> pi_reason i = ''ipv6_direct'')
     \<or> pi_mode i = ''udp-relay'' \<and> pi_reason i = ''turn_udp'' else validReason (pi_reason i)"
  by (auto simp: channel_ready_def Let_def split: waited.splits if_splits option.splits prod.splits)

lemma own_ready_ok: "describes v opt own \<Longrightarrow> signal_ok (po_v2 opt) (own_ready v opt own remote)"
  by (auto simp: describes_def own_ready_def signal_ok_def validReady_def unavailable_def no_info_def Let_def
      dest!: channel_reason split: if_splits prod.splits bool.splits)

lemma own_ready_up: "sg_ready (own_ready v opt own remote) \<Longrightarrow> fst (channel_ready v (po_ice opt \<noteq> []))"
  by (auto simp: own_ready_def unavailable_def Let_def split: if_splits prod.splits bool.splits)

lemma channel_up:
  "channel_ready v relay = (True, i) \<Longrightarrow> pv_waited v = Opened \<and> \<not> pv_failed_then v
     \<and> (\<exists>a b. pv_pair v = Some (a, b) \<and> pe_udp a \<and> pe_udp b
          \<and> (\<not> relay \<or> pi_mode i \<noteq> ''udp-relay'' \<longrightarrow> pe_type a \<noteq> Relayed \<and> pe_type b \<noteq> Relayed))"
  by (auto simp: channel_ready_def usableCandidate_def Let_def split: waited.splits if_splits option.splits prod.splits)

lemma normalized_keeps [simp]: "po_ice (normalized opt) = po_ice opt" "po_v2 (normalized opt) = po_v2 opt"
  by (simp_all add: normalized_def)

lemma own_ready_channel:
  "sg_ready (own_ready v opt own remote) \<Longrightarrow>
     \<exists>k. channel_ready v (po_ice opt \<noteq> []) = (True, k) \<and> (po_v2 opt \<longrightarrow> sg_info (own_ready v opt own remote) = k)"
  by (auto simp: own_ready_def unavailable_def Let_def split: if_splits prod.splits bool.splits)

section \<open>A successful negotiation\<close>

text \<open>What a successful end has read and written.\<close>

lemma exchange_Inr:
  "exchange v J role stage own io = (Inr other, io') \<Longrightarrow>
     \<exists>m. io_in io = m # io_in io' \<and> io_out io' = io_out io @ [signal_message J stage own] \<and> read_signal J stage m = Inr other"
  by (auto simp: exchange_def send_signal_def receive_signal_def split: if_splits sum.splits fate.splits list.splits)

lemma agree_Inr:
  assumes "agree v J opt role mine io = (Inr info, io')"
  shows "\<exists>m other. io_in io = m # io_in io' \<and> io_out io' = io_out io @ [signal_message J ''ready'' mine]
     \<and> read_signal J ''ready'' m = Inr other \<and> signal_ok (po_v2 opt) other
     \<and> info = (if role = ''agent'' then decide_path other mine else decide_path mine other)"
  using assms by (auto simp: agree_def signal_ok_def dest!: exchange_Inr split: sum.splits prod.splits if_splits)

lemma commit_Inr:
  assumes "commit_path v J role info io = (Inr i, io')"
  shows "i = info \<and> (pi_mode info \<noteq> ''relay'' \<longrightarrow> \<not> pv_failed_last v) \<and> (\<exists>m c. io_in io = m # io_in io'
     \<and> io_out io' = io_out io @ [signal_message J ''commit'' \<lparr>sg_sdp = [], sg_ready = False, sg_info = info\<rparr>]
     \<and> read_signal J ''commit'' m = Inr c \<and> sg_info c = info)"
  using assms by (auto simp: commit_path_def dest!: exchange_Inr split: sum.splits prod.splits if_splits)

lemma viewer_describes_Inr:
  assumes "viewer_describes v J opt io = (Inr (own, remote), io')"
  shows "describes v opt own \<and> (\<exists>m. io_in io = m # io_in io' \<and> io_out io' = io_out io @ [signal_message J ''offer'' own]
     \<and> read_signal J ''answer'' m = Inr remote)"
proof -
  obtain a r where a: "start_attempt v opt = (a, r)" by force
  have "own = (case a of None \<Rightarrow> unavailable r | Some m \<Rightarrow> own_description v opt m)"
    using assms a by (auto simp: viewer_describes_def Let_def split: sum.splits prod.splits if_splits)
  then have "describes v opt own" using describes_start[OF a] by simp
  then show ?thesis using assms a
    by (auto simp: viewer_describes_def send_signal_def receive_signal_def Let_def
        split: sum.splits prod.splits if_splits fate.splits list.splits)
qed

lemma agent_describes_Inr:
  assumes "agent_describes v J opt io = (Inr (own, remote), io')"
  shows "describes v opt own \<and> (\<exists>m. io_in io = m # io_in io' \<and> io_out io' = io_out io @ [signal_message J ''answer'' own]
     \<and> read_signal J ''offer'' m = Inr remote)"
proof -
  obtain a r where a: "start_attempt v opt = (a, r)" by force
  have "own = (if sg_sdp remote = [] then unavailable ''peer_unavailable''
      else case a of None \<Rightarrow> unavailable r | Some m \<Rightarrow> own_description v opt m)"
    using assms a by (auto simp: agent_describes_def Let_def split: sum.splits prod.splits if_splits)
  then have "describes v opt own" using describes_start[OF a] by (simp add: describes_unavailable)
  then show ?thesis using assms a
    by (auto simp: agent_describes_def send_signal_def receive_signal_def Let_def
        split: sum.splits prod.splits if_splits fate.splits list.splits)
qed

text \<open>The three messages of each end.\<close>

definition outgoing :: "signal_json \<Rightarrow> string \<Rightarrow> path_signal \<Rightarrow> path_signal \<Rightarrow> path_info \<Rightarrow> peer_message list" where
  "outgoing J stage own mine info = [signal_message J stage own, signal_message J ''ready'' mine,
     signal_message J ''commit'' \<lparr>sg_sdp = [], sg_ready = False, sg_info = info\<rparr>]"

lemma negotiation_Inr:
  assumes "negotiation v J opt role \<lparr>io_in = inbox, io_out = []\<rparr> = (Inr i, io)"
  shows "\<exists>own remote m1 m2 m3 rest other c.
     describes v opt own \<and> inbox = m1 # m2 # m3 # rest
     \<and> io_out io = outgoing J (if role = ''agent'' then ''answer'' else ''offer'') own (own_ready v opt own remote) i
     \<and> read_signal J (if role = ''agent'' then ''offer'' else ''answer'') m1 = Inr remote
     \<and> read_signal J ''ready'' m2 = Inr other \<and> signal_ok (po_v2 opt) other
     \<and> read_signal J ''commit'' m3 = Inr c \<and> sg_info c = i
     \<and> i = (if role = ''agent'' then decide_path other (own_ready v opt own remote) else decide_path (own_ready v opt own remote) other)
     \<and> (pi_mode i \<noteq> ''relay'' \<longrightarrow> \<not> pv_failed_last v)"
proof -
  let ?io = "\<lparr>io_in = inbox, io_out = []\<rparr>"
  let ?d = "if role = ''agent'' then agent_describes v J opt ?io else viewer_describes v J opt ?io"
  obtain own remote io1 io2 info where d: "?d = (Inr (own, remote), io1)"
    and a: "agree v J opt role (own_ready v opt own remote) io1 = (Inr info, io2)"
    and c: "commit_path v J role info io2 = (Inr i, io)"
    using assms by (auto simp: negotiation_def split: sum.splits prod.splits)
  have "describes v opt own \<and> (\<exists>m. inbox = m # io_in io1
      \<and> io_out io1 = [signal_message J (if role = ''agent'' then ''answer'' else ''offer'') own]
      \<and> read_signal J (if role = ''agent'' then ''offer'' else ''answer'') m = Inr remote)"
    using d viewer_describes_Inr[of v J opt ?io own remote io1] agent_describes_Inr[of v J opt ?io own remote io1]
    by (simp split: if_splits)
  with agree_Inr[OF a] commit_Inr[OF c] show ?thesis unfolding outgoing_def by fastforce
qed

lemmas viewer_Inr = negotiation_Inr[where role = "''viewer''", simplified]
lemmas agent_Inr = negotiation_Inr[where role = "''agent''", simplified]

lemma Negotiate_Inr:
  assumes "Negotiate v J opt role inbox = (r, out)" "pr_answer r = Inr i"
  shows "\<exists>io. negotiation v J (normalized opt) role \<lparr>io_in = inbox, io_out = []\<rparr> = (Inr i, io) \<and> out = io_out io
     \<and> role \<in> {''viewer'', ''agent''} \<and> pr_base r \<and> pr_attempt r = (pi_mode i \<noteq> ''relay'') \<and> pr_direct r = (pi_mode i \<noteq> ''relay'')"
  using assms by (auto simp: Negotiate_def Let_def split: if_splits sum.splits prod.splits)

lemma negotiation_known:
  assumes "negotiation v J opt role \<lparr>io_in = inbox, io_out = []\<rparr> = (Inr i, io)"
  shows "path_known i"
proof -
  obtain own remote other where "describes v opt own" "signal_ok (po_v2 opt) other"
    "i = (if role = ''agent'' then decide_path other (own_ready v opt own remote) else decide_path (own_ready v opt own remote) other)"
    using negotiation_Inr[OF assms] by blast
  then show ?thesis using own_ready_ok[of v opt own remote] decide_known by (simp split: if_splits)
qed

lemma heard:
  assumes "faithful_json J" "plain_signal s" "read_signal J stage (signal_message J stage' s) = Inr t"
  shows "t = s"
  using assms by (auto simp: read_signal_def signal_message_def faithful_json_def Let_def split: if_splits option.splits)

section \<open>The properties\<close>

text \<open>C15: One path for both. When viewer and agent both report a path, each having read what the other wrote, then it is the same
  path with the same reason, and it is not the relay only if the channel of both ends is open.\<close>

theorem paths_agree:
  assumes J: "faithful_json J"
    and viewer: "Negotiate vv J ov ''viewer'' vin = (rv, vout)" "pr_answer rv = Inr i"
    and agent: "Negotiate va J oa ''agent'' ain = (ra, aout)" "pr_answer ra = Inr j"
    and channel: "prefix vin aout" "prefix ain vout"
  shows "i = j \<and> path_known i
    \<and> (pi_mode i \<noteq> ''relay'' \<longrightarrow> fst (channel_ready vv (po_ice (normalized ov) \<noteq> [])) \<and> fst (channel_ready va (po_ice (normalized oa) \<noteq> [])))"
proof -
  obtain iov where v: "negotiation vv J (normalized ov) ''viewer'' \<lparr>io_in = vin, io_out = []\<rparr> = (Inr i, iov)" "vout = io_out iov"
    using Negotiate_Inr[OF viewer] by blast
  obtain ioa where a: "negotiation va J (normalized oa) ''agent'' \<lparr>io_in = ain, io_out = []\<rparr> = (Inr j, ioa)" "aout = io_out ioa"
    using Negotiate_Inr[OF agent] by blast
  define V where "V = own_ready vv (normalized ov)"
  define A where "A = own_ready va (normalized oa)"
  obtain own remote m1 m2 m3 rest other c where vi:
    "describes vv (normalized ov) own" "vin = m1 # m2 # m3 # rest" "vout = outgoing J ''offer'' own (V own remote) i"
    "read_signal J ''ready'' m2 = Inr other" "signal_ok (po_v2 (normalized ov)) other"
    "read_signal J ''commit'' m3 = Inr c" "sg_info c = i" "i = decide_path (V own remote) other"
    using viewer_Inr[OF v(1)] v(2) unfolding V_def normalized_keeps by blast
  obtain own' remote' n1 n2 n3 rest' other' c' where ai:
    "describes va (normalized oa) own'" "ain = n1 # n2 # n3 # rest'" "aout = outgoing J ''answer'' own' (A own' remote') j"
    "read_signal J ''ready'' n2 = Inr other'" "signal_ok (po_v2 (normalized oa)) other'" "j = decide_path other' (A own' remote')"
    using agent_Inr[OF a(1)] a(2) unfolding A_def normalized_keeps by blast
  have known: "path_known i" "path_known j" using negotiation_known v(1) a(1) by blast+
  have ok: "signal_ok (po_v2 (normalized ov)) (V own remote)" "signal_ok (po_v2 (normalized oa)) (A own' remote')"
    unfolding V_def A_def using own_ready_ok vi(1) ai(1) by blast+
  have m: "m2 = signal_message J ''ready'' (A own' remote')"
      "m3 = signal_message J ''commit'' \<lparr>sg_sdp = [], sg_ready = False, sg_info = j\<rparr>"
    and n: "n2 = signal_message J ''ready'' (V own remote)"
    using channel vi(2,3) ai(2,3) by (auto simp: outgoing_def prefix_def)
  have "plain_signal \<lparr>sg_sdp = [], sg_ready = False, sg_info = j\<rparr>" using known_plain[OF known(2)] by (simp add: plain_signal_def)
  then have "i = j" using heard[OF J _ vi(6)[unfolded m(2)]] vi(7) by simp
  moreover have "other = A own' remote'" using heard[OF J signal_ok_plain[OF ok(2)]] vi(4) m(1) by blast
  then have "pi_mode i \<noteq> ''relay'' \<Longrightarrow> sg_ready (V own remote) \<and> sg_ready (A own' remote')"
    using decide_relay[OF ok(1) vi(5)] vi(8) by auto
  then have "pi_mode i \<noteq> ''relay'' \<Longrightarrow> fst (channel_ready vv (po_ice (normalized ov) \<noteq> [])) \<and> fst (channel_ready va (po_ice (normalized oa) \<noteq> []))"
    unfolding V_def A_def using own_ready_up by blast
  ultimately show ?thesis using known(1) by blast
qed

text \<open>C29: Whatever the peer and the library do, an end that reports a path has kept its relay connection, and reports a path other
  than the relay only with an open channel over UDP, whose two candidates are not relayed unless TURN was allowed; the
  direct connection and the attempt are open exactly then. An end that reports an error has closed everything.\<close>

theorem negotiated_path_is_real:
  assumes run: "Negotiate v J opt role inbox = (r, out)"
  shows "case pr_answer r of
      Inl e \<Rightarrow> \<not> pr_base r \<and> \<not> pr_attempt r \<and> \<not> pr_direct r
    | Inr i \<Rightarrow> path_known i \<and> pr_base r \<and> pr_attempt r = pr_direct r \<and> pr_direct r = (pi_mode i \<noteq> ''relay'')
        \<and> (pr_direct r \<longrightarrow> pv_waited v = Opened \<and> \<not> pv_failed_then v \<and> \<not> pv_failed_last v
            \<and> (\<exists>a b. pv_pair v = Some (a, b) \<and> pe_udp a \<and> pe_udp b
                \<and> (po_ice opt = [] \<or> po_v2 opt \<and> pi_mode i = ''p2p'' \<longrightarrow> pe_type a \<noteq> Relayed \<and> pe_type b \<noteq> Relayed)))"
proof (cases "pr_answer r")
  case (Inl e)
  then show ?thesis using run by (auto simp: Negotiate_def Let_def split: if_splits sum.splits prod.splits)
next
  case (Inr i)
  obtain io where n: "negotiation v J (normalized opt) role \<lparr>io_in = inbox, io_out = []\<rparr> = (Inr i, io)"
    "pr_base r" "pr_attempt r = (pi_mode i \<noteq> ''relay'')" "pr_direct r = (pi_mode i \<noteq> ''relay'')"
    using Negotiate_Inr[OF run Inr] by blast
  obtain own remote other where d: "describes v (normalized opt) own" "signal_ok (po_v2 (normalized opt)) other"
    "i = (if role = ''agent'' then decide_path other (own_ready v (normalized opt) own remote) else decide_path (own_ready v (normalized opt) own remote) other)"
    "pi_mode i \<noteq> ''relay'' \<longrightarrow> \<not> pv_failed_last v"
    using negotiation_Inr[OF n(1)] by blast
  let ?mine = "own_ready v (normalized opt) own remote"
  have mine: "signal_ok (po_v2 (normalized opt)) ?mine" using own_ready_ok d(1) by blast
  have up: "sg_ready ?mine \<and> (pi_mode i = ''p2p'' \<longrightarrow> pi_mode (sg_info ?mine) \<noteq> ''udp-relay'')" if "pi_mode i \<noteq> ''relay''"
    using that d(3) decide_relay[OF mine d(2)] decide_relay[OF d(2) mine] by (auto simp: decide_path_def split: if_splits)
  show ?thesis
  proof (cases "pi_mode i = ''relay''")
    case True
    then show ?thesis using Inr n(2-4) negotiation_known[OF n(1)] by simp
  next
    case False
    obtain k where k: "channel_ready v (po_ice opt \<noteq> []) = (True, k)" "po_v2 opt \<Longrightarrow> sg_info ?mine = k"
      using own_ready_channel[of v "normalized opt" own remote] up[OF False] by auto
    then show ?thesis using Inr n(2-4) negotiation_known[OF n(1)] False d(4) channel_up[OF k(1)] up[OF False] by auto
  qed
qed

section \<open>Ends without faults\<close>

definition first_signal :: "path_env \<Rightarrow> path_options \<Rightarrow> path_signal" where
  "first_signal v opt = (case start_attempt v opt of (a, r) \<Rightarrow> case a of None \<Rightarrow> unavailable r | Some m \<Rightarrow> own_description v opt m)"

definition smooth :: "path_env \<Rightarrow> bool" where
  "smooth v \<longleftrightarrow> (\<forall>stage. pv_read v stage) \<and> (\<forall>stage. pv_write v stage = Delivered) \<and> (\<forall>sdp. pv_remote v sdp)
     \<and> \<not> pv_failed_last v \<and> pv_clear v \<and> \<not> pv_done v"

definition carried :: "signal_json \<Rightarrow> path_signal \<Rightarrow> bool" where
  "carried J s \<longleftrightarrow> plain_signal s \<and> length (sj_marshal J s) \<le> 2 * maxSDP"

definition small_json :: "signal_json \<Rightarrow> bool" where
  "small_json J \<longleftrightarrow> (\<forall>s. sg_sdp s = [] \<and> length (pi_mode (sg_info s)) \<le> 64 \<and> length (pi_reason (sg_info s)) \<le> 64
     \<longrightarrow> length (sj_marshal J s) \<le> 2 * maxSDP)"

lemma validReason_short: "validReason r \<Longrightarrow> length r \<le> 64"
  by (auto simp: validReason_def)

lemma known_short: "path_known i \<Longrightarrow> length (pi_mode i) \<le> 64 \<and> length (pi_reason i) \<le> 64"
  by (auto simp: path_known_def validReason_short)

lemma signal_ok_short: "signal_ok v2 s \<Longrightarrow> length (pi_mode (sg_info s)) \<le> 64 \<and> length (pi_reason (sg_info s)) \<le> 64"
  by (auto simp: signal_ok_def validReady_def Let_def validReason_short split: if_splits)

lemma clean_read:
  assumes "faithful_json J" "carried J s" "length (pi_reason (sg_info s)) \<le> 64"
  shows "read_signal J stage (signal_message J stage s) = Inr s"
  using assms by (simp add: read_signal_def signal_message_def faithful_json_def carried_def Let_def)

lemma clean_ready:
  assumes "faithful_json J" "small_json J" "signal_ok v2 s"
  shows "read_signal J stage (signal_message J stage s) = Inr s"
  using assms signal_ok_plain[OF assms(3)] signal_ok_short[OF assms(3)]
  by (intro clean_read) (auto simp: carried_def small_json_def signal_ok_def)

lemma clean_commit:
  assumes "faithful_json J" "small_json J" "path_known i"
  shows "read_signal J stage (signal_message J stage \<lparr>sg_sdp = [], sg_ready = False, sg_info = i\<rparr>) = Inr \<lparr>sg_sdp = [], sg_ready = False, sg_info = i\<rparr>"
  using assms known_plain[OF assms(3)] known_short[OF assms(3)]
  by (intro clean_read) (auto simp: carried_def small_json_def plain_signal_def)

lemma smooth_send:
  "smooth v \<Longrightarrow> send_signal v J stage s io = (Inr (), io\<lparr>io_out := io_out io @ [signal_message J stage s]\<rparr>)"
  by (simp add: smooth_def send_signal_def)

lemma smooth_receive:
  "smooth v \<Longrightarrow> receive_signal v J stage \<lparr>io_in = m # ms, io_out = out\<rparr> = (read_signal J stage m, \<lparr>io_in = ms, io_out = out\<rparr>)"
  by (simp add: smooth_def receive_signal_def)

lemma receive_signal_out: "io_out (snd (receive_signal v J stage io)) = io_out io"
  by (simp add: receive_signal_def split: list.split)

text \<open>What is written stays written.\<close>

lemma exchange_extends: "\<exists>t. io_out (snd (exchange v J role stage own io)) = io_out io @ t"
  by (auto simp: exchange_def send_signal_def receive_signal_def split: sum.splits fate.splits list.splits if_splits prod.splits)

lemma agree_out: "io_out (snd (agree v J opt role mine io)) = io_out (snd (exchange v J role ''ready'' mine io))"
  by (auto simp: agree_def split: sum.split prod.split)

lemma commit_out: "io_out (snd (commit_path v J role info io))
    = io_out (snd (exchange v J role ''commit'' \<lparr>sg_sdp = [], sg_ready = False, sg_info = info\<rparr> io))"
  by (auto simp: commit_path_def split: sum.split prod.split)

lemma agree_extends: "\<exists>t. io_out (snd (agree v J opt role mine io)) = io_out io @ t"
  unfolding agree_out by (rule exchange_extends)

lemma commit_extends: "\<exists>t. io_out (snd (commit_path v J role info io)) = io_out io @ t"
  unfolding commit_out by (rule exchange_extends)

definition describe :: "path_env \<Rightarrow> signal_json \<Rightarrow> path_options \<Rightarrow> string \<Rightarrow> peer_message list \<Rightarrow> (path_error + path_signal \<times> path_signal) \<times> path_io" where
  "describe v J opt role inbox =
     (if role = ''agent'' then agent_describes v J opt \<lparr>io_in = inbox, io_out = []\<rparr>
      else viewer_describes v J opt \<lparr>io_in = inbox, io_out = []\<rparr>)"

abbreviation run_path :: "path_env \<Rightarrow> signal_json \<Rightarrow> path_options \<Rightarrow> string \<Rightarrow> peer_message list \<Rightarrow> (path_error + path_info) \<times> path_io" where
  "run_path v J opt role inbox \<equiv> negotiation v J opt role \<lparr>io_in = inbox, io_out = []\<rparr>"

lemma run_extends: "\<exists>t. io_out (snd (run_path v J opt role inbox)) = io_out (snd (describe v J opt role inbox)) @ t"
proof -
  obtain d io where d: "describe v J opt role inbox = (d, io)" by force
  show ?thesis
  proof (cases d)
    case (Inr p)
    obtain own remote where p: "p = (own, remote)" by force
    obtain a io2 where a: "agree v J opt role (own_ready v opt own remote) io = (a, io2)" by force
    have e1: "\<exists>t. io_out io2 = io_out io @ t" using agree_extends[of v J opt role "own_ready v opt own remote" io] a by simp
    show ?thesis
    proof (cases a)
      case (Inr info)
      have "\<exists>t. io_out (snd (commit_path v J role info io2)) = io_out io2 @ t" by (rule commit_extends)
      then show ?thesis using e1 d a Inr \<open>d = Inr p\<close> p by (auto simp: negotiation_def describe_def[symmetric])
    qed (use e1 d a \<open>d = Inr p\<close> p in \<open>auto simp: negotiation_def describe_def[symmetric]\<close>)
  qed (use d in \<open>auto simp: negotiation_def describe_def[symmetric]\<close>)
qed

text \<open>After the descriptions, and after the ready signals.\<close>

lemma run_agree:
  assumes "describe v J opt role inbox = (Inr (own, remote), io)"
  shows "run_path v J opt role inbox =
    (case agree v J opt role (own_ready v opt own remote) io of (Inl e, io) \<Rightarrow> (Inl e, io) | (Inr info, io) \<Rightarrow> commit_path v J role info io)"
  using assms by (simp add: negotiation_def describe_def)

lemma run_agree_extends:
  assumes "describe v J opt role inbox = (Inr (own, remote), io)"
  shows "\<exists>t. io_out (snd (run_path v J opt role inbox)) = io_out (snd (exchange v J role ''ready'' (own_ready v opt own remote) io)) @ t"
proof -
  obtain a io2 where a: "agree v J opt role (own_ready v opt own remote) io = (a, io2)" by force
  then have "io_out io2 = io_out (snd (exchange v J role ''ready'' (own_ready v opt own remote) io))"
    using agree_out[of v J opt role "own_ready v opt own remote" io] by simp
  then show ?thesis using commit_extends[of v J role _ io2] a unfolding run_agree[OF assms] by (cases a) auto
qed

lemma first_describes: "describes v opt (first_signal v opt)"
  using describes_start[of v opt "fst (start_attempt v opt)" "snd (start_attempt v opt)"] by (cases "start_attempt v opt") (simp add: first_signal_def describes_start)

lemma describes_valid: "describes v opt s \<Longrightarrow> validDescription v s (po_ice opt \<noteq> []) \<and> length (pi_reason (sg_info s)) \<le> 64"
  by (auto simp: describes_def validDescription_def validReason_short split: if_splits)

lemma describes_reason: "describes v opt s \<Longrightarrow> pi_reason (sg_info s) = [] \<longleftrightarrow> sg_sdp s \<noteq> []"
  by (auto simp: describes_def split: if_splits)

text \<open>Both ends read descriptions in the same way: the same parsers, and TURN allowed at both or at none.\<close>

definition same_view :: "path_env \<Rightarrow> path_options \<Rightarrow> path_env \<Rightarrow> path_options \<Rightarrow> bool" where
  "same_view v opt w opt' \<longleftrightarrow> pv_sdp v = pv_sdp w \<and> pv_cand v = pv_cand w \<and> (po_ice opt = []) = (po_ice opt' = []) \<and> po_v2 opt = po_v2 opt'"

lemma same_view_describes: "same_view v opt w opt' \<Longrightarrow> describes v opt s = describes w opt' s"
  by (simp add: same_view_def describes_def validateSDP_def split: option.split list.split)

definition answer_signal :: "path_env \<Rightarrow> path_options \<Rightarrow> path_signal \<Rightarrow> path_signal" where
  "answer_signal v opt offer = (if sg_sdp offer = [] then unavailable ''peer_unavailable'' else first_signal v opt)"

lemma viewer_offers:
  assumes "smooth v"
  shows "io_out (snd (describe v J opt ''viewer'' inbox)) = [signal_message J ''offer'' (first_signal v opt)]"
  using assms
  by (auto simp: describe_def viewer_describes_def smooth_send first_signal_def receive_signal_def Let_def
      split: sum.split prod.split list.split option.split)

lemma agent_answers:
  assumes "smooth v" "read_signal J ''offer'' m = Inr offer" "describes v opt offer"
  shows "describe v J opt ''agent'' (m # ms) =
    (Inr (answer_signal v opt offer, offer), \<lparr>io_in = ms, io_out = [signal_message J ''answer'' (answer_signal v opt offer)]\<rparr>)"
  using assms describes_valid[OF assms(3)]
  by (auto simp: describe_def agent_describes_def smooth_receive smooth_send answer_signal_def first_signal_def smooth_def Let_def
      split: prod.split option.split)

lemma viewer_hears_answer:
  assumes "smooth v" "read_signal J ''answer'' m = Inr answer" "describes v opt answer"
    "sg_sdp answer \<noteq> [] \<Longrightarrow> sg_sdp (first_signal v opt) \<noteq> []"
  shows "describe v J opt ''viewer'' (m # ms) =
    (Inr (first_signal v opt, answer), \<lparr>io_in = ms, io_out = [signal_message J ''offer'' (first_signal v opt)]\<rparr>)"
proof -
  obtain a r where a: "start_attempt v opt = (a, r)" by force
  have "first_signal v opt = (case a of None \<Rightarrow> unavailable r | Some m \<Rightarrow> own_description v opt m)" by (simp add: first_signal_def a)
  moreover from this have "sg_sdp answer \<noteq> [] \<Longrightarrow> a \<noteq> None" using assms(4) by (cases a) (simp_all add: unavailable_def)
  ultimately show ?thesis using assms describes_valid[OF assms(3)] a
    by (auto simp: describe_def viewer_describes_def smooth_send smooth_receive Let_def smooth_def)
qed

lemma viewer_exchange_out:
  assumes "smooth v"
  shows "io_out (snd (exchange v J ''viewer'' stage own io)) = io_out io @ [signal_message J stage own]"
  using assms by (simp add: exchange_def smooth_send receive_signal_out)

lemma viewer_exchange:
  assumes "smooth v" "read_signal J stage m = Inr other"
  shows "exchange v J ''viewer'' stage own \<lparr>io_in = m # ms, io_out = out\<rparr> = (Inr other, \<lparr>io_in = ms, io_out = out @ [signal_message J stage own]\<rparr>)"
  using assms by (simp add: exchange_def smooth_send smooth_receive)

lemma agent_exchange:
  assumes "smooth v" "read_signal J stage m = Inr other"
  shows "exchange v J ''agent'' stage own \<lparr>io_in = m # ms, io_out = out\<rparr> = (Inr other, \<lparr>io_in = ms, io_out = out @ [signal_message J stage own]\<rparr>)"
  using assms by (simp add: exchange_def smooth_send smooth_receive)

lemma Negotiate_smooth:
  assumes "smooth v" "role = ''viewer'' \<or> role = ''agent''"
  shows "snd (Negotiate v J opt role inbox) = io_out (snd (run_path v J (normalized opt) role inbox))
    \<and> pr_answer (fst (Negotiate v J opt role inbox)) = fst (run_path v J (normalized opt) role inbox)"
  using assms by (auto simp: Negotiate_def smooth_def Let_def split: sum.split prod.split)

lemma both_directions:
  assumes J: "faithful_json J" "small_json J" and s: "smooth v" "smooth w" "same_view v opt w opt'"
    and c: "carried J (first_signal v opt)" "carried J (first_signal w opt')"
    and run: "ain = io_out (snd (run_path v J opt ''viewer'' vin))" "vin = io_out (snd (run_path w J opt' ''agent'' ain))"
    and V: "V = first_signal v opt" and A: "A = answer_signal w opt' V"
    and VR: "VR = own_ready v opt V A" and AR: "AR = own_ready w opt' A V" and i: "i = decide_path VR AR"
  shows "fst (run_path v J opt ''viewer'' vin) = Inr i \<and> fst (run_path w J opt' ''agent'' ain) = Inr i"
proof -
  note same = same_view_describes[OF s(3)]
  have dV: "describes v opt V" unfolding V by (rule first_describes)
  have dA: "describes w opt' A" unfolding A answer_signal_def by (simp add: first_describes describes_unavailable)
  have cA: "carried J A"
    using c(2) J(2) by (auto simp: A answer_signal_def carried_def small_json_def unavailable_def plain_signal_def)
  have rV: "read_signal J st (signal_message J st V) = Inr V" for st
    using clean_read[OF J(1)] c(1) describes_valid[OF dV] V by blast
  have rA: "read_signal J st (signal_message J st A) = Inr A" for st
    using clean_read[OF J(1) cA] describes_valid[OF dA] by blast
  have kV: "signal_ok (po_v2 opt) VR" and kA: "signal_ok (po_v2 opt') AR" unfolding VR AR using own_ready_ok dV dA by blast+
  have known: "path_known i" unfolding i using decide_known[OF kV kA] .
  note ready = clean_ready[OF J kV] clean_ready[OF J kA]
  note commit = clean_commit[OF J known]
  define C where "C = \<lparr>sg_sdp = [], sg_ready = False, sg_info = i\<rparr>"
  obtain t1 where a1: "ain = signal_message J ''offer'' V # t1"
    using run_extends[of v J opt "''viewer''" vin] viewer_offers[OF s(1), of J opt vin] run(1) V by auto
  have ag: "describe w J opt' ''agent'' (signal_message J ''offer'' V # t1) = (Inr (A, V), \<lparr>io_in = t1, io_out = [signal_message J ''answer'' A]\<rparr>)"
    unfolding A using agent_answers[OF s(2) rV] dV same by blast
  obtain t2 where v1: "vin = signal_message J ''answer'' A # t2"
    using run_extends[of w J opt' "''agent''" ain] ag run(2) a1 by auto
  have needs: "sg_sdp A \<noteq> [] \<Longrightarrow> sg_sdp (first_signal v opt) \<noteq> []" by (auto simp: A V answer_signal_def unavailable_def)
  have vw: "describe v J opt ''viewer'' (signal_message J ''answer'' A # t2) = (Inr (V, A), \<lparr>io_in = t2, io_out = [signal_message J ''offer'' V]\<rparr>)"
    unfolding V using viewer_hears_answer[OF s(1) rA] needs dA same by blast
  obtain t3 where a2: "t1 = signal_message J ''ready'' VR # t3"
    using run_agree_extends[OF vw] viewer_exchange_out[OF s(1)] run(1) a1 v1 VR by auto
  have agA: "agree w J opt' ''agent'' AR \<lparr>io_in = t1, io_out = [signal_message J ''answer'' A]\<rparr>
      = (Inr i, \<lparr>io_in = t3, io_out = [signal_message J ''answer'' A, signal_message J ''ready'' AR]\<rparr>)"
    using kV s(3) by (simp add: agree_def a2 agent_exchange[OF s(2) ready(1)] signal_ok_def same_view_def i)
  have runA: "run_path w J opt' ''agent'' ain
      = commit_path w J ''agent'' i \<lparr>io_in = t3, io_out = [signal_message J ''answer'' A, signal_message J ''ready'' AR]\<rparr>"
    unfolding a1 run_agree[OF ag] AR[symmetric] agA by simp
  obtain t4 where v2: "t2 = signal_message J ''ready'' AR # t4"
    using commit_extends[of w J "''agent''" i
        "\<lparr>io_in = t3, io_out = [signal_message J ''answer'' A, signal_message J ''ready'' AR]\<rparr>"] runA run(2) v1 by auto
  have agV: "agree v J opt ''viewer'' VR \<lparr>io_in = t2, io_out = [signal_message J ''offer'' V]\<rparr>
      = (Inr i, \<lparr>io_in = t4, io_out = [signal_message J ''offer'' V, signal_message J ''ready'' VR]\<rparr>)"
    using kA s(3) by (simp add: agree_def v2 viewer_exchange[OF s(1) ready(2)] signal_ok_def same_view_def i)
  have runV: "run_path v J opt ''viewer'' vin
      = commit_path v J ''viewer'' i \<lparr>io_in = t4, io_out = [signal_message J ''offer'' V, signal_message J ''ready'' VR]\<rparr>"
    unfolding v1 run_agree[OF vw] VR[symmetric] agV by simp
  obtain t5 where a3: "t3 = signal_message J ''commit'' C # t5"
    using commit_out[of v J "''viewer''" i] viewer_exchange_out[OF s(1)] runV run(1) a1 a2 by (auto simp: C_def)
  have cA: "commit_path w J ''agent'' i \<lparr>io_in = t3, io_out = out\<rparr> = (Inr i, \<lparr>io_in = t5, io_out = out @ [signal_message J ''commit'' C]\<rparr>)" for out
    using s(2) commit by (simp add: commit_path_def a3 C_def agent_exchange[OF s(2) commit] smooth_def)
  have "t4 = [signal_message J ''commit'' C]" using runA cA run(2) v1 v2 by simp
  then have "fst (run_path v J opt ''viewer'' vin) = Inr i"
    using s(1) by (simp add: runV commit_path_def C_def viewer_exchange[OF s(1) commit] smooth_def)
  then show ?thesis using runA cA by simp
qed

text \<open>There is such a run: each end writes its three messages.\<close>

lemma complete_run:
  assumes J: "faithful_json J" "small_json J" and s: "smooth v" "smooth w" "same_view v opt w opt'"
    and c: "carried J (first_signal v opt)" "carried J (first_signal w opt')"
    and V: "V = first_signal v opt" and A: "A = answer_signal w opt' V"
    and VR: "VR = own_ready v opt V A" and AR: "AR = own_ready w opt' A V" and i: "i = decide_path VR AR"
  shows "run_path v J opt ''viewer'' (outgoing J ''answer'' A AR i) = (Inr i, \<lparr>io_in = [], io_out = outgoing J ''offer'' V VR i\<rparr>)"
    "run_path w J opt' ''agent'' (outgoing J ''offer'' V VR i) = (Inr i, \<lparr>io_in = [], io_out = outgoing J ''answer'' A AR i\<rparr>)"
proof -
  note same = same_view_describes[OF s(3)]
  have dV: "describes v opt V" unfolding V by (rule first_describes)
  have dA: "describes w opt' A" unfolding A answer_signal_def by (simp add: first_describes describes_unavailable)
  have cA: "carried J A"
    using c(2) J(2) by (auto simp: A answer_signal_def carried_def small_json_def unavailable_def plain_signal_def)
  have rV: "read_signal J st (signal_message J st V) = Inr V" for st
    using clean_read[OF J(1)] c(1) describes_valid[OF dV] V by blast
  have rA: "read_signal J st (signal_message J st A) = Inr A" for st
    using clean_read[OF J(1) cA] describes_valid[OF dA] by blast
  have kV: "signal_ok (po_v2 opt) VR" and kA: "signal_ok (po_v2 opt') AR" unfolding VR AR using own_ready_ok dV dA by blast+
  note ready = clean_ready[OF J kV] clean_ready[OF J kA]
  note commit = clean_commit[OF J decide_known[OF kV kA], folded i]
  have needs: "sg_sdp A \<noteq> [] \<Longrightarrow> sg_sdp (first_signal v opt) \<noteq> []" by (auto simp: A V answer_signal_def unavailable_def)
  have vw: "describe v J opt ''viewer'' (signal_message J ''answer'' A # t) = (Inr (V, A), \<lparr>io_in = t, io_out = [signal_message J ''offer'' V]\<rparr>)" for t
    unfolding V using viewer_hears_answer[OF s(1) rA] needs dA same by blast
  have ag: "describe w J opt' ''agent'' (signal_message J ''offer'' V # t) = (Inr (A, V), \<lparr>io_in = t, io_out = [signal_message J ''answer'' A]\<rparr>)" for t
    unfolding A using agent_answers[OF s(2) rV] dV same by blast
  show "run_path v J opt ''viewer'' (outgoing J ''answer'' A AR i) = (Inr i, \<lparr>io_in = [], io_out = outgoing J ''offer'' V VR i\<rparr>)"
    using kA s(1,3) unfolding outgoing_def run_agree[OF vw] VR[symmetric]
    by (simp add: agree_def commit_path_def viewer_exchange[OF s(1) ready(2)] viewer_exchange[OF s(1) commit] i[symmetric]
        signal_ok_def same_view_def smooth_def)
  show "run_path w J opt' ''agent'' (outgoing J ''offer'' V VR i) = (Inr i, \<lparr>io_in = [], io_out = outgoing J ''answer'' A AR i\<rparr>)"
    using kV s(2,3) unfolding outgoing_def run_agree[OF ag] AR[symmetric]
    by (simp add: agree_def commit_path_def agent_exchange[OF s(2) ready(1)] agent_exchange[OF s(2) commit] i[symmetric]
        signal_ok_def same_view_def smooth_def)
qed

text \<open>C28: Two ends without faults that can read each other always come to an agreement: once everything written is delivered both
  report the same path, and it avoids the relay exactly if both had a description to give and both channels opened.\<close>

theorem faultless_ends_agree:
  assumes J: "faithful_json J" "small_json J" and s: "smooth vv" "smooth va" "same_view vv ov va oa"
    and c: "carried J (first_signal vv (normalized ov))" "carried J (first_signal va (normalized oa))"
    and run: "Negotiate vv J ov ''viewer'' vin = (rv, ain)" "Negotiate va J oa ''agent'' ain = (ra, vin)"
  shows "\<exists>i. pr_answer rv = Inr i \<and> pr_answer ra = Inr i
    \<and> (pi_mode i \<noteq> ''relay'' \<longleftrightarrow>
        sg_sdp (first_signal vv (normalized ov)) \<noteq> [] \<and> sg_sdp (first_signal va (normalized oa)) \<noteq> []
        \<and> fst (channel_ready vv (po_ice ov \<noteq> [])) \<and> fst (channel_ready va (po_ice oa \<noteq> [])))"
proof -
  define V A VR AR i where d: "V = first_signal vv (normalized ov)" "A = answer_signal va (normalized oa) V"
    "VR = own_ready vv (normalized ov) V A" "AR = own_ready va (normalized oa) A V" "i = decide_path VR AR"
  have same: "same_view vv (normalized ov) va (normalized oa)" using s(3) by (simp add: same_view_def)
  have viewer: "snd (Negotiate vv J ov ''viewer'' vin) = io_out (snd (run_path vv J (normalized ov) ''viewer'' vin))
      \<and> pr_answer (fst (Negotiate vv J ov ''viewer'' vin)) = fst (run_path vv J (normalized ov) ''viewer'' vin)"
    by (rule Negotiate_smooth[OF s(1)]) simp
  have agent: "snd (Negotiate va J oa ''agent'' ain) = io_out (snd (run_path va J (normalized oa) ''agent'' ain))
      \<and> pr_answer (fst (Negotiate va J oa ''agent'' ain)) = fst (run_path va J (normalized oa) ''agent'' ain)"
    by (rule Negotiate_smooth[OF s(2)]) simp
  have "ain = io_out (snd (run_path vv J (normalized ov) ''viewer'' vin))" "vin = io_out (snd (run_path va J (normalized oa) ''agent'' ain))"
    using run viewer agent by simp_all
  from both_directions[OF J s(1,2) same c this d] have "pr_answer rv = Inr i \<and> pr_answer ra = Inr i"
    using run viewer agent by simp
  moreover have dV: "describes vv (normalized ov) V" and dA: "describes va (normalized oa) A"
    by (simp_all add: d answer_signal_def first_describes describes_unavailable)
  then have "pi_mode i \<noteq> ''relay'' \<longleftrightarrow> sg_ready VR \<and> sg_ready AR" using decide_relay own_ready_ok d by blast
  moreover have "sg_ready VR \<longleftrightarrow> sg_sdp V \<noteq> [] \<and> sg_sdp A \<noteq> [] \<and> fst (channel_ready vv (po_ice ov \<noteq> []))"
    using describes_reason[OF dV] unfolding d(3) by (auto simp: own_ready_def unavailable_def Let_def split: prod.split bool.split)
  moreover have "sg_ready AR \<longleftrightarrow> sg_sdp A \<noteq> [] \<and> sg_sdp V \<noteq> [] \<and> fst (channel_ready va (po_ice oa \<noteq> []))"
    using describes_reason[OF dA] unfolding d(4) by (auto simp: own_ready_def unavailable_def Let_def split: prod.split bool.split)
  moreover have "sg_sdp V \<noteq> [] \<and> sg_sdp A \<noteq> [] \<longleftrightarrow> sg_sdp V \<noteq> [] \<and> sg_sdp (first_signal va (normalized oa)) \<noteq> []"
    by (auto simp: d(2) answer_signal_def unavailable_def)
  ultimately show ?thesis unfolding d(1) by blast
qed

section \<open>A concrete run\<close>

text \<open>A codec with the law of JSON: fields that end with a byte no ASCII string has.\<close>

definition until_mark :: "bytes \<Rightarrow> string \<times> bytes" where
  "until_mark b = (map (\<lambda>w. char_of (unat w)) (takeWhile (\<lambda>w. w \<noteq> 255) b), tl (dropWhile (\<lambda>w. w \<noteq> 255) b))"

definition marked_json :: signal_json where
  "marked_json = \<lparr>sj_marshal = (\<lambda>s. str_bytes (sg_sdp s) @ 255 # str_bytes (pi_mode (sg_info s)) @ 255 #
       str_bytes (pi_reason (sg_info s)) @ [255, if sg_ready s then 1 else 0]),
     sj_unmarshal = (\<lambda>b. case until_mark b of (sdp, b) \<Rightarrow> case until_mark b of (m, b) \<Rightarrow> case until_mark b of (r, b) \<Rightarrow>
       Some \<lparr>sg_sdp = sdp, sg_ready = (b = [1]), sg_info = \<lparr>pi_mode = m, pi_reason = r\<rparr>\<rparr>)\<rparr>"

lemma plain_byte:
  assumes "ord c < 128"
  shows "unat (word_of_nat (ord c) :: byte) = ord c" "(word_of_nat (ord c) :: byte) \<noteq> 255"
proof -
  show u: "unat (word_of_nat (ord c) :: byte) = ord c" using assms by (simp add: unat_of_nat take_bit_nat_eq_self)
  show "(word_of_nat (ord c) :: byte) \<noteq> 255"
  proof
    assume "(word_of_nat (ord c) :: byte) = 255"
    then have "ord c = unat (255 :: byte)" using u by simp
    then show False using assms by simp
  qed
qed

lemma until_mark_plain: "plain s \<Longrightarrow> until_mark (str_bytes s @ 255 # b) = (s, b)"
proof (induction s)
  case (Cons c s)
  then have "until_mark (str_bytes s @ 255 # b) = (s, b)" "ord c < 128" by (simp_all add: plain_def)
  then show ?case using plain_byte[of c] by (simp add: until_mark_def str_bytes_def)
qed (simp add: until_mark_def str_bytes_def)

lemma marked_faithful: "faithful_json marked_json"
  by (simp add: faithful_json_def marked_json_def plain_signal_def until_mark_plain)

lemma marked_small: "small_json marked_json"
  by (simp add: small_json_def marked_json_def str_bytes_def maxSDP_def)

definition sample_env :: path_env where
  "sample_env = \<lparr>pv_uri = (\<lambda>u. Some (''stun'', ''udp'')),
     pv_sdp = (\<lambda>raw. Some \<lparr>sd_attrs = [], sd_media = [(''application'', [(''candidate'', ''1 1 udp''),
       (''fingerprint'', ''sha-256 '' @ concat (replicate 32 ''0a:''))])]\<rparr>),
     pv_cand = (\<lambda>c. Some \<lparr>cd_type = Host, cd_udp = True, cd_address = ''2001:db8::7'', cd_component = 1, cd_port = 7, cd_related = None\<rparr>),
     pv_late = False, pv_mapping = None, pv_connection = True, pv_remote = (\<lambda>sdp. True), pv_gathered = Gathered (Some ''a=candidate:1 1 udp''),
     pv_waited = Opened, pv_failed_then = False,
     pv_pair = Some (\<lparr>pe_type = Host, pe_udp = True, pe_address = ''2001:db8::7''\<rparr>, \<lparr>pe_type = Host, pe_udp = True, pe_address = ''2001:db8::9''\<rparr>),
     pv_failed_last = False, pv_read = (\<lambda>st. True), pv_write = (\<lambda>st. Delivered), pv_clear = True, pv_done = False\<rparr>"

definition sample_options :: path_options where
  "sample_options = DefaultOptions\<lparr>po_v2 := True\<rparr>"

definition sample_info :: path_info where
  "sample_info = \<lparr>pi_mode = ''p2p'', pi_reason = ''ipv6_direct''\<rparr>"

definition sample_run :: "string \<Rightarrow> peer_message list" where
  "sample_run stage = outgoing marked_json stage \<lparr>sg_sdp = ''a=candidate:1 1 udp'', sg_ready = False, sg_info = no_info\<rparr>
     \<lparr>sg_sdp = [], sg_ready = True, sg_info = sample_info\<rparr> sample_info"

definition sample_result :: path_result where
  "sample_result = \<lparr>pr_answer = Inr sample_info, pr_base = True, pr_attempt = True, pr_direct = True\<rparr>"

lemma sample_signal:
  "first_signal sample_env (normalized sample_options) = \<lparr>sg_sdp = ''a=candidate:1 1 udp'', sg_ready = False, sg_info = no_info\<rparr>"
  by code_simp

lemma sample_ready: "own_ready sample_env (normalized sample_options) (first_signal sample_env (normalized sample_options))
    (first_signal sample_env (normalized sample_options)) = \<lparr>sg_sdp = [], sg_ready = True, sg_info = sample_info\<rparr>"
  unfolding sample_signal by code_simp

lemma sample_smooth: "smooth sample_env" by (simp add: smooth_def sample_env_def)

lemma sample_carried: "carried marked_json (first_signal sample_env (normalized sample_options))"
  unfolding sample_signal by (simp add: carried_def marked_json_def str_bytes_def maxSDP_def plain_signal_def no_info_def plain_def)

lemma sample_decides: "decide_path \<lparr>sg_sdp = [], sg_ready = True, sg_info = sample_info\<rparr> \<lparr>sg_sdp = [], sg_ready = True, sg_info = sample_info\<rparr> = sample_info"
  by (simp add: decide_path_def sample_info_def)

lemma sample_runs:
  "Negotiate sample_env marked_json sample_options ''viewer'' (sample_run ''answer'') = (sample_result, sample_run ''offer'')"
  "Negotiate sample_env marked_json sample_options ''agent'' (sample_run ''offer'') = (sample_result, sample_run ''answer'')"
proof -
  have same: "same_view sample_env (normalized sample_options) sample_env (normalized sample_options)" by (simp add: same_view_def)
  have A: "first_signal sample_env (normalized sample_options)
      = answer_signal sample_env (normalized sample_options) (first_signal sample_env (normalized sample_options))"
    by (simp add: answer_signal_def sample_signal)
  note run = complete_run[OF marked_faithful marked_small sample_smooth sample_smooth same sample_carried sample_carried refl A
      sample_ready[symmetric] sample_ready[symmetric] sample_decides[symmetric]]
  show "Negotiate sample_env marked_json sample_options ''viewer'' (sample_run ''answer'') = (sample_result, sample_run ''offer'')"
    "Negotiate sample_env marked_json sample_options ''agent'' (sample_run ''offer'') = (sample_result, sample_run ''answer'')"
    using run sample_smooth unfolding sample_signal
    by (simp_all add: Negotiate_def sample_run_def sample_result_def smooth_def sample_info_def Let_def)
qed

lemma sample_answer: "pr_answer sample_result = Inr sample_info" "pi_mode sample_info = ''p2p''"
  by (simp_all add: sample_result_def sample_info_def)

lemma paths_agree_witness: "path_known sample_info \<and> fst (channel_ready sample_env (po_ice (normalized sample_options) \<noteq> []))"
  using paths_agree[OF marked_faithful sample_runs(1) sample_answer(1) sample_runs(2) sample_answer(1)] sample_answer(2) by simp

lemma negotiated_path_is_real_witness: "\<exists>a b. pv_pair sample_env = Some (a, b) \<and> pe_udp a \<and> pe_udp b \<and> pe_type a \<noteq> Relayed"
  using negotiated_path_is_real[OF sample_runs(1)] sample_answer
  by (auto simp: sample_result_def sample_options_def DefaultOptions_def)

lemma faultless_ends_agree_witness: "\<exists>i. pr_answer sample_result = Inr i \<and> pi_mode i = ''p2p''"
proof -
  have "same_view sample_env sample_options sample_env sample_options" by (simp add: same_view_def)
  from faultless_ends_agree[OF marked_faithful marked_small sample_smooth sample_smooth this sample_carried sample_carried sample_runs]
  show ?thesis using sample_answer by auto
qed

end
