(* ===== verification/PeerSession.thy ===== *)
theory PeerSession
  imports PeerPath "HOL-Library.Sublist"
begin

text \<open>
  The direct connection once it is committed: \<open>dataConn\<close> of \<open>internal/peerpath/conn.go\<close>, which makes a byte stream of the
  messages of a data channel, and \<open>sessionConn\<close> of \<open>tether.go\<close>, which ends the session as soon as either path fails.

  The data channel is a parameter: reliable and in order, as \<open>newAttempt\<close> asks for. What it reports to a write - the amounts
  buffered, a wait that fails, the bytes taken - and to a read is given call by call. The goroutines of the session
  are events, and so are the steps of its clean-up.
\<close>

section \<open>The byte stream\<close>

definition chunkSize :: nat where "chunkSize = 16 * 1024"
definition bufferLimit :: nat where "bufferLimit = 256 * 1024"

datatype stream_error = Closed | Deadline_exceeded | Short_write | Invalid_fragment | Other string

text \<open>What one round of the writing loop meets: the amounts seen while it waits for space, the error of a wait, if the connection
  is closed or late by now, the answer of the channel, and if the connection is closed after it.\<close>

record chunk_round =
  cr_amounts :: "nat list"
  cr_wait :: stream_error
  cr_closed :: bool
  cr_late :: bool
  cr_written :: nat
  cr_gone :: bool
  cr_error :: "stream_error option"

fun has_space :: "nat \<Rightarrow> nat list \<Rightarrow> bool" where
  "has_space n [] = False"
| "has_space n (a # as) = (a + n \<le> bufferLimit \<or> has_space n as)"

text \<open>\<open>ioError\<close>\<close>

definition io_error :: "bool \<Rightarrow> stream_error \<Rightarrow> stream_error" where
  "io_error closed err = (if closed then Closed else err)"

text \<open>The loop of \<open>Write\<close>: the number of bytes, the error, and the messages given to the channel. The channel never takes others
  than it was given.\<close>

function write_chunks :: "(nat \<Rightarrow> chunk_round) \<Rightarrow> nat \<Rightarrow> bytes \<Rightarrow> (nat \<times> stream_error option) \<times> bytes list" where
  "write_chunks rounds k p =
     (if p = [] then ((0, None), [])
      else
        let n = min (length p) chunkSize; r = rounds k in
        if \<not> has_space n (cr_amounts r) then ((0, Some (cr_wait r)), [])
        else if cr_closed r then ((0, Some Closed), [])
        else if cr_late r then ((0, Some Deadline_exceeded), [])
        else
          let w = min (cr_written r) n; msgs = (if w = 0 then [] else [take w p]) in
          case cr_error r of
            Some err \<Rightarrow> ((w, Some (io_error (cr_gone r) err)), msgs)
          | None \<Rightarrow>
              if w \<noteq> n then ((w, Some Short_write), msgs)
              else (case write_chunks rounds (Suc k) (drop w p) of ((m, err), others) \<Rightarrow> ((w + m, err), msgs @ others)))"
  by pat_completeness auto
termination
  by (relation "measure (\<lambda>(_, _, p). length p)") (auto simp: chunkSize_def)

declare write_chunks.simps [simp del]

definition chan_write :: "stream_error option \<Rightarrow> (nat \<Rightarrow> chunk_round) \<Rightarrow> bytes \<Rightarrow> (nat \<times> stream_error option) \<times> bytes list" where
  "chan_write gate rounds p =
     (if p = [] then ((0, None), [])
      else case gate of Some err \<Rightarrow> ((0, Some err), []) | None \<Rightarrow> write_chunks rounds 0 p)"

text \<open>What the channel hands to a read: a message with its kind, or an error.\<close>

datatype raw_read = Raw_message bool bytes | Raw_error stream_error

record data_conn =
  dc_tail :: bytes
  dc_queue :: "raw_read list"
  dc_closed :: bool

text \<open>\<open>Read\<close> into \<open>n\<close> bytes; without anything in the queue it waits until its deadline, here the error \<open>Deadline_exceeded\<close>.\<close>

definition chan_read :: "stream_error option \<Rightarrow> nat \<Rightarrow> data_conn \<Rightarrow> (bytes \<times> stream_error option) \<times> data_conn" where
  "chan_read gate n c =
     (if n = 0 then (([], None), c)
      else case gate of Some err \<Rightarrow> (([], Some err), c)
      | None \<Rightarrow>
        let give = (\<lambda>tail c. ((take n tail, None), c\<lparr>dc_tail := drop n tail\<rparr>)) in
        if dc_tail c \<noteq> [] then give (dc_tail c) c
        else case dc_queue c of
          [] \<Rightarrow> (([], Some (io_error (dc_closed c) Deadline_exceeded)), c)
        | Raw_error err # q \<Rightarrow> (([], Some (io_error (dc_closed c) err)), c\<lparr>dc_queue := q\<rparr>)
        | Raw_message txt d # q \<Rightarrow>
            if txt \<or> d = [] \<or> length d > chunkSize then (([], Some Invalid_fragment), c\<lparr>dc_queue := q\<rparr>)
            else give d (c\<lparr>dc_queue := q\<rparr>))"

text \<open>A sequence of reads, up to the first error.\<close>

fun chan_reads :: "nat list \<Rightarrow> data_conn \<Rightarrow> bytes \<times> data_conn" where
  "chan_reads [] c = ([], c)"
| "chan_reads (n # ns) c =
     (case chan_read None n c of
        ((d, Some err), c) \<Rightarrow> (d, c)
      | ((d, None), c) \<Rightarrow> (case chan_reads ns c of (others, c) \<Rightarrow> (d @ others, c)))"

lemma write_chunks_sends:
  "write_chunks rounds k p = ((m, err), msgs) \<Longrightarrow>
     m \<le> length p \<and> concat msgs = take m p \<and> (err = None \<longrightarrow> m = length p)
     \<and> (\<forall>d \<in> set msgs. d \<noteq> [] \<and> length d \<le> chunkSize)"
proof (induction rounds k p arbitrary: m err msgs rule: write_chunks.induct)
  case (1 rounds k p)
  let ?n = "min (length p) chunkSize" and ?r = "rounds k"
  let ?w = "min (cr_written ?r) ?n"
  show ?case
  proof (cases "p \<noteq> [] \<and> has_space ?n (cr_amounts ?r) \<and> \<not> cr_closed ?r \<and> \<not> cr_late ?r \<and> cr_error ?r = None \<and> ?w = ?n")
    case True
    obtain t e others where rest: "write_chunks rounds (Suc k) (drop ?w p) = ((t, e), others)" by (metis prod.collapse)
    have ih: "t \<le> length (drop ?w p) \<and> concat others = take t (drop ?w p) \<and> (e = None \<longrightarrow> t = length (drop ?w p))
        \<and> (\<forall>d \<in> set others. d \<noteq> [] \<and> length d \<le> chunkSize)"
      using True by (intro "1.IH"[OF _ refl refl _ _ _ refl refl _ _ rest]) auto
    have w: "0 < ?n" using True by (simp add: chunkSize_def)
    have "m = ?w + t" "err = e" "msgs = [take ?w p] @ others"
      using "1.prems" True rest w by (simp_all add: write_chunks.simps[of rounds k p] Let_def split: if_splits)
    then show ?thesis using ih w True by (auto simp: take_add min_def)
  next
    case False
    show ?thesis
    proof (cases "p = []")
      case nonempty: False
      then have n: "?n \<noteq> 0" by (simp add: chunkSize_def)
      show ?thesis using False "1.prems" nonempty n
        by (simp add: write_chunks.simps[of rounds k p] Let_def split: if_splits option.splits) (auto simp: min_def split: if_splits)
    qed (use "1.prems" write_chunks.simps[of rounds k "[]"] in auto)
  qed
qed

text \<open>What is still to come of a channel that was only written to by \<open>Write\<close>.\<close>

fun payload :: "raw_read \<Rightarrow> bytes" where
  "payload (Raw_message txt d) = d"
| "payload (Raw_error err) = []"

definition pending :: "data_conn \<Rightarrow> bytes" where
  "pending c = dc_tail c @ concat (map payload (dc_queue c))"

definition clean_queue :: "data_conn \<Rightarrow> bool" where
  "clean_queue c \<longleftrightarrow> (\<forall>r \<in> set (dc_queue c). \<exists>d. r = Raw_message False d \<and> d \<noteq> [] \<and> length d \<le> chunkSize)"

lemma chan_read_stream:
  assumes "clean_queue c" "chan_read None n c = ((d, err), c')"
  shows "d @ pending c' = pending c \<and> clean_queue c' \<and> length d \<le> n \<and> (0 < n \<and> pending c \<noteq> [] \<longrightarrow> d \<noteq> [] \<and> err = None)"
  using assms
  by (auto simp: chan_read_def pending_def clean_queue_def Let_def split: if_splits list.splits raw_read.splits)

lemma chan_reads_stream:
  assumes "clean_queue c" "chan_reads ns c = (d, c')"
  shows "d @ pending c' = pending c \<and> (list_all (\<lambda>n. 0 < n) ns \<longrightarrow> length ns \<le> length d \<or> d = pending c)"
  using assms
proof (induction ns arbitrary: c d c')
  case (Cons n ns)
  obtain d1 err c1 where r: "chan_read None n c = ((d1, err), c1)" by (metis prod.collapse)
  note one = chan_read_stream[OF Cons.prems(1) r]
  show ?case
  proof (cases err)
    case None
    obtain d2 c2 where rs: "chan_reads ns c1 = (d2, c2)" by force
    have d: "d = d1 @ d2" "c' = c2" using Cons.prems(2) r None rs by simp_all
    have ih: "d2 @ pending c2 = pending c1 \<and> (list_all (\<lambda>n. 0 < n) ns \<longrightarrow> length ns \<le> length d2 \<or> d2 = pending c1)"
      using Cons.IH[OF _ rs] one by blast
    then have "d @ pending c' = pending c" using one d by simp
    moreover have "length (n # ns) \<le> length d \<or> d = pending c" if "list_all (\<lambda>n. 0 < n) (n # ns)"
    proof (cases "d1 = []")
      case True
      then have "pending c = []" using one that by auto
      then show ?thesis using one d ih True by simp
    next
      case False
      then have "Suc 0 \<le> length d1" by (simp add: Suc_le_eq)
      moreover have "length ns \<le> length d2 \<or> d2 = pending c1" using ih that by simp
      ultimately show ?thesis using d one by auto
    qed
    ultimately show ?thesis by blast
  next
    case (Some e)
    then have d: "d = d1" "c' = c1" using Cons.prems(2) r by simp_all
    have "list_all (\<lambda>n. 0 < n) (n # ns) \<longrightarrow> pending c = []" using one Some by auto
    then show ?thesis using one d by auto
  qed
qed simp

text \<open>C27: The data channel carries a byte stream: whatever the channel reports to a write, what the other end reads in pieces of any size
  is a prefix of the bytes written, none lost and none twice, and no longer than the count the writer got; after a write
  without an error enough reads give all of it.\<close>

theorem data_channel_is_a_stream:
  assumes w: "chan_write gate rounds p = ((m, err), msgs)"
    and r: "chan_reads ns \<lparr>dc_tail = [], dc_queue = map (Raw_message False) msgs, dc_closed = False\<rparr> = (d, c)"
  shows "prefix d p \<and> length d \<le> m \<and> (err = None \<and> list_all (\<lambda>n. 0 < n) ns \<and> length p \<le> length ns \<longrightarrow> d = p)"
proof -
  let ?c = "\<lparr>dc_tail = [], dc_queue = map (Raw_message False) msgs, dc_closed = False\<rparr>"
  have s: "m \<le> length p \<and> concat msgs = take m p \<and> (err = None \<longrightarrow> m = length p) \<and> (\<forall>d \<in> set msgs. d \<noteq> [] \<and> length d \<le> chunkSize)"
    using w write_chunks_sends[of rounds 0 p m err msgs] by (auto simp: chan_write_def split: if_splits option.splits)
  have clean: "clean_queue ?c" using s by (auto simp: clean_queue_def)
  have pend: "pending ?c = take m p" using s by (simp add: pending_def comp_def)
  from chan_reads_stream[OF clean r] have d: "d @ pending c = take m p"
    "list_all (\<lambda>n. 0 < n) ns \<longrightarrow> length ns \<le> length d \<or> d = take m p" unfolding pend by simp_all
  have pre: "prefix d (take m p)" using d(1) by (metis prefixI)
  then have len: "length d \<le> m" using prefix_length_le by fastforce
  have "d = p" if "err = None" "list_all (\<lambda>n. 0 < n) ns" "length p \<le> length ns"
  proof -
    have m: "m = length p" using s that(1) by blast
    then have "length p \<le> length d \<or> d = p" using d(2) that(2,3) by auto
    then show ?thesis using pre m by (auto simp: prefix_def)
  qed
  then show ?thesis using pre len by (meson prefix_order.trans take_is_prefix)
qed

lemma data_channel_is_a_stream_witness:
  "prefix (fst (chan_reads [2, 5] \<lparr>dc_tail = [], dc_queue = [Raw_message False [1, 2, 3]], dc_closed = False\<rparr>)) ([1, 2, 3] :: bytes)"
proof -
  let ?round = "\<lparr>cr_amounts = [300000, 7], cr_wait = Closed, cr_closed = False, cr_late = False, cr_written = 9, cr_gone = False, cr_error = None\<rparr>"
  let ?c = "\<lparr>dc_tail = [], dc_queue = map (Raw_message False) [[1, 2, 3]], dc_closed = False\<rparr> :: data_conn"
  have w: "chan_write None (\<lambda>k. ?round) [1, 2, 3] = ((3, None), [[1, 2, 3]])"
    by (simp add: chan_write_def write_chunks.simps Let_def chunkSize_def bufferLimit_def)
  have "chan_reads [2, 5] ?c = (fst (chan_reads [2, 5] ?c), snd (chan_reads [2, 5] ?c))" by simp
  from data_channel_is_a_stream[OF w this] show ?thesis by simp
qed

section \<open>The session over both connections\<close>

text \<open>The state of \<open>sessionConn\<close>: its terminal error, and what the clean-up has not closed yet: the data connection, the relay connection and
  the attempt.\<close>

datatype end_error = Relay_lost | Direct_gone | Context_error | Session_closed

record path_session =
  ps_ended :: "end_error option"
  ps_stream :: bool
  ps_base :: bool
  ps_attempt :: bool

definition newSessionConn :: path_session where
  "newSessionConn = \<lparr>ps_ended = None, ps_stream = True, ps_base = True, ps_attempt = True\<rparr>"

text \<open>\<open>end\<close>; the flag is whether the context has ended.\<close>

definition end_session :: "bool \<Rightarrow> end_error \<Rightarrow> path_session \<Rightarrow> path_session" where
  "end_session ctx err s =
     (case ps_ended s of Some _ \<Rightarrow> s | None \<Rightarrow> s\<lparr>ps_ended := Some (if ctx then Context_error else err)\<rparr>)"

definition alive_message :: "peer_message \<Rightarrow> bool" where
  "alive_message m \<longleftrightarrow> (let h = hdr m in kind h = ''peerpath'' \<and> method h = ''alive'' \<and> msg_id h = [] \<and> params h = [] \<and> data m = []
     \<and> meta h = [] \<and> \<not> ok h \<and> error h = [])"

text \<open>The events: what the reader of the tether met (\<open>None\<close> is an error), a heartbeat that could not be sent, the end of the
  context, the failure of the attempt, a \<open>Read\<close> or \<open>Write\<close> of the application that begins, the answers of the data connection
  to one that is under way, \<open>Close\<close>, and the three steps of the clean-up.\<close>

datatype session_event =
    Tether "peer_message option" | Heartbeat_failed | Context_over | Attempt_failed
  | App_call | Read_returns bytes "stream_error option" | Write_returns nat "stream_error option" | App_close
  | Close_stream | Close_base | Close_attempt

text \<open>\<open>check\<close>: a deadline that has passed is returned, every other error ends the session.\<close>

definition check_error :: "bool \<Rightarrow> stream_error option \<Rightarrow> path_session \<Rightarrow> (end_error + stream_error option) \<times> path_session" where
  "check_error ctx err s =
     (case ps_ended s of Some e \<Rightarrow> (Inl e, s)
      | None \<Rightarrow>
        (case err of
           None \<Rightarrow> (Inr None, s)
         | Some Deadline_exceeded \<Rightarrow> (Inr (Some Deadline_exceeded), s)
         | Some _ \<Rightarrow>
             let s = end_session ctx Direct_gone s
             in (case ps_ended s of Some e \<Rightarrow> (Inl e, s) | None \<Rightarrow> (Inr None, s))))"

text \<open>What a call of the application got: an error at once, or the bytes of a read or the count of a write with an error.\<close>

datatype app_answer = No_answer | Refused_call end_error | Read_gave bytes "end_error + stream_error option" | Write_gave nat "end_error + stream_error option"

fun session_step :: "bool \<Rightarrow> path_session \<Rightarrow> session_event \<Rightarrow> app_answer \<times> path_session" where
  "session_step ctx s (Tether m) =
     (No_answer, case m of None \<Rightarrow> end_session ctx Relay_lost s
      | Some m \<Rightarrow> if alive_message m then s else end_session ctx Relay_lost s)"
| "session_step ctx s Heartbeat_failed = (No_answer, end_session ctx Relay_lost s)"
| "session_step ctx s Context_over = (No_answer, end_session True Context_error s)"
| "session_step ctx s Attempt_failed = (No_answer, end_session ctx Direct_gone s)"
| "session_step ctx s App_call = (case ps_ended s of Some e \<Rightarrow> (Refused_call e, s) | None \<Rightarrow> (No_answer, s))"
| "session_step ctx s (Read_returns d err) = (case check_error ctx err s of (a, s) \<Rightarrow> (Read_gave d a, s))"
| "session_step ctx s (Write_returns n err) = (case check_error ctx err s of (a, s) \<Rightarrow> (Write_gave n a, s))"
| "session_step ctx s App_close = (No_answer, end_session ctx Session_closed s)"
| "session_step ctx s Close_stream = (No_answer, if ps_ended s = None then s else s\<lparr>ps_stream := False\<rparr>)"
| "session_step ctx s Close_base = (No_answer, if ps_ended s = None \<or> ps_stream s then s else s\<lparr>ps_base := False\<rparr>)"
| "session_step ctx s Close_attempt = (No_answer, if ps_ended s = None \<or> ps_base s then s else s\<lparr>ps_attempt := False\<rparr>)"

fun session_run :: "path_session \<Rightarrow> (bool \<times> session_event) list \<Rightarrow> app_answer list \<times> path_session" where
  "session_run s [] = ([], s)"
| "session_run s ((ctx, ev) # evs) =
     (case session_step ctx s ev of (a, s) \<Rightarrow> (case session_run s evs of (as, s) \<Rightarrow> (a # as, s)))"

text \<open>Everything is open until the end, and is closed in order after it.\<close>

definition session_ok :: "path_session \<Rightarrow> bool" where
  "session_ok s \<longleftrightarrow> (ps_ended s = None \<longrightarrow> ps_stream s) \<and> (ps_stream s \<longrightarrow> ps_base s) \<and> (ps_base s \<longrightarrow> ps_attempt s)"

definition session_next :: "path_session \<Rightarrow> bool \<times> session_event \<Rightarrow> path_session" where
  "session_next s ev = snd (session_step (fst ev) s (snd ev))"

lemma session_run_next: "snd (session_run s evs) = foldl session_next s evs"
  by (induction s evs rule: session_run.induct) (auto simp: session_next_def split: prod.splits)

lemma session_step_ok: "session_ok s \<Longrightarrow> session_ok (session_next s ev)"
  by (cases "snd ev") (auto simp: session_next_def session_ok_def end_session_def check_error_def Let_def
      split: option.splits stream_error.splits if_splits)

interpretation path_sessions: event_system session_next session_ok
  by unfold_locales (rule session_step_ok)

text \<open>The events no session survives.\<close>

fun fatal :: "session_event \<Rightarrow> bool" where
  "fatal (Tether m) = (case m of None \<Rightarrow> True | Some m \<Rightarrow> \<not> alive_message m)"
| "fatal (Read_returns d err) = (err \<noteq> None \<and> err \<noteq> Some Deadline_exceeded)"
| "fatal (Write_returns n err) = (err \<noteq> None \<and> err \<noteq> Some Deadline_exceeded)"
| "fatal App_call = False"
| "fatal Close_stream = False"
| "fatal Close_base = False"
| "fatal Close_attempt = False"
| "fatal _ = True"

lemma fatal_ends: "fatal ev \<Longrightarrow> ps_ended (snd (session_step ctx s ev)) \<noteq> None"
  by (cases ev) (auto simp: end_session_def check_error_def Let_def split: option.splits stream_error.splits)

lemma ended_step:
  "ps_ended s = Some e \<Longrightarrow> session_step ctx s ev = (a, s') \<Longrightarrow> ps_ended s' = Some e
     \<and> (a = No_answer \<or> a = Refused_call e \<or> (\<exists>d. a = Read_gave d (Inl e)) \<or> (\<exists>n. a = Write_gave n (Inl e)))"
  by (cases ev) (auto simp: end_session_def check_error_def split: option.splits if_splits)

lemma ended_run:
  "ps_ended s = Some e \<Longrightarrow> session_run s evs = (as, s') \<Longrightarrow> ps_ended s' = Some e
     \<and> (\<forall>a \<in> set as. a = No_answer \<or> a = Refused_call e \<or> (\<exists>d. a = Read_gave d (Inl e)) \<or> (\<exists>n. a = Write_gave n (Inl e)))"
proof (induction evs arbitrary: s as s')
  case (Cons ev evs)
  obtain a s1 where one: "session_step (fst ev) s (snd ev) = (a, s1)" by force
  obtain bs s2 where rest: "session_run s1 evs = (bs, s2)" by force
  have "as = a # bs" "s' = s2" using Cons.prems(2) one rest by (cases ev; simp)+
  then show ?case using ended_step[OF Cons.prems(1) one] Cons.IH[OF _ rest] by auto
qed simp

text \<open>A session has one end. Until something ends it both connections are open; a lost relay, an unexpected message on it, a lost
  channel, the end of the context or a failed read or write ends it, and from then on no call succeeds: all return the
  first error. The relay connection is closed only after the data connection, the attempt after both.\<close>

theorem session_has_one_end:
  assumes run: "session_run newSessionConn (earlier @ (ctx, ev) # later) = (as, s)" and ev: "fatal ev"
  shows "\<exists>e. ps_ended s = Some e \<and> session_ok s
    \<and> (\<forall>a \<in> set (drop (Suc (length earlier)) as). a = No_answer \<or> a = Refused_call e \<or> (\<exists>d. a = Read_gave d (Inl e)) \<or> (\<exists>n. a = Write_gave n (Inl e)))"
proof -
  have split: "session_run s0 (xs @ ys) = (fst (session_run s0 xs) @ fst (session_run (snd (session_run s0 xs)) ys),
      snd (session_run (snd (session_run s0 xs)) ys))" for s0 xs ys
    by (induction s0 xs rule: session_run.induct) (auto split: prod.splits)
  have len: "length (fst (session_run s0 xs)) = length xs" for s0 xs
    by (induction s0 xs rule: session_run.induct) (auto split: prod.splits)
  define s1 where "s1 = snd (session_run newSessionConn earlier)"
  obtain a s2 where one: "session_step ctx s1 ev = (a, s2)" by force
  obtain bs s3 where rest: "session_run s2 later = (bs, s3)" by force
  have all: "as = fst (session_run newSessionConn earlier) @ a # bs" "s = s3"
    using run split[of newSessionConn earlier "(ctx, ev) # later"] one rest by (simp_all add: s1_def)
  obtain e where e: "ps_ended s2 = Some e" using fatal_ends[OF ev, of ctx s1] one by auto
  have "session_ok s"
    using path_sessions.run_keeps[of newSessionConn "earlier @ (ctx, ev) # later"] run session_run_next[of newSessionConn "earlier @ (ctx, ev) # later"]
    by (simp add: session_ok_def newSessionConn_def)
  then show ?thesis using ended_run[OF e rest] all by (simp add: len)
qed

lemma session_has_one_end_witness:
  "ps_ended (snd (session_run newSessionConn [(False, App_call), (False, Tether None), (False, Close_stream), (False, App_call)])) \<noteq> None"
  using session_has_one_end[of "[(False, App_call)]" False "Tether None" "[(False, Close_stream), (False, App_call)]"] by (auto split: prod.splits)

end
