(* ===== verification/Updater.thy ===== *)
theory Updater
  imports RelayClient
begin

text \<open>
  Signed updates (\<open>internal/updater/updater.go\<close>) and the command that applies them (\<open>cmd/yudesk-update/main.go\<close>): the check of
  the manifest, the choice of a file, the download beside the destination and the two renames.

  The files are a map from paths to contents. JSON, \<open>url.Parse\<close> and \<open>path/filepath\<close> are parameters, as are Ed25519 and
  SHA-256 in \<open>primitives\<close>; what the network and the operating system answer is given step by step in \<open>update_env\<close>.
  A version file that could not be written may be left in any state.
\<close>

section \<open>Manifests\<close>

record release_file =
  uf_component :: string
  uf_os :: string
  uf_arch :: string
  uf_url :: string
  uf_sha256 :: string

record manifest =
  mf_version :: string
  mf_published :: int
  mf_files :: "release_file list"
  mf_signature :: string

record manifest_json =
  mj_unmarshal :: "bytes \<Rightarrow> manifest option"
  mj_marshal :: "manifest \<Rightarrow> bytes option"

datatype update_error =
    Bad_manifest | Bad_public_key | Bad_manifest_signature | Wrong_signature | Incomplete_manifest | No_update | Bad_update_hash
  | Bad_url | Http_error | Manifest_too_large | File_too_large | Hash_differs | File_error | Move_failed

text \<open>\<open>base64.StdEncoding\<close>; line ends are skipped.\<close>

definition std_value :: "char \<Rightarrow> nat option" where
  "std_value c = (if c = CHR ''+'' then Some 62 else if c = CHR ''/'' then Some 63
     else if c = CHR ''-'' \<or> c = CHR ''_'' then None else url_value c)"

fun std_values :: "string \<Rightarrow> nat list option" where
  "std_values [] = Some []"
| "std_values (c # cs) = (case (std_value c, std_values cs) of (Some v, Some vs) \<Rightarrow> Some (v # vs) | _ \<Rightarrow> None)"

definition std_decode :: "string \<Rightarrow> bytes option" where
  "std_decode s =
     (let t = filter (\<lambda>c. ord c \<noteq> 10 \<and> ord c \<noteq> 13) s; body = trim_right_char (CHR ''='') t in
      if length t mod 4 \<noteq> 0 \<or> length t - length body > 2 then None
      else map_option (map word_of_nat) (Option.bind (std_values body) octets))"

definition SigningPayload :: "manifest_json \<Rightarrow> manifest \<Rightarrow> bytes option" where
  "SigningPayload J m = mj_marshal J (m\<lparr>mf_signature := []\<rparr>)"

definition Verify :: "primitives \<Rightarrow> manifest_json \<Rightarrow> bytes \<Rightarrow> bytes \<Rightarrow> update_error + manifest" where
  "Verify P J d key =
     (case mj_unmarshal J d of None \<Rightarrow> Inl Bad_manifest
      | Some m \<Rightarrow>
        if length key \<noteq> 32 then Inl Bad_public_key
        else case std_decode (mf_signature m) of None \<Rightarrow> Inl Bad_manifest_signature
        | Some sg \<Rightarrow>
          if length sg \<noteq> 64 then Inl Bad_manifest_signature
          else case SigningPayload J m of None \<Rightarrow> Inl Bad_manifest
          | Some payload \<Rightarrow>
            if \<not> ed_verify P key payload sg then Inl Wrong_signature
            else if trim_space (mf_version m) = [] \<or> mf_files m = [] then Inl Incomplete_manifest
            else Inr m)"

definition expectedHash :: "string \<Rightarrow> update_error + bytes" where
  "expectedHash value =
     (case hex_decode (trim_space value) of None \<Rightarrow> Inl Bad_update_hash
      | Some b \<Rightarrow> if length b \<noteq> 32 then Inl Bad_update_hash else Inr b)"

definition Select :: "manifest \<Rightarrow> string \<Rightarrow> string \<Rightarrow> string \<Rightarrow> update_error + release_file" where
  "Select m component goos goarch =
     (case find (\<lambda>f. uf_component f = component \<and> uf_os f = goos \<and> uf_arch f = goarch) (mf_files m) of
        None \<Rightarrow> Inl No_update
      | Some f \<Rightarrow> (case expectedHash (uf_sha256 f) of Inl e \<Rightarrow> Inl e | Inr _ \<Rightarrow> Inr f))"

section \<open>Download\<close>

text \<open>The parser of URLs gives scheme and host.\<close>

type_synonym url_parser = "string \<Rightarrow> (string \<times> string) option"

definition validateURL :: "url_parser \<Rightarrow> string \<Rightarrow> bool \<Rightarrow> bool" where
  "validateURL parse raw allowHTTP =
     (case parse raw of None \<Rightarrow> False
      | Some (scheme, host) \<Rightarrow> host \<noteq> [] \<and> (scheme = ''https'' \<or> allowHTTP \<and> scheme = ''http''))"

text \<open>A response after its redirects: the URLs the client was sent to, the status and the body with the error its end may have.\<close>

record response =
  rs_redirects :: "string list"
  rs_status :: int
  rs_body :: bytes
  rs_error :: bool

text \<open>The client refuses a redirection that \<open>validateURL\<close> refuses.\<close>

definition fetch_response :: "url_parser \<Rightarrow> bool \<Rightarrow> response option \<Rightarrow> update_error + response" where
  "fetch_response parse allowHTTP r =
     (case r of None \<Rightarrow> Inl Http_error
      | Some r \<Rightarrow>
        if \<not> list_all (\<lambda>u. validateURL parse u allowHTTP) (rs_redirects r) then Inl Http_error
        else if rs_status r \<noteq> 200 then Inl Http_error else Inr r)"

text \<open>Reading at most \<open>limit\<close> bytes: an error beyond the limit is never met.\<close>

definition limited :: "nat \<Rightarrow> response \<Rightarrow> bytes option" where
  "limited limit r = (if rs_error r \<and> length (rs_body r) < limit then None else Some (take limit (rs_body r)))"

definition Fetch :: "url_parser \<Rightarrow> string \<Rightarrow> bool \<Rightarrow> response option \<Rightarrow> update_error + bytes" where
  "Fetch parse raw allowHTTP r =
     (if \<not> validateURL parse raw allowHTTP then Inl Bad_url
      else case fetch_response parse allowHTTP r of Inl e \<Rightarrow> Inl e
      | Inr r \<Rightarrow> (case limited (2 * 2 ^ 20 + 1) r of None \<Rightarrow> Inl Http_error
        | Some d \<Rightarrow> if length d > 2 * 2 ^ 20 then Inl Manifest_too_large else Inr d))"

section \<open>Installing\<close>

type_synonym files = "string \<Rightarrow> bytes option"

definition maxDownloadSize :: nat where "maxDownloadSize = 256 * 2 ^ 20"

record update_env =
  ue_directory :: bool
  ue_temporary :: "string option"
  ue_response :: "response option"
  ue_sync :: bool
  ue_close :: bool
  ue_chmod :: bool
  ue_stat :: bool
  ue_now :: int
  ue_move_old :: bool
  ue_move_new :: bool
  ue_restore :: bool
  ue_remove :: bool
  ue_version :: "bytes option option"

definition rename :: "string \<Rightarrow> string \<Rightarrow> files \<Rightarrow> files" where
  "rename old new fs = (fs(old := None))(new := fs old)"

definition backup_path :: "update_env \<Rightarrow> string \<Rightarrow> string" where
  "backup_path e dest = dest @ ''.backup-'' @ show_int (ue_now e)"

definition drop_temporary :: "update_env \<Rightarrow> string \<Rightarrow> files \<Rightarrow> files" where
  "drop_temporary e tmp fs = (if ue_remove e then fs(tmp := None) else fs)"

text \<open>The two renames, once the download is complete and correct. The result is the backup, empty when there was no file.\<close>

definition place_file :: "update_env \<Rightarrow> string \<Rightarrow> string \<Rightarrow> files \<Rightarrow> (update_error + string) \<times> files" where
  "place_file e tmp dest fs =
     (if \<not> ue_stat e then (Inl File_error, drop_temporary e tmp fs)
      else if fs dest \<noteq> None then
        (if \<not> ue_move_old e then (Inl Move_failed, drop_temporary e tmp fs)
         else
           let fs1 = rename dest (backup_path e dest) fs in
           if ue_move_new e then (Inr (backup_path e dest), rename tmp dest fs1)
           else (Inl File_error, drop_temporary e tmp (if ue_restore e then rename (backup_path e dest) dest fs1 else fs1)))
      else if ue_move_new e then (Inr [], rename tmp dest fs)
      else (Inl File_error, drop_temporary e tmp fs))"

text \<open>\<open>Install\<close>; \<open>os.CreateTemp\<close> makes a new file.\<close>

definition Install ::
  "primitives \<Rightarrow> url_parser \<Rightarrow> update_env \<Rightarrow> release_file \<Rightarrow> string \<Rightarrow> bool \<Rightarrow> files \<Rightarrow> (update_error + string) \<times> files"
where
  "Install P parse e f dest allowHTTP fs =
     (if \<not> validateURL parse (uf_url f) allowHTTP then (Inl Bad_url, fs)
      else case expectedHash (uf_sha256 f) of Inl err \<Rightarrow> (Inl err, fs)
      | Inr expected \<Rightarrow>
        if \<not> ue_directory e then (Inl File_error, fs)
        else case ue_temporary e of None \<Rightarrow> (Inl File_error, fs)
        | Some tmp \<Rightarrow>
          (case fetch_response parse allowHTTP (ue_response e) of
             Inl err \<Rightarrow> (Inl err, drop_temporary e tmp (fs(tmp \<mapsto> [])))
           | Inr r \<Rightarrow>
             let got = take (maxDownloadSize + 1) (rs_body r); fs = fs(tmp \<mapsto> got) in
             case limited (maxDownloadSize + 1) r of None \<Rightarrow> (Inl Http_error, drop_temporary e tmp fs)
             | Some d \<Rightarrow>
               if length d > maxDownloadSize then (Inl File_too_large, drop_temporary e tmp fs)
               else if hash256 P d \<noteq> expected then (Inl Hash_differs, drop_temporary e tmp fs)
               else if \<not> ue_sync e \<or> \<not> ue_close e \<or> \<not> ue_chmod e then (Inl File_error, drop_temporary e tmp fs)
               else place_file e tmp dest fs))"

section \<open>The command\<close>

datatype update_result = Update_failed update_error | Update_checked | Already_current | Updated string

definition version_path :: "string \<Rightarrow> string" where
  "version_path dest = dest @ ''.version''"

definition run_update ::
  "primitives \<Rightarrow> manifest_json \<Rightarrow> url_parser \<Rightarrow> update_env \<Rightarrow> string \<times> response option \<Rightarrow> string \<Rightarrow> string \<times> string \<times> string
     \<Rightarrow> string \<Rightarrow> bool \<Rightarrow> bool \<Rightarrow> (bytes \<Rightarrow> string) \<Rightarrow> files \<Rightarrow> update_result \<times> files"
where
  "run_update P J parse e source keyText target dest allowHTTP checkOnly text fs =
     (case std_decode (trim_space keyText) of None \<Rightarrow> (Update_failed Bad_public_key, fs)
      | Some key \<Rightarrow>
        if length key \<noteq> 32 then (Update_failed Bad_public_key, fs)
        else case Fetch parse (fst source) allowHTTP (snd source) of Inl err \<Rightarrow> (Update_failed err, fs)
        | Inr d \<Rightarrow> (case Verify P J d key of Inl err \<Rightarrow> (Update_failed err, fs)
          | Inr m \<Rightarrow> (case target of (component, goos, goarch) \<Rightarrow>
            case Select m component goos goarch of Inl err \<Rightarrow> (Update_failed err, fs)
            | Inr f \<Rightarrow>
              if checkOnly then (Update_checked, fs)
              else if (case fs (version_path dest) of None \<Rightarrow> False | Some v \<Rightarrow> trim_space (text v) = mf_version m)
              then (Already_current, fs)
              else (case Install P parse e f dest allowHTTP fs of
                  (Inl err, fs) \<Rightarrow> (Update_failed err, fs)
                | (Inr backup, fs) \<Rightarrow>
                    (case ue_version e of
                       None \<Rightarrow> (Updated backup, fs(version_path dest \<mapsto> str_bytes (mf_version m @ [newline])))
                     | Some left \<Rightarrow> (Update_failed File_error, fs(version_path dest := left)))))))"

section \<open>What an update does to the files\<close>

lemma other_paths [simp]:
  "backup_path e dest \<noteq> dest" "version_path dest \<noteq> dest" "backup_path e dest \<noteq> version_path dest"
  "dest \<noteq> backup_path e dest" "dest \<noteq> version_path dest" "version_path dest \<noteq> backup_path e dest"
  by (auto simp: backup_path_def version_path_def)

text \<open>The files after an attempt to install \<open>d\<close> that knows nothing of the check: the program is the old one, the new one, or - when the
  second rename and the way back both failed - only in its backup; no other file has changed.\<close>

definition placed :: "update_env \<Rightarrow> string \<Rightarrow> string \<Rightarrow> bytes \<Rightarrow> files \<Rightarrow> files \<Rightarrow> bool" where
  "placed e tmp dest d fs fs' \<longleftrightarrow>
     (fs' dest = fs dest \<or> fs' dest = Some d \<or> fs' dest = None \<and> \<not> ue_move_new e \<and> \<not> ue_restore e)
     \<and> (fs dest = None \<or> fs' dest = fs dest \<or> fs' (backup_path e dest) = fs dest)
     \<and> (\<forall>p. p \<noteq> dest \<and> p \<noteq> backup_path e dest \<and> p \<noteq> tmp \<longrightarrow> fs' p = fs p)"

lemma place_file_effect:
  assumes "place_file e tmp dest (fs(tmp \<mapsto> d)) = (r, fs')" "tmp \<noteq> dest" "tmp \<noteq> backup_path e dest"
  shows "placed e tmp dest d fs fs' \<and> (\<forall>b. r = Inr b \<longrightarrow> fs' dest = Some d)"
  using assms by (auto simp: place_file_def placed_def rename_def drop_temporary_def Let_def split: if_splits)

lemma limited_body: "limited n r = Some d \<Longrightarrow> d = take n (rs_body r)"
  by (auto simp: limited_def split: if_splits)

lemma placed_refl: "placed e tmp dest d fs fs"
  by (simp add: placed_def)

lemma placed_temporary: "tmp \<noteq> dest \<Longrightarrow> placed e tmp dest d fs (drop_temporary e tmp (fs(tmp := x)))"
  by (simp add: placed_def drop_temporary_def)

lemma Install_effect:
  assumes run: "Install P parse e f dest allowHTTP fs = (r, fs')"
    and tmp: "\<forall>t. ue_temporary e = Some t \<longrightarrow> t \<noteq> dest \<and> t \<noteq> backup_path e dest"
  shows "(\<exists>b. r = Inr b) \<and> (\<exists>t d. ue_temporary e = Some t \<and> placed e t dest d fs fs' \<and> fs' dest = Some d
        \<and> expectedHash (uf_sha256 f) = Inr (hash256 P d) \<and> length d \<le> maxDownloadSize)
    \<or> (\<exists>err. r = Inl err) \<and> (\<exists>t d. (ue_temporary e = Some t \<or> fs' = fs) \<and> placed e t dest d fs fs'
        \<and> (fs' dest = fs dest \<or> fs' dest = None \<and> \<not> ue_move_new e \<and> \<not> ue_restore e))"
proof (cases "ue_temporary e")
  case None
  then show ?thesis using run placed_refl by (auto simp: Install_def split: if_splits sum.splits)
next
  case (Some t)
  then have t: "t \<noteq> dest" "t \<noteq> backup_path e dest" using tmp by auto
  show ?thesis
  proof (cases "\<exists>rs d. fetch_response parse allowHTTP (ue_response e) = Inr rs \<and> limited (maxDownloadSize + 1) rs = Some d
      \<and> length d \<le> maxDownloadSize \<and> expectedHash (uf_sha256 f) = Inr (hash256 P d)
      \<and> place_file e t dest (fs(t \<mapsto> d)) = (r, fs')")
    case True
    then obtain d where d: "length d \<le> maxDownloadSize" "expectedHash (uf_sha256 f) = Inr (hash256 P d)"
      "place_file e t dest (fs(t \<mapsto> d)) = (r, fs')" by blast
    have "r = Inl err \<Longrightarrow> fs' dest = fs dest \<or> fs' dest = None \<and> \<not> ue_move_new e \<and> \<not> ue_restore e" for err
      using d(3) t by (auto simp: place_file_def rename_def drop_temporary_def Let_def split: if_splits)
    then show ?thesis using place_file_effect[OF d(3) t] d(1,2) Some by (cases r) blast+
  next
    case False
    have fails: "(\<exists>err. r = Inl err) \<and> (fs' = fs \<or> (\<exists>x. fs' = drop_temporary e t (fs(t := x))))"
      using run False Some
      by (auto simp: Install_def Let_def dest: limited_body split: if_splits sum.splits option.splits)
    then have "placed e t dest [] fs fs'" "fs' dest = fs dest"
      using placed_refl placed_temporary[OF t(1)] t(1) by (auto simp: drop_temporary_def)
    then show ?thesis using fails Some by blast
  qed
qed

text \<open>What a manifest signed with a key says of the bytes of a program.\<close>

definition genuine :: "primitives \<Rightarrow> manifest_json \<Rightarrow> bytes \<Rightarrow> string \<times> string \<times> string \<Rightarrow> bytes \<Rightarrow> bool" where
  "genuine P J key target d \<longleftrightarrow> (\<exists>m f payload sg. SigningPayload J m = Some payload \<and> std_decode (mf_signature m) = Some sg
     \<and> ed_verify P key payload sg \<and> f \<in> set (mf_files m) \<and> (uf_component f, uf_os f, uf_arch f) = target
     \<and> expectedHash (uf_sha256 f) = Inr (hash256 P d) \<and> length d \<le> maxDownloadSize)"

lemma Verify_Inr: "Verify P J d key = Inr m \<Longrightarrow> \<exists>payload sg. SigningPayload J m = Some payload \<and> std_decode (mf_signature m) = Some sg
    \<and> ed_verify P key payload sg"
  by (auto simp: Verify_def split: if_splits option.splits)

lemma Select_Inr: "Select m c goos arch = Inr f \<Longrightarrow> f \<in> set (mf_files m) \<and> (uf_component f, uf_os f, uf_arch f) = (c, goos, arch)"
  by (auto simp: Select_def find_Some_iff split: option.splits sum.splits)

lemma run_update_installs:
  assumes run: "run_update P J parse e source keyText target dest allowHTTP checkOnly text fs = (res, fs')"
    and key: "std_decode (trim_space keyText) = Some key"
  shows "fs' = fs \<and> (\<forall>b. res \<noteq> Updated b)
    \<or> (\<exists>m f r fs1. Install P parse e f dest allowHTTP fs = (r, fs1) \<and> (\<exists>d. Verify P J d key = Inr m)
        \<and> Select m (fst target) (fst (snd target)) (snd (snd target)) = Inr f \<and> \<not> checkOnly
        \<and> fs' dest = fs1 dest \<and> fs' (backup_path e dest) = fs1 (backup_path e dest) \<and> (\<forall>p. p \<noteq> version_path dest \<longrightarrow> fs' p = fs1 p)
        \<and> (\<forall>b. res = Updated b \<longrightarrow> r = Inr b))"
proof (cases "\<exists>d m f. Fetch parse (fst source) allowHTTP (snd source) = Inr d \<and> Verify P J d key = Inr m
    \<and> Select m (fst target) (fst (snd target)) (snd (snd target)) = Inr f \<and> length key = 32 \<and> \<not> checkOnly
    \<and> \<not> (case fs (version_path dest) of None \<Rightarrow> False | Some v \<Rightarrow> trim_space (text v) = mf_version m)")
  case True
  then obtain d m f where d: "Fetch parse (fst source) allowHTTP (snd source) = Inr d" "Verify P J d key = Inr m"
    "Select m (fst target) (fst (snd target)) (snd (snd target)) = Inr f" "length key = 32" "\<not> checkOnly"
    "\<not> (case fs (version_path dest) of None \<Rightarrow> False | Some v \<Rightarrow> trim_space (text v) = mf_version m)" by blast
  obtain r fs1 where i: "Install P parse e f dest allowHTTP fs = (r, fs1)" by force
  have "(res, fs') = (case r of Inl err \<Rightarrow> (Update_failed err, fs1)
      | Inr b \<Rightarrow> (case ue_version e of None \<Rightarrow> (Updated b, fs1(version_path dest \<mapsto> str_bytes (mf_version m @ [newline])))
        | Some left \<Rightarrow> (Update_failed File_error, fs1(version_path dest := left))))"
    using run key d i by (cases r; cases "ue_version e") (simp_all add: run_update_def case_prod_unfold)
  then have "fs' dest = fs1 dest \<and> fs' (backup_path e dest) = fs1 (backup_path e dest) \<and> (\<forall>p. p \<noteq> version_path dest \<longrightarrow> fs' p = fs1 p)
      \<and> (\<forall>b. res = Updated b \<longrightarrow> r = Inr b)"
    by (auto split: sum.splits option.splits)
  then show ?thesis using i d by blast
next
  case False
  then have "fs' = fs \<and> (\<forall>b. res \<noteq> Updated b)"
    using run key by (simp add: run_update_def case_prod_unfold split: if_splits sum.splits) auto
  then show ?thesis by blast
qed

text \<open>C20: Only a program that a manifest signed with the given key names, with the hash of the manifest, is ever put in place of the
  installed one, and the installed one is never lost: it stays, or is in the backup. The place is empty at the end
  only if the second rename and the way back both failed. A check changes nothing, and no other file is touched.\<close>

theorem updates_are_signed_and_reversible:
  assumes run: "run_update P J parse e source keyText target dest allowHTTP checkOnly text fs = (res, fs')"
    and key: "std_decode (trim_space keyText) = Some key"
    and tmp: "\<forall>t. ue_temporary e = Some t \<longrightarrow> t \<noteq> dest \<and> t \<noteq> backup_path e dest \<and> t \<noteq> version_path dest"
  shows "(fs' dest = fs dest \<or> (\<exists>d. genuine P J key target d \<and> fs' dest = Some d) \<or> fs' dest = None \<and> \<not> ue_move_new e \<and> \<not> ue_restore e)
    \<and> (fs dest \<noteq> None \<longrightarrow> fs' dest = fs dest \<or> fs' (backup_path e dest) = fs dest)
    \<and> ((\<exists>b. res = Updated b) \<longrightarrow> (\<exists>d. genuine P J key target d \<and> fs' dest = Some d))
    \<and> (checkOnly \<longrightarrow> fs' = fs)
    \<and> (\<forall>p. p \<noteq> dest \<and> p \<noteq> backup_path e dest \<and> p \<noteq> version_path dest \<and> Some p \<noteq> ue_temporary e \<longrightarrow> fs' p = fs p)"
proof (cases "fs' = fs \<and> (\<forall>b. res \<noteq> Updated b)")
  case False
  obtain m f r fs1 where i: "Install P parse e f dest allowHTTP fs = (r, fs1)"
    and v: "\<exists>d. Verify P J d key = Inr m" "Select m (fst target) (fst (snd target)) (snd (snd target)) = Inr f" "\<not> checkOnly"
    and after: "fs' dest = fs1 dest" "fs' (backup_path e dest) = fs1 (backup_path e dest)" "\<forall>p. p \<noteq> version_path dest \<longrightarrow> fs' p = fs1 p"
      "\<forall>b. res = Updated b \<longrightarrow> r = Inr b"
    using run_update_installs[OF run key] False by blast
  have genuine: "genuine P J key target d'" if "expectedHash (uf_sha256 f) = Inr (hash256 P d')" "length d' \<le> maxDownloadSize" for d'
    using v(1) Verify_Inr Select_Inr[OF v(2)] that unfolding genuine_def prod.collapse by blast
  have tmp': "\<forall>t. ue_temporary e = Some t \<longrightarrow> t \<noteq> dest \<and> t \<noteq> backup_path e dest" using tmp by blast
  show ?thesis
  proof (cases r)
    case (Inl err)
    then obtain t d' where e: "ue_temporary e = Some t \<or> fs1 = fs" "placed e t dest d' fs fs1"
      "fs1 dest = fs dest \<or> fs1 dest = None \<and> \<not> ue_move_new e \<and> \<not> ue_restore e"
      using Install_effect[OF i tmp'] by blast
    have "\<forall>p. p \<noteq> dest \<and> p \<noteq> backup_path e dest \<and> Some p \<noteq> ue_temporary e \<longrightarrow> fs1 p = fs p"
      using e(1) e(2)[unfolded placed_def] by metis
    moreover have "fs dest \<noteq> None \<longrightarrow> fs1 dest = fs dest \<or> fs1 (backup_path e dest) = fs dest"
      using e(2)[unfolded placed_def] by metis
    moreover have "\<forall>b. res \<noteq> Updated b" using after(4) Inl by blast
    ultimately show ?thesis unfolding after(1,2) using e(3) after(3) v(3) by metis
  next
    case (Inr b)
    then obtain t d' where e: "ue_temporary e = Some t" "placed e t dest d' fs fs1" "fs1 dest = Some d'"
      "expectedHash (uf_sha256 f) = Inr (hash256 P d')" "length d' \<le> maxDownloadSize"
      using Install_effect[OF i tmp'] by blast
    have "\<forall>p. p \<noteq> dest \<and> p \<noteq> backup_path e dest \<and> Some p \<noteq> ue_temporary e \<longrightarrow> fs1 p = fs p"
      using e(1) e(2)[unfolded placed_def] by metis
    moreover have "fs dest \<noteq> None \<longrightarrow> fs1 dest = fs dest \<or> fs1 (backup_path e dest) = fs dest"
      using e(2)[unfolded placed_def] by metis
    moreover have "\<exists>d. genuine P J key target d \<and> fs1 dest = Some d" using genuine[OF e(4,5)] e(3) by blast
    ultimately show ?thesis unfolding after(1,2) using after(3) v(3) by metis
  qed
qed auto

section \<open>A concrete update\<close>

definition sample_file :: release_file where
  "sample_file = \<lparr>uf_component = ''yudesk-agent'', uf_os = ''linux'', uf_arch = ''amd64'', uf_url = ''https://r/x'',
     uf_sha256 = concat (replicate 32 ''00'')\<rparr>"

definition sample_manifest :: manifest where
  "sample_manifest = \<lparr>mf_version = ''2'', mf_published = 0, mf_files = [sample_file], mf_signature = replicate 86 (CHR ''A'') @ ''==''\<rparr>"

definition sample_primitives :: primitives where
  "sample_primitives = \<lparr>hash256 = (\<lambda>d. replicate 32 0), hmac256 = (\<lambda>k d. []), x_public = (\<lambda>k. k), x_valid = (\<lambda>k. True),
     x_shared = (\<lambda>k l. None), ed_sign = (\<lambda>k d. replicate 64 0), ed_verify = (\<lambda>k d s. s = replicate 64 0),
     gcm_seal = (\<lambda>k n d a. d), gcm_open = (\<lambda>k n d a. None)\<rparr>"

definition sample_manifest_json :: manifest_json where
  "sample_manifest_json = \<lparr>mj_unmarshal = (\<lambda>d. Some sample_manifest), mj_marshal = (\<lambda>m. Some (str_bytes (mf_version m)))\<rparr>"

definition sample_response :: response where
  "sample_response = \<lparr>rs_redirects = [], rs_status = 200, rs_body = [7, 7], rs_error = False\<rparr>"

definition sample_update :: update_env where
  "sample_update = \<lparr>ue_directory = True, ue_temporary = Some ''p/.tmp'', ue_response = Some sample_response, ue_sync = True, ue_close = True,
     ue_chmod = True, ue_stat = True, ue_now = 5, ue_move_old = True, ue_move_new = True, ue_restore = True, ue_remove = True, ue_version = None\<rparr>"

definition sample_key :: string where
  "sample_key = replicate 43 (CHR ''A'') @ ''=''"

definition run_sample :: "update_result \<times> files" where
  "run_sample = run_update sample_primitives sample_manifest_json (\<lambda>u. Some (''https'', ''r'')) sample_update (''https://r/m'', Some sample_response)
     sample_key (''yudesk-agent'', ''linux'', ''amd64'') ''p/agent'' False False (\<lambda>v. []) [''p/agent'' \<mapsto> [1]]"

lemma sample_decodes:
  "std_decode (trim_space sample_key) = Some (replicate 32 0)" "std_decode (mf_signature sample_manifest) = Some (replicate 64 0)"
  "expectedHash (uf_sha256 sample_file) = Inr (replicate 32 0)"
  by code_simp+

lemma sample_verifies:
  "Verify sample_primitives sample_manifest_json d (replicate 32 0) = Inr sample_manifest"
  "Select sample_manifest ''yudesk-agent'' ''linux'' ''amd64'' = Inr sample_file"
  using sample_decodes
  by (simp_all add: Verify_def sample_manifest_json_def SigningPayload_def sample_primitives_def Select_def)
     (simp_all add: sample_manifest_def sample_file_def trim_space_def ascii_space_def)

lemma sample_answers:
  "fetch_response (\<lambda>u. Some (''https'', ''r'')) False (Some sample_response) = Inr sample_response"
  "n \<ge> 2 \<Longrightarrow> limited n sample_response = Some [7, 7]" "rs_body sample_response = [7, 7]"
  by (simp_all add: fetch_response_def sample_response_def limited_def)

lemma sample_environment:
  "ue_directory sample_update" "ue_temporary sample_update = Some ''p/.tmp''" "ue_response sample_update = Some sample_response"
  "ue_sync sample_update" "ue_close sample_update" "ue_chmod sample_update" "ue_stat sample_update" "ue_move_old sample_update"
  "ue_move_new sample_update" "ue_version sample_update = None"
  by (simp_all add: sample_update_def)

lemma sample_installs:
  "fst (Install sample_primitives (\<lambda>u. Some (''https'', ''r'')) sample_update sample_file ''p/agent'' False [''p/agent'' \<mapsto> [1]])
     = Inr (backup_path sample_update ''p/agent'')"
proof -
  have "hash256 sample_primitives [7, 7] = replicate 32 0" by (simp add: sample_primitives_def)
  then show ?thesis
    by (simp add: Install_def validateURL_def sample_decodes sample_answers sample_environment place_file_def maxDownloadSize_def Let_def)
qed

lemma sample_is_updated: "fst run_sample = Updated (backup_path sample_update ''p/agent'')"
proof -
  have fetch: "Fetch (\<lambda>u. Some (''https'', ''r'')) ''https://r/m'' False (Some sample_response) = Inr [7, 7]"
    by (simp add: Fetch_def validateURL_def sample_answers)
  obtain fs where "Install sample_primitives (\<lambda>u. Some (''https'', ''r'')) sample_update sample_file ''p/agent'' False [''p/agent'' \<mapsto> [1]]
      = (Inr (backup_path sample_update ''p/agent''), fs)"
    using sample_installs by (metis prod.collapse)
  then show ?thesis
    by (simp add: run_sample_def run_update_def sample_decodes sample_verifies fetch sample_environment version_path_def)
qed

lemma updates_are_signed_and_reversible_witness:
  "\<exists>d. genuine sample_primitives sample_manifest_json (replicate 32 0) (''yudesk-agent'', ''linux'', ''amd64'') d \<and> snd run_sample ''p/agent'' = Some d"
proof -
  have tmp: "\<forall>t. ue_temporary sample_update = Some t \<longrightarrow> t \<noteq> ''p/agent'' \<and> t \<noteq> backup_path sample_update ''p/agent'' \<and> t \<noteq> version_path ''p/agent''"
    by (simp add: sample_update_def backup_path_def version_path_def)
  have "run_update sample_primitives sample_manifest_json (\<lambda>u. Some (''https'', ''r'')) sample_update (''https://r/m'', Some sample_response)
     sample_key (''yudesk-agent'', ''linux'', ''amd64'') ''p/agent'' False False (\<lambda>v. []) [''p/agent'' \<mapsto> [1]] = (fst run_sample, snd run_sample)"
    by (simp add: run_sample_def)
  from updates_are_signed_and_reversible[OF this sample_decodes(1) tmp] show ?thesis using sample_is_updated by blast
qed

end
