(* ===== verification/Natmap.thy ===== *)
theory Natmap
  imports ConferenceTurn
begin

text \<open>
  Port mappings on the local router (\<open>internal/natmap/pcp.go\<close>, \<open>natmap.go\<close>, \<open>lease.go\<close>): the PCP MAP request and the check of the
  reply, the two attempts of an exchange, and \<open>openUDP\<close>, which tries PCP, then UPnP, and gives out one lease.

  Sockets, clocks and the discovery of the gateway are parameters: an attempt says which datagrams arrive and whether
  its read deadline has passed by then. The UPnP exchange is a parameter of \<open>openUDP\<close>, as in the code. An address is
  4 or 16 bytes, the invalid address none.
\<close>

section \<open>Requests and replies\<close>

definition pcpPacketSize :: nat where "pcpPacketSize = 60"

record pcp_reply =
  pcp_lifetime :: "32 word"
  pcp_ip :: bytes
  pcp_port :: "16 word"

datatype pcp_error =
    Bad_parameters | Short_reply | Wrong_opcode | Result_code byte | Foreign_reply | Empty_mapping | Context_ended | Dial_error
  | Send_error | No_reply

text \<open>\<open>Unmap\<close> and \<open>As16\<close> of \<open>netip.Addr\<close>.\<close>

definition unmap :: "bytes \<Rightarrow> bytes" where
  "unmap ip = (case to4 ip of Some v \<Rightarrow> v | None \<Rightarrow> ip)"

definition as16 :: "bytes \<Rightarrow> bytes" where
  "as16 ip = (if length ip = 4 then replicate 10 0 @ [255, 255] @ ip else ip)"

definition marshalPCPMapRequest :: "bytes \<Rightarrow> 16 word \<Rightarrow> 16 word \<Rightarrow> 32 word \<Rightarrow> bytes \<Rightarrow> pcp_error + bytes" where
  "marshalPCPMapRequest ip internal external lifetime nonce =
     (let ip = unmap ip in
      if length ip \<noteq> 4 \<and> length ip \<noteq> 16 \<or> internal = 0 then Inl Bad_parameters
      else Inr ([2, 1, 0, 0] @ be32 lifetime @ as16 ip @ nonce @ [17, 0, 0, 0] @ be16 internal @ be16 external @ replicate 16 0))"

definition byte_range :: "nat \<Rightarrow> nat \<Rightarrow> bytes \<Rightarrow> bytes" where
  "byte_range i j d = take (j - i) (drop i d)"

definition parsePCPMapResponse :: "bytes \<Rightarrow> 16 word \<Rightarrow> 32 word \<Rightarrow> bytes \<Rightarrow> pcp_error + pcp_reply" where
  "parsePCPMapResponse d internal requested nonce =
     (if length d < pcpPacketSize then Inl Short_reply
      else if d ! 0 \<noteq> 2 \<or> d ! 1 \<noteq> 0x81 then Inl Wrong_opcode
      else if d ! 3 \<noteq> 0 then Inl (Result_code (d ! 3))
      else if byte_range 24 36 d \<noteq> nonce \<or> d ! 36 \<noteq> 17 \<or> de16 (byte_range 40 42 d) \<noteq> internal then Inl Foreign_reply
      else
        let ip = unmap (byte_range 44 60 d); external = de16 (byte_range 42 44 d); lifetime = de32 (byte_range 4 8 d) in
        if requested \<noteq> 0 \<and> (is_unspecified ip \<or> external = 0 \<or> lifetime = 0) then Inl Empty_mapping
        else Inr \<lparr>pcp_lifetime = lifetime, pcp_ip = ip, pcp_port = external\<rparr>)"

text \<open>\<open>durationSeconds\<close>\<close>

definition durationSeconds :: "int \<Rightarrow> 32 word" where
  "durationSeconds d =
     (let s = d div 1000000000 in if s < 1 then 1 else if s > 2 ^ 32 - 1 then - 1 else word_of_int s)"

lemma durationSeconds_range: "durationSeconds d \<noteq> 0 \<and> (1000000000 \<le> d \<longrightarrow> uint (durationSeconds d) = min (d div 1000000000) (2 ^ 32 - 1))"
proof -
  have "uint (word_of_int s :: 32 word) = s" if "1 \<le> s" "s \<le> 2 ^ 32 - 1" for s
    using that by (simp add: uint_word_of_int_eq take_bit_int_eq_self)
  moreover from this have "(word_of_int s :: 32 word) \<noteq> 0" if "1 \<le> s" "s \<le> 2 ^ 32 - 1" for s
    using that by (metis uint_0_eq not_one_le_zero)
  ultimately show ?thesis by (auto simp: durationSeconds_def Let_def min_def unsigned_minus_1_eq_mask mask_eq_exp_minus_1)
qed

section \<open>An exchange\<close>

record pcp_attempt =
  pa_over :: bool
  pa_sent :: bool
  pa_reads :: "(bytes \<times> bool) list"

text \<open>The inner loop: a reply, the end of the exchange by a result code, or nothing until the deadline. The buffer holds 1100 bytes.\<close>

fun pcp_reads :: "16 word \<Rightarrow> 32 word \<Rightarrow> bytes \<Rightarrow> (bytes \<times> bool) list \<Rightarrow> pcp_error + pcp_reply option" where
  "pcp_reads internal lifetime nonce [] = Inr None"
| "pcp_reads internal lifetime nonce ((d, late) # ds) =
     (case parsePCPMapResponse (take 1100 d) internal lifetime nonce of
        Inr r \<Rightarrow> Inr (Some r)
      | Inl (Result_code c) \<Rightarrow> Inl (Result_code c)
      | Inl _ \<Rightarrow> if late then Inr None else pcp_reads internal lifetime nonce ds)"

fun pcp_attempts :: "16 word \<Rightarrow> 32 word \<Rightarrow> bytes \<Rightarrow> bool \<Rightarrow> pcp_attempt list \<Rightarrow> pcp_error + pcp_reply" where
  "pcp_attempts internal lifetime nonce over [] = Inl (if over then Context_ended else No_reply)"
| "pcp_attempts internal lifetime nonce over (a # as) =
     (if pa_over a then Inl Context_ended
      else if \<not> pa_sent a then Inl Send_error
      else case pcp_reads internal lifetime nonce (pa_reads a) of
        Inl e \<Rightarrow> Inl e
      | Inr (Some r) \<Rightarrow> Inr r
      | Inr None \<Rightarrow> pcp_attempts internal lifetime nonce over as)"

definition exchangePCPMap ::
  "bytes \<Rightarrow> 16 word \<Rightarrow> 16 word \<Rightarrow> 32 word \<Rightarrow> bytes \<Rightarrow> bool \<Rightarrow> pcp_attempt \<times> pcp_attempt \<Rightarrow> bool \<Rightarrow> pcp_error + pcp_reply"
where
  "exchangePCPMap ip internal external lifetime nonce dialled attempts over =
     (case marshalPCPMapRequest ip internal external lifetime nonce of Inl e \<Rightarrow> Inl e
      | Inr request \<Rightarrow>
          if \<not> dialled then Inl Dial_error
          else pcp_attempts internal lifetime nonce over [fst attempts, snd attempts])"

section \<open>Replies belong to their request\<close>

text \<open>What a router sends by the protocol (RFC 6887, sections 7.2 and 11.1): the header with result, lifetime and epoch, then nonce,
  protocol and internal port of the request, and the mapping.\<close>

definition router_reply :: "byte \<Rightarrow> 32 word \<Rightarrow> 32 word \<Rightarrow> bytes \<Rightarrow> 16 word \<Rightarrow> bytes \<Rightarrow> bytes" where
  "router_reply code lifetime epoch ip port request =
     [2, 0x81, 0, code] @ be32 lifetime @ be32 epoch @ replicate 12 0 @ byte_range 24 36 request @ byte_range 36 40 request @ byte_range 40 42 request
     @ be16 port @ ip"

lemma as16_length: "length ip = 4 \<or> length ip = 16 \<Longrightarrow> length (as16 ip) = 16"
  by (auto simp: as16_def)

lemma reply_fields:
  assumes m: "marshalPCPMapRequest ip internal external lifetime nonce = Inr request" and n: "length nonce = 12" "length xip = 16"
  shows "parsePCPMapResponse (router_reply code life epoch xip port request) internal requested nonce
    = (if code \<noteq> 0 then Inl (Result_code code)
       else if requested \<noteq> 0 \<and> (is_unspecified (unmap xip) \<or> port = 0 \<or> life = 0) then Inl Empty_mapping
       else Inr \<lparr>pcp_lifetime = life, pcp_ip = unmap xip, pcp_port = port\<rparr>)"
proof -
  have request: "request = [2, 1, 0, 0] @ be32 lifetime @ as16 (unmap ip) @ nonce @ [17, 0, 0, 0] @ be16 internal @ be16 external @ replicate 16 0"
    "length (as16 (unmap ip)) = 16"
    using m as16_length by (auto simp: marshalPCPMapRequest_def Let_def split: if_splits)
  have parts: "byte_range 24 36 request = nonce" "byte_range 36 40 request = [17, 0, 0, 0]" "byte_range 40 42 request = be16 internal"
    unfolding request(1) using request(2) n by (simp_all add: byte_range_def be_simps)
  define d where "d = router_reply code life epoch xip port request"
  have d: "d = [2, 0x81, 0, code] @ be32 life @ be32 epoch @ replicate 12 0 @ nonce @ [17, 0, 0, 0] @ be16 internal @ be16 port @ xip"
    by (simp add: d_def router_reply_def parts)
  have fields: "length d = 60" "d ! 0 = 2" "d ! 1 = 0x81" "d ! 3 = code" "byte_range 24 36 d = nonce" "d ! 36 = 17" "byte_range 40 42 d = be16 internal"
    "byte_range 42 44 d = be16 port" "byte_range 44 60 d = xip" "byte_range 4 8 d = be32 life"
    unfolding d using n by (simp_all add: byte_range_def be_simps nth_append)
  show ?thesis unfolding d_def[symmetric] parsePCPMapResponse_def fields pcpPacketSize_def by (simp add: be_simps Let_def)
qed

text \<open>A datagram that answers the request: the right version, code, nonce, protocol and port.\<close>

definition answers :: "bytes \<Rightarrow> 16 word \<Rightarrow> bytes \<Rightarrow> bool" where
  "answers d internal nonce \<longleftrightarrow> pcpPacketSize \<le> length d \<and> d ! 0 = 2 \<and> d ! 1 = 0x81 \<and> d ! 3 = 0
     \<and> byte_range 24 36 d = nonce \<and> d ! 36 = 17 \<and> de16 (byte_range 40 42 d) = internal"

lemma parse_Inr:
  "parsePCPMapResponse d internal requested nonce = Inr r \<Longrightarrow> answers d internal nonce
     \<and> r = \<lparr>pcp_lifetime = de32 (byte_range 4 8 d), pcp_ip = unmap (byte_range 44 60 d), pcp_port = de16 (byte_range 42 44 d)\<rparr>
     \<and> (requested \<noteq> 0 \<longrightarrow> \<not> is_unspecified (pcp_ip r) \<and> pcp_port r \<noteq> 0 \<and> pcp_lifetime r \<noteq> 0)"
  by (auto simp: parsePCPMapResponse_def answers_def Let_def split: if_splits)

lemma pcp_reads_Inr:
  "pcp_reads internal lifetime nonce ds = Inr (Some r) \<Longrightarrow>
     \<exists>d late. (d, late) \<in> set ds \<and> parsePCPMapResponse (take 1100 d) internal lifetime nonce = Inr r"
proof (induction ds)
  case (Cons x ds)
  obtain d late where x: "x = (d, late)" by force
  show ?case
  proof (cases "parsePCPMapResponse (take 1100 d) internal lifetime nonce")
    case (Inl e)
    then have "pcp_reads internal lifetime nonce ds = Inr (Some r)"
      using Cons.prems x by (cases e) (auto split: if_splits)
    then show ?thesis using Cons.IH by auto
  next
    case (Inr r')
    then show ?thesis using Cons.prems x by auto
  qed
qed simp

lemma pcp_attempts_Inr:
  "pcp_attempts internal lifetime nonce over as = Inr r \<Longrightarrow>
     \<exists>a \<in> set as. \<exists>d late. (d, late) \<in> set (pa_reads a) \<and> parsePCPMapResponse (take 1100 d) internal lifetime nonce = Inr r"
proof (induction as)
  case (Cons a as)
  then show ?case using pcp_reads_Inr[of internal lifetime nonce "pa_reads a" r]
    by (auto split: if_splits sum.splits option.splits)
qed simp

text \<open>An error code, in a datagram of the right version and opcode; and a datagram that is passed over, because it came in time, carries no
  error code, and does not answer the request or answers it with an empty mapping.\<close>

definition carries_error :: "bytes \<Rightarrow> bool" where
  "carries_error d \<longleftrightarrow> pcpPacketSize \<le> length d \<and> d ! 0 = 2 \<and> d ! 1 = 0x81 \<and> d ! 3 \<noteq> 0"

definition empty_mapping :: "bytes \<Rightarrow> bool" where
  "empty_mapping d \<longleftrightarrow> is_unspecified (unmap (byte_range 44 60 d)) \<or> de16 (byte_range 42 44 d) = 0 \<or> de32 (byte_range 4 8 d) = 0"

definition passed_over :: "16 word \<Rightarrow> 32 word \<Rightarrow> bytes \<Rightarrow> bytes \<times> bool \<Rightarrow> bool" where
  "passed_over internal lifetime nonce = (\<lambda>(d, late). \<not> late \<and> \<not> carries_error (take 1100 d)
     \<and> (\<not> answers (take 1100 d) internal nonce \<or> lifetime \<noteq> 0 \<and> empty_mapping (take 1100 d)))"

lemma parse_passed_over:
  assumes "\<not> carries_error d" "\<not> answers d internal nonce \<or> lifetime \<noteq> 0 \<and> empty_mapping d"
  shows "\<exists>e. parsePCPMapResponse d internal lifetime nonce = Inl e \<and> (\<forall>c. e \<noteq> Result_code c)"
  using assms by (auto simp: carries_error_def answers_def empty_mapping_def parsePCPMapResponse_def Let_def)

lemma parse_error: "carries_error d \<Longrightarrow> parsePCPMapResponse d internal lifetime nonce = Inl (Result_code (d ! 3))"
  by (simp add: carries_error_def parsePCPMapResponse_def)

lemma pcp_reads_skip:
  "list_all (passed_over internal lifetime nonce) ds \<Longrightarrow> pcp_reads internal lifetime nonce (ds @ es) = pcp_reads internal lifetime nonce es"
proof (induction ds)
  case (Cons x ds)
  obtain d late where x: "x = (d, late)" by force
  then obtain e where "parsePCPMapResponse (take 1100 d) internal lifetime nonce = Inl e" "\<forall>c. e \<noteq> Result_code c"
    using Cons.prems parse_passed_over[of "take 1100 d" internal nonce lifetime] by (auto simp: passed_over_def)
  then show ?case using Cons x by (cases e) (auto simp: passed_over_def)
qed simp

text \<open>C39: A mapping is the one that was asked for: a reply is taken only from a datagram that carries the nonce, the protocol and the port of
  the request and a real mapping. A router that follows the protocol is understood, in the second attempt as in the first, after any number
  of datagrams without an error code that do not answer the request, or answer it with an empty mapping. An error code is not passed
  over: the first datagram that carries one ends the exchange with it, whichever request it answers.\<close>

theorem pcp_reply_belongs_to_request:
  assumes m: "marshalPCPMapRequest ip internal external lifetime nonce = Inr request" and n: "length nonce = 12"
  shows "(\<forall>a b over r. exchangePCPMap ip internal external lifetime nonce True (a, b) over = Inr r \<longrightarrow>
       (\<exists>d late. (d, late) \<in> set (pa_reads a) \<union> set (pa_reads b) \<and> answers (take 1100 d) internal nonce
          \<and> pcp_ip r = unmap (byte_range 44 60 (take 1100 d)) \<and> pcp_port r = de16 (byte_range 42 44 (take 1100 d))
          \<and> (lifetime \<noteq> 0 \<longrightarrow> \<not> is_unspecified (pcp_ip r) \<and> pcp_port r \<noteq> 0 \<and> pcp_lifetime r \<noteq> 0)))
    \<and> (\<forall>a foreign rest late b over life epoch xip port.
         \<not> pa_over a \<and> pa_sent a \<and> list_all (passed_over internal lifetime nonce) foreign \<and> length xip = 16
         \<and> \<not> is_unspecified (unmap xip) \<and> port \<noteq> 0 \<and> life \<noteq> 0
         \<and> pa_reads a = foreign @ (router_reply 0 life epoch xip port request, late) # rest \<longrightarrow>
         exchangePCPMap ip internal external lifetime nonce True (a, b) over = Inr \<lparr>pcp_lifetime = life, pcp_ip = unmap xip, pcp_port = port\<rparr>
         \<and> (\<forall>c. \<not> pa_over c \<and> pa_sent c \<and> list_all (passed_over internal lifetime nonce) (pa_reads c) \<longrightarrow>
             exchangePCPMap ip internal external lifetime nonce True (c, a) over = Inr \<lparr>pcp_lifetime = life, pcp_ip = unmap xip, pcp_port = port\<rparr>))
    \<and> (\<forall>a others d late rest b over.
         \<not> pa_over a \<and> pa_sent a \<and> list_all (passed_over internal lifetime nonce) others \<and> carries_error (take 1100 d)
         \<and> pa_reads a = others @ (d, late) # rest \<longrightarrow>
         exchangePCPMap ip internal external lifetime nonce True (a, b) over = Inl (Result_code (d ! 3)))"
    (is "?only \<and> ?through \<and> ?error")
proof (intro conjI)
  have ex: "exchangePCPMap ip internal external lifetime nonce True (a, b) over = pcp_attempts internal lifetime nonce over [a, b]" for a b over
    by (simp add: exchangePCPMap_def m)
  show ?only
  proof (intro allI impI)
    fix a b over r
    assume "exchangePCPMap ip internal external lifetime nonce True (a, b) over = Inr r"
    then obtain c d late where "c \<in> set [a, b]" "(d, late) \<in> set (pa_reads c)" "parsePCPMapResponse (take 1100 d) internal lifetime nonce = Inr r"
      using pcp_attempts_Inr unfolding ex by blast
    then show "\<exists>d late. (d, late) \<in> set (pa_reads a) \<union> set (pa_reads b) \<and> answers (take 1100 d) internal nonce
          \<and> pcp_ip r = unmap (byte_range 44 60 (take 1100 d)) \<and> pcp_port r = de16 (byte_range 42 44 (take 1100 d))
          \<and> (lifetime \<noteq> 0 \<longrightarrow> \<not> is_unspecified (pcp_ip r) \<and> pcp_port r \<noteq> 0 \<and> pcp_lifetime r \<noteq> 0)"
      using parse_Inr by fastforce
  qed
  show ?through
  proof (intro allI impI, elim conjE)
    fix a :: pcp_attempt and foreign rest late and b :: pcp_attempt and over life epoch xip port
    assume a: "\<not> pa_over a" "pa_sent a" "list_all (passed_over internal lifetime nonce) foreign" "length xip = 16"
      "\<not> is_unspecified (unmap xip)" "port \<noteq> 0" "life \<noteq> 0"
      "pa_reads a = foreign @ (router_reply 0 life epoch xip port request, late) # rest"
    let ?r = "\<lparr>pcp_lifetime = life, pcp_ip = unmap xip, pcp_port = port\<rparr>"
    have "length (router_reply 0 life epoch xip port request) \<le> 1100" using a(4) by (simp add: router_reply_def byte_range_def be_simps)
    then have reads: "pcp_reads internal lifetime nonce (pa_reads a) = Inr (Some ?r)"
      using a reply_fields[OF m n a(4)] by (simp add: pcp_reads_skip)
    have "pcp_reads internal lifetime nonce (pa_reads c) = Inr None" if "list_all (passed_over internal lifetime nonce) (pa_reads c)" for c :: pcp_attempt
      using pcp_reads_skip[OF that, of "[]"] by simp
    then show "exchangePCPMap ip internal external lifetime nonce True (a, b) over = Inr ?r \<and> (\<forall>c. \<not> pa_over c \<and> pa_sent c
        \<and> list_all (passed_over internal lifetime nonce) (pa_reads c) \<longrightarrow> exchangePCPMap ip internal external lifetime nonce True (c, a) over = Inr ?r)"
      unfolding ex using reads a(1,2) by simp
  qed
  show ?error
    unfolding ex by (auto simp: pcp_reads_skip parse_error)
qed

lemma pcp_reply_belongs_to_request_witness:
  "exchangePCPMap [192, 168, 1, 2] 5000 5000 7200 (replicate 12 9) True
     (\<lparr>pa_over = False, pa_sent = True, pa_reads = [([1, 2, 3], False),
        (router_reply 0 7200 0 (replicate 10 0 @ [255, 255, 203, 0, 113, 5]) 5000
           ([2, 1, 0, 0] @ be32 7200 @ as16 [192, 168, 1, 2] @ replicate 12 9 @ [17, 0, 0, 0] @ be16 5000 @ be16 5000 @ replicate 16 0), False)]\<rparr>,
      \<lparr>pa_over = False, pa_sent = True, pa_reads = []\<rparr>) False
   = Inr \<lparr>pcp_lifetime = 7200, pcp_ip = [203, 0, 113, 5], pcp_port = 5000\<rparr>"
proof -
  let ?xip = "replicate 10 0 @ [255, 255, 203, 0, 113, 5] :: bytes"
  have ip: "to4 [192, 168, 1, 2] = Some [192, 168, 1, 2]" "to4 ?xip = Some [203, 0, 113, 5]" by (simp_all add: to4_def numeral_eq_Suc)
  have m: "marshalPCPMapRequest [192, 168, 1, 2] 5000 5000 7200 (replicate 12 9) = Inr ([2, 1, 0, 0] @ be32 7200 @ as16 [192, 168, 1, 2]
      @ replicate 12 9 @ [17, 0, 0, 0] @ be16 5000 @ be16 5000 @ replicate 16 0)"
    by (simp add: marshalPCPMapRequest_def unmap_def ip Let_def)
  have foreign: "list_all (passed_over 5000 7200 (replicate 12 9)) [([1, 2, 3], False)]"
    by (simp add: passed_over_def carries_error_def answers_def pcpPacketSize_def)
  have "([203, 0, 113, 5] :: bytes) \<noteq> replicate 16 0" by (rule notI, drule arg_cong[where f = length]) simp
  then have xip: "length ?xip = 16" "unmap ?xip = [203, 0, 113, 5]" "\<not> is_unspecified (unmap ?xip)"
    by (simp_all add: unmap_def ip is_unspecified_def) (simp_all add: to4_def)
  show ?thesis
    using pcp_reply_belongs_to_request[OF m, THEN conjunct2, THEN conjunct1, rule_format, of "\<lparr>pa_over = False, pa_sent = True, pa_reads = [([1, 2, 3], False),
        (router_reply 0 7200 0 ?xip 5000
           ([2, 1, 0, 0] @ be32 7200 @ as16 [192, 168, 1, 2] @ replicate 12 9 @ [17, 0, 0, 0] @ be16 5000 @ be16 5000 @ replicate 16 0), False)]\<rparr>"
        "[([1, 2, 3], False)]" ?xip 5000 7200 0 False "[]" "\<lparr>pa_over = False, pa_sent = True, pa_reads = []\<rparr>" False, THEN conjunct1]
      foreign xip by simp
qed

text \<open>The result code is looked at before the nonce: an error that a router sent for another request ends the exchange.\<close>

lemma foreign_error_ends_exchange:
  assumes "pcpPacketSize \<le> length d" "length d \<le> 1100" "d ! 0 = 2" "d ! 1 = 0x81" "d ! 3 \<noteq> 0" "byte_range 24 36 d \<noteq> nonce"
  shows "pcp_reads internal lifetime nonce ((d, late) # ds) = Inl (Result_code (d ! 3))"
  using assms by (simp add: parsePCPMapResponse_def pcpPacketSize_def)

section \<open>One lease\<close>

text \<open>\<open>closeOnce\<close>: the function runs at the first call, and every call gives its error.\<close>

record lease =
  le_closed :: bool
  le_error :: "pcp_error option"

definition close_lease :: "pcp_error option \<Rightarrow> lease \<Rightarrow> pcp_error option \<times> lease" where
  "close_lease outcome l = (if le_closed l then (le_error l, l) else (outcome, \<lparr>le_closed = True, le_error = outcome\<rparr>))"

lemma close_lease_once: "le_closed (snd (close_lease a l)) \<and> close_lease b (snd (close_lease a l)) = (fst (close_lease a l), snd (close_lease a l))"
  by (simp add: close_lease_def)

record mapping =
  mp_ip :: bytes
  mp_port :: "16 word"
  mp_lease :: "nat option"

datatype map_error = Not_bound | Loopback_only | No_mapping

text \<open>\<open>boundUDPPort\<close>: port and address of the socket, \<open>None\<close> for a nil socket.\<close>

definition boundUDPPort :: "(int \<times> bytes) option \<Rightarrow> map_error + 16 word" where
  "boundUDPPort socket =
     (case socket of None \<Rightarrow> Inl Not_bound
      | Some (port, ip) \<Rightarrow>
          if port < 1 \<or> port > 65535 then Inl Not_bound
          else if (length ip = 4 \<or> length ip = 16) \<and> \<not> is_unspecified ip \<and> is_loopback ip then Inl Loopback_only
          else Inr (word_of_int port))"

text \<open>The second component is what is still open of the leases.\<close>

definition validateMapping :: "mapping \<Rightarrow> nat set \<Rightarrow> (map_error + mapping) \<times> nat set" where
  "validateMapping m held =
     (if mp_ip m = [] \<or> is_unspecified (mp_ip m) \<or> mp_port m = 0 \<or> mp_lease m = None
      then (Inl No_mapping, case mp_lease m of None \<Rightarrow> held | Some l \<Rightarrow> held - {l})
      else (Inr m, held))"

definition map_lifetime :: "nanos \<Rightarrow> nanos" where
  "map_lifetime l = (let l = (if l \<le> 0 then 3600000000000 else l); l = max l 120000000000 in min l 86400000000000)"

definition pcp_timeout :: "nanos \<Rightarrow> nanos" where
  "pcp_timeout t = (let t = (if t \<le> 0 then 2200000000 else t) in max (min 650000000 (t div 3)) 80000000)"

text \<open>What the gateway's discovery, PCP and UPnP answer: an error is \<open>None\<close>, an invalid gateway has no bytes.\<close>

record gateway_env =
  ge_gateway :: "bytes option"
  ge_pcp :: "mapping option"
  ge_over :: bool
  ge_upnp :: "mapping option"

definition taken :: "mapping option \<Rightarrow> nat set \<Rightarrow> nat set" where
  "taken m held = held \<union> (case m of None \<Rightarrow> {} | Some m \<Rightarrow> set_option (mp_lease m))"

definition openUDP :: "gateway_env \<Rightarrow> (int \<times> bytes) option \<Rightarrow> (map_error + mapping) \<times> nat set" where
  "openUDP e socket =
     (case boundUDPPort socket of Inl err \<Rightarrow> (Inl err, {})
      | Inr port \<Rightarrow>
          (case (if (\<exists>g. ge_gateway e = Some g \<and> g \<noteq> []) then ge_pcp e else None) of
             Some m \<Rightarrow> validateMapping m (taken (Some m) {})
           | None \<Rightarrow>
               if ge_over e then (Inl No_mapping, {})
               else (case ge_upnp e of None \<Rightarrow> (Inl No_mapping, {}) | Some m \<Rightarrow> validateMapping m (taken (Some m) {}))))"

text \<open>A mapping that is given out is complete and its lease is the only open one; an error leaves none.\<close>

lemma openUDP_leases:
  "case openUDP e socket of
     (Inl err, left) \<Rightarrow> left = {}
   | (Inr m, left) \<Rightarrow> (\<exists>l. mp_lease m = Some l \<and> left = {l}) \<and> mp_ip m \<noteq> [] \<and> \<not> is_unspecified (mp_ip m) \<and> mp_port m \<noteq> 0"
  by (auto simp: openUDP_def validateMapping_def taken_def split: sum.splits option.splits if_splits)

lemma map_lifetime_range: "120000000000 \<le> map_lifetime l \<and> map_lifetime l \<le> 86400000000000"
  by (simp add: map_lifetime_def Let_def)

end
