(* ===== verification/UILifecycle.thy ===== *)
theory UILifecycle
  imports Prelude
begin

text \<open>
  When the application ends with its last window (\<open>internal/uilifecycle/tracker.go\<close>): pages attach and detach, and after a detachment that
  leaves none a timer of the grace period decides. Every section under the mutex is an event; the counter of
  generations is a 64-bit word that wraps. \<open>Done\<close> is the flag \<open>tr_done\<close>, calls of the callback are counted.
\<close>

record tracker =
  tr_clients :: nat
  tr_armed :: bool
  tr_generation :: "64 word"
  tr_done :: bool
  tr_calls :: nat
  tr_timers :: "(nanos \<times> 64 word) list"

definition new_tracker :: tracker where
  "new_tracker = \<lparr>tr_clients = 0, tr_armed = False, tr_generation = 0, tr_done = False, tr_calls = 0, tr_timers = []\<rparr>"

definition Attached :: "tracker \<Rightarrow> bool" where
  "Attached t \<longleftrightarrow> tr_clients t > 0"

definition Suspend :: "tracker \<Rightarrow> tracker" where
  "Suspend t = t\<lparr>tr_armed := False, tr_generation := tr_generation t + 1\<rparr>"

text \<open>The start of \<open>ServeHTTP\<close>: the status of a refusal, or the page is attached.\<close>

definition attach_page :: "string \<Rightarrow> bool \<Rightarrow> tracker \<Rightarrow> nat option \<times> tracker" where
  "attach_page meth flusher t =
     (if meth \<noteq> ''GET'' then (Some 405, t)
      else if \<not> flusher then (Some 500, t)
      else (None, t\<lparr>tr_clients := tr_clients t + 1, tr_armed := True, tr_generation := tr_generation t + 1\<rparr>))"

definition detach :: "nanos \<Rightarrow> nanos \<Rightarrow> tracker \<Rightarrow> tracker" where
  "detach grace now t =
     (let t = t\<lparr>tr_clients := tr_clients t - 1, tr_generation := tr_generation t + 1\<rparr>
      in if tr_armed t \<and> tr_clients t = 0 then t\<lparr>tr_timers := tr_timers t @ [(now + grace, tr_generation t)]\<rparr> else t)"

text \<open>The function of the timer; the flag is whether there is a callback.\<close>

definition should_close :: "64 word \<Rightarrow> tracker \<Rightarrow> bool" where
  "should_close g t \<longleftrightarrow> tr_armed t \<and> tr_clients t = 0 \<and> tr_generation t = g"

definition timer_fires :: "bool \<Rightarrow> 64 word \<Rightarrow> tracker \<Rightarrow> tracker" where
  "timer_fires callback g t =
     (if \<not> should_close g t then t
      else if callback then t\<lparr>tr_armed := False, tr_generation := tr_generation t + 1, tr_calls := tr_calls t + 1\<rparr>
      else t\<lparr>tr_done := True\<rparr>)"

text \<open>Events with their times; a timer fires once, at its time or later.\<close>

datatype ui_event = Page string bool | Gone nanos | Hidden | Timer nat nanos

definition ui_step :: "bool \<Rightarrow> nanos \<Rightarrow> tracker \<Rightarrow> ui_event \<Rightarrow> tracker" where
  "ui_step callback grace t ev =
     (case ev of
        Page meth flusher \<Rightarrow> snd (attach_page meth flusher t)
      | Gone now \<Rightarrow> detach grace now t
      | Hidden \<Rightarrow> Suspend t
      | Timer k now \<Rightarrow>
          if k < length (tr_timers t) \<and> fst (tr_timers t ! k) \<le> now
          then (case tr_timers t ! k of (d, g) \<Rightarrow> timer_fires callback g (t\<lparr>tr_timers := take k (tr_timers t) @ drop (Suc k) (tr_timers t)\<rparr>))
          else t)"

definition ui_run :: "bool \<Rightarrow> nanos \<Rightarrow> ui_event list \<Rightarrow> tracker" where
  "ui_run callback grace evs = foldl (ui_step callback grace) new_tracker evs"

text \<open>What has closed: \<open>Done\<close> or the callback.\<close>

definition closings :: "tracker \<Rightarrow> nat" where
  "closings t = (if tr_done t then 1 else 0) + tr_calls t"

lemma ui_run_snoc: "ui_run callback grace (evs @ [ev]) = ui_step callback grace (ui_run callback grace evs) ev"
  by (simp add: ui_run_def)

section \<open>Generations\<close>

text \<open>Events that end a wait.\<close>

definition disturbs :: "ui_event \<Rightarrow> bool" where
  "disturbs ev \<longleftrightarrow> (case ev of Page meth flusher \<Rightarrow> meth = ''GET'' \<and> flusher | Gone now \<Rightarrow> True | Hidden \<Rightarrow> True | Timer k now \<Rightarrow> False)"

text \<open>A step leaves the tracker as it is but for its timers, or makes a new generation.\<close>

lemma ui_step_generation:
  "ui_step callback grace t ev = t' \<Longrightarrow>
     tr_generation t' = tr_generation t + 1
     \<or> \<not> disturbs ev \<and> tr_generation t' = tr_generation t \<and> tr_clients t' = tr_clients t \<and> tr_armed t' = tr_armed t"
  by (auto simp: ui_step_def attach_page_def detach_def Suspend_def timer_fires_def disturbs_def Let_def split: ui_event.splits prod.splits if_splits)

lemma run_generation:
  "\<exists>n \<le> length evs. tr_generation (foldl (ui_step callback grace) t evs) = tr_generation t + word_of_nat n
     \<and> (n = 0 \<longrightarrow> list_all (\<lambda>ev. \<not> disturbs ev) evs)"
proof (induction evs arbitrary: t)
  case (Cons ev evs)
  let ?t = "ui_step callback grace t ev"
  obtain n where n: "n \<le> length evs" "tr_generation (foldl (ui_step callback grace) ?t evs) = tr_generation ?t + word_of_nat n"
    "n = 0 \<longrightarrow> list_all (\<lambda>ev. \<not> disturbs ev) evs" using Cons[of ?t] by blast
  from ui_step_generation[of callback grace t ev ?t, OF refl] show ?case
  proof
    assume "tr_generation ?t = tr_generation t + 1"
    then have "tr_generation (foldl (ui_step callback grace) t (ev # evs)) = tr_generation t + word_of_nat (Suc n)" using n(2) by simp
    then show ?thesis using n(1) by (intro exI[of _ "Suc n"]) simp
  qed (use n in \<open>intro exI[of _ n]; auto\<close>)
qed simp

text \<open>Fewer than \<open>2 ^ 64\<close> events: the same generation means that nothing disturbed the wait.\<close>

lemma same_generation:
  assumes "length evs < 2 ^ 64" "tr_generation (foldl (ui_step callback grace) t evs) = tr_generation t"
  shows "list_all (\<lambda>ev. \<not> disturbs ev) evs"
proof -
  obtain n where n: "n \<le> length evs" "tr_generation (foldl (ui_step callback grace) t evs) = tr_generation t + word_of_nat n"
    "n = 0 \<longrightarrow> list_all (\<lambda>ev. \<not> disturbs ev) evs" using run_generation by blast
  have "(word_of_nat n :: 64 word) = 0" using n(2) assms(2) by simp
  moreover have "unat (word_of_nat n :: 64 word) = n" using n(1) assms(1) by (intro unat_of_nat64) simp
  ultimately have "n = 0" by simp
  then show ?thesis using n(3) by simp
qed

text \<open>Where the timers come from.\<close>

definition origin :: "bool \<Rightarrow> nanos \<Rightarrow> ui_event list \<Rightarrow> nanos \<times> 64 word \<Rightarrow> bool" where
  "origin callback grace evs = (\<lambda>(d, g). \<exists>pre now post. evs = pre @ Gone now # post \<and> d = now + grace
     \<and> g = tr_generation (ui_run callback grace (pre @ [Gone now])) \<and> tr_clients (ui_run callback grace (pre @ [Gone now])) = 0)"

lemma origin_append: "origin callback grace evs x \<Longrightarrow> origin callback grace (evs @ [ev]) x"
  unfolding origin_def by (clarsimp, metis append_Cons append_assoc)

lemma step_timers:
  "x \<in> set (tr_timers (ui_step callback grace t ev)) \<Longrightarrow> x \<in> set (tr_timers t)
     \<or> (\<exists>now. ev = Gone now \<and> x = (now + grace, tr_generation (ui_step callback grace t ev)) \<and> tr_clients (ui_step callback grace t ev) = 0)"
  by (auto simp: ui_step_def attach_page_def detach_def Suspend_def timer_fires_def Let_def
      split: ui_event.splits prod.splits if_splits dest: in_set_takeD in_set_dropD)

lemma timers_origin: "x \<in> set (tr_timers (ui_run callback grace evs)) \<Longrightarrow> origin callback grace evs x"
proof (induction evs rule: rev_induct)
  case Nil
  then show ?case by (simp add: ui_run_def new_tracker_def)
next
  case (snoc ev evs)
  from step_timers[OF snoc.prems[unfolded ui_run_snoc]] show ?case
  proof (elim disjE exE conjE)
    assume "x \<in> set (tr_timers (ui_run callback grace evs))"
    then show ?case using snoc.IH origin_append by blast
  next
    fix now
    assume ev: "ev = Gone now" and x: "x = (now + grace, tr_generation (ui_step callback grace (ui_run callback grace evs) ev))"
      "tr_clients (ui_step callback grace (ui_run callback grace evs) ev) = 0"
    show ?case unfolding origin_def x(1) prod.case
      by (rule exI[of _ evs], rule exI[of _ now], rule exI[of _ "[]"]) (use ev x(2) in \<open>simp add: ui_run_snoc\<close>)
  qed
qed

lemma step_closes:
  assumes "closings (ui_step callback grace t ev) \<noteq> closings t"
  shows "\<exists>k now d g. ev = Timer k now \<and> (d, g) \<in> set (tr_timers t) \<and> d \<le> now \<and> should_close g t"
proof -
  have unchanged: "closings (t\<lparr>tr_timers := x\<rparr>) = closings t" "should_close g (t\<lparr>tr_timers := x\<rparr>) = should_close g t" for x g
    by (simp_all add: closings_def should_close_def)
  obtain k now where ev: "ev = Timer k now"
    using assms by (cases ev) (auto simp: ui_step_def attach_page_def detach_def Suspend_def closings_def Let_def split: if_splits)
  obtain d g where dg: "tr_timers t ! k = (d, g)" by force
  have "k < length (tr_timers t)" "d \<le> now" "should_close g t"
    using assms ev dg by (auto simp: ui_step_def timer_fires_def unchanged split: if_splits)
  then show ?thesis using ev dg by (metis nth_mem)
qed

text \<open>A reload never closes the application: it closes only when a timer fires a full grace period after a page went away that was the
  last one, and in between no page was attached or went away and the window was not hidden - not even for a moment.
  And it does close then, if nothing disturbed it.\<close>

theorem closes_only_after_grace:
  assumes bound: "length evs < 2 ^ 64" and t: "t = ui_run callback grace evs"
  shows "(closings (ui_step callback grace t ev) \<noteq> closings t \<longrightarrow>
       (\<exists>pre since quiet k now. evs = pre @ Gone since # quiet \<and> ev = Timer k now \<and> since + grace \<le> now
          \<and> tr_clients (ui_run callback grace (pre @ [Gone since])) = 0 \<and> \<not> Attached t \<and> list_all (\<lambda>ev. \<not> disturbs ev) quiet))
    \<and> (\<forall>since now. tr_armed t \<and> tr_clients t \<le> 1 \<and> \<not> tr_done t \<and> since + grace \<le> now \<longrightarrow>
         closings (ui_run callback grace (evs @ [Gone since, Timer (length (tr_timers t)) now])) = Suc (closings t))"
proof (intro conjI allI impI)
  assume "closings (ui_step callback grace t ev) \<noteq> closings t"
  then obtain k now d g where f: "ev = Timer k now" "(d, g) \<in> set (tr_timers t)" "d \<le> now" "should_close g t" using step_closes by blast
  obtain pre since quiet where o: "evs = pre @ Gone since # quiet" "d = since + grace"
    "g = tr_generation (ui_run callback grace (pre @ [Gone since]))" "tr_clients (ui_run callback grace (pre @ [Gone since])) = 0"
    using timers_origin f(2) unfolding t by (fastforce simp: origin_def)
  have "t = foldl (ui_step callback grace) (ui_run callback grace (pre @ [Gone since])) quiet"
    by (simp add: t o(1) ui_run_def)
  moreover have "tr_generation t = g" using f(4) by (simp add: should_close_def)
  ultimately have "list_all (\<lambda>ev. \<not> disturbs ev) quiet" using same_generation[of quiet] bound o(1,3) by simp
  then show "\<exists>pre since quiet k now. evs = pre @ Gone since # quiet \<and> ev = Timer k now \<and> since + grace \<le> now
          \<and> tr_clients (ui_run callback grace (pre @ [Gone since])) = 0 \<and> \<not> Attached t \<and> list_all (\<lambda>ev. \<not> disturbs ev) quiet"
    using f o by (intro exI[of _ pre] exI[of _ since] exI[of _ quiet] exI[of _ k] exI[of _ now]) (simp add: Attached_def should_close_def)
next
  fix since now
  assume a: "tr_armed t \<and> tr_clients t \<le> 1 \<and> \<not> tr_done t \<and> since + grace \<le> now"
  have "ui_run callback grace (evs @ [Gone since, Timer (length (tr_timers t)) now])
      = ui_step callback grace (detach grace since t) (Timer (length (tr_timers t)) now)"
    by (simp add: ui_run_def t ui_step_def)
  then show "closings (ui_run callback grace (evs @ [Gone since, Timer (length (tr_timers t)) now])) = Suc (closings t)"
    using a by (simp add: ui_step_def detach_def timer_fires_def should_close_def closings_def Let_def)
qed

lemma closes_only_after_grace_witness:
  "closings (ui_run False 5 ([Page ''GET'' True] @ [Gone 10, Timer 0 15])) = 1"
proof -
  have t: "ui_run False 5 [Page ''GET'' True] = \<lparr>tr_clients = 1, tr_armed = True, tr_generation = 1, tr_done = False, tr_calls = 0, tr_timers = []\<rparr>"
    by (simp add: ui_run_def ui_step_def attach_page_def new_tracker_def)
  then show ?thesis
    using closes_only_after_grace[of "[Page ''GET'' True]" "ui_run False 5 [Page ''GET'' True]" False 5, THEN conjunct2, rule_format, of 10 15]
    by (simp add: closings_def)
qed

end
