(* ===== verification/PortClient.thy ===== *)
theory PortClient
  imports PortMap "HOL-Library.AList"
begin

text \<open>
  Port mappings at the agent: the manager of the FRP client (\<open>internal/portmap/manager.go\<close>) and the requests, answers and updates
  between the management channel and the user (\<open>internal/agentapp/portmap.go\<close>).

  The FRP client is a library: a run of it is a number, with a context that can be cancelled and an end. The critical sections of
  \<open>Update\<close> and \<open>Close\<close>, the cancellation and the wait after them and the end of a run are events of their own; the agent has one
  goroutine that updates, and \<open>Close\<close> comes from another.
  The signature of a configuration, a hash of its JSON, is a parameter.
\<close>

section \<open>Configurations\<close>

record client_map =
  cm_id :: string
  cm_protocol :: string
  cm_local :: int
  cm_remote :: int
  cm_secret :: string

record configuration =
  cf_device :: string
  cf_server :: string
  cf_session :: string
  cf_certificate :: string
  cf_mappings :: "client_map list"

definition normalize_config :: "configuration \<Rightarrow> configuration" where
  "normalize_config c = c\<lparr>cf_device := to_upper (trim_space (cf_device c)), cf_server := trim_space (cf_server c),
     cf_session := trim_space (cf_session c), cf_mappings := sort_key cm_remote (cf_mappings c)\<rparr>"

text \<open>The checks of \<open>run\<close> and what it tells the FRP client: user, server and, for each mapping, name, local and remote port.\<close>

datatype run_error = Bad_server | Bad_server_port | No_certificate | Storage_error | Bad_mapping | Service_error string

record proxy =
  px_name :: string
  px_local_ip :: string
  px_local :: int
  px_remote :: int
  px_meta :: "(string \<times> string) list"

definition mapping_allowed :: "client_map \<Rightarrow> bool" where
  "mapping_allowed m \<longleftrightarrow> cm_protocol m = ''tcp'' \<and> 1 \<le> cm_local m \<and> cm_local m \<le> 65535 \<and> 9000 \<le> cm_remote m \<and> cm_remote m \<le> 9500
     \<and> cm_id m \<noteq> [] \<and> cm_secret m \<noteq> []"

definition proxy_of :: "client_map \<Rightarrow> proxy" where
  "proxy_of m = \<lparr>px_name = ''yudesk-'' @ cm_id m, px_local_ip = ''127.0.0.1'', px_local = cm_local m, px_remote = cm_remote m,
     px_meta = [(''yudesk_map_id'', cm_id m), (''yudesk_map_secret'', cm_secret m)]\<rparr>"

definition run_proxies :: "bool \<Rightarrow> configuration \<Rightarrow> run_error + (string \<times> int) \<times> proxy list" where
  "run_proxies stored c =
     (case SplitHostPort (cf_server c) of None \<Rightarrow> Inl Bad_server
      | Some (host, raw) \<Rightarrow>
        (case parse_int64 raw of None \<Rightarrow> Inl Bad_server_port
         | Some port \<Rightarrow>
           if port < 1 \<or> port > 65535 then Inl Bad_server_port
           else if cf_certificate c = [] then Inl No_certificate
           else if \<not> stored then Inl Storage_error
           else if \<not> list_all mapping_allowed (cf_mappings c) then Inl Bad_mapping
           else Inr ((host, port), map proxy_of (cf_mappings c))))"

lemma run_proxies_local:
  "run_proxies stored c = Inr (server, ps) \<Longrightarrow> p \<in> set ps \<Longrightarrow>
     px_local_ip p = ''127.0.0.1'' \<and> 9000 \<le> px_remote p \<and> px_remote p \<le> 9500 \<and> 1 \<le> px_local p \<and> px_local p \<le> 65535"
  by (auto simp: run_proxies_def mapping_allowed_def proxy_of_def list_all_iff split: option.splits prod.splits if_splits)

section \<open>The manager\<close>

text \<open>Where a call of \<open>Update\<close> or \<open>Close\<close> is: it has left its first critical section with the run it took from the manager, it has cancelled
  that run and waits for it, or it has done waiting.\<close>

datatype update_phase =
    No_update | Cancelling "nat option" string configuration | Waiting "nat option" string configuration | Committing string configuration

datatype close_phase = No_close | Close_cancelling "nat option" | Close_waiting "nat option"

text \<open>A run is named by a number. \<open>ma_cancel\<close> stands for both \<open>cancel\<close> and \<open>done\<close>, which are set and cleared together. \<open>ma_cancelled\<close> are the
  cancelled contexts, \<open>ma_running\<close> the runs whose \<open>done\<close> is still open, \<open>ma_failing\<close> those about to report an error.\<close>

record manager =
  ma_cancel :: "nat option"
  ma_signature :: string
  ma_error :: "run_error option"
  ma_closed :: bool
  ma_next :: nat
  ma_cancelled :: "nat set"
  ma_running :: "nat set"
  ma_failing :: "nat \<Rightarrow> run_error option"
  ma_runs :: "nat \<Rightarrow> string"
  ma_update :: update_phase
  ma_close :: close_phase

definition new_manager :: manager where
  "new_manager = \<lparr>ma_cancel = None, ma_signature = [], ma_error = None, ma_closed = False, ma_next = 0, ma_cancelled = {}, ma_running = {},
     ma_failing = (\<lambda>_. None), ma_runs = (\<lambda>_. []), ma_update = No_update, ma_close = No_close\<rparr>"

text \<open>\<open>Update\<close>: its first critical section, the cancellation after it, the wait of at most three seconds, and the second section with
  the start of the run. The wait ends when the old run has, or with \<open>timeout\<close>.\<close>

definition update_begin :: "(configuration \<Rightarrow> string) \<Rightarrow> configuration \<Rightarrow> manager \<Rightarrow> manager" where
  "update_begin signature c m =
     (let c = normalize_config c; g = signature c in
      if ma_closed m \<or> g = ma_signature m then m
      else m\<lparr>ma_signature := g, ma_cancel := None, ma_error := None, ma_update := Cancelling (ma_cancel m) g c\<rparr>)"

definition update_cancel :: "manager \<Rightarrow> manager" where
  "update_cancel m =
     (case ma_update m of
        Cancelling old g c \<Rightarrow> m\<lparr>ma_cancelled := ma_cancelled m \<union> set_option old, ma_update := Waiting old g c\<rparr>
      | _ \<Rightarrow> m)"

definition still_running :: "nat option \<Rightarrow> manager \<Rightarrow> bool" where
  "still_running old m \<longleftrightarrow> (case old of None \<Rightarrow> False | Some r \<Rightarrow> r \<in> ma_running m)"

definition update_wait :: "bool \<Rightarrow> manager \<Rightarrow> manager" where
  "update_wait timeout m =
     (case ma_update m of
        Waiting old g c \<Rightarrow>
          if still_running old m \<and> \<not> timeout then m
          else if cf_mappings c = [] \<or> cf_server c = [] \<or> cf_session c = [] then m\<lparr>ma_update := No_update\<rparr>
          else m\<lparr>ma_update := Committing g c\<rparr>
      | _ \<Rightarrow> m)"

definition update_commit :: "manager \<Rightarrow> manager" where
  "update_commit m =
     (case ma_update m of
        Committing g c \<Rightarrow>
          if ma_closed m \<or> ma_signature m \<noteq> g then m\<lparr>ma_update := No_update\<rparr>
          else m\<lparr>ma_update := No_update, ma_cancel := Some (ma_next m), ma_next := Suc (ma_next m),
              ma_running := insert (ma_next m) (ma_running m), ma_runs := (ma_runs m)(ma_next m := g)\<rparr>
      | _ \<Rightarrow> m)"

text \<open>\<open>Close\<close>, likewise.\<close>

definition close_manager :: "manager \<Rightarrow> manager" where
  "close_manager m =
     (if ma_closed m then m
      else m\<lparr>ma_closed := True, ma_signature := [], ma_cancel := None, ma_close := Close_cancelling (ma_cancel m)\<rparr>)"

definition close_cancel :: "manager \<Rightarrow> manager" where
  "close_cancel m =
     (case ma_close m of
        Close_cancelling old \<Rightarrow> m\<lparr>ma_cancelled := ma_cancelled m \<union> set_option old, ma_close := Close_waiting old\<rparr>
      | _ \<Rightarrow> m)"

definition close_wait :: "bool \<Rightarrow> manager \<Rightarrow> manager" where
  "close_wait timeout m =
     (case ma_close m of
        Close_waiting old \<Rightarrow> if still_running old m \<and> \<not> timeout then m else m\<lparr>ma_close := No_close\<rparr>
      | _ \<Rightarrow> m)"

text \<open>The client returns. With an error, and if its context is not cancelled by then, the run reports before it is done, and reports
  if its configuration is still the manager's.\<close>

definition run_returns :: "nat \<Rightarrow> run_error option \<Rightarrow> manager \<Rightarrow> manager" where
  "run_returns r err m =
     (if r \<notin> ma_running m \<or> ma_failing m r \<noteq> None then m
      else if err \<noteq> None \<and> r \<notin> ma_cancelled m then m\<lparr>ma_failing := (ma_failing m)(r := err)\<rparr>
      else m\<lparr>ma_running := ma_running m - {r}\<rparr>)"

definition run_reports :: "nat \<Rightarrow> manager \<Rightarrow> manager" where
  "run_reports r m =
     (if r \<notin> ma_running m \<or> ma_failing m r = None then m
      else
        let m = m\<lparr>ma_running := ma_running m - {r}\<rparr> in
        if ma_signature m = ma_runs m r \<and> \<not> ma_closed m then m\<lparr>ma_error := ma_failing m r\<rparr> else m)"

datatype manager_event =
    Update_begins configuration | Update_cancels | Update_waited bool | Update_commits
  | Close_begins | Close_cancels | Close_waited bool
  | Run_returns nat "run_error option" | Run_reports nat

text \<open>One goroutine updates, so an update begins when none is under way. Of several calls of \<open>Close\<close> all but the first return at once.\<close>

fun manager_step :: "(configuration \<Rightarrow> string) \<Rightarrow> manager \<Rightarrow> manager_event \<Rightarrow> manager" where
  "manager_step signature m (Update_begins c) = (if ma_update m = No_update then update_begin signature c m else m)"
| "manager_step signature m Update_cancels = update_cancel m"
| "manager_step signature m (Update_waited timeout) = update_wait timeout m"
| "manager_step signature m Update_commits = update_commit m"
| "manager_step signature m Close_begins = close_manager m"
| "manager_step signature m Close_cancels = close_cancel m"
| "manager_step signature m (Close_waited timeout) = close_wait timeout m"
| "manager_step signature m (Run_returns r err) = run_returns r err m"
| "manager_step signature m (Run_reports r) = run_reports r m"

lemmas manager_ops = update_begin_def update_cancel_def update_wait_def update_commit_def close_manager_def close_cancel_def close_wait_def
  run_returns_def run_reports_def Let_def

text \<open>The runs whose context is not cancelled, and the run that a call under way has taken and cancels in its next step.\<close>

definition live :: "manager \<Rightarrow> nat set" where
  "live m = ma_running m - ma_cancelled m"

definition taken_by_update :: "manager \<Rightarrow> nat set" where
  "taken_by_update m = (case ma_update m of Cancelling old g c \<Rightarrow> set_option old | _ \<Rightarrow> {})"

definition taken_by_close :: "manager \<Rightarrow> nat set" where
  "taken_by_close m = (case ma_close m of Close_cancelling old \<Rightarrow> set_option old | _ \<Rightarrow> {})"

lemmas taken = live_def taken_by_update_def taken_by_close_def

definition manager_ok :: "manager \<Rightarrow> bool" where
  "manager_ok m \<longleftrightarrow> live m \<subseteq> set_option (ma_cancel m) \<union> taken_by_update m \<union> taken_by_close m
     \<and> (ma_closed m \<longrightarrow> ma_cancel m = None) \<and> (\<not> ma_closed m \<longrightarrow> ma_close m = No_close)
     \<and> (\<forall>r \<in> set_option (ma_cancel m). ma_runs m r = ma_signature m)
     \<and> (ma_update m \<noteq> No_update \<longrightarrow> ma_cancel m = None \<and> taken_by_close m = {})"

lemma manager_step_ok: "manager_ok m \<Longrightarrow> manager_ok (manager_step signature m ev)"
  by (cases ev) (auto simp: manager_ok_def taken manager_ops split: option.splits if_splits update_phase.splits close_phase.splits)

interpretation managers: event_system "manager_step signature" manager_ok for signature
  by unfold_locales (rule manager_step_ok)

lemma manager_ok_start: "manager_ok new_manager"
  by (simp add: manager_ok_def taken new_manager_def)

lemma one_live:
  assumes "manager_ok m"
  shows "\<exists>r. live m \<subseteq> {r}"
proof -
  have one: "\<exists>r. set_option x \<subseteq> {r}" for x :: "nat option" by (cases x) auto
  have "\<exists>r. set_option (ma_cancel m) \<union> taken_by_update m \<union> taken_by_close m \<subseteq> {r}"
    using assms one by (cases "ma_update m"; cases "ma_close m"; cases "ma_cancel m") (auto simp: manager_ok_def taken)
  then show ?thesis using assms unfolding manager_ok_def by blast
qed

text \<open>What a closed manager does: nothing starts, and a cancellation that has been done needs not be done again.\<close>

lemma closed_step:
  assumes "ma_closed m"
  shows "ma_closed (manager_step signature m ev)" "ma_next (manager_step signature m ev) = ma_next m"
    "taken_by_update (manager_step signature m ev) \<subseteq> taken_by_update m" "taken_by_close (manager_step signature m ev) \<subseteq> taken_by_close m"
    "ev = Update_cancels \<Longrightarrow> taken_by_update (manager_step signature m ev) = {}" "ev = Close_cancels \<Longrightarrow> taken_by_close (manager_step signature m ev) = {}"
  using assms by (cases ev; auto simp: taken manager_ops split: option.splits update_phase.splits close_phase.splits)+

lemma closed_run:
  assumes "ma_closed m"
  shows "ma_closed (foldl (manager_step signature) m evs) \<and> ma_next (foldl (manager_step signature) m evs) = ma_next m
    \<and> (Update_cancels \<in> set evs \<or> taken_by_update m = {} \<longrightarrow> taken_by_update (foldl (manager_step signature) m evs) = {})
    \<and> (Close_cancels \<in> set evs \<or> taken_by_close m = {} \<longrightarrow> taken_by_close (foldl (manager_step signature) m evs) = {})"
  using assms
proof (induction evs arbitrary: m)
  case (Cons ev evs)
  note step = closed_step[OF Cons.prems, where signature = signature and ev = ev]
  show ?case using Cons.IH[OF step(1)] step(2-6) by auto
qed simp

lemma closes: "Close_begins \<in> set evs \<Longrightarrow> ma_closed (foldl (manager_step signature) m evs)"
proof (induction evs arbitrary: m)
  case (Cons ev evs)
  have "ma_closed (manager_step signature m Close_begins)" by (simp add: close_manager_def)
  then show ?case using Cons closed_run by auto
qed simp

text \<open>Without a timeout an old run is over before the next one starts.\<close>

definition old_run :: "manager \<Rightarrow> nat set" where
  "old_run m = (case ma_update m of Cancelling old g c \<Rightarrow> set_option old | Waiting old g c \<Rightarrow> set_option old | _ \<Rightarrow> {})"

definition alone :: "manager \<Rightarrow> bool" where
  "alone m \<longleftrightarrow> manager_ok m \<and> (\<exists>r. ma_running m \<subseteq> {r})
     \<and> (\<not> ma_closed m \<longrightarrow> ma_running m \<subseteq> set_option (ma_cancel m) \<union> old_run m)"

lemma alone_step:
  assumes "alone m" "ev \<noteq> Update_waited True"
  shows "alone (manager_step signature m ev)"
proof -
  have ok: "manager_ok m" "manager_ok (manager_step signature m ev)" using assms manager_step_ok by (simp_all add: alone_def)
  obtain r where r: "ma_running m \<subseteq> {r}" using assms(1) by (auto simp: alone_def)
  have old: "\<not> ma_closed m \<Longrightarrow> ma_running m \<subseteq> set_option (ma_cancel m) \<union> old_run m" using assms(1) by (simp add: alone_def)
  have "(\<exists>r. ma_running (manager_step signature m ev) \<subseteq> {r})
     \<and> (\<not> ma_closed (manager_step signature m ev)
          \<longrightarrow> ma_running (manager_step signature m ev) \<subseteq> set_option (ma_cancel (manager_step signature m ev)) \<union> old_run (manager_step signature m ev))"
  proof (cases ev)
    case (Update_begins c)
    then show ?thesis using r old by (auto simp: update_begin_def Let_def old_run_def)
  next
    case Update_cancels
    then show ?thesis using r old by (auto simp: update_cancel_def old_run_def split: update_phase.splits)
  next
    case (Update_waited timeout)
    then have "\<not> timeout" using assms(2) by simp
    then show ?thesis using r old Update_waited
      by (auto simp: update_wait_def old_run_def still_running_def split: update_phase.splits option.splits)
  next
    case Update_commits
    show ?thesis
    proof (cases "\<exists>g c. ma_update m = Committing g c \<and> \<not> ma_closed m \<and> ma_signature m = g")
      case True
      then have "ma_running m = {}" using old ok(1) by (auto simp: manager_ok_def old_run_def)
      then show ?thesis using Update_commits True by (auto simp: update_commit_def)
    next
      case False
      then show ?thesis using r old Update_commits by (cases "ma_update m") (auto simp: update_commit_def old_run_def)
    qed
  next
    case Close_begins
    then show ?thesis using r old by (auto simp: close_manager_def)
  next
    case Close_cancels
    then show ?thesis using r old by (cases "ma_close m") (auto simp: close_cancel_def old_run_def)
  next
    case (Close_waited timeout)
    then show ?thesis using r old by (cases "ma_close m") (auto simp: close_wait_def old_run_def)
  next
    case (Run_returns q err)
    then show ?thesis using r old by (auto simp: run_returns_def old_run_def)
  next
    case (Run_reports q)
    then show ?thesis using r old by (auto simp: run_reports_def Let_def old_run_def)
  qed
  then show ?thesis using ok(2) by (simp add: alone_def)
qed

lemma alone_run:
  "alone m \<Longrightarrow> Update_waited True \<notin> set evs \<Longrightarrow> alone (foldl (manager_step signature) m evs)"
proof (induction evs arbitrary: m)
  case (Cons ev evs)
  have "alone (manager_step signature m ev)" using Cons.prems by (intro alone_step) auto
  then show ?case using Cons.IH Cons.prems(2) by simp
qed simp

text \<open>C22: Closing the manager ends every public mapping, in every interleaving of the steps of updates, of \<open>Close\<close> and of the runs. At
  most one run of the FRP client is not cancelled: it is the manager's own, of the newest configuration, or it has been taken by an
  \<open>Update\<close> or a \<open>Close\<close> that cancels it in its next step. After the first section of \<open>Close\<close> no run ever starts, and when it and an update
  under way have done their cancellation, all runs are cancelled for good. A cancelled run may still be on its way out,
  for both calls wait three seconds at most; if no update's wait times out, then no more than one run is there at all.\<close>

theorem closing_ends_every_mapping:
  assumes m: "m = foldl (manager_step signature) new_manager evs"
  shows "finite (live m) \<and> card (live m) \<le> 1
    \<and> (\<forall>r \<in> live m. ma_cancel m = Some r \<and> ma_runs m r = ma_signature m
         \<or> r \<in> ma_cancelled (manager_step signature m Update_cancels) \<or> r \<in> ma_cancelled (manager_step signature m Close_cancels))
    \<and> (Close_begins \<in> set evs \<longrightarrow> (\<forall>more. ma_next (foldl (manager_step signature) m more) = ma_next m
         \<and> (Update_cancels \<in> set more \<and> Close_cancels \<in> set more \<longrightarrow> live (foldl (manager_step signature) m more) = {})))
    \<and> (Update_waited True \<notin> set evs \<longrightarrow> card (ma_running m) \<le> 1)"
proof (intro conjI impI allI)
  have ok: "manager_ok m" using m managers.run_keeps[OF manager_ok_start] by simp
  obtain r where r: "live m \<subseteq> {r}" using one_live[OF ok] by blast
  then show "finite (live m)" "card (live m) \<le> 1" by (auto dest: subset_singletonD finite_subset)
  show "\<forall>r \<in> live m. ma_cancel m = Some r \<and> ma_runs m r = ma_signature m
      \<or> r \<in> ma_cancelled (manager_step signature m Update_cancels) \<or> r \<in> ma_cancelled (manager_step signature m Close_cancels)"
    using ok by (auto simp: manager_ok_def taken update_cancel_def close_cancel_def split: update_phase.splits close_phase.splits)
  show "ma_next (foldl (manager_step signature) m more) = ma_next m" if "Close_begins \<in> set evs" for more
    using closed_run[of m signature more] closes[OF that, of signature new_manager] unfolding m[symmetric] by simp
  show "live (foldl (manager_step signature) m more) = {}"
    if "Close_begins \<in> set evs" "Update_cancels \<in> set more \<and> Close_cancels \<in> set more" for more
    using closed_run[of m signature more] closes[OF that(1), of signature new_manager] that(2) managers.run_keeps[OF ok, of signature more]
    unfolding m[symmetric] by (auto simp: manager_ok_def)
  show "card (ma_running m) \<le> 1" if "Update_waited True \<notin> set evs"
  proof -
    have "alone new_manager" by (simp add: alone_def manager_ok_start) (simp add: new_manager_def)
    then have "alone m" unfolding m using that by (rule alone_run)
    then show ?thesis unfolding alone_def using card_mono[of "{_}"] by (auto dest: subset_singletonD)
  qed
qed

definition sample_configuration :: configuration where
  "sample_configuration = \<lparr>cf_device = ''a'', cf_server = ''h:7000'', cf_session = ''s'', cf_certificate = ''c'',
     cf_mappings = [\<lparr>cm_id = ''1'', cm_protocol = ''tcp'', cm_local = 80, cm_remote = 9000, cm_secret = ''x''\<rparr>]\<rparr>"

text \<open>A run starts; the next update has taken it and not yet cancelled it when \<open>Close\<close> comes; the cancellations follow, and the update
  wants to commit.\<close>

definition sample_updates :: "manager_event list" where
  "sample_updates = [Update_begins sample_configuration, Update_cancels, Update_waited False, Update_commits,
     Update_begins (sample_configuration\<lparr>cf_device := ''b''\<rparr>), Close_begins]"

lemma closing_ends_every_mapping_witness:
  "live (foldl (manager_step cf_device) new_manager sample_updates) = {0}
   \<and> live (foldl (manager_step cf_device) new_manager (sample_updates @ [Close_cancels, Update_cancels, Update_waited True, Update_commits])) = {}"
proof -
  have "normalize_config sample_configuration = sample_configuration\<lparr>cf_device := ''A''\<rparr>"
    "normalize_config (sample_configuration\<lparr>cf_device := ''b''\<rparr>) = sample_configuration\<lparr>cf_device := ''B''\<rparr>" by code_simp+
  then have "live (foldl (manager_step cf_device) new_manager sample_updates) = {0}"
    by (simp add: sample_updates_def new_manager_def manager_ops still_running_def live_def) (simp add: sample_configuration_def)
  moreover have "Close_begins \<in> set sample_updates" by (simp add: sample_updates_def)
  then have "live (foldl (manager_step cf_device) (foldl (manager_step cf_device) new_manager sample_updates)
      [Close_cancels, Update_cancels, Update_waited True, Update_commits]) = {}"
    using closing_ends_every_mapping[OF refl, of cf_device sample_updates, THEN conjunct2, THEN conjunct2, THEN conjunct2, THEN conjunct1]
    by (elim impE allE[of _ "[Close_cancels, Update_cancels, Update_waited True, Update_commits]"]) (assumption, elim conjE impE, simp_all del: foldl_Cons)
  ultimately show ?thesis unfolding foldl_append by blast
qed

section \<open>Requests of the user\<close>

text \<open>\<open>managedPortMaps\<close>. A request waits on a channel of its own, with room for one answer; channels are numbers, \<open>mg_ids\<close> remembers
  the request of each, \<open>mg_sent\<close> what was sent. \<open>mg_slot\<close> is the update that waits for the manager.\<close>

record map_answer =
  an_request :: string
  an_ok :: bool
  an_text :: string

record management =
  mt_server :: string
  mt_session :: string
  mt_certificate :: string
  mt_maps :: "client_map list"
  mt_result :: "map_answer option"

record managed =
  mg_commands :: "command list"
  mg_waiters :: "(string \<times> nat) list"
  mg_ids :: "nat \<Rightarrow> string"
  mg_sent :: "(nat \<times> map_answer) list"
  mg_next :: nat
  mg_maps :: "client_map list"
  mg_server :: string
  mg_session :: string
  mg_certificate :: string
  mg_closed :: bool
  mg_slot :: "configuration option"

definition new_managed :: managed where
  "new_managed = \<lparr>mg_commands = [], mg_waiters = [], mg_ids = (\<lambda>_. []), mg_sent = [], mg_next = 0, mg_maps = [], mg_server = [], mg_session = [],
     mg_certificate = [], mg_closed = False, mg_slot = None\<rparr>"

text \<open>\<open>queueUpdate\<close>: the newest configuration replaces one that still waits.\<close>

definition queueUpdate :: "configuration \<Rightarrow> managed \<Rightarrow> managed" where
  "queueUpdate c p = (if mg_closed p then p else p\<lparr>mg_slot := Some c\<rparr>)"

definition give_answer :: "map_answer option \<Rightarrow> managed \<Rightarrow> managed" where
  "give_answer r p =
     (case r of None \<Rightarrow> p
      | Some a \<Rightarrow> (case map_of (mg_waiters p) (an_request a) of None \<Rightarrow> p
        | Some k \<Rightarrow> p\<lparr>mg_waiters := AList.delete (an_request a) (mg_waiters p), mg_sent := mg_sent p @ [(k, a)]\<rparr>))"

definition apply_management :: "string \<Rightarrow> management \<Rightarrow> managed \<Rightarrow> managed" where
  "apply_management device m p =
     (if mg_closed p then p
      else queueUpdate \<lparr>cf_device = device, cf_server = mt_server m, cf_session = mt_session m, cf_certificate = mt_certificate m,
             cf_mappings = mt_maps m\<rparr>
           (give_answer (mt_result m)
             (p\<lparr>mg_server := mt_server m, mg_session := mt_session m, mg_certificate := mt_certificate m, mg_maps := mt_maps m\<rparr>)))"

definition offline :: "string \<Rightarrow> managed \<Rightarrow> managed" where
  "offline device p =
     (if mg_closed p then p
      else queueUpdate \<lparr>cf_device = device, cf_server = [], cf_session = [], cf_certificate = [], cf_mappings = []\<rparr>
           (p\<lparr>mg_server := [], mg_session := [], mg_certificate := [], mg_maps := []\<rparr>))"

definition nextCommand :: "managed \<Rightarrow> command option \<times> managed" where
  "nextCommand p =
     (if mg_closed p then (None, p)
      else case mg_commands p of [] \<Rightarrow> (None, p) | c # cs \<Rightarrow> (Some c, p\<lparr>mg_commands := cs\<rparr>))"

datatype request_refusal = Stopped | Not_connected | Too_often

definition request_map :: "string \<Rightarrow> command \<Rightarrow> managed \<Rightarrow> (request_refusal + nat) \<times> managed" where
  "request_map i c p =
     (if mg_closed p then (Inl Stopped, p)
      else if mg_server p = [] \<or> mg_session p = [] then (Inl Not_connected, p)
      else if length (mg_commands p) \<ge> 8 then (Inl Too_often, p)
      else (Inr (mg_next p), p\<lparr>mg_waiters := AList.update i (mg_next p) (mg_waiters p), mg_ids := (mg_ids p)(mg_next p := i),
              mg_next := Suc (mg_next p), mg_commands := mg_commands p @ [c\<lparr>c_request := i\<rparr>]\<rparr>))"

definition give_up :: "string \<Rightarrow> managed \<Rightarrow> managed" where
  "give_up i p = p\<lparr>mg_waiters := AList.delete i (mg_waiters p)\<rparr>"

text \<open>\<open>status\<close> shows no secrets.\<close>

definition map_status :: "managed \<Rightarrow> bool \<times> client_map list" where
  "map_status p = (\<not> mg_closed p \<and> mg_server p \<noteq> [] \<and> mg_session p \<noteq> [], map (\<lambda>m. m\<lparr>cm_secret := []\<rparr>) (mg_maps p))"

definition close_managed :: "string \<Rightarrow> managed \<Rightarrow> managed" where
  "close_managed text p =
     (if mg_closed p then p
      else p\<lparr>mg_closed := True, mg_waiters := [],
        mg_sent := mg_sent p @ map (\<lambda>(i, k). (k, \<lparr>an_request = i, an_ok = False, an_text = text\<rparr>)) (mg_waiters p)\<rparr>)"

datatype managed_event =
    Applied string management | Went_offline string | Next_command | Asked string command | Gave_up string | Update_taken | Stop_all string

fun managed_step :: "managed \<Rightarrow> managed_event \<Rightarrow> managed" where
  "managed_step p (Applied device m) = apply_management device m p"
| "managed_step p (Went_offline device) = offline device p"
| "managed_step p Next_command = snd (nextCommand p)"
| "managed_step p (Asked i c) = snd (request_map i c p)"
| "managed_step p (Gave_up i) = give_up i p"
| "managed_step p Update_taken = p\<lparr>mg_slot := None\<rparr>"
| "managed_step p (Stop_all text) = close_managed text p"

text \<open>Channels that wait, and channels that were answered.\<close>

definition managed_ok :: "managed \<Rightarrow> bool" where
  "managed_ok p \<longleftrightarrow> distinct (map fst (mg_waiters p)) \<and> distinct (map fst (mg_sent p))
     \<and> (\<forall>(i, k) \<in> set (mg_waiters p). k < mg_next p \<and> mg_ids p k = i \<and> k \<notin> fst ` set (mg_sent p))
     \<and> (\<forall>(k, a) \<in> set (mg_sent p). k < mg_next p \<and> mg_ids p k = an_request a)
     \<and> length (mg_commands p) \<le> 8 \<and> (mg_closed p \<longrightarrow> mg_waiters p = [])"

lemma waiters_left: "(j, k) \<in> set (AList.delete i xs) \<longleftrightarrow> (j, k) \<in> set xs \<and> j \<noteq> i"
  by (auto simp: AList.delete_eq)

lemma managed_okD:
  assumes "managed_ok p"
  shows "distinct (map fst (mg_waiters p))" "distinct (map fst (mg_sent p))" "length (mg_commands p) \<le> 8"
    "(i, k) \<in> set (mg_waiters p) \<Longrightarrow> k < mg_next p \<and> mg_ids p k = i \<and> k \<notin> fst ` set (mg_sent p)"
    "(k, a) \<in> set (mg_sent p) \<Longrightarrow> k < mg_next p \<and> mg_ids p k = an_request a"
    "mg_closed p \<Longrightarrow> mg_waiters p = []"
  using assms by (auto simp: managed_ok_def)

lemma managed_okI:
  assumes "distinct (map fst (mg_waiters p))" "distinct (map fst (mg_sent p))" "length (mg_commands p) \<le> 8"
    "\<And>i k. (i, k) \<in> set (mg_waiters p) \<Longrightarrow> k < mg_next p \<and> mg_ids p k = i \<and> k \<notin> fst ` set (mg_sent p)"
    "\<And>k a. (k, a) \<in> set (mg_sent p) \<Longrightarrow> k < mg_next p \<and> mg_ids p k = an_request a"
    "mg_closed p \<Longrightarrow> mg_waiters p = []"
  shows "managed_ok p"
  unfolding managed_ok_def using assms by (simp only: case_prod_unfold Ball_def) (metis prod.collapse)

lemma give_up_ok:
  assumes "managed_ok p"
  shows "managed_ok (give_up i p)"
proof (rule managed_okI)
  note d = managed_okD[OF assms]
  show "k < mg_next (give_up i p) \<and> mg_ids (give_up i p) k = j \<and> k \<notin> fst ` set (mg_sent (give_up i p))"
    if "(j, k) \<in> set (mg_waiters (give_up i p))" for j k
    using that d(4)[of j k] by (simp add: give_up_def waiters_left)
qed (use managed_okD[OF assms] in \<open>auto simp: give_up_def AList.distinct_delete\<close>)

lemma give_answer_ok:
  assumes "managed_ok p"
  shows "managed_ok (give_answer r p)"
proof (cases "\<exists>a k. r = Some a \<and> map_of (mg_waiters p) (an_request a) = Some k")
  case True
  then obtain a k where r: "r = Some a" "map_of (mg_waiters p) (an_request a) = Some k" by blast
  note d = managed_okD[OF assms]
  have k: "(an_request a, k) \<in> set (mg_waiters p)" using r(2) by (rule map_of_SomeD)
  have eq: "give_answer r p = p\<lparr>mg_waiters := AList.delete (an_request a) (mg_waiters p), mg_sent := mg_sent p @ [(k, a)]\<rparr>"
    using r by (simp add: give_answer_def)
  have active: "\<not> mg_closed p" using k d(6) by auto
  have "l < mg_next p \<and> mg_ids p l = j \<and> l \<notin> fst ` set (mg_sent p) \<and> l \<noteq> k"
    if "(j, l) \<in> set (AList.delete (an_request a) (mg_waiters p))" for j l
    using that d(4)[of j l] d(4)[OF k] by (auto simp: waiters_left)
  moreover have "distinct (map fst (mg_sent p @ [(k, a)]))" using d(2) d(4)[OF k] by simp
  moreover have "l < mg_next p \<and> mg_ids p l = an_request b" if "(l, b) \<in> set (mg_sent p @ [(k, a)])" for l b
    using that d(5)[of l b] d(4)[OF k] by auto
  ultimately show ?thesis using d(1,3) active unfolding managed_ok_def eq by (auto simp: AList.distinct_delete)
next
  case False
  then show ?thesis using assms by (auto simp: give_answer_def split: option.splits)
qed

lemma update_members: "distinct (map fst xs) \<Longrightarrow> (j, k) \<in> set (AList.update i n xs) \<Longrightarrow> (j, k) = (i, n) \<or> (j, k) \<in> set xs \<and> j \<noteq> i"
  by (induction xs) (force split: if_splits)+

lemma request_ok:
  assumes "managed_ok p"
  shows "managed_ok (snd (request_map i c p))"
proof (cases "mg_closed p \<or> mg_server p = [] \<or> mg_session p = [] \<or> length (mg_commands p) \<ge> 8")
  case False
  note d = managed_okD[OF assms]
  have eq: "snd (request_map i c p) = p\<lparr>mg_waiters := AList.update i (mg_next p) (mg_waiters p), mg_ids := (mg_ids p)(mg_next p := i),
      mg_next := Suc (mg_next p), mg_commands := mg_commands p @ [c\<lparr>c_request := i\<rparr>]\<rparr>"
    using False by (simp add: request_map_def)
  have "k < Suc (mg_next p) \<and> ((mg_ids p)(mg_next p := i)) k = j \<and> k \<notin> fst ` set (mg_sent p)"
    if "(j, k) \<in> set (AList.update i (mg_next p) (mg_waiters p))" for j k
    using update_members[OF d(1) that] d(4)[of j k] d(5)[of "mg_next p"] by auto
  moreover have "k < Suc (mg_next p) \<and> ((mg_ids p)(mg_next p := i)) k = an_request a" if "(k, a) \<in> set (mg_sent p)" for k a
    using d(5)[OF that] by auto
  ultimately show ?thesis using d(1,2) False unfolding eq by (intro managed_okI) (simp_all add: distinct_update)
qed (use assms in \<open>auto simp: request_map_def\<close>)

lemma close_ok:
  assumes "managed_ok p"
  shows "managed_ok (close_managed text p)"
proof (cases "mg_closed p")
  case False
  note d = managed_okD[OF assms]
  define new where "new = map (\<lambda>(i, k). (k, \<lparr>an_request = i, an_ok = False, an_text = text\<rparr>)) (mg_waiters p)"
  have eq: "close_managed text p = p\<lparr>mg_closed := True, mg_waiters := [], mg_sent := mg_sent p @ new\<rparr>"
    using False by (simp add: close_managed_def new_def)
  have "inj_on snd (set (mg_waiters p))"
    using d(4) by (intro inj_onI) (metis prod.collapse)
  moreover have "map fst new = map snd (mg_waiters p)" by (simp add: new_def comp_def case_prod_unfold)
  ultimately have "distinct (map fst new)" using d(1) by (simp only: distinct_map)
  moreover have "fst ` set new \<inter> fst ` set (mg_sent p) = {}" using d(4) by (force simp: new_def)
  moreover have "k < mg_next p \<and> mg_ids p k = an_request a" if "(k, a) \<in> set (mg_sent p @ new)" for k a
    using that d(4,5) by (fastforce simp: new_def)
  ultimately show ?thesis using d(2,3) unfolding eq by (intro managed_okI) auto
qed (use assms in \<open>simp add: close_managed_def\<close>)

lemma managed_step_ok: "managed_ok p \<Longrightarrow> managed_ok (managed_step p ev)"
proof (cases ev)
  case (Applied device m)
  assume ok: "managed_ok p"
  have "managed_ok (p\<lparr>mg_server := s, mg_session := t, mg_certificate := u, mg_maps := v\<rparr>)" for s t u v
    using ok by (simp add: managed_ok_def)
  then have "managed_ok (give_answer (mt_result m) (p\<lparr>mg_server := mt_server m, mg_session := mt_session m,
      mg_certificate := mt_certificate m, mg_maps := mt_maps m\<rparr>))" by (rule give_answer_ok)
  moreover have "managed_ok q \<Longrightarrow> managed_ok (queueUpdate c q)" for q c by (simp add: managed_ok_def queueUpdate_def)
  ultimately show ?thesis using Applied ok by (simp add: apply_management_def)
next
  case Next_command
  assume "managed_ok p"
  then show ?thesis using Next_command by (auto simp: managed_ok_def nextCommand_def split: list.split)
qed (auto simp: give_up_ok request_ok close_ok, auto simp: managed_ok_def offline_def queueUpdate_def)

interpretation requests: event_system managed_step managed_ok
  by unfold_locales (rule managed_step_ok)

text \<open>Every request gets at most one answer, its own, so no send blocks; no more than eight commands wait.\<close>

lemma requests_answered_once:
  "managed_ok (foldl managed_step new_managed evs)"
  by (rule requests.run_keeps) (simp add: managed_ok_def new_managed_def)

end
