(* ===== verification/FilePermission.thy ===== *)
theory FilePermission
  imports FileTransfer_Flow
begin

text \<open>
  The local user's permission for file transfers (\<open>internal/agentapp/file_permission.go\<close>): how it is read and stored, and how a change
  reaches the sessions, each with its own manager of \<open>FileTransfer\<close> on the same files. The counter of changes is a 64-bit word.
  The critical sections of \<open>fileMu\<close> are the events.
\<close>

section \<open>The permission\<close>

record permission =
  fp_dir :: string
  fp_consent :: bool
  fp_enabled :: bool
  fp_stored :: bool
  fp_file :: "bool option"
  fp_epoch :: "64 word"

text \<open>What is found of the stored permission.\<close>

datatype stored_permission = Not_stored | Unreadable | Corrupt | Stored bool

datatype permission_error = No_home | Read_error | Corrupt_permission | Bad_directory | No_directory | Write_error

text \<open>\<open>prepareReceiveDirectory\<close>: the directory can be made, and is a directory and not a link.\<close>

record directory_env =
  de_made :: bool
  de_seen :: bool
  de_plain :: bool

definition prepareReceiveDirectory :: "directory_env \<Rightarrow> bool" where
  "prepareReceiveDirectory e \<longleftrightarrow> de_made e \<and> de_seen e \<and> de_plain e"

text \<open>\<open>configureFilePermission\<close>: the directory of the command line, made absolute, or the default below the home directory.\<close>

definition configureFilePermission ::
  "string \<Rightarrow> string option \<Rightarrow> string option \<Rightarrow> stored_permission \<Rightarrow> directory_env \<Rightarrow> permission_error + permission"
where
  "configureFilePermission dir absolute home stored e =
     (let p = (\<lambda>d consent on. \<lparr>fp_dir = d, fp_consent = consent, fp_enabled = on, fp_stored = consent,
          fp_file = (case stored of Stored b \<Rightarrow> Some b | _ \<Rightarrow> None), fp_epoch = 0\<rparr>) in
      if dir \<noteq> [] then (case absolute of None \<Rightarrow> Inl Read_error | Some d \<Rightarrow> Inr (p d False False))
      else case home of None \<Rightarrow> Inl No_home
      | Some h \<Rightarrow>
          let d = h @ ''/Downloads/YuDesk'' in
          (case stored of
             Not_stored \<Rightarrow> Inr (p d True False)
           | Unreadable \<Rightarrow> Inl Read_error
           | Corrupt \<Rightarrow> Inl Corrupt_permission
           | Stored on \<Rightarrow> if on \<and> \<not> prepareReceiveDirectory e then Inl Bad_directory else Inr (p d True on)))"

definition file_root :: "permission \<Rightarrow> string" where
  "file_root p = (if fp_consent p \<and> \<not> fp_enabled p then [] else fp_dir p)"

text \<open>\<open>setFilePermission\<close>; the new file is complete before it takes the place of the old one.\<close>

record change_env =
  ce_directory :: directory_env
  ce_written :: bool
  ce_renamed :: bool

definition setFilePermission :: "change_env \<Rightarrow> bool \<Rightarrow> permission \<Rightarrow> (permission_error + unit) \<times> permission" where
  "setFilePermission e enabled p =
     (if enabled \<and> fp_dir p = [] then (Inl No_directory, p)
      else if enabled \<and> \<not> prepareReceiveDirectory (ce_directory e) then (Inl Bad_directory, p)
      else if fp_stored p \<and> (\<not> ce_written e \<or> \<not> ce_renamed e) then (Inl Write_error, p)
      else (Inr (), p\<lparr>fp_file := (if fp_stored p then Some enabled else fp_file p), fp_consent := True, fp_enabled := enabled,
              fp_epoch := fp_epoch p + 1\<rparr>))"

section \<open>Sessions\<close>

text \<open>\<open>syncFilePermission\<close> on a manager and the last change it has seen.\<close>

definition syncFilePermission :: "env \<Rightarrow> permission \<Rightarrow> 64 word \<Rightarrow> ft_state \<Rightarrow> 64 word \<times> ft_state" where
  "syncFilePermission e p seen s = (if seen \<noteq> fp_epoch p then (fp_epoch p, fst (Reset e s)) else (seen, s))"

definition handleFileRequest ::
  "env \<Rightarrow> env \<Rightarrow> decoder \<Rightarrow> permission \<Rightarrow> string \<Rightarrow> string \<Rightarrow> bytes \<Rightarrow> 64 word \<times> ft_state \<Rightarrow> ft_result \<times> 64 word \<times> ft_state"
where
  "handleFileRequest er e dec p method raw d es =
     (case syncFilePermission er p (fst es) (snd es) of (seen, s) \<Rightarrow>
      case Handle e dec (file_root p) method raw d s of (r, s) \<Rightarrow> (r, seen, s))"

record file_sessions =
  fs_permission :: permission
  fs_managers :: "nat \<Rightarrow> manager"
  fs_seen :: "nat \<Rightarrow> 64 word"
  fs_files :: fsys

definition file_session :: "nat \<Rightarrow> file_sessions \<Rightarrow> 64 word \<times> ft_state" where
  "file_session i s = (fs_seen s i, fs_managers s i, fs_files s)"

definition put_session :: "nat \<Rightarrow> 64 word \<times> ft_state \<Rightarrow> file_sessions \<Rightarrow> file_sessions" where
  "put_session i es s = s\<lparr>fs_seen := (fs_seen s)(i := fst es), fs_managers := (fs_managers s)(i := fst (snd es)), fs_files := snd (snd es)\<rparr>"

datatype file_event =
    Permission change_env bool
  | Session_starts nat
  | File_request nat env env decoder string string bytes
  | Session_tick nat env env
  | Session_ends nat env

fun event_session :: "file_event \<Rightarrow> nat option" where
  "event_session (Permission e on) = None"
| "event_session (Session_starts i) = Some i"
| "event_session (File_request i er e dec method raw d) = Some i"
| "event_session (Session_tick i er e) = Some i"
| "event_session (Session_ends i e) = Some i"

fun file_step :: "file_sessions \<Rightarrow> file_event \<Rightarrow> file_sessions" where
  "file_step s (Permission e on) = s\<lparr>fs_permission := snd (setFilePermission e on (fs_permission s))\<rparr>"
| "file_step s (Session_starts i) = put_session i (0, New, fs_files s) s"
| "file_step s (File_request i er e dec method raw d) =
     put_session i (snd (handleFileRequest er e dec (fs_permission s) method raw d (file_session i s))) s"
| "file_step s (Session_tick i er e) =
     (case syncFilePermission er (fs_permission s) (fs_seen s i) (snd (file_session i s)) of
        (seen, st) \<Rightarrow> put_session i (seen, fst (Sweep e st)) s)"
| "file_step s (Session_ends i e) = put_session i (fs_seen s i, fst (Close e (snd (file_session i s)))) s"

definition file_start :: "permission \<Rightarrow> fsys \<Rightarrow> file_sessions" where
  "file_start p files = \<lparr>fs_permission = p\<lparr>fp_epoch := 0\<rparr>, fs_managers = (\<lambda>_. New), fs_seen = (\<lambda>_. 0), fs_files = files\<rparr>"

definition file_run :: "permission \<Rightarrow> fsys \<Rightarrow> file_event list \<Rightarrow> file_sessions" where
  "file_run p files evs = foldl file_step (file_start p files) evs"

section \<open>A change reaches every session\<close>

text \<open>The counter is the number of changes, and no session is ahead of it.\<close>

definition counted :: "nat \<Rightarrow> file_sessions \<Rightarrow> bool" where
  "counted n s \<longleftrightarrow> fp_epoch (fs_permission s) = word_of_nat n \<and> (\<forall>i. \<exists>k \<le> n. fs_seen s i = word_of_nat k)"

lemma sync_seen: "fst (syncFilePermission e p seen s) = fp_epoch p"
  by (simp add: syncFilePermission_def)

lemma request_seen: "fst (snd (handleFileRequest er e dec p method raw d es)) = fp_epoch p"
  using sync_seen[of er p "fst es" "snd es"] by (cases "syncFilePermission er p (fst es) (snd es)") (simp add: handleFileRequest_def split: prod.split)

lemma put_session_other [simp]:
  "fs_permission (put_session i es s) = fs_permission s" "fs_seen (put_session i es s) j = (if j = i then fst es else fs_seen s j)"
  "fs_managers (put_session i es s) j = (if j = i then fst (snd es) else fs_managers s j)" "fs_files (put_session i es s) = snd (snd es)"
  by (simp_all add: put_session_def)

lemma counted_put: "counted n s \<Longrightarrow> \<exists>k \<le> n. fst es = word_of_nat k \<Longrightarrow> counted n (put_session i es s)"
  by (simp add: counted_def)

lemma counted_mono: "counted n s \<Longrightarrow> fs_seen s' = fs_seen s \<Longrightarrow> fp_epoch (fs_permission s') = fp_epoch (fs_permission s) + 1 \<Longrightarrow> counted (Suc n) s'"
  unfolding counted_def by (metis add.commute le_SucI of_nat_Suc)

lemma change_counts:
  "setFilePermission e on p = (r, p') \<Longrightarrow> p' = p \<and> r \<noteq> Inr () \<or> r = Inr () \<and> fp_epoch p' = fp_epoch p + 1 \<and> fp_consent p' \<and> fp_enabled p' = on"
  by (auto simp: setFilePermission_def split: if_splits)

lemma counted_step:
  assumes "counted n s"
  shows "counted n (file_step s ev) \<or> counted (Suc n) (file_step s ev)"
proof (cases ev)
  case (Permission e on)
  obtain r p' where r: "setFilePermission e on (fs_permission s) = (r, p')" by force
  from change_counts[OF r] show ?thesis
  proof
    assume "p' = fs_permission s \<and> r \<noteq> Inr ()"
    then show ?thesis using r assms Permission by simp
  next
    assume "r = Inr () \<and> fp_epoch p' = fp_epoch (fs_permission s) + 1 \<and> fp_consent p' \<and> fp_enabled p' = on"
    then have "counted (Suc n) (file_step s ev)"
      using r Permission by (intro counted_mono[OF assms]) simp_all
    then show ?thesis ..
  qed
next
  case (Session_starts i)
  have "\<exists>k \<le> n. fst (0 :: 64 word, New, fs_files s) = word_of_nat k" by (rule exI[of _ 0]) simp
  then show ?thesis using Session_starts counted_put[OF assms] by simp
next
  case (File_request i er e dec meth raw d)
  have "\<exists>k \<le> n. fp_epoch (fs_permission s) = word_of_nat k" using assms by (auto simp: counted_def)
  then show ?thesis using File_request counted_put[OF assms] by (simp add: request_seen)
next
  case (Session_tick i er e)
  have "\<exists>k \<le> n. fp_epoch (fs_permission s) = word_of_nat k" using assms by (auto simp: counted_def)
  moreover obtain seen st where st: "syncFilePermission er (fs_permission s) (fs_seen s i) (snd (file_session i s)) = (seen, st)"
    by (rule prod.exhaust)
  then have "seen = fp_epoch (fs_permission s)" using sync_seen[of er "fs_permission s" "fs_seen s i" "snd (file_session i s)"] by simp
  ultimately show ?thesis using Session_tick st counted_put[OF assms, of "(seen, fst (Sweep e st))"] by simp
next
  case (Session_ends i e)
  have "\<exists>k \<le> n. fs_seen s i = word_of_nat k" using assms by (simp add: counted_def)
  then show ?thesis using Session_ends counted_put[OF assms] by simp
qed

lemma counted_run: "counted n s \<Longrightarrow> \<exists>m \<ge> n. m \<le> n + length evs \<and> counted m (foldl file_step s evs)"
proof (induction evs arbitrary: n s)
  case (Cons ev evs)
  from counted_step[OF Cons.prems, of ev] show ?case
  proof
    assume "counted n (file_step s ev)"
    then show ?case using Cons.IH[of n "file_step s ev"] by (metis add_Suc_right foldl_Cons le_SucI length_Cons)
  next
    assume "counted (Suc n) (file_step s ev)"
    then obtain m where "Suc n \<le> m" "m \<le> Suc n + length evs" "counted m (foldl file_step (file_step s ev) evs)" using Cons.IH by blast
    then show ?case by (intro exI[of _ m]) simp
  qed
qed auto

lemma counted_start: "counted 0 (file_start p files)"
  by (simp add: counted_def file_start_def)

text \<open>A manager without transfers has afterwards at most the one this request begins, and none without a root.\<close>

lemma Handle_only_new:
  assumes "transfers (fst s) = []"
  shows "only_new e method (snd (Handle e dec root_dir method raw d s))
    \<and> (root_dir = [] \<longrightarrow> transfers (fst (snd (Handle e dec root_dir method raw d s))) = []
        \<and> fst (Handle e dec root_dir method raw d s) \<in> {Inl closed_err, Inl disabled_err})"
proof (cases "closed (fst s)")
  case False
  have empty: "transfers (fst (fst (admit e root_dir s))) = []"
    using assms by (cases s) (simp add: admit_def expire_def reset_def case_prod_beta)
  then have "only_new e method (snd (dispatch e dec r method raw d
      ((fst (fst (admit e root_dir s)))\<lparr>root := Some r\<rparr>, snd (fst (admit e root_dir s)))))" for r
    by (intro dispatch_only_new) simp
  then have "only_new e method (snd (Handle e dec root_dir method raw d s))"
    using empty False unfolding Handle_def Let_def case_prod_beta
    by (auto simp: only_new_def split: option.splits)
  moreover have "root_dir = [] \<Longrightarrow> Handle e dec root_dir method raw d s = (Inl disabled_err, fst (admit e root_dir s))"
    using False by (simp add: Handle_def case_prod_beta)
  ultimately show ?thesis using empty by auto
qed (use assms in \<open>simp add: Handle_def only_new_def\<close>)

lemma Reset_empty: "transfers (fst (fst (Reset e s))) = []"
  by (cases s) (simp add: Reset_def reset_def case_prod_beta)

text \<open>A session that has no transfers, or has still to see a change: what every event but a request of its own keeps.\<close>

definition ended_or_behind :: "nat \<Rightarrow> nat \<Rightarrow> file_sessions \<Rightarrow> bool" where
  "ended_or_behind i n s \<longleftrightarrow> transfers (fs_managers s i) = [] \<or> (\<exists>k < n. fs_seen s i = word_of_nat k)"

definition asks :: "nat \<Rightarrow> file_event \<Rightarrow> bool" where
  "asks i ev \<longleftrightarrow> (\<exists>er e dec meth raw d. ev = File_request i er e dec meth raw d)"

lemma Sweep_empty: "transfers (fst s) = [] \<Longrightarrow> transfers (fst (fst (Sweep e s))) = []"
  by (cases s) (simp add: Sweep_def expire_def case_prod_beta)

lemma Close_empty: "transfers (fst (fst (Close e s))) = []"
  by (cases s) (simp add: Close_def reset_def case_prod_beta)

lemma behind_not_seen:
  assumes "counted n s" "n < 2 ^ 64" "ended_or_behind i n s"
  shows "transfers (fs_managers s i) = [] \<or> fs_seen s i \<noteq> fp_epoch (fs_permission s)"
proof -
  have "(word_of_nat k :: 64 word) \<noteq> word_of_nat n" if "k < n" for k
    using that assms(2) unat_of_nat64[of k] unat_of_nat64[of n] by auto
  then show ?thesis using assms(1,3) by (auto simp: counted_def ended_or_behind_def)
qed

lemma sync_empties:
  assumes "counted n s" "n < 2 ^ 64" "ended_or_behind i n s"
  shows "transfers (fst (snd (syncFilePermission er (fs_permission s) (fs_seen s i) (fs_managers s i, fs_files s)))) = []"
  using behind_not_seen[OF assms] Reset_empty by (auto simp: syncFilePermission_def)

lemma tick_empties:
  assumes "counted n s" "n < 2 ^ 64" "ended_or_behind i n s"
  shows "transfers (fs_managers (file_step s (Session_tick i er e)) i) = []"
  using Sweep_empty[OF sync_empties[OF assms, of er], of e] by (simp add: file_session_def case_prod_beta)

lemma behind_step:
  assumes "counted n s" "n < 2 ^ 64" "ended_or_behind i n s" "\<not> asks i ev"
  shows "ended_or_behind i n (file_step s ev)"
proof (cases "event_session ev = Some i")
  case True
  then have "transfers (fs_managers (file_step s ev) i) = []"
    using tick_empties[OF assms(1-3)] Close_empty assms(4) by (cases ev) (auto simp: New_def asks_def simp del: file_step.simps(4))
  then show ?thesis by (simp add: ended_or_behind_def)
next
  case False
  then have "fs_managers (file_step s ev) i = fs_managers s i" "fs_seen (file_step s ev) i = fs_seen s i"
    by (cases ev; auto split: prod.split)+
  then show ?thesis using assms(3) by (simp add: ended_or_behind_def)
qed

lemma behind_run:
  assumes "counted n s" "ended_or_behind i n s" "n + length evs < 2 ^ 64" "\<forall>ev \<in> set evs. \<not> asks i ev"
  shows "\<exists>m \<le> n + length evs. counted m (foldl file_step s evs) \<and> ended_or_behind i m (foldl file_step s evs)"
  using assms
proof (induction evs arbitrary: n s)
  case (Cons ev evs)
  have b: "ended_or_behind i n (file_step s ev)" using Cons.prems by (intro behind_step) auto
  then have b': "ended_or_behind i (Suc n) (file_step s ev)" unfolding ended_or_behind_def using less_SucI by blast
  from counted_step[OF Cons.prems(1), of ev] show ?case
  proof
    assume "counted n (file_step s ev)"
    then obtain m where "m \<le> n + length evs" "counted m (foldl file_step (file_step s ev) evs) \<and> ended_or_behind i m (foldl file_step (file_step s ev) evs)"
      using Cons.IH[OF _ b] Cons.prems by auto
    then show ?thesis by (intro exI[of _ m]) simp
  next
    assume "counted (Suc n) (file_step s ev)"
    then obtain m where "m \<le> Suc n + length evs" "counted m (foldl file_step (file_step s ev) evs) \<and> ended_or_behind i m (foldl file_step (file_step s ev) evs)"
      using Cons.IH[OF _ b'] Cons.prems by auto
    then show ?thesis by (intro exI[of _ m]) simp
  qed
qed auto

lemma change_leaves_behind:
  assumes ok: "setFilePermission ce on (fs_permission (file_run p files earlier)) = (Inr (), p')"
    and mid: "\<forall>ev \<in> set mid. \<not> asks i ev"
    and bound: "length (earlier @ Permission ce on # mid) < 2 ^ 64"
  shows "\<exists>m < 2 ^ 64. counted m (file_run p files (earlier @ Permission ce on # mid)) \<and> ended_or_behind i m (file_run p files (earlier @ Permission ce on # mid))"
proof -
  obtain n where n: "n \<le> length earlier" "counted n (file_run p files earlier)"
    using counted_run[OF counted_start, of earlier p files] unfolding file_run_def by auto
  let ?s = "file_step (file_run p files earlier) (Permission ce on)"
  have "counted (Suc n) ?s" using change_counts[OF ok] ok by (intro counted_mono[OF n(2)]) auto
  moreover have "ended_or_behind i (Suc n) ?s" using n(2) by (auto simp: counted_def ended_or_behind_def less_Suc_eq_le)
  ultimately obtain m where "m \<le> Suc n + length mid" "counted m (foldl file_step ?s mid)" "ended_or_behind i m (foldl file_step ?s mid)"
    using behind_run[of "Suc n" ?s i mid] mid n(1) bound by auto
  moreover have "file_run p files (earlier @ Permission ce on # mid) = foldl file_step ?s mid" by (simp add: file_run_def)
  ultimately show ?thesis using n(1) bound by (intro exI[of _ m]) simp
qed

text \<open>C18: A change of the permission ends every transfer that began before it, also when the permission is taken back and given again
  between two requests. Whatever happens between the change and the next request of a session, more changes, ticks of its clock,
  its end or its start and anything of the other sessions: a tick leaves it without transfers, and the request starts from
  none, so that there is afterwards at most the one it began itself; and while the permission is off the request is refused,
  whatever it asks.\<close>

theorem permission_change_ends_transfers:
  assumes ok: "setFilePermission ce on (fs_permission (file_run p files earlier)) = (Inr (), p')"
    and mid: "\<forall>er e dec meth raw d. File_request i er e dec meth raw d \<notin> set mid"
    and bound: "length (earlier @ Permission ce on # mid) < 2 ^ 64"
    and s: "s = file_run p files (earlier @ Permission ce on # mid)"
    and ask: "handleFileRequest er e dec (fs_permission s) meth raw d (file_session i s) = (r, seen, st)"
  shows "(transfers (fst st) = [] \<or> meth \<in> {''file_upload_begin'', ''file_download_begin''}
        \<and> (\<exists>tid t. transfers (fst st) = [(tid, t)] \<and> t_lastUsed t = now e))
    \<and> (file_root (fs_permission s) = [] \<longrightarrow> transfers (fst st) = [] \<and> r \<in> {Inl closed_err, Inl disabled_err})
    \<and> seen = fp_epoch (fs_permission s)
    \<and> transfers (fs_managers (file_step s (Session_tick i er e)) i) = []"
proof -
  have "\<forall>ev \<in> set mid. \<not> asks i ev" using mid unfolding asks_def by metis
  then obtain m where m: "counted m s" "m < 2 ^ 64" "ended_or_behind i m s"
    using change_leaves_behind[OF ok _ bound] unfolding s by blast
  let ?sync = "snd (syncFilePermission er (fs_permission s) (fs_seen s i) (fs_managers s i, fs_files s))"
  let ?h = "Handle e dec (file_root (fs_permission s)) meth raw d ?sync"
  have "r = fst ?h" "st = snd ?h" "seen = fp_epoch (fs_permission s)"
    using ask sync_seen[of er "fs_permission s" "fs_seen s i" "(fs_managers s i, fs_files s)"]
    by (simp_all add: handleFileRequest_def file_session_def case_prod_beta)
  then show ?thesis using Handle_only_new[OF sync_empties[OF m, of er], of e meth dec "file_root (fs_permission s)" raw d] tick_empties[OF m, of er e]
    by (simp add: only_new_def)
qed

definition sample_permission :: permission where
  "sample_permission = \<lparr>fp_dir = ''/d'', fp_consent = True, fp_enabled = True, fp_stored = True, fp_file = Some True, fp_epoch = 0\<rparr>"

definition sample_change :: change_env where
  "sample_change = \<lparr>ce_directory = \<lparr>de_made = True, de_seen = True, de_plain = True\<rparr>, ce_written = True, ce_renamed = True\<rparr>"

text \<open>An upload begins, the permission is taken away, a second passes, and the upload is to be committed.\<close>

definition sample_events :: "decoder \<Rightarrow> string \<Rightarrow> file_event list" where
  "sample_events dec raw = [Session_starts 0, File_request 0 quiet quiet dec ''file_upload_begin'' raw []]
     @ Permission sample_change False # [Session_tick 0 quiet quiet, File_request 1 quiet quiet dec ''file_list'' raw []]"

lemma permission_change_ends_transfers_witness:
  "\<forall>files dec raw d. fst (handleFileRequest quiet quiet dec (fs_permission (file_run sample_permission files (sample_events dec raw)))
     ''file_upload_commit'' raw d (file_session 0 (file_run sample_permission files (sample_events dec raw)))) \<in> {Inl closed_err, Inl disabled_err}"
proof (intro allI)
  fix files dec raw d
  let ?s = "file_run sample_permission files (sample_events dec raw)"
  let ?h = "handleFileRequest quiet quiet dec (fs_permission ?s) ''file_upload_commit'' raw d (file_session 0 ?s)"
  obtain p' where ok: "setFilePermission sample_change False (fs_permission (file_run sample_permission files
      [Session_starts 0, File_request 0 quiet quiet dec ''file_upload_begin'' raw []])) = (Inr (), p')"
    by (simp add: setFilePermission_def sample_change_def)
  have off: "file_root (fs_permission ?s) = []"
    by (simp add: sample_events_def file_run_def file_start_def setFilePermission_def sample_change_def sample_permission_def file_root_def split: prod.split)
  have h: "?h = (fst ?h, fst (snd ?h), snd (snd ?h))" by simp
  show "fst ?h \<in> {Inl closed_err, Inl disabled_err}"
    using permission_change_ends_transfers[OF ok _ _ sample_events_def[THEN arg_cong] h, THEN conjunct2, THEN conjunct1, rule_format, OF _ _ off] by simp
qed

end
