(* ===== verification/MoveQueue.thy ===== *)
theory MoveQueue
  imports RemoteInput
begin

text \<open>
  The input queue of the mobile client (\<open>mobile/core/queue.go\<close>): a ring of 64 places, in which a pointer movement replaces the one
  before it. The ring refines a queue that is a list; the wake-up channel only shortens waiting and is left out. JSON is the
  parameter \<open>parse\<close>.
\<close>

section \<open>The ring\<close>

definition ringSize :: nat where "ringSize = 64"

record 'a slot =
  sl_value :: 'a
  sl_width :: int
  sl_height :: int

record input_batch =
  ib_events :: "input_event list"
  ib_width :: int
  ib_height :: int

record 'a ring =
  rq_values :: "'a slot list"
  rq_head :: nat
  rq_size :: nat
  rq_buttons :: byte

text \<open>The zero value of a place.\<close>

definition empty_slot :: "'a \<Rightarrow> 'a slot" where
  "empty_slot z = \<lparr>sl_value = z, sl_width = 0, sl_height = 0\<rparr>"

definition new_ring :: "'a \<Rightarrow> 'a ring" where
  "new_ring z = \<lparr>rq_values = replicate ringSize (empty_slot z), rq_head = 0, rq_size = 0, rq_buttons = 0\<rparr>"

text \<open>The entry of an offer: only a single movement without a button has a size.\<close>

definition offered :: "(bytes \<Rightarrow> input_batch option) \<Rightarrow> 'a \<Rightarrow> bytes \<Rightarrow> byte \<Rightarrow> 'a slot" where
  "offered parse value raw buttons =
     (case (if raw = [] then None else parse raw) of
        Some b \<Rightarrow>
          if buttons = 0 \<and> length (ib_events b) = 1 \<and> ev_type (hd (ib_events b)) = ''move''
          then \<lparr>sl_value = value, sl_width = ib_width b, sl_height = ib_height b\<rparr>
          else empty_slot value
      | None \<Rightarrow> empty_slot value)"

definition press :: "byte \<Rightarrow> input_event \<Rightarrow> byte" where
  "press buttons ev =
     (if ev_button ev < 1 \<or> ev_button ev > 3 then buttons
      else if ev_type ev = ''down'' then buttons OR push_bit (nat (ev_button ev)) 1
      else if ev_type ev = ''up'' then buttons AND NOT (push_bit (nat (ev_button ev)) 1)
      else buttons)"

definition buttons_of :: "(bytes \<Rightarrow> input_batch option) \<Rightarrow> bytes \<Rightarrow> bool \<Rightarrow> byte \<Rightarrow> byte" where
  "buttons_of parse raw release buttons =
     (if release then 0
      else case (if raw = [] then None else parse raw) of Some b \<Rightarrow> foldl press buttons (ib_events b) | None \<Rightarrow> buttons)"

definition ring_offer :: "(bytes \<Rightarrow> input_batch option) \<Rightarrow> 'a \<Rightarrow> bytes \<Rightarrow> bool \<Rightarrow> 'a ring \<Rightarrow> bool \<times> 'a ring" where
  "ring_offer parse value raw release q =
     (let entry = offered parse value raw (rq_buttons q);
          tail = (rq_head q + rq_size q - 1) mod ringSize
      in if rq_size q > 0 \<and> sl_width entry > 0
            \<and> sl_width (rq_values q ! tail) = sl_width entry \<and> sl_height (rq_values q ! tail) = sl_height entry
         then (True, q\<lparr>rq_values := (rq_values q)[tail := entry]\<rparr>)
         else if rq_size q = ringSize then (False, q)
         else (True, q\<lparr>rq_values := (rq_values q)[(rq_head q + rq_size q) mod ringSize := entry], rq_size := Suc (rq_size q),
                 rq_buttons := buttons_of parse raw release (rq_buttons q)\<rparr>))"

text \<open>\<open>next\<close> when there is something; otherwise it waits.\<close>

definition ring_next :: "'a \<Rightarrow> 'a ring \<Rightarrow> 'a option \<times> 'a ring" where
  "ring_next z q =
     (if rq_size q > 0
      then (Some (sl_value (rq_values q ! rq_head q)),
            q\<lparr>rq_values := (rq_values q)[rq_head q := empty_slot z], rq_head := (rq_head q + 1) mod ringSize, rq_size := rq_size q - 1\<rparr>)
      else (None, q))"

definition ring_clear :: "'a \<Rightarrow> 'a ring \<Rightarrow> 'a ring" where
  "ring_clear z q = q\<lparr>rq_values := replicate (length (rq_values q)) (empty_slot z), rq_head := 0, rq_size := 0, rq_buttons := 0\<rparr>"

section \<open>The queue it stands for\<close>

record 'a move_queue =
  mq_items :: "'a slot list"
  mq_buttons :: byte

definition list_offer :: "(bytes \<Rightarrow> input_batch option) \<Rightarrow> 'a \<Rightarrow> bytes \<Rightarrow> bool \<Rightarrow> 'a move_queue \<Rightarrow> bool \<times> 'a move_queue" where
  "list_offer parse value raw release q =
     (let entry = offered parse value raw (mq_buttons q); items = mq_items q in
      if items \<noteq> [] \<and> sl_width entry > 0 \<and> sl_width (last items) = sl_width entry \<and> sl_height (last items) = sl_height entry
      then (True, q\<lparr>mq_items := butlast items @ [entry]\<rparr>)
      else if length items = ringSize then (False, q)
      else (True, q\<lparr>mq_items := items @ [entry], mq_buttons := buttons_of parse raw release (mq_buttons q)\<rparr>))"

definition list_next :: "'a move_queue \<Rightarrow> 'a option \<times> 'a move_queue" where
  "list_next q = (case mq_items q of [] \<Rightarrow> (None, q) | s # ss \<Rightarrow> (Some (sl_value s), q\<lparr>mq_items := ss\<rparr>))"

definition ring_items :: "'a ring \<Rightarrow> 'a slot list" where
  "ring_items q = map (\<lambda>i. rq_values q ! ((rq_head q + i) mod ringSize)) [0..<rq_size q]"

definition ring_abs :: "'a ring \<Rightarrow> 'a move_queue" where
  "ring_abs q = \<lparr>mq_items = ring_items q, mq_buttons = rq_buttons q\<rparr>"

definition ring_ok :: "'a ring \<Rightarrow> bool" where
  "ring_ok q \<longleftrightarrow> length (rq_values q) = ringSize \<and> rq_head q < ringSize \<and> rq_size q \<le> ringSize"

text \<open>Different places of the queue are different places of the ring.\<close>

lemma ring_places: "i < ringSize \<Longrightarrow> j < ringSize \<Longrightarrow> (h + i) mod ringSize = (h + j) mod ringSize \<longleftrightarrow> i = j"
proof -
  assume ij: "i < ringSize" "j < ringSize"
  have "i = j" if "(h + i) mod ringSize = (h + j) mod ringSize" "i \<le> j" "j < ringSize" for i j
  proof -
    have "ringSize dvd (h + j) - (h + i)" using that by (metis mod_eq_dvd_iff_nat add_le_cancel_left)
    then have "ringSize dvd j - i" by simp
    moreover have "j - i < ringSize" using that by simp
    ultimately show ?thesis using that(2) by (metis dvd_imp_le le_antisym not_le zero_less_diff)
  qed
  then show ?thesis using ij by (metis nat_le_linear)
qed

lemma ring_items_length [simp]: "length (ring_items q) = rq_size q"
  by (simp add: ring_items_def)

lemma ring_items_nth: "i < rq_size q \<Longrightarrow> ring_items q ! i = rq_values q ! ((rq_head q + i) mod ringSize)"
  by (simp add: ring_items_def)

lemma ring_place: "0 < ringSize" "x mod ringSize < ringSize"
  by (simp_all add: ringSize_def)

text \<open>Writing a place of the ring.\<close>

lemma ring_items_write:
  assumes "ring_ok q" "i < ringSize" "n \<le> ringSize"
  shows "ring_items (q\<lparr>rq_values := (rq_values q)[(rq_head q + i) mod ringSize := e], rq_size := n\<rparr>)
    = (map (\<lambda>j. rq_values q ! ((rq_head q + j) mod ringSize)) [0..<n])[i := e]"
proof (rule nth_equalityI)
  fix j
  assume "j < length (ring_items (q\<lparr>rq_values := (rq_values q)[(rq_head q + i) mod ringSize := e], rq_size := n\<rparr>))"
  then have j: "j < n" by simp
  then show "ring_items (q\<lparr>rq_values := (rq_values q)[(rq_head q + i) mod ringSize := e], rq_size := n\<rparr>) ! j
      = (map (\<lambda>j. rq_values q ! ((rq_head q + j) mod ringSize)) [0..<n])[i := e] ! j"
    using assms ring_places[of i j "rq_head q"] ring_place(2)
    by (simp add: ring_items_nth ring_ok_def nth_list_update)
qed simp

lemma ring_offer_refines:
  assumes ok: "ring_ok q"
  shows "ring_ok (snd (ring_offer parse value raw release q))
    \<and> list_offer parse value raw release (ring_abs q)
      = (fst (ring_offer parse value raw release q), ring_abs (snd (ring_offer parse value raw release q)))"
proof -
  define e where "e = offered parse value raw (rq_buttons q)"
  let ?n = "rq_size q"
  have items: "map (\<lambda>j. rq_values q ! ((rq_head q + j) mod ringSize)) [0..<?n] = ring_items q" by (simp add: ring_items_def)
  have last: "last (ring_items q) = rq_values q ! ((rq_head q + ?n - 1) mod ringSize)" if "?n > 0"
  proof -
    have "ring_items q \<noteq> []" using that by (metis ring_items_length length_greater_0_conv)
    then have "last (ring_items q) = ring_items q ! (?n - 1)" by (simp add: last_conv_nth)
    then show ?thesis using that by (simp add: ring_items_nth)
  qed
  have nonempty: "ring_items q \<noteq> [] \<longleftrightarrow> ?n > 0" by (metis ring_items_length length_greater_0_conv)
  show ?thesis
  proof (cases "?n > 0 \<and> sl_width e > 0 \<and> sl_width (last (ring_items q)) = sl_width e \<and> sl_height (last (ring_items q)) = sl_height e")
    case True
    let ?tail = "(rq_head q + ?n - 1) mod ringSize"
    have eq: "ring_offer parse value raw release q = (True, q\<lparr>rq_values := (rq_values q)[?tail := e]\<rparr>)"
      using True last by (simp add: ring_offer_def Let_def e_def)
    have tail: "?tail = (rq_head q + (?n - 1)) mod ringSize" using True by simp
    have "?n - 1 < ringSize" "?n \<le> ringSize" using True ok by (auto simp: ring_ok_def)
    from ring_items_write[OF ok this, of e] have "ring_items (q\<lparr>rq_values := (rq_values q)[?tail := e]\<rparr>) = (ring_items q)[?n - 1 := e]"
      unfolding items tail by simp
    also have "\<dots> = butlast (ring_items q) @ [e]"
      using True nonempty by (metis list_update_length length_butlast ring_items_length append_butlast_last_id)
    finally show ?thesis using True nonempty ok
      by (simp add: list_offer_def ring_abs_def Let_def eq e_def[symmetric] ring_ok_def)
  next
    case False
    show ?thesis
    proof (cases "?n = ringSize")
      case True
      then have "ring_offer parse value raw release q = (False, q)"
        using False last by (auto simp: ring_offer_def Let_def e_def)
      moreover have "list_offer parse value raw release (ring_abs q) = (False, ring_abs q)"
        using False True nonempty by (auto simp: list_offer_def ring_abs_def Let_def e_def)
      ultimately show ?thesis using ok by simp
    next
      case room: False
      let ?q = "q\<lparr>rq_values := (rq_values q)[(rq_head q + ?n) mod ringSize := e], rq_size := Suc ?n,
          rq_buttons := buttons_of parse raw release (rq_buttons q)\<rparr>"
      have eq: "ring_offer parse value raw release q = (True, ?q)"
        using False last room by (auto simp: ring_offer_def Let_def e_def)
      have n: "?n < ringSize" "Suc ?n \<le> ringSize" using ok room by (auto simp: ring_ok_def)
      have "ring_items ?q = ring_items (q\<lparr>rq_values := (rq_values q)[(rq_head q + ?n) mod ringSize := e], rq_size := Suc ?n\<rparr>)"
        by (simp add: ring_items_def)
      also have "\<dots> = ring_items q @ [e]"
        unfolding ring_items_write[OF ok n] upt_Suc_append[OF le0] map_append items by (simp add: list_update_append)
      finally show ?thesis using False room nonempty n ok
        by (auto simp: list_offer_def ring_abs_def Let_def eq e_def[symmetric] ring_ok_def)
    qed
  qed
qed

lemma ring_next_refines:
  assumes ok: "ring_ok q"
  shows "ring_ok (snd (ring_next z q)) \<and> list_next (ring_abs q) = (fst (ring_next z q), ring_abs (snd (ring_next z q)))"
proof (cases "rq_size q")
  case 0
  then show ?thesis using ok by (simp add: ring_next_def list_next_def ring_abs_def ring_items_def)
next
  case (Suc n)
  let ?q = "q\<lparr>rq_values := (rq_values q)[rq_head q := empty_slot z], rq_head := (rq_head q + 1) mod ringSize, rq_size := n\<rparr>"
  have head: "rq_head q mod ringSize = rq_head q" using ok by (simp add: ring_ok_def)
  have "ring_items ?q = tl (ring_items q)"
  proof (rule nth_equalityI)
    fix j
    assume "j < length (ring_items ?q)"
    then have j: "j < n" by simp
    have "Suc j < ringSize" using j Suc ok by (simp add: ring_ok_def)
    then have "(rq_head q + Suc j) mod ringSize \<noteq> rq_head q"
      using ring_places[of "Suc j" 0 "rq_head q"] head ring_place(1) by simp
    moreover have "((rq_head q + 1) mod ringSize + j) mod ringSize = (rq_head q + Suc j) mod ringSize"
      by (simp add: mod_add_left_eq)
    ultimately show "ring_items ?q ! j = tl (ring_items q) ! j"
      using j Suc by (simp add: ring_items_nth nth_tl)
  qed (simp add: Suc)
  moreover obtain s ss where items: "ring_items q = s # ss" using Suc by (metis length_Suc_conv ring_items_length)
  moreover have "s = rq_values q ! rq_head q" using ring_items_nth[of 0 q] Suc items head by simp
  ultimately show ?thesis using Suc ok ring_place(2)
    by (simp add: ring_next_def list_next_def ring_abs_def ring_ok_def)
qed

section \<open>All runs\<close>

datatype 'a queue_op = Offer 'a bytes bool | Next | Clear

text \<open>The answers of a run: whether an offer was taken, and what was next.\<close>

fun ring_run :: "(bytes \<Rightarrow> input_batch option) \<Rightarrow> 'a \<Rightarrow> 'a ring \<Rightarrow> 'a queue_op list \<Rightarrow> (bool + 'a option) list" where
  "ring_run parse z q [] = []"
| "ring_run parse z q (Offer v raw release # ops) = (case ring_offer parse v raw release q of (taken, q) \<Rightarrow> Inl taken # ring_run parse z q ops)"
| "ring_run parse z q (Next # ops) = (case ring_next z q of (v, q) \<Rightarrow> Inr v # ring_run parse z q ops)"
| "ring_run parse z q (Clear # ops) = ring_run parse z (ring_clear z q) ops"

fun list_run :: "(bytes \<Rightarrow> input_batch option) \<Rightarrow> 'a move_queue \<Rightarrow> 'a queue_op list \<Rightarrow> (bool + 'a option) list" where
  "list_run parse q [] = []"
| "list_run parse q (Offer v raw release # ops) = (case list_offer parse v raw release q of (taken, q) \<Rightarrow> Inl taken # list_run parse q ops)"
| "list_run parse q (Next # ops) = (case list_next q of (v, q) \<Rightarrow> Inr v # list_run parse q ops)"
| "list_run parse q (Clear # ops) = list_run parse \<lparr>mq_items = [], mq_buttons = 0\<rparr> ops"

lemma ring_run_refines: "ring_ok q \<Longrightarrow> ring_run parse z q ops = list_run parse (ring_abs q) ops"
proof (induction ops arbitrary: q)
  case (Cons op ops)
  show ?case
  proof (cases op)
    case (Offer v raw release)
    then show ?thesis using ring_offer_refines[OF Cons.prems, of parse v raw release] Cons.IH by (simp add: case_prod_unfold)
  next
    case Next
    then show ?thesis using ring_next_refines[OF Cons.prems, of z] Cons.IH by (simp add: case_prod_unfold)
  next
    case Clear
    have "ring_ok (ring_clear z q)" using Cons.prems by (simp add: ring_ok_def ring_clear_def ringSize_def)
    moreover have "ring_abs (ring_clear z q) = \<lparr>mq_items = [], mq_buttons = 0\<rparr>"
      by (simp add: ring_abs_def ring_clear_def ring_items_def)
    ultimately show ?thesis using Clear Cons.IH[of "ring_clear z q"] by simp
  qed
qed simp

text \<open>C25: The ring is a queue: for every sequence of offers, removals and clearings it gives the answers of a first-in first-out list of
  at most 64 values in which only a movement may take the place of the last movement - across the end of the array too.\<close>

theorem ring_refines_queue:
  "ring_run parse z (new_ring z) ops = list_run parse \<lparr>mq_items = [], mq_buttons = 0\<rparr> ops"
proof -
  have "ring_ok (new_ring z)" by (simp add: ring_ok_def new_ring_def ringSize_def)
  moreover have "ring_abs (new_ring z) = \<lparr>mq_items = [], mq_buttons = 0\<rparr>" by (simp add: ring_abs_def new_ring_def ring_items_def)
  ultimately show ?thesis using ring_run_refines by metis
qed

end
