(* ===== verification/Spec2Isabelle.thy ===== *)
theory Spec2Isabelle
  imports Wire_Props Gate FileTransfer_Flow SecureConn_Records Account_Licences RateLimit Stun Approval Conference_Safety TurnCredentials PortMap_Props Relay_Props
    CapturePipe_Props Latency ConferenceTurn_Props RemoteInput_Props RelayClient_Props
    PeerPath_Props PeerSession Updater Natmap UILifecycle PortClient FilePermission MoveQueue
begin

text \<open>
  Verification library of YuDesk, a remote desktop in Go: an agent on the controlled computer, a viewer, and a relay that
  introduces them, keeps the accounts and hosts meetings.

  \<^bold>\<open>The program and its models.\<close> An agent waits at the relay, which admits it by its licence or its account and pairs it with a viewer of the
  same owner; from then on the relay only copies bytes. Over that connection the two ends set up encryption, frame their messages,
  and negotiate a direct path. The agent then streams its screen, takes input, serves files and port mappings.

  \<^item> \<open>Prelude\<close>, \<open>GoStrings\<close> and \<open>NetText\<close> hold what all share: bytes and big-endian integers, exact reads, the functions of
    Go's standard library that the sources call, and the locales below.
  \<^item> Transport. \<open>Wire\<close>, \<open>Wire_Props\<close>: \<open>internal/protocol/protocol.go\<close> and \<open>interleave.go\<close>, packets and fragments and their
    reassembly. \<open>Gate\<close>: \<open>priority.go\<close>, the two-class lock on the writer. \<open>SecureConn\<close>, \<open>SecureConn_Props\<close>, \<open>SecureConn_Records\<close>:
    \<open>internal/secureconn/secureconn.go\<close>, the handshake of both ends and the record layer.
  \<^item> The relay. \<open>Account\<close>, \<open>Account_Props\<close>, \<open>Account_Licences\<close>: \<open>internal/account/account.go\<close> and \<open>device_codes.go\<close>, on the tables of the schema.
    \<open>Relay\<close>, \<open>Relay_Props\<close>: \<open>cmd/yudesk-relay/main.go\<close>, \<open>control.go\<close>, admission, pairing, sessions, stops and the management channel.
    \<open>Conference\<close>, \<open>Conference_Props\<close>, \<open>Conference_Rooms\<close>, \<open>Conference_Safety\<close>: \<open>meeting.go\<close> and \<open>conference.go\<close>. \<open>TurnCredentials\<close>,
    \<open>ConferenceTurn\<close>, \<open>ConferenceTurn_Props\<close>: \<open>conference_turn.go\<close>. \<open>PortMap\<close>, \<open>PortMap_Props\<close>: \<open>portmap.go\<close>. \<open>RateLimit\<close> and \<open>Stun\<close>:
    \<open>internal/natstun/server.go\<close> and the lookup limiter of \<open>resolve.go\<close>.
  \<^item> Clients of the relay. \<open>RelayClient\<close>, \<open>RelayClient_Props\<close>: \<open>internal/relay/relay.go\<close>, \<open>resolve.go\<close>, refusals, policies and the wait for a peer,
    against the relay's side in \<open>Relay\<close>. \<open>PortClient\<close>: \<open>internal/portmap/manager.go\<close> and \<open>internal/agentapp/portmap.go\<close>.
  \<^item> Direct paths. \<open>PeerPath\<close>, \<open>PeerPath_Props\<close>: \<open>internal/peerpath/options.go\<close>, \<open>rtc.go\<close>, \<open>negotiate.go\<close>; the messages are those of \<open>Wire\<close>, the policies those of
    \<open>TurnCredentials\<close>. \<open>PeerSession\<close>: \<open>conn.go\<close> and \<open>tether.go\<close>. \<open>Natmap\<close>: \<open>internal/natmap\<close>, PCP and the choice of a mapping.
  \<^item> The agent. \<open>Approval\<close>: \<open>internal/approval/approval.go\<close>. \<open>FileTransfer\<close>, \<open>FileTransfer_Props\<close>, \<open>FileTransfer_Flow\<close>: \<open>internal/filetransfer/filetransfer.go\<close>,
    and \<open>FilePermission\<close>: \<open>internal/agentapp/file_permission.go\<close> over it. \<open>RemoteInput\<close>, \<open>RemoteInput_Props\<close>: \<open>input_queue.go\<close> and \<open>input.go\<close>.
    \<open>CapturePipe\<close>, \<open>CapturePipe_Props\<close>, \<open>Latency\<close>: \<open>capture_pipeline.go\<close>, \<open>tiles.go\<close>, \<open>internal/stream/latency.go\<close>.
  \<^item> The screen. \<open>Tiles\<close>, \<open>Tiles_Props\<close>: the encoder of \<open>internal/stream/tiles.go\<close> and the viewer's cache of \<open>internal/viewerapp/tiles.go\<close>; \<open>Screen\<close>: from the image
    the agent takes to what the browser shows.
  \<^item> Around it. \<open>Updater\<close>: \<open>internal/updater/updater.go\<close> and \<open>cmd/yudesk-update/main.go\<close>. \<open>UILifecycle\<close>: \<open>internal/uilifecycle/tracker.go\<close>. \<open>MoveQueue\<close>:
    \<open>mobile/core/queue.go\<close>.

  \<^bold>\<open>How code becomes definitions.\<close> A structure is a record, a constructor of errors a constructor of a datatype and an error a left value of a sum. A
  method is a function from the state to its answer and the state after; a function that holds a mutex more than once is one definition per
  section, and a component is the system of its sections as events in any order; what such a function does between its sections, as the cancellation and the wait of \<open>PortClient\<close>,
  is an event of its own. Counters that wrap are words of their width
  (record sequence numbers, generations and permission changes of 64 bits, ports of 16, PCP lifetimes of 32); sizes and times are naturals and
  integers where the code checks their bounds. Definitions keep the names of the code where Isabelle allows it.

  \<^bold>\<open>Interfaces.\<close> Three locales in \<open>Prelude\<close> and \<open>RateLimit\<close> state what components rely on. \<open>fixed_codec\<close> is a codec of fixed width, for the integers of 16, 32 and 64 bits.
  \<open>event_system\<close> is a step function that keeps an invariant; it is interpreted for the key ring and the device codes of the accounts, meeting rooms, TURN sockets,
  the pairing of the relay, its port mappings, the write gate, encrypted connections, file sessions, the input queue and the input session, the screen stream, the tile cache, committed
  paths, and the manager and the requests of the agent's port mappings. \<open>budget\<close> is a limiter that never grants more than its limit in a window, for the STUN budgets and the directory.

  \<^bold>\<open>What is shown.\<close> Security: who is admitted, what an approval, a revocation or a stop achieves, that records of the encrypted
  connection arrive in order or not at all, that the device at the other end is the one that was asked for, that only the host rules a meeting, that a
  program is replaced only by a signed one, that files of the user are never replaced. Agreement: both ends of a negotiation take the same path, a session joins its own ends, the ring is a
  queue, rooms move as their contract allows, a browser sees the screen. Round trips: messages, files, the byte stream over a data channel, PCP
  requests and replies. Progress: sends that never block, bulk data that is not starved, dialling that returns, a negotiation without faults that
  comes to an agreement. The named counterexamples (\<open>close_hook_overtaken\<close>, \<open>ping_failure_keeps_device_busy\<close>, \<open>validate_wraps\<close>, \<open>empty_list_lost\<close>,
  \<open>foreign_error_ends_exchange\<close>) show where the code does something else than its authors seem to intend.

  \<^bold>\<open>Bounds and termination.\<close> Loops are structural or have a measure: fragments by what is left to read, encrypted records and the write of a data channel by the bytes
  left, a search for a free port by the 501 ports of the pool. The wait of \<open>dial_loop\<close> may be endless, so it is an option and \<open>dial_returns\<close> shows when it ends. Four
  definitions have fuel, and for each there is enough: \<open>hkdf_loop\<close> the wanted length (a round adds at least one byte, \<open>SecureConn_Props\<close>), \<open>key_parts\<close> the length of the key, the callers
  \<open>download_all\<close> and \<open>read_to_end\<close> more than the chunks and bytes that are left, which their theorems assume. Results that depend on a counter not coming round say so: fewer
  than \<open>2 ^ 64\<close> records, generations or permission changes.

  \<^bold>\<open>Parameters.\<close> Cryptography (hashes, signatures, AEAD, key agreement, bcrypt) is the record \<open>primitives\<close>, of which the theorems assume by name what they need, such as an
  unforgeable cipher; JSON, PNG and JPEG are pairs of functions, and of JSON the theorems assume by name that it reads what it wrote: a header in
  any form (\<open>Wire_Props\<close>), the signals of a negotiation and the two policies of a session unchanged (\<open>PeerPath_Props\<close>, \<open>RelayClient_Props\<close>); the SQL engine is the tables with a flag for each statement that may fail; clocks,
  random sources, sockets and the operating system answer by arguments. The pion libraries and the UPnP client are not part of the repository, and the FRP client is vendored (\<open>third_party/frp\<close>) and only called: what the
  code asks of them is an argument, too.

  \<^bold>\<open>Not modelled.\<close> The Windows service host and desktop access (calls of the operating system), the web pages of the relay and of the agent (templates and forms over operations
  that are modelled), the viewer's window and its JavaScript, the installer, the command-line tools over the account store, audio, the mobile
  bindings other than their input queue, and the reconnecting loops of the applications, which are timers and logging. Of the components that are
  modelled in part, the start-up of the TURN service, socket deadlines, the discovery of the gateway, the settings of the peer connection, and the JPEG stream of old versions are left out.
\<close>

end
